(* ===== verification/Prelude.thy ===== *)
theory Prelude
  imports Main "HOL-Library.Word"
begin

text \<open>
  Shared vocabulary of the development: machine-word types, the error values that stand for
  the exceptions and undefined behaviours of the C++ code, the result type and its bind, the
  bit tests \<open>x & mask\<close> and products \<open>(cond) * FLAG\<close> the protocol code is written with, and the
  word lemmas the codecs rest on.
\<close>

unbundle bit_operations_syntax

subsection \<open>Machine integers\<close>

text \<open>
  \<open>uint8_t\<close>, \<open>uint16_t\<close>, \<open>uint32_t\<close> are words read with \<open>uint\<close>/\<open>unat\<close>; \<open>int8_t\<close>, \<open>int16_t\<close> are
  the same words read with \<open>sint\<close>.
\<close>

type_synonym u8 = "8 word"
type_synonym u16 = "16 word"
type_synonym u32 = "32 word"
type_synonym u64 = "64 word"
type_synonym i8 = "8 word"
type_synonym i16 = "16 word"

subsection \<open>Errors and results\<close>

text \<open>
  \<open>UB\<close> is the value of a run that reads or writes outside its buffer or array, or that falsifies
  an \<open>assert\<close>: a debug build aborts there, a release build has undefined behaviour. \<open>UB_WRITE\<close> is a write
  outside a buffer where its absence is stated apart. \<open>NOT_MODELLED\<close> is the value of the few branches a definition
  names and does not cover. The other constructors are the \<open>error_type\<close> enumerators of \<open>core/error.hpp\<close> thrown by the modelled code.
\<close>

datatype error =
    UB
  | UB_WRITE
  | NOT_MODELLED
  | ERR_STREAM_MEMORY_TOO_SMALL
  | ERR_UNEXPECTED
  | ERR_X224
  | ERR_NEGO_INCONSISTENT_FLAGS
  | ERR_RDP_PROCESS_POINTER_CACHE_NOT_OK
  | ERR_BITMAP_CACHE_TOO_BIG
  | ERR_RDP_PROTOCOL
  | ERR_BITMAP_DECOMPRESSED_DATA_TOO_LARGE
  | ERR_TRANSPORT_WRITE_FAILED
  | ERR_TRANSPORT_NO_MORE_DATA
  | ERR_TRANSPORT_TLS_NO_CA_CERTIFICATE_AVAILABLE
  | ERR_SOCKET_CONNECT_FAILED
  | ERR_NEGO_NO_PROTOCOL_ENABLED
  | ERR_NEGO_SSL_ONLY_FORBIDDEN
  | ERR_NEGO_RDP_LEGACY_FORBIDDEN
  | ERR_NEGO_SSL_REQUIRED
  | ERR_NEGO_SSL_REQUIRED_BY_SERVER
  | ERR_NEGO_HYBRID_REQUIRED_BY_SERVER
  | ERR_NEGO_NLA_REQUIRED_BY_RESTRICTED_ADMIN_MODE
  | ERR_NEGO_NLA_REQUIRED
  | ERR_NEGO_KRB_REQUIRED
  | ERR_NLA_AUTHENTICATION_FAILED
  | ERR_CREDSSP_KERBEROS_INIT_FAILED
  | ERR_RDP45_COMPRESS_BUFFER_OVERFLOW
  | ERR_RDP_FASTPATH

type_synonym 'a res = "error + 'a"

definition bindR :: "'a res \<Rightarrow> ('a \<Rightarrow> 'b res) \<Rightarrow> 'b res" where
  "bindR m f = (case m of Inl e \<Rightarrow> Inl e | Inr a \<Rightarrow> f a)"

definition assertR :: "bool \<Rightarrow> 'a res \<Rightarrow> 'a res" where
  "assertR b m = (if b then m else Inl UB)"

lemma bindR_simps [simp]:
  "bindR (Inr a) f = f a"
  "bindR (Inl e) f = Inl e"
  by (simp_all add: bindR_def)

lemma assertR_simps [simp]:
  "assertR True m = m"
  "assertR False m = Inl UB"
  by (simp_all add: assertR_def)

lemma bindR_eq_Inr:
  "bindR m f = Inr y \<longleftrightarrow> (\<exists>a. m = Inr a \<and> f a = Inr y)"
  by (cases m) simp_all

lemma bindR_eq_Inl:
  "bindR m f = Inl e \<longleftrightarrow> m = Inl e \<or> (\<exists>a. m = Inr a \<and> f a = Inl e)"
  by (cases m) auto

lemma assertR_eq_Inr: "assertR b m = Inr y \<longleftrightarrow> b \<and> m = Inr y"
  by (simp add: assertR_def)

lemma bindR_cong [fundef_cong]:
  "m = m' \<Longrightarrow> (\<And>a. m' = Inr a \<Longrightarrow> f a = g a) \<Longrightarrow> bindR m f = bindR m' g"
  by (cases m') simp_all

lemma bindR_assoc: "bindR (bindR m f) g = bindR m (\<lambda>a. bindR (f a) g)"
  by (cases m) simp_all

lemma assertR_cong [cong]:
  "b = b' \<Longrightarrow> (b' \<Longrightarrow> m = m') \<Longrightarrow> assertR b m = assertR b' m'"
  by (simp add: assertR_def)

subsection \<open>Flags\<close>

text \<open>
  \<open>has w m\<close> is the C++ test \<open>(w & m)\<close>; \<open>flag c m\<close> is \<open>(c) * m\<close>. A field mask is an \<open>OR\<close> of
  flags, and the lemmas below read any bit of it back.
\<close>

definition has :: "'a::len word \<Rightarrow> 'a word \<Rightarrow> bool" where
  "has w m \<longleftrightarrow> w AND m \<noteq> 0"

definition flag :: "bool \<Rightarrow> 'a::len word \<Rightarrow> 'a word" where
  "flag c m = (if c then m else 0)"

named_theorems flag_simps "evaluation of bit tests on masks built from flags"

lemma has_or [flag_simps]: "has (a OR b) m \<longleftrightarrow> has a m \<or> has b m"
  by (simp add: has_def bit.conj_disj_distrib2 or_eq_0_iff)

lemma has_flag [flag_simps]: "has (flag c k) m \<longleftrightarrow> c \<and> has k m"
  by (simp add: has_def flag_def)

lemma has_0 [flag_simps]: "\<not> has 0 m" "\<not> has w 0"
  by (simp_all add: has_def)

lemmas has_numeral [flag_simps] =
  has_def [of "numeral a" "numeral b" for a b]
  has_def [of 1 "numeral b" for b]
  has_def [of "numeral a" 1 for a]
  has_def [of 1 1]
  has_def [of "numeral a" "- numeral b" for a b]
  has_def [of 1 "- numeral b" for b]

lemma flag_simps_const [simp]: "flag True m = m" "flag False m = 0"
  by (simp_all add: flag_def)

lemma flag_eq_0 [simp]: "flag c m = 0 \<longleftrightarrow> \<not> c \<or> m = 0"
  by (simp add: flag_def)

subsection \<open>Words\<close>

lemma case_le_4_bytes:
  fixes n :: nat
  assumes "n < 32"
  obtains "n < 8" | "8 \<le> n" "n < 16" | "16 \<le> n" "n < 24" | "24 \<le> n" "n < 32"
  using assms by linarith

lemma word16_of_bytes:
  "(ucast (ucast v :: u8) :: u16) OR push_bit 8 (ucast (ucast (drop_bit 8 v) :: u8)) = (v::u16)"
  by (rule bit_word_eqI) (auto simp: bit_simps)

lemma word32_of_bytes:
  fixes v :: u32
  shows "(ucast (ucast v :: u8) :: u32)
      OR push_bit 8 (ucast (ucast (drop_bit 8 v) :: u8))
      OR push_bit 16 (ucast (ucast (drop_bit 16 v) :: u8))
      OR push_bit 24 (ucast (ucast (drop_bit 24 v) :: u8)) = v" (is "?l = v")
proof (rule bit_word_eqI)
  fix n assume "n < LENGTH(32)"
  then have "n < 32" by simp
  then show "bit ?l n = bit v n"
    by (cases rule: case_le_4_bytes) (auto simp: bit_simps)
qed

lemma word24_of_bytes:
  fixes v :: u32
  assumes "drop_bit 24 v = 0"
  shows "push_bit 16 (ucast (ucast (drop_bit 16 v) :: u8))
      OR push_bit 8 (ucast (ucast (drop_bit 8 v) :: u8))
      OR (ucast (ucast v :: u8) :: u32) = v" (is "?l = v")
proof (rule bit_word_eqI)
  fix n assume "n < LENGTH(32)"
  then have n: "n < 32" by simp
  have "\<not> bit v n" if "24 \<le> n"
    using arg_cong [OF assms, of "\<lambda>w. bit w (n - 24)"] that by (simp add: bit_simps)
  with n show "bit ?l n = bit v n"
    by (cases rule: case_le_4_bytes) (auto simp: bit_simps)
qed

text \<open>A signed 8-bit difference survives the trip through one byte.\<close>

lemma sint8_of_int:
  assumes "-128 \<le> d" "d < 128"
  shows "sint (word_of_int d :: u8) = d"
  unfolding sint_sbintrunc' using assms by (simp add: signed_take_bit_int_eq_self)

lemma scast8_of_int:
  assumes "-128 \<le> d" "d < 128"
  shows "(scast (word_of_int d :: u8) :: u16) = word_of_int d"
  unfolding scast_eq by (simp add: sint8_of_int assms)

lemma sint16_range: "- 32768 \<le> sint (w :: u16)" "sint (w :: u16) < 32768"
  using sint_greater_eq [of w] sint_less [of w] by simp_all

lemma uint16_range: "0 \<le> uint (w :: u16)" "uint (w :: u16) < 65536"
  using uint_lt2p [of w] by simp_all

lemma unat8_less: "unat (w :: u8) < 256"
proof -
  have "unat w < 2 ^ LENGTH(8)" by (rule unsigned_less)
  then show ?thesis by simp
qed

lemma sint16_of_int:
  assumes "- 32768 \<le> d" "d < 32768"
  shows "sint (word_of_int d :: u16) = d"
  unfolding sint_sbintrunc' using assms by (simp add: signed_take_bit_int_eq_self)

lemma word_of_int_sint_diff: "(word_of_int (sint a - sint b) :: u16) = a - b"
  by (simp add: wi_hom_sub [symmetric])

lemma word_of_int_uint_diff: "(word_of_int (uint a - uint b) :: u16) = a - b"
  by (simp add: wi_hom_sub [symmetric])

subsection \<open>The first least element of an array\<close>

text \<open>
  The loop \<open>current = first; while (++first < last) if (*first < *current) current = first\<close>, also
  \<open>std::min_element\<close>: the index of the first least element, 0 for an empty range.
\<close>

fun oldest_from :: "'a::linorder \<Rightarrow> nat \<Rightarrow> nat \<Rightarrow> 'a list \<Rightarrow> nat" where
  "oldest_from best cur i [] = cur"
| "oldest_from best cur i (x # xs) =
     (if x < best then oldest_from x i (i + 1) xs else oldest_from best cur (i + 1) xs)"

definition oldest :: "'a::linorder list \<Rightarrow> nat" where
  "oldest xs = (case xs of [] \<Rightarrow> 0 | x # ys \<Rightarrow> oldest_from x 0 1 ys)"

lemma oldest_from_least:
  assumes "pre \<noteq> []" "cur < length pre" "pre ! cur = best" "\<forall>x\<in>set pre. best \<le> x" "i = length pre"
  shows "oldest_from best cur i xs < length (pre @ xs)
    \<and> (\<forall>x\<in>set (pre @ xs). (pre @ xs) ! oldest_from best cur i xs \<le> x)"
  using assms
proof (induction xs arbitrary: pre best cur i)
  case (Cons x xs)
  let ?cur = "if x < best then i else cur" and ?best = "if x < best then x else best"
  have "oldest_from ?best ?cur (i + 1) xs < length ((pre @ [x]) @ xs)
    \<and> (\<forall>y\<in>set ((pre @ [x]) @ xs). ((pre @ [x]) @ xs) ! oldest_from ?best ?cur (i + 1) xs \<le> y)"
    by (rule Cons.IH) (use Cons.prems in \<open>auto simp: nth_append\<close>)
  then show ?case by (auto split: if_splits)
qed (auto simp: nth_append)

lemma oldest_least:
  assumes "xs \<noteq> []"
  shows "oldest xs < length xs" "x \<in> set xs \<Longrightarrow> xs ! oldest xs \<le> x"
  using assms oldest_from_least [of "[hd xs]" 0 "hd xs" 1 "tl xs"]
  by (auto simp: oldest_def split: list.splits)

end
