(* ===== verification/Rects.thy ===== *)
theory Rects
  imports Prelude
begin

text \<open>
  The rectangles of \<open>utils/rect.hpp\<close> and the region of \<open>utils/region.hpp\<close>: coordinates are
  \<open>int16_t\<close>, sizes \<open>uint16_t\<close>, and every operation wraps where the code narrows an \<open>int\<close>. The
  abstract meaning of a rectangle is the set of pixels it covers; the lemmas show that the
  operations are the set operations on the rectangles of a screen.
\<close>

subsection \<open>Rect\<close>

record rect =
  rx :: i16
  ry :: i16
  rcx :: u16
  rcy :: u16

definition smin :: "i16 \<Rightarrow> i16 \<Rightarrow> i16" where
  "smin a b = (if sint b < sint a then b else a)"

definition smax :: "i16 \<Rightarrow> i16 \<Rightarrow> i16" where
  "smax a b = (if sint a < sint b then b else a)"

text \<open>The constructor: sizes outside \<open>1 .. 32768\<close> give an empty rectangle.\<close>

definition mk_rect :: "i16 \<Rightarrow> i16 \<Rightarrow> u16 \<Rightarrow> u16 \<Rightarrow> rect" where
  "mk_rect x y width height =
     (if has ((width - 1) OR (height - 1)) 0x8000
      then \<lparr>rx = x, ry = y, rcx = 0, rcy = 0\<rparr>
      else \<lparr>rx = x, ry = y, rcx = width, rcy = height\<rparr>)"

definition empty_rect :: rect where
  "empty_rect = \<lparr>rx = 0, ry = 0, rcx = 0, rcy = 0\<rparr>"

definition eright :: "rect \<Rightarrow> i16" where
  "eright r = rx r + rcx r"

definition ebottom :: "rect \<Rightarrow> i16" where
  "ebottom r = ry r + rcy r"

definition isempty :: "rect \<Rightarrow> bool" where
  "isempty r \<longleftrightarrow> rcx r = 0 \<or> rcy r = 0"

definition contains_pt :: "rect \<Rightarrow> i16 \<Rightarrow> i16 \<Rightarrow> bool" where
  "contains_pt r x y \<longleftrightarrow> sint x \<ge> sint (rx r) \<and> sint y \<ge> sint (ry r)
     \<and> sint x < sint (rx r) + uint (rcx r) \<and> sint y < sint (ry r) + uint (rcy r)"

definition contains :: "rect \<Rightarrow> rect \<Rightarrow> bool" where
  "contains r inner \<longleftrightarrow> sint (rx inner) \<ge> sint (rx r) \<and> sint (ry inner) \<ge> sint (ry r)
     \<and> sint (eright inner) \<le> sint (eright r) \<and> sint (ebottom inner) \<le> sint (ebottom r)"

definition enlarge_to :: "rect \<Rightarrow> i16 \<Rightarrow> i16 \<Rightarrow> rect" where
  "enlarge_to r x y =
     (if isempty r then mk_rect x y 1 1
      else let x0 = smin (rx r) x; y0 = smin (ry r) y;
               x1 = smax (eright r - 1) x; y1 = smax (ebottom r - 1) y
           in mk_rect x0 y0 (x1 - x0 + 1) (y1 - y0 + 1))"

definition offset_rect :: "rect \<Rightarrow> i16 \<Rightarrow> i16 \<Rightarrow> rect" where
  "offset_rect r dx dy = mk_rect (rx r + dx) (ry r + dy) (rcx r) (rcy r)"

definition shrink :: "rect \<Rightarrow> u16 \<Rightarrow> rect res" where
  "shrink r margin = assertR (uint (rcx r) \<ge> uint margin * 2 \<and> uint (rcy r) \<ge> uint margin * 2)
     (Inr (mk_rect (rx r + margin) (ry r + margin) (rcx r - margin * 2) (rcy r - margin * 2)))"

definition expand :: "rect \<Rightarrow> u16 \<Rightarrow> rect" where
  "expand r margin = mk_rect (rx r - margin) (ry r - margin) (rcx r + margin * 2) (rcy r + margin * 2)"

definition intersect :: "rect \<Rightarrow> rect \<Rightarrow> rect" where
  "intersect r inr =
     (let max_x = smax (rx inr) (rx r); max_y = smax (ry inr) (ry r);
          min_right = smin (eright inr) (eright r); min_bottom = smin (ebottom inr) (ebottom r)
      in mk_rect max_x max_y (min_right - max_x) (min_bottom - max_y))"

definition to_positive :: "rect \<Rightarrow> rect" where
  "to_positive r =
     (let ux = - rx r; uy = - ry r in
      if (sint (rx r) < 0 \<and> rcx r < ux) \<or> (sint (ry r) < 0 \<and> rcy r < uy)
      then mk_rect (if sint (rx r) < 0 then 0 else rx r) (if sint (ry r) < 0 then 0 else ry r) 0 0
      else
        let r1 = (if sint (rx r) < 0 then r\<lparr>rx := 0, rcx := rcx r - ux\<rparr> else r);
            r2 = (if sint (ry r1) < 0 then r1\<lparr>ry := 0, rcy := rcy r1 - uy\<rparr> else r1)
        in r2)"

definition disjunct :: "rect \<Rightarrow> rect \<Rightarrow> rect" where
  "disjunct self r =
     (if isempty self then r
      else if isempty r then self
      else let x = smin (rx r) (rx self); y = smin (ry r) (ry self);
               cx = smax (eright r) (eright self) - x; cy = smax (ebottom r) (ebottom self) - y
           in mk_rect x y cx cy)"

definition has_intersection :: "rect \<Rightarrow> rect \<Rightarrow> bool" where
  "has_intersection r inr \<longleftrightarrow> rcx r \<noteq> 0 \<and> rcy r \<noteq> 0 \<and> \<not> isempty inr
     \<and> ((sint (rx inr) \<ge> sint (rx r) \<and> sint (rx inr) < sint (eright r))
        \<or> (sint (rx r) \<ge> sint (rx inr) \<and> sint (rx r) < sint (eright inr)))
     \<and> ((sint (ry inr) \<ge> sint (ry r) \<and> sint (ry inr) < sint (ebottom r))
        \<or> (sint (ry r) \<ge> sint (ry inr) \<and> sint (ry r) < sint (ebottom inr)))"

text \<open>\<open>difference\<close> calls \<open>fn\<close> on each part; the model returns the parts in that order.\<close>

definition difference :: "rect \<Rightarrow> rect \<Rightarrow> rect list" where
  "difference r a =
     (let i = intersect r a in
      if \<not> isempty i then
        (if sint (ry i) > sint (ry r) then [mk_rect (rx r) (ry r) (rcx r) (ry i - ry r)] else [])
        @ (if sint (rx i) > sint (rx r) then [mk_rect (rx r) (ry i) (rx i - rx r) (rcy i)] else [])
        @ (if sint (eright r) > sint (eright i)
           then [mk_rect (eright i) (ry i) (eright r - eright i) (rcy i)] else [])
        @ (if sint (ry r) + uint (rcy r) > sint (ebottom i)
           then [mk_rect (rx r) (ebottom i) (rcx r) (ebottom r - ebottom i)] else [])
      else [r])"

definition intersect_wh :: "rect \<Rightarrow> u16 \<Rightarrow> u16 \<Rightarrow> rect" where
  "intersect_wh r width height = intersect r (mk_rect 0 0 width height)"

definition has_intersection_pt :: "rect \<Rightarrow> i16 \<Rightarrow> i16 \<Rightarrow> bool" where
  "has_intersection_pt r x y \<longleftrightarrow> rcx r \<noteq> 0 \<and> rcy r \<noteq> 0
     \<and> (sint x \<ge> sint (rx r) \<and> sint x < sint (eright r))
     \<and> (sint y \<ge> sint (ry r) \<and> sint y < sint (ebottom r))"

definition getCenteredX :: "rect \<Rightarrow> int" where
  "getCenteredX r = sint (rx r) + uint (rcx r) div 2"

definition getCenteredY :: "rect \<Rightarrow> int" where
  "getCenteredY r = sint (ry r) + uint (rcy r) div 2"

subsection \<open>DeltaRect\<close>

record delta_rect =
  dleft :: int
  dtop :: int
  dheight :: int
  dwidth :: int

definition mk_delta_rect :: "rect \<Rightarrow> rect \<Rightarrow> delta_rect" where
  "mk_delta_rect r1 r2 =
     \<lparr>dleft = sint (rx r1) - sint (rx r2), dtop = sint (ry r1) - sint (ry r2),
      dheight = uint (rcy r1) - uint (rcy r2), dwidth = uint (rcx r1) - uint (rcx r2)\<rparr>"

definition fully_relative :: "delta_rect \<Rightarrow> bool" where
  "fully_relative d \<longleftrightarrow> (dleft d < 128 \<and> dleft d > -128) \<and> (dtop d < 128 \<and> dtop d > -128)
     \<and> (dwidth d < 128 \<and> dwidth d > -128) \<and> (dheight d < 128 \<and> dheight d > -128)"

subsection \<open>SubRegion\<close>

type_synonym subregion = "rect list"

definition subtract_one :: "rect \<Rightarrow> rect \<Rightarrow> rect list" where
  "subtract_one r rect1 =
     (if contains r rect1 then []
      else
        let sect = intersect r rect1 in
        if isempty sect then [rect1]
        else
          let a = mk_rect (rx rect1) (ry rect1) (rcx rect1) (ry sect - ry rect1);
              b = mk_rect (rx rect1) (ry sect) (rx sect - rx rect1) (rcy sect);
              c = mk_rect (eright sect) (ry sect) (eright rect1 - eright sect) (rcy sect);
              d = mk_rect (rx rect1) (ebottom sect) (rcx rect1) (ebottom rect1 - ebottom sect)
          in filter (\<lambda>q. \<not> isempty q) [a, b, c, d])"

definition subtract_rect :: "subregion \<Rightarrow> rect \<Rightarrow> subregion" where
  "subtract_rect rects r = concat (map (subtract_one r) rects)"

definition add_rect :: "subregion \<Rightarrow> rect \<Rightarrow> subregion" where
  "add_rect rects r = rects @ [r]"

subsection \<open>The pixels of a rectangle\<close>

definition pixels :: "rect \<Rightarrow> (int \<times> int) set" where
  "pixels r = {sint (rx r) ..< sint (rx r) + uint (rcx r)}
            \<times> {sint (ry r) ..< sint (ry r) + uint (rcy r)}"

text \<open>
  A screen rectangle keeps its corners within 15-bit signed coordinates, so that no difference
  of two coordinates leaves the 16-bit range.
\<close>

definition on_screen :: "rect \<Rightarrow> bool" where
  "on_screen r \<longleftrightarrow> -16384 \<le> sint (rx r) \<and> sint (rx r) + uint (rcx r) \<le> 16383
     \<and> -16384 \<le> sint (ry r) \<and> sint (ry r) + uint (rcy r) \<le> 16383"

definition coord_ok :: "i16 \<Rightarrow> bool" where
  "coord_ok v \<longleftrightarrow> -16384 \<le> sint v \<and> sint v \<le> 16383"

subsection \<open>Arithmetic of coordinates and sizes\<close>

lemma has_top16: "has (w::u16) 0x8000 \<longleftrightarrow> 32768 \<le> uint w"
proof -
  have "has w (2 ^ 15) \<longleftrightarrow> bit w 15" unfolding has_def and_exp_eq_0_iff_not_bit by simp
  moreover have "bit w 15 \<longleftrightarrow> odd (uint w div 2 ^ 15)"
    using bit_uint_iff [of w 15] by (simp add: bit_iff_odd [of "uint w"])
  moreover have "uint w div 32768 = (if 32768 \<le> uint w then 1 else 0)"
    using uint16_range [of w] by (auto simp: div_pos_geq div_pos_pos_trivial)
  ultimately show ?thesis by simp
qed

lemma uint_minus_1: "uint (w - 1 :: u16) = (if w = 0 then 65535 else uint w - 1)"
proof (cases "w = 0")
  case False
  then have "1 \<le> uint w" by (metis uint_0_iff uint_ge_0 zless_imp_add1_zle add_0 order_le_less)
  then show ?thesis using False uint16_range[of w] by (simp add: uint_word_ariths)
qed (simp add: unsigned_minus_1_eq_mask mask_eq_exp_minus_1)

lemma mk_rect_sizes:
  "mk_rect x y w h =
     (if w \<noteq> 0 \<and> uint w \<le> 32768 \<and> h \<noteq> 0 \<and> uint h \<le> 32768
      then \<lparr>rx = x, ry = y, rcx = w, rcy = h\<rparr> else \<lparr>rx = x, ry = y, rcx = 0, rcy = 0\<rparr>)"
  unfolding mk_rect_def has_or unfolding has_top16 uint_minus_1 by auto

lemma uint16_of_int: "0 \<le> d \<Longrightarrow> d < 65536 \<Longrightarrow> uint (word_of_int d :: u16) = d"
  by (simp add: uint_word_of_int)

lemma size_of_int:
  assumes "-32768 < w" "w \<le> 32768"
  shows "(word_of_int w :: u16) \<noteq> 0 \<and> uint (word_of_int w :: u16) \<le> 32768 \<longleftrightarrow> 0 < w"
    "0 < w \<Longrightarrow> uint (word_of_int w :: u16) = w"
proof -
  show "0 < w \<Longrightarrow> uint (word_of_int w :: u16) = w" using assms by (simp add: uint16_of_int)
  have "uint (word_of_int w :: u16) = w mod 65536" by (simp add: uint_word_of_int)
  also have "\<dots> = (if w < 0 then w + 65536 else w)"
    using assms by (auto simp: mod_pos_pos_trivial intro: mod_pos_neg_trivial)
      (smt (verit) mod_add_self2 mod_pos_pos_trivial)
  finally show "(word_of_int w :: u16) \<noteq> 0 \<and> uint (word_of_int w :: u16) \<le> 32768 \<longleftrightarrow> 0 < w"
    using assms by (auto simp: word_uint_eq_iff)
qed

lemma pixels_mk_rect:
  assumes "-32768 < w" "w \<le> 32768" "-32768 < h" "h \<le> 32768"
  shows "pixels (mk_rect x y (word_of_int w) (word_of_int h))
     = {sint x ..< sint x + w} \<times> {sint y ..< sint y + h}"
  using size_of_int [of w] size_of_int [of h] assms by (auto simp: mk_rect_sizes pixels_def)

lemma sint_smin: "sint (smin a b) = min (sint a) (sint b)" by (simp add: smin_def min_def)
lemma sint_smax: "sint (smax a b) = max (sint a) (sint b)" by (simp add: smax_def max_def)

lemma eright_on_screen: "on_screen r \<Longrightarrow> sint (eright r) = sint (rx r) + uint (rcx r)"
  and ebottom_on_screen: "on_screen r \<Longrightarrow> sint (ebottom r) = sint (ry r) + uint (rcy r)"
proof -
  have *: "sint (a + b) = sint a + uint b" if "-16384 \<le> sint a" "sint a + uint b \<le> 16383" for a b :: u16
  proof -
    have e: "a + b = word_of_int (sint a + uint b)" by (simp add: wi_hom_add[symmetric])
    show ?thesis unfolding e by (rule sint16_of_int) (use that uint16_range[of b] in linarith)+
  qed
  show "on_screen r \<Longrightarrow> sint (eright r) = sint (rx r) + uint (rcx r)"
   "on_screen r \<Longrightarrow> sint (ebottom r) = sint (ry r) + uint (rcy r)"
    by (simp_all add: on_screen_def eright_def ebottom_def *)
qed

lemma pixels_mk_rect_diff:
  assumes "\<bar>sint x1 - sint x0\<bar> \<le> 32767" "\<bar>sint y1 - sint y0\<bar> \<le> 32767"
  shows "pixels (mk_rect x y (x1 - x0) (y1 - y0))
     = {sint x ..< sint x + (sint x1 - sint x0)} \<times> {sint y ..< sint y + (sint y1 - sint y0)}"
  unfolding word_of_int_sint_diff [symmetric] by (rule pixels_mk_rect) (use assms in auto)

lemma on_screen_ranges:
  assumes "on_screen r"
  shows "-16384 \<le> sint (rx r)" "sint (rx r) \<le> 16383" "-16384 \<le> sint (ry r)" "sint (ry r) \<le> 16383"
    "-16384 \<le> sint (eright r)" "sint (eright r) \<le> 16383" "-16384 \<le> sint (ebottom r)" "sint (ebottom r) \<le> 16383"
    "sint (rx r) \<le> sint (eright r)" "sint (ry r) \<le> sint (ebottom r)"
  using assms uint16_range[of "rcx r"] uint16_range[of "rcy r"]
  unfolding eright_on_screen [OF assms] ebottom_on_screen [OF assms] unfolding on_screen_def by linarith+

lemma pixels_on_screen:
  "on_screen r \<Longrightarrow> pixels r = {sint (rx r) ..< sint (eright r)} \<times> {sint (ry r) ..< sint (ebottom r)}"
  by (simp add: pixels_def eright_on_screen ebottom_on_screen)

lemma pixels_intersect:
  assumes "on_screen a" "on_screen b"
  shows "pixels (intersect a b) = pixels a \<inter> pixels b"
proof -
  note r = on_screen_ranges[OF assms(1)] on_screen_ranges[OF assms(2)]
  have "pixels (intersect a b) = 
     {sint (smax (rx b) (rx a)) ..< sint (smin (eright b) (eright a))} \<times> {sint (smax (ry b) (ry a)) ..< sint (smin (ebottom b) (ebottom a))}"
    unfolding intersect_def Let_def
    by (subst pixels_mk_rect_diff) (use r in \<open>auto simp: sint_smin sint_smax\<close>)
  then show ?thesis by (auto simp: pixels_on_screen assms sint_smin sint_smax)
qed

abbreviation box :: "i16 \<Rightarrow> i16 \<Rightarrow> i16 \<Rightarrow> i16 \<Rightarrow> rect" where
  "box x0 y0 x1 y1 \<equiv> mk_rect x0 y0 (x1 - x0) (y1 - y0)"

lemma coord_ok_smin [simp]: "coord_ok a \<Longrightarrow> coord_ok b \<Longrightarrow> coord_ok (smin a b)"
  and coord_ok_smax [simp]: "coord_ok a \<Longrightarrow> coord_ok b \<Longrightarrow> coord_ok (smax a b)"
  by (auto simp: coord_ok_def smin_def smax_def)

lemma on_screen_coords:
  assumes "on_screen r"
  shows "coord_ok (rx r)" "coord_ok (ry r)" "coord_ok (eright r)" "coord_ok (ebottom r)"
  using on_screen_ranges[OF assms] by (simp_all add: coord_ok_def)

lemma uint_diff16:
  fixes a b :: u16
  assumes "sint b \<le> sint a" "coord_ok a" "coord_ok b"
  shows "uint (a - b) = sint a - sint b"
  unfolding word_of_int_sint_diff [symmetric]
  by (rule uint16_of_int) (use assms in \<open>auto simp: coord_ok_def\<close>)

lemma isempty_pixels: "isempty r \<longleftrightarrow> pixels r = {}"
proof -
  have z: "0 < uint w \<longleftrightarrow> w \<noteq> 0" for w :: u16
    using word_neq_0_conv [of w] by (simp add: word_less_def)
  have "pixels r = {} \<longleftrightarrow> \<not> (0 < uint (rcx r)) \<or> \<not> (0 < uint (rcy r))"
    unfolding pixels_def by auto
  then show ?thesis unfolding z isempty_def by blast
qed

lemma size_diff16:
  fixes a b :: i16
  assumes "coord_ok a" "coord_ok b"
  shows "b - a \<noteq> 0 \<and> uint (b - a) \<le> 32768 \<longleftrightarrow> sint a < sint b"
    "sint a < sint b \<Longrightarrow> uint (b - a) = sint b - sint a"
  using size_of_int [of "sint b - sint a"] assms
  by (simp_all add: word_of_int_sint_diff coord_ok_def)

lemma box_nonneg:
  assumes c: "coord_ok x0" "coord_ok y0" "coord_ok x1" "coord_ok y1"
  shows "pixels (box x0 y0 x1 y1) = {sint x0 ..< sint x1} \<times> {sint y0 ..< sint y1}"
    "isempty (box x0 y0 x1 y1) \<longleftrightarrow> sint x1 \<le> sint x0 \<or> sint y1 \<le> sint y0"
    "on_screen (box x0 y0 x1 y1)"
proof -
  show "pixels (box x0 y0 x1 y1) = {sint x0 ..< sint x1} \<times> {sint y0 ..< sint y1}"
    by (subst pixels_mk_rect_diff) (use c in \<open>auto simp: coord_ok_def\<close>)
  then show "isempty (box x0 y0 x1 y1) \<longleftrightarrow> sint x1 \<le> sint x0 \<or> sint y1 \<le> sint y0"
    unfolding isempty_pixels by auto
  show "on_screen (box x0 y0 x1 y1)"
    using size_diff16 [OF c(1,3)] size_diff16 [OF c(2,4)] c
    unfolding on_screen_def mk_rect_sizes by (auto simp: coord_ok_def)
qed

lemma box_edges:
  assumes c: "coord_ok x0" "coord_ok y0" "coord_ok x1" "coord_ok y1"
    and ne: "\<not> isempty (box x0 y0 x1 y1)"
  shows "rx (box x0 y0 x1 y1) = x0" "ry (box x0 y0 x1 y1) = y0"
    "eright (box x0 y0 x1 y1) = x1" "ebottom (box x0 y0 x1 y1) = y1"
    "rcx (box x0 y0 x1 y1) = x1 - x0" "rcy (box x0 y0 x1 y1) = y1 - y0"
  using ne by (auto simp: mk_rect_sizes isempty_def eright_def ebottom_def split: if_splits)

lemma rect_size_diff: "rcx r = eright r - rx r" "rcy r = ebottom r - ry r"
  by (simp_all add: eright_def ebottom_def)

lemma intersect_box:
  "intersect r a = box (smax (rx a) (rx r)) (smax (ry a) (ry r)) (smin (eright a) (eright r)) (smin (ebottom a) (ebottom r))"
  by (simp add: intersect_def Let_def)

subsection \<open>Set operations\<close>

definition pieces :: "rect \<Rightarrow> rect \<Rightarrow> rect list" where
  "pieces r i =
     [box (rx r) (ry r) (eright r) (ry i), box (rx r) (ry i) (rx i) (ebottom i),
      box (eright i) (ry i) (eright r) (ebottom i), box (rx r) (ebottom i) (eright r) (ebottom r)]"

definition sub_box :: "rect \<Rightarrow> rect \<Rightarrow> bool" where
  "sub_box r i \<longleftrightarrow> on_screen r \<and> on_screen i \<and> sint (rx r) \<le> sint (rx i) \<and> sint (ry r) \<le> sint (ry i)
     \<and> sint (eright i) \<le> sint (eright r) \<and> sint (ebottom i) \<le> sint (ebottom r) \<and> \<not> isempty i"

lemma intersect_edges:
  assumes "on_screen r" "on_screen a" and ne: "\<not> isempty (intersect r a)"
  shows "sub_box r (intersect r a)" "sub_box a (intersect r a)"
proof -
  note c = on_screen_coords [OF assms(1)] on_screen_coords [OF assms(2)]
  note e = box_edges [OF _ _ _ _ ne [unfolded intersect_box]]
  show "sub_box r (intersect r a)" "sub_box a (intersect r a)"
    unfolding sub_box_def using ne assms unfolding intersect_box
    by (simp_all add: e c box_nonneg(3) sint_smin sint_smax)
qed

lemma sub_box_less:
  assumes "sub_box r i"
  shows "sint (rx i) < sint (eright i)" "sint (ry i) < sint (ebottom i)"
  using assms by (auto simp: sub_box_def isempty_pixels pixels_on_screen)

definition parts_of :: "rect list \<Rightarrow> (int \<times> int) set \<Rightarrow> bool" where
  "parts_of rs P \<longleftrightarrow> \<Union> (pixels ` set rs) = P \<and> sorted_wrt (\<lambda>p q. pixels p \<inter> pixels q = {}) rs
     \<and> list_all on_screen rs"

lemma parts_of_filter: "parts_of rs P \<Longrightarrow> parts_of (filter (\<lambda>q. \<not> isempty q) rs) P"
  by (auto simp: parts_of_def isempty_pixels sorted_wrt_filter list_all_iff)

lemma parts_of_append:
  "parts_of xs P \<Longrightarrow> parts_of ys Q \<Longrightarrow> P \<inter> Q = {} \<Longrightarrow> parts_of (xs @ ys) (P \<union> Q)"
  unfolding parts_of_def by (fastforce simp: sorted_wrt_append)

lemma pieces_parts:
  assumes "sub_box r i"
  shows "parts_of (pieces r i) (pixels r - pixels i)"
proof -
  have s: "on_screen r" "on_screen i" using assms by (simp_all add: sub_box_def)
  note c = on_screen_coords [OF s(1)] on_screen_coords [OF s(2)]
  note px = box_nonneg(1) [OF c(1,2,3,6)] box_nonneg(1) [OF c(1,6,5,8)]
    box_nonneg(1) [OF c(7,6,3,8)] box_nonneg(1) [OF c(1,8,3,4)] pixels_on_screen [OF s(1)] pixels_on_screen [OF s(2)]
  have 1: "\<Union> (pixels ` set (pieces r i)) = pixels r - pixels i"
    using assms sub_box_less [OF assms] unfolding pieces_def sub_box_def by (simp add: px) (auto simp: not_less)
  have 2: "sorted_wrt (\<lambda>p q. pixels p \<inter> pixels q = {}) (pieces r i)"
    using assms sub_box_less [OF assms] unfolding pieces_def sub_box_def by (auto simp: px)
  have 3: "list_all on_screen (pieces r i)"
    unfolding pieces_def by (simp add: box_nonneg(3) c)
  from 1 2 3 show ?thesis unfolding parts_of_def by simp
qed

lemma difference_pieces:
  assumes "on_screen r" "on_screen a"
  shows "difference r a = (if isempty (intersect r a) then [r]
     else filter (\<lambda>q. \<not> isempty q) (pieces r (intersect r a)))"
proof (cases "isempty (intersect r a)")
  case True then show ?thesis by (simp add: difference_def)
next
  case False
  define i where "i = intersect r a"
  have sb: "sub_box r i" unfolding i_def by (rule intersect_edges(1)[OF assms False])
  then have s: "on_screen i" by (simp add: sub_box_def)
  note c = on_screen_coords [OF assms(1)] on_screen_coords [OF s]
  note em = box_nonneg(2) [OF c(1,2,3,6)] box_nonneg(2) [OF c(1,6,5,8)]
    box_nonneg(2) [OF c(7,6,3,8)] box_nonneg(2) [OF c(1,8,3,4)]
  have "sint (ry r) + uint (rcy r) = sint (ebottom r)" using ebottom_on_screen[OF assms(1)] by simp
  then show ?thesis using False sb sub_box_less[OF sb] 
    unfolding difference_def i_def[symmetric] Let_def pieces_def sub_box_def
    by (simp add: em rect_size_diff not_le not_less)
qed

lemma difference_parts:
  assumes "on_screen r" "on_screen a"
  shows "parts_of (difference r a) (pixels r - pixels a)"
proof (cases "isempty (intersect r a)")
  case True
  then have "pixels r - pixels a = pixels r"
    unfolding isempty_pixels pixels_intersect[OF assms] by blast
  with True show ?thesis using assms by (simp add: difference_pieces parts_of_def)
next
  case False
  have "pixels r - pixels a = pixels r - pixels (intersect r a)"
    unfolding pixels_intersect[OF assms] by blast
  then show ?thesis using False pieces_parts[OF intersect_edges(1)[OF assms False]]
    by (simp add: difference_pieces assms parts_of_filter)
qed

lemma contains_iff:
  assumes "on_screen r" "on_screen a" "\<not> isempty a"
  shows "contains r a \<longleftrightarrow> pixels a \<subseteq> pixels r"
proof -
  have "sint (rx a) < sint (eright a)" "sint (ry a) < sint (ebottom a)"
    using assms(2,3) by (auto simp: isempty_pixels pixels_on_screen)
  then show ?thesis unfolding contains_def pixels_on_screen[OF assms(1)] pixels_on_screen[OF assms(2)]
    by (auto simp: times_subset_iff)
qed

lemma subtract_one_parts:
  assumes "on_screen r" "on_screen a"
  shows "parts_of (subtract_one r a) (pixels a - pixels r)"
proof -
  consider "contains r a" | "\<not> contains r a" "isempty (intersect r a)" | "\<not> contains r a" "\<not> isempty (intersect r a)" by blast
  then show ?thesis
  proof cases
    case 1
    then have "pixels a \<subseteq> pixels r"
      using contains_iff[OF assms] by (cases "isempty a") (auto simp: isempty_pixels)
    then show ?thesis using 1 by (auto simp: subtract_one_def parts_of_def)
  next
    case 2
    then have "pixels a - pixels r = pixels a"
      unfolding isempty_pixels pixels_intersect[OF assms] by blast
    then show ?thesis using 2 assms by (simp add: subtract_one_def parts_of_def)
  next
    case 3
    have "subtract_one r a = filter (\<lambda>q. \<not> isempty q) (pieces a (intersect r a))"
      using 3 by (simp add: subtract_one_def Let_def pieces_def rect_size_diff)
    moreover have "pixels a - pixels r = pixels a - pixels (intersect r a)"
      unfolding pixels_intersect[OF assms] by blast
    ultimately show ?thesis using pieces_parts[OF intersect_edges(2)[OF assms 3(2)]]
      by (simp add: parts_of_filter)
  qed
qed

lemma subtract_rect_parts:
  assumes "on_screen r" "parts_of rs P"
  shows "parts_of (subtract_rect rs r) (P - pixels r)"
  using assms(2)
proof (induction rs arbitrary: P)
  case Nil
  then show ?case by (auto simp: subtract_rect_def parts_of_def)
next
  case (Cons a rs)
  let ?Q = "\<Union> (pixels ` set rs)"
  from Cons.prems have P: "P = pixels a \<union> ?Q" and a: "on_screen a" and d: "pixels a \<inter> ?Q = {}"
    and q: "parts_of rs ?Q" by (auto simp: parts_of_def)
  have "subtract_rect (a # rs) r = subtract_one r a @ subtract_rect rs r"
    by (simp add: subtract_rect_def)
  moreover have "P - pixels r = (pixels a - pixels r) \<union> (?Q - pixels r)" using P by blast
  ultimately show ?case
    using parts_of_append [OF subtract_one_parts [OF assms(1) a] Cons.IH [OF q]] d by auto
qed

lemma has_intersection_iff:
  assumes "on_screen r" "on_screen a"
  shows "has_intersection r a \<longleftrightarrow> pixels r \<inter> pixels a \<noteq> {}"
proof -
  have "rcx r \<noteq> 0 \<and> rcy r \<noteq> 0 \<longleftrightarrow> \<not> isempty r" by (simp add: isempty_def)
  then have "has_intersection r a \<longleftrightarrow> (sint (rx r) < sint (eright r) \<and> sint (ry r) < sint (ebottom r))
     \<and> (sint (rx a) < sint (eright a) \<and> sint (ry a) < sint (ebottom a))
     \<and> ((sint (rx a) \<ge> sint (rx r) \<and> sint (rx a) < sint (eright r))
        \<or> (sint (rx r) \<ge> sint (rx a) \<and> sint (rx r) < sint (eright a)))
     \<and> ((sint (ry a) \<ge> sint (ry r) \<and> sint (ry a) < sint (ebottom r))
        \<or> (sint (ry r) \<ge> sint (ry a) \<and> sint (ry r) < sint (ebottom a)))"
    unfolding has_intersection_def isempty_pixels pixels_on_screen[OF assms(1)] pixels_on_screen[OF assms(2)]
    by auto
  also have "\<dots> \<longleftrightarrow> pixels r \<inter> pixels a \<noteq> {}"
    unfolding pixels_on_screen[OF assms(1)] pixels_on_screen[OF assms(2)]
    unfolding Times_Int_Times by (auto simp: min_def max_def)
  finally show ?thesis .
qed


lemma to_positive_pixels:
  assumes "uint (rcx r) \<le> 32768" "uint (rcy r) \<le> 32768"
  shows "pixels (to_positive r) = pixels r \<inter> {p. 0 \<le> fst p \<and> 0 \<le> snd p}"
proof -
  have neg: "uint (- w) = - sint w" if "sint w < 0" for w :: i16
  proof -
    have "- w = word_of_int (- sint w)" by (simp add: wi_hom_neg [symmetric])
    moreover have "uint (word_of_int (- sint w) :: u16) = - sint w"
      by (rule uint16_of_int) (use that sint16_range [of w] in auto)
    ultimately show ?thesis by simp
  qed
  have sub: "uint (v + w) = uint v + sint w" if "sint w < 0" "\<not> uint v < - sint w" for v w :: u16
    using that neg [of w] uint_sub_lem [of "-w" v] by simp
  have lt: "v < - w \<longleftrightarrow> uint v < - sint w" if "sint w < 0" for v w :: u16
    using neg [OF that] by (simp add: word_less_def)
  show ?thesis
    unfolding to_positive_def Let_def pixels_def
    by (cases "sint (rx r) < 0"; cases "sint (ry r) < 0")
      (auto simp: mk_rect_sizes lt sub)
qed

lemma disjunct_pixels:
  assumes "on_screen a" "on_screen b" "\<not> isempty a" "\<not> isempty b"
  shows "on_screen (disjunct a b)" "pixels a \<union> pixels b \<subseteq> pixels (disjunct a b)"
    "on_screen c \<Longrightarrow> pixels a \<union> pixels b \<subseteq> pixels c \<Longrightarrow> pixels (disjunct a b) \<subseteq> pixels c"
proof -
  note c = on_screen_coords [OF assms(1)] on_screen_coords [OF assms(2)]
  have e: "disjunct a b = box (smin (rx b) (rx a)) (smin (ry b) (ry a)) (smax (eright b) (eright a)) (smax (ebottom b) (ebottom a))"
    using assms by (simp add: disjunct_def Let_def)
  have px: "pixels (disjunct a b) = {min (sint (rx b)) (sint (rx a)) ..< max (sint (eright b)) (sint (eright a))}
     \<times> {min (sint (ry b)) (sint (ry a)) ..< max (sint (ebottom b)) (sint (ebottom a))}"
    unfolding e by (simp add: box_nonneg c sint_smin sint_smax)
  show "on_screen (disjunct a b)" unfolding e by (simp add: box_nonneg c)
  show "pixels a \<union> pixels b \<subseteq> pixels (disjunct a b)"
    unfolding px pixels_on_screen [OF assms(1)] pixels_on_screen [OF assms(2)] by auto
  assume "on_screen c" "pixels a \<union> pixels b \<subseteq> pixels c"
  then show "pixels (disjunct a b) \<subseteq> pixels c"
    using assms(3,4) unfolding px isempty_pixels
    by (auto simp: pixels_on_screen assms times_subset_iff min_def max_def)
qed

lemma sint_succ16: "sint w < 32767 \<Longrightarrow> sint (w + 1 :: i16) = sint w + 1"
proof -
  assume a: "sint w < 32767"
  have "w + 1 = word_of_int (sint w + 1)" by (simp add: wi_hom_add [symmetric])
  moreover have "sint (word_of_int (sint w + 1) :: i16) = sint w + 1"
    by (rule sint16_of_int) (use a sint16_range [of w] in linarith)+
  ultimately show ?thesis by simp
qed

lemma sint_pred16: "- 32768 < sint w \<Longrightarrow> sint (w - 1 :: i16) = sint w - 1"
proof -
  assume a: "- 32768 < sint w"
  have "w - 1 = word_of_int (sint w - 1)" by (simp add: wi_hom_sub [symmetric])
  moreover have "sint (word_of_int (sint w - 1) :: i16) = sint w - 1"
    by (rule sint16_of_int) (use a sint16_range [of w] in linarith)+
  ultimately show ?thesis by simp
qed

lemma enlarge_to_pixels:
  assumes "on_screen r" "\<not> isempty r" "coord_ok x" "coord_ok y" "sint x < 16383" "sint y < 16383"
  shows "on_screen (enlarge_to r x y)" "insert (sint x, sint y) (pixels r) \<subseteq> pixels (enlarge_to r x y)"
proof -
  note c = on_screen_coords [OF assms(1)]
  have lt: "sint (rx r) < sint (eright r)" "sint (ry r) < sint (ebottom r)"
    using assms(1,2) by (auto simp: isempty_pixels pixels_on_screen)
  define x1 where "x1 = smax (eright r - 1) x"
  define y1 where "y1 = smax (ebottom r - 1) y"
  have e: "enlarge_to r x y = box (smin (rx r) x) (smin (ry r) y) (x1 + 1) (y1 + 1)"
    using assms(2) by (simp add: enlarge_to_def Let_def x1_def y1_def algebra_simps)
  have s1: "sint (x1 + 1) = max (sint (eright r)) (sint x + 1)" "sint (y1 + 1) = max (sint (ebottom r)) (sint y + 1)"
  proof -
    have "sint x1 = max (sint (eright r) - 1) (sint x)" "sint y1 = max (sint (ebottom r) - 1) (sint y)"
      using c by (simp_all add: x1_def y1_def sint_smax sint_pred16 coord_ok_def)
    moreover from this have "sint x1 < 32767" "sint y1 < 32767"
      using c assms by (auto simp: coord_ok_def)
    ultimately show "sint (x1 + 1) = max (sint (eright r)) (sint x + 1)" "sint (y1 + 1) = max (sint (ebottom r)) (sint y + 1)"
      by (auto simp: sint_succ16 max_def)
  qed
  have c1: "coord_ok (x1 + 1)" "coord_ok (y1 + 1)"
    unfolding coord_ok_def s1 using c assms by (auto simp: coord_ok_def)
  have b: "on_screen (enlarge_to r x y)" "pixels (enlarge_to r x y)
     = {min (sint (rx r)) (sint x) ..< max (sint (eright r)) (sint x + 1)}
     \<times> {min (sint (ry r)) (sint y) ..< max (sint (ebottom r)) (sint y + 1)}"
    unfolding e by (simp_all add: box_nonneg c c1 assms sint_smin s1)
  then show "on_screen (enlarge_to r x y)" by simp
  show "insert (sint x, sint y) (pixels r) \<subseteq> pixels (enlarge_to r x y)"
    unfolding b(2) pixels_on_screen [OF assms(1)] by auto
qed

subsection \<open>Properties\<close>

text \<open>
  C37. \<open>SubRegion::subtract_rect\<close> is exact: if the region's rectangles tile a set of pixels without
  overlap, then after subtracting a rectangle they tile exactly the remaining pixels, again
  without overlap and still on the screen.
\<close>

theorem subtract_rect_exact:
  assumes "on_screen r" "parts_of rs P"
  shows "parts_of (subtract_rect rs r) (P - pixels r)"
  using assms by (rule subtract_rect_parts)

definition sample_a :: rect where "sample_a = \<lparr>rx = 10, ry = 10, rcx = 100, rcy = 50\<rparr>"
definition sample_b :: rect where "sample_b = \<lparr>rx = -5, ry = 20, rcx = 40, rcy = 10\<rparr>"

lemma samples_on_screen: "on_screen sample_a" "on_screen sample_b" "\<not> isempty sample_a" "\<not> isempty sample_b"
  by (simp_all add: on_screen_def sample_a_def sample_b_def isempty_def)

theorem subtract_rect_exact_witness:
  "parts_of (subtract_rect [sample_a] sample_b) (pixels sample_a - pixels sample_b)
   \<and> subtract_rect [sample_a] sample_b \<noteq> [sample_a]"
proof
  have "parts_of [sample_a] (pixels sample_a)" by (simp add: parts_of_def samples_on_screen)
  then show "parts_of (subtract_rect [sample_a] sample_b) (pixels sample_a - pixels sample_b)"
    by (rule subtract_rect_exact [OF samples_on_screen(2)])
  show "subtract_rect [sample_a] sample_b \<noteq> [sample_a]"
    by code_simp
qed

text \<open>
  \<open>Rect::difference\<close> partitions: the parts it calls \<open>fn\<close> with are disjoint, stay on the screen,
  and cover exactly the pixels of the rectangle that are not in the other one.
\<close>

theorem difference_partition:
  assumes "on_screen r" "on_screen a"
  shows "\<Union> (pixels ` set (difference r a)) = pixels r - pixels a
    \<and> sorted_wrt (\<lambda>p q. pixels p \<inter> pixels q = {}) (difference r a) \<and> list_all on_screen (difference r a)"
  using difference_parts [OF assms] by (simp add: parts_of_def)

theorem difference_partition_witness:
  "\<Union> (pixels ` set (difference sample_a sample_b)) = pixels sample_a - pixels sample_b
   \<and> length (difference sample_a sample_b) = 3"
proof
  show "\<Union> (pixels ` set (difference sample_a sample_b)) = pixels sample_a - pixels sample_b"
    using difference_partition [OF samples_on_screen(1,2)] by simp
  show "length (difference sample_a sample_b) = 3" by code_simp
qed

text \<open>
  On screen rectangles \<open>intersect\<close>, \<open>contains\<close> and \<open>has_intersection\<close> are intersection,
  inclusion and overlap of the pixel sets (\<open>contains\<close> for a non-empty inner rectangle).
\<close>

theorem rect_set_operations:
  assumes "on_screen r" "on_screen a" "\<not> isempty a"
  shows "pixels (intersect r a) = pixels r \<inter> pixels a \<and> (contains r a \<longleftrightarrow> pixels a \<subseteq> pixels r)
    \<and> (has_intersection r a \<longleftrightarrow> pixels r \<inter> pixels a \<noteq> {})"
  using pixels_intersect [OF assms(1,2)] contains_iff [OF assms] has_intersection_iff [OF assms(1,2)] by simp

theorem rect_set_operations_witness:
  "pixels (intersect sample_a sample_b) = pixels sample_a \<inter> pixels sample_b
   \<and> (contains sample_a sample_b \<longleftrightarrow> pixels sample_b \<subseteq> pixels sample_a) \<and> has_intersection sample_a sample_b"
proof -
  have "has_intersection sample_a sample_b" by code_simp
  then show ?thesis using rect_set_operations [OF samples_on_screen(1,2,4)] by simp
qed

text \<open>
  Bounding boxes: \<open>disjunct\<close> is the smallest rectangle around two non-empty ones, and
  \<open>to_positive\<close> cuts a rectangle at the origin.
\<close>

theorem bounding_box:
  assumes "on_screen a" "on_screen b" "\<not> isempty a" "\<not> isempty b"
    "on_screen c" "pixels a \<union> pixels b \<subseteq> pixels c"
  shows "pixels a \<union> pixels b \<subseteq> pixels (disjunct a b) \<and> pixels (disjunct a b) \<subseteq> pixels c
    \<and> pixels (to_positive (disjunct a b)) = pixels (disjunct a b) \<inter> {p. 0 \<le> fst p \<and> 0 \<le> snd p}"
proof -
  have "on_screen (disjunct a b)" by (rule disjunct_pixels(1) [OF assms(1-4)])
  then have "uint (rcx (disjunct a b)) \<le> 32768" "uint (rcy (disjunct a b)) \<le> 32768"
    by (simp_all add: on_screen_def)
  from to_positive_pixels [OF this] disjunct_pixels(2) [OF assms(1-4)] disjunct_pixels(3) [OF assms]
  show ?thesis by simp
qed

theorem bounding_box_witness:
  "pixels sample_a \<union> pixels sample_b \<subseteq> pixels (disjunct sample_a sample_b)
   \<and> disjunct sample_a sample_b = \<lparr>rx = -5, ry = 10, rcx = 115, rcy = 50\<rparr>"
proof
  note d = disjunct_pixels [OF samples_on_screen]
  show "pixels sample_a \<union> pixels sample_b \<subseteq> pixels (disjunct sample_a sample_b)"
    using bounding_box [OF samples_on_screen d(1,2)] by simp
  show "disjunct sample_a sample_b = \<lparr>rx = -5, ry = 10, rcx = 115, rcy = 50\<rparr>"
    by code_simp
qed

text \<open>
  Outside the screen range the narrowing to 16 bits shows: two rectangles with no common pixel,
  more than 32768 pixels apart, have a non-empty \<open>intersect\<close>.
\<close>

theorem intersect_far_apart:
  "\<exists>a b. pixels a \<inter> pixels b = {} \<and> \<not> has_intersection a b \<and> \<not> isempty (intersect a b)"
proof (intro exI conjI)
  let ?a = "mk_rect (-32768) 0 10 10" and ?b = "mk_rect 32000 0 10 10"
  have "?a = \<lparr>rx = -32768, ry = 0, rcx = 10, rcy = 10\<rparr>" "?b = \<lparr>rx = 32000, ry = 0, rcx = 10, rcy = 10\<rparr>"
    by code_simp+
  then show "pixels ?a \<inter> pixels ?b = {}" by (auto simp: pixels_def)
  show "\<not> has_intersection ?a ?b" by code_simp
  show "\<not> isempty (intersect ?a ?b)" by code_simp
qed

text \<open>
  \<open>contains\<close> is false for an empty inner rectangle that lies outside, and the constructor keeps
  the position of an empty rectangle: both against the comments beside them.
\<close>

theorem contains_empty_outside:
  "\<exists>r e. isempty e \<and> \<not> contains r e \<and> mk_rect (rx e) (ry e) 0 0 = e \<and> e \<noteq> empty_rect"
  by (rule exI [of _ "mk_rect 0 0 10 10"], rule exI [of _ "mk_rect 20 20 0 0"]) code_simp

end
