(* ===== verification/Streams.thy ===== *)
theory Streams
  imports Prelude
begin

text \<open>
  The byte streams of \<open>utils/stream.hpp\<close> and \<open>utils/parse.hpp\<close>: \<open>InStream\<close> with its read
  operations, \<open>OutStream\<close> with its write operations, and the two interfaces every decoder of
  the development satisfies: \<open>reader\<close> (reads move forward over the buffer and change nothing)
  and \<open>codec\<close> (a reader that gives back what a writer wrote).
\<close>

subsection \<open>InStream\<close>

text \<open>
  An \<open>InStream\<close> is the triple \<open>begin\<close>, \<open>p\<close>, \<open>end\<close>. The two lists are \<open>get_consumed_bytes()\<close>
  (from \<open>begin\<close> to \<open>p\<close>) and \<open>remaining_bytes()\<close> (from \<open>p\<close> to \<open>end\<close>). A read whose
  \<open>assert(in_check_rem(n))\<close> fails is \<open>Inl UB\<close>.
\<close>

datatype instream = InStream (consumed_bytes: "u8 list") (remaining_bytes: "u8 list")

definition instream_of :: "u8 list \<Rightarrow> instream" where
  "instream_of bs = InStream [] bs"

definition get_offset :: "instream \<Rightarrow> nat" where
  "get_offset s = length (consumed_bytes s)"

definition in_remain :: "instream \<Rightarrow> nat" where
  "in_remain s = length (remaining_bytes s)"

definition in_check_rem :: "instream \<Rightarrow> nat \<Rightarrow> bool" where
  "in_check_rem s n \<longleftrightarrow> n \<le> in_remain s"

definition get_data :: "instream \<Rightarrow> u8 list" where
  "get_data s = consumed_bytes s @ remaining_bytes s"

text \<open>\<open>unget\<close> asserts \<open>begin + n < p\<close>, so it cannot go back to the very first byte.\<close>

definition unget :: "nat \<Rightarrow> instream \<Rightarrow> instream res" where
  "unget n s = assertR (n < get_offset s)
     (let k = get_offset s - n
      in Inr (InStream (take k (get_data s)) (drop k (get_data s))))"

definition rewind :: "nat \<Rightarrow> instream \<Rightarrow> instream res" where
  "rewind off s = assertR (off \<le> length (get_data s))
     (Inr (InStream (take off (get_data s)) (drop off (get_data s))))"

definition in_skip_bytes :: "nat \<Rightarrow> instream \<Rightarrow> (u8 list \<times> instream) res" where
  "in_skip_bytes n s = assertR (in_check_rem s n)
     (Inr (take n (remaining_bytes s),
           InStream (consumed_bytes s @ take n (remaining_bytes s)) (drop n (remaining_bytes s))))"

fun in_uint8 :: "instream \<Rightarrow> (u8 \<times> instream) res" where
  "in_uint8 (InStream c (b # r)) = Inr (b, InStream (c @ [b]) r)"
| "in_uint8 _ = Inl UB"

definition in_sint8 :: "instream \<Rightarrow> (i8 \<times> instream) res" where
  "in_sint8 s = in_uint8 s"

fun in_uint16_le :: "instream \<Rightarrow> (u16 \<times> instream) res" where
  "in_uint16_le (InStream c (b0 # b1 # r)) =
     Inr (ucast b0 OR push_bit 8 (ucast b1), InStream (c @ [b0, b1]) r)"
| "in_uint16_le _ = Inl UB"

fun in_uint16_be :: "instream \<Rightarrow> (u16 \<times> instream) res" where
  "in_uint16_be (InStream c (b0 # b1 # r)) =
     Inr (ucast b1 OR push_bit 8 (ucast b0), InStream (c @ [b0, b1]) r)"
| "in_uint16_be _ = Inl UB"

text \<open>The signed 16-bit reads compute \<open>v > 32767 ? v - 65536 : v\<close> in a wider integer.\<close>

definition sign16 :: "u16 \<Rightarrow> i16" where
  "sign16 v = word_of_int (if uint v > 32767 then uint v - 65536 else uint v)"

definition in_sint16_le :: "instream \<Rightarrow> (i16 \<times> instream) res" where
  "in_sint16_le s = bindR (in_uint16_le s) (\<lambda>(v, s). Inr (sign16 v, s))"

definition in_sint16_be :: "instream \<Rightarrow> (i16 \<times> instream) res" where
  "in_sint16_be s = bindR (in_uint16_be s) (\<lambda>(v, s). Inr (sign16 v, s))"

fun in_uint32_le :: "instream \<Rightarrow> (u32 \<times> instream) res" where
  "in_uint32_le (InStream c (b0 # b1 # b2 # b3 # r)) =
     Inr (ucast b0 OR push_bit 8 (ucast b1) OR push_bit 16 (ucast b2) OR push_bit 24 (ucast b3),
          InStream (c @ [b0, b1, b2, b3]) r)"
| "in_uint32_le _ = Inl UB"

fun in_uint32_be :: "instream \<Rightarrow> (u32 \<times> instream) res" where
  "in_uint32_be (InStream c (b0 # b1 # b2 # b3 # r)) =
     Inr (ucast b3 OR push_bit 8 (ucast b2) OR push_bit 16 (ucast b1) OR push_bit 24 (ucast b0),
          InStream (c @ [b0, b1, b2, b3]) r)"
| "in_uint32_be _ = Inl UB"

definition in_2BUE :: "instream \<Rightarrow> (u16 \<times> instream) res" where
  "in_2BUE s =
     bindR (in_uint8 s) (\<lambda>(b, s).
     let len = ucast b :: u16 in
     if has len 0x80
     then bindR (in_uint8 s) (\<lambda>(b1, s). Inr (push_bit 8 (len AND 0x7F) + ucast b1, s))
     else Inr (len, s))"

text \<open>The four-byte unsigned encoding: the two top bits of the first byte give the number of bytes that follow.\<close>

definition in_4BUE :: "instream \<Rightarrow> (u32 \<times> instream) res" where
  "in_4BUE s =
     bindR (in_uint8 s) (\<lambda>(b, s).
     let len = ucast b :: u32 in
     if len AND 0xC0 = 0xC0 then
       bindR (in_uint8 s) (\<lambda>(b1, s). bindR (in_uint8 s) (\<lambda>(b2, s). bindR (in_uint8 s) (\<lambda>(b3, s).
         Inr (push_bit 24 (len AND 0x3F) + push_bit 16 (ucast b1) + push_bit 8 (ucast b2) + ucast b3, s))))
     else if len AND 0xC0 = 0x80 then
       bindR (in_uint8 s) (\<lambda>(b1, s). bindR (in_uint8 s) (\<lambda>(b2, s).
         Inr (push_bit 16 (len AND 0x3F) + push_bit 8 (ucast b1) + ucast b2, s)))
     else if len AND 0xC0 = 0x40 then
       bindR (in_uint8 s) (\<lambda>(b1, s). Inr (push_bit 8 (len AND 0x3F) + ucast b1, s))
     else Inr (len, s))"

text \<open>
  \<open>in_DEP\<close> (delta-encoded point): one byte with a 7-bit signed value, or, when bit 7 is set,
  two bytes with a 15-bit signed value. The \<open>int\<close> arithmetic of the source is kept at 16 bits.
\<close>

definition in_DEP :: "instream \<Rightarrow> (i16 \<times> instream) res" where
  "in_DEP s =
     bindR (in_uint8 s) (\<lambda>(b, s).
     let point = ucast b :: i16 in
     if has point 0x80 then
       bindR (in_uint8 s) (\<lambda>(b1, s).
       let point = push_bit 8 (point AND 0x7F) + ucast b1 in
       Inr (if has point 0x4000 then - (NOT (point - 1) AND 0x7FFF) else point, s))
     else Inr (if has point 0x40 then - (NOT (point - 1) AND 0x7F) else point, s))"

text \<open>A counted loop of reads, as \<open>in_utf16\<close> and the list fields of the orders use it.\<close>

fun in_list :: "(instream \<Rightarrow> ('a \<times> instream) res) \<Rightarrow> nat \<Rightarrow> instream \<Rightarrow> ('a list \<times> instream) res" where
  "in_list rd 0 s = Inr ([], s)"
| "in_list rd (Suc n) s =
     bindR (rd s) (\<lambda>(x, s). bindR (in_list rd n s) (\<lambda>(xs, s). Inr (x # xs, s)))"

definition in_utf16 :: "nat \<Rightarrow> instream \<Rightarrow> (u16 list \<times> instream) res" where
  "in_utf16 n s = in_list in_uint16_le n s"

text \<open>
  \<open>in_utf16_sz\<close>: stops on a zero unit (which it stores), otherwise after \<open>length\<close> units; the
  number is the string length it returns.
\<close>

fun in_utf16_sz :: "nat \<Rightarrow> instream \<Rightarrow> (u16 list \<times> nat \<times> instream) res" where
  "in_utf16_sz 0 s = Inr ([], 0, s)"
| "in_utf16_sz (Suc n) s =
     bindR (in_uint16_le s) (\<lambda>(u, s).
     if u = 0 then Inr ([u], 0, s)
     else bindR (in_utf16_sz n s) (\<lambda>(us, k, s). Inr (u # us, Suc k, s)))"

subsection \<open>OutStream\<close>

text \<open>
  \<open>out_data\<close> are the produced bytes (\<open>begin\<close> to \<open>p\<close>), \<open>out_capacity\<close> is \<open>end - begin\<close>. The
  \<open>bytes_\<close> functions give the bytes a write stores; \<open>out_copy_bytes\<close> stores bytes, and its
  failed \<open>assert(has_room(n))\<close> is \<open>Inl UB\<close>.
\<close>

record outstream =
  out_data :: "u8 list"
  out_capacity :: nat

definition outstream_of :: "nat \<Rightarrow> outstream" where
  "outstream_of n = \<lparr>out_data = [], out_capacity = n\<rparr>"

definition tailroom :: "outstream \<Rightarrow> nat" where
  "tailroom s = out_capacity s - length (out_data s)"

definition has_room :: "outstream \<Rightarrow> nat \<Rightarrow> bool" where
  "has_room s n \<longleftrightarrow> n \<le> tailroom s"

definition out_copy_bytes :: "u8 list \<Rightarrow> outstream \<Rightarrow> outstream res" where
  "out_copy_bytes bs s = assertR (has_room s (length bs)) (Inr (s\<lparr>out_data := out_data s @ bs\<rparr>))"

definition out_rewind :: "outstream \<Rightarrow> outstream" where
  "out_rewind s = s\<lparr>out_data := []\<rparr>"

definition bytes_uint8 :: "u8 \<Rightarrow> u8 list" where
  "bytes_uint8 v = [v]"

definition bytes_uint16_le :: "u16 \<Rightarrow> u8 list" where
  "bytes_uint16_le v = [ucast v, ucast (drop_bit 8 v)]"

definition bytes_uint16_be :: "u16 \<Rightarrow> u8 list" where
  "bytes_uint16_be v = [ucast (drop_bit 8 v), ucast v]"

definition bytes_uint32_le :: "u32 \<Rightarrow> u8 list" where
  "bytes_uint32_le v = [ucast v, ucast (drop_bit 8 v), ucast (drop_bit 16 v), ucast (drop_bit 24 v)]"

definition bytes_uint32_be :: "u32 \<Rightarrow> u8 list" where
  "bytes_uint32_be v = [ucast (drop_bit 24 v), ucast (drop_bit 16 v), ucast (drop_bit 8 v), ucast v]"

definition bytes_2BUE :: "u16 \<Rightarrow> u8 list" where
  "bytes_2BUE v = (if v \<le> 127 then bytes_uint8 (ucast v) else bytes_uint16_be (v OR 0x8000))"

definition bytes_DEP :: "i16 \<Rightarrow> u8 list" where
  "bytes_DEP point =
     (if sint point > 0x3F \<or> sint point < -64 then bytes_uint16_be (point OR 0x8000)
      else bytes_uint8 (ucast (point AND 0x7F)))"

subsection \<open>Interfaces: readers and codecs\<close>

text \<open>\<open>advances s s'\<close>: the position moved forward over the same buffer.\<close>

definition advances :: "instream \<Rightarrow> instream \<Rightarrow> bool" where
  "advances s s' \<longleftrightarrow>
     (\<exists>bs. remaining_bytes s = bs @ remaining_bytes s' \<and> consumed_bytes s' = consumed_bytes s @ bs)"

lemma advances_refl [simp]: "advances s s"
  by (simp add: advances_def)

lemma advances_trans: "advances s t \<Longrightarrow> advances t u \<Longrightarrow> advances s u"
  by (auto simp: advances_def)

lemma advances_get_data: "advances s s' \<Longrightarrow> get_data s' = get_data s"
  by (auto simp: advances_def get_data_def)

lemma advances_in_remain: "advances s s' \<Longrightarrow> in_remain s' \<le> in_remain s"
  by (auto simp: advances_def in_remain_def)

lemma advancesI: "advances (InStream c (bs @ r)) (InStream (c @ bs) r)"
  by (simp add: advances_def)

locale reader =
  fixes rd :: "instream \<Rightarrow> ('a \<times> instream) res"
  assumes rd_advances: "rd s = Inr (x, s') \<Longrightarrow> advances s s'"
begin

lemma rd_same_buffer: "rd s = Inr (x, s') \<Longrightarrow> get_data s' = get_data s"
  by (blast dest: rd_advances advances_get_data)

lemma rd_in_remain: "rd s = Inr (x, s') \<Longrightarrow> in_remain s' \<le> in_remain s"
  by (blast dest: rd_advances advances_in_remain)

lemma in_list_advances:
  "in_list rd n s = Inr (xs, s') \<Longrightarrow> advances s s' \<and> length xs = n"
proof (induction n arbitrary: s xs)
  case 0
  then show ?case by simp
next
  case (Suc n)
  from Suc.prems obtain x t ys where
    "rd s = Inr (x, t)" "in_list rd n t = Inr (ys, s')" "xs = x # ys"
    by (auto simp: bindR_eq_Inr)
  moreover from this Suc.IH have "advances t s' \<and> length ys = n" by simp
  ultimately show ?case
    using rd_advances [of s x t] advances_trans [of s t s'] by simp
qed

end

locale codec = reader rd for rd :: "instream \<Rightarrow> ('a \<times> instream) res" +
  fixes enc :: "'a \<Rightarrow> u8 list"
    and ok :: "'a \<Rightarrow> bool"
  assumes rd_enc: "ok x \<Longrightarrow> rd (InStream c (enc x @ r)) = Inr (x, InStream (c @ enc x) r)"
begin

lemma rd_enc_end: "ok x \<Longrightarrow> rd (InStream c (enc x)) = Inr (x, InStream (c @ enc x) [])"
  using rd_enc [of x c "[]"] by simp

text \<open>Two encodings never clash, whatever follows them: the format is self-delimiting.\<close>

lemma enc_prefix_free:
  assumes "ok x" "ok y" "enc x @ r = enc y @ r'"
  shows "x = y \<and> r = r'"
proof -
  have "rd (InStream [] (enc x @ r)) = Inr (x, InStream (enc x) r)"
    using rd_enc [OF assms(1), of "[]" r] by simp
  moreover have "rd (InStream [] (enc x @ r)) = Inr (y, InStream (enc y) r')"
    unfolding assms(3) using rd_enc [OF assms(2), of "[]" r'] by simp
  ultimately show ?thesis by (metis Inr_inject instream.inject prod.inject)
qed

lemma in_list_enc:
  "\<forall>x\<in>set xs. ok x \<Longrightarrow>
   in_list rd (length xs) (InStream c (concat (map enc xs) @ r))
     = Inr (xs, InStream (c @ concat (map enc xs)) r)"
proof (induction xs arbitrary: c)
  case Nil
  then show ?case by simp
next
  case (Cons x xs)
  then have "ok x" "\<forall>y\<in>set xs. ok y" by simp_all
  then show ?case
    using Cons.IH [of "c @ enc x"] rd_enc [of x c "concat (map enc xs) @ r"] by simp
qed

end

subsection \<open>The integer fields are codecs\<close>

lemma in_uint8_Inr: "in_uint8 s = Inr (b, s') \<longleftrightarrow>
    (\<exists>c r. s = InStream c (b # r) \<and> s' = InStream (c @ [b]) r)"
  by (cases s rule: in_uint8.cases) auto

lemma in_uint8_advances: "in_uint8 s = Inr (b, s') \<Longrightarrow> advances s s'"
  by (auto simp: in_uint8_Inr advances_def)

lemma in_uint16_le_advances: "in_uint16_le s = Inr (b, s') \<Longrightarrow> advances s s'"
  by (cases s rule: in_uint16_le.cases) (auto simp: advances_def)

lemma in_uint16_be_advances: "in_uint16_be s = Inr (b, s') \<Longrightarrow> advances s s'"
  by (cases s rule: in_uint16_be.cases) (auto simp: advances_def)

lemma in_uint32_le_advances: "in_uint32_le s = Inr (b, s') \<Longrightarrow> advances s s'"
  by (cases s rule: in_uint32_le.cases) (auto simp: advances_def)

lemma in_uint32_be_advances: "in_uint32_be s = Inr (b, s') \<Longrightarrow> advances s s'"
  by (cases s rule: in_uint32_be.cases) (auto simp: advances_def)

lemma in_skip_bytes_advances: "in_skip_bytes n s = Inr (b, s') \<Longrightarrow> advances s s'"
  by (auto simp: in_skip_bytes_def assertR_eq_Inr advances_def)

lemma in_skip_bytes_append [simp]:
  "in_skip_bytes (length bs) (InStream c (bs @ r)) = Inr (bs, InStream (c @ bs) r)"
  by (simp add: in_skip_bytes_def in_check_rem_def in_remain_def)

lemma sign16_id [simp]: "sign16 v = v"
  by (simp add: sign16_def wi_hom_sub [symmetric])

lemma in_sint16_le_eq [simp]: "in_sint16_le = in_uint16_le"
proof
  show "in_sint16_le s = in_uint16_le s" for s
    by (cases "in_uint16_le s") (auto simp: in_sint16_le_def)
qed

lemma in_sint16_be_eq [simp]: "in_sint16_be = in_uint16_be"
proof
  show "in_sint16_be s = in_uint16_be s" for s
    by (cases "in_uint16_be s") (auto simp: in_sint16_be_def)
qed

lemma in_sint8_eq [simp]: "in_sint8 = in_uint8"
  by (rule ext) (simp add: in_sint8_def)

interpretation uint8: codec in_uint8 bytes_uint8 "\<lambda>_. True"
  by unfold_locales (auto simp: bytes_uint8_def dest: in_uint8_advances)

interpretation uint16_le: codec in_uint16_le bytes_uint16_le "\<lambda>_. True"
  by unfold_locales (auto simp: bytes_uint16_le_def word16_of_bytes dest: in_uint16_le_advances)

interpretation uint16_be: codec in_uint16_be bytes_uint16_be "\<lambda>_. True"
  by unfold_locales (auto simp: bytes_uint16_be_def word16_of_bytes dest: in_uint16_be_advances)

interpretation uint32_le: codec in_uint32_le bytes_uint32_le "\<lambda>_. True"
  by unfold_locales (auto simp: bytes_uint32_le_def word32_of_bytes dest: in_uint32_le_advances)

interpretation uint32_be: codec in_uint32_be bytes_uint32_be "\<lambda>_. True"
  by unfold_locales (auto simp: bytes_uint32_be_def word32_of_bytes dest: in_uint32_be_advances)

text \<open>Reading what was written, field by field.\<close>

lemmas read_fields = uint8.rd_enc [simplified] uint16_le.rd_enc [simplified] uint32_le.rd_enc [simplified]

lemma skip_one [simp]: "in_skip_bytes (Suc 0) (InStream c (b # r)) = Inr ([b], InStream (c @ [b]) r)"
  using in_skip_bytes_append [of "[b]" c r] by simp

lemma skip_data: "length bs = n \<Longrightarrow> in_skip_bytes n (InStream c (bs @ r)) = Inr (bs, InStream (c @ bs) r)"
  by (drule sym) simp

end
