(* ===== verification/Varint.thy ===== *)
theory Varint
  imports Streams
begin

text \<open>
  The variable-length integers of the drawing orders are codecs: the two-byte unsigned encoding
  \<open>2BUE\<close> on values below \<open>0x8000\<close> and the delta-encoded point \<open>DEP\<close> on signed values of 15 bits.
  Outside those ranges \<open>out_2BUE\<close> and \<open>out_DEP\<close> lose the top bit, which is stated too.
\<close>

subsection \<open>Bits of two-byte values\<close>

lemma has_bit16:
  "has (w::u16) 0x80 \<longleftrightarrow> bit w 7" "has (w::u16) 0x40 \<longleftrightarrow> bit w 6" "has (w::u16) 0x4000 \<longleftrightarrow> bit w 14"
  "has (w::u16) 0x8000 \<longleftrightarrow> bit w 15"
proof -
  have *: "has (w::u16) (2 ^ n) \<longleftrightarrow> bit w n" for n
    unfolding has_def and_exp_eq_0_iff_not_bit by simp
  from *[of 7] *[of 6] *[of 14] *[of 15] show 
  "has (w::u16) 0x80 \<longleftrightarrow> bit w 7" "has (w::u16) 0x40 \<longleftrightarrow> bit w 6" "has (w::u16) 0x4000 \<longleftrightarrow> bit w 14"
  "has (w::u16) 0x8000 \<longleftrightarrow> bit w 15" by simp_all
qed


lemma two_bytes_join:
  "(push_bit 8 (ucast (ucast (drop_bit 8 v) :: u8)) AND 0x7F00) + ucast (ucast v :: u8)
     = (take_bit 15 v :: u16)"
proof -
  have *: "(0x7F00::u16) = push_bit 8 (mask 7)" by (simp add: mask_eq_exp_minus_1)
  have "(push_bit 8 (ucast (ucast (drop_bit 8 v) :: u8)) AND 0x7F00) + ucast (ucast v :: u8)
      = (push_bit 8 (ucast (ucast (drop_bit 8 v) :: u8)) AND 0x7F00) OR (ucast (ucast v :: u8) :: u16)"
    unfolding * by (rule disjunctive_add) (auto simp: bit_simps)
  also have "\<dots> = take_bit 15 v"
    unfolding * by (rule bit_word_eqI) (auto simp: bit_simps)
  finally show ?thesis .
qed

lemma bit_below:
  fixes v :: "'a::len word"
  assumes "bit v k" "v < 2 ^ n"
  shows "k < n"
proof (rule ccontr)
  assume "\<not> k < n"
  moreover from less_mask_eq [OF assms(2)] have "bit v k = bit (v AND mask n) k" by simp
  ultimately show False using assms(1) by (simp add: bit_simps)
qed

lemma low_byte: assumes "v < 2 ^ 7" shows "ucast (ucast v :: u8) = (v :: u16)" "\<not> bit v 7"
proof -
  have "k < 7" if "bit v k" for k using bit_below [OF that assms] .
  then show "ucast (ucast v :: u8) = v" "\<not> bit v 7"
    by (force simp: bit_simps intro!: bit_word_eqI)+
qed

lemma dec_2BUE:
  assumes "v < 0x8000"
  shows "in_2BUE (InStream c (bytes_2BUE v @ r)) = Inr (v, InStream (c @ bytes_2BUE v) r)"
proof (cases "v \<le> 127")
  case True
  then have "v < 2 ^ 7" by (simp add: word_le_nat_alt word_less_nat_alt)
  from low_byte [OF this] True show ?thesis
    by (simp add: in_2BUE_def bytes_2BUE_def bytes_uint8_def has_bit16)
next
  case False
  define w where "w = v OR 0x8000"
  have "k < 15" if "bit v k" for k using bit_below [OF that, of 15] assms by simp
  moreover have "bit (0x8000::u16) n \<longleftrightarrow> n = 15" for n
    using bit_exp_iff [of 15 n, where 'a = u16] by auto
  ultimately have "take_bit 15 w = v" "bit w 15"
    by (auto simp: bit_simps w_def intro!: bit_word_eqI)
  with False show ?thesis unfolding bytes_2BUE_def w_def[symmetric] 
    by (simp add: in_2BUE_def bytes_uint16_be_def has_bit16 two_bytes_join bit_simps)
qed

lemma neg_take_bit:
  fixes p :: u16
  assumes "2 ^ n \<le> 2 * uint p" "uint p < 2 ^ n"
  shows "- (NOT (p - 1) AND mask n) = (word_of_int (uint p - 2 ^ n) :: u16)"
proof -
  have 1: "NOT (p - 1) = - p" by (simp add: not_eq_complement)
  have 2: "- p = word_of_int (- uint p)" by (simp add: wi_hom_neg[symmetric])
  have "0 < uint p" using assms by (smt (verit) zero_less_power)
  then have "(- uint p) mod 2 ^ n = 2 ^ n - uint p"
    using assms by (simp add: zmod_zminus1_eq_if)
  then have 3: "take_bit n (- uint p) = 2 ^ n - uint p"
    by (simp add: take_bit_eq_mod)
  show ?thesis unfolding 1 2 and_mask_wi 3 wi_hom_neg by simp
qed

lemma uint_take_bit_sint: 
  assumes "n < 16" shows "uint (take_bit n (w :: u16)) = sint w mod 2 ^ n" 
proof -
  have "take_bit n (sint w) = take_bit n (uint w)" using assms by (simp add: sint_uint take_bit_signed_take_bit)
  then show ?thesis by (simp add: take_bit_eq_mod[symmetric] unsigned_take_bit_eq)
qed

lemma bit_top:
  fixes p :: "'a::len word"
  assumes "uint p < 2 ^ Suc n" "n < LENGTH('a)"
  shows "bit p n \<longleftrightarrow> 2 ^ n \<le> uint p"
proof -
  have "bit p n \<longleftrightarrow> odd (uint p div 2 ^ n)"
    using assms(2) bit_uint_iff [of p n] by (simp add: bit_iff_odd [of "uint p"])
  moreover have "uint p div 2 ^ n = (if 2 ^ n \<le> uint p then 1 else 0)"
    using assms(1) by (auto simp: div_pos_geq div_pos_pos_trivial)
  ultimately show ?thesis by simp
qed

lemma sext_take_bit:
  fixes v :: i16
  assumes "n < 15" "- (2 ^ n) \<le> sint v" "sint v < 2 ^ n" and m: "m = Suc n"
    and p: "p = take_bit m v"
  shows "(if bit p n then - (NOT (p - 1) AND mask m) else p) = v"
proof -
  have u: "uint p = sint v mod 2 ^ Suc n" unfolding p m using assms(1) by (simp add: uint_take_bit_sint)
  then have lt: "uint p < 2 ^ Suc n" by simp
  have v: "v = word_of_int (sint v)" by simp
  show ?thesis
  proof (cases "sint v < 0")
    case True
    have "sint v mod 2 ^ Suc n = (sint v + 2 ^ Suc n) mod 2 ^ Suc n" by simp
    also have "\<dots> = sint v + 2 ^ Suc n"
      using True assms(2) by (intro mod_pos_pos_trivial) auto
    finally have up: "uint p = sint v + 2 ^ Suc n" using u by simp
    with lt assms have "bit p n" by (simp add: bit_top)
    moreover have "- (NOT (p - 1) AND mask (Suc n)) = word_of_int (uint p - 2 ^ Suc n)"
      using up lt assms by (intro neg_take_bit) auto
    ultimately show ?thesis using up by (simp add: m)
  next
    case False
    then have up: "uint p = sint v" using u assms(3) by (simp add: mod_pos_pos_trivial)
    with lt assms have "\<not> bit p n" by (simp add: bit_top)
    then show ?thesis using up by (metis word_of_int_uint v)
  qed
qed

lemma dec_DEP:
  assumes "-16384 \<le> sint v" "sint v < 16384"
  shows "in_DEP (InStream c (bytes_DEP v @ r)) = Inr (v, InStream (c @ bytes_DEP v) r)"
proof (cases "sint v > 0x3F \<or> sint v < -64")
  case True
  define w where "w = v OR 0x8000"
  have m: "(0x7FFF::u16) = mask 15" by (simp add: mask_eq_exp_minus_1)
  have "bit (0x8000::u16) n \<longleftrightarrow> n = 15" for n
    using bit_exp_iff [of 15 n, where 'a = u16] by auto
  moreover define q where "q = take_bit 15 v"
  ultimately have w: "take_bit 15 w = q" "bit w 15"
    by (auto simp: bit_simps w_def intro!: bit_word_eqI)
  have "(if bit q 14 then - (NOT (q - 1) AND 0x7FFF) else q) = v"
    unfolding m by (rule sext_take_bit) (use assms in \<open>simp_all add: q_def\<close>)
  with True w show ?thesis unfolding bytes_DEP_def w_def [symmetric]
    by (simp add: in_DEP_def bytes_uint16_be_def has_bit16 two_bytes_join bit_simps Let_def split: if_splits)
next
  case False
  have m: "(0x7F::u16) = mask 7" by (simp add: mask_eq_exp_minus_1)
  define p where "p = v AND 0x7F"
  have p: "p = take_bit 7 v" by (simp add: p_def m take_bit_eq_mask)
  have "p < 2 ^ 7" unfolding p_def m using and_mask_less' [of 7 v] by simp
  from sext_take_bit [of 6 v 7 p] False p
  have "(if bit p 6 then - (NOT (p - 1) AND 0x7F) else p) = v"
    unfolding m by simp
  with False low_byte [OF \<open>p < 2 ^ 7\<close>] show ?thesis unfolding bytes_DEP_def p_def[symmetric]
    by (simp add: in_DEP_def bytes_uint8_def has_bit16 Let_def split: if_splits)
qed

subsection \<open>The encodings as codecs\<close>

lemma in_2BUE_advances: "in_2BUE s = Inr (v, s') \<Longrightarrow> advances s s'"
  by (auto simp: in_2BUE_def bindR_eq_Inr Let_def split: if_splits
      dest!: in_uint8_advances intro: advances_trans)

lemma in_DEP_advances: "in_DEP s = Inr (v, s') \<Longrightarrow> advances s s'"
  by (auto simp: in_DEP_def bindR_eq_Inr Let_def split: if_splits
      dest!: in_uint8_advances intro: advances_trans)

definition dep_ok :: "i16 \<Rightarrow> bool" where
  "dep_ok v \<longleftrightarrow> -16384 \<le> sint v \<and> sint v < 16384"

interpretation two_byte_unsigned: codec in_2BUE bytes_2BUE "\<lambda>v. v < 0x8000"
  by unfold_locales (auto simp: dec_2BUE dest: in_2BUE_advances)

interpretation delta_point: codec in_DEP bytes_DEP dep_ok
  by unfold_locales (auto simp: dec_DEP dep_ok_def dest: in_DEP_advances)

lemma length_bytes_DEP: "length (bytes_DEP v) \<le> 2" "0 < length (bytes_DEP v)"
  by (simp_all add: bytes_DEP_def bytes_uint16_be_def bytes_uint8_def)

subsection \<open>Properties\<close>

text \<open>
  \<open>in_2BUE\<close> reads back what \<open>out_2BUE\<close> wrote, for every value below \<open>0x8000\<close>, and small values take one byte.
\<close>

theorem two_byte_unsigned_round_trip:
  assumes "v < 0x8000"
  shows "in_2BUE (InStream c (bytes_2BUE v @ r)) = Inr (v, InStream (c @ bytes_2BUE v) r)
    \<and> length (bytes_2BUE v) = (if v \<le> 127 then 1 else 2)"
  using two_byte_unsigned.rd_enc [OF assms]
  by (simp add: bytes_2BUE_def bytes_uint8_def bytes_uint16_be_def)

theorem two_byte_unsigned_round_trip_witness:
  "in_2BUE (InStream [] (bytes_2BUE 300 @ [7])) = Inr (300, InStream (bytes_2BUE 300) [7])"
  using two_byte_unsigned_round_trip [of 300 "[]" "[7]"] by simp

text \<open>
  \<open>in_DEP\<close> reads back what \<open>out_DEP\<close> wrote, sign included, for every 15-bit signed value; values of 7
  bits take one byte.
\<close>

theorem delta_point_round_trip:
  assumes "dep_ok v"
  shows "in_DEP (InStream c (bytes_DEP v @ r)) = Inr (v, InStream (c @ bytes_DEP v) r)
    \<and> length (bytes_DEP v) = (if -64 \<le> sint v \<and> sint v < 64 then 1 else 2)"
  using delta_point.rd_enc [OF assms]
  by (auto simp: bytes_DEP_def bytes_uint8_def bytes_uint16_be_def)

theorem delta_point_round_trip_witness:
  "in_DEP (InStream [] (bytes_DEP (-300) @ [7])) = Inr (-300, InStream (bytes_DEP (-300)) [7])"
proof -
  have "dep_ok (-300)" by code_simp
  from delta_point_round_trip [OF this, of "[]" "[7]"] show ?thesis by simp
qed

text \<open>
  Outside those ranges both encodings lose the top bit: \<open>0x8001\<close> is read back as 1, and a delta of
  16384 as \<open>-16384\<close>.
\<close>

theorem varint_top_bit_lost:
  "in_2BUE (instream_of (bytes_2BUE 0x8001)) = Inr (1, InStream (bytes_2BUE 0x8001) [])
   \<and> in_DEP (instream_of (bytes_DEP 16384)) = Inr (-16384, InStream (bytes_DEP 16384) [])"
  by code_simp

end
