(* ===== verification/Order_Common.thy ===== *)
theory Order_Common
  imports Rects Varint
begin

text \<open>
  The common part of the primary drawing orders, \<open>core/RDP/orders/RDPOrdersCommon.hpp\<close>: the
  colour, pen and brush fields, the control byte, the bounds, the field header and the
  coordinate fields, each with the code that emits it and the code that receives it. An emit
  function returns the bytes it writes; a receive function takes the fields of the previous
  order and the stream.
\<close>

subsection \<open>Constants\<close>

abbreviation (input) STANDARD :: u8 where "STANDARD \<equiv> 0x01"
abbreviation (input) SECONDARY :: u8 where "SECONDARY \<equiv> 0x02"
abbreviation (input) BOUNDS :: u8 where "BOUNDS \<equiv> 0x04"
abbreviation (input) CHANGE :: u8 where "CHANGE \<equiv> 0x08"
abbreviation (input) DELTA :: u8 where "DELTA \<equiv> 0x10"
abbreviation (input) LASTBOUNDS :: u8 where "LASTBOUNDS \<equiv> 0x20"
abbreviation (input) SMALL :: u8 where "SMALL \<equiv> 0x40"
abbreviation (input) TINY :: u8 where "TINY \<equiv> 0x80"

abbreviation (input) DESTBLT :: u8 where "DESTBLT \<equiv> 0"
abbreviation (input) PATBLT :: u8 where "PATBLT \<equiv> 1"
abbreviation (input) SCREENBLT :: u8 where "SCREENBLT \<equiv> 2"
abbreviation (input) LINE :: u8 where "LINE \<equiv> 9"
abbreviation (input) RECT :: u8 where "RECT \<equiv> 10"
abbreviation (input) DESKSAVE :: u8 where "DESKSAVE \<equiv> 11"
abbreviation (input) MEMBLT :: u8 where "MEMBLT \<equiv> 13"
abbreviation (input) MEM3BLT :: u8 where "MEM3BLT \<equiv> 14"
abbreviation (input) MULTIDSTBLT :: u8 where "MULTIDSTBLT \<equiv> 15"
abbreviation (input) MULTIPATBLT :: u8 where "MULTIPATBLT \<equiv> 16"
abbreviation (input) MULTISCRBLT :: u8 where "MULTISCRBLT \<equiv> 17"
abbreviation (input) MULTIOPAQUERECT :: u8 where "MULTIOPAQUERECT \<equiv> 18"
abbreviation (input) POLYGONSC :: u8 where "POLYGONSC \<equiv> 20"
abbreviation (input) POLYGONCB :: u8 where "POLYGONCB \<equiv> 21"
abbreviation (input) POLYLINE :: u8 where "POLYLINE \<equiv> 22"
abbreviation (input) ELLIPSESC :: u8 where "ELLIPSESC \<equiv> 25"
abbreviation (input) ELLIPSECB :: u8 where "ELLIPSECB \<equiv> 26"
abbreviation (input) GLYPHINDEX :: u8 where "GLYPHINDEX \<equiv> 27"

subsection \<open>Conditional fields\<close>

text \<open>
  \<open>opt b bs\<close> is \<open>if (b) { stream.out...; }\<close>; \<open>in_if b rd old\<close> is \<open>if (b) { field = rd(stream); }\<close>
  on a field whose value was \<open>old\<close>.
\<close>

definition opt :: "bool \<Rightarrow> u8 list \<Rightarrow> u8 list" where
  "opt b bs = (if b then bs else [])"

definition in_if :: "bool \<Rightarrow> (instream \<Rightarrow> ('a \<times> instream) res) \<Rightarrow> 'a \<Rightarrow> instream \<Rightarrow> ('a \<times> instream) res" where
  "in_if b rd old s = (if b then rd s else Inr (old, s))"

subsection \<open>Colours, pens, brushes\<close>

text \<open>\<open>RDPColor\<close> is its 32-bit value; red is the low byte.\<close>

type_synonym color = u32

definition color_red :: "color \<Rightarrow> u8" where "color_red c = ucast c"
definition color_green :: "color \<Rightarrow> u8" where "color_green c = ucast (drop_bit 8 c)"
definition color_blue :: "color \<Rightarrow> u8" where "color_blue c = ucast (drop_bit 16 c)"

definition BGRColor :: "u8 \<Rightarrow> u8 \<Rightarrow> u8 \<Rightarrow> color" where
  "BGRColor blue green red = push_bit 16 (ucast blue) OR push_bit 8 (ucast green) OR ucast red"

definition emit_rdp_color :: "color \<Rightarrow> u8 list" where
  "emit_rdp_color c = bytes_uint8 (color_red c) @ bytes_uint8 (color_green c) @ bytes_uint8 (color_blue c)"

definition receive_rdp_color :: "instream \<Rightarrow> (color \<times> instream) res" where
  "receive_rdp_color s =
     bindR (in_uint8 s) (\<lambda>(r, s).
     bindR (in_uint8 s) (\<lambda>(g, s).
     bindR (in_uint8 s) (\<lambda>(b, s).
     Inr (BGRColor b g r, s))))"

record pen =
  pstyle :: u8
  pwidth :: u8
  pcolor :: color

text \<open>\<open>extra\<close> is the array of 7 bytes.\<close>

record brush =
  org_x :: i8
  org_y :: i8
  bstyle :: u8
  bhatch :: u8
  extra :: "u8 list"

definition brush_eq :: "brush \<Rightarrow> brush \<Rightarrow> bool" where
  "brush_eq b1 b2 \<longleftrightarrow> org_x b1 = org_x b2 \<and> org_y b1 = org_y b2 \<and> bstyle b1 = bstyle b2
     \<and> bhatch b1 = bhatch b2 \<and> (bstyle b1 \<noteq> 3 \<or> extra b1 = extra b2)"

subsection \<open>Bounds\<close>

definition is_1_byte :: "i16 \<Rightarrow> bool" where
  "is_1_byte value \<longleftrightarrow> sint value \<ge> -128 \<and> sint value \<le> 127"

definition pounder_bound :: "i16 \<Rightarrow> u8 \<Rightarrow> u8" where
  "pounder_bound delta pound = push_bit (4 * of_bool (is_1_byte delta)) (flag (delta \<noteq> 0) pound)"

text \<open>The arrays of \<open>Bounds\<close> are indexed by \<open>LEFT = 0, TOP = 1, RIGHT = 2, BOTTOM = 3\<close>.\<close>

record bounds =
  bounds_flags :: u8
  absolute_bounds :: "i16 list"
  delta_bounds :: "i16 list"

definition bounds_of_rect :: "rect \<Rightarrow> i16 list" where
  "bounds_of_rect r = [rx r, ry r, rx r + rcx r - 1, ry r + rcy r - 1]"

definition mk_bounds :: "rect \<Rightarrow> rect \<Rightarrow> bounds" where
  "mk_bounds oldclip newclip =
     (let old_bounds = bounds_of_rect oldclip;
          absolute = bounds_of_rect newclip;
          delta = map (\<lambda>b. absolute ! b - old_bounds ! b) [0, 1, 2, 3]
      in \<lparr>bounds_flags = pounder_bound (delta ! 0) 1 OR pounder_bound (delta ! 1) 2
            OR pounder_bound (delta ! 2) 4 OR pounder_bound (delta ! 3) 8,
          absolute_bounds = absolute, delta_bounds = delta\<rparr>)"

definition emit_bound :: "bounds \<Rightarrow> nat \<Rightarrow> u8 list" where
  "emit_bound bs b =
     (if has (bounds_flags bs) (push_bit b 1) then bytes_uint16_le (absolute_bounds bs ! b)
      else if has (bounds_flags bs) (push_bit b 0x10) then bytes_uint8 (ucast (delta_bounds bs ! b))
      else [])"

definition bounds_emit :: "bounds \<Rightarrow> u8 list" where
  "bounds_emit bs =
     (if bounds_flags bs \<noteq> 0
      then bytes_uint8 (bounds_flags bs) @ concat (map (emit_bound bs) [0, 1, 2, 3])
      else [])"

subsection \<open>The primary order header and its coordinate fields\<close>

record header =
  control :: u8
  hfields :: u32

definition emit_coord :: "header \<Rightarrow> u32 \<Rightarrow> i16 \<Rightarrow> i16 \<Rightarrow> u8 list" where
  "emit_coord h base coord oldcoord =
     (if has (control h) DELTA
      then opt (has (hfields h) base) (bytes_uint8 (ucast (coord - oldcoord)))
      else opt (has (hfields h) base) (bytes_uint16_le coord))"

definition in_delta :: "u16 \<Rightarrow> instream \<Rightarrow> (u16 \<times> instream) res" where
  "in_delta v s = bindR (in_sint8 s) (\<lambda>(d, s). Inr (v + scast d, s))"

definition receive_coord :: "header \<Rightarrow> u32 \<Rightarrow> i16 \<Rightarrow> instream \<Rightarrow> (i16 \<times> instream) res" where
  "receive_coord h base coord s =
     (if has (control h) DELTA then in_if (has (hfields h) base) (in_delta coord) coord s
      else in_if (has (hfields h) base) in_sint16_le coord s)"

definition emit_rect :: "header \<Rightarrow> u32 \<Rightarrow> rect \<Rightarrow> rect \<Rightarrow> u8 list" where
  "emit_rect h base r oldr =
     (if has (control h) DELTA
      then opt (has (hfields h) base) (bytes_uint8 (ucast (rx r - rx oldr)))
         @ opt (has (hfields h) (push_bit 1 base)) (bytes_uint8 (ucast (ry r - ry oldr)))
         @ opt (has (hfields h) (push_bit 2 base)) (bytes_uint8 (ucast (rcx r - rcx oldr)))
         @ opt (has (hfields h) (push_bit 3 base)) (bytes_uint8 (ucast (rcy r - rcy oldr)))
      else opt (has (hfields h) base) (bytes_uint16_le (rx r))
         @ opt (has (hfields h) (push_bit 1 base)) (bytes_uint16_le (ry r))
         @ opt (has (hfields h) (push_bit 2 base)) (bytes_uint16_le (rcx r))
         @ opt (has (hfields h) (push_bit 3 base)) (bytes_uint16_le (rcy r)))"

definition receive_rect :: "header \<Rightarrow> u32 \<Rightarrow> rect \<Rightarrow> instream \<Rightarrow> (rect \<times> instream) res" where
  "receive_rect h base r s =
     (if has (control h) DELTA then
        bindR (in_if (has (hfields h) base) (in_delta (rx r)) (rx r) s) (\<lambda>(x, s).
        bindR (in_if (has (hfields h) (push_bit 1 base)) (in_delta (ry r)) (ry r) s) (\<lambda>(y, s).
        bindR (in_if (has (hfields h) (push_bit 2 base)) (in_delta (rcx r)) (rcx r) s) (\<lambda>(cx, s).
        bindR (in_if (has (hfields h) (push_bit 3 base)) (in_delta (rcy r)) (rcy r) s) (\<lambda>(cy, s).
        Inr (\<lparr>rx = x, ry = y, rcx = cx, rcy = cy\<rparr>, s)))))
      else
        bindR (in_if (has (hfields h) base) in_sint16_le (rx r) s) (\<lambda>(x, s).
        bindR (in_if (has (hfields h) (push_bit 1 base)) in_sint16_le (ry r) s) (\<lambda>(y, s).
        bindR (in_if (has (hfields h) (push_bit 2 base)) in_sint16_le (rcx r) s) (\<lambda>(cx, s).
        bindR (in_if (has (hfields h) (push_bit 3 base)) in_sint16_le (rcy r) s) (\<lambda>(cy, s).
        Inr (\<lparr>rx = x, ry = y, rcx = cx, rcy = cy\<rparr>, s))))))"

definition emit_src :: "header \<Rightarrow> u32 \<Rightarrow> u16 \<Rightarrow> u16 \<Rightarrow> u16 \<Rightarrow> u16 \<Rightarrow> u8 list" where
  "emit_src h base srcx srcy oldx oldy =
     (if has (control h) DELTA
      then opt (has (hfields h) base) (bytes_uint8 (ucast (srcx - oldx)))
         @ opt (has (hfields h) (push_bit 1 base)) (bytes_uint8 (ucast (srcy - oldy)))
      else opt (has (hfields h) base) (bytes_uint16_le srcx)
         @ opt (has (hfields h) (push_bit 1 base)) (bytes_uint16_le srcy))"

definition receive_src :: "header \<Rightarrow> u32 \<Rightarrow> u16 \<Rightarrow> u16 \<Rightarrow> instream \<Rightarrow> ((u16 \<times> u16) \<times> instream) res" where
  "receive_src h base srcx srcy s =
     (if has (control h) DELTA then
        bindR (in_if (has (hfields h) base) (in_delta srcx) srcx s) (\<lambda>(x, s).
        bindR (in_if (has (hfields h) (push_bit 1 base)) (in_delta srcy) srcy s) (\<lambda>(y, s).
        Inr ((x, y), s)))
      else
        bindR (in_if (has (hfields h) base) in_sint16_le srcx s) (\<lambda>(x, s).
        bindR (in_if (has (hfields h) (push_bit 1 base)) in_sint16_le srcy s) (\<lambda>(y, s).
        Inr ((x, y), s))))"

definition emit_pen :: "header \<Rightarrow> u32 \<Rightarrow> pen \<Rightarrow> u8 list" where
  "emit_pen h base p =
     opt (has (hfields h) base) (bytes_uint8 (pstyle p))
     @ opt (has (hfields h) (push_bit 1 base)) (bytes_uint8 (pwidth p))
     @ opt (has (hfields h) (push_bit 2 base)) (emit_rdp_color (pcolor p))"

definition receive_pen :: "header \<Rightarrow> u32 \<Rightarrow> pen \<Rightarrow> instream \<Rightarrow> (pen \<times> instream) res" where
  "receive_pen h base p s =
     bindR (in_if (has (hfields h) base) in_uint8 (pstyle p) s) (\<lambda>(st, s).
     bindR (in_if (has (hfields h) (push_bit 1 base)) in_uint8 (pwidth p) s) (\<lambda>(w, s).
     bindR (in_if (has (hfields h) (push_bit 2 base)) receive_rdp_color (pcolor p) s) (\<lambda>(c, s).
     Inr (\<lparr>pstyle = st, pwidth = w, pcolor = c\<rparr>, s))))"

definition emit_brush :: "header \<Rightarrow> u32 \<Rightarrow> brush \<Rightarrow> u8 list" where
  "emit_brush h base b =
     opt (has (hfields h) base) (bytes_uint8 (org_x b))
     @ opt (has (hfields h) (push_bit 1 base)) (bytes_uint8 (org_y b))
     @ opt (has (hfields h) (push_bit 2 base)) (bytes_uint8 (bstyle b))
     @ opt (has (hfields h) (push_bit 3 base)) (bytes_uint8 (bhatch b))
     @ opt (has (hfields h) (push_bit 4 base)) (extra b)"

definition receive_brush :: "header \<Rightarrow> u32 \<Rightarrow> brush \<Rightarrow> instream \<Rightarrow> (brush \<times> instream) res" where
  "receive_brush h base b s =
     bindR (in_if (has (hfields h) base) in_sint8 (org_x b) s) (\<lambda>(x, s).
     bindR (in_if (has (hfields h) (push_bit 1 base)) in_sint8 (org_y b) s) (\<lambda>(y, s).
     bindR (in_if (has (hfields h) (push_bit 2 base)) in_uint8 (bstyle b) s) (\<lambda>(st, s).
     bindR (in_if (has (hfields h) (push_bit 3 base)) in_uint8 (bhatch b) s) (\<lambda>(ha, s).
     bindR (in_if (has (hfields h) (push_bit 4 base)) (in_list in_uint8 7) (extra b) s) (\<lambda>(ex, s).
     Inr (\<lparr>org_x = x, org_y = y, bstyle = st, bhatch = ha, extra = ex\<rparr>, s))))))"

subsection \<open>RDPOrderCommon\<close>

record common =
  corder :: u8
  clip :: rect

text \<open>The number of field-flag bytes of an order (the \<open>switch\<close> of \<open>_emit\<close> and of \<open>receive\<close>).\<close>

definition order_size :: "u8 \<Rightarrow> nat" where
  "order_size order =
     (if order \<in> {MEM3BLT, GLYPHINDEX} then 3
      else if order \<in> {PATBLT, MEMBLT, LINE, POLYGONCB, ELLIPSECB, MULTIOPAQUERECT, MULTIPATBLT, MULTISCRBLT}
      then 2 else 1)"

definition size_flags :: "u8 \<Rightarrow> u32 \<Rightarrow> u8" where
  "size_flags order f =
     (let size = int (order_size order);
          realsize = (if f = 0 then 0 else if f < 0x100 then 1 else if f < 0x10000 then 2 else 3 :: int)
      in if size - realsize = 3 then TINY OR SMALL
         else if size - realsize = 2 then TINY
         else if size - realsize = 1 then SMALL else 0)"

definition emit_fields :: "u32 \<Rightarrow> u8 list" where
  "emit_fields f =
     opt (f \<noteq> 0) (bytes_uint8 (ucast (f AND 0xFF))
       @ opt (f \<ge> 0x100) (bytes_uint8 (ucast (drop_bit 8 f AND 0xFF))
           @ opt (f \<ge> 0x10000) (bytes_uint8 (ucast (drop_bit 16 f AND 0xFF)))))"

definition emit_header :: "u8 \<Rightarrow> header \<Rightarrow> u8 list \<times> header" where
  "emit_header order h =
     (let c = control h OR size_flags order (hfields h)
      in (bytes_uint8 c @ opt (has c CHANGE) (bytes_uint8 order) @ emit_fields (hfields h),
          h\<lparr>control := c\<rparr>))"

definition common_emit :: "common \<Rightarrow> header \<Rightarrow> common \<Rightarrow> u8 list \<times> header \<times> common" where
  "common_emit com h oldcommon =
     (let bs = mk_bounds (clip oldcommon) (clip com);
          c1 = control h OR flag (corder com \<noteq> corder oldcommon) CHANGE;
          c2 = c1 OR (if has c1 BOUNDS then flag (bounds_flags bs = 0) LASTBOUNDS else 0);
          (hbytes, h') = emit_header (corder com) (h\<lparr>control := c2\<rparr>)
      in if has (control h') BOUNDS
         then (hbytes @ opt (\<not> has (control h') LASTBOUNDS) (bounds_emit bs), h', com)
         else (hbytes, h', com\<lparr>clip := clip oldcommon\<rparr>))"

definition receive_size :: "u8 \<Rightarrow> u8 \<Rightarrow> nat" where
  "receive_size c order =
     (let size = order_size order;
          size = (if has c SMALL then (if size \<le> 1 then 0 else size - 1) else size);
          size = (if has c TINY then (if size \<le> 2 then 0 else size - 2) else size)
      in size)"

fun receive_fields :: "nat \<Rightarrow> nat \<Rightarrow> u32 \<Rightarrow> instream \<Rightarrow> (u32 \<times> instream) res" where
  "receive_fields i 0 f s = Inr (f, s)"
| "receive_fields i (Suc n) f s =
     bindR (in_uint8 s) (\<lambda>(bits, s). receive_fields (Suc i) n (f OR push_bit (i * 8) (ucast bits)) s)"

text \<open>The field mask each order may use; \<open>receive\<close> asserts that no other field is present.\<close>

definition fields_allowed :: "u8 \<Rightarrow> u32 \<Rightarrow> bool" where
  "fields_allowed order f =
     (if order = DESTBLT then \<not> has f (NOT 0x1F)
      else if order = MULTIDSTBLT then \<not> has f (NOT 0x7F)
      else if order = MULTIOPAQUERECT then \<not> has f (NOT 0x1FF)
      else if order = MULTIPATBLT then \<not> has f (NOT 0x3FFF)
      else if order = MULTISCRBLT then \<not> has f (NOT 0x1FF)
      else if order = PATBLT then \<not> has f (NOT 0xFFF)
      else if order = SCREENBLT then \<not> has f (NOT 0x7F)
      else if order = LINE then \<not> has f (NOT 0x3FF)
      else if order = RECT then \<not> has f (NOT 0x7F)
      else if order = DESKSAVE then True
      else if order = MEMBLT then \<not> has f (NOT 0x1FF)
      else if order = MEM3BLT then \<not> has f (NOT 0xFFFF)
      else if order = GLYPHINDEX then \<not> has f (NOT 0x3FFFFF)
      else if order = POLYGONSC then \<not> has f (NOT 0x7F)
      else if order = POLYGONCB then \<not> has f (NOT 0x1FFF)
      else if order = POLYLINE then \<not> has f (NOT 0x7F)
      else if order = ELLIPSESC then \<not> has f (NOT 0x7F)
      else if order = ELLIPSECB then \<not> has f (NOT 0x1FFF)
      else False)"

definition receive_bound :: "u8 \<Rightarrow> nat \<Rightarrow> u16 \<Rightarrow> instream \<Rightarrow> (u16 \<times> instream) res" where
  "receive_bound bound_fields b v s =
     (if has bound_fields (push_bit b 1) then in_sint16_le s
      else if has bound_fields (push_bit b 0x10) then in_delta v s
      else Inr (v, s))"

definition receive_bounds :: "rect \<Rightarrow> instream \<Rightarrow> (rect \<times> instream) res" where
  "receive_bounds cl s =
     bindR (in_uint8 s) (\<lambda>(bound_fields, s).
     bindR (receive_bound bound_fields 0 (rx cl) s) (\<lambda>(b0, s).
     bindR (receive_bound bound_fields 1 (ry cl) s) (\<lambda>(b1, s).
     bindR (receive_bound bound_fields 2 (rx cl + rcx cl - 1) s) (\<lambda>(b2, s).
     bindR (receive_bound bound_fields 3 (ry cl + rcy cl - 1) s) (\<lambda>(b3, s).
     Inr (\<lparr>rx = b0, ry = b1, rcx = b2 - b0 + 1, rcy = b3 - b1 + 1\<rparr>, s))))))"

definition common_receive :: "common \<Rightarrow> u8 \<Rightarrow> instream \<Rightarrow> (header \<times> common \<times> instream) res" where
  "common_receive com c s =
     bindR (in_if (has c CHANGE) in_uint8 (corder com) s) (\<lambda>(order, s).
     bindR (receive_fields 0 (receive_size c order) 0 s) (\<lambda>(f, s).
     assertR (fields_allowed order f)
       (let com' = com\<lparr>corder := order\<rparr> in
        if has c BOUNDS \<and> \<not> has c LASTBOUNDS
        then bindR (receive_bounds (clip com) s) (\<lambda>(cl, s).
             Inr (\<lparr>control = c, hfields = f\<rparr>, com'\<lparr>clip := cl\<rparr>, s))
        else Inr (\<lparr>control = c, hfields = f\<rparr>, com', s))))"

subsection \<open>Secondary and alternate secondary headers\<close>

record secondary_header =
  order_length :: u16
  sflags :: u16
  stype :: u8

definition receive_secondary_header :: "instream \<Rightarrow> (secondary_header \<times> instream) res" where
  "receive_secondary_header s =
     bindR (in_uint16_le s) (\<lambda>(l, s).
     bindR (in_uint16_le s) (\<lambda>(f, s).
     bindR (in_uint8 s) (\<lambda>(t, s).
     Inr (\<lparr>order_length = l, sflags = f, stype = t\<rparr>, s))))"

definition order_data_length :: "secondary_header \<Rightarrow> u16" where
  "order_data_length h = order_length h + 13 - 6"

record altsec_header =
  altsec_flags :: u8
  altsec_class :: u8
  altsec_type :: u8

definition altsec_of_flags :: "u8 \<Rightarrow> altsec_header" where
  "altsec_of_flags c = \<lparr>altsec_flags = c, altsec_class = c AND 3, altsec_type = drop_bit 2 c\<rparr>"

definition altsec_make :: "u8 \<Rightarrow> u8 \<Rightarrow> altsec_header" where
  "altsec_make cls ty =
     (let c = cls AND 3; t = ty AND 0x3F
      in \<lparr>altsec_flags = c OR push_bit 2 t, altsec_class = c, altsec_type = t\<rparr>)"

subsection \<open>Field lemmas\<close>

context codec begin

lemma in_if_enc:
  "b \<or> x = old \<Longrightarrow> (b \<Longrightarrow> ok x) \<Longrightarrow>
   in_if b rd old (InStream c (opt b (enc x) @ r)) = Inr (x, InStream (c @ opt b (enc x)) r)"
  by (cases b) (simp_all add: in_if_def opt_def rd_enc)

end

lemmas in_if_uint8 = uint8.in_if_enc [OF _ TrueI]
lemmas in_if_uint16_le = uint16_le.in_if_enc [OF _ TrueI]

lemma in_delta_1_byte:
  assumes "is_1_byte (new - old)"
  shows "in_delta old (InStream c (bytes_uint8 (ucast (new - old)) @ r))
     = Inr (new, InStream (c @ bytes_uint8 (ucast (new - old))) r)"
proof -
  have u: "(scast w :: u8) = ucast w" for w :: u16
    by (rule bit_word_eqI) (simp add: bit_simps bit_sint_iff min_def)
  have "(scast (ucast (new - old) :: u8) :: u16) = new - old"
    using scast8_of_int [of "sint (new - old)"] assms by (simp add: is_1_byte_def u)
  then show ?thesis by (simp add: in_delta_def bytes_uint8_def)
qed

lemma in_if_delta:
  "b \<or> new = old \<Longrightarrow> is_1_byte (new - old) \<Longrightarrow>
   in_if b (in_delta old) old (InStream c (opt b (bytes_uint8 (ucast (new - old))) @ r))
     = Inr (new, InStream (c @ opt b (bytes_uint8 (ucast (new - old)))) r)"
  using in_delta_1_byte by (cases b) (simp_all add: in_if_def opt_def)

definition coord_sent :: "header \<Rightarrow> u32 \<Rightarrow> u16 \<Rightarrow> u16 \<Rightarrow> bool" where
  "coord_sent h base new old \<longleftrightarrow>
     (has (hfields h) base \<or> new = old) \<and> (has (control h) DELTA \<longrightarrow> is_1_byte (new - old))"

lemma receive_emit_coord [simp]:
  "coord_sent h base new old \<Longrightarrow>
   receive_coord h base old (InStream c (emit_coord h base new old @ r))
     = Inr (new, InStream (c @ emit_coord h base new old) r)"
  unfolding coord_sent_def receive_coord_def emit_coord_def
  by (cases "has (control h) DELTA") (simp_all add: in_if_delta in_if_uint16_le)

definition rect_sent :: "header \<Rightarrow> u32 \<Rightarrow> rect \<Rightarrow> rect \<Rightarrow> bool" where
  "rect_sent h base new old \<longleftrightarrow> coord_sent h base (rx new) (rx old)
     \<and> coord_sent h (push_bit 1 base) (ry new) (ry old)
     \<and> coord_sent h (push_bit 2 base) (rcx new) (rcx old)
     \<and> coord_sent h (push_bit 3 base) (rcy new) (rcy old)"

lemma receive_emit_rect [simp]:
  assumes "rect_sent h base new old"
  shows "receive_rect h base old (InStream c (emit_rect h base new old @ r))
     = Inr (new, InStream (c @ emit_rect h base new old) r)"
proof (cases "has (control h) DELTA")
  case True
  with assms show ?thesis unfolding rect_sent_def coord_sent_def receive_rect_def emit_rect_def
    by (simp add: in_if_delta del: push_bit_of_1)
next
  case False
  with assms show ?thesis unfolding rect_sent_def coord_sent_def receive_rect_def emit_rect_def
    by (simp add: in_if_uint16_le)
qed

lemma receive_emit_src [simp]:
  assumes "coord_sent h base x oldx" "coord_sent h (push_bit 1 base) y oldy"
  shows "receive_src h base oldx oldy (InStream c (emit_src h base x y oldx oldy @ r))
     = Inr ((x, y), InStream (c @ emit_src h base x y oldx oldy) r)"
proof (cases "has (control h) DELTA")
  case True
  with assms show ?thesis unfolding coord_sent_def receive_src_def emit_src_def
    by (simp add: in_if_delta)
next
  case False
  with assms show ?thesis unfolding coord_sent_def receive_src_def emit_src_def
    by (simp add: in_if_uint16_le)
qed

definition color_ok :: "color \<Rightarrow> bool" where
  "color_ok c \<longleftrightarrow> drop_bit 24 c = 0"

lemma receive_rdp_color_advances: "receive_rdp_color s = Inr (v, s') \<Longrightarrow> advances s s'"
  unfolding receive_rdp_color_def
  by (auto simp: bindR_eq_Inr dest!: in_uint8_advances intro: advances_trans)

interpretation rdp_color: codec receive_rdp_color emit_rdp_color color_ok
  by unfold_locales
    (erule receive_rdp_color_advances,
     simp add: receive_rdp_color_def emit_rdp_color_def bytes_uint8_def BGRColor_def color_red_def
       color_green_def color_blue_def color_ok_def word24_of_bytes)

lemmas in_if_color = rdp_color.in_if_enc

lemma receive_emit_pen [simp]:
  assumes "has (hfields h) base \<or> pstyle p = pstyle old" "has (hfields h) (push_bit 1 base) \<or> pwidth p = pwidth old"
    "has (hfields h) (push_bit 2 base) \<or> pcolor p = pcolor old" "color_ok (pcolor p)"
  shows "receive_pen h base old (InStream c (emit_pen h base p @ r)) = Inr (p, InStream (c @ emit_pen h base p) r)"
  using assms unfolding receive_pen_def emit_pen_def by (simp add: in_if_uint8 in_if_color)

definition brush_ok :: "brush \<Rightarrow> bool" where
  "brush_ok b \<longleftrightarrow> length (extra b) = 7"

lemma concat_bytes_uint8 [simp]: "concat (map bytes_uint8 bs) = bs"
  by (induction bs) (simp_all add: bytes_uint8_def)

lemma in_if_bytes:
  assumes "b \<or> bs = old" "length bs = n"
  shows "in_if b (in_list in_uint8 n) old (InStream c (opt b bs @ r)) = Inr (bs, InStream (c @ opt b bs) r)"
  using uint8.in_list_enc [of bs c r] assms by (cases b) (simp_all add: in_if_def opt_def)

lemma receive_emit_brush [simp]:
  assumes "has (hfields h) base \<or> org_x b = org_x old" "has (hfields h) (push_bit 1 base) \<or> org_y b = org_y old"
    "has (hfields h) (push_bit 2 base) \<or> bstyle b = bstyle old" "has (hfields h) (push_bit 3 base) \<or> bhatch b = bhatch old"
    "has (hfields h) (push_bit 4 base) \<or> extra b = extra old" "brush_ok b"
  shows "receive_brush h base old (InStream c (emit_brush h base b @ r)) = Inr (b, InStream (c @ emit_brush h base b) r)"
  using assms unfolding receive_brush_def emit_brush_def brush_ok_def by (simp add: in_if_uint8 in_if_bytes)

subsection \<open>Bounds\<close>

lemma pounder_bound_flags:
  "pounder_bound d p = flag (d \<noteq> 0 \<and> \<not> is_1_byte d) p OR flag (d \<noteq> 0 \<and> is_1_byte d) (push_bit 4 p)"
  by (simp add: pounder_bound_def flag_def)

definition bound_sent :: "bounds \<Rightarrow> nat \<Rightarrow> u16 \<Rightarrow> u16 \<Rightarrow> bool" where
  "bound_sent bs b new old \<longleftrightarrow> absolute_bounds bs ! b = new \<and> delta_bounds bs ! b = new - old
     \<and> (has (bounds_flags bs) (push_bit b 1) \<longleftrightarrow> new \<noteq> old \<and> \<not> is_1_byte (new - old))
     \<and> (has (bounds_flags bs) (push_bit b 0x10) \<longleftrightarrow> new \<noteq> old \<and> is_1_byte (new - old))"

lemma receive_emit_bound:
  assumes "bound_sent bs b new old"
  shows "receive_bound (bounds_flags bs) b old (InStream c (emit_bound bs b @ r))
     = Inr (new, InStream (c @ emit_bound bs b) r)"
  using assms unfolding bound_sent_def receive_bound_def emit_bound_def
  by (auto simp: in_delta_1_byte uint16_le.rd_enc)

lemma mk_bounds_sent:
  "bound_sent (mk_bounds old new) 0 (rx new) (rx old)"
  "bound_sent (mk_bounds old new) 1 (ry new) (ry old)"
  "bound_sent (mk_bounds old new) 2 (rx new + rcx new - 1) (rx old + rcx old - 1)"
  "bound_sent (mk_bounds old new) 3 (ry new + rcy new - 1) (ry old + rcy old - 1)"
  by (auto simp: bound_sent_def mk_bounds_def Let_def bounds_of_rect_def pounder_bound_flags flag_simps)

lemma mk_bounds_flags_0:
  "bounds_flags (mk_bounds old new) = 0 \<longleftrightarrow> new = old"
proof -
  have "bounds_flags (mk_bounds old new) = 0 \<longleftrightarrow> rx new = rx old \<and> ry new = ry old
     \<and> rx new + rcx new - 1 = rx old + rcx old - 1 \<and> ry new + rcy new - 1 = ry old + rcy old - 1"
    by (auto simp: mk_bounds_def Let_def bounds_of_rect_def pounder_bound_def or_eq_0_iff push_bit_eq_0_iff flag_def)
  also have "\<dots> \<longleftrightarrow> new = old" by (cases new; cases old) auto
  finally show ?thesis .
qed

lemma receive_bounds_emit:
  assumes "new \<noteq> old"
  shows "receive_bounds old (InStream c (bounds_emit (mk_bounds old new) @ r))
     = Inr (new, InStream (c @ bounds_emit (mk_bounds old new)) r)"
  unfolding receive_bounds_def bounds_emit_def
  using assms mk_bounds_sent [of old new] uint8.rd_enc
  by (simp add: mk_bounds_flags_0 receive_emit_bound)


subsection \<open>The header\<close>

lemma not_has_mask_bit:
  fixes w :: u32
  assumes "\<not> has w (NOT (mask n))" "n \<le> k"
  shows "\<not> bit w k"
proof
  assume b: "bit w k"
  then have "k < 32" using bit_imp_le_length [of w k] by simp
  with b assms(2) have "bit (w AND NOT (mask n)) k" by (simp add: bit_simps)
  then show False using assms(1) by (simp add: has_def)
qed

lemma less_bit:
  fixes f :: u32
  assumes "f < 2 ^ n" "n \<le> k"
  shows "\<not> bit f k"
proof
  assume b: "bit f k"
  then have k: "k < 32" using bit_imp_le_length [of f k] by simp
  then have "f = take_bit n f" using assms by (simp add: take_bit_eq_mask less_mask_eq)
  then have "bit (take_bit n f) k" using b by simp
  then show False using assms(2) by (simp add: bit_simps)
qed

lemma byte_mask [simp]: "(ucast (v AND 0xFF :: u32) :: u8) = ucast v"
proof -
  have m: "(0xFF :: u32) = mask 8" by (simp add: mask_eq_exp_minus_1)
  show ?thesis unfolding m by (rule bit_word_eqI) (simp add: bit_simps)
qed

lemma field_bytes1:
  fixes f :: u32
  assumes "f < 0x100"
  shows "ucast (ucast f :: u8) = f"
proof (rule bit_word_eqI)
  fix n assume "n < LENGTH(32)"
  then show "bit (ucast (ucast f :: u8) :: u32) n = bit f n"
    using less_bit [of f 8 n] assms by (cases "n < 8") (auto simp: bit_simps)
qed

lemma field_bytes2:
  fixes f :: u32
  assumes "f < 0x10000"
  shows "ucast (ucast f :: u8) OR push_bit 8 (ucast (ucast (drop_bit 8 f) :: u8)) = f" (is "?l = f")
proof (rule bit_word_eqI)
  fix n assume "n < LENGTH(32)"
  then have "n < 32" by simp
  then show "bit ?l n = bit f n"
    using less_bit [of f 16 n] assms by (cases rule: case_le_4_bytes) (auto simp: bit_simps)
qed

lemma field_bytes3:
  fixes f :: u32
  assumes "f < 0x1000000"
  shows "ucast (ucast f :: u8) OR push_bit 8 (ucast (ucast (drop_bit 8 f) :: u8))
      OR push_bit 16 (ucast (ucast (drop_bit 16 f) :: u8)) = f" (is "?l = f")
proof (rule bit_word_eqI)
  fix n assume "n < LENGTH(32)"
  then have "n < 32" by simp
  then show "bit ?l n = bit f n"
    using less_bit [of f 24 n] assms by (cases rule: case_le_4_bytes) (auto simp: bit_simps)
qed

lemma not_has_mask_less:
  fixes w :: u32
  assumes "\<not> has w (NOT (mask n))" "n < 32"
  shows "w < 2 ^ n"
proof -
  have "bit w k = bit (w AND mask n) k" if "k < 32" for k
    using not_has_mask_bit [OF assms(1), of k] by (cases "k < n") (simp_all add: bit_simps that)
  then have "w = w AND mask n" by (intro bit_word_eqI) simp
  then show ?thesis using and_mask_less' [of n w] assms(2) by simp
qed


lemmas not_has_less =
  not_has_mask_less [of _ 5, unfolded mask_eq_exp_minus_1, simplified]
  not_has_mask_less [of _ 7, unfolded mask_eq_exp_minus_1, simplified]
  not_has_mask_less [of _ 9, unfolded mask_eq_exp_minus_1, simplified]
  not_has_mask_less [of _ 10, unfolded mask_eq_exp_minus_1, simplified]
  not_has_mask_less [of _ 12, unfolded mask_eq_exp_minus_1, simplified]
  not_has_mask_less [of _ 13, unfolded mask_eq_exp_minus_1, simplified]
  not_has_mask_less [of _ 14, unfolded mask_eq_exp_minus_1, simplified]
  not_has_mask_less [of _ 16, unfolded mask_eq_exp_minus_1, simplified]
  not_has_mask_less [of _ 22, unfolded mask_eq_exp_minus_1, simplified]

text \<open>The fields an order may use fit the number of field bytes it has.\<close>

definition fields_fit :: "u8 \<Rightarrow> u32 \<Rightarrow> bool" where
  "fields_fit order f \<longleftrightarrow> (order_size order = 1 \<longrightarrow> f < 0x100) \<and> (order_size order = 2 \<longrightarrow> f < 0x10000)
     \<and> (order_size order = 3 \<longrightarrow> f < 0x1000000)"

lemma fields_allowed_fit:
  assumes "fields_allowed order f" "order \<noteq> DESKSAVE"
  shows "fields_fit order f"
proof -
  note l = not_has_less [of f]
  have le: "f < a \<Longrightarrow> a \<le> b \<Longrightarrow> f < b" for a b by simp
  from assms show ?thesis
    unfolding fields_allowed_def fields_fit_def order_size_def
    by (auto split: if_splits dest!: l elim!: le)
qed

lemma order_size_cases: "order_size order = 1 \<or> order_size order = 2 \<or> order_size order = 3"
  by (simp add: order_size_def)

definition field_count :: "u32 \<Rightarrow> nat" where
  "field_count f = (if f = 0 then 0 else if f < 0x100 then 1 else if f < 0x10000 then 2 else 3)"

lemma receive_fields_emit:
  assumes "f < 0x1000000"
  shows "receive_fields 0 (field_count f) 0 (InStream cs (emit_fields f @ r)) = Inr (f, InStream (cs @ emit_fields f) r)"
proof -
  have le: "0x100 \<le> f" if "0x10000 \<le> f" using that by (rule order_trans [rotated]) simp
  consider "f = 0" | "f \<noteq> 0" "f < 0x100" | "f \<noteq> 0" "0x100 \<le> f" "f < 0x10000" | "f \<noteq> 0" "0x100 \<le> f" "0x10000 \<le> f"
    using le by (meson not_le)
  then show ?thesis
  proof cases
    case 1 then show ?thesis by (simp add: field_count_def emit_fields_def opt_def)
  next
    case 2 then show ?thesis 
      by (simp add: field_count_def emit_fields_def opt_def bytes_uint8_def field_bytes1 not_le [symmetric])
  next
    case 3 then show ?thesis 
      by (simp add: field_count_def emit_fields_def opt_def bytes_uint8_def field_bytes2 not_le [symmetric] numeral_2_eq_2)
  next
    case 4 then show ?thesis using assms 
      by (simp add: field_count_def emit_fields_def opt_def bytes_uint8_def field_bytes3 [unfolded or.assoc] or.assoc not_le [symmetric] numeral_3_eq_3)
  qed
qed

lemma receive_size_flags:
  assumes "fields_fit order f" "\<not> has c SMALL" "\<not> has c TINY"
  shows "receive_size (c OR size_flags order f) order = field_count f"
  using assms order_size_cases [of order]
  by (auto simp: receive_size_def size_flags_def field_count_def fields_fit_def has_or flag_simps Let_def)

lemma size_flags_other: "\<not> has (size_flags order f) 0x01" "\<not> has (size_flags order f) 0x02"
  "\<not> has (size_flags order f) 0x08" "\<not> has (size_flags order f) 0x04" "\<not> has (size_flags order f) 0x10" "\<not> has (size_flags order f) 0x20"
  by (simp_all add: size_flags_def Let_def flag_simps)

definition base_control :: "u8 \<Rightarrow> bool" where
  "base_control c \<longleftrightarrow> has c STANDARD \<and> \<not> has c SECONDARY \<and> \<not> has c CHANGE \<and> \<not> has c LASTBOUNDS \<and> \<not> has c SMALL \<and> \<not> has c TINY"

lemma if_flag: "(if a then flag p m else 0) = flag (a \<and> p) m"
  by (simp add: flag_def)

lemma common_emit_receive:
  assumes fit: "fields_allowed (corder com) (hfields h)" "corder com \<noteq> DESKSAVE" and c: "base_control (control h)"
    and e: "common_emit com h old = (bs, h', com')"
  shows "\<exists>rest. bs = control h' # rest
     \<and> common_receive old (control h') (InStream cs (rest @ r)) = Inr (h', com', InStream (cs @ rest) r)"
    "hfields h' = hfields h" "has (control h') DELTA \<longleftrightarrow> has (control h) DELTA"
    "com' = (if has (control h) BOUNDS then com else com\<lparr>clip := clip old\<rparr>)"
    "has (control h') STANDARD" "\<not> has (control h') SECONDARY"
    "has (control h') BOUNDS \<longleftrightarrow> has (control h) BOUNDS"
proof -
  define b where "b = mk_bounds (clip old) (clip com)"
  define f where "f = hfields h"
  define c2 where "c2 = (control h OR flag (corder com \<noteq> corder old) CHANGE) OR
    flag (has (control h) BOUNDS \<and> bounds_flags b = 0) LASTBOUNDS"
  define c3 where "c3 = c2 OR size_flags (corder com) f"
  have h': "control h' = c3" "hfields h' = f"
    and bs: "bs = c3 # opt (has c3 CHANGE) [corder com] @ emit_fields f @ 
       opt (has c3 BOUNDS \<and> \<not> has c3 LASTBOUNDS) (bounds_emit b)"
    and com': "com' = (if has c3 BOUNDS then com else com\<lparr>clip := clip old\<rparr>)"
    using e unfolding common_emit_def Let_def b_def [symmetric] emit_header_def
    by (auto simp: if_flag flag_simps c2_def c3_def f_def bytes_uint8_def size_flags_other opt_def split: if_splits)
  have hc: "has c3 CHANGE \<longleftrightarrow> corder com \<noteq> corder old" "has c3 BOUNDS \<longleftrightarrow> has (control h) BOUNDS" 
    "has c3 LASTBOUNDS \<longleftrightarrow> has (control h) BOUNDS \<and> bounds_flags b = 0" "has c3 DELTA \<longleftrightarrow> has (control h) DELTA"
    "\<not> has c2 SMALL" "\<not> has c2 TINY" "has c3 STANDARD" "\<not> has c3 SECONDARY"
    using c by (simp_all add: c3_def c2_def base_control_def has_or flag_simps size_flags_other)
  have fit': "fields_fit (corder com) f" using fields_allowed_fit fit by (simp add: f_def)
  then have f24: "f < 0x1000000" using order_size_cases [of "corder com"] unfolding fields_fit_def 
    by (auto elim!: order.strict_trans2)
  have rs: "receive_size c3 (corder com) = field_count f"
    unfolding c3_def using fit' hc(5,6) by (rule receive_size_flags)
  show "has (control h') STANDARD" "\<not> has (control h') SECONDARY"
    "has (control h') BOUNDS \<longleftrightarrow> has (control h) BOUNDS"
    using h' hc by simp_all
  show "hfields h' = hfields h" "has (control h') DELTA \<longleftrightarrow> has (control h) DELTA"
    using h' hc by (simp_all add: f_def)
  show "com' = (if has (control h) BOUNDS then com else com\<lparr>clip := clip old\<rparr>)" using com' hc by simp
  have b0: "bounds_flags b = 0 \<longleftrightarrow> clip com = clip old" by (simp add: b_def mk_bounds_flags_0)
  define rest where "rest = opt (has c3 CHANGE) [corder com] @ emit_fields f @ 
       opt (has c3 BOUNDS \<and> \<not> has c3 LASTBOUNDS) (bounds_emit b)"
  have rd1: "in_if (has c3 CHANGE) in_uint8 (corder old) (InStream c (opt (has c3 CHANGE) [corder com] @ r))
     = Inr (corder com, InStream (c @ opt (has c3 CHANGE) [corder com]) r)" for c r
    by (simp add: hc in_if_def opt_def)
  have rd2: "receive_bounds (clip old) (InStream c (bounds_emit b @ r)) = Inr (clip com, InStream (c @ bounds_emit b) r)" 
    if "clip com \<noteq> clip old" for c r unfolding b_def using that by (rule receive_bounds_emit)
  have h'eq: "h' = \<lparr>control = c3, hfields = f\<rparr>" using h' by (cases h') simp
  have "common_receive old c3 (InStream cs (rest @ r)) = Inr (h', com', InStream (cs @ rest) r)"
    unfolding rest_def common_receive_def append_assoc rd1 bindR_simps prod.case rs receive_fields_emit [OF f24]
    using fit h'eq com' rd2 b0 hc by (cases com; cases old) (auto simp: f_def opt_def)
  then show "\<exists>rest. bs = control h' # rest
     \<and> common_receive old (control h') (InStream cs (rest @ r)) = Inr (h', com', InStream (cs @ rest) r)"
    unfolding h' using bs rest_def by auto
qed

subsection \<open>Sizes\<close>

lemma length_opt: "length (opt b bs) \<le> length bs"
  by (simp add: opt_def)

lemma length_emit_color [simp]: "length (emit_rdp_color c) = 3"
  by (simp add: emit_rdp_color_def bytes_uint8_def)

lemma length_bytes [simp]: "length (bytes_uint8 v) = 1" "length (bytes_uint16_le w) = 2"
  by (simp_all add: bytes_uint8_def bytes_uint16_le_def)

lemma length_emit_coord: "length (emit_coord h base x y) \<le> 2"
  by (simp add: emit_coord_def opt_def)

lemma length_emit_rect: "length (emit_rect h base x y) \<le> 8"
  by (simp add: emit_rect_def opt_def)

lemma length_emit_src: "length (emit_src h base a b c d) \<le> 4"
  by (simp add: emit_src_def opt_def)

lemma length_emit_pen: "length (emit_pen h base p) \<le> 5"
  by (simp add: emit_pen_def opt_def)

lemma length_emit_brush: "brush_ok b \<Longrightarrow> length (emit_brush h base b) \<le> 11"
  by (simp add: emit_brush_def opt_def brush_ok_def)

lemma length_bounds_emit: "length (bounds_emit bs) \<le> 9"
  by (simp add: bounds_emit_def emit_bound_def)

lemma length_emit_fields:
  assumes "fields_fit order f"
  shows "length (emit_fields f) \<le> order_size order"
  using assms order_size_cases [of order]
  by (auto simp: emit_fields_def opt_def fields_fit_def not_le)

lemma length_common_emit:
  assumes "common_emit com h old = (bs, h', com')" "fields_fit (corder com) (hfields h)"
  shows "length bs \<le> 11 + order_size (corder com)"
proof -
  have hl: "length hb \<le> 2 + order_size (corder com)" if "emit_header (corder com) hd = (hb, h2)" "hfields hd = hfields h" for hd hb h2
    using length_emit_fields [OF assms(2)] that by (auto simp: emit_header_def Let_def opt_def)
  have ol: "length (opt b (bounds_emit bb)) \<le> 9" for b bb
    using length_opt [of b "bounds_emit bb"] length_bounds_emit [of bb] by simp
  define c1 where "c1 = control h OR flag (corder com \<noteq> corder old) CHANGE"
  define c2 where "c2 = c1 OR (if has c1 BOUNDS then flag (bounds_flags (mk_bounds (clip old) (clip com)) = 0) LASTBOUNDS else 0)"
  obtain hb h2 where eh: "emit_header (corder com) (h\<lparr>control := c2\<rparr>) = (hb, h2)"
    by (cases "emit_header (corder com) (h\<lparr>control := c2\<rparr>)") auto
  then have "length hb \<le> 2 + order_size (corder com)" by (rule hl) simp
  moreover have "length bs \<le> length hb + 9"
    using assms(1) ol unfolding common_emit_def Let_def c1_def [symmetric] c2_def [symmetric] eh
    by (auto split: if_splits)
  ultimately show ?thesis by simp
qed

subsection \<open>Properties\<close>

text \<open>
  \<open>RDPOrderCommon::receive\<close> reads back what \<open>RDPOrderCommon::emit\<close> wrote (order type, field mask, delta
  flag and clipping bounds), for every order whose mask \<open>receive\<close> accepts, and both ends keep the
  same common part.
\<close>

theorem common_part_round_trip:
  assumes "fields_allowed (corder com) (hfields h)" "corder com \<noteq> DESKSAVE" "base_control (control h)"
  shows "\<exists>bs h' com'. common_emit com h old = (bs, h', com')
    \<and> common_receive old (hd bs) (InStream cs (tl bs @ r)) = Inr (h', com', InStream (cs @ tl bs) r)
    \<and> hfields h' = hfields h \<and> (has (control h') DELTA \<longleftrightarrow> has (control h) DELTA)
    \<and> corder com' = corder com \<and> (if has (control h) BOUNDS then clip com' = clip com else clip com' = clip old)"
proof -
  obtain bs h' com' where e: "common_emit com h old = (bs, h', com')" by (cases "common_emit com h old") auto
  note r = common_emit_receive [OF assms e]
  from r(1) [of cs r] r(2-4) e show ?thesis by (cases com) auto
qed

theorem common_part_round_trip_witness:
  "\<exists>bs h' com'. common_emit \<lparr>corder = RECT, clip = mk_rect 3 4 100 300\<rparr> \<lparr>control = STANDARD OR BOUNDS, hfields = 0x1F\<rparr>
      \<lparr>corder = PATBLT, clip = mk_rect 0 0 1 1\<rparr> = (bs, h', com')
    \<and> common_receive \<lparr>corder = PATBLT, clip = mk_rect 0 0 1 1\<rparr> (hd bs) (InStream [] (tl bs @ [])) = Inr (h', com', InStream ([] @ tl bs) [])
    \<and> clip com' = mk_rect 3 4 100 300"
proof -
  have "fields_allowed (corder \<lparr>corder = RECT, clip = mk_rect 3 4 100 300\<rparr>) (hfields \<lparr>control = STANDARD OR BOUNDS, hfields = 0x1F\<rparr>)"
    "corder \<lparr>corder = RECT, clip = mk_rect 3 4 100 300\<rparr> \<noteq> DESKSAVE"
    "base_control (control \<lparr>control = STANDARD OR BOUNDS, hfields = 0x1F\<rparr>)"
    by code_simp+
  from common_part_round_trip [OF this, of "\<lparr>corder = PATBLT, clip = mk_rect 0 0 1 1\<rparr>" "[]" "[]"]
  show ?thesis by (auto simp: flag_simps)
qed

end
