(* ===== verification/Orders.thy ===== *)
theory Orders
  imports Order_Common
begin

text \<open>
  The primary drawing orders with fixed fields, \<open>core/RDP/orders/RDPOrdersPrimary*.hpp\<close>. Each
  order has its record, the header it prepares before \<open>common.emit\<close> (\<open>_header\<close>: clipping,
  delta coding and the fields that changed since the last order of its kind), the field bytes
  (\<open>_body\<close>) and its receive function. The locale \<open>primary_order\<close> states what the encoder and
  the decoder of an order owe each other; every order is an interpretation of it.
\<close>

subsection \<open>Emitting and receiving an order\<close>

text \<open>\<open>emit\<close> of every class: prepare the header, emit the common part, then the fields.\<close>

definition order_emit ::
  "(rect \<Rightarrow> 'cmd \<Rightarrow> 'cmd \<Rightarrow> header) \<Rightarrow> (header \<Rightarrow> 'cmd \<Rightarrow> 'cmd \<Rightarrow> u8 list)
     \<Rightarrow> common \<Rightarrow> common \<Rightarrow> 'cmd \<Rightarrow> 'cmd \<Rightarrow> u8 list \<times> common" where
  "order_emit prepare body com oldcom cmd oldcmd =
     (let (bs, h, com') = common_emit com (prepare (clip com) cmd oldcmd) oldcom
      in (bs @ body h cmd oldcmd, com'))"

text \<open>The receiver reads the control byte, then the common part, then the fields.\<close>

definition order_receive ::
  "(header \<Rightarrow> 'cmd \<Rightarrow> instream \<Rightarrow> ('cmd \<times> instream) res)
     \<Rightarrow> common \<Rightarrow> 'cmd \<Rightarrow> instream \<Rightarrow> (common \<times> 'cmd \<times> instream) res" where
  "order_receive rcv com cmd s =
     bindR (in_uint8 s) (\<lambda>(c, s).
     bindR (common_receive com c s) (\<lambda>(h, com, s).
     bindR (rcv h cmd s) (\<lambda>(cmd, s). Inr (com, cmd, s))))"

definition as_prepared :: "header \<Rightarrow> header \<Rightarrow> bool" where
  "as_prepared h h0 \<longleftrightarrow> hfields h = hfields h0 \<and> (has (control h) DELTA \<longleftrightarrow> has (control h0) DELTA)"

locale primary_order =
  fixes oid :: u8
    and prepare :: "rect \<Rightarrow> 'cmd \<Rightarrow> 'cmd \<Rightarrow> header"
    and body :: "header \<Rightarrow> 'cmd \<Rightarrow> 'cmd \<Rightarrow> u8 list"
    and rcv :: "header \<Rightarrow> 'cmd \<Rightarrow> instream \<Rightarrow> ('cmd \<times> instream) res"
    and ok :: "'cmd \<Rightarrow> bool"
    and same :: "'cmd \<Rightarrow> 'cmd \<Rightarrow> bool"
  assumes oid_drawn: "oid \<noteq> DESKSAVE"
    and prepare_control: "base_control (control (prepare cl cmd old))"
    and prepare_fields: "fields_allowed oid (hfields (prepare cl cmd old))"
    and rcv_body: "ok cmd \<Longrightarrow> same old old' \<Longrightarrow> as_prepared h (prepare cl cmd old) \<Longrightarrow>
      \<exists>cmd'. rcv h old' (InStream c (body h cmd old @ r)) = Inr (cmd', InStream (c @ body h cmd old) r)
           \<and> same cmd cmd'"
begin

lemma emit_steps:
  assumes e: "order_emit prepare body com oldcom cmd old = (bs, com')"
    and "corder com = oid" "ok cmd" "same old old'"
  obtains c rest h s2 cmd' where "bs = c # rest" "has c STANDARD" "\<not> has c SECONDARY"
    "has c BOUNDS \<longleftrightarrow> has (control (prepare (clip com) cmd old)) BOUNDS"
    "common_receive oldcom c (InStream (cs @ [c]) (rest @ r)) = Inr (h, com', s2)"
    "rcv h old' s2 = Inr (cmd', InStream (cs @ bs) r)" "same cmd cmd'" "corder com' = oid"
    "clip com' = (if has c BOUNDS then clip com else clip oldcom)"
proof -
  define h0 where "h0 = prepare (clip com) cmd old"
  obtain hb h com2 where ce: "common_emit com h0 oldcom = (hb, h, com2)"
    by (cases "common_emit com h0 oldcom") auto
  with e have bs: "bs = hb @ body h cmd old" and com': "com' = com2"
    by (auto simp: order_emit_def h0_def)
  have fa: "fields_allowed (corder com) (hfields h0)" "corder com \<noteq> DESKSAVE" "base_control (control h0)"
    using assms(2) oid_drawn prepare_control prepare_fields by (simp_all add: h0_def)
  note ce = common_emit_receive [OF fa ce]
  obtain rest where hb: "hb = control h # rest"
    and rc: "common_receive oldcom (control h) (InStream (cs @ [control h]) (rest @ body h cmd old @ r))
      = Inr (h, com2, InStream ((cs @ [control h]) @ rest) (body h cmd old @ r))"
    using ce(1) by blast
  have "as_prepared h h0" using ce(2,3) by (simp add: as_prepared_def)
  from rcv_body [OF assms(3,4) this [unfolded h0_def], of "(cs @ [control h]) @ rest" r]
  obtain cmd' where "rcv h old' (InStream ((cs @ [control h]) @ rest) (body h cmd old @ r))
      = Inr (cmd', InStream (((cs @ [control h]) @ rest) @ body h cmd old) r)" "same cmd cmd'"
    by blast
  with rc ce(4-7) show ?thesis
    by (intro that [of "control h" "rest @ body h cmd old" h "InStream ((cs @ [control h]) @ rest) (body h cmd old @ r)" cmd'])
      (simp_all add: bs hb com' h0_def assms(2))
qed

lemma emit_receive:
  assumes "order_emit prepare body com oldcom cmd old = (bs, com')"
    and "corder com = oid" "ok cmd" "same old old'"
  shows "\<exists>cmd'. order_receive rcv oldcom old' (InStream c (bs @ r)) = Inr (com', cmd', InStream (c @ bs) r)
       \<and> same cmd cmd'"
proof -
  obtain c1 rest h s2 cmd' where s: "bs = c1 # rest"
    "common_receive oldcom c1 (InStream (c @ [c1]) (rest @ r)) = Inr (h, com', s2)"
    "rcv h old' s2 = Inr (cmd', InStream (c @ bs) r)" "same cmd cmd'"
    by (rule emit_steps [OF assms, of c r])
  then show ?thesis by (simp add: order_receive_def)
qed

lemma emit_length:
  assumes "order_emit prepare body com oldcom cmd old = (bs, com')" "corder com = oid"
    and "\<And>h. length (body h cmd old) \<le> n"
  shows "length bs \<le> 11 + order_size oid + n"
proof -
  define h0 where "h0 = prepare (clip com) cmd old"
  obtain hb h com2 where ce: "common_emit com h0 oldcom = (hb, h, com2)"
    by (cases "common_emit com h0 oldcom") auto
  have "fields_fit (corder com) (hfields h0)"
    using fields_allowed_fit prepare_fields oid_drawn assms(2) by (simp add: h0_def)
  from length_common_emit [OF ce this] assms(3) [of h] have "length hb + length (body h cmd old) \<le> 11 + order_size oid + n"
    by (simp add: assms(2))
  moreover have "bs = hb @ body h cmd old" using assms(1) ce by (auto simp: order_emit_def h0_def)
  ultimately show ?thesis by simp
qed

end

subsection \<open>Coordinates that fit one byte\<close>

lemma is_1_byte_of_int: "-128 < d \<Longrightarrow> d < 128 \<Longrightarrow> is_1_byte (word_of_int d)"
  using sint16_of_int [of d] by (simp add: is_1_byte_def)

lemma fully_relative_1_byte:
  assumes "fully_relative (mk_delta_rect a b)"
  shows "is_1_byte (rx a - rx b)" "is_1_byte (ry a - ry b)" "is_1_byte (rcx a - rcx b)" "is_1_byte (rcy a - rcy b)"
proof -
  have e: "rx a - rx b = word_of_int (dleft (mk_delta_rect a b))"
    "ry a - ry b = word_of_int (dtop (mk_delta_rect a b))"
    "rcx a - rcx b = word_of_int (dwidth (mk_delta_rect a b))"
    "rcy a - rcy b = word_of_int (dheight (mk_delta_rect a b))"
    by (simp_all add: mk_delta_rect_def word_of_int_sint_diff word_of_int_uint_diff)
  show "is_1_byte (rx a - rx b)" "is_1_byte (ry a - ry b)" "is_1_byte (rcx a - rcx b)" "is_1_byte (rcy a - rcy b)"
    unfolding e by (rule is_1_byte_of_int; use assms in \<open>simp add: fully_relative_def\<close>)+
qed

lemma delta_rect_zero [simp]:
  "dleft (mk_delta_rect a b) = 0 \<longleftrightarrow> rx a = rx b"
  "dtop (mk_delta_rect a b) = 0 \<longleftrightarrow> ry a = ry b"
  "dwidth (mk_delta_rect a b) = 0 \<longleftrightarrow> rcx a = rcx b"
  "dheight (mk_delta_rect a b) = 0 \<longleftrightarrow> rcy a = rcy b"
proof -
  have s: "sint v = sint w \<longleftrightarrow> v = w" for v w :: i16
    by (metis cancel_comm_monoid_add_class.diff_cancel eq_iff_diff_eq_0 word_of_int_0 word_of_int_sint_diff)
  show "dleft (mk_delta_rect a b) = 0 \<longleftrightarrow> rx a = rx b"
    "dtop (mk_delta_rect a b) = 0 \<longleftrightarrow> ry a = ry b"
    "dwidth (mk_delta_rect a b) = 0 \<longleftrightarrow> rcx a = rcx b"
    "dheight (mk_delta_rect a b) = 0 \<longleftrightarrow> rcy a = rcy b"
    by (simp_all add: mk_delta_rect_def s word_uint_eq_iff)
qed

lemma rect_sentI:
  assumes "has (hfields h) base \<longleftrightarrow> rx new \<noteq> rx old"
    "has (hfields h) (push_bit 1 base) \<longleftrightarrow> ry new \<noteq> ry old"
    "has (hfields h) (push_bit 2 base) \<longleftrightarrow> rcx new \<noteq> rcx old"
    "has (hfields h) (push_bit 3 base) \<longleftrightarrow> rcy new \<noteq> rcy old"
    "has (control h) DELTA \<Longrightarrow> fully_relative (mk_delta_rect new old)"
  shows "rect_sent h base new old"
  using assms fully_relative_1_byte [of new old] unfolding rect_sent_def coord_sent_def by blast

lemma coord_sentI:
  assumes "has (hfields h) base \<longleftrightarrow> new \<noteq> old" "has (control h) DELTA \<Longrightarrow> is_1_byte (new - old)"
  shows "coord_sent h base new old"
  using assms unfolding coord_sent_def by blast

lemmas in_if_simps = in_if_uint8 in_if_uint16_le in_if_color in_if_bytes
lemmas header_simps = base_control_def fields_allowed_def Let_def flag_simps

subsection \<open>DstBlt\<close>

record DstBlt =
  d_rect :: rect
  d_rop :: u8

definition DstBlt_header :: "rect \<Rightarrow> DstBlt \<Rightarrow> DstBlt \<Rightarrow> header" where
  "DstBlt_header cl cmd old =
     (let dr = mk_delta_rect (d_rect cmd) (d_rect old)
      in \<lparr>control = (STANDARD OR flag (\<not> contains cl (d_rect cmd)) BOUNDS) OR flag (fully_relative dr) DELTA,
          hfields = flag (dleft dr \<noteq> 0) 0x01 OR flag (dtop dr \<noteq> 0) 0x02
            OR flag (dwidth dr \<noteq> 0) 0x04 OR flag (dheight dr \<noteq> 0) 0x08
            OR flag (d_rop cmd \<noteq> d_rop old) 0x10\<rparr>)"

definition DstBlt_body :: "header \<Rightarrow> DstBlt \<Rightarrow> DstBlt \<Rightarrow> u8 list" where
  "DstBlt_body h cmd old =
     emit_rect h 0x01 (d_rect cmd) (d_rect old)
     @ opt (has (hfields h) 0x10) (bytes_uint8 (d_rop cmd))"

definition DstBlt_receive :: "header \<Rightarrow> DstBlt \<Rightarrow> instream \<Rightarrow> (DstBlt \<times> instream) res" where
  "DstBlt_receive h cmd s =
     bindR (receive_rect h 0x01 (d_rect cmd) s) (\<lambda>(r, s).
     bindR (in_if (has (hfields h) 0x10) in_uint8 (d_rop cmd) s) (\<lambda>(rop, s).
     Inr (\<lparr>d_rect = r, d_rop = rop\<rparr>, s)))"

definition DstBlt_move :: "i16 \<Rightarrow> i16 \<Rightarrow> DstBlt \<Rightarrow> DstBlt" where
  "DstBlt_move dx dy cmd = cmd\<lparr>d_rect := offset_rect (d_rect cmd) dx dy\<rparr>"

lemma DstBlt_rcv_body:
  assumes "as_prepared h (DstBlt_header cl cmd old)"
  shows "DstBlt_receive h old (InStream c (DstBlt_body h cmd old @ r)) = Inr (cmd, InStream (c @ DstBlt_body h cmd old) r)"
proof -
  note p = assms [unfolded as_prepared_def DstBlt_header_def Let_def]
  have "rect_sent h 0x01 (d_rect cmd) (d_rect old)"
    by (rule rect_sentI; simp add: p flag_simps)
  moreover have "has (hfields h) 0x10 \<longleftrightarrow> d_rop cmd \<noteq> d_rop old"
    by (simp add: p flag_simps)
  ultimately show ?thesis unfolding DstBlt_receive_def DstBlt_body_def by (simp add: in_if_uint8)
qed

interpretation DstBlt: primary_order DESTBLT DstBlt_header DstBlt_body DstBlt_receive "\<lambda>_. True" "(=)"
  by unfold_locales (simp_all add: DstBlt_rcv_body DstBlt_header_def header_simps)

subsection \<open>OpaqueRect\<close>

record OpaqueRect =
  o_rect :: rect
  o_color :: color

definition OpaqueRect_header :: "rect \<Rightarrow> OpaqueRect \<Rightarrow> OpaqueRect \<Rightarrow> header" where
  "OpaqueRect_header cl cmd old =
     (let dr = mk_delta_rect (o_rect cmd) (o_rect old);
          diff_color = o_color cmd XOR o_color old
      in \<lparr>control = (STANDARD OR flag (\<not> contains cl (o_rect cmd)) BOUNDS) OR flag (fully_relative dr) DELTA,
          hfields = flag (dleft dr \<noteq> 0) 0x01 OR flag (dtop dr \<noteq> 0) 0x02
            OR flag (dwidth dr \<noteq> 0) 0x04 OR flag (dheight dr \<noteq> 0) 0x08
            OR flag (has diff_color 0x0000FF) 0x10
            OR flag (has diff_color 0x00FF00) 0x20
            OR flag (has diff_color 0xFF0000) 0x40\<rparr>)"

definition OpaqueRect_body :: "header \<Rightarrow> OpaqueRect \<Rightarrow> OpaqueRect \<Rightarrow> u8 list" where
  "OpaqueRect_body h cmd old =
     emit_rect h 0x01 (o_rect cmd) (o_rect old)
     @ opt (has (hfields h) 0x10) (bytes_uint8 (color_red (o_color cmd)))
     @ opt (has (hfields h) 0x20) (bytes_uint8 (color_green (o_color cmd)))
     @ opt (has (hfields h) 0x40) (bytes_uint8 (color_blue (o_color cmd)))"

definition OpaqueRect_receive :: "header \<Rightarrow> OpaqueRect \<Rightarrow> instream \<Rightarrow> (OpaqueRect \<times> instream) res" where
  "OpaqueRect_receive h cmd s =
     bindR (receive_rect h 0x01 (o_rect cmd) s) (\<lambda>(rc, s).
     bindR (in_if (has (hfields h) 0x10) in_uint8 (color_red (o_color cmd)) s) (\<lambda>(r, s).
     bindR (in_if (has (hfields h) 0x20) in_uint8 (color_green (o_color cmd)) s) (\<lambda>(g, s).
     bindR (in_if (has (hfields h) 0x40) in_uint8 (color_blue (o_color cmd)) s) (\<lambda>(b, s).
     Inr (\<lparr>o_rect = rc, o_color = BGRColor b g r\<rparr>, s)))))"

definition OpaqueRect_move :: "i16 \<Rightarrow> i16 \<Rightarrow> OpaqueRect \<Rightarrow> OpaqueRect" where
  "OpaqueRect_move dx dy cmd = cmd\<lparr>o_rect := offset_rect (o_rect cmd) dx dy\<rparr>"

lemma BGRColor_id: "color_ok c \<Longrightarrow> BGRColor (color_blue c) (color_green c) (color_red c) = c"
  by (simp add: BGRColor_def color_red_def color_green_def color_blue_def color_ok_def
      word24_of_bytes [unfolded or.assoc] or.assoc)

lemma color_byte_same:
  fixes c old :: color
  shows "\<not> has (c XOR old) 0x0000FF \<Longrightarrow> color_red c = color_red old"
    "\<not> has (c XOR old) 0x00FF00 \<Longrightarrow> color_green c = color_green old"
    "\<not> has (c XOR old) 0xFF0000 \<Longrightarrow> color_blue c = color_blue old"
proof -
  have m: "(0x0000FF :: u32) = push_bit 0 (mask 8)" "(0x00FF00 :: u32) = push_bit 8 (mask 8)"
    "(0xFF0000 :: u32) = push_bit 16 (mask 8)"
    by (simp_all add: mask_eq_exp_minus_1)
  have same: "bit c (k + n) = bit old (k + n)"
    if "\<not> has (c XOR old) (push_bit k (mask 8))" "k \<le> 16" "n < 8" for k n
  proof -
    have "\<not> bit ((c XOR old) AND push_bit k (mask 8)) (k + n)"
      using that(1) by (simp add: has_def)
    then show ?thesis using that(2,3) by (simp add: bit_simps)
  qed
  show "\<not> has (c XOR old) 0x0000FF \<Longrightarrow> color_red c = color_red old"
    unfolding color_red_def m(1) using same [of 0] by (auto intro!: bit_word_eqI simp: bit_simps)
  show "\<not> has (c XOR old) 0x00FF00 \<Longrightarrow> color_green c = color_green old"
    unfolding color_green_def m(2) using same [of 8] by (auto intro!: bit_word_eqI simp: bit_simps)
  show "\<not> has (c XOR old) 0xFF0000 \<Longrightarrow> color_blue c = color_blue old"
    unfolding color_blue_def m(3) using same [of 16] by (auto intro!: bit_word_eqI simp: bit_simps)
qed

lemma OpaqueRect_rcv_body:
  assumes "as_prepared h (OpaqueRect_header cl cmd old)" "color_ok (o_color cmd)"
  shows "OpaqueRect_receive h old (InStream c (OpaqueRect_body h cmd old @ r))
    = Inr (cmd, InStream (c @ OpaqueRect_body h cmd old) r)"
proof -
  note p = assms(1) [unfolded as_prepared_def OpaqueRect_header_def Let_def]
  have "rect_sent h 0x01 (o_rect cmd) (o_rect old)"
    by (rule rect_sentI; simp add: p flag_simps)
  moreover have "has (hfields h) 0x10 \<or> color_red (o_color cmd) = color_red (o_color old)"
    "has (hfields h) 0x20 \<or> color_green (o_color cmd) = color_green (o_color old)"
    "has (hfields h) 0x40 \<or> color_blue (o_color cmd) = color_blue (o_color old)"
    using color_byte_same [of "o_color cmd" "o_color old"] by (auto simp: p flag_simps)
  ultimately show ?thesis unfolding OpaqueRect_receive_def OpaqueRect_body_def
    by (simp add: in_if_simps BGRColor_id assms(2))
qed

interpretation OpaqueRect: primary_order RECT OpaqueRect_header OpaqueRect_body OpaqueRect_receive
  "\<lambda>cmd. color_ok (o_color cmd)" "(=)"
  by unfold_locales (simp_all add: OpaqueRect_rcv_body OpaqueRect_header_def header_simps)

subsection \<open>ScrBlt\<close>

record ScrBlt =
  sb_rect :: rect
  sb_rop :: u8
  sb_srcx :: u16
  sb_srcy :: u16

definition ScrBlt_header :: "rect \<Rightarrow> ScrBlt \<Rightarrow> ScrBlt \<Rightarrow> header" where
  "ScrBlt_header cl cmd old =
     (let dr = mk_delta_rect (sb_rect cmd) (sb_rect old)
      in \<lparr>control = (STANDARD OR flag (\<not> contains cl (sb_rect cmd)) BOUNDS)
            OR flag (fully_relative dr \<and> is_1_byte (sb_srcx cmd - sb_srcx old)
                 \<and> is_1_byte (sb_srcy cmd - sb_srcy old)) DELTA,
          hfields = flag (dleft dr \<noteq> 0) 0x01 OR flag (dtop dr \<noteq> 0) 0x02
            OR flag (dwidth dr \<noteq> 0) 0x04 OR flag (dheight dr \<noteq> 0) 0x08
            OR flag (sb_rop cmd \<noteq> sb_rop old) 0x10
            OR flag (sb_srcx cmd - sb_srcx old \<noteq> 0) 0x20
            OR flag (sb_srcy cmd - sb_srcy old \<noteq> 0) 0x40\<rparr>)"

definition ScrBlt_body :: "header \<Rightarrow> ScrBlt \<Rightarrow> ScrBlt \<Rightarrow> u8 list" where
  "ScrBlt_body h cmd old =
     emit_rect h 0x01 (sb_rect cmd) (sb_rect old)
     @ opt (has (hfields h) 0x10) (bytes_uint8 (sb_rop cmd))
     @ emit_src h 0x20 (sb_srcx cmd) (sb_srcy cmd) (sb_srcx old) (sb_srcy old)"

definition ScrBlt_receive :: "header \<Rightarrow> ScrBlt \<Rightarrow> instream \<Rightarrow> (ScrBlt \<times> instream) res" where
  "ScrBlt_receive h cmd s =
     bindR (receive_rect h 0x01 (sb_rect cmd) s) (\<lambda>(rc, s).
     bindR (in_if (has (hfields h) 0x10) in_uint8 (sb_rop cmd) s) (\<lambda>(rop, s).
     bindR (receive_src h 0x20 (sb_srcx cmd) (sb_srcy cmd) s) (\<lambda>((x, y), s).
     Inr (\<lparr>sb_rect = rc, sb_rop = rop, sb_srcx = x, sb_srcy = y\<rparr>, s))))"

definition ScrBlt_move :: "i16 \<Rightarrow> i16 \<Rightarrow> ScrBlt \<Rightarrow> ScrBlt" where
  "ScrBlt_move dx dy cmd =
     cmd\<lparr>sb_rect := offset_rect (sb_rect cmd) dx dy, sb_srcx := sb_srcx cmd + dx, sb_srcy := sb_srcy cmd + dy\<rparr>"

lemma ScrBlt_rcv_body:
  assumes "as_prepared h (ScrBlt_header cl cmd old)"
  shows "ScrBlt_receive h old (InStream c (ScrBlt_body h cmd old @ r))
    = Inr (cmd, InStream (c @ ScrBlt_body h cmd old) r)"
proof -
  note p = assms [unfolded as_prepared_def ScrBlt_header_def Let_def]
  have "rect_sent h 0x01 (sb_rect cmd) (sb_rect old)"
    by (rule rect_sentI; simp add: p flag_simps)
  moreover have "coord_sent h 0x20 (sb_srcx cmd) (sb_srcx old)"
    "coord_sent h (push_bit 1 0x20) (sb_srcy cmd) (sb_srcy old)"
    by (rule coord_sentI; simp add: p flag_simps)+
  moreover have "has (hfields h) 0x10 \<or> sb_rop cmd = sb_rop old"
    by (simp add: p flag_simps)
  ultimately show ?thesis unfolding ScrBlt_receive_def ScrBlt_body_def
    by (simp add: in_if_simps)
qed

interpretation ScrBlt: primary_order SCREENBLT ScrBlt_header ScrBlt_body ScrBlt_receive "\<lambda>_. True" "(=)"
  by unfold_locales (simp_all add: ScrBlt_rcv_body ScrBlt_header_def header_simps)

subsection \<open>MemBlt\<close>

record MemBlt =
  m_cache_id :: u16
  m_rect :: rect
  m_rop :: u8
  m_srcx :: u16
  m_srcy :: u16
  m_cache_idx :: u16

definition MemBlt_header :: "rect \<Rightarrow> MemBlt \<Rightarrow> MemBlt \<Rightarrow> header" where
  "MemBlt_header cl cmd old =
     (let dr = mk_delta_rect (m_rect cmd) (m_rect old)
      in \<lparr>control = (STANDARD OR flag (\<not> contains cl (m_rect cmd)) BOUNDS)
            OR flag (fully_relative dr \<and> is_1_byte (m_srcx cmd - m_srcx old)
                 \<and> is_1_byte (m_srcy cmd - m_srcy old)) DELTA,
          hfields = flag (m_cache_id cmd \<noteq> m_cache_id old) 0x001
            OR flag (dleft dr \<noteq> 0) 0x002 OR flag (dtop dr \<noteq> 0) 0x004
            OR flag (dwidth dr \<noteq> 0) 0x008 OR flag (dheight dr \<noteq> 0) 0x010
            OR flag (m_rop cmd \<noteq> m_rop old) 0x020
            OR flag (m_srcx cmd - m_srcx old \<noteq> 0) 0x040
            OR flag (m_srcy cmd - m_srcy old \<noteq> 0) 0x080
            OR flag (m_cache_idx cmd \<noteq> m_cache_idx old) 0x100\<rparr>)"

definition MemBlt_body :: "header \<Rightarrow> MemBlt \<Rightarrow> MemBlt \<Rightarrow> u8 list" where
  "MemBlt_body h cmd old =
     opt (has (hfields h) 0x01) (bytes_uint16_le (m_cache_id cmd))
     @ emit_rect h 0x02 (m_rect cmd) (m_rect old)
     @ opt (has (hfields h) 0x20) (bytes_uint8 (m_rop cmd))
     @ emit_src h 0x40 (m_srcx cmd) (m_srcy cmd) (m_srcx old) (m_srcy old)
     @ opt (has (hfields h) 0x100) (bytes_uint16_le (m_cache_idx cmd))"

definition MemBlt_receive :: "header \<Rightarrow> MemBlt \<Rightarrow> instream \<Rightarrow> (MemBlt \<times> instream) res" where
  "MemBlt_receive h cmd s =
     bindR (in_if (has (hfields h) 0x01) in_uint16_le (m_cache_id cmd) s) (\<lambda>(id, s).
     bindR (receive_rect h 0x02 (m_rect cmd) s) (\<lambda>(rc, s).
     bindR (in_if (has (hfields h) 0x20) in_uint8 (m_rop cmd) s) (\<lambda>(rop, s).
     bindR (receive_src h 0x40 (m_srcx cmd) (m_srcy cmd) s) (\<lambda>((x, y), s).
     bindR (in_if (has (hfields h) 0x100) in_uint16_le (m_cache_idx cmd) s) (\<lambda>(idx, s).
     Inr (\<lparr>m_cache_id = id, m_rect = rc, m_rop = rop, m_srcx = x, m_srcy = y, m_cache_idx = idx\<rparr>, s))))))"

definition MemBlt_move :: "i16 \<Rightarrow> i16 \<Rightarrow> MemBlt \<Rightarrow> MemBlt" where
  "MemBlt_move dx dy cmd = cmd\<lparr>m_rect := offset_rect (m_rect cmd) dx dy\<rparr>"

lemma MemBlt_rcv_body:
  assumes "as_prepared h (MemBlt_header cl cmd old)"
  shows "MemBlt_receive h old (InStream c (MemBlt_body h cmd old @ r))
    = Inr (cmd, InStream (c @ MemBlt_body h cmd old) r)"
proof -
  note p = assms [unfolded as_prepared_def MemBlt_header_def Let_def]
  have "rect_sent h 0x02 (m_rect cmd) (m_rect old)"
    by (rule rect_sentI; simp add: p flag_simps)
  moreover have "coord_sent h 0x40 (m_srcx cmd) (m_srcx old)"
    "coord_sent h (push_bit 1 0x40) (m_srcy cmd) (m_srcy old)"
    by (rule coord_sentI; simp add: p flag_simps)+
  moreover have "has (hfields h) 0x01 \<or> m_cache_id cmd = m_cache_id old"
    "has (hfields h) 0x20 \<or> m_rop cmd = m_rop old"
    "has (hfields h) 0x100 \<or> m_cache_idx cmd = m_cache_idx old"
    by (simp_all add: p flag_simps)
  ultimately show ?thesis unfolding MemBlt_receive_def MemBlt_body_def
    by (simp add: in_if_simps)
qed

interpretation MemBlt: primary_order MEMBLT MemBlt_header MemBlt_body MemBlt_receive "\<lambda>_. True" "(=)"
  by unfold_locales (simp_all add: MemBlt_rcv_body MemBlt_header_def header_simps)

subsection \<open>Mem3Blt\<close>

record Mem3Blt =
  m3_cache_id :: u16
  m3_rect :: rect
  m3_rop :: u8
  m3_srcx :: u16
  m3_srcy :: u16
  m3_back_color :: color
  m3_fore_color :: color
  m3_brush :: brush
  m3_cache_idx :: u16

definition Mem3Blt_header :: "rect \<Rightarrow> Mem3Blt \<Rightarrow> Mem3Blt \<Rightarrow> header" where
  "Mem3Blt_header cl cmd old =
     (let dr = mk_delta_rect (m3_rect cmd) (m3_rect old)
      in \<lparr>control = (STANDARD OR flag (\<not> contains cl (m3_rect cmd)) BOUNDS)
            OR flag (fully_relative dr \<and> is_1_byte (m3_srcx cmd - m3_srcx old)
                 \<and> is_1_byte (m3_srcy cmd - m3_srcy old)) DELTA,
          hfields = flag (m3_cache_id cmd \<noteq> m3_cache_id old) 0x0001
            OR flag (dleft dr \<noteq> 0) 0x0002 OR flag (dtop dr \<noteq> 0) 0x0004
            OR flag (dwidth dr \<noteq> 0) 0x0008 OR flag (dheight dr \<noteq> 0) 0x0010
            OR flag (m3_rop cmd \<noteq> m3_rop old) 0x0020
            OR flag (m3_srcx cmd - m3_srcx old \<noteq> 0) 0x0040
            OR flag (m3_srcy cmd - m3_srcy old \<noteq> 0) 0x0080
            OR flag (m3_back_color cmd \<noteq> m3_back_color old) 0x0100
            OR flag (m3_fore_color cmd \<noteq> m3_fore_color old) 0x0200
            OR flag (org_x (m3_brush cmd) \<noteq> org_x (m3_brush old)) 0x0400
            OR flag (org_y (m3_brush cmd) \<noteq> org_y (m3_brush old)) 0x0800
            OR flag (bstyle (m3_brush cmd) \<noteq> bstyle (m3_brush old)) 0x1000
            OR flag (bhatch (m3_brush cmd) \<noteq> bhatch (m3_brush old)) 0x2000
            OR flag (extra (m3_brush cmd) \<noteq> extra (m3_brush old)) 0x4000
            OR flag (m3_cache_idx cmd \<noteq> m3_cache_idx old) 0x8000\<rparr>)"

definition Mem3Blt_body :: "header \<Rightarrow> Mem3Blt \<Rightarrow> Mem3Blt \<Rightarrow> u8 list" where
  "Mem3Blt_body h cmd old =
     opt (has (hfields h) 0x0001) (bytes_uint16_le (m3_cache_id cmd))
     @ emit_rect h 0x0002 (m3_rect cmd) (m3_rect old)
     @ opt (has (hfields h) 0x0020) (bytes_uint8 (m3_rop cmd))
     @ emit_src h 0x0040 (m3_srcx cmd) (m3_srcy cmd) (m3_srcx old) (m3_srcy old)
     @ opt (has (hfields h) 0x0100) (emit_rdp_color (m3_back_color cmd))
     @ opt (has (hfields h) 0x0200) (emit_rdp_color (m3_fore_color cmd))
     @ emit_brush h 0x0400 (m3_brush cmd)
     @ opt (has (hfields h) 0x8000) (bytes_uint16_le (m3_cache_idx cmd))"

definition Mem3Blt_receive :: "header \<Rightarrow> Mem3Blt \<Rightarrow> instream \<Rightarrow> (Mem3Blt \<times> instream) res" where
  "Mem3Blt_receive h cmd s =
     bindR (in_if (has (hfields h) 0x0001) in_uint16_le (m3_cache_id cmd) s) (\<lambda>(id, s).
     bindR (receive_rect h 0x0002 (m3_rect cmd) s) (\<lambda>(rc, s).
     bindR (in_if (has (hfields h) 0x0020) in_uint8 (m3_rop cmd) s) (\<lambda>(rop, s).
     bindR (receive_src h 0x0040 (m3_srcx cmd) (m3_srcy cmd) s) (\<lambda>((x, y), s).
     bindR (in_if (has (hfields h) 0x0100) receive_rdp_color (m3_back_color cmd) s) (\<lambda>(bc, s).
     bindR (in_if (has (hfields h) 0x0200) receive_rdp_color (m3_fore_color cmd) s) (\<lambda>(fc, s).
     bindR (receive_brush h 0x0400 (m3_brush cmd) s) (\<lambda>(br, s).
     bindR (in_if (has (hfields h) 0x8000) in_uint16_le (m3_cache_idx cmd) s) (\<lambda>(idx, s).
     Inr (\<lparr>m3_cache_id = id, m3_rect = rc, m3_rop = rop, m3_srcx = x, m3_srcy = y,
           m3_back_color = bc, m3_fore_color = fc, m3_brush = br, m3_cache_idx = idx\<rparr>, s)))))))))"

definition Mem3Blt_move :: "i16 \<Rightarrow> i16 \<Rightarrow> Mem3Blt \<Rightarrow> Mem3Blt" where
  "Mem3Blt_move dx dy cmd = cmd\<lparr>m3_rect := offset_rect (m3_rect cmd) dx dy\<rparr>"

definition Mem3Blt_ok :: "Mem3Blt \<Rightarrow> bool" where
  "Mem3Blt_ok cmd \<longleftrightarrow> color_ok (m3_back_color cmd) \<and> color_ok (m3_fore_color cmd) \<and> brush_ok (m3_brush cmd)"

lemma Mem3Blt_rcv_body:
  assumes "as_prepared h (Mem3Blt_header cl cmd old)" "Mem3Blt_ok cmd"
  shows "Mem3Blt_receive h old (InStream c (Mem3Blt_body h cmd old @ r))
    = Inr (cmd, InStream (c @ Mem3Blt_body h cmd old) r)"
proof -
  note p = assms(1) [unfolded as_prepared_def Mem3Blt_header_def Let_def]
  have "rect_sent h 0x0002 (m3_rect cmd) (m3_rect old)"
    by (rule rect_sentI; simp add: p flag_simps)
  moreover have "coord_sent h 0x0040 (m3_srcx cmd) (m3_srcx old)"
    "coord_sent h (push_bit 1 0x0040) (m3_srcy cmd) (m3_srcy old)"
    by (rule coord_sentI; simp add: p flag_simps)+
  moreover have "has (hfields h) 0x0001 \<or> m3_cache_id cmd = m3_cache_id old"
    "has (hfields h) 0x0020 \<or> m3_rop cmd = m3_rop old"
    "has (hfields h) 0x0100 \<or> m3_back_color cmd = m3_back_color old"
    "has (hfields h) 0x0200 \<or> m3_fore_color cmd = m3_fore_color old"
    "has (hfields h) 0x8000 \<or> m3_cache_idx cmd = m3_cache_idx old"
    by (simp_all add: p flag_simps)
  moreover have "receive_brush h 0x0400 (m3_brush old) (InStream c (emit_brush h 0x0400 (m3_brush cmd) @ r))
      = Inr (m3_brush cmd, InStream (c @ emit_brush h 0x0400 (m3_brush cmd)) r)" for c r
    by (rule receive_emit_brush; use assms(2) in \<open>simp add: p flag_simps Mem3Blt_ok_def\<close>)
  ultimately show ?thesis using assms(2) unfolding Mem3Blt_receive_def Mem3Blt_body_def Mem3Blt_ok_def
    by (simp add: in_if_simps)
qed

interpretation Mem3Blt: primary_order MEM3BLT Mem3Blt_header Mem3Blt_body Mem3Blt_receive Mem3Blt_ok "(=)"
  by unfold_locales (simp_all add: Mem3Blt_rcv_body Mem3Blt_header_def header_simps)

subsection \<open>PatBlt\<close>

record PatBlt =
  pb_rect :: rect
  pb_rop :: u8
  pb_back_color :: color
  pb_fore_color :: color
  pb_brush :: brush

definition PatBlt_header :: "rect \<Rightarrow> PatBlt \<Rightarrow> PatBlt \<Rightarrow> header" where
  "PatBlt_header cl cmd old =
     (let dr = mk_delta_rect (pb_rect cmd) (pb_rect old)
      in \<lparr>control = (STANDARD OR flag (\<not> contains cl (pb_rect cmd)) BOUNDS) OR flag (fully_relative dr) DELTA,
          hfields = flag (dleft dr \<noteq> 0) 0x01 OR flag (dtop dr \<noteq> 0) 0x02
            OR flag (dwidth dr \<noteq> 0) 0x04 OR flag (dheight dr \<noteq> 0) 0x08
            OR flag (pb_rop cmd \<noteq> pb_rop old) 0x10
            OR flag (pb_back_color cmd \<noteq> pb_back_color old) 0x20
            OR flag (pb_fore_color cmd \<noteq> pb_fore_color old) 0x40
            OR flag (org_x (pb_brush cmd) \<noteq> org_x (pb_brush old)) 0x80
            OR flag (org_y (pb_brush cmd) \<noteq> org_y (pb_brush old)) 0x100
            OR flag (bstyle (pb_brush cmd) \<noteq> bstyle (pb_brush old)) 0x200
            OR flag (bhatch (pb_brush cmd) \<noteq> bhatch (pb_brush old)) 0x400
            OR flag (extra (pb_brush cmd) \<noteq> extra (pb_brush old)) 0x800\<rparr>)"

definition PatBlt_body :: "header \<Rightarrow> PatBlt \<Rightarrow> PatBlt \<Rightarrow> u8 list" where
  "PatBlt_body h cmd old =
     emit_rect h 0x01 (pb_rect cmd) (pb_rect old)
     @ opt (has (hfields h) 0x10) (bytes_uint8 (pb_rop cmd))
     @ opt (has (hfields h) 0x20) (emit_rdp_color (pb_back_color cmd))
     @ opt (has (hfields h) 0x40) (emit_rdp_color (pb_fore_color cmd))
     @ emit_brush h 0x80 (pb_brush cmd)"

definition PatBlt_receive :: "header \<Rightarrow> PatBlt \<Rightarrow> instream \<Rightarrow> (PatBlt \<times> instream) res" where
  "PatBlt_receive h cmd s =
     bindR (receive_rect h 0x01 (pb_rect cmd) s) (\<lambda>(rc, s).
     bindR (in_if (has (hfields h) 0x10) in_uint8 (pb_rop cmd) s) (\<lambda>(rop, s).
     bindR (in_if (has (hfields h) 0x20) receive_rdp_color (pb_back_color cmd) s) (\<lambda>(bc, s).
     bindR (in_if (has (hfields h) 0x40) receive_rdp_color (pb_fore_color cmd) s) (\<lambda>(fc, s).
     bindR (receive_brush h 0x080 (pb_brush cmd) s) (\<lambda>(br, s).
     Inr (\<lparr>pb_rect = rc, pb_rop = rop, pb_back_color = bc, pb_fore_color = fc, pb_brush = br\<rparr>, s))))))"

definition PatBlt_move :: "i16 \<Rightarrow> i16 \<Rightarrow> PatBlt \<Rightarrow> PatBlt" where
  "PatBlt_move dx dy cmd = cmd\<lparr>pb_rect := offset_rect (pb_rect cmd) dx dy\<rparr>"

definition PatBlt_ok :: "PatBlt \<Rightarrow> bool" where
  "PatBlt_ok cmd \<longleftrightarrow> color_ok (pb_back_color cmd) \<and> color_ok (pb_fore_color cmd) \<and> brush_ok (pb_brush cmd)"

lemma PatBlt_rcv_body:
  assumes "as_prepared h (PatBlt_header cl cmd old)" "PatBlt_ok cmd"
  shows "PatBlt_receive h old (InStream c (PatBlt_body h cmd old @ r))
    = Inr (cmd, InStream (c @ PatBlt_body h cmd old) r)"
proof -
  note p = assms(1) [unfolded as_prepared_def PatBlt_header_def Let_def]
  have "rect_sent h 0x01 (pb_rect cmd) (pb_rect old)"
    by (rule rect_sentI; simp add: p flag_simps)
  moreover have "has (hfields h) 0x10 \<or> pb_rop cmd = pb_rop old"
    "has (hfields h) 0x20 \<or> pb_back_color cmd = pb_back_color old"
    "has (hfields h) 0x40 \<or> pb_fore_color cmd = pb_fore_color old"
    by (simp_all add: p flag_simps)
  moreover have "receive_brush h 0x80 (pb_brush old) (InStream c (emit_brush h 0x80 (pb_brush cmd) @ r))
      = Inr (pb_brush cmd, InStream (c @ emit_brush h 0x80 (pb_brush cmd)) r)" for c r
    by (rule receive_emit_brush; use assms(2) in \<open>simp add: p flag_simps PatBlt_ok_def\<close>)
  ultimately show ?thesis using assms(2) unfolding PatBlt_receive_def PatBlt_body_def PatBlt_ok_def
    by (simp add: in_if_simps)
qed

interpretation PatBlt: primary_order PATBLT PatBlt_header PatBlt_body PatBlt_receive PatBlt_ok "(=)"
  by unfold_locales (simp_all add: PatBlt_rcv_body PatBlt_header_def header_simps)

subsection \<open>LineTo\<close>

text \<open>\<open>back_mode\<close> is a byte that travels as 16 bits.\<close>

record LineTo =
  l_back_mode :: u8
  l_startx :: i16
  l_starty :: i16
  l_endx :: i16
  l_endy :: i16
  l_back_color :: color
  l_rop2 :: u8
  l_pen :: pen

definition LineTo_header :: "rect \<Rightarrow> LineTo \<Rightarrow> LineTo \<Rightarrow> header" where
  "LineTo_header cl cmd old =
     \<lparr>control = (STANDARD OR flag (\<not> (contains_pt cl (l_startx cmd) (l_starty cmd)
            \<and> contains_pt cl (l_endx cmd) (l_endy cmd))) BOUNDS)
          OR flag (is_1_byte (l_startx cmd - l_startx old) \<and> is_1_byte (l_starty cmd - l_starty old)
               \<and> is_1_byte (l_endx cmd - l_endx old) \<and> is_1_byte (l_endy cmd - l_endy old)) DELTA,
      hfields = flag (l_back_mode cmd \<noteq> l_back_mode old) 0x001
          OR flag (l_startx cmd \<noteq> l_startx old) 0x002 OR flag (l_starty cmd \<noteq> l_starty old) 0x004
          OR flag (l_endx cmd \<noteq> l_endx old) 0x008 OR flag (l_endy cmd \<noteq> l_endy old) 0x010
          OR flag (l_back_color cmd \<noteq> l_back_color old) 0x020
          OR flag (l_rop2 cmd \<noteq> l_rop2 old) 0x040
          OR flag (pstyle (l_pen cmd) \<noteq> pstyle (l_pen old)) 0x080
          OR flag (pwidth (l_pen cmd) \<noteq> pwidth (l_pen old)) 0x100
          OR flag (pcolor (l_pen cmd) \<noteq> pcolor (l_pen old)) 0x200\<rparr>"

definition LineTo_body :: "header \<Rightarrow> LineTo \<Rightarrow> LineTo \<Rightarrow> u8 list" where
  "LineTo_body h cmd old =
     opt (has (hfields h) 0x001) (bytes_uint16_le (ucast (l_back_mode cmd)))
     @ emit_coord h 0x02 (l_startx cmd) (l_startx old)
     @ emit_coord h 0x04 (l_starty cmd) (l_starty old)
     @ emit_coord h 0x08 (l_endx cmd) (l_endx old)
     @ emit_coord h 0x10 (l_endy cmd) (l_endy old)
     @ opt (has (hfields h) 0x20) (emit_rdp_color (l_back_color cmd))
     @ opt (has (hfields h) 0x40) (bytes_uint8 (l_rop2 cmd))
     @ emit_pen h 0x80 (l_pen cmd)"

definition in_uint16_as_8 :: "instream \<Rightarrow> (u8 \<times> instream) res" where
  "in_uint16_as_8 s = bindR (in_uint16_le s) (\<lambda>(v, s). Inr (ucast v, s))"

definition LineTo_receive :: "header \<Rightarrow> LineTo \<Rightarrow> instream \<Rightarrow> (LineTo \<times> instream) res" where
  "LineTo_receive h cmd s =
     bindR (in_if (has (hfields h) 0x001) in_uint16_as_8 (l_back_mode cmd) s) (\<lambda>(bm, s).
     bindR (receive_coord h 0x002 (l_startx cmd) s) (\<lambda>(sx, s).
     bindR (receive_coord h 0x004 (l_starty cmd) s) (\<lambda>(sy, s).
     bindR (receive_coord h 0x008 (l_endx cmd) s) (\<lambda>(ex, s).
     bindR (receive_coord h 0x010 (l_endy cmd) s) (\<lambda>(ey, s).
     bindR (in_if (has (hfields h) 0x020) receive_rdp_color (l_back_color cmd) s) (\<lambda>(bc, s).
     bindR (in_if (has (hfields h) 0x040) in_uint8 (l_rop2 cmd) s) (\<lambda>(rop, s).
     bindR (receive_pen h 0x080 (l_pen cmd) s) (\<lambda>(p, s).
     Inr (\<lparr>l_back_mode = bm, l_startx = sx, l_starty = sy, l_endx = ex, l_endy = ey,
           l_back_color = bc, l_rop2 = rop, l_pen = p\<rparr>, s)))))))))"

definition LineTo_move :: "i16 \<Rightarrow> i16 \<Rightarrow> LineTo \<Rightarrow> LineTo" where
  "LineTo_move dx dy cmd =
     cmd\<lparr>l_startx := l_startx cmd + dx, l_starty := l_starty cmd + dy,
         l_endx := l_endx cmd + dx, l_endy := l_endy cmd + dy\<rparr>"

definition LineTo_ok :: "LineTo \<Rightarrow> bool" where
  "LineTo_ok cmd \<longleftrightarrow> color_ok (l_back_color cmd) \<and> color_ok (pcolor (l_pen cmd))"

lemma in_uint16_as_8_advances: "in_uint16_as_8 s = Inr (v, s') \<Longrightarrow> advances s s'"
  by (auto simp: in_uint16_as_8_def bindR_eq_Inr dest: in_uint16_le_advances)

interpretation uint16_as_8: codec in_uint16_as_8 "\<lambda>v. bytes_uint16_le (ucast v)" "\<lambda>_. True"
proof unfold_locales
  fix x :: u8 and c r
  have "(ucast (ucast x :: u16) :: u8) = x" by (rule bit_word_eqI) (simp add: bit_simps)
  then show "in_uint16_as_8 (InStream c (bytes_uint16_le (ucast x) @ r))
      = Inr (x, InStream (c @ bytes_uint16_le (ucast x)) r)"
    by (simp add: in_uint16_as_8_def uint16_le.rd_enc)
qed (erule in_uint16_as_8_advances)

lemma LineTo_rcv_body:
  assumes "as_prepared h (LineTo_header cl cmd old)" "LineTo_ok cmd"
  shows "LineTo_receive h old (InStream c (LineTo_body h cmd old @ r))
    = Inr (cmd, InStream (c @ LineTo_body h cmd old) r)"
proof -
  note p = assms(1) [unfolded as_prepared_def LineTo_header_def Let_def]
  have "coord_sent h 0x02 (l_startx cmd) (l_startx old)" "coord_sent h 0x04 (l_starty cmd) (l_starty old)"
    "coord_sent h 0x08 (l_endx cmd) (l_endx old)" "coord_sent h 0x10 (l_endy cmd) (l_endy old)"
    by (rule coord_sentI; simp add: p flag_simps)+
  moreover have "has (hfields h) 0x001 \<or> l_back_mode cmd = l_back_mode old"
    "has (hfields h) 0x20 \<or> l_back_color cmd = l_back_color old"
    "has (hfields h) 0x40 \<or> l_rop2 cmd = l_rop2 old"
    by (simp_all add: p flag_simps)
  moreover have "receive_pen h 0x80 (l_pen old) (InStream c (emit_pen h 0x80 (l_pen cmd) @ r))
      = Inr (l_pen cmd, InStream (c @ emit_pen h 0x80 (l_pen cmd)) r)" for c r
    by (rule receive_emit_pen; use assms(2) in \<open>simp add: p flag_simps LineTo_ok_def\<close>)
  ultimately show ?thesis using assms(2) unfolding LineTo_receive_def LineTo_body_def LineTo_ok_def
    by (simp add: in_if_simps uint16_as_8.in_if_enc)
qed

interpretation LineTo: primary_order LINE LineTo_header LineTo_body LineTo_receive LineTo_ok "(=)"
  by unfold_locales (simp_all add: LineTo_rcv_body LineTo_header_def header_simps)

subsection \<open>EllipseSC\<close>

text \<open>\<open>Ellipse\<close> of \<open>utils/ellipse.hpp\<close>: its four edges, and its bounding rectangle.\<close>

record ellipse =
  eleft :: i16
  etop :: i16
  eright_edge :: i16
  ebottom_edge :: i16

definition ellipse_of_rect :: "rect \<Rightarrow> ellipse" where
  "ellipse_of_rect r = \<lparr>eleft = rx r, etop = ry r, eright_edge = eright r, ebottom_edge = ebottom r\<rparr>"

definition ellipse_rect :: "ellipse \<Rightarrow> rect" where
  "ellipse_rect e = mk_rect (eleft e) (etop e) (eright_edge e - eleft e) (ebottom_edge e - etop e)"

record EllipseSC =
  e_el :: ellipse
  e_rop2 :: u8
  e_fill :: u8
  e_color :: color

definition EllipseSC_header :: "rect \<Rightarrow> EllipseSC \<Rightarrow> EllipseSC \<Rightarrow> header" where
  "EllipseSC_header cl cmd old =
     (let el = e_el cmd; oel = e_el old in
      \<lparr>control = (STANDARD OR flag (\<not> contains cl (ellipse_rect el)) BOUNDS)
          OR flag (is_1_byte (eleft el - eleft oel) \<and> is_1_byte (etop el - etop oel)
               \<and> is_1_byte (eright_edge el - eright_edge oel)
               \<and> is_1_byte (ebottom_edge el - ebottom_edge oel)) DELTA,
       hfields = flag (eleft el \<noteq> eleft oel) 0x0001 OR flag (etop el \<noteq> etop oel) 0x0002
          OR flag (eright_edge el \<noteq> eright_edge oel) 0x0004
          OR flag (ebottom_edge el \<noteq> ebottom_edge oel) 0x0008
          OR flag (e_rop2 cmd \<noteq> e_rop2 old) 0x0010 OR flag (e_fill cmd \<noteq> e_fill old) 0x0020
          OR flag (e_color cmd \<noteq> e_color old) 0x0040\<rparr>)"

definition EllipseSC_body :: "header \<Rightarrow> EllipseSC \<Rightarrow> EllipseSC \<Rightarrow> u8 list" where
  "EllipseSC_body h cmd old =
     emit_coord h 0x0001 (eleft (e_el cmd)) (eleft (e_el old))
     @ emit_coord h 0x0002 (etop (e_el cmd)) (etop (e_el old))
     @ emit_coord h 0x0004 (eright_edge (e_el cmd)) (eright_edge (e_el old))
     @ emit_coord h 0x0008 (ebottom_edge (e_el cmd)) (ebottom_edge (e_el old))
     @ opt (has (hfields h) 0x0010) (bytes_uint8 (e_rop2 cmd))
     @ opt (has (hfields h) 0x0020) (bytes_uint8 (e_fill cmd))
     @ opt (has (hfields h) 0x0040) (emit_rdp_color (e_color cmd))"

definition EllipseSC_receive :: "header \<Rightarrow> EllipseSC \<Rightarrow> instream \<Rightarrow> (EllipseSC \<times> instream) res" where
  "EllipseSC_receive h cmd s =
     bindR (receive_coord h 0x0001 (eleft (e_el cmd)) s) (\<lambda>(le, s).
     bindR (receive_coord h 0x0002 (etop (e_el cmd)) s) (\<lambda>(to, s).
     bindR (receive_coord h 0x0004 (eright_edge (e_el cmd)) s) (\<lambda>(ri, s).
     bindR (receive_coord h 0x0008 (ebottom_edge (e_el cmd)) s) (\<lambda>(bo, s).
     bindR (in_if (has (hfields h) 0x0010) in_uint8 (e_rop2 cmd) s) (\<lambda>(rop, s).
     bindR (in_if (has (hfields h) 0x0020) in_uint8 (e_fill cmd) s) (\<lambda>(fi, s).
     bindR (in_if (has (hfields h) 0x0040) receive_rdp_color (e_color cmd) s) (\<lambda>(co, s).
     Inr (\<lparr>e_el = \<lparr>eleft = le, etop = to, eright_edge = ri, ebottom_edge = bo\<rparr>,
           e_rop2 = rop, e_fill = fi, e_color = co\<rparr>, s))))))))"

lemma EllipseSC_rcv_body:
  assumes "as_prepared h (EllipseSC_header cl cmd old)" "color_ok (e_color cmd)"
  shows "EllipseSC_receive h old (InStream c (EllipseSC_body h cmd old @ r))
    = Inr (cmd, InStream (c @ EllipseSC_body h cmd old) r)"
proof -
  note p = assms(1) [unfolded as_prepared_def EllipseSC_header_def Let_def]
  have "coord_sent h 0x01 (eleft (e_el cmd)) (eleft (e_el old))" "coord_sent h 0x02 (etop (e_el cmd)) (etop (e_el old))"
    "coord_sent h 0x04 (eright_edge (e_el cmd)) (eright_edge (e_el old))"
    "coord_sent h 0x08 (ebottom_edge (e_el cmd)) (ebottom_edge (e_el old))"
    by (rule coord_sentI; simp add: p flag_simps)+
  moreover have "has (hfields h) 0x10 \<or> e_rop2 cmd = e_rop2 old"
    "has (hfields h) 0x20 \<or> e_fill cmd = e_fill old"
    "has (hfields h) 0x40 \<or> e_color cmd = e_color old"
    by (simp_all add: p flag_simps)
  ultimately show ?thesis using assms(2) unfolding EllipseSC_receive_def EllipseSC_body_def
    by (simp add: in_if_simps)
qed

interpretation EllipseSC: primary_order ELLIPSESC EllipseSC_header EllipseSC_body EllipseSC_receive
  "\<lambda>cmd. color_ok (e_color cmd)" "(=)"
  by unfold_locales (simp_all add: EllipseSC_rcv_body EllipseSC_header_def header_simps)

subsection \<open>GlyphIndex\<close>

text \<open>
  \<open>data\<close> is the array of 256 bytes of which \<open>data_len\<close> are used; the flags are \<open>int16_t\<close> members
  built from, and sent as, bytes.
\<close>

record GlyphIndex =
  g_cache_id :: u8
  g_fl_accel :: i16
  g_ui_charinc :: i16
  g_f_op_redundant :: i16
  g_back_color :: color
  g_fore_color :: color
  g_bk :: rect
  g_op :: rect
  g_brush :: brush
  g_glyph_x :: i16
  g_glyph_y :: i16
  g_data_len :: u8
  g_data :: "u8 list"

definition edge_x :: "rect \<Rightarrow> int" where "edge_x r = sint (rx r) + uint (rcx r)"
definition edge_y :: "rect \<Rightarrow> int" where "edge_y r = sint (ry r) + uint (rcy r)"

definition GlyphIndex_header :: "rect \<Rightarrow> GlyphIndex \<Rightarrow> GlyphIndex \<Rightarrow> header" where
  "GlyphIndex_header cl cmd old =
     (let bk = g_bk cmd; obk = g_bk old; op = g_op cmd; oop = g_op old;
          br = g_brush cmd; obr = g_brush old in
      \<lparr>control = (STANDARD OR flag (\<not> contains cl bk) BOUNDS)
          OR flag (uint (rcx op) > 1 \<and> \<not> contains cl op) BOUNDS,
       hfields = flag (g_cache_id cmd \<noteq> g_cache_id old) 0x000001
          OR flag (g_fl_accel cmd \<noteq> g_fl_accel old) 0x000002
          OR flag (g_ui_charinc cmd \<noteq> g_ui_charinc old) 0x000004
          OR flag (g_f_op_redundant cmd \<noteq> g_f_op_redundant old) 0x000008
          OR flag (g_back_color cmd \<noteq> g_back_color old) 0x000010
          OR flag (g_fore_color cmd \<noteq> g_fore_color old) 0x000020
          OR flag (rx bk \<noteq> rx obk) 0x000040 OR flag (ry bk \<noteq> ry obk) 0x000080
          OR flag (edge_x bk \<noteq> edge_x obk) 0x000100 OR flag (edge_y bk \<noteq> edge_y obk) 0x000200
          OR flag (rx op \<noteq> rx oop) 0x000400 OR flag (ry op \<noteq> ry oop) 0x000800
          OR flag (edge_x op \<noteq> edge_x oop) 0x001000 OR flag (edge_y op \<noteq> edge_y oop) 0x002000
          OR flag (org_x br \<noteq> org_x obr) 0x004000 OR flag (org_y br \<noteq> org_y obr) 0x008000
          OR flag (bstyle br \<noteq> bstyle obr) 0x010000 OR flag (bhatch br \<noteq> bhatch obr) 0x020000
          OR flag (extra br \<noteq> extra obr) 0x040000
          OR flag (g_glyph_x cmd \<noteq> g_glyph_x old) 0x080000
          OR flag (g_glyph_y cmd \<noteq> g_glyph_y old) 0x100000
          OR flag (g_data_len cmd \<noteq> 0) 0x200000\<rparr>)"

definition emit_edges :: "header \<Rightarrow> u32 \<Rightarrow> rect \<Rightarrow> u8 list" where
  "emit_edges h base r =
     opt (has (hfields h) base) (bytes_uint16_le (rx r))
     @ opt (has (hfields h) (push_bit 1 base)) (bytes_uint16_le (ry r))
     @ opt (has (hfields h) (push_bit 2 base)) (bytes_uint16_le (rx r + rcx r - 1))
     @ opt (has (hfields h) (push_bit 3 base)) (bytes_uint16_le (ry r + rcy r - 1))"

definition receive_edges :: "header \<Rightarrow> u32 \<Rightarrow> rect \<Rightarrow> instream \<Rightarrow> (rect \<times> instream) res" where
  "receive_edges h base r s =
     bindR (in_if (has (hfields h) base) in_uint16_le (rx r) s) (\<lambda>(le, s).
     bindR (in_if (has (hfields h) (push_bit 1 base)) in_uint16_le (ry r) s) (\<lambda>(to, s).
     bindR (in_if (has (hfields h) (push_bit 2 base)) in_uint16_le (rx r + rcx r - 1) s) (\<lambda>(ri, s).
     bindR (in_if (has (hfields h) (push_bit 3 base)) in_uint16_le (ry r + rcy r - 1) s) (\<lambda>(bo, s).
     Inr (\<lparr>rx = le, ry = to, rcx = ri - le + 1, rcy = bo - to + 1\<rparr>, s)))))"

definition GlyphIndex_body :: "header \<Rightarrow> GlyphIndex \<Rightarrow> GlyphIndex \<Rightarrow> u8 list" where
  "GlyphIndex_body h cmd old =
     opt (has (hfields h) 0x001) (bytes_uint8 (g_cache_id cmd))
     @ opt (has (hfields h) 0x002) (bytes_uint8 (ucast (g_fl_accel cmd)))
     @ opt (has (hfields h) 0x004) (bytes_uint8 (ucast (g_ui_charinc cmd)))
     @ opt (has (hfields h) 0x008) (bytes_uint8 (ucast (g_f_op_redundant cmd)))
     @ opt (has (hfields h) 0x010) (emit_rdp_color (g_back_color cmd))
     @ opt (has (hfields h) 0x020) (emit_rdp_color (g_fore_color cmd))
     @ emit_edges h 0x0040 (g_bk cmd)
     @ emit_edges h 0x0400 (g_op cmd)
     @ emit_brush h 0x4000 (g_brush cmd)
     @ opt (has (hfields h) 0x080000) (bytes_uint16_le (g_glyph_x cmd))
     @ opt (has (hfields h) 0x100000) (bytes_uint16_le (g_glyph_y cmd))
     @ opt (has (hfields h) 0x200000)
         (bytes_uint8 (g_data_len cmd) @ take (unat (g_data_len cmd)) (g_data cmd))"

definition in_uint8_as_16 :: "instream \<Rightarrow> (i16 \<times> instream) res" where
  "in_uint8_as_16 s = bindR (in_uint8 s) (\<lambda>(v, s). Inr (ucast v, s))"

definition receive_data :: "u8 list \<Rightarrow> instream \<Rightarrow> ((u8 \<times> u8 list) \<times> instream) res" where
  "receive_data old s =
     bindR (in_uint8 s) (\<lambda>(n, s).
     bindR (in_skip_bytes (unat n) s) (\<lambda>(bs, s).
     Inr ((n, bs @ drop (unat n) old), s)))"

definition GlyphIndex_receive :: "header \<Rightarrow> GlyphIndex \<Rightarrow> instream \<Rightarrow> (GlyphIndex \<times> instream) res" where
  "GlyphIndex_receive h cmd s =
     bindR (in_if (has (hfields h) 0x001) in_uint8 (g_cache_id cmd) s) (\<lambda>(id, s).
     bindR (in_if (has (hfields h) 0x002) in_uint8_as_16 (g_fl_accel cmd) s) (\<lambda>(fa, s).
     bindR (in_if (has (hfields h) 0x004) in_uint8_as_16 (g_ui_charinc cmd) s) (\<lambda>(ci, s).
     bindR (in_if (has (hfields h) 0x008) in_uint8_as_16 (g_f_op_redundant cmd) s) (\<lambda>(fr, s).
     bindR (in_if (has (hfields h) 0x010) receive_rdp_color (g_back_color cmd) s) (\<lambda>(bc, s).
     bindR (in_if (has (hfields h) 0x020) receive_rdp_color (g_fore_color cmd) s) (\<lambda>(fc, s).
     bindR (receive_edges h 0x0040 (g_bk cmd) s) (\<lambda>(bk, s).
     bindR (receive_edges h 0x0400 (g_op cmd) s) (\<lambda>(op, s).
     bindR (receive_brush h 0x4000 (g_brush cmd) s) (\<lambda>(br, s).
     bindR (in_if (has (hfields h) 0x080000) in_uint16_le (g_glyph_x cmd) s) (\<lambda>(gx, s).
     bindR (in_if (has (hfields h) 0x100000) in_uint16_le (g_glyph_y cmd) s) (\<lambda>(gy, s).
     bindR (in_if (has (hfields h) 0x200000) (receive_data (g_data cmd)) (g_data_len cmd, g_data cmd) s)
       (\<lambda>((n, d), s).
     Inr (\<lparr>g_cache_id = id, g_fl_accel = fa, g_ui_charinc = ci, g_f_op_redundant = fr,
           g_back_color = bc, g_fore_color = fc, g_bk = bk, g_op = op, g_brush = br,
           g_glyph_x = gx, g_glyph_y = gy, g_data_len = n, g_data = d\<rparr>, s)))))))))))))"

definition GlyphIndex_move :: "i16 \<Rightarrow> i16 \<Rightarrow> GlyphIndex \<Rightarrow> GlyphIndex" where
  "GlyphIndex_move dx dy cmd =
     cmd\<lparr>g_bk := offset_rect (g_bk cmd) dx dy, g_op := offset_rect (g_op cmd) dx dy,
         g_glyph_x := g_glyph_x cmd + dx, g_glyph_y := g_glyph_y cmd + dy\<rparr>"

text \<open>Two orders draw the same glyphs: only the unused tail of \<open>data\<close> may differ.\<close>

definition GlyphIndex_same :: "GlyphIndex \<Rightarrow> GlyphIndex \<Rightarrow> bool" where
  "GlyphIndex_same c1 c2 \<longleftrightarrow> c2\<lparr>g_data := []\<rparr> = c1\<lparr>g_data := []\<rparr>
     \<and> take (unat (g_data_len c1)) (g_data c2) = take (unat (g_data_len c1)) (g_data c1)"

definition GlyphIndex_ok :: "GlyphIndex \<Rightarrow> bool" where
  "GlyphIndex_ok cmd \<longleftrightarrow> color_ok (g_back_color cmd) \<and> color_ok (g_fore_color cmd) \<and> brush_ok (g_brush cmd)
     \<and> g_fl_accel cmd < 0x100 \<and> g_ui_charinc cmd < 0x100 \<and> g_f_op_redundant cmd < 0x100
     \<and> g_data_len cmd \<noteq> 0 \<and> length (g_data cmd) = 256"

lemma in_uint8_as_16_advances: "in_uint8_as_16 s = Inr (v, s') \<Longrightarrow> advances s s'"
  by (auto simp: in_uint8_as_16_def bindR_eq_Inr dest: in_uint8_advances)

lemma low_byte16: assumes "v < 0x100" shows "ucast (ucast v :: u8) = (v :: u16)"
proof (rule bit_word_eqI)
  fix k assume "k < LENGTH(16)"
  moreover have "\<not> bit v k" if "8 \<le> k" using bit_below [of v k 8] assms that by auto
  ultimately show "bit (ucast (ucast v :: u8) :: u16) k = bit v k" by (cases "k < 8") (auto simp: bit_simps)
qed

interpretation uint8_as_16: codec in_uint8_as_16 "\<lambda>v. bytes_uint8 (ucast v)" "\<lambda>v. v < 0x100"
  by unfold_locales
    (erule in_uint8_as_16_advances, simp add: in_uint8_as_16_def bytes_uint8_def low_byte16)

lemma receive_emit_edges [simp]:
  assumes "has (hfields h) base \<or> rx new = rx old" "has (hfields h) (push_bit 1 base) \<or> ry new = ry old"
    "has (hfields h) (push_bit 2 base) \<or> rx new + rcx new - 1 = rx old + rcx old - 1"
    "has (hfields h) (push_bit 3 base) \<or> ry new + rcy new - 1 = ry old + rcy old - 1"
  shows "receive_edges h base old (InStream c (emit_edges h base new @ r)) = Inr (new, InStream (c @ emit_edges h base new) r)"
  using assms unfolding receive_edges_def emit_edges_def by (simp add: in_if_simps)

lemma edge_word:
  "edge_x a = edge_x b \<Longrightarrow> rx a + rcx a - 1 = rx b + rcx b - 1"
  "edge_y a = edge_y b \<Longrightarrow> ry a + rcy a - 1 = ry b + rcy b - 1"
proof -
  have w: "(word_of_int (sint v + uint w) :: u16) = v + w" for v w :: u16
    by (simp add: wi_hom_add [symmetric])
  show "edge_x a = edge_x b \<Longrightarrow> rx a + rcx a - 1 = rx b + rcx b - 1"
    using w [of "rx a" "rcx a"] w [of "rx b" "rcx b"] by (simp add: edge_x_def)
  show "edge_y a = edge_y b \<Longrightarrow> ry a + rcy a - 1 = ry b + rcy b - 1"
    using w [of "ry a" "rcy a"] w [of "ry b" "rcy b"] by (simp add: edge_y_def)
qed

lemma receive_data_emit:
  assumes "unat n \<le> length d"
  shows "in_if b (receive_data old) (m, old) (InStream c (opt b (bytes_uint8 n @ take (unat n) d) @ r))
    = Inr (if b then (n, take (unat n) d @ drop (unat n) old) else (m, old),
           InStream (c @ opt b (bytes_uint8 n @ take (unat n) d)) r)"
  using assms uint8.rd_enc in_skip_bytes_append [of "take (unat n) d"]
  by (simp add: in_if_def opt_def receive_data_def min_absorb2)

lemma GlyphIndex_rcv_body:
  assumes "as_prepared h (GlyphIndex_header cl cmd old)" "GlyphIndex_ok cmd" "GlyphIndex_same old old'"
  shows "GlyphIndex_receive h old' (InStream c (GlyphIndex_body h cmd old @ r))
    = Inr (cmd\<lparr>g_data := take (unat (g_data_len cmd)) (g_data cmd) @ drop (unat (g_data_len cmd)) (g_data old')\<rparr>,
           InStream (c @ GlyphIndex_body h cmd old) r)"
proof -
  note p = assms(1) [unfolded as_prepared_def GlyphIndex_header_def Let_def]
  have eq: "g_cache_id old' = g_cache_id old" "g_fl_accel old' = g_fl_accel old" "g_ui_charinc old' = g_ui_charinc old"
    "g_f_op_redundant old' = g_f_op_redundant old" "g_back_color old' = g_back_color old"
    "g_fore_color old' = g_fore_color old" "g_bk old' = g_bk old" "g_op old' = g_op old" "g_brush old' = g_brush old"
    "g_glyph_x old' = g_glyph_x old" "g_glyph_y old' = g_glyph_y old" "g_data_len old' = g_data_len old"
    using assms(3) unfolding GlyphIndex_same_def by (cases old; cases old'; simp)+
  have "has (hfields h) 0x001 \<or> g_cache_id cmd = g_cache_id old"
    "has (hfields h) 0x002 \<or> g_fl_accel cmd = g_fl_accel old"
    "has (hfields h) 0x004 \<or> g_ui_charinc cmd = g_ui_charinc old"
    "has (hfields h) 0x008 \<or> g_f_op_redundant cmd = g_f_op_redundant old"
    "has (hfields h) 0x010 \<or> g_back_color cmd = g_back_color old"
    "has (hfields h) 0x020 \<or> g_fore_color cmd = g_fore_color old"
    "has (hfields h) 0x080000 \<or> g_glyph_x cmd = g_glyph_x old"
    "has (hfields h) 0x100000 \<or> g_glyph_y cmd = g_glyph_y old"
    by (simp_all add: p flag_simps)
  moreover have "has (hfields h) 0x200000" using assms(2) by (simp add: p flag_simps GlyphIndex_ok_def)
  moreover have "receive_brush h 0x4000 (g_brush old) (InStream c (emit_brush h 0x4000 (g_brush cmd) @ r))
      = Inr (g_brush cmd, InStream (c @ emit_brush h 0x4000 (g_brush cmd)) r)" for c r
    by (rule receive_emit_brush; use assms(2) in \<open>simp add: p flag_simps GlyphIndex_ok_def\<close>)
  moreover have "receive_edges h 0x0040 (g_bk old) (InStream c (emit_edges h 0x0040 (g_bk cmd) @ r))
      = Inr (g_bk cmd, InStream (c @ emit_edges h 0x0040 (g_bk cmd)) r)" for c r
    by (rule receive_emit_edges; use edge_word [of "g_bk cmd" "g_bk old"] in \<open>auto simp: p flag_simps\<close>)
  moreover have "receive_edges h 0x0400 (g_op old) (InStream c (emit_edges h 0x0400 (g_op cmd) @ r))
      = Inr (g_op cmd, InStream (c @ emit_edges h 0x0400 (g_op cmd)) r)" for c r
    by (rule receive_emit_edges; use edge_word [of "g_op cmd" "g_op old"] in \<open>auto simp: p flag_simps\<close>)
  moreover have "unat (g_data_len cmd) \<le> length (g_data cmd)"
    using assms(2) unat8_less [of "g_data_len cmd"] by (simp add: GlyphIndex_ok_def)
  ultimately show ?thesis using assms(2) unfolding GlyphIndex_receive_def GlyphIndex_body_def GlyphIndex_ok_def
    by (simp add: eq in_if_simps uint8_as_16.in_if_enc receive_data_emit)
qed

interpretation GlyphIndex: primary_order GLYPHINDEX GlyphIndex_header GlyphIndex_body GlyphIndex_receive
  GlyphIndex_ok GlyphIndex_same
proof unfold_locales
  show "\<exists>cmd'. GlyphIndex_receive h old' (InStream c (GlyphIndex_body h cmd old @ r))
      = Inr (cmd', InStream (c @ GlyphIndex_body h cmd old) r) \<and> GlyphIndex_same cmd cmd'"
    if "GlyphIndex_ok cmd" "GlyphIndex_same old old'" "as_prepared h (GlyphIndex_header cl cmd old)" for cmd old old' h cl c r
    using GlyphIndex_rcv_body [OF that(3,1,2)] that(1) unat8_less [of "g_data_len cmd"]
    by (auto simp: GlyphIndex_same_def GlyphIndex_ok_def)
qed (simp_all add: GlyphIndex_header_def header_simps)

end
