(* ===== verification/Delta_Lists.thy ===== *)
theory Delta_Lists
  imports Order_Common
begin

text \<open>
  The delta-encoded rectangle lists that the four \<open>Multi\<close> orders share and the delta-encoded
  point list of \<open>Polyline\<close>: zero bits, two rectangles or four points to a byte, then the
  non-zero deltas, behind a length field.
\<close>

subsection \<open>Delta-encoded rectangles\<close>

record der =
  er_left :: i16
  er_top :: i16
  er_width :: i16
  er_height :: i16

definition zero_bits :: "nat \<Rightarrow> der \<Rightarrow> u8" where
  "zero_bits m2 e = flag (er_left e = 0) (push_bit (7 - m2 * 4) 1) OR flag (er_top e = 0) (push_bit (6 - m2 * 4) 1)
     OR flag (er_width e = 0) (push_bit (5 - m2 * 4) 1) OR flag (er_height e = 0) (push_bit (4 - m2 * 4) 1)"

fun zero_bytes :: "der list \<Rightarrow> u8 list" where
  "zero_bytes [] = []"
| "zero_bytes [e] = [zero_bits 0 e]"
| "zero_bytes (e0 # e1 # es) = (zero_bits 0 e0 OR zero_bits 1 e1) # zero_bytes es"

definition rect_deltas :: "der \<Rightarrow> u8 list" where
  "rect_deltas e = opt (er_left e \<noteq> 0) (bytes_DEP (er_left e)) @ opt (er_top e \<noteq> 0) (bytes_DEP (er_top e))
     @ opt (er_width e \<noteq> 0) (bytes_DEP (er_width e)) @ opt (er_height e \<noteq> 0) (bytes_DEP (er_height e))"

definition emit_delta_rects :: "der list \<Rightarrow> u8 list" where
  "emit_delta_rects es =
     (let data = zero_bytes es @ concat (map rect_deltas es)
      in bytes_uint16_le (of_nat (length data)) @ data)"

definition read_delta_rect :: "u8 \<Rightarrow> instream \<Rightarrow> (der \<times> instream) res" where
  "read_delta_rect zb s =
     bindR (in_if (\<not> has zb 0x80) in_DEP 0 s) (\<lambda>(l, s).
     bindR (in_if (\<not> has zb 0x40) in_DEP 0 s) (\<lambda>(t, s).
     bindR (in_if (\<not> has zb 0x20) in_DEP 0 s) (\<lambda>(w, s).
     bindR (in_if (\<not> has zb 0x10) in_DEP 0 s) (\<lambda>(h, s).
     Inr (\<lparr>er_left = l, er_top = t, er_width = w, er_height = h\<rparr>, s)))))"

fun read_delta_rects :: "nat \<Rightarrow> nat \<Rightarrow> u8 \<Rightarrow> instream \<Rightarrow> instream \<Rightarrow> der list res" where
  "read_delta_rects 0 m2 zb zeroBits rgbData = Inr []"
| "read_delta_rects (Suc n) m2 zb zeroBits rgbData =
     bindR (if m2 = 0 then in_uint8 zeroBits else Inr (zb, zeroBits)) (\<lambda>(zb, zeroBits).
     bindR (read_delta_rect zb rgbData) (\<lambda>(e, rgbData).
     bindR (read_delta_rects n (if m2 = 1 then 0 else m2 + 1) (push_bit 4 zb) zeroBits rgbData) (\<lambda>es.
     Inr (e # es))))"

text \<open>
  The receive loop fills the array of 45 entries from index 0 on: a count above 45 writes
  outside it.
\<close>

definition receive_delta_rects :: "u8 \<Rightarrow> der list \<Rightarrow> instream \<Rightarrow> (der list \<times> instream) res" where
  "receive_delta_rects n old s =
     bindR (in_uint16_le s) (\<lambda>(cbData, s).
     bindR (in_skip_bytes (unat cbData) s) (\<lambda>(rgb, s).
     bindR (in_skip_bytes ((unat n + 1) div 2) (instream_of rgb)) (\<lambda>(zb, rgbData).
     bindR (read_delta_rects (unat n) 0 0 (instream_of zb) rgbData) (\<lambda>es.
     assertR (unat n \<le> 45) (Inr (es @ drop (unat n) old, s))))))"

definition der_ok :: "der \<Rightarrow> bool" where
  "der_ok e \<longleftrightarrow> dep_ok (er_left e) \<and> dep_ok (er_top e) \<and> dep_ok (er_width e) \<and> dep_ok (er_height e)"

lemma read_delta_rect_enc:
  assumes "der_ok e" "has zb 0x80 \<longleftrightarrow> er_left e = 0" "has zb 0x40 \<longleftrightarrow> er_top e = 0"
    "has zb 0x20 \<longleftrightarrow> er_width e = 0" "has zb 0x10 \<longleftrightarrow> er_height e = 0"
  shows "read_delta_rect zb (InStream c (rect_deltas e @ r)) = Inr (e, InStream (c @ rect_deltas e) r)"
  using assms unfolding read_delta_rect_def rect_deltas_def der_ok_def
  by (simp add: delta_point.in_if_enc)

lemma length_zero_bytes: "length (zero_bytes es) = (length es + 1) div 2"
  by (induction es rule: zero_bytes.induct) simp_all

lemma push_bit_4_or: "push_bit 4 (a OR b) = push_bit 4 a OR push_bit 4 (b :: u8)"
  by (rule bit_word_eqI) (auto simp: bit_simps)

lemma push_bit_flag: "push_bit n (flag c m) = flag c (push_bit n m)"
  by (simp add: flag_def)

lemma read_delta_rects_enc:
  "\<forall>e\<in>set es. der_ok e \<Longrightarrow>
   read_delta_rects (length es) 0 zb (InStream c1 (zero_bytes es @ r1))
     (InStream c2 (concat (map rect_deltas es) @ r2)) = Inr es"
proof (induction es arbitrary: zb c1 c2 rule: zero_bytes.induct)
  case 1
  then show ?case by simp
next
  case (2 e)
  have "read_delta_rect (zero_bits 0 e) (InStream c2 (rect_deltas e @ r2)) = Inr (e, InStream (c2 @ rect_deltas e) r2)"
    by (rule read_delta_rect_enc; use 2 in \<open>simp add: zero_bits_def flag_simps\<close>)
  then show ?case by simp
next
  case (3 e0 e1 es)
  let ?zb = "zero_bits 0 e0 OR zero_bits 1 e1"
  have "read_delta_rect ?zb (InStream c2 (rect_deltas e0 @ r2)) = Inr (e0, InStream (c2 @ rect_deltas e0) r2)" for c2 r2
    by (rule read_delta_rect_enc; use 3 in \<open>simp add: zero_bits_def flag_simps\<close>)
  moreover have "read_delta_rect (push_bit 4 ?zb) (InStream c2 (rect_deltas e1 @ r2)) = Inr (e1, InStream (c2 @ rect_deltas e1) r2)" for c2 r2
    by (rule read_delta_rect_enc; use 3 in \<open>simp add: zero_bits_def push_bit_4_or push_bit_flag flag_simps\<close>)
  ultimately show ?case using 3 by simp
qed

lemma length_bytes_opt_DEP: "length (opt b (bytes_DEP v)) \<le> 2"
  using length_bytes_DEP [of v] by (simp add: opt_def)

lemma length_rect_deltas: "length (rect_deltas e) \<le> 8"
  unfolding rect_deltas_def length_append
  using length_bytes_opt_DEP [of "er_left e \<noteq> 0" "er_left e"] length_bytes_opt_DEP [of "er_top e \<noteq> 0" "er_top e"]
    length_bytes_opt_DEP [of "er_width e \<noteq> 0" "er_width e"] length_bytes_opt_DEP [of "er_height e \<noteq> 0" "er_height e"]
  by linarith

lemma length_concat_le:
  "(\<And>x. length (f x) \<le> k) \<Longrightarrow> length (concat (map f xs)) \<le> k * length xs"
  by (induction xs) (auto simp: add_mono intro: order_trans [OF add_mono])

lemma length_emit_delta_rects:
  "length (emit_delta_rects es) \<le> 2 + (length es + 1) div 2 + 8 * length es"
  using length_concat_le [of rect_deltas 8 es, OF length_rect_deltas]
  by (simp add: emit_delta_rects_def Let_def bytes_uint16_le_def length_zero_bytes)

lemma receive_emit_delta_rects:
  assumes "\<forall>e\<in>set es. der_ok e" "length es = unat n" "unat n \<le> 45"
  shows "receive_delta_rects n old (InStream c (emit_delta_rects es @ r))
    = Inr (es @ drop (unat n) old, InStream (c @ emit_delta_rects es) r)"
proof -
  define data where "data = zero_bytes es @ concat (map rect_deltas es)"
  have "length data \<le> 23 + 8 * 45"
    using length_concat_le [of rect_deltas 8 es, OF length_rect_deltas] assms(2,3)
    by (simp add: data_def length_zero_bytes)
  then have cb: "unat (of_nat (length data) :: u16) = length data"
    by (simp add: unat_of_nat)
  have e: "emit_delta_rects es = bytes_uint16_le (of_nat (length data)) @ data"
    by (simp add: emit_delta_rects_def data_def Let_def)
  have zs: "in_skip_bytes ((unat n + 1) div 2) (instream_of data)
      = Inr (zero_bytes es, InStream (zero_bytes es) (concat (map rect_deltas es)))"
    using in_skip_bytes_append [of "zero_bytes es" "[]" "concat (map rect_deltas es)"] assms(2)
    by (simp add: instream_of_def data_def length_zero_bytes)
  have "read_delta_rects (unat n) 0 0 (instream_of (zero_bytes es))
      (InStream (zero_bytes es) (concat (map rect_deltas es))) = Inr es"
    using read_delta_rects_enc [OF assms(1), of 0 "[]" "[]" "zero_bytes es" "[]"] assms(2)
    by (simp add: instream_of_def)
  then show ?thesis unfolding receive_delta_rects_def e
    using assms(3) uint16_le.rd_enc by (simp add: cb zs [simplified])
qed

text \<open>The field of an order: sent when the count or one of the used entries changed.\<close>

definition receive_deltas :: "bool \<Rightarrow> u8 \<Rightarrow> der list \<Rightarrow> instream \<Rightarrow> (der list \<times> instream) res" where
  "receive_deltas b n old s = in_if b (receive_delta_rects n old) old s"

lemma receive_deltas_emit:
  assumes "b \<longrightarrow> (\<forall>e\<in>set es. der_ok e) \<and> length es = unat n \<and> unat n \<le> 45"
  shows "receive_deltas b n old (InStream c (opt b (emit_delta_rects es) @ r))
    = Inr (if b then es @ drop (unat n) old else old, InStream (c @ opt b (emit_delta_rects es)) r)"
  using assms receive_emit_delta_rects [of es n old c r] by (simp add: receive_deltas_def in_if_def opt_def)

subsection \<open>What a delta list draws\<close>

text \<open>\<open>for_each_delta_rect\<close>: the rectangles an order draws, offsets accumulated from the origin.\<close>

fun delta_rects_from :: "i16 \<Rightarrow> i16 \<Rightarrow> der list \<Rightarrow> rect list" where
  "delta_rects_from x y [] = []"
| "delta_rects_from x y (e # es) =
     \<lparr>rx = x + er_left e, ry = y + er_top e, rcx = er_width e, rcy = er_height e\<rparr>
       # delta_rects_from (x + er_left e) (y + er_top e) es"

definition delta_rects :: "der list \<Rightarrow> rect list" where
  "delta_rects es = delta_rects_from 0 0 es"

text \<open>The clipping loop of \<open>emit\<close>: some rectangle of the list is outside the clip.\<close>

fun some_outside :: "rect \<Rightarrow> i16 \<Rightarrow> i16 \<Rightarrow> der list \<Rightarrow> bool" where
  "some_outside cl x y [] = False"
| "some_outside cl x y (e # es) =
     (\<not> contains cl (mk_rect (x + er_left e) (y + er_top e) (er_width e) (er_height e))
      \<or> some_outside cl (x + er_left e) (y + er_top e) es)"

text \<open>\<open>move\<close> of the orders that shift their first delta.\<close>

fun shift_first :: "i16 \<Rightarrow> i16 \<Rightarrow> u8 \<Rightarrow> der list \<Rightarrow> der list" where
  "shift_first dx dy n (e # es) =
     (if n \<noteq> 0 then e\<lparr>er_left := er_left e + dx, er_top := er_top e + dy\<rparr> # es else e # es)"
| "shift_first dx dy n [] = []"

lemma delta_rects_from_shift:
  "delta_rects_from (x + dx) (y + dy) es
     = map (\<lambda>r. r\<lparr>rx := rx r + dx, ry := ry r + dy\<rparr>) (delta_rects_from x y es)"
proof (induction es arbitrary: x y)
  case Nil
  then show ?case by simp
next
  case (Cons e es)
  then show ?case using Cons.IH [of "x + er_left e" "y + er_top e"] by (simp add: algebra_simps)
qed

lemma delta_rects_shift_first:
  assumes "n \<noteq> 0"
  shows "delta_rects (take (unat n) (shift_first dx dy n es))
    = map (\<lambda>r. r\<lparr>rx := rx r + dx, ry := ry r + dy\<rparr>) (delta_rects (take (unat n) es))"
proof (cases es)
  case Nil
  then show ?thesis by (simp add: delta_rects_def)
next
  case (Cons e es')
  obtain k where "unat n = Suc k" using assms by (metis not0_implies_Suc unat_eq_zero)
  then show ?thesis using assms Cons delta_rects_from_shift [of "er_left e" dx "er_top e" dy]
    by (simp add: delta_rects_def)
qed

subsection \<open>Delta-encoded points\<close>

record dep_point =
  p_x :: i16
  p_y :: i16

definition pzero_bits :: "nat \<Rightarrow> dep_point \<Rightarrow> u8" where
  "pzero_bits m4 e = flag (p_x e = 0) (push_bit (7 - m4 * 2) 1) OR flag (p_y e = 0) (push_bit (6 - m4 * 2) 1)"

fun pzero_bytes :: "dep_point list \<Rightarrow> u8 list" where
  "pzero_bytes [] = []"
| "pzero_bytes [a] = [pzero_bits 0 a]"
| "pzero_bytes [a, b] = [pzero_bits 0 a OR pzero_bits 1 b]"
| "pzero_bytes [a, b, c] = [pzero_bits 0 a OR pzero_bits 1 b OR pzero_bits 2 c]"
| "pzero_bytes (a # b # c # d # es) =
     (pzero_bits 0 a OR pzero_bits 1 b OR pzero_bits 2 c OR pzero_bits 3 d) # pzero_bytes es"

definition point_deltas :: "dep_point \<Rightarrow> u8 list" where
  "point_deltas e = opt (p_x e \<noteq> 0) (bytes_DEP (p_x e)) @ opt (p_y e \<noteq> 0) (bytes_DEP (p_y e))"

text \<open>The length field of the point list is one byte; \<open>out_uint8\<close> keeps the low 8 bits.\<close>

definition point_list_bytes :: "dep_point list \<Rightarrow> u8 list" where
  "point_list_bytes es = pzero_bytes es @ concat (map point_deltas es)"

definition emit_delta_points :: "dep_point list \<Rightarrow> u8 list" where
  "emit_delta_points es = bytes_uint8 (of_nat (length (point_list_bytes es))) @ point_list_bytes es"

definition read_delta_point :: "u8 \<Rightarrow> instream \<Rightarrow> (dep_point \<times> instream) res" where
  "read_delta_point zb s =
     bindR (in_if (\<not> has zb 0x80) in_DEP 0 s) (\<lambda>(x, s).
     bindR (in_if (\<not> has zb 0x40) in_DEP 0 s) (\<lambda>(y, s).
     Inr (\<lparr>p_x = x, p_y = y\<rparr>, s)))"

fun read_delta_points :: "nat \<Rightarrow> nat \<Rightarrow> u8 \<Rightarrow> instream \<Rightarrow> instream \<Rightarrow> dep_point list res" where
  "read_delta_points 0 m4 zb zeroBits rgbData = Inr []"
| "read_delta_points (Suc n) m4 zb zeroBits rgbData =
     bindR (if m4 = 0 then in_uint8 zeroBits else Inr (zb, zeroBits)) (\<lambda>(zb, zeroBits).
     bindR (read_delta_point zb rgbData) (\<lambda>(e, rgbData).
     bindR (read_delta_points n (if m4 = 3 then 0 else m4 + 1) (push_bit 2 zb) zeroBits rgbData) (\<lambda>es.
     Inr (e # es))))"

definition receive_delta_points :: "u8 \<Rightarrow> dep_point list \<Rightarrow> instream \<Rightarrow> (dep_point list \<times> instream) res" where
  "receive_delta_points n old s =
     bindR (in_uint8 s) (\<lambda>(cbData, s).
     bindR (in_skip_bytes (unat cbData) s) (\<lambda>(rgb, s).
     bindR (in_skip_bytes ((unat n + 3) div 4) (instream_of rgb)) (\<lambda>(zb, rgbData).
     bindR (read_delta_points (unat n) 0 0 (instream_of zb) rgbData) (\<lambda>es.
     assertR (unat n \<le> 128) (Inr (es @ drop (unat n) old, s))))))"

definition point_ok :: "dep_point \<Rightarrow> bool" where
  "point_ok e \<longleftrightarrow> dep_ok (p_x e) \<and> dep_ok (p_y e)"

lemma read_delta_point_enc:
  assumes "point_ok e" "has zb 0x80 \<longleftrightarrow> p_x e = 0" "has zb 0x40 \<longleftrightarrow> p_y e = 0"
  shows "read_delta_point zb (InStream c (point_deltas e @ r)) = Inr (e, InStream (c @ point_deltas e) r)"
  using assms unfolding read_delta_point_def point_deltas_def point_ok_def
  by (simp add: delta_point.in_if_enc)

lemma length_pzero_bytes: "length (pzero_bytes es) = (length es + 3) div 4"
  by (induction es rule: pzero_bytes.induct) simp_all

lemma push_bit_2_or: "push_bit n (a OR b) = push_bit n a OR push_bit n (b :: u8)"
  by (rule bit_word_eqI) (auto simp: bit_simps)

lemma read_delta_points_enc:
  "\<forall>e\<in>set es. point_ok e \<Longrightarrow>
   read_delta_points (length es) 0 zb (InStream c1 (pzero_bytes es @ r1))
     (InStream c2 (concat (map point_deltas es) @ r2)) = Inr es"
proof (induction es arbitrary: zb c1 c2 rule: pzero_bytes.induct)
  case 1
  then show ?case by simp
next
  case (2 a)
  have "read_delta_point (pzero_bits 0 a) (InStream c2 (point_deltas a @ r2)) = Inr (a, InStream (c2 @ point_deltas a) r2)"
    by (rule read_delta_point_enc; use 2 in \<open>simp add: pzero_bits_def flag_simps\<close>)
  then show ?case by simp
next
  case (3 a b)
  let ?zb = "pzero_bits 0 a OR pzero_bits 1 b"
  have "read_delta_point ?zb (InStream c2 (point_deltas a @ r2)) = Inr (a, InStream (c2 @ point_deltas a) r2)"
    "read_delta_point (push_bit 2 ?zb) (InStream c2 (point_deltas b @ r2)) = Inr (b, InStream (c2 @ point_deltas b) r2)" for c2 r2
    by (rule read_delta_point_enc; use 3 in \<open>simp add: pzero_bits_def push_bit_2_or push_bit_flag flag_simps\<close>)+
  then show ?case by simp
next
  case (4 a b c)
  let ?zb = "pzero_bits 0 a OR pzero_bits 1 b OR pzero_bits 2 c"
  have "read_delta_point ?zb (InStream c2 (point_deltas a @ r2)) = Inr (a, InStream (c2 @ point_deltas a) r2)"
    "read_delta_point (push_bit 2 ?zb) (InStream c2 (point_deltas b @ r2)) = Inr (b, InStream (c2 @ point_deltas b) r2)"
    "read_delta_point (push_bit 2 (push_bit 2 ?zb)) (InStream c2 (point_deltas c @ r2)) = Inr (c, InStream (c2 @ point_deltas c) r2)" for c2 r2
    by (rule read_delta_point_enc; use 4 in \<open>simp add: pzero_bits_def push_bit_2_or push_bit_flag flag_simps\<close>)+
  then show ?case by simp
next
  case (5 a b c d es)
  let ?zb = "pzero_bits 0 a OR pzero_bits 1 b OR pzero_bits 2 c OR pzero_bits 3 d"
  have "read_delta_point ?zb (InStream c2 (point_deltas a @ r2)) = Inr (a, InStream (c2 @ point_deltas a) r2)"
    "read_delta_point (push_bit 2 ?zb) (InStream c2 (point_deltas b @ r2)) = Inr (b, InStream (c2 @ point_deltas b) r2)"
    "read_delta_point (push_bit 2 (push_bit 2 ?zb)) (InStream c2 (point_deltas c @ r2)) = Inr (c, InStream (c2 @ point_deltas c) r2)"
    "read_delta_point (push_bit 2 (push_bit 2 (push_bit 2 ?zb))) (InStream c2 (point_deltas d @ r2)) = Inr (d, InStream (c2 @ point_deltas d) r2)" for c2 r2
    by (rule read_delta_point_enc; use 5 in \<open>simp add: pzero_bits_def push_bit_2_or push_bit_flag flag_simps\<close>)+
  then show ?case using 5 by simp
qed

lemma length_point_deltas: "length (point_deltas e) \<le> 4"
  unfolding point_deltas_def length_append
  using length_bytes_opt_DEP [of "p_x e \<noteq> 0" "p_x e"] length_bytes_opt_DEP [of "p_y e \<noteq> 0" "p_y e"]
  by linarith

lemma length_point_list_bytes:
  "length (point_list_bytes es) \<le> (length es + 3) div 4 + 4 * length es"
  using length_concat_le [of point_deltas 4 es, OF length_point_deltas]
  by (simp add: point_list_bytes_def length_pzero_bytes)

definition points_sendable :: "dep_point list \<Rightarrow> bool" where
  "points_sendable es \<longleftrightarrow> length es \<le> 128 \<and> (\<forall>e\<in>set es. point_ok e) \<and> length (point_list_bytes es) \<le> 255"

lemma receive_emit_delta_points:
  assumes "points_sendable es" "length es = unat n"
  shows "receive_delta_points n old (InStream c (emit_delta_points es @ r))
    = Inr (es @ drop (unat n) old, InStream (c @ emit_delta_points es) r)"
proof -
  have cb: "unat (of_nat (length (point_list_bytes es)) :: u8) = length (point_list_bytes es)"
    using assms(1) by (simp add: unat_of_nat points_sendable_def)
  have zs: "in_skip_bytes ((unat n + 3) div 4) (instream_of (point_list_bytes es))
      = Inr (pzero_bytes es, InStream (pzero_bytes es) (concat (map point_deltas es)))"
    using in_skip_bytes_append [of "pzero_bytes es" "[]" "concat (map point_deltas es)"] assms(2)
    by (simp add: instream_of_def point_list_bytes_def length_pzero_bytes)
  have "read_delta_points (unat n) 0 0 (instream_of (pzero_bytes es))
      (InStream (pzero_bytes es) (concat (map point_deltas es))) = Inr es"
    using read_delta_points_enc [of es 0 "[]" "[]" "pzero_bytes es" "[]"] assms
    by (simp add: instream_of_def points_sendable_def)
  then show ?thesis unfolding receive_delta_points_def emit_delta_points_def
    using assms uint8.rd_enc by (simp add: cb zs [simplified] points_sendable_def)
qed

subsection \<open>Properties\<close>

text \<open>
  The delta rectangle list of the four \<open>Multi\<close> orders: up to 45 entries are read back as written, the
  entries beyond the count keep their old values, and the list takes at most 385 bytes.
\<close>

theorem delta_rects_round_trip:
  assumes "\<forall>e\<in>set es. der_ok e" "length es = unat n" "unat n \<le> 45"
  shows "receive_delta_rects n old (InStream c (emit_delta_rects es @ r))
    = Inr (es @ drop (unat n) old, InStream (c @ emit_delta_rects es) r)
    \<and> length (emit_delta_rects es) \<le> 385"
  using receive_emit_delta_rects [OF assms] length_emit_delta_rects [of es] assms(2,3) by simp

theorem delta_rects_round_trip_witness:
  "receive_delta_rects 1 [] (InStream [] (emit_delta_rects [\<lparr>er_left = 3, er_top = 0, er_width = 300, er_height = -2\<rparr>] @ [9]))
   = Inr ([\<lparr>er_left = 3, er_top = 0, er_width = 300, er_height = -2\<rparr>],
          InStream (emit_delta_rects [\<lparr>er_left = 3, er_top = 0, er_width = 300, er_height = -2\<rparr>]) [9])"
proof -
  let ?es = "[\<lparr>er_left = 3, er_top = 0, er_width = 300, er_height = -2\<rparr>] :: der list"
  have "\<forall>e\<in>set ?es. der_ok e" by code_simp
  from delta_rects_round_trip [OF this, of 1 "[]" "[]" "[9]"] show ?thesis by simp
qed

text \<open>
  The delta point list of \<open>Polyline\<close> is read back as written, when it fits its one-byte length.
\<close>

theorem delta_points_round_trip:
  assumes "points_sendable es" "length es = unat n"
  shows "receive_delta_points n old (InStream c (emit_delta_points es @ r))
    = Inr (es @ drop (unat n) old, InStream (c @ emit_delta_points es) r)"
  using receive_emit_delta_points [OF assms] .

theorem delta_points_round_trip_witness:
  "receive_delta_points 2 [] (InStream [] (emit_delta_points [\<lparr>p_x = 3, p_y = 0\<rparr>, \<lparr>p_x = 200, p_y = -1\<rparr>] @ [9]))
   = Inr ([\<lparr>p_x = 3, p_y = 0\<rparr>, \<lparr>p_x = 200, p_y = -1\<rparr>],
          InStream (emit_delta_points [\<lparr>p_x = 3, p_y = 0\<rparr>, \<lparr>p_x = 200, p_y = -1\<rparr>]) [9])"
proof -
  have "points_sendable [\<lparr>p_x = 3, p_y = 0\<rparr>, \<lparr>p_x = 200, p_y = -1\<rparr>]" by code_simp
  from delta_points_round_trip [OF this, of 2 "[]" "[]" "[9]"] show ?thesis by simp
qed

text \<open>
  The counts come from the network and nothing checks them: a well-formed list of 46 rectangles, or of
  129 points, is written past the end of the array of 45, or 128, entries.
\<close>

theorem delta_list_overruns:
  "receive_delta_rects 46 old (instream_of ([23, 0] @ replicate 23 0xFF)) = Inl UB
   \<and> receive_delta_points 129 pold (instream_of ([33] @ replicate 33 0xFF)) = Inl UB"
  by code_simp

definition long_points :: "dep_point list" where
  "long_points = replicate 64 \<lparr>p_x = 1000, p_y = 1000\<rparr>"

text \<open>
  The length of the point list is one byte: 64 points of two bytes a coordinate fill 272 bytes, the
  length on the wire is 16, and the receiver reads outside it.
\<close>

theorem long_point_list_not_received:
  "length (point_list_bytes long_points) = 272
   \<and> receive_delta_points 64 old (instream_of (emit_delta_points long_points)) = Inl UB"
  by code_simp

end
