(* ===== verification/Multi_Orders.thy ===== *)
theory Multi_Orders
  imports Orders Delta_Lists
begin

text \<open>
  The primary orders with variable lists: \<open>MultiDstBlt\<close>, \<open>MultiOpaqueRect\<close>, \<open>MultiPatBlt\<close>,
  \<open>MultiScrBlt\<close> and \<open>Polyline\<close>. The arrays \<open>deltaEncodedRectangles[45]\<close> and
  \<open>deltaEncodedPoints[128]\<close> are lists of that length of which the first \<open>nDeltaEntries\<close> are used;
  \<open>_same\<close> compares orders as \<open>operator==\<close> does, on the used entries only.
\<close>

definition deltas_ok :: "u8 \<Rightarrow> der list \<Rightarrow> bool" where
  "deltas_ok n ds \<longleftrightarrow> unat n \<le> 45 \<and> length ds = 45 \<and> (\<forall>e\<in>set (take (unat n) ds). der_ok e)"

definition deltas_differ :: "u8 \<Rightarrow> der list \<Rightarrow> u8 \<Rightarrow> der list \<Rightarrow> bool" where
  "deltas_differ n ds m es \<longleftrightarrow> n \<noteq> m \<or> take (unat n) ds \<noteq> take (unat n) es"

lemma receive_deltas_ok:
  assumes "deltas_ok n ds"
  shows "receive_deltas b n old (InStream c (opt b (emit_delta_rects (take (unat n) ds)) @ r))
    = Inr (if b then take (unat n) ds @ drop (unat n) old else old,
           InStream (c @ opt b (emit_delta_rects (take (unat n) ds))) r)"
  by (rule receive_deltas_emit) (use assms in \<open>simp add: deltas_ok_def\<close>)

subsection \<open>MultiDstBlt\<close>

record MultiDstBlt =
  md_left :: i16
  md_top :: i16
  md_width :: i16
  md_height :: i16
  md_rop :: u8
  md_n :: u8
  md_deltas :: "der list"

definition MultiDstBlt_header :: "rect \<Rightarrow> MultiDstBlt \<Rightarrow> MultiDstBlt \<Rightarrow> header" where
  "MultiDstBlt_header cl cmd old =
     \<lparr>control = (STANDARD OR flag (\<not> contains cl (mk_rect 0 0 0 0) \<or> some_outside cl 0 0 (take (unat (md_n cmd)) (md_deltas cmd))) BOUNDS)
          OR flag (is_1_byte (md_left cmd - md_left old) \<and> is_1_byte (md_top cmd - md_top old)
               \<and> is_1_byte (md_width cmd - md_width old) \<and> is_1_byte (md_height cmd - md_height old)) DELTA,
      hfields = flag (md_left cmd \<noteq> md_left old) 0x0001 OR flag (md_top cmd \<noteq> md_top old) 0x0002
          OR flag (md_width cmd \<noteq> md_width old) 0x0004 OR flag (md_height cmd \<noteq> md_height old) 0x0008
          OR flag (md_rop cmd \<noteq> md_rop old) 0x0010 OR flag (md_n cmd \<noteq> md_n old) 0x0020
          OR flag (deltas_differ (md_n cmd) (md_deltas cmd) (md_n old) (md_deltas old)) 0x0040\<rparr>"

definition MultiDstBlt_body :: "header \<Rightarrow> MultiDstBlt \<Rightarrow> MultiDstBlt \<Rightarrow> u8 list" where
  "MultiDstBlt_body h cmd old =
     emit_coord h 0x0001 (md_left cmd) (md_left old)
     @ emit_coord h 0x0002 (md_top cmd) (md_top old)
     @ emit_coord h 0x0004 (md_width cmd) (md_width old)
     @ emit_coord h 0x0008 (md_height cmd) (md_height old)
     @ opt (has (hfields h) 0x0010) (bytes_uint8 (md_rop cmd))
     @ opt (has (hfields h) 0x0020) (bytes_uint8 (md_n cmd))
     @ opt (has (hfields h) 0x0040) (emit_delta_rects (take (unat (md_n cmd)) (md_deltas cmd)))"

definition MultiDstBlt_receive :: "header \<Rightarrow> MultiDstBlt \<Rightarrow> instream \<Rightarrow> (MultiDstBlt \<times> instream) res" where
  "MultiDstBlt_receive h cmd s =
     bindR (receive_coord h 0x0001 (md_left cmd) s) (\<lambda>(x, s).
     bindR (receive_coord h 0x0002 (md_top cmd) s) (\<lambda>(y, s).
     bindR (receive_coord h 0x0004 (md_width cmd) s) (\<lambda>(w, s).
     bindR (receive_coord h 0x0008 (md_height cmd) s) (\<lambda>(ht, s).
     bindR (in_if (has (hfields h) 0x0010) in_uint8 (md_rop cmd) s) (\<lambda>(rop, s).
     bindR (in_if (has (hfields h) 0x0020) in_uint8 (md_n cmd) s) (\<lambda>(n, s).
     bindR (receive_deltas (has (hfields h) 0x0040) n (md_deltas cmd) s) (\<lambda>(ds, s).
     Inr (\<lparr>md_left = x, md_top = y, md_width = w, md_height = ht, md_rop = rop, md_n = n,
           md_deltas = ds\<rparr>, s))))))))"

definition MultiDstBlt_move :: "i16 \<Rightarrow> i16 \<Rightarrow> MultiDstBlt \<Rightarrow> MultiDstBlt" where
  "MultiDstBlt_move dx dy cmd = cmd\<lparr>md_left := md_left cmd + dx, md_top := md_top cmd + dy\<rparr>"

definition MultiDstBlt_same :: "MultiDstBlt \<Rightarrow> MultiDstBlt \<Rightarrow> bool" where
  "MultiDstBlt_same c1 c2 \<longleftrightarrow> c2\<lparr>md_deltas := []\<rparr> = c1\<lparr>md_deltas := []\<rparr>
     \<and> take (unat (md_n c1)) (md_deltas c2) = take (unat (md_n c1)) (md_deltas c1)"

definition MultiDstBlt_ok :: "MultiDstBlt \<Rightarrow> bool" where
  "MultiDstBlt_ok cmd \<longleftrightarrow> deltas_ok (md_n cmd) (md_deltas cmd)"

lemma MultiDstBlt_rcv_body:
  assumes "as_prepared h (MultiDstBlt_header cl cmd old)" "MultiDstBlt_ok cmd" "MultiDstBlt_same old old'"
  shows "MultiDstBlt_receive h old' (InStream c (MultiDstBlt_body h cmd old @ r))
    = Inr (cmd\<lparr>md_deltas := if deltas_differ (md_n cmd) (md_deltas cmd) (md_n old) (md_deltas old)
             then take (unat (md_n cmd)) (md_deltas cmd) @ drop (unat (md_n cmd)) (md_deltas old')
             else md_deltas old'\<rparr>,
           InStream (c @ MultiDstBlt_body h cmd old) r)"
proof -
  note p = assms(1) [unfolded as_prepared_def MultiDstBlt_header_def Let_def]
  have eq: "md_left old' = md_left old"
    "md_top old' = md_top old"
    "md_width old' = md_width old"
    "md_height old' = md_height old"
    "md_rop old' = md_rop old"
    "md_n old' = md_n old"
    using assms(3) unfolding MultiDstBlt_same_def by (cases old; cases old'; simp)+
  have "coord_sent h 0x0001 (md_left cmd) (md_left old)" "coord_sent h 0x0002 (md_top cmd) (md_top old)"
    "coord_sent h 0x0004 (md_width cmd) (md_width old)" "coord_sent h 0x0008 (md_height cmd) (md_height old)"
    by (rule coord_sentI; simp add: p flag_simps)+
  moreover have "has (hfields h) 0x0010 \<or> md_rop cmd = md_rop old" "has (hfields h) 0x0020 \<or> md_n cmd = md_n old"
    "has (hfields h) 0x0040 \<longleftrightarrow> deltas_differ (md_n cmd) (md_deltas cmd) (md_n old) (md_deltas old)"
    by (simp_all add: p flag_simps)
  ultimately show ?thesis using assms(2) unfolding MultiDstBlt_receive_def MultiDstBlt_body_def MultiDstBlt_ok_def
    by (simp add: eq in_if_simps receive_deltas_ok BGRColor_id)
qed

lemma MultiDstBlt_same_after:
  assumes "MultiDstBlt_ok cmd" "MultiDstBlt_same old old'"
  shows "MultiDstBlt_same cmd (cmd\<lparr>md_deltas := if deltas_differ (md_n cmd) (md_deltas cmd) (md_n old) (md_deltas old)
             then take (unat (md_n cmd)) (md_deltas cmd) @ drop (unat (md_n cmd)) (md_deltas old')
             else md_deltas old'\<rparr>)"
  using assms by (auto simp: MultiDstBlt_same_def MultiDstBlt_ok_def deltas_ok_def deltas_differ_def)

interpretation MultiDstBlt: primary_order MULTIDSTBLT MultiDstBlt_header MultiDstBlt_body MultiDstBlt_receive
  MultiDstBlt_ok MultiDstBlt_same
  by unfold_locales
    (auto simp: MultiDstBlt_rcv_body MultiDstBlt_same_after MultiDstBlt_header_def header_simps)

subsection \<open>MultiOpaqueRect\<close>

record MultiOpaqueRect =
  mo_left :: i16
  mo_top :: i16
  mo_width :: i16
  mo_height :: i16
  mo_color :: color
  mo_n :: u8
  mo_deltas :: "der list"

definition MultiOpaqueRect_header :: "rect \<Rightarrow> MultiOpaqueRect \<Rightarrow> MultiOpaqueRect \<Rightarrow> header" where
  "MultiOpaqueRect_header cl cmd old =
     (let diff_color = mo_color cmd XOR mo_color old in
      \<lparr>control = (STANDARD OR flag (\<not> contains cl (mk_rect 0 0 0 0) \<or> some_outside cl 0 0 (take (unat (mo_n cmd)) (mo_deltas cmd))) BOUNDS)
          OR flag (is_1_byte (mo_left cmd - mo_left old) \<and> is_1_byte (mo_top cmd - mo_top old)
               \<and> is_1_byte (mo_width cmd - mo_width old) \<and> is_1_byte (mo_height cmd - mo_height old)) DELTA,
       hfields = flag (mo_left cmd \<noteq> mo_left old) 0x0001 OR flag (mo_top cmd \<noteq> mo_top old) 0x0002
          OR flag (mo_width cmd \<noteq> mo_width old) 0x0004 OR flag (mo_height cmd \<noteq> mo_height old) 0x0008
          OR flag (has diff_color 0x0000FF) 0x0010 OR flag (has diff_color 0x00FF00) 0x0020
          OR flag (has diff_color 0xFF0000) 0x0040 OR flag (mo_n cmd \<noteq> mo_n old) 0x0080
          OR flag (deltas_differ (mo_n cmd) (mo_deltas cmd) (mo_n old) (mo_deltas old)) 0x0100\<rparr>)"

definition MultiOpaqueRect_body :: "header \<Rightarrow> MultiOpaqueRect \<Rightarrow> MultiOpaqueRect \<Rightarrow> u8 list" where
  "MultiOpaqueRect_body h cmd old =
     emit_coord h 0x0001 (mo_left cmd) (mo_left old)
     @ emit_coord h 0x0002 (mo_top cmd) (mo_top old)
     @ emit_coord h 0x0004 (mo_width cmd) (mo_width old)
     @ emit_coord h 0x0008 (mo_height cmd) (mo_height old)
     @ opt (has (hfields h) 0x0010) (bytes_uint8 (color_red (mo_color cmd)))
     @ opt (has (hfields h) 0x0020) (bytes_uint8 (color_green (mo_color cmd)))
     @ opt (has (hfields h) 0x0040) (bytes_uint8 (color_blue (mo_color cmd)))
     @ opt (has (hfields h) 0x0080) (bytes_uint8 (mo_n cmd))
     @ opt (has (hfields h) 0x0100) (emit_delta_rects (take (unat (mo_n cmd)) (mo_deltas cmd)))"

definition MultiOpaqueRect_receive :: "header \<Rightarrow> MultiOpaqueRect \<Rightarrow> instream \<Rightarrow> (MultiOpaqueRect \<times> instream) res" where
  "MultiOpaqueRect_receive h cmd s =
     bindR (receive_coord h 0x0001 (mo_left cmd) s) (\<lambda>(x, s).
     bindR (receive_coord h 0x0002 (mo_top cmd) s) (\<lambda>(y, s).
     bindR (receive_coord h 0x0004 (mo_width cmd) s) (\<lambda>(w, s).
     bindR (receive_coord h 0x0008 (mo_height cmd) s) (\<lambda>(ht, s).
     bindR (in_if (has (hfields h) 0x0010) in_uint8 (color_red (mo_color cmd)) s) (\<lambda>(r, s).
     bindR (in_if (has (hfields h) 0x0020) in_uint8 (color_green (mo_color cmd)) s) (\<lambda>(g, s).
     bindR (in_if (has (hfields h) 0x0040) in_uint8 (color_blue (mo_color cmd)) s) (\<lambda>(b, s).
     bindR (in_if (has (hfields h) 0x0080) in_uint8 (mo_n cmd) s) (\<lambda>(n, s).
     bindR (receive_deltas (has (hfields h) 0x0100) n (mo_deltas cmd) s) (\<lambda>(ds, s).
     Inr (\<lparr>mo_left = x, mo_top = y, mo_width = w, mo_height = ht, mo_color = BGRColor b g r,
           mo_n = n, mo_deltas = ds\<rparr>, s))))))))))"

definition MultiOpaqueRect_move :: "i16 \<Rightarrow> i16 \<Rightarrow> MultiOpaqueRect \<Rightarrow> MultiOpaqueRect" where
  "MultiOpaqueRect_move dx dy cmd =
     cmd\<lparr>mo_left := mo_left cmd + dx, mo_top := mo_top cmd + dy,
         mo_deltas := shift_first dx dy (mo_n cmd) (mo_deltas cmd)\<rparr>"

definition MultiOpaqueRect_same :: "MultiOpaqueRect \<Rightarrow> MultiOpaqueRect \<Rightarrow> bool" where
  "MultiOpaqueRect_same c1 c2 \<longleftrightarrow> c2\<lparr>mo_deltas := []\<rparr> = c1\<lparr>mo_deltas := []\<rparr>
     \<and> take (unat (mo_n c1)) (mo_deltas c2) = take (unat (mo_n c1)) (mo_deltas c1)"

definition MultiOpaqueRect_ok :: "MultiOpaqueRect \<Rightarrow> bool" where
  "MultiOpaqueRect_ok cmd \<longleftrightarrow> color_ok (mo_color cmd) \<and> deltas_ok (mo_n cmd) (mo_deltas cmd)"

lemma MultiOpaqueRect_rcv_body:
  assumes "as_prepared h (MultiOpaqueRect_header cl cmd old)" "MultiOpaqueRect_ok cmd" "MultiOpaqueRect_same old old'"
  shows "MultiOpaqueRect_receive h old' (InStream c (MultiOpaqueRect_body h cmd old @ r))
    = Inr (cmd\<lparr>mo_deltas := if deltas_differ (mo_n cmd) (mo_deltas cmd) (mo_n old) (mo_deltas old)
             then take (unat (mo_n cmd)) (mo_deltas cmd) @ drop (unat (mo_n cmd)) (mo_deltas old')
             else mo_deltas old'\<rparr>,
           InStream (c @ MultiOpaqueRect_body h cmd old) r)"
proof -
  note p = assms(1) [unfolded as_prepared_def MultiOpaqueRect_header_def Let_def]
  have eq: "mo_left old' = mo_left old"
    "mo_top old' = mo_top old"
    "mo_width old' = mo_width old"
    "mo_height old' = mo_height old"
    "mo_color old' = mo_color old"
    "mo_n old' = mo_n old"
    using assms(3) unfolding MultiOpaqueRect_same_def by (cases old; cases old'; simp)+
  have "coord_sent h 0x0001 (mo_left cmd) (mo_left old)" "coord_sent h 0x0002 (mo_top cmd) (mo_top old)"
    "coord_sent h 0x0004 (mo_width cmd) (mo_width old)" "coord_sent h 0x0008 (mo_height cmd) (mo_height old)"
    by (rule coord_sentI; simp add: p flag_simps)+
  moreover have "\<not> has (mo_color cmd XOR mo_color old) 0x0000FF \<longrightarrow> color_red (mo_color cmd) = color_red (mo_color old)"
    "\<not> has (mo_color cmd XOR mo_color old) 0x00FF00 \<longrightarrow> color_green (mo_color cmd) = color_green (mo_color old)"
    "\<not> has (mo_color cmd XOR mo_color old) 0xFF0000 \<longrightarrow> color_blue (mo_color cmd) = color_blue (mo_color old)"
    using color_byte_same [of "mo_color cmd" "mo_color old"] by auto
  then have "has (hfields h) 0x0010 \<or> color_red (mo_color cmd) = color_red (mo_color old)"
    "has (hfields h) 0x0020 \<or> color_green (mo_color cmd) = color_green (mo_color old)"
    "has (hfields h) 0x0040 \<or> color_blue (mo_color cmd) = color_blue (mo_color old)"
    by (auto simp: p flag_simps)
  moreover have "has (hfields h) 0x0080 \<or> mo_n cmd = mo_n old"
    "has (hfields h) 0x0100 \<longleftrightarrow> deltas_differ (mo_n cmd) (mo_deltas cmd) (mo_n old) (mo_deltas old)"
    by (simp_all add: p flag_simps)
  ultimately show ?thesis using assms(2) unfolding MultiOpaqueRect_receive_def MultiOpaqueRect_body_def MultiOpaqueRect_ok_def
    by (simp add: eq in_if_simps receive_deltas_ok BGRColor_id)
qed

lemma MultiOpaqueRect_same_after:
  assumes "MultiOpaqueRect_ok cmd" "MultiOpaqueRect_same old old'"
  shows "MultiOpaqueRect_same cmd (cmd\<lparr>mo_deltas := if deltas_differ (mo_n cmd) (mo_deltas cmd) (mo_n old) (mo_deltas old)
             then take (unat (mo_n cmd)) (mo_deltas cmd) @ drop (unat (mo_n cmd)) (mo_deltas old')
             else mo_deltas old'\<rparr>)"
  using assms by (auto simp: MultiOpaqueRect_same_def MultiOpaqueRect_ok_def deltas_ok_def deltas_differ_def)

interpretation MultiOpaqueRect: primary_order MULTIOPAQUERECT MultiOpaqueRect_header MultiOpaqueRect_body MultiOpaqueRect_receive
  MultiOpaqueRect_ok MultiOpaqueRect_same
  by unfold_locales
    (auto simp: MultiOpaqueRect_rcv_body MultiOpaqueRect_same_after MultiOpaqueRect_header_def header_simps)

subsection \<open>MultiPatBlt\<close>

record MultiPatBlt =
  mp_rect :: rect
  mp_rop :: u8
  mp_back_color :: color
  mp_fore_color :: color
  mp_brush :: brush
  mp_n :: u8
  mp_deltas :: "der list"

definition MultiPatBlt_header :: "rect \<Rightarrow> MultiPatBlt \<Rightarrow> MultiPatBlt \<Rightarrow> header" where
  "MultiPatBlt_header cl cmd old =
     (let dr = mk_delta_rect (mp_rect cmd) (mp_rect old); br = mp_brush cmd; obr = mp_brush old in
      \<lparr>control = (STANDARD OR flag (\<not> contains cl (mp_rect cmd)) BOUNDS) OR flag (fully_relative dr) DELTA,
       hfields = flag (dleft dr \<noteq> 0) 0x0001 OR flag (dtop dr \<noteq> 0) 0x0002
          OR flag (dwidth dr \<noteq> 0) 0x0004 OR flag (dheight dr \<noteq> 0) 0x0008
          OR flag (mp_rop cmd \<noteq> mp_rop old) 0x0010
          OR flag (mp_back_color cmd \<noteq> mp_back_color old) 0x0020
          OR flag (mp_fore_color cmd \<noteq> mp_fore_color old) 0x0040
          OR flag (org_x br \<noteq> org_x obr) 0x0080 OR flag (org_y br \<noteq> org_y obr) 0x0100
          OR flag (bstyle br \<noteq> bstyle obr) 0x0200 OR flag (bhatch br \<noteq> bhatch obr) 0x0400
          OR flag (extra br \<noteq> extra obr) 0x0800 OR flag (mp_n cmd \<noteq> mp_n old) 0x1000
          OR flag (deltas_differ (mp_n cmd) (mp_deltas cmd) (mp_n old) (mp_deltas old)) 0x2000\<rparr>)"

definition MultiPatBlt_body :: "header \<Rightarrow> MultiPatBlt \<Rightarrow> MultiPatBlt \<Rightarrow> u8 list" where
  "MultiPatBlt_body h cmd old =
     emit_rect h 0x0001 (mp_rect cmd) (mp_rect old)
     @ opt (has (hfields h) 0x0010) (bytes_uint8 (mp_rop cmd))
     @ opt (has (hfields h) 0x0020) (emit_rdp_color (mp_back_color cmd))
     @ opt (has (hfields h) 0x0040) (emit_rdp_color (mp_fore_color cmd))
     @ emit_brush h 0x0080 (mp_brush cmd)
     @ opt (has (hfields h) 0x1000) (bytes_uint8 (mp_n cmd))
     @ opt (has (hfields h) 0x2000) (emit_delta_rects (take (unat (mp_n cmd)) (mp_deltas cmd)))"

definition MultiPatBlt_receive :: "header \<Rightarrow> MultiPatBlt \<Rightarrow> instream \<Rightarrow> (MultiPatBlt \<times> instream) res" where
  "MultiPatBlt_receive h cmd s =
     bindR (receive_rect h 0x0001 (mp_rect cmd) s) (\<lambda>(rc, s).
     bindR (in_if (has (hfields h) 0x0010) in_uint8 (mp_rop cmd) s) (\<lambda>(rop, s).
     bindR (in_if (has (hfields h) 0x0020) receive_rdp_color (mp_back_color cmd) s) (\<lambda>(bc, s).
     bindR (in_if (has (hfields h) 0x0040) receive_rdp_color (mp_fore_color cmd) s) (\<lambda>(fc, s).
     bindR (receive_brush h 0x0080 (mp_brush cmd) s) (\<lambda>(br, s).
     bindR (in_if (has (hfields h) 0x1000) in_uint8 (mp_n cmd) s) (\<lambda>(n, s).
     bindR (receive_deltas (has (hfields h) 0x2000) n (mp_deltas cmd) s) (\<lambda>(ds, s).
     Inr (\<lparr>mp_rect = rc, mp_rop = rop, mp_back_color = bc, mp_fore_color = fc, mp_brush = br, mp_n = n,
           mp_deltas = ds\<rparr>, s))))))))"

definition MultiPatBlt_move :: "i16 \<Rightarrow> i16 \<Rightarrow> MultiPatBlt \<Rightarrow> MultiPatBlt" where
  "MultiPatBlt_move dx dy cmd = cmd\<lparr>mp_rect := offset_rect (mp_rect cmd) dx dy\<rparr>"

definition MultiPatBlt_same :: "MultiPatBlt \<Rightarrow> MultiPatBlt \<Rightarrow> bool" where
  "MultiPatBlt_same c1 c2 \<longleftrightarrow> c2\<lparr>mp_deltas := []\<rparr> = c1\<lparr>mp_deltas := []\<rparr>
     \<and> take (unat (mp_n c1)) (mp_deltas c2) = take (unat (mp_n c1)) (mp_deltas c1)"

definition MultiPatBlt_ok :: "MultiPatBlt \<Rightarrow> bool" where
  "MultiPatBlt_ok cmd \<longleftrightarrow> color_ok (mp_back_color cmd) \<and> color_ok (mp_fore_color cmd) \<and> brush_ok (mp_brush cmd) \<and> deltas_ok (mp_n cmd) (mp_deltas cmd)"

lemma MultiPatBlt_rcv_body:
  assumes "as_prepared h (MultiPatBlt_header cl cmd old)" "MultiPatBlt_ok cmd" "MultiPatBlt_same old old'"
  shows "MultiPatBlt_receive h old' (InStream c (MultiPatBlt_body h cmd old @ r))
    = Inr (cmd\<lparr>mp_deltas := if deltas_differ (mp_n cmd) (mp_deltas cmd) (mp_n old) (mp_deltas old)
             then take (unat (mp_n cmd)) (mp_deltas cmd) @ drop (unat (mp_n cmd)) (mp_deltas old')
             else mp_deltas old'\<rparr>,
           InStream (c @ MultiPatBlt_body h cmd old) r)"
proof -
  note p = assms(1) [unfolded as_prepared_def MultiPatBlt_header_def Let_def]
  have eq: "mp_rect old' = mp_rect old"
    "mp_rop old' = mp_rop old"
    "mp_back_color old' = mp_back_color old"
    "mp_fore_color old' = mp_fore_color old"
    "mp_brush old' = mp_brush old"
    "mp_n old' = mp_n old"
    using assms(3) unfolding MultiPatBlt_same_def by (cases old; cases old'; simp)+
  have "rect_sent h 0x0001 (mp_rect cmd) (mp_rect old)"
    by (rule rect_sentI; simp add: p flag_simps)
  moreover have "receive_brush h 0x0080 (mp_brush old) (InStream c (emit_brush h 0x0080 (mp_brush cmd) @ r))
      = Inr (mp_brush cmd, InStream (c @ emit_brush h 0x0080 (mp_brush cmd)) r)" for c r
    by (rule receive_emit_brush; use assms(2) in \<open>simp add: p flag_simps MultiPatBlt_ok_def\<close>)
  moreover have "has (hfields h) 0x0010 \<or> mp_rop cmd = mp_rop old"
    "has (hfields h) 0x0020 \<or> mp_back_color cmd = mp_back_color old"
    "has (hfields h) 0x0040 \<or> mp_fore_color cmd = mp_fore_color old"
    "has (hfields h) 0x1000 \<or> mp_n cmd = mp_n old" "has (hfields h) 0x2000 \<longleftrightarrow> deltas_differ (mp_n cmd) (mp_deltas cmd) (mp_n old) (mp_deltas old)"
    by (simp_all add: p flag_simps)
  ultimately show ?thesis using assms(2) unfolding MultiPatBlt_receive_def MultiPatBlt_body_def MultiPatBlt_ok_def
    by (simp add: eq in_if_simps receive_deltas_ok BGRColor_id)
qed

lemma MultiPatBlt_same_after:
  assumes "MultiPatBlt_ok cmd" "MultiPatBlt_same old old'"
  shows "MultiPatBlt_same cmd (cmd\<lparr>mp_deltas := if deltas_differ (mp_n cmd) (mp_deltas cmd) (mp_n old) (mp_deltas old)
             then take (unat (mp_n cmd)) (mp_deltas cmd) @ drop (unat (mp_n cmd)) (mp_deltas old')
             else mp_deltas old'\<rparr>)"
  using assms by (auto simp: MultiPatBlt_same_def MultiPatBlt_ok_def deltas_ok_def deltas_differ_def)

interpretation MultiPatBlt: primary_order MULTIPATBLT MultiPatBlt_header MultiPatBlt_body MultiPatBlt_receive
  MultiPatBlt_ok MultiPatBlt_same
  by unfold_locales
    (auto simp: MultiPatBlt_rcv_body MultiPatBlt_same_after MultiPatBlt_header_def header_simps)

subsection \<open>MultiScrBlt\<close>

record MultiScrBlt =
  ms_rect :: rect
  ms_rop :: u8
  ms_xsrc :: i16
  ms_ysrc :: i16
  ms_n :: u8
  ms_deltas :: "der list"

definition MultiScrBlt_header :: "rect \<Rightarrow> MultiScrBlt \<Rightarrow> MultiScrBlt \<Rightarrow> header" where
  "MultiScrBlt_header cl cmd old =
     (let dr = mk_delta_rect (ms_rect cmd) (ms_rect old) in
      \<lparr>control = (STANDARD OR flag (\<not> contains cl (ms_rect cmd)) BOUNDS)
          OR flag (fully_relative dr \<and> is_1_byte (ms_xsrc cmd - ms_xsrc old)
               \<and> is_1_byte (ms_ysrc cmd - ms_ysrc old)) DELTA,
       hfields = flag (dleft dr \<noteq> 0) 0x0001 OR flag (dtop dr \<noteq> 0) 0x0002
          OR flag (dwidth dr \<noteq> 0) 0x0004 OR flag (dheight dr \<noteq> 0) 0x0008
          OR flag (ms_rop cmd \<noteq> ms_rop old) 0x0010
          OR flag (ms_xsrc cmd \<noteq> ms_xsrc old) 0x0020 OR flag (ms_ysrc cmd \<noteq> ms_ysrc old) 0x0040
          OR flag (ms_n cmd \<noteq> ms_n old) 0x0080
          OR flag (deltas_differ (ms_n cmd) (ms_deltas cmd) (ms_n old) (ms_deltas old)) 0x0100\<rparr>)"

definition MultiScrBlt_body :: "header \<Rightarrow> MultiScrBlt \<Rightarrow> MultiScrBlt \<Rightarrow> u8 list" where
  "MultiScrBlt_body h cmd old =
     emit_rect h 0x0001 (ms_rect cmd) (ms_rect old)
     @ opt (has (hfields h) 0x0010) (bytes_uint8 (ms_rop cmd))
     @ emit_coord h 0x0020 (ms_xsrc cmd) (ms_xsrc old)
     @ emit_coord h 0x0040 (ms_ysrc cmd) (ms_ysrc old)
     @ opt (has (hfields h) 0x0080) (bytes_uint8 (ms_n cmd))
     @ opt (has (hfields h) 0x0100) (emit_delta_rects (take (unat (ms_n cmd)) (ms_deltas cmd)))"

definition MultiScrBlt_receive :: "header \<Rightarrow> MultiScrBlt \<Rightarrow> instream \<Rightarrow> (MultiScrBlt \<times> instream) res" where
  "MultiScrBlt_receive h cmd s =
     bindR (receive_rect h 0x0001 (ms_rect cmd) s) (\<lambda>(rc, s).
     bindR (in_if (has (hfields h) 0x0010) in_uint8 (ms_rop cmd) s) (\<lambda>(rop, s).
     bindR (receive_coord h 0x0020 (ms_xsrc cmd) s) (\<lambda>(x, s).
     bindR (receive_coord h 0x0040 (ms_ysrc cmd) s) (\<lambda>(y, s).
     bindR (in_if (has (hfields h) 0x0080) in_uint8 (ms_n cmd) s) (\<lambda>(n, s).
     bindR (receive_deltas (has (hfields h) 0x0100) n (ms_deltas cmd) s) (\<lambda>(ds, s).
     Inr (\<lparr>ms_rect = rc, ms_rop = rop, ms_xsrc = x, ms_ysrc = y, ms_n = n, ms_deltas = ds\<rparr>, s)))))))"

definition MultiScrBlt_move :: "i16 \<Rightarrow> i16 \<Rightarrow> MultiScrBlt \<Rightarrow> MultiScrBlt" where
  "MultiScrBlt_move dx dy cmd =
     cmd\<lparr>ms_rect := offset_rect (ms_rect cmd) dx dy, ms_xsrc := ms_xsrc cmd + dx, ms_ysrc := ms_ysrc cmd + dy,
         ms_deltas := shift_first dx dy (ms_n cmd) (ms_deltas cmd)\<rparr>"

definition MultiScrBlt_same :: "MultiScrBlt \<Rightarrow> MultiScrBlt \<Rightarrow> bool" where
  "MultiScrBlt_same c1 c2 \<longleftrightarrow> c2\<lparr>ms_deltas := []\<rparr> = c1\<lparr>ms_deltas := []\<rparr>
     \<and> take (unat (ms_n c1)) (ms_deltas c2) = take (unat (ms_n c1)) (ms_deltas c1)"

definition MultiScrBlt_ok :: "MultiScrBlt \<Rightarrow> bool" where
  "MultiScrBlt_ok cmd \<longleftrightarrow> deltas_ok (ms_n cmd) (ms_deltas cmd)"

lemma MultiScrBlt_rcv_body:
  assumes "as_prepared h (MultiScrBlt_header cl cmd old)" "MultiScrBlt_ok cmd" "MultiScrBlt_same old old'"
  shows "MultiScrBlt_receive h old' (InStream c (MultiScrBlt_body h cmd old @ r))
    = Inr (cmd\<lparr>ms_deltas := if deltas_differ (ms_n cmd) (ms_deltas cmd) (ms_n old) (ms_deltas old)
             then take (unat (ms_n cmd)) (ms_deltas cmd) @ drop (unat (ms_n cmd)) (ms_deltas old')
             else ms_deltas old'\<rparr>,
           InStream (c @ MultiScrBlt_body h cmd old) r)"
proof -
  note p = assms(1) [unfolded as_prepared_def MultiScrBlt_header_def Let_def]
  have eq: "ms_rect old' = ms_rect old"
    "ms_rop old' = ms_rop old"
    "ms_xsrc old' = ms_xsrc old"
    "ms_ysrc old' = ms_ysrc old"
    "ms_n old' = ms_n old"
    using assms(3) unfolding MultiScrBlt_same_def by (cases old; cases old'; simp)+
  have "rect_sent h 0x0001 (ms_rect cmd) (ms_rect old)"
    by (rule rect_sentI; simp add: p flag_simps)
  moreover have "coord_sent h 0x0020 (ms_xsrc cmd) (ms_xsrc old)" "coord_sent h 0x0040 (ms_ysrc cmd) (ms_ysrc old)"
    by (rule coord_sentI; simp add: p flag_simps)+
  moreover have "has (hfields h) 0x0010 \<or> ms_rop cmd = ms_rop old"
    "has (hfields h) 0x0080 \<or> ms_n cmd = ms_n old" "has (hfields h) 0x0100 \<longleftrightarrow> deltas_differ (ms_n cmd) (ms_deltas cmd) (ms_n old) (ms_deltas old)"
    by (simp_all add: p flag_simps)
  ultimately show ?thesis using assms(2) unfolding MultiScrBlt_receive_def MultiScrBlt_body_def MultiScrBlt_ok_def
    by (simp add: eq in_if_simps receive_deltas_ok BGRColor_id)
qed

lemma MultiScrBlt_same_after:
  assumes "MultiScrBlt_ok cmd" "MultiScrBlt_same old old'"
  shows "MultiScrBlt_same cmd (cmd\<lparr>ms_deltas := if deltas_differ (ms_n cmd) (ms_deltas cmd) (ms_n old) (ms_deltas old)
             then take (unat (ms_n cmd)) (ms_deltas cmd) @ drop (unat (ms_n cmd)) (ms_deltas old')
             else ms_deltas old'\<rparr>)"
  using assms by (auto simp: MultiScrBlt_same_def MultiScrBlt_ok_def deltas_ok_def deltas_differ_def)

interpretation MultiScrBlt: primary_order MULTISCRBLT MultiScrBlt_header MultiScrBlt_body MultiScrBlt_receive
  MultiScrBlt_ok MultiScrBlt_same
  by unfold_locales
    (auto simp: MultiScrBlt_rcv_body MultiScrBlt_same_after MultiScrBlt_header_def header_simps)

subsection \<open>Polyline\<close>

record Polyline =
  pl_xStart :: i16
  pl_yStart :: i16
  pl_rop2 :: u8
  pl_brush_entry :: u16
  pl_color :: color
  pl_n :: u8
  pl_points :: "dep_point list"

text \<open>The constructor clamps the count to the 128 entries of the array.\<close>

definition mk_Polyline :: "i16 \<Rightarrow> i16 \<Rightarrow> u8 \<Rightarrow> u16 \<Rightarrow> color \<Rightarrow> u8 \<Rightarrow> instream \<Rightarrow> Polyline res" where
  "mk_Polyline x y rop entry c n s =
     (let n' = min n 128 in
      bindR (in_list (\<lambda>s. bindR (in_sint16_le s) (\<lambda>(dx, s). bindR (in_sint16_le s) (\<lambda>(dy, s).
               Inr (\<lparr>p_x = dx, p_y = dy\<rparr>, s)))) (unat n') s) (\<lambda>(ps, s).
      Inr \<lparr>pl_xStart = x, pl_yStart = y, pl_rop2 = rop, pl_brush_entry = entry, pl_color = c, pl_n = n',
           pl_points = ps @ replicate (128 - unat n') \<lparr>p_x = 0, p_y = 0\<rparr>\<rparr>))"

fun point_outside :: "rect \<Rightarrow> i16 \<Rightarrow> i16 \<Rightarrow> dep_point list \<Rightarrow> bool" where
  "point_outside cl x y [] = False"
| "point_outside cl x y (e # es) =
     (\<not> contains_pt cl (x + p_x e) (y + p_y e) \<or> point_outside cl (x + p_x e) (y + p_y e) es)"

definition points_differ :: "u8 \<Rightarrow> dep_point list \<Rightarrow> u8 \<Rightarrow> dep_point list \<Rightarrow> bool" where
  "points_differ n ps m qs \<longleftrightarrow> n \<noteq> m \<or> take (unat n) ps \<noteq> take (unat n) qs"

definition Polyline_header :: "rect \<Rightarrow> Polyline \<Rightarrow> Polyline \<Rightarrow> header" where
  "Polyline_header cl cmd old =
     \<lparr>control = (STANDARD OR flag (\<not> contains_pt cl (pl_xStart cmd) (pl_yStart cmd)
            \<or> point_outside cl (pl_xStart cmd) (pl_yStart cmd) (take (unat (pl_n cmd)) (pl_points cmd))) BOUNDS)
          OR flag (is_1_byte (pl_xStart cmd - pl_xStart old) \<and> is_1_byte (pl_yStart cmd - pl_yStart old)) DELTA,
      hfields = flag (pl_xStart cmd \<noteq> pl_xStart old) 0x0001 OR flag (pl_yStart cmd \<noteq> pl_yStart old) 0x0002
          OR flag (pl_rop2 cmd \<noteq> pl_rop2 old) 0x0004
          OR flag (pl_brush_entry cmd \<noteq> pl_brush_entry old) 0x0008
          OR flag (pl_color cmd \<noteq> pl_color old) 0x0010 OR flag (pl_n cmd \<noteq> pl_n old) 0x0020
          OR flag (points_differ (pl_n cmd) (pl_points cmd) (pl_n old) (pl_points old)) 0x0040\<rparr>"

definition Polyline_body :: "header \<Rightarrow> Polyline \<Rightarrow> Polyline \<Rightarrow> u8 list" where
  "Polyline_body h cmd old =
     emit_coord h 0x0001 (pl_xStart cmd) (pl_xStart old)
     @ emit_coord h 0x0002 (pl_yStart cmd) (pl_yStart old)
     @ opt (has (hfields h) 0x0004) (bytes_uint8 (pl_rop2 cmd))
     @ opt (has (hfields h) 0x0008) (bytes_uint16_le (pl_brush_entry cmd))
     @ opt (has (hfields h) 0x0010) (emit_rdp_color (pl_color cmd))
     @ opt (has (hfields h) 0x0020) (bytes_uint8 (pl_n cmd))
     @ opt (has (hfields h) 0x0040) (emit_delta_points (take (unat (pl_n cmd)) (pl_points cmd)))"

definition Polyline_receive :: "header \<Rightarrow> Polyline \<Rightarrow> instream \<Rightarrow> (Polyline \<times> instream) res" where
  "Polyline_receive h cmd s =
     bindR (receive_coord h 0x0001 (pl_xStart cmd) s) (\<lambda>(x, s).
     bindR (receive_coord h 0x0002 (pl_yStart cmd) s) (\<lambda>(y, s).
     bindR (in_if (has (hfields h) 0x0004) in_uint8 (pl_rop2 cmd) s) (\<lambda>(rop, s).
     bindR (in_if (has (hfields h) 0x0008) in_uint16_le (pl_brush_entry cmd) s) (\<lambda>(be, s).
     bindR (in_if (has (hfields h) 0x0010) receive_rdp_color (pl_color cmd) s) (\<lambda>(co, s).
     bindR (in_if (has (hfields h) 0x0020) in_uint8 (pl_n cmd) s) (\<lambda>(n, s).
     bindR (in_if (has (hfields h) 0x0040) (receive_delta_points n (pl_points cmd)) (pl_points cmd) s) (\<lambda>(ps, s).
     Inr (\<lparr>pl_xStart = x, pl_yStart = y, pl_rop2 = rop, pl_brush_entry = be, pl_color = co, pl_n = n,
           pl_points = ps\<rparr>, s))))))))"

definition Polyline_move :: "i16 \<Rightarrow> i16 \<Rightarrow> Polyline \<Rightarrow> Polyline" where
  "Polyline_move dx dy cmd = cmd\<lparr>pl_xStart := pl_xStart cmd + dx, pl_yStart := pl_yStart cmd + dy\<rparr>"

definition Polyline_same :: "Polyline \<Rightarrow> Polyline \<Rightarrow> bool" where
  "Polyline_same c1 c2 \<longleftrightarrow> c2\<lparr>pl_points := []\<rparr> = c1\<lparr>pl_points := []\<rparr>
     \<and> take (unat (pl_n c1)) (pl_points c2) = take (unat (pl_n c1)) (pl_points c1)"

definition Polyline_ok :: "Polyline \<Rightarrow> bool" where
  "Polyline_ok cmd \<longleftrightarrow> color_ok (pl_color cmd) \<and> length (pl_points cmd) = 128
     \<and> unat (pl_n cmd) \<le> 128 \<and> points_sendable (take (unat (pl_n cmd)) (pl_points cmd))"

lemma Polyline_rcv_body:
  assumes "as_prepared h (Polyline_header cl cmd old)" "Polyline_ok cmd" "Polyline_same old old'"
  shows "Polyline_receive h old' (InStream c (Polyline_body h cmd old @ r))
    = Inr (cmd\<lparr>pl_points := if points_differ (pl_n cmd) (pl_points cmd) (pl_n old) (pl_points old)
             then take (unat (pl_n cmd)) (pl_points cmd) @ drop (unat (pl_n cmd)) (pl_points old')
             else pl_points old'\<rparr>,
           InStream (c @ Polyline_body h cmd old) r)"
proof -
  note p = assms(1) [unfolded as_prepared_def Polyline_header_def Let_def]
  have eq: "pl_xStart old' = pl_xStart old" "pl_yStart old' = pl_yStart old" "pl_rop2 old' = pl_rop2 old"
    "pl_brush_entry old' = pl_brush_entry old" "pl_color old' = pl_color old" "pl_n old' = pl_n old"
    using assms(3) unfolding Polyline_same_def by (cases old; cases old'; simp)+
  have ps: "in_if b (receive_delta_points (pl_n cmd) ps) ps
      (InStream c (opt b (emit_delta_points (take (unat (pl_n cmd)) (pl_points cmd))) @ r))
    = Inr (if b then take (unat (pl_n cmd)) (pl_points cmd) @ drop (unat (pl_n cmd)) ps else ps,
           InStream (c @ opt b (emit_delta_points (take (unat (pl_n cmd)) (pl_points cmd)))) r)" for b ps c r
    using assms(2) receive_emit_delta_points [of "take (unat (pl_n cmd)) (pl_points cmd)" "pl_n cmd" ps c r]
    by (simp add: in_if_def opt_def Polyline_ok_def)
  have "coord_sent h 0x0001 (pl_xStart cmd) (pl_xStart old)" "coord_sent h 0x0002 (pl_yStart cmd) (pl_yStart old)"
    by (rule coord_sentI; simp add: p flag_simps)+
  moreover have "has (hfields h) 0x0004 \<or> pl_rop2 cmd = pl_rop2 old"
    "has (hfields h) 0x0008 \<or> pl_brush_entry cmd = pl_brush_entry old"
    "has (hfields h) 0x0010 \<or> pl_color cmd = pl_color old" "has (hfields h) 0x0020 \<or> pl_n cmd = pl_n old"
    "has (hfields h) 0x0040 \<longleftrightarrow> points_differ (pl_n cmd) (pl_points cmd) (pl_n old) (pl_points old)"
    by (simp_all add: p flag_simps)
  ultimately show ?thesis using assms(2) unfolding Polyline_receive_def Polyline_body_def Polyline_ok_def
    by (simp add: eq in_if_simps ps)
qed

lemma Polyline_same_after:
  assumes "Polyline_ok cmd" "Polyline_same old old'"
  shows "Polyline_same cmd (cmd\<lparr>pl_points := if points_differ (pl_n cmd) (pl_points cmd) (pl_n old) (pl_points old)
             then take (unat (pl_n cmd)) (pl_points cmd) @ drop (unat (pl_n cmd)) (pl_points old')
             else pl_points old'\<rparr>)"
  using assms by (auto simp: Polyline_same_def Polyline_ok_def points_differ_def)

interpretation Polyline: primary_order POLYLINE Polyline_header Polyline_body Polyline_receive
  Polyline_ok Polyline_same
  by unfold_locales
    (auto simp: Polyline_rcv_body Polyline_same_after Polyline_header_def header_simps)

subsection \<open>Properties\<close>

definition shifted :: "i16 \<Rightarrow> i16 \<Rightarrow> rect list \<Rightarrow> rect list" where
  "shifted dx dy rs = map (\<lambda>r. r\<lparr>rx := rx r + dx, ry := ry r + dy\<rparr>) rs"

lemma shifted_same_iff: "shifted dx dy rs = rs \<longleftrightarrow> rs = [] \<or> (dx = 0 \<and> dy = 0)"
proof -
  have "r\<lparr>rx := rx r + dx, ry := ry r + dy\<rparr> = r \<longleftrightarrow> dx = 0 \<and> dy = 0" for r :: rect
    by (cases r) simp
  then show ?thesis by (cases rs) (auto simp: shifted_def map_idI)
qed

lemma delta_rects_Nil: "delta_rects es = [] \<longleftrightarrow> es = []"
  by (cases es) (simp_all add: delta_rects_def)

text \<open>
  \<open>move\<close> of \<open>RDPMultiOpaqueRect\<close> and \<open>RDPMultiScrBlt\<close> moves the drawing: every rectangle that
  \<open>for_each_delta_rect\<close> visits is shifted by the offset, because the first delta is.
\<close>

theorem moves_shift_drawing:
  assumes "mo_n c \<noteq> 0" "ms_n d \<noteq> 0"
  shows "delta_rects (take (unat (mo_n c)) (mo_deltas (MultiOpaqueRect_move dx dy c)))
      = shifted dx dy (delta_rects (take (unat (mo_n c)) (mo_deltas c)))
    \<and> delta_rects (take (unat (ms_n d)) (ms_deltas (MultiScrBlt_move dx dy d)))
      = shifted dx dy (delta_rects (take (unat (ms_n d)) (ms_deltas d)))"
  using delta_rects_shift_first [OF assms(1), of dx dy "mo_deltas c"] delta_rects_shift_first [OF assms(2), of dx dy "ms_deltas d"]
  by (simp add: MultiOpaqueRect_move_def MultiScrBlt_move_def shifted_def)

definition two_deltas :: "der list" where
  "two_deltas = \<lparr>er_left = 10, er_top = 20, er_width = 5, er_height = 6\<rparr>
     # replicate 44 \<lparr>er_left = 1, er_top = 0, er_width = 1, er_height = 1\<rparr>"

definition sample_opaque :: MultiOpaqueRect where
  "sample_opaque = \<lparr>mo_left = 10, mo_top = 20, mo_width = 6, mo_height = 6, mo_color = 0, mo_n = 2, mo_deltas = two_deltas\<rparr>"

definition sample_scr :: MultiScrBlt where
  "sample_scr = \<lparr>ms_rect = mk_rect 10 20 6 6, ms_rop = 0xCC, ms_xsrc = 1, ms_ysrc = 1, ms_n = 2, ms_deltas = two_deltas\<rparr>"

theorem moves_shift_drawing_witness:
  "delta_rects (take 2 (mo_deltas (MultiOpaqueRect_move 100 (-5) sample_opaque)))
   = [\<lparr>rx = 110, ry = 15, rcx = 5, rcy = 6\<rparr>, \<lparr>rx = 111, ry = 15, rcx = 1, rcy = 1\<rparr>]"
proof -
  have n: "mo_n sample_opaque \<noteq> 0" "ms_n sample_scr \<noteq> 0" "unat (mo_n sample_opaque) = 2"
    by (simp_all add: sample_opaque_def sample_scr_def)
  have "shifted 100 (-5) (delta_rects (take 2 (mo_deltas sample_opaque)))
      = [\<lparr>rx = 110, ry = 15, rcx = 5, rcy = 6\<rparr>, \<lparr>rx = 111, ry = 15, rcx = 1, rcy = 1\<rparr>]"
    by code_simp
  with moves_shift_drawing [OF n(1,2), of 100 "-5"] show ?thesis by (simp add: n(3))
qed

text \<open>
  \<open>move\<close> of \<open>RDPMultiDstBlt\<close> and \<open>RDPMultiPatBlt\<close> changes only the bounding rectangle: the rectangles
  that are drawn stay where they were, so unless the offset is zero or there is nothing to draw the
  drawing is not the shifted one.
\<close>

theorem moves_leave_rectangles:
  "(delta_rects (take (unat (md_n c)) (md_deltas (MultiDstBlt_move dx dy c)))
      = shifted dx dy (delta_rects (take (unat (md_n c)) (md_deltas c)))
    \<longleftrightarrow> take (unat (md_n c)) (md_deltas c) = [] \<or> (dx = 0 \<and> dy = 0))
   \<and> (delta_rects (take (unat (mp_n d)) (mp_deltas (MultiPatBlt_move dx dy d)))
      = shifted dx dy (delta_rects (take (unat (mp_n d)) (mp_deltas d)))
    \<longleftrightarrow> take (unat (mp_n d)) (mp_deltas d) = [] \<or> (dx = 0 \<and> dy = 0))"
proof -
  have "delta_rects es = shifted dx dy (delta_rects es) \<longleftrightarrow> es = [] \<or> (dx = 0 \<and> dy = 0)" for es
    using shifted_same_iff [of dx dy "delta_rects es"] by (metis delta_rects_Nil)
  then show ?thesis by (simp add: MultiDstBlt_move_def MultiPatBlt_move_def)
qed

end
