(* ===== verification/Order_Sync.thy ===== *)
theory Order_Sync
  imports Multi_Orders
begin

text \<open>
  The two ends of a drawing-order connection. The sender is \<open>RDPSerializer\<close>
  (\<open>core/RDP/RDPSerializer.hpp\<close>) with the flushing of \<open>GraphicsUpdatePDU\<close>; the receiver is
  \<open>rdp_orders\<close> (\<open>mod/rdp/rdp_orders.hpp\<close>). Each keeps a history: the last common part and the
  last order of every kind (\<open>StateChunk\<close>). The lemmas show that the histories stay in step and
  that the receiver draws what the sender was asked to draw.
\<close>

subsection \<open>Orders and histories\<close>

datatype cmd =
    CDstBlt DstBlt
  | CMultiDstBlt MultiDstBlt
  | CMultiOpaqueRect MultiOpaqueRect
  | CMultiPatBlt MultiPatBlt
  | CMultiScrBlt MultiScrBlt
  | CPatBlt PatBlt
  | CScrBlt ScrBlt
  | COpaqueRect OpaqueRect
  | CMemBlt MemBlt
  | CMem3Blt Mem3Blt
  | CLineTo LineTo
  | CGlyphIndex GlyphIndex
  | CPolyline Polyline
  | CEllipseSC EllipseSC

text \<open>\<open>StateChunk\<close> of \<open>core/RDP/state_chunk.hpp\<close>; \<open>rdp_orders\<close> has the same members.\<close>

record chunk =
  ch_common :: common
  ch_DstBlt :: DstBlt
  ch_MultiDstBlt :: MultiDstBlt
  ch_MultiOpaqueRect :: MultiOpaqueRect
  ch_MultiPatBlt :: MultiPatBlt
  ch_MultiScrBlt :: MultiScrBlt
  ch_PatBlt :: PatBlt
  ch_ScrBlt :: ScrBlt
  ch_OpaqueRect :: OpaqueRect
  ch_MemBlt :: MemBlt
  ch_Mem3Blt :: Mem3Blt
  ch_LineTo :: LineTo
  ch_GlyphIndex :: GlyphIndex
  ch_Polyline :: Polyline
  ch_EllipseSC :: EllipseSC

definition zero_rect :: rect where "zero_rect = \<lparr>rx = 0, ry = 0, rcx = 0, rcy = 0\<rparr>"
definition zero_brush :: brush where
  "zero_brush = \<lparr>org_x = 0, org_y = 0, bstyle = 0, bhatch = 0, extra = replicate 7 0\<rparr>"
definition zero_deltas :: "der list" where
  "zero_deltas = replicate 45 \<lparr>er_left = 0, er_top = 0, er_width = 0, er_height = 0\<rparr>"
definition zero_ellipse :: EllipseSC where
  "zero_ellipse = \<lparr>e_el = \<lparr>eleft = 0, etop = 0, eright_edge = 0, ebottom_edge = 0\<rparr>,
     e_rop2 = 0, e_fill = 0, e_color = 0\<rparr>"

definition initial_chunk :: chunk where
  "initial_chunk =
     \<lparr>ch_common = \<lparr>corder = PATBLT, clip = mk_rect 0 0 1 1\<rparr>,
      ch_DstBlt = \<lparr>d_rect = zero_rect, d_rop = 0\<rparr>,
      ch_MultiDstBlt = \<lparr>md_left = 0, md_top = 0, md_width = 0, md_height = 0, md_rop = 0, md_n = 0,
        md_deltas = zero_deltas\<rparr>,
      ch_MultiOpaqueRect = \<lparr>mo_left = 0, mo_top = 0, mo_width = 0, mo_height = 0, mo_color = 0, mo_n = 0,
        mo_deltas = zero_deltas\<rparr>,
      ch_MultiPatBlt = \<lparr>mp_rect = zero_rect, mp_rop = 0, mp_back_color = 0, mp_fore_color = 0,
        mp_brush = zero_brush, mp_n = 0, mp_deltas = zero_deltas\<rparr>,
      ch_MultiScrBlt = \<lparr>ms_rect = zero_rect, ms_rop = 0, ms_xsrc = 0, ms_ysrc = 0, ms_n = 0,
        ms_deltas = zero_deltas\<rparr>,
      ch_PatBlt = \<lparr>pb_rect = zero_rect, pb_rop = 0, pb_back_color = 0, pb_fore_color = 0, pb_brush = zero_brush\<rparr>,
      ch_ScrBlt = \<lparr>sb_rect = zero_rect, sb_rop = 0, sb_srcx = 0, sb_srcy = 0\<rparr>,
      ch_OpaqueRect = \<lparr>o_rect = zero_rect, o_color = 0\<rparr>,
      ch_MemBlt = \<lparr>m_cache_id = 0, m_rect = zero_rect, m_rop = 0, m_srcx = 0, m_srcy = 0, m_cache_idx = 0\<rparr>,
      ch_Mem3Blt = \<lparr>m3_cache_id = 0, m3_rect = zero_rect, m3_rop = 0, m3_srcx = 0, m3_srcy = 0,
        m3_back_color = 0, m3_fore_color = 0, m3_brush = zero_brush, m3_cache_idx = 0\<rparr>,
      ch_LineTo = \<lparr>l_back_mode = 0, l_startx = 0, l_starty = 0, l_endx = 0, l_endy = 0, l_back_color = 0,
        l_rop2 = 0, l_pen = \<lparr>pstyle = 0, pwidth = 0, pcolor = 0\<rparr>\<rparr>,
      ch_GlyphIndex = \<lparr>g_cache_id = 0, g_fl_accel = 0, g_ui_charinc = 0, g_f_op_redundant = 0,
        g_back_color = 0, g_fore_color = 0, g_bk = mk_rect 0 0 1 1, g_op = mk_rect 0 0 1 1,
        g_brush = zero_brush, g_glyph_x = 0, g_glyph_y = 0, g_data_len = 0, g_data = replicate 256 0\<rparr>,
      ch_Polyline = \<lparr>pl_xStart = 0, pl_yStart = 0, pl_rop2 = 0, pl_brush_entry = 0, pl_color = 0, pl_n = 0,
        pl_points = replicate 128 \<lparr>p_x = 0, p_y = 0\<rparr>\<rparr>,
      ch_EllipseSC = zero_ellipse\<rparr>"

text \<open>\<open>rdp_orders::reset\<close> sets every order back to its initial value except \<open>ellipseSC\<close>.\<close>

definition reset_chunk :: "chunk \<Rightarrow> chunk" where
  "reset_chunk k = initial_chunk\<lparr>ch_EllipseSC := ch_EllipseSC k\<rparr>"

subsection \<open>Sending\<close>

text \<open>One \<open>draw\<close>: emit against the last order of the kind, then keep the order and the common part.\<close>

definition emit_cmd :: "chunk \<Rightarrow> rect \<Rightarrow> cmd \<Rightarrow> u8 list \<times> chunk" where
  "emit_cmd k cl cmd =
     (case cmd of
       CDstBlt c \<Rightarrow>
         (let (bs, com) = order_emit DstBlt_header DstBlt_body \<lparr>corder = DESTBLT, clip = cl\<rparr> (ch_common k) c (ch_DstBlt k)
          in (bs, k\<lparr>ch_common := com, ch_DstBlt := c\<rparr>))
     | CMultiDstBlt c \<Rightarrow>
         (let (bs, com) = order_emit MultiDstBlt_header MultiDstBlt_body \<lparr>corder = MULTIDSTBLT, clip = cl\<rparr> (ch_common k) c (ch_MultiDstBlt k)
          in (bs, k\<lparr>ch_common := com, ch_MultiDstBlt := c\<rparr>))
     | CMultiOpaqueRect c \<Rightarrow>
         (let (bs, com) = order_emit MultiOpaqueRect_header MultiOpaqueRect_body \<lparr>corder = MULTIOPAQUERECT, clip = cl\<rparr> (ch_common k) c (ch_MultiOpaqueRect k)
          in (bs, k\<lparr>ch_common := com, ch_MultiOpaqueRect := c\<rparr>))
     | CMultiPatBlt c \<Rightarrow>
         (let (bs, com) = order_emit MultiPatBlt_header MultiPatBlt_body \<lparr>corder = MULTIPATBLT, clip = cl\<rparr> (ch_common k) c (ch_MultiPatBlt k)
          in (bs, k\<lparr>ch_common := com, ch_MultiPatBlt := c\<rparr>))
     | CMultiScrBlt c \<Rightarrow>
         (let (bs, com) = order_emit MultiScrBlt_header MultiScrBlt_body \<lparr>corder = MULTISCRBLT, clip = cl\<rparr> (ch_common k) c (ch_MultiScrBlt k)
          in (bs, k\<lparr>ch_common := com, ch_MultiScrBlt := c\<rparr>))
     | CPatBlt c \<Rightarrow>
         (let (bs, com) = order_emit PatBlt_header PatBlt_body \<lparr>corder = PATBLT, clip = cl\<rparr> (ch_common k) c (ch_PatBlt k)
          in (bs, k\<lparr>ch_common := com, ch_PatBlt := c\<rparr>))
     | CScrBlt c \<Rightarrow>
         (let (bs, com) = order_emit ScrBlt_header ScrBlt_body \<lparr>corder = SCREENBLT, clip = cl\<rparr> (ch_common k) c (ch_ScrBlt k)
          in (bs, k\<lparr>ch_common := com, ch_ScrBlt := c\<rparr>))
     | COpaqueRect c \<Rightarrow>
         (let (bs, com) = order_emit OpaqueRect_header OpaqueRect_body \<lparr>corder = RECT, clip = cl\<rparr> (ch_common k) c (ch_OpaqueRect k)
          in (bs, k\<lparr>ch_common := com, ch_OpaqueRect := c\<rparr>))
     | CMemBlt c \<Rightarrow>
         (let (bs, com) = order_emit MemBlt_header MemBlt_body \<lparr>corder = MEMBLT, clip = cl\<rparr> (ch_common k) c (ch_MemBlt k)
          in (bs, k\<lparr>ch_common := com, ch_MemBlt := c\<rparr>))
     | CMem3Blt c \<Rightarrow>
         (let (bs, com) = order_emit Mem3Blt_header Mem3Blt_body \<lparr>corder = MEM3BLT, clip = cl\<rparr> (ch_common k) c (ch_Mem3Blt k)
          in (bs, k\<lparr>ch_common := com, ch_Mem3Blt := c\<rparr>))
     | CLineTo c \<Rightarrow>
         (let (bs, com) = order_emit LineTo_header LineTo_body \<lparr>corder = LINE, clip = cl\<rparr> (ch_common k) c (ch_LineTo k)
          in (bs, k\<lparr>ch_common := com, ch_LineTo := c\<rparr>))
     | CGlyphIndex c \<Rightarrow>
         (let (bs, com) = order_emit GlyphIndex_header GlyphIndex_body \<lparr>corder = GLYPHINDEX, clip = cl\<rparr> (ch_common k) c (ch_GlyphIndex k)
          in (bs, k\<lparr>ch_common := com, ch_GlyphIndex := c\<rparr>))
     | CPolyline c \<Rightarrow>
         (let (bs, com) = order_emit Polyline_header Polyline_body \<lparr>corder = POLYLINE, clip = cl\<rparr> (ch_common k) c (ch_Polyline k)
          in (bs, k\<lparr>ch_common := com, ch_Polyline := c\<rparr>))
     | CEllipseSC c \<Rightarrow>
         (let (bs, com) = order_emit EllipseSC_header EllipseSC_body \<lparr>corder = ELLIPSESC, clip = cl\<rparr> (ch_common k) c (ch_EllipseSC k)
          in (bs, k\<lparr>ch_common := com, ch_EllipseSC := c\<rparr>)))"

text \<open>The size each \<open>draw\<close> reserves before it emits.\<close>

definition reserve_size :: "cmd \<Rightarrow> nat" where
  "reserve_size cmd =
     (case cmd of
       CDstBlt c \<Rightarrow> 21
     | CMultiDstBlt c \<Rightarrow> 395 * 2
     | CMultiOpaqueRect c \<Rightarrow> 397 * 2
     | CMultiPatBlt c \<Rightarrow> 412 * 2
     | CMultiScrBlt c \<Rightarrow> 399 * 2
     | CPatBlt c \<Rightarrow> 29
     | CScrBlt c \<Rightarrow> 25
     | COpaqueRect c \<Rightarrow> 23
     | CMemBlt c \<Rightarrow> 30
     | CMem3Blt c \<Rightarrow> 60
     | CLineTo c \<Rightarrow> 32
     | CGlyphIndex c \<Rightarrow> 297
     | CPolyline c \<Rightarrow> 256
     | CEllipseSC c \<Rightarrow> 26)"

datatype pdu = OrdersPDU "u8 list" | BitmapsPDU nat "u8 list"

record serializer =
  s_chunk :: chunk
  s_orders :: "u8 list"
  s_capacity :: nat
  s_order_count :: nat
  s_bitmaps :: "u8 list"
  s_bitmap_count :: nat
  s_max_data_block_size :: nat
  s_max_request_size :: nat
  s_fastpath :: bool
  s_sent :: "pdu list"

abbreviation SERIALIZER_HEADER_SIZE :: nat where "SERIALIZER_HEADER_SIZE \<equiv> 106"
abbreviation MAX_ORDERS_SIZE :: nat where "MAX_ORDERS_SIZE \<equiv> 16384"

text \<open>The constructors of \<open>RDPSerializer\<close> and \<open>GraphicsUpdatePDU\<close>; the order buffer is \<open>65536 - 1024\<close> bytes.\<close>

definition mk_serializer :: "nat \<Rightarrow> bool \<Rightarrow> bool \<Rightarrow> nat \<Rightarrow> serializer" where
  "mk_serializer max_data_block_size limit fastpath max_request_size =
     \<lparr>s_chunk = initial_chunk, s_orders = [], s_capacity = 65536 - 1024, s_order_count = 0,
      s_bitmaps = [], s_bitmap_count = 0,
      s_max_data_block_size = (if limit then min max_data_block_size MAX_ORDERS_SIZE else max_data_block_size),
      s_max_request_size = max_request_size, s_fastpath = fastpath, s_sent = []\<rparr>"

text \<open>The payload of an orders update: fast-path, or a slow-path update (type, pads and count).\<close>

definition orders_payload :: "bool \<Rightarrow> nat \<Rightarrow> u8 list \<Rightarrow> u8 list" where
  "orders_payload fastpath count bs =
     (if fastpath then bytes_uint16_le (of_nat count) @ bs
      else bytes_uint16_le 0 @ [0, 0] @ bytes_uint16_le (of_nat count) @ [0, 0] @ bs)"

definition flush_orders :: "serializer \<Rightarrow> serializer" where
  "flush_orders st =
     (if s_order_count st > 0
      then st\<lparr>s_sent := s_sent st @ [OrdersPDU (orders_payload (s_fastpath st) (s_order_count st) (s_orders st))],
              s_order_count := 0, s_orders := []\<rparr>
      else st)"

definition flush_bitmaps :: "serializer \<Rightarrow> serializer" where
  "flush_bitmaps st =
     (if s_bitmap_count st > 0
      then st\<lparr>s_sent := s_sent st @ [BitmapsPDU (s_bitmap_count st) (s_bitmaps st)],
              s_bitmap_count := 0, s_bitmaps := []\<rparr>
      else st)"

definition sync :: "serializer \<Rightarrow> serializer" where
  "sync st = flush_orders (flush_bitmaps st)"

definition max_packet_size :: "serializer \<Rightarrow> nat" where
  "max_packet_size st = min (s_capacity st) (s_max_data_block_size st)"

definition reserve_order :: "nat \<Rightarrow> serializer \<Rightarrow> serializer res" where
  "reserve_order asked_size st =
     (let used_size = length (s_orders st) in
      if s_max_request_size st = 0 \<and> asked_size + SERIALIZER_HEADER_SIZE > max_packet_size st
      then Inl ERR_STREAM_MEMORY_TOO_SMALL
      else
        let st1 = (if s_bitmap_count st \<noteq> 0 then flush_bitmaps st else st);
            st2 = (if s_order_count st1 \<ge> 4096
                     \<or> used_size + asked_size + SERIALIZER_HEADER_SIZE > max_packet_size st
                   then flush_orders st1 else st1)
        in Inr (st2\<lparr>s_order_count := s_order_count st2 + 1\<rparr>))"

definition draw :: "cmd \<times> rect \<Rightarrow> serializer \<Rightarrow> serializer res" where
  "draw dc st =
     (let (cmd, cl) = dc in
      bindR (reserve_order (reserve_size cmd) st) (\<lambda>st.
      let (bs, k) = emit_cmd (s_chunk st) cl cmd in
      assertR (length (s_orders st) + length bs \<le> s_capacity st)
        (Inr (st\<lparr>s_orders := s_orders st @ bs, s_chunk := k\<rparr>))))"

fun draws :: "(cmd \<times> rect) list \<Rightarrow> serializer \<Rightarrow> serializer res" where
  "draws [] st = Inr st"
| "draws (dc # dcs) st = bindR (draw dc st) (draws dcs)"

subsection \<open>Receiving\<close>

text \<open>
  \<open>bmp_valid id idx\<close> says that \<open>bmp_cache->get(id, idx)\<close> is a valid bitmap; \<open>drawn\<close> is what
  \<open>gd.draw\<close> was called with, in order.
\<close>

record receiver =
  r_chunk :: chunk
  bmp_valid :: "u16 \<Rightarrow> u16 \<Rightarrow> bool"
  drawn :: "(cmd \<times> rect) list"

definition mk_receiver :: "(u16 \<Rightarrow> u16 \<Rightarrow> bool) \<Rightarrow> receiver" where
  "mk_receiver valid = \<lparr>r_chunk = initial_chunk, bmp_valid = valid, drawn = []\<rparr>"

definition receiver_reset :: "receiver \<Rightarrow> receiver" where
  "receiver_reset st = st\<lparr>r_chunk := reset_chunk (r_chunk st)\<rparr>"

text \<open>The \<open>switch\<close> on the order, after the common part was received into \<open>k\<close>.\<close>

definition receive_primary ::
  "header \<Rightarrow> chunk \<Rightarrow> instream \<Rightarrow> (cmd option \<times> chunk \<times> instream) res" where
  "receive_primary h k s =
     (let order = corder (ch_common k) in
      if order = DESTBLT then bindR (DstBlt_receive h (ch_DstBlt k) s) (\<lambda>(c, s).
        Inr (Some (CDstBlt c), k\<lparr>ch_DstBlt := c\<rparr>, s))
      else if order = MULTIDSTBLT then bindR (MultiDstBlt_receive h (ch_MultiDstBlt k) s) (\<lambda>(c, s).
        Inr (Some (CMultiDstBlt c), k\<lparr>ch_MultiDstBlt := c\<rparr>, s))
      else if order = MULTIOPAQUERECT then bindR (MultiOpaqueRect_receive h (ch_MultiOpaqueRect k) s) (\<lambda>(c, s).
        Inr (Some (CMultiOpaqueRect c), k\<lparr>ch_MultiOpaqueRect := c\<rparr>, s))
      else if order = MULTIPATBLT then bindR (MultiPatBlt_receive h (ch_MultiPatBlt k) s) (\<lambda>(c, s).
        Inr (Some (CMultiPatBlt c), k\<lparr>ch_MultiPatBlt := c\<rparr>, s))
      else if order = MULTISCRBLT then bindR (MultiScrBlt_receive h (ch_MultiScrBlt k) s) (\<lambda>(c, s).
        Inr (Some (CMultiScrBlt c), k\<lparr>ch_MultiScrBlt := c\<rparr>, s))
      else if order = PATBLT then bindR (PatBlt_receive h (ch_PatBlt k) s) (\<lambda>(c, s).
        Inr (Some (CPatBlt c), k\<lparr>ch_PatBlt := c\<rparr>, s))
      else if order = SCREENBLT then bindR (ScrBlt_receive h (ch_ScrBlt k) s) (\<lambda>(c, s).
        Inr (Some (CScrBlt c), k\<lparr>ch_ScrBlt := c\<rparr>, s))
      else if order = RECT then bindR (OpaqueRect_receive h (ch_OpaqueRect k) s) (\<lambda>(c, s).
        Inr (Some (COpaqueRect c), k\<lparr>ch_OpaqueRect := c\<rparr>, s))
      else if order = MEMBLT then bindR (MemBlt_receive h (ch_MemBlt k) s) (\<lambda>(c, s).
        Inr (Some (CMemBlt c), k\<lparr>ch_MemBlt := c\<rparr>, s))
      else if order = MEM3BLT then bindR (Mem3Blt_receive h (ch_Mem3Blt k) s) (\<lambda>(c, s).
        Inr (Some (CMem3Blt c), k\<lparr>ch_Mem3Blt := c\<rparr>, s))
      else if order = LINE then bindR (LineTo_receive h (ch_LineTo k) s) (\<lambda>(c, s).
        Inr (Some (CLineTo c), k\<lparr>ch_LineTo := c\<rparr>, s))
      else if order = GLYPHINDEX then bindR (GlyphIndex_receive h (ch_GlyphIndex k) s) (\<lambda>(c, s).
        Inr (Some (CGlyphIndex c), k\<lparr>ch_GlyphIndex := c\<rparr>, s))
      else if order = POLYLINE then bindR (Polyline_receive h (ch_Polyline k) s) (\<lambda>(c, s).
        Inr (Some (CPolyline c), k\<lparr>ch_Polyline := c\<rparr>, s))
      else if order = ELLIPSESC then bindR (EllipseSC_receive h (ch_EllipseSC k) s) (\<lambda>(c, s).
        Inr (Some (CEllipseSC c), k\<lparr>ch_EllipseSC := c\<rparr>, s))
      else Inr (None, k, s))"

text \<open>\<open>MEMBLT\<close> and \<open>MEM3BLT\<close> assert that the palette number and the bitmap exist.\<close>

definition bitmap_check :: "receiver \<Rightarrow> cmd \<Rightarrow> bool" where
  "bitmap_check st cmd =
     (case cmd of
        CMemBlt c \<Rightarrow> drop_bit 8 (m_cache_id c) < 6 \<and> bmp_valid st (m_cache_id c AND 0x3) (m_cache_idx c)
      | CMem3Blt c \<Rightarrow> drop_bit 8 (m3_cache_id c) < 6 \<and> bmp_valid st (m3_cache_id c AND 0x3) (m3_cache_idx c)
      | _ \<Rightarrow> True)"

definition process_primary ::
  "u16 \<Rightarrow> u16 \<Rightarrow> u8 \<Rightarrow> receiver \<Rightarrow> instream \<Rightarrow> (receiver \<times> instream) res" where
  "process_primary width height control_flags st s =
     bindR (common_receive (ch_common (r_chunk st)) control_flags s) (\<lambda>(h, com, s).
     let cmd_clip = (if has control_flags BOUNDS then clip com else mk_rect 0 0 width height) in
     bindR (receive_primary h ((r_chunk st)\<lparr>ch_common := com\<rparr>) s) (\<lambda>(oc, k, s).
     case oc of
       None \<Rightarrow> Inr (st\<lparr>r_chunk := k\<rparr>, s)
     | Some cmd \<Rightarrow> assertR (bitmap_check st cmd)
         (Inr (st\<lparr>r_chunk := k, drawn := drawn st @ [(cmd, cmd_clip)]\<rparr>, s))))"

text \<open>
  The dispatch loop. \<open>secondary\<close> and \<open>altsec\<close> are the handlers of the two other order classes
  (bitmap, glyph and palette caches; windowing), which this theory does not look into.
\<close>

type_synonym handler = "u8 \<Rightarrow> receiver \<Rightarrow> instream \<Rightarrow> (receiver \<times> instream) res"

fun process_loop ::
  "handler \<Rightarrow> handler \<Rightarrow> u16 \<Rightarrow> u16 \<Rightarrow> nat \<Rightarrow> receiver \<Rightarrow> instream \<Rightarrow> (receiver \<times> instream) res" where
  "process_loop secondary altsec width height 0 st s = Inr (st, s)"
| "process_loop secondary altsec width height (Suc n) st s =
     bindR (in_uint8 s) (\<lambda>(c, s).
     bindR (if has c STANDARD \<and> has c SECONDARY then secondary c st s
            else if has c SECONDARY then altsec c st s
            else if has c STANDARD then process_primary width height c st s
            else Inl UB) (\<lambda>(st, s).
     process_loop secondary altsec width height n st s))"

definition process_orders ::
  "handler \<Rightarrow> handler \<Rightarrow> bool \<Rightarrow> u16 \<Rightarrow> u16 \<Rightarrow> receiver \<Rightarrow> instream \<Rightarrow> (receiver \<times> instream) res" where
  "process_orders secondary altsec fast_path width height st s =
     bindR (if fast_path then in_uint16_le s
            else bindR (in_skip_bytes 2 s) (\<lambda>(_, s).
                 bindR (in_uint16_le s) (\<lambda>(n, s).
                 bindR (in_skip_bytes 2 s) (\<lambda>(_, s). Inr (n, s))))) (\<lambda>(n, s).
     process_loop secondary altsec width height (unat n) st s)"

subsection \<open>One order\<close>

text \<open>An order the wire format can carry, given the bitmaps the receiver holds.\<close>

definition cmd_ok :: "(u16 \<Rightarrow> u16 \<Rightarrow> bool) \<Rightarrow> cmd \<Rightarrow> bool" where
  "cmd_ok valid cmd =
     (case cmd of
       CDstBlt c \<Rightarrow> True
     | CMultiDstBlt c \<Rightarrow> MultiDstBlt_ok c
     | CMultiOpaqueRect c \<Rightarrow> MultiOpaqueRect_ok c
     | CMultiPatBlt c \<Rightarrow> MultiPatBlt_ok c
     | CMultiScrBlt c \<Rightarrow> MultiScrBlt_ok c
     | CPatBlt c \<Rightarrow> PatBlt_ok c
     | CScrBlt c \<Rightarrow> True
     | COpaqueRect c \<Rightarrow> color_ok (o_color c)
     | CMemBlt c \<Rightarrow> drop_bit 8 (m_cache_id c) < 6 \<and> valid (m_cache_id c AND 0x3) (m_cache_idx c)
     | CMem3Blt c \<Rightarrow> Mem3Blt_ok c \<and> drop_bit 8 (m3_cache_id c) < 6 \<and> valid (m3_cache_id c AND 0x3) (m3_cache_idx c)
     | CLineTo c \<Rightarrow> LineTo_ok c
     | CGlyphIndex c \<Rightarrow> GlyphIndex_ok c
     | CPolyline c \<Rightarrow> Polyline_ok c
     | CEllipseSC c \<Rightarrow> color_ok (e_color c))"

text \<open>The same drawing: equal up to the unused entries of the arrays.\<close>

definition cmd_same :: "cmd \<Rightarrow> cmd \<Rightarrow> bool" where
  "cmd_same c1 c2 \<longleftrightarrow>
     (case c1 of
       CMultiDstBlt c \<Rightarrow> (case c2 of CMultiDstBlt c' \<Rightarrow> MultiDstBlt_same c c' | _ \<Rightarrow> False)
     | CMultiOpaqueRect c \<Rightarrow> (case c2 of CMultiOpaqueRect c' \<Rightarrow> MultiOpaqueRect_same c c' | _ \<Rightarrow> False)
     | CMultiPatBlt c \<Rightarrow> (case c2 of CMultiPatBlt c' \<Rightarrow> MultiPatBlt_same c c' | _ \<Rightarrow> False)
     | CMultiScrBlt c \<Rightarrow> (case c2 of CMultiScrBlt c' \<Rightarrow> MultiScrBlt_same c c' | _ \<Rightarrow> False)
     | CGlyphIndex c \<Rightarrow> (case c2 of CGlyphIndex c' \<Rightarrow> GlyphIndex_same c c' | _ \<Rightarrow> False)
     | CPolyline c \<Rightarrow> (case c2 of CPolyline c' \<Rightarrow> Polyline_same c c' | _ \<Rightarrow> False)
     | _ \<Rightarrow> c2 = c1)"

text \<open>The sender transmits its clip exactly when the drawing leaves it.\<close>

definition needs_clip :: "rect \<Rightarrow> cmd \<Rightarrow> bool" where
  "needs_clip cl cmd =
     (case cmd of
       CDstBlt c \<Rightarrow> \<not> contains cl (d_rect c)
     | CMultiDstBlt c \<Rightarrow> \<not> contains cl (mk_rect 0 0 0 0) \<or> some_outside cl 0 0 (take (unat (md_n c)) (md_deltas c))
     | CMultiOpaqueRect c \<Rightarrow> \<not> contains cl (mk_rect 0 0 0 0) \<or> some_outside cl 0 0 (take (unat (mo_n c)) (mo_deltas c))
     | CMultiPatBlt c \<Rightarrow> \<not> contains cl (mp_rect c)
     | CMultiScrBlt c \<Rightarrow> \<not> contains cl (ms_rect c)
     | CPatBlt c \<Rightarrow> \<not> contains cl (pb_rect c)
     | CScrBlt c \<Rightarrow> \<not> contains cl (sb_rect c)
     | COpaqueRect c \<Rightarrow> \<not> contains cl (o_rect c)
     | CMemBlt c \<Rightarrow> \<not> contains cl (m_rect c)
     | CMem3Blt c \<Rightarrow> \<not> contains cl (m3_rect c)
     | CLineTo c \<Rightarrow> \<not> (contains_pt cl (l_startx c) (l_starty c) \<and> contains_pt cl (l_endx c) (l_endy c))
     | CGlyphIndex c \<Rightarrow> \<not> contains cl (g_bk c) \<or> (uint (rcx (g_op c)) > 1 \<and> \<not> contains cl (g_op c))
     | CPolyline c \<Rightarrow> \<not> contains_pt cl (pl_xStart c) (pl_yStart c)
       \<or> point_outside cl (pl_xStart c) (pl_yStart c) (take (unat (pl_n c)) (pl_points c))
     | CEllipseSC c \<Rightarrow> \<not> contains cl (ellipse_rect (e_el c)))"

definition received_clip :: "u16 \<Rightarrow> u16 \<Rightarrow> rect \<Rightarrow> cmd \<Rightarrow> rect" where
  "received_clip width height cl cmd = (if needs_clip cl cmd then cl else mk_rect 0 0 width height)"

text \<open>Histories in step.\<close>

definition synced :: "chunk \<Rightarrow> chunk \<Rightarrow> bool" where
  "synced k k' \<longleftrightarrow> ch_common k' = ch_common k
     \<and> cmd_same (CDstBlt (ch_DstBlt k)) (CDstBlt (ch_DstBlt k'))
     \<and> cmd_same (CMultiDstBlt (ch_MultiDstBlt k)) (CMultiDstBlt (ch_MultiDstBlt k'))
     \<and> cmd_same (CMultiOpaqueRect (ch_MultiOpaqueRect k)) (CMultiOpaqueRect (ch_MultiOpaqueRect k'))
     \<and> cmd_same (CMultiPatBlt (ch_MultiPatBlt k)) (CMultiPatBlt (ch_MultiPatBlt k'))
     \<and> cmd_same (CMultiScrBlt (ch_MultiScrBlt k)) (CMultiScrBlt (ch_MultiScrBlt k'))
     \<and> cmd_same (CPatBlt (ch_PatBlt k)) (CPatBlt (ch_PatBlt k'))
     \<and> cmd_same (CScrBlt (ch_ScrBlt k)) (CScrBlt (ch_ScrBlt k'))
     \<and> cmd_same (COpaqueRect (ch_OpaqueRect k)) (COpaqueRect (ch_OpaqueRect k'))
     \<and> cmd_same (CMemBlt (ch_MemBlt k)) (CMemBlt (ch_MemBlt k'))
     \<and> cmd_same (CMem3Blt (ch_Mem3Blt k)) (CMem3Blt (ch_Mem3Blt k'))
     \<and> cmd_same (CLineTo (ch_LineTo k)) (CLineTo (ch_LineTo k'))
     \<and> cmd_same (CGlyphIndex (ch_GlyphIndex k)) (CGlyphIndex (ch_GlyphIndex k'))
     \<and> cmd_same (CPolyline (ch_Polyline k)) (CPolyline (ch_Polyline k'))
     \<and> cmd_same (CEllipseSC (ch_EllipseSC k)) (CEllipseSC (ch_EllipseSC k'))"

subsection \<open>What a history slot owes the histories\<close>

locale history = primary_order oid prepare body rcv ok same
  for oid :: u8 and prepare :: "rect \<Rightarrow> 'cmd \<Rightarrow> 'cmd \<Rightarrow> header"
    and body :: "header \<Rightarrow> 'cmd \<Rightarrow> 'cmd \<Rightarrow> u8 list"
    and rcv :: "header \<Rightarrow> 'cmd \<Rightarrow> instream \<Rightarrow> ('cmd \<times> instream) res"
    and ok :: "'cmd \<Rightarrow> bool" and same :: "'cmd \<Rightarrow> 'cmd \<Rightarrow> bool" +
  fixes ctor :: "'cmd \<Rightarrow> cmd"
    and get :: "chunk \<Rightarrow> 'cmd"
    and put :: "'cmd \<Rightarrow> chunk \<Rightarrow> chunk"
  assumes emit_ctor: "emit_cmd k cl (ctor c) =
      (let (bs, com) = order_emit prepare body \<lparr>corder = oid, clip = cl\<rparr> (ch_common k) c (get k)
       in (bs, put c (k\<lparr>ch_common := com\<rparr>)))"
    and receive_ctor: "corder (ch_common k) = oid \<Longrightarrow> receive_primary h k s =
      bindR (rcv h (get k) s) (\<lambda>(c, s). Inr (Some (ctor c), put c k, s))"
    and get_common: "get (k\<lparr>ch_common := com\<rparr>) = get k"
    and synced_get: "synced k k' \<Longrightarrow> same (get k) (get k')"
    and synced_put: "synced k k' \<Longrightarrow> same c c' \<Longrightarrow>
      synced (put c (k\<lparr>ch_common := com\<rparr>)) (put c' (k'\<lparr>ch_common := com\<rparr>))"
    and ctor_ok: "cmd_ok valid (ctor c) \<Longrightarrow> ok c"
    and ctor_same: "same c c' \<Longrightarrow> cmd_same (ctor c) (ctor c')"
    and ctor_clip: "needs_clip cl (ctor c) \<longleftrightarrow> has (control (prepare cl c old)) BOUNDS"
    and ctor_bitmap: "cmd_ok (bmp_valid st) (ctor c) \<Longrightarrow> same c c' \<Longrightarrow> bitmap_check st (ctor c')"
begin

lemma step:
  assumes e: "emit_cmd k cl (ctor c) = (bs, k2)" and ok: "cmd_ok (bmp_valid st) (ctor c)"
    and sy: "synced k (r_chunk st)"
  shows "\<exists>ctl rest c' k2'. bs = ctl # rest \<and> has ctl STANDARD \<and> \<not> has ctl SECONDARY
    \<and> process_primary w h ctl st (InStream (cs @ [ctl]) (rest @ r))
      = Inr (st\<lparr>r_chunk := k2', drawn := drawn st @ [(ctor c', received_clip w h cl (ctor c))]\<rparr>, InStream (cs @ bs) r)
    \<and> cmd_same (ctor c) (ctor c') \<and> synced k2 k2'"
proof -
  let ?k' = "r_chunk st"
  obtain com' where oe: "order_emit prepare body \<lparr>corder = oid, clip = cl\<rparr> (ch_common k) c (get k) = (bs, com')"
    and k2: "k2 = put c (k\<lparr>ch_common := com'\<rparr>)"
    using e by (auto simp: emit_ctor split: prod.splits)
  have com: "ch_common ?k' = ch_common k" using sy by (simp add: synced_def)
  obtain ctl rest hd s2 c' where s: "bs = ctl # rest" "has ctl STANDARD" "\<not> has ctl SECONDARY"
    "has ctl BOUNDS \<longleftrightarrow> has (control (prepare cl c (get k))) BOUNDS"
    "common_receive (ch_common k) ctl (InStream (cs @ [ctl]) (rest @ r)) = Inr (hd, com', s2)"
    "rcv hd (get ?k') s2 = Inr (c', InStream (cs @ bs) r)" "same c c'" "corder com' = oid"
    "clip com' = (if has ctl BOUNDS then cl else clip (ch_common k))"
    by (rule emit_steps [OF oe _ ctor_ok [OF ok] synced_get [OF sy], of cs r]) auto
  have "receive_primary hd (?k'\<lparr>ch_common := com'\<rparr>) s2
      = Inr (Some (ctor c'), put c' (?k'\<lparr>ch_common := com'\<rparr>), InStream (cs @ bs) r)"
    using s(6,8) by (simp add: receive_ctor get_common)
  moreover have "bitmap_check st (ctor c')" using ctor_bitmap [OF ok s(7)] .
  moreover have "(if has ctl BOUNDS then clip com' else mk_rect 0 0 w h) = received_clip w h cl (ctor c)"
    using s(4,9) by (simp add: received_clip_def ctor_clip [of cl c "get k"])
  ultimately have "process_primary w h ctl st (InStream (cs @ [ctl]) (rest @ r))
      = Inr (st\<lparr>r_chunk := put c' (?k'\<lparr>ch_common := com'\<rparr>),
                drawn := drawn st @ [(ctor c', received_clip w h cl (ctor c))]\<rparr>, InStream (cs @ bs) r)"
    using s(5) unfolding process_primary_def com by (simp add: Let_def)
  then show ?thesis
    using s(1,2,3) ctor_same [OF s(7)] synced_put [OF sy s(7), of com'] unfolding k2 by blast
qed

end

lemmas history_simps = emit_cmd_def receive_primary_def Let_def synced_def cmd_ok_def cmd_same_def
  needs_clip_def bitmap_check_def
  DstBlt_header_def OpaqueRect_header_def ScrBlt_header_def MemBlt_header_def Mem3Blt_header_def PatBlt_header_def
  LineTo_header_def EllipseSC_header_def GlyphIndex_header_def MultiDstBlt_header_def MultiOpaqueRect_header_def
  MultiPatBlt_header_def MultiScrBlt_header_def Polyline_header_def flag_simps

interpretation DstBlt_slot: history DESTBLT DstBlt_header DstBlt_body DstBlt_receive "\<lambda>_. True" "(=)"
  CDstBlt ch_DstBlt "\<lambda>c k. k\<lparr>ch_DstBlt := c\<rparr>"
  by unfold_locales (auto simp: history_simps split: prod.splits)

interpretation MultiDstBlt_slot: history MULTIDSTBLT MultiDstBlt_header MultiDstBlt_body MultiDstBlt_receive MultiDstBlt_ok MultiDstBlt_same
  CMultiDstBlt ch_MultiDstBlt "\<lambda>c k. k\<lparr>ch_MultiDstBlt := c\<rparr>"
  by unfold_locales (auto simp: history_simps split: prod.splits)

interpretation MultiOpaqueRect_slot: history MULTIOPAQUERECT MultiOpaqueRect_header MultiOpaqueRect_body MultiOpaqueRect_receive MultiOpaqueRect_ok MultiOpaqueRect_same
  CMultiOpaqueRect ch_MultiOpaqueRect "\<lambda>c k. k\<lparr>ch_MultiOpaqueRect := c\<rparr>"
  by unfold_locales (auto simp: history_simps split: prod.splits)

interpretation MultiPatBlt_slot: history MULTIPATBLT MultiPatBlt_header MultiPatBlt_body MultiPatBlt_receive MultiPatBlt_ok MultiPatBlt_same
  CMultiPatBlt ch_MultiPatBlt "\<lambda>c k. k\<lparr>ch_MultiPatBlt := c\<rparr>"
  by unfold_locales (auto simp: history_simps split: prod.splits)

interpretation MultiScrBlt_slot: history MULTISCRBLT MultiScrBlt_header MultiScrBlt_body MultiScrBlt_receive MultiScrBlt_ok MultiScrBlt_same
  CMultiScrBlt ch_MultiScrBlt "\<lambda>c k. k\<lparr>ch_MultiScrBlt := c\<rparr>"
  by unfold_locales (auto simp: history_simps split: prod.splits)

interpretation PatBlt_slot: history PATBLT PatBlt_header PatBlt_body PatBlt_receive PatBlt_ok "(=)"
  CPatBlt ch_PatBlt "\<lambda>c k. k\<lparr>ch_PatBlt := c\<rparr>"
  by unfold_locales (auto simp: history_simps split: prod.splits)

interpretation ScrBlt_slot: history SCREENBLT ScrBlt_header ScrBlt_body ScrBlt_receive "\<lambda>_. True" "(=)"
  CScrBlt ch_ScrBlt "\<lambda>c k. k\<lparr>ch_ScrBlt := c\<rparr>"
  by unfold_locales (auto simp: history_simps split: prod.splits)

interpretation OpaqueRect_slot: history RECT OpaqueRect_header OpaqueRect_body OpaqueRect_receive "\<lambda>cmd. color_ok (o_color cmd)" "(=)"
  COpaqueRect ch_OpaqueRect "\<lambda>c k. k\<lparr>ch_OpaqueRect := c\<rparr>"
  by unfold_locales (auto simp: history_simps split: prod.splits)

interpretation MemBlt_slot: history MEMBLT MemBlt_header MemBlt_body MemBlt_receive "\<lambda>_. True" "(=)"
  CMemBlt ch_MemBlt "\<lambda>c k. k\<lparr>ch_MemBlt := c\<rparr>"
  by unfold_locales (auto simp: history_simps split: prod.splits)

interpretation Mem3Blt_slot: history MEM3BLT Mem3Blt_header Mem3Blt_body Mem3Blt_receive Mem3Blt_ok "(=)"
  CMem3Blt ch_Mem3Blt "\<lambda>c k. k\<lparr>ch_Mem3Blt := c\<rparr>"
  by unfold_locales (auto simp: history_simps split: prod.splits)

interpretation LineTo_slot: history LINE LineTo_header LineTo_body LineTo_receive LineTo_ok "(=)"
  CLineTo ch_LineTo "\<lambda>c k. k\<lparr>ch_LineTo := c\<rparr>"
  by unfold_locales (auto simp: history_simps split: prod.splits)

interpretation GlyphIndex_slot: history GLYPHINDEX GlyphIndex_header GlyphIndex_body GlyphIndex_receive GlyphIndex_ok GlyphIndex_same
  CGlyphIndex ch_GlyphIndex "\<lambda>c k. k\<lparr>ch_GlyphIndex := c\<rparr>"
  by unfold_locales (auto simp: history_simps split: prod.splits)

interpretation Polyline_slot: history POLYLINE Polyline_header Polyline_body Polyline_receive Polyline_ok Polyline_same
  CPolyline ch_Polyline "\<lambda>c k. k\<lparr>ch_Polyline := c\<rparr>"
  by unfold_locales (auto simp: history_simps split: prod.splits)

interpretation EllipseSC_slot: history ELLIPSESC EllipseSC_header EllipseSC_body EllipseSC_receive "\<lambda>cmd. color_ok (e_color cmd)" "(=)"
  CEllipseSC ch_EllipseSC "\<lambda>c k. k\<lparr>ch_EllipseSC := c\<rparr>"
  by unfold_locales (auto simp: history_simps split: prod.splits)

lemmas slot_steps = DstBlt_slot.step
  MultiDstBlt_slot.step
  MultiOpaqueRect_slot.step
  MultiPatBlt_slot.step
  MultiScrBlt_slot.step
  PatBlt_slot.step
  ScrBlt_slot.step
  OpaqueRect_slot.step
  MemBlt_slot.step
  Mem3Blt_slot.step
  LineTo_slot.step
  GlyphIndex_slot.step
  Polyline_slot.step
  EllipseSC_slot.step

lemma process_step:
  assumes "emit_cmd k cl cmd = (bs, k2)" "cmd_ok (bmp_valid st) cmd" "synced k (r_chunk st)"
  shows "\<exists>ctl rest cmd' k2'. bs = ctl # rest \<and> has ctl STANDARD \<and> \<not> has ctl SECONDARY
    \<and> process_primary w h ctl st (InStream (cs @ [ctl]) (rest @ r))
      = Inr (st\<lparr>r_chunk := k2', drawn := drawn st @ [(cmd', received_clip w h cl cmd)]\<rparr>, InStream (cs @ bs) r)
    \<and> cmd_same cmd cmd' \<and> synced k2 k2'"
  by (cases cmd; use assms slot_steps [of k cl _ bs k2 st w h cs r] in metis)

end
