(* ===== verification/Order_Link.thy ===== *)
theory Order_Link
  imports Order_Sync
begin

text \<open>
  Sizes of the emitted orders against the sizes \<open>RDPSerializer\<close> reserves, and the whole link: any
  sequence of drawings, cut into updates by \<open>reserve_order\<close> and \<open>flush_orders\<close>, decodes to the same
  drawings in the same order.
\<close>

subsection \<open>Sizes of the field bytes\<close>

lemma app_bound: "length a \<le> m \<Longrightarrow> length b \<le> n \<Longrightarrow> length (a @ b) \<le> m + n"
  by simp

lemma opt_bound:
  "length (opt b (bytes_uint8 v)) \<le> 1" "length (opt b (bytes_uint16_le w)) \<le> 2"
  "length (opt b (emit_rdp_color c)) \<le> 3"
  by (simp_all add: opt_def)

lemma opt_deltas_bound:
  assumes "deltas_ok n ds"
  shows "length (opt b (emit_delta_rects (take (unat n) ds))) \<le> 385"
proof -
  have n: "unat n \<le> 45" using assms by (simp add: deltas_ok_def)
  then have "(unat n + 1) div 2 \<le> 23" by linarith
  then show ?thesis
    using length_emit_delta_rects [of "take (unat n) ds"] assms n by (simp add: opt_def deltas_ok_def)
qed

lemma opt_points_bound:
  assumes "points_sendable es"
  shows "length (opt b (emit_delta_points es)) \<le> 256"
  using assms by (simp add: opt_def emit_delta_points_def points_sendable_def)

lemma edges_bound: "length (emit_edges h base r) \<le> 8"
  by (simp add: emit_edges_def opt_def)

lemma opt_data_bound: "length (opt b (bytes_uint8 n @ take (unat n) d)) \<le> 256"
  using unat8_less [of n] by (auto simp: opt_def)

lemmas field_bounds = length_emit_rect length_emit_coord length_emit_src length_emit_pen length_emit_brush
  opt_bound opt_deltas_bound opt_points_bound edges_bound opt_data_bound

lemma DstBlt_body_bound: "length (DstBlt_body h c old) \<le> 9"
  unfolding DstBlt_body_def by (rule order_trans, (rule app_bound field_bounds | assumption | erule conjE)+, simp)

lemma MultiDstBlt_body_bound: "MultiDstBlt_ok c \<Longrightarrow> length (MultiDstBlt_body h c old) \<le> 395"
  unfolding MultiDstBlt_body_def MultiDstBlt_ok_def by (rule order_trans, (rule app_bound field_bounds | assumption | erule conjE)+, simp)

lemma MultiOpaqueRect_body_bound: "MultiOpaqueRect_ok c \<Longrightarrow> length (MultiOpaqueRect_body h c old) \<le> 397"
  unfolding MultiOpaqueRect_body_def MultiOpaqueRect_ok_def by (rule order_trans, (rule app_bound field_bounds | assumption | erule conjE)+, simp)

lemma MultiPatBlt_body_bound: "MultiPatBlt_ok c \<Longrightarrow> length (MultiPatBlt_body h c old) \<le> 412"
  unfolding MultiPatBlt_body_def MultiPatBlt_ok_def by (rule order_trans, (rule app_bound field_bounds | assumption | erule conjE)+, simp)

lemma MultiScrBlt_body_bound: "MultiScrBlt_ok c \<Longrightarrow> length (MultiScrBlt_body h c old) \<le> 399"
  unfolding MultiScrBlt_body_def MultiScrBlt_ok_def by (rule order_trans, (rule app_bound field_bounds | assumption | erule conjE)+, simp)

lemma PatBlt_body_bound: "PatBlt_ok c \<Longrightarrow> length (PatBlt_body h c old) \<le> 26"
  unfolding PatBlt_body_def PatBlt_ok_def by (rule order_trans, (rule app_bound field_bounds | assumption | erule conjE)+, simp)

lemma ScrBlt_body_bound: "length (ScrBlt_body h c old) \<le> 13"
  unfolding ScrBlt_body_def by (rule order_trans, (rule app_bound field_bounds | assumption | erule conjE)+, simp)

lemma OpaqueRect_body_bound: "length (OpaqueRect_body h c old) \<le> 11"
  unfolding OpaqueRect_body_def by (rule order_trans, (rule app_bound field_bounds | assumption | erule conjE)+, simp)

lemma MemBlt_body_bound: "length (MemBlt_body h c old) \<le> 17"
  unfolding MemBlt_body_def by (rule order_trans, (rule app_bound field_bounds | assumption | erule conjE)+, simp)

lemma Mem3Blt_body_bound: "Mem3Blt_ok c \<Longrightarrow> length (Mem3Blt_body h c old) \<le> 34"
  unfolding Mem3Blt_body_def Mem3Blt_ok_def by (rule order_trans, (rule app_bound field_bounds | assumption | erule conjE)+, simp)

lemma LineTo_body_bound: "length (LineTo_body h c old) \<le> 19"
  unfolding LineTo_body_def by (rule order_trans, (rule app_bound field_bounds | assumption | erule conjE)+, simp)

lemma GlyphIndex_body_bound: "GlyphIndex_ok c \<Longrightarrow> length (GlyphIndex_body h c old) \<le> 297"
  unfolding GlyphIndex_body_def GlyphIndex_ok_def by (rule order_trans, (rule app_bound field_bounds | assumption | erule conjE)+, simp)

lemma Polyline_body_bound: "Polyline_ok c \<Longrightarrow> length (Polyline_body h c old) \<le> 267"
  unfolding Polyline_body_def Polyline_ok_def by (rule order_trans, (rule app_bound field_bounds | assumption | erule conjE)+, simp)

lemma EllipseSC_body_bound: "length (EllipseSC_body h c old) \<le> 13"
  unfolding EllipseSC_body_def by (rule order_trans, (rule app_bound field_bounds | assumption | erule conjE)+, simp)

subsection \<open>Emitted sizes\<close>

text \<open>The most bytes an order takes on the wire, common part included.\<close>

definition wire_bound :: "cmd \<Rightarrow> nat" where
  "wire_bound cmd =
     (case cmd of CPatBlt c \<Rightarrow> 39 | CGlyphIndex c \<Rightarrow> 311 | CPolyline c \<Rightarrow> 279 | _ \<Rightarrow> reserve_size cmd)"

lemma wire_bound_slack: "wire_bound cmd \<le> reserve_size cmd + 23"
  by (cases cmd) (simp_all add: wire_bound_def reserve_size_def)

lemma emit_cmd_length:
  assumes "emit_cmd k cl cmd = (bs, k2)" "cmd_ok valid cmd"
  shows "length bs \<le> wire_bound cmd"
proof (cases cmd)
  case (CDstBlt c)
  then obtain com where oe: "order_emit DstBlt_header DstBlt_body \<lparr>corder = DESTBLT, clip = cl\<rparr> (ch_common k) c (ch_DstBlt k) = (bs, com)"
    using assms(1) by (auto simp: emit_cmd_def split: prod.splits)
  show ?thesis
    using DstBlt.emit_length [OF oe _ DstBlt_body_bound] assms(2) CDstBlt by (simp add: order_size_def wire_bound_def reserve_size_def cmd_ok_def)
next
  case (CMultiDstBlt c)
  then obtain com where oe: "order_emit MultiDstBlt_header MultiDstBlt_body \<lparr>corder = MULTIDSTBLT, clip = cl\<rparr> (ch_common k) c (ch_MultiDstBlt k) = (bs, com)"
    using assms(1) by (auto simp: emit_cmd_def split: prod.splits)
  show ?thesis
    using MultiDstBlt.emit_length [OF oe _ MultiDstBlt_body_bound] assms(2) CMultiDstBlt by (simp add: order_size_def wire_bound_def reserve_size_def cmd_ok_def)
next
  case (CMultiOpaqueRect c)
  then obtain com where oe: "order_emit MultiOpaqueRect_header MultiOpaqueRect_body \<lparr>corder = MULTIOPAQUERECT, clip = cl\<rparr> (ch_common k) c (ch_MultiOpaqueRect k) = (bs, com)"
    using assms(1) by (auto simp: emit_cmd_def split: prod.splits)
  show ?thesis
    using MultiOpaqueRect.emit_length [OF oe _ MultiOpaqueRect_body_bound] assms(2) CMultiOpaqueRect by (simp add: order_size_def wire_bound_def reserve_size_def cmd_ok_def)
next
  case (CMultiPatBlt c)
  then obtain com where oe: "order_emit MultiPatBlt_header MultiPatBlt_body \<lparr>corder = MULTIPATBLT, clip = cl\<rparr> (ch_common k) c (ch_MultiPatBlt k) = (bs, com)"
    using assms(1) by (auto simp: emit_cmd_def split: prod.splits)
  show ?thesis
    using MultiPatBlt.emit_length [OF oe _ MultiPatBlt_body_bound] assms(2) CMultiPatBlt by (simp add: order_size_def wire_bound_def reserve_size_def cmd_ok_def)
next
  case (CMultiScrBlt c)
  then obtain com where oe: "order_emit MultiScrBlt_header MultiScrBlt_body \<lparr>corder = MULTISCRBLT, clip = cl\<rparr> (ch_common k) c (ch_MultiScrBlt k) = (bs, com)"
    using assms(1) by (auto simp: emit_cmd_def split: prod.splits)
  show ?thesis
    using MultiScrBlt.emit_length [OF oe _ MultiScrBlt_body_bound] assms(2) CMultiScrBlt by (simp add: order_size_def wire_bound_def reserve_size_def cmd_ok_def)
next
  case (CPatBlt c)
  then obtain com where oe: "order_emit PatBlt_header PatBlt_body \<lparr>corder = PATBLT, clip = cl\<rparr> (ch_common k) c (ch_PatBlt k) = (bs, com)"
    using assms(1) by (auto simp: emit_cmd_def split: prod.splits)
  show ?thesis
    using PatBlt.emit_length [OF oe _ PatBlt_body_bound] assms(2) CPatBlt by (simp add: order_size_def wire_bound_def reserve_size_def cmd_ok_def)
next
  case (CScrBlt c)
  then obtain com where oe: "order_emit ScrBlt_header ScrBlt_body \<lparr>corder = SCREENBLT, clip = cl\<rparr> (ch_common k) c (ch_ScrBlt k) = (bs, com)"
    using assms(1) by (auto simp: emit_cmd_def split: prod.splits)
  show ?thesis
    using ScrBlt.emit_length [OF oe _ ScrBlt_body_bound] assms(2) CScrBlt by (simp add: order_size_def wire_bound_def reserve_size_def cmd_ok_def)
next
  case (COpaqueRect c)
  then obtain com where oe: "order_emit OpaqueRect_header OpaqueRect_body \<lparr>corder = RECT, clip = cl\<rparr> (ch_common k) c (ch_OpaqueRect k) = (bs, com)"
    using assms(1) by (auto simp: emit_cmd_def split: prod.splits)
  show ?thesis
    using OpaqueRect.emit_length [OF oe _ OpaqueRect_body_bound] assms(2) COpaqueRect by (simp add: order_size_def wire_bound_def reserve_size_def cmd_ok_def)
next
  case (CMemBlt c)
  then obtain com where oe: "order_emit MemBlt_header MemBlt_body \<lparr>corder = MEMBLT, clip = cl\<rparr> (ch_common k) c (ch_MemBlt k) = (bs, com)"
    using assms(1) by (auto simp: emit_cmd_def split: prod.splits)
  show ?thesis
    using MemBlt.emit_length [OF oe _ MemBlt_body_bound] assms(2) CMemBlt by (simp add: order_size_def wire_bound_def reserve_size_def cmd_ok_def)
next
  case (CMem3Blt c)
  then obtain com where oe: "order_emit Mem3Blt_header Mem3Blt_body \<lparr>corder = MEM3BLT, clip = cl\<rparr> (ch_common k) c (ch_Mem3Blt k) = (bs, com)"
    using assms(1) by (auto simp: emit_cmd_def split: prod.splits)
  show ?thesis
    using Mem3Blt.emit_length [OF oe _ Mem3Blt_body_bound] assms(2) CMem3Blt by (simp add: order_size_def wire_bound_def reserve_size_def cmd_ok_def)
next
  case (CLineTo c)
  then obtain com where oe: "order_emit LineTo_header LineTo_body \<lparr>corder = LINE, clip = cl\<rparr> (ch_common k) c (ch_LineTo k) = (bs, com)"
    using assms(1) by (auto simp: emit_cmd_def split: prod.splits)
  show ?thesis
    using LineTo.emit_length [OF oe _ LineTo_body_bound] assms(2) CLineTo by (simp add: order_size_def wire_bound_def reserve_size_def cmd_ok_def)
next
  case (CGlyphIndex c)
  then obtain com where oe: "order_emit GlyphIndex_header GlyphIndex_body \<lparr>corder = GLYPHINDEX, clip = cl\<rparr> (ch_common k) c (ch_GlyphIndex k) = (bs, com)"
    using assms(1) by (auto simp: emit_cmd_def split: prod.splits)
  show ?thesis
    using GlyphIndex.emit_length [OF oe _ GlyphIndex_body_bound] assms(2) CGlyphIndex by (simp add: order_size_def wire_bound_def reserve_size_def cmd_ok_def)
next
  case (CPolyline c)
  then obtain com where oe: "order_emit Polyline_header Polyline_body \<lparr>corder = POLYLINE, clip = cl\<rparr> (ch_common k) c (ch_Polyline k) = (bs, com)"
    using assms(1) by (auto simp: emit_cmd_def split: prod.splits)
  show ?thesis
    using Polyline.emit_length [OF oe _ Polyline_body_bound] assms(2) CPolyline by (simp add: order_size_def wire_bound_def reserve_size_def cmd_ok_def)
next
  case (CEllipseSC c)
  then obtain com where oe: "order_emit EllipseSC_header EllipseSC_body \<lparr>corder = ELLIPSESC, clip = cl\<rparr> (ch_common k) c (ch_EllipseSC k) = (bs, com)"
    using assms(1) by (auto simp: emit_cmd_def split: prod.splits)
  show ?thesis
    using EllipseSC.emit_length [OF oe _ EllipseSC_body_bound] assms(2) CEllipseSC by (simp add: order_size_def wire_bound_def reserve_size_def cmd_ok_def)
qed

subsection \<open>A batch of orders\<close>

fun emits :: "chunk \<Rightarrow> (cmd \<times> rect) list \<Rightarrow> u8 list \<times> chunk" where
  "emits k [] = ([], k)"
| "emits k (dc # dcs) =
     (let (bs, k1) = emit_cmd k (snd dc) (fst dc); (bs', k2) = emits k1 dcs in (bs @ bs', k2))"

text \<open>What a drawing request looks like when the receiver draws it.\<close>

definition shows_as :: "u16 \<Rightarrow> u16 \<Rightarrow> cmd \<times> rect \<Rightarrow> cmd \<times> rect \<Rightarrow> bool" where
  "shows_as width height dc dc' \<longleftrightarrow> cmd_same (fst dc) (fst dc')
     \<and> snd dc' = received_clip width height (snd dc) (fst dc)"

lemma emits_snoc:
  assumes "emits k dcs = (bs, k1)" "emit_cmd k1 cl cmd = (bs', k2)"
  shows "emits k (dcs @ [(cmd, cl)]) = (bs @ bs', k2)"
  using assms
proof (induction dcs arbitrary: k bs)
  case Nil
  then show ?case by simp
next
  case (Cons dc dcs)
  obtain b k' where e: "emit_cmd k (snd dc) (fst dc) = (b, k')" by (cases "emit_cmd k (snd dc) (fst dc)") auto
  obtain b2 where e2: "emits k' dcs = (b2, k1)" and bs: "bs = b @ b2"
    using Cons.prems(1) e by (auto split: prod.splits)
  from Cons.IH [OF e2 Cons.prems(2)] e bs show ?case by simp
qed

lemma process_loop_emits:
  assumes "emits k dcs = (bs, k2)" "\<forall>dc\<in>set dcs. cmd_ok (bmp_valid st) (fst dc)" "synced k (r_chunk st)"
  shows "\<exists>st' ds. process_loop secondary altsec w h (length dcs) st (InStream cs (bs @ r)) = Inr (st', InStream (cs @ bs) r)
    \<and> synced k2 (r_chunk st') \<and> bmp_valid st' = bmp_valid st
    \<and> drawn st' = drawn st @ ds \<and> list_all2 (shows_as w h) dcs ds"
  using assms
proof (induction dcs arbitrary: k bs st cs)
  case Nil
  then show ?case by simp
next
  case (Cons dc dcs)
  obtain b k1 where e: "emit_cmd k (snd dc) (fst dc) = (b, k1)" by (cases "emit_cmd k (snd dc) (fst dc)") auto
  obtain b2 where e2: "emits k1 dcs = (b2, k2)" and bs: "bs = b @ b2"
    using Cons.prems(1) e by (auto split: prod.splits)
  obtain ctl rest cmd' k1' where s: "b = ctl # rest" "has ctl STANDARD" "\<not> has ctl SECONDARY"
    "process_primary w h ctl st (InStream (cs @ [ctl]) (rest @ b2 @ r))
      = Inr (st\<lparr>r_chunk := k1', drawn := drawn st @ [(cmd', received_clip w h (snd dc) (fst dc))]\<rparr>, InStream (cs @ b) (b2 @ r))"
    "cmd_same (fst dc) cmd'" "synced k1 k1'"
    using process_step [OF e _ Cons.prems(3), of w h cs "b2 @ r"] Cons.prems(2) by auto
  let ?st = "st\<lparr>r_chunk := k1', drawn := drawn st @ [(cmd', received_clip w h (snd dc) (fst dc))]\<rparr>"
  obtain st' ds where "process_loop secondary altsec w h (length dcs) ?st (InStream (cs @ b) (b2 @ r))
      = Inr (st', InStream ((cs @ b) @ b2) r)" "synced k2 (r_chunk st')" "bmp_valid st' = bmp_valid ?st"
    "drawn st' = drawn ?st @ ds" "list_all2 (shows_as w h) dcs ds"
    using Cons.IH [OF e2, of ?st "cs @ b"] Cons.prems(2) s(6) by auto
  moreover have sh: "shows_as w h dc (cmd', received_clip w h (snd dc) (fst dc))"
    using s(5) by (simp add: shows_as_def)
  ultimately show ?case
    using s by (intro exI [of _ st'] exI [of _ "(cmd', received_clip w h (snd dc) (fst dc)) # ds"])
      (simp add: bs sh)
qed

subsection \<open>The updates a serializer sends\<close>

text \<open>The updates for a list of batches, starting from a history.\<close>

fun batch_pdus :: "bool \<Rightarrow> chunk \<Rightarrow> (cmd \<times> rect) list list \<Rightarrow> pdu list \<times> chunk" where
  "batch_pdus fp k [] = ([], k)"
| "batch_pdus fp k (b # bs) =
     (let (bytes, k1) = emits k b; (ps, k2) = batch_pdus fp k1 bs
      in (OrdersPDU (orders_payload fp (length b) bytes) # ps, k2))"

lemma batch_pdus_snoc:
  assumes "batch_pdus fp k bs = (ps, k1)" "emits k1 b = (bytes, k2)"
  shows "batch_pdus fp k (bs @ [b]) = (ps @ [OrdersPDU (orders_payload fp (length b) bytes)], k2)"
  using assms
proof (induction bs arbitrary: k ps)
  case Nil
  then show ?case by simp
next
  case (Cons b0 bs)
  obtain by0 k' where e: "emits k b0 = (by0, k')" by (cases "emits k b0") auto
  obtain ps' where e2: "batch_pdus fp k' bs = (ps', k1)"
    and ps: "ps = OrdersPDU (orders_payload fp (length b0) by0) # ps'"
    using Cons.prems(1) e by (auto split: prod.splits)
  from Cons.IH [OF e2 Cons.prems(2)] e ps show ?case by simp
qed

text \<open>
  The invariant of the sender: the drawings so far are the batches already sent followed by the
  batch in the buffer, and the history is the one after all of them.
\<close>

definition link_inv :: "chunk \<Rightarrow> (cmd \<times> rect) list \<Rightarrow> serializer \<Rightarrow> bool" where
  "link_inv k0 dcs st \<longleftrightarrow> (\<exists>bss cur k1. dcs = concat bss @ cur
     \<and> (\<forall>b\<in>set bss. 0 < length b \<and> length b \<le> 4096) \<and> length cur \<le> 4096
     \<and> batch_pdus (s_fastpath st) k0 bss = (s_sent st, k1)
     \<and> emits k1 cur = (s_orders st, s_chunk st) \<and> s_order_count st = length cur
     \<and> s_bitmap_count st = 0)"

lemma link_inv_init: "link_inv initial_chunk [] (mk_serializer m lim fp req)"
  by (simp add: link_inv_def mk_serializer_def exI [of _ "[]"])

lemma link_inv_flush:
  assumes "link_inv k0 dcs st"
  shows "link_inv k0 dcs (flush_orders st)" "s_orders (flush_orders st) = []" "s_order_count (flush_orders st) = 0"
    "\<exists>bss. dcs = concat bss \<and> (\<forall>b\<in>set bss. length b \<le> 4096)
       \<and> batch_pdus (s_fastpath st) k0 bss = (s_sent (flush_orders st), s_chunk (flush_orders st))"
proof -
  obtain bss cur k1 where i: "dcs = concat bss @ cur" "\<forall>b\<in>set bss. 0 < length b \<and> length b \<le> 4096" "length cur \<le> 4096"
    "batch_pdus (s_fastpath st) k0 bss = (s_sent st, k1)" "emits k1 cur = (s_orders st, s_chunk st)"
    "s_order_count st = length cur" "s_bitmap_count st = 0"
    using assms by (auto simp: link_inv_def)
  note sn = batch_pdus_snoc [OF i(4,5)]
  show "link_inv k0 dcs (flush_orders st)"
  proof (cases "cur = []")
    case True
    then show ?thesis using assms i by (simp add: flush_orders_def)
  next
    case False
    then show ?thesis unfolding link_inv_def using i sn
      by (intro exI [of _ "bss @ [cur]"] exI [of _ "[]"] exI [of _ "s_chunk st"]) (auto simp: flush_orders_def)
  qed
  show "s_orders (flush_orders st) = []" "s_order_count (flush_orders st) = 0"
    using i by (auto simp: flush_orders_def)
  show "\<exists>bss. dcs = concat bss \<and> (\<forall>b\<in>set bss. length b \<le> 4096)
       \<and> batch_pdus (s_fastpath st) k0 bss = (s_sent (flush_orders st), s_chunk (flush_orders st))"
  proof (cases "cur = []")
    case True
    then show ?thesis using i by (intro exI [of _ bss]) (auto simp: flush_orders_def)
  next
    case False
    then show ?thesis using i sn by (intro exI [of _ "bss @ [cur]"]) (auto simp: flush_orders_def)
  qed
qed

lemma reserve_order_inv:
  assumes "link_inv k0 dcs st" "reserve_order n st = Inr st'"
  shows "link_inv k0 dcs (st'\<lparr>s_order_count := s_order_count st' - 1\<rparr>)" "0 < s_order_count st'"
    "s_order_count st' \<le> 4096" "s_fastpath st' = s_fastpath st" "s_capacity st' = s_capacity st"
    "s_max_data_block_size st' = s_max_data_block_size st" "s_max_request_size st' = s_max_request_size st"
    "s_orders st' = [] \<or> length (s_orders st') + n + SERIALIZER_HEADER_SIZE \<le> max_packet_size st"
proof -
  have b0: "s_bitmap_count st = 0" and c: "s_order_count st \<le> 4096" using assms(1) by (auto simp: link_inv_def)
  define fl where "fl \<longleftrightarrow> s_order_count st \<ge> 4096 \<or> length (s_orders st) + n + SERIALIZER_HEADER_SIZE > max_packet_size st"
  define st2 where "st2 = (if fl then flush_orders st else st)"
  have st': "st' = st2\<lparr>s_order_count := s_order_count st2 + 1\<rparr>"
    using assms(2) b0 by (auto simp: reserve_order_def Let_def st2_def fl_def split: if_splits)
  have i2: "link_inv k0 dcs st2" using assms(1) link_inv_flush(1) by (simp add: st2_def)
  have "st'\<lparr>s_order_count := s_order_count st' - 1\<rparr> = st2" by (simp add: st')
  with i2 show "link_inv k0 dcs (st'\<lparr>s_order_count := s_order_count st' - 1\<rparr>)" by simp
  show "0 < s_order_count st'" by (simp add: st')
  show "s_order_count st' \<le> 4096"
    using link_inv_flush(3) [OF assms(1)] c by (auto simp: st' st2_def fl_def)
  show "s_fastpath st' = s_fastpath st" "s_capacity st' = s_capacity st"
    "s_max_data_block_size st' = s_max_data_block_size st" "s_max_request_size st' = s_max_request_size st"
    by (simp_all add: st' st2_def flush_orders_def)
  show "s_orders st' = [] \<or> length (s_orders st') + n + SERIALIZER_HEADER_SIZE \<le> max_packet_size st"
    using link_inv_flush(2) [OF assms(1)] by (auto simp: st' st2_def fl_def)
qed

lemma draw_inv:
  assumes "link_inv k0 dcs st" "draw (cmd, cl) st = Inr st'"
  shows "link_inv k0 (dcs @ [(cmd, cl)]) st'" "s_fastpath st' = s_fastpath st"
proof -
  obtain st1 where r: "reserve_order (reserve_size cmd) st = Inr st1"
    and d: "(let (bs, k) = emit_cmd (s_chunk st1) cl cmd in
      assertR (length (s_orders st1) + length bs \<le> s_capacity st1)
        (Inr (st1\<lparr>s_orders := s_orders st1 @ bs, s_chunk := k\<rparr>))) = Inr st'"
    using assms(2) by (auto simp: draw_def bindR_eq_Inr)
  obtain bs k where e: "emit_cmd (s_chunk st1) cl cmd = (bs, k)" by (cases "emit_cmd (s_chunk st1) cl cmd") auto
  with d have st': "st' = st1\<lparr>s_orders := s_orders st1 @ bs, s_chunk := k\<rparr>" by (simp add: assertR_eq_Inr)
  note ri = reserve_order_inv [OF assms(1) r]
  obtain bss cur k1 where i: "dcs = concat bss @ cur" "\<forall>b\<in>set bss. 0 < length b \<and> length b \<le> 4096"
    "batch_pdus (s_fastpath st1) k0 bss = (s_sent st1, k1)" "emits k1 cur = (s_orders st1, s_chunk st1)"
    "s_order_count st1 - 1 = length cur" "s_bitmap_count st1 = 0"
    using ri(1) by (auto simp: link_inv_def)
  show "link_inv k0 (dcs @ [(cmd, cl)]) st'"
    unfolding link_inv_def using i ri(2,3) emits_snoc [OF i(4) e]
    by (intro exI [of _ bss] exI [of _ "cur @ [(cmd, cl)]"] exI [of _ k1]) (auto simp: st')
  show "s_fastpath st' = s_fastpath st" using ri(4) by (simp add: st')
qed

lemma draws_inv:
  assumes "link_inv k0 done_dcs st" "draws dcs st = Inr st'"
  shows "link_inv k0 (done_dcs @ dcs) st' \<and> s_fastpath st' = s_fastpath st"
  using assms
proof (induction dcs arbitrary: done_dcs st)
  case Nil
  then show ?case by simp
next
  case (Cons dc dcs)
  obtain cmd cl where dc: "dc = (cmd, cl)" by (cases dc)
  from Cons.prems(2) obtain st1 where d: "draw (cmd, cl) st = Inr st1" "draws dcs st1 = Inr st'"
    by (auto simp: dc bindR_eq_Inr)
  from Cons.IH [OF draw_inv(1) [OF Cons.prems(1) d(1)] d(2)] draw_inv(2) [OF Cons.prems(1) d(1)]
  show ?case by (simp add: dc)
qed

subsection \<open>Receiving the updates\<close>

text \<open>
  The update type of a slow-path update is read before \<open>process_orders\<close>; bitmap updates do not
  touch the order history.
\<close>

definition receive_pdu ::
  "handler \<Rightarrow> handler \<Rightarrow> bool \<Rightarrow> u16 \<Rightarrow> u16 \<Rightarrow> pdu \<Rightarrow> receiver \<Rightarrow> receiver res" where
  "receive_pdu secondary altsec fp w h p st =
     (case p of
        OrdersPDU bs \<Rightarrow>
          bindR (if fp then Inr (0, instream_of bs) else in_uint16_le (instream_of bs)) (\<lambda>(_, s).
          bindR (process_orders secondary altsec fp w h st s) (\<lambda>(st, _). Inr st))
      | BitmapsPDU _ _ \<Rightarrow> Inr st)"

fun receive_pdus ::
  "handler \<Rightarrow> handler \<Rightarrow> bool \<Rightarrow> u16 \<Rightarrow> u16 \<Rightarrow> pdu list \<Rightarrow> receiver \<Rightarrow> receiver res" where
  "receive_pdus secondary altsec fp w h [] st = Inr st"
| "receive_pdus secondary altsec fp w h (p # ps) st =
     bindR (receive_pdu secondary altsec fp w h p st) (receive_pdus secondary altsec fp w h ps)"

lemma receive_pdu_orders:
  assumes "emits k b = (bytes, k2)" "length b \<le> 4096" "\<forall>dc\<in>set b. cmd_ok (bmp_valid st) (fst dc)" "synced k (r_chunk st)"
  shows "\<exists>st' ds. receive_pdu secondary altsec fp w h (OrdersPDU (orders_payload fp (length b) bytes)) st = Inr st'
    \<and> synced k2 (r_chunk st') \<and> bmp_valid st' = bmp_valid st
    \<and> drawn st' = drawn st @ ds \<and> list_all2 (shows_as w h) b ds"
proof -
  have n: "unat (of_nat (length b) :: u16) = length b" using assms(2) by (simp add: unat_of_nat)
  have sk: "in_skip_bytes 2 (InStream c (0 # 0 # r)) = Inr ([0, 0], InStream (c @ [0, 0]) r)" for c r
    using in_skip_bytes_append [of "[0, 0]" c r] by (simp add: numeral_2_eq_2)
  have "\<exists>cs. bindR (if fp then Inr (0, instream_of (orders_payload fp (length b) bytes))
        else in_uint16_le (instream_of (orders_payload fp (length b) bytes))) (\<lambda>(_, s).
      bindR (process_orders secondary altsec fp w h st s) (\<lambda>(st, _). Inr st))
    = bindR (process_loop secondary altsec w h (length b) st (InStream cs bytes)) (\<lambda>(st, _). Inr st)"
  proof (cases fp)
    case True
    then show ?thesis using uint16_le.rd_enc
      by (auto simp: orders_payload_def instream_of_def process_orders_def n)
  next
    case False
    then show ?thesis using uint16_le.rd_enc
      by (auto simp: orders_payload_def instream_of_def process_orders_def n sk)
  qed
  then obtain cs where "receive_pdu secondary altsec fp w h (OrdersPDU (orders_payload fp (length b) bytes)) st
    = bindR (process_loop secondary altsec w h (length b) st (InStream cs bytes)) (\<lambda>(st, _). Inr st)"
    by (auto simp: receive_pdu_def)
  moreover obtain st' ds where "process_loop secondary altsec w h (length b) st (InStream cs (bytes @ [])) = Inr (st', InStream (cs @ bytes) [])"
    "synced k2 (r_chunk st')" "bmp_valid st' = bmp_valid st" "drawn st' = drawn st @ ds" "list_all2 (shows_as w h) b ds"
    using process_loop_emits [OF assms(1,3,4)] by metis
  ultimately show ?thesis by auto
qed

lemma receive_batch_pdus:
  assumes "batch_pdus fp k bss = (ps, k2)" "\<forall>b\<in>set bss. length b \<le> 4096"
    "\<forall>dc\<in>set (concat bss). cmd_ok (bmp_valid st) (fst dc)" "synced k (r_chunk st)"
  shows "\<exists>st' ds. receive_pdus secondary altsec fp w h ps st = Inr st' \<and> synced k2 (r_chunk st')
    \<and> drawn st' = drawn st @ ds \<and> list_all2 (shows_as w h) (concat bss) ds"
  using assms
proof (induction bss arbitrary: k ps st)
  case Nil
  then show ?case by simp
next
  case (Cons b bss)
  obtain bytes k1 where e: "emits k b = (bytes, k1)" by (cases "emits k b") auto
  obtain ps' where e2: "batch_pdus fp k1 bss = (ps', k2)"
    and ps: "ps = OrdersPDU (orders_payload fp (length b) bytes) # ps'"
    using Cons.prems(1) e by (auto split: prod.splits)
  obtain st1 ds where s: "receive_pdu secondary altsec fp w h (OrdersPDU (orders_payload fp (length b) bytes)) st = Inr st1"
    "synced k1 (r_chunk st1)" "bmp_valid st1 = bmp_valid st" "drawn st1 = drawn st @ ds" "list_all2 (shows_as w h) b ds"
    using receive_pdu_orders [OF e, of st secondary altsec fp w h] Cons.prems by auto
  obtain st' ds' where "receive_pdus secondary altsec fp w h ps' st1 = Inr st'" "synced k2 (r_chunk st')"
    "drawn st' = drawn st1 @ ds'" "list_all2 (shows_as w h) (concat bss) ds'"
    using Cons.IH [OF e2, of st1] Cons.prems s(2,3) by auto
  with s show ?case by (auto simp: ps intro!: exI [of _ "ds @ ds'"] list_all2_appendI)
qed

lemma synced_initial: "synced initial_chunk initial_chunk"
  by (simp add: synced_def cmd_same_def MultiDstBlt_same_def MultiOpaqueRect_same_def MultiPatBlt_same_def
      MultiScrBlt_same_def GlyphIndex_same_def Polyline_same_def)

lemma link_correct:
  assumes d: "draws dcs (mk_serializer m lim fp req) = Inr st"
    and ok: "\<forall>dc\<in>set dcs. cmd_ok valid (fst dc)"
  shows "\<exists>r. receive_pdus secondary altsec fp w h (s_sent (sync st)) (mk_receiver valid) = Inr r
     \<and> synced (s_chunk (sync st)) (r_chunk r) \<and> list_all2 (shows_as w h) dcs (drawn r)"
proof -
  have fp0: "s_fastpath (mk_serializer m lim fp req) = fp" by (simp add: mk_serializer_def)
  have i: "link_inv initial_chunk dcs st" "s_fastpath st = fp"
    using draws_inv [OF link_inv_init d] fp0 by simp_all
  have sy: "sync st = flush_orders st" using i(1) by (auto simp: sync_def flush_bitmaps_def link_inv_def)
  obtain bss where b: "dcs = concat bss" "\<forall>b\<in>set bss. length b \<le> 4096"
    "batch_pdus fp initial_chunk bss = (s_sent (sync st), s_chunk (sync st))"
    using link_inv_flush(4) [OF i(1)] i(2) by (auto simp: sy)
  show ?thesis
    using receive_batch_pdus [OF b(3,2), of "mk_receiver valid" secondary altsec w h] ok b(1) synced_initial
    by (auto simp: mk_receiver_def)
qed

subsection \<open>Drawing never fails\<close>

lemma draw_succeeds:
  assumes "link_inv k0 dcs st" "cmd_ok valid cmd"
    and "s_capacity st = 65536 - 1024" "930 \<le> s_max_data_block_size st"
  shows "\<exists>st'. draw (cmd, cl) st = Inr st' \<and> s_capacity st' = s_capacity st
    \<and> s_max_data_block_size st' = s_max_data_block_size st"
proof -
  have "reserve_size cmd \<le> 824" by (cases cmd) (simp_all add: reserve_size_def)
  then have fits: "reserve_size cmd + SERIALIZER_HEADER_SIZE \<le> max_packet_size st"
    using assms(3,4) by (simp add: max_packet_size_def)
  then obtain st1 where r: "reserve_order (reserve_size cmd) st = Inr st1"
    by (auto simp: reserve_order_def Let_def not_less [symmetric])
  note ri = reserve_order_inv [OF assms(1) r]
  obtain bs k where e: "emit_cmd (s_chunk st1) cl cmd = (bs, k)" by (cases "emit_cmd (s_chunk st1) cl cmd") auto
  have "length bs \<le> reserve_size cmd + 23"
    using emit_cmd_length [OF e assms(2)] wire_bound_slack [of cmd] by linarith
  moreover have "length (s_orders st1) + reserve_size cmd + SERIALIZER_HEADER_SIZE \<le> s_capacity st"
    using ri(8) fits by (auto simp: max_packet_size_def)
  ultimately have "length (s_orders st1) + length bs \<le> s_capacity st1" using ri(5) by simp
  with r e ri(5,6) show ?thesis by (simp add: draw_def)
qed

lemma draws_succeed:
  assumes "link_inv k0 done_dcs st" "\<forall>dc\<in>set dcs. cmd_ok valid (fst dc)"
    and "s_capacity st = 65536 - 1024" "930 \<le> s_max_data_block_size st"
  shows "\<exists>st'. draws dcs st = Inr st'"
  using assms
proof (induction dcs arbitrary: done_dcs st)
  case Nil
  then show ?case by simp
next
  case (Cons dc dcs)
  obtain cmd cl where dc: "dc = (cmd, cl)" by (cases dc)
  then have ok: "cmd_ok valid cmd" using Cons.prems(2) by simp
  obtain st1 where d: "draw (cmd, cl) st = Inr st1" "s_capacity st1 = s_capacity st"
    "s_max_data_block_size st1 = s_max_data_block_size st"
    using draw_succeeds [OF Cons.prems(1) ok Cons.prems(3,4)] by blast
  from Cons.IH [OF draw_inv(1) [OF Cons.prems(1) d(1)]] Cons.prems d show ?case by (simp add: dc)
qed

subsection \<open>Every update fits\<close>

text \<open>No update sent, and none being built, exceeds \<open>lim\<close> bytes, payload header included.\<close>

definition updates_fit :: "nat \<Rightarrow> serializer \<Rightarrow> bool" where
  "updates_fit lim st \<longleftrightarrow>
     (\<forall>p\<in>set (s_sent st). case p of OrdersPDU bs \<Rightarrow> length bs \<le> lim | BitmapsPDU n bs \<Rightarrow> True)
     \<and> length (s_orders st) + 8 \<le> lim"

lemma length_orders_payload: "length (orders_payload fp n bs) \<le> 8 + length bs"
  by (simp add: orders_payload_def)

lemma updates_fit_flush:
  assumes "updates_fit lim st"
  shows "updates_fit lim (flush_orders st)"
  using assms length_orders_payload [of "s_fastpath st" "s_order_count st" "s_orders st"]
  by (auto simp: updates_fit_def flush_orders_def)

lemma reserve_order_fits:
  assumes "updates_fit lim st" "reserve_order n st = Inr st'"
  shows "updates_fit lim st'"
proof -
  have b: "updates_fit lim (flush_bitmaps st)" using assms(1) by (auto simp: updates_fit_def flush_bitmaps_def)
  have "updates_fit lim (st2\<lparr>s_order_count := c\<rparr>) = updates_fit lim st2" for st2 c
    by (simp add: updates_fit_def)
  then show ?thesis
    using assms b updates_fit_flush by (auto simp: reserve_order_def Let_def split: if_splits)
qed

lemma draw_fits:
  assumes "link_inv k0 dcs st" "cmd_ok valid cmd" "draw (cmd, cl) st = Inr st'"
    and "updates_fit (max_packet_size st) st" "930 \<le> max_packet_size st"
  shows "updates_fit (max_packet_size st) st' \<and> max_packet_size st' = max_packet_size st"
proof -
  obtain st1 where r: "reserve_order (reserve_size cmd) st = Inr st1"
    and d: "(let (bs, k) = emit_cmd (s_chunk st1) cl cmd in
      assertR (length (s_orders st1) + length bs \<le> s_capacity st1)
        (Inr (st1\<lparr>s_orders := s_orders st1 @ bs, s_chunk := k\<rparr>))) = Inr st'"
    using assms(3) by (auto simp: draw_def bindR_eq_Inr)
  obtain bs k where e: "emit_cmd (s_chunk st1) cl cmd = (bs, k)" by (cases "emit_cmd (s_chunk st1) cl cmd") auto
  with d have st': "st' = st1\<lparr>s_orders := s_orders st1 @ bs, s_chunk := k\<rparr>" by (simp add: assertR_eq_Inr)
  note ri = reserve_order_inv [OF assms(1) r]
  have "length bs \<le> reserve_size cmd + 23"
    using emit_cmd_length [OF e assms(2)] wire_bound_slack [of cmd] by linarith
  moreover have "reserve_size cmd \<le> 824" by (cases cmd) (simp_all add: reserve_size_def)
  ultimately have "length (s_orders st') + 8 \<le> max_packet_size st"
    using ri(8) assms(5) by (auto simp: st')
  moreover have "s_sent st' = s_sent st1" by (simp add: st')
  moreover have "max_packet_size st' = max_packet_size st" using ri(5,6) by (simp add: st' max_packet_size_def)
  ultimately show ?thesis using reserve_order_fits [OF assms(4) r] by (simp add: updates_fit_def)
qed

lemma draws_fit:
  assumes "link_inv k0 done_dcs st" "\<forall>dc\<in>set dcs. cmd_ok valid (fst dc)" "draws dcs st = Inr st'"
    and "updates_fit (max_packet_size st) st" "930 \<le> max_packet_size st"
  shows "updates_fit (max_packet_size st) st'"
  using assms
proof (induction dcs arbitrary: done_dcs st)
  case Nil
  then show ?case by simp
next
  case (Cons dc dcs)
  obtain cmd cl where dc: "dc = (cmd, cl)" by (cases dc)
  from Cons.prems(3) obtain st1 where d: "draw (cmd, cl) st = Inr st1" "draws dcs st1 = Inr st'"
    by (auto simp: dc bindR_eq_Inr)
  have "cmd_ok valid cmd" using Cons.prems(2) by (simp add: dc)
  note f = draw_fits [OF Cons.prems(1) this d(1) Cons.prems(4,5)]
  from Cons.IH [OF draw_inv(1) [OF Cons.prems(1) d(1)] _ d(2)] f Cons.prems(2,5) show ?case by simp
qed

text \<open>What has been sent after the last flush.\<close>

lemma sync_flushes: "link_inv k0 dcs st \<Longrightarrow> sync st = flush_orders st"
  by (auto simp: sync_def flush_bitmaps_def link_inv_def)

lemma sent_batches:
  assumes "draws dcs (mk_serializer m limit fp req) = Inr st"
  shows "\<exists>bss. dcs = concat bss \<and> (\<forall>b\<in>set bss. 1 \<le> length b \<and> length b \<le> 4096) \<and> s_sent (sync st) = fst (batch_pdus fp initial_chunk bss)"
proof -
  have i: "link_inv initial_chunk dcs st" "s_fastpath st = fp"
    using draws_inv [OF link_inv_init assms] by (simp_all add: mk_serializer_def)
  note sy = sync_flushes [OF i(1)]
  have "link_inv initial_chunk dcs (sync st)" "s_order_count (sync st) = 0" using link_inv_flush [OF i(1)] sy by simp_all
  moreover have "s_fastpath (sync st) = fp" using i(2) sy by (simp add: flush_orders_def)
  ultimately obtain bss cur k1 where "dcs = concat bss @ cur" "cur = []"
    "\<forall>b\<in>set bss. 0 < length b \<and> length b \<le> 4096" "batch_pdus fp initial_chunk bss = (s_sent (sync st), k1)"
    unfolding link_inv_def by auto
  then show ?thesis by (intro exI [of _ bss]) (simp add: Suc_le_eq)
qed

lemma sent_fit:
  assumes "\<forall>dc\<in>set dcs. cmd_ok valid (fst dc)" "930 \<le> m" "draws dcs (mk_serializer m limit fp req) = Inr st"
  shows "updates_fit (min (65536 - 1024) (if limit then min m MAX_ORDERS_SIZE else m)) (sync st)"
proof -
  let ?s0 = "mk_serializer m limit fp req"
  have i: "link_inv initial_chunk dcs st" using draws_inv [OF link_inv_init assms(3)] by simp
  have m: "max_packet_size ?s0 = min (65536 - 1024) (if limit then min m MAX_ORDERS_SIZE else m)"
    by (simp add: max_packet_size_def mk_serializer_def)
  have f0: "updates_fit (max_packet_size ?s0) ?s0" unfolding m using assms(2) by (simp add: updates_fit_def mk_serializer_def)
  have "930 \<le> max_packet_size ?s0" unfolding m using assms(2) by simp
  from draws_fit [OF link_inv_init assms(1,3) f0 this] updates_fit_flush sync_flushes [OF i] show ?thesis unfolding m by metis
qed

end
