(* ===== verification/Mppc.thy ===== *)
theory Mppc
  imports Prelude
begin

text \<open>
  The bulk compression of RDP 4.0 and 5.0: \<open>rdp_mppc_40_enc\<close>, \<open>rdp_mppc_40_dec\<close> (\<open>core/RDP/mppc/mppc_40.hpp\<close>), their counterparts in
  \<open>mppc_50.hpp\<close>, which differ in the size of the history, the offsets and the limits, the bit writer and the table of hashes
  (\<open>mppc_utils.hpp\<close>), and \<open>rdp_mppc_unified_dec\<close> (\<open>core/RDP/mppc.cpp\<close>). \<open>Mppc40\<close> and \<open>Mppc50\<close> tell the two kinds apart.
\<close>

datatype mppc = Mppc40 | Mppc50

definition PACKET_COMPRESSED :: u8 where "PACKET_COMPRESSED = 0x20"
definition PACKET_AT_FRONT :: u8 where "PACKET_AT_FRONT = 0x40"
definition PACKET_FLUSHED :: u8 where "PACKET_FLUSHED = 0x80"

definition compr_type :: "mppc \<Rightarrow> u8" where
  "compr_type k = (case k of Mppc40 \<Rightarrow> 0 | Mppc50 \<Rightarrow> 1)"

text \<open>The history, the size the bit writer goes by (\<open>outputBufferSize\<close>), and the bytes there are behind \<open>outputBuffer\<close>.\<close>

definition hist_len :: "mppc \<Rightarrow> nat" where
  "hist_len k = (case k of Mppc40 \<Rightarrow> 1024 * 8 | Mppc50 \<Rightarrow> 1024 * 64)"

definition output_size :: "mppc \<Rightarrow> nat" where
  "output_size k = (case k of Mppc40 \<Rightarrow> hist_len k + 8 | Mppc50 \<Rightarrow> hist_len k - 1)"

definition output_room :: "mppc \<Rightarrow> nat" where
  "output_room k = hist_len k + 8"

subsection \<open>Writing bits\<close>

text \<open>The buffer, \<open>bits_left\<close> and \<open>opb_index\<close>, a \<open>uint16_t\<close>. Only the first write of an insertion is checked.\<close>

record out_bits =
  ob_buf :: "u8 list"
  ob_left :: nat
  ob_index :: nat

definition put_byte :: "nat \<Rightarrow> u8 \<Rightarrow> u8 list \<Rightarrow> u8 list res" where
  "put_byte i v buf = (if i < length buf then Inr (buf[i := v]) else Inl UB_WRITE)"

fun insert_bytes :: "nat \<Rightarrow> u32 \<Rightarrow> u8 list \<Rightarrow> nat \<Rightarrow> (nat \<times> u32 \<times> u8 list \<times> nat) res" where
  "insert_bytes n data buf i =
     (if 8 \<le> n
      then bindR (put_byte i (ucast (drop_bit (n - 8) data)) buf) (\<lambda>buf.
           insert_bytes (n - 8) (data AND mask (n - 8)) buf ((i + 1) mod 65536))
      else Inr (n, data, buf, i))"

declare insert_bytes.simps [simp del]

definition insert_n_bits :: "mppc \<Rightarrow> nat \<Rightarrow> u32 \<Rightarrow> out_bits \<Rightarrow> out_bits res" where
  "insert_n_bits k n data ob =
     (let i = ob_index ob; old = ob_buf ob ! i in
      if n < ob_left ob
      then bindR (put_byte i (old OR ucast (push_bit (ob_left ob - n) data)) (ob_buf ob)) (\<lambda>buf.
           Inr (ob\<lparr>ob_buf := buf, ob_left := ob_left ob - n\<rparr>))
      else if output_size k < i + 1 then Inl ERR_RDP45_COMPRESS_BUFFER_OVERFLOW
      else let r = n - ob_left ob in
           bindR (put_byte i (old OR ucast (drop_bit r data)) (ob_buf ob)) (\<lambda>buf.
           bindR (insert_bytes r (data AND mask r) buf ((i + 1) mod 65536)) (\<lambda>(r, data, buf, i).
           bindR (put_byte i (if 0 < r then ucast (push_bit (8 - r) data) else 0) buf) (\<lambda>buf.
           Inr \<lparr>ob_buf = buf, ob_left = 8 - r, ob_index = i\<rparr>))))"

definition encode_literal :: "mppc \<Rightarrow> u8 \<Rightarrow> out_bits \<Rightarrow> out_bits res" where
  "encode_literal k c ob =
     (if has c 0x80 then insert_n_bits k 9 (push_bit 7 0x02 OR (ucast c AND 0x7F)) ob else insert_n_bits k 8 (ucast c) ob)"

fun encode_literals :: "mppc \<Rightarrow> u8 list \<Rightarrow> out_bits \<Rightarrow> out_bits res" where
  "encode_literals k [] ob = Inr ob"
| "encode_literals k (c # cs) ob = bindR (encode_literal k c ob) (encode_literals k cs)"

text \<open>The number of bits and the bits of a copy offset and of a length of match; \<open>log2\<close> is \<open>31 - __builtin_clz\<close>.\<close>

fun log2 :: "nat \<Rightarrow> nat" where
  "log2 n = (if n < 2 then 0 else Suc (log2 (n div 2)))"

declare log2.simps [simp del]

definition offset_code :: "mppc \<Rightarrow> nat \<Rightarrow> nat \<times> u32" where
  "offset_code k off = (case k of
     Mppc40 \<Rightarrow> if off \<le> 0x3F then (10, 0x3c0 OR of_nat off)
               else if off \<le> 0x13F then (12, 0xe00 OR of_nat (off - 0x40))
               else (16, 0xc000 OR of_nat (off - 0x140))
   | Mppc50 \<Rightarrow> if off \<le> 0x3F then (11, 0x7c0 OR of_nat off)
               else if off \<le> 0x13F then (13, 0x1e00 OR of_nat (off - 0x40))
               else if off \<le> 0x93F then (15, 0x7000 OR of_nat (off - 0x140))
               else (19, 0x60000 OR of_nat (off - 0x940)))"

definition lom_code :: "mppc \<Rightarrow> nat \<Rightarrow> nat \<times> u32" where
  "lom_code k lom =
     (if lom = 3 then (1, 0)
      else let l = log2 lom in
        (2 * l, push_bit l (mask l AND (case k of Mppc40 \<Rightarrow> 0xFFE | Mppc50 \<Rightarrow> 0xFFFE)) OR (of_nat lom - push_bit l 1)))"

definition encode_tuple :: "mppc \<Rightarrow> nat \<Rightarrow> nat \<Rightarrow> out_bits \<Rightarrow> out_bits res" where
  "encode_tuple k off lom ob =
     bindR (insert_n_bits k (fst (offset_code k off)) (snd (offset_code k off)) ob)
       (insert_n_bits k (fst (lom_code k lom)) (snd (lom_code k lom)))"

subsection \<open>The table of hashes\<close>

definition crc_table :: "u16 list" where
  "crc_table = [
    0x0000, 0x1189, 0x2312, 0x329b, 0x4624, 0x57ad, 0x6536, 0x74bf, 0x8c48, 0x9dc1, 0xaf5a, 0xbed3, 0xca6c, 0xdbe5, 0xe97e, 0xf8f7,
    0x1081, 0x0108, 0x3393, 0x221a, 0x56a5, 0x472c, 0x75b7, 0x643e, 0x9cc9, 0x8d40, 0xbfdb, 0xae52, 0xdaed, 0xcb64, 0xf9ff, 0xe876,
    0x2102, 0x308b, 0x0210, 0x1399, 0x6726, 0x76af, 0x4434, 0x55bd, 0xad4a, 0xbcc3, 0x8e58, 0x9fd1, 0xeb6e, 0xfae7, 0xc87c, 0xd9f5,
    0x3183, 0x200a, 0x1291, 0x0318, 0x77a7, 0x662e, 0x54b5, 0x453c, 0xbdcb, 0xac42, 0x9ed9, 0x8f50, 0xfbef, 0xea66, 0xd8fd, 0xc974,
    0x4204, 0x538d, 0x6116, 0x709f, 0x0420, 0x15a9, 0x2732, 0x36bb, 0xce4c, 0xdfc5, 0xed5e, 0xfcd7, 0x8868, 0x99e1, 0xab7a, 0xbaf3,
    0x5285, 0x430c, 0x7197, 0x601e, 0x14a1, 0x0528, 0x37b3, 0x263a, 0xdecd, 0xcf44, 0xfddf, 0xec56, 0x98e9, 0x8960, 0xbbfb, 0xaa72,
    0x6306, 0x728f, 0x4014, 0x519d, 0x2522, 0x34ab, 0x0630, 0x17b9, 0xef4e, 0xfec7, 0xcc5c, 0xddd5, 0xa96a, 0xb8e3, 0x8a78, 0x9bf1,
    0x7387, 0x620e, 0x5095, 0x411c, 0x35a3, 0x242a, 0x16b1, 0x0738, 0xffcf, 0xee46, 0xdcdd, 0xcd54, 0xb9eb, 0xa862, 0x9af9, 0x8b70,
    0x8408, 0x9581, 0xa71a, 0xb693, 0xc22c, 0xd3a5, 0xe13e, 0xf0b7, 0x0840, 0x19c9, 0x2b52, 0x3adb, 0x4e64, 0x5fed, 0x6d76, 0x7cff,
    0x9489, 0x8500, 0xb79b, 0xa612, 0xd2ad, 0xc324, 0xf1bf, 0xe036, 0x18c1, 0x0948, 0x3bd3, 0x2a5a, 0x5ee5, 0x4f6c, 0x7df7, 0x6c7e,
    0xa50a, 0xb483, 0x8618, 0x9791, 0xe32e, 0xf2a7, 0xc03c, 0xd1b5, 0x2942, 0x38cb, 0x0a50, 0x1bd9, 0x6f66, 0x7eef, 0x4c74, 0x5dfd,
    0xb58b, 0xa402, 0x9699, 0x8710, 0xf3af, 0xe226, 0xd0bd, 0xc134, 0x39c3, 0x284a, 0x1ad1, 0x0b58, 0x7fe7, 0x6e6e, 0x5cf5, 0x4d7c,
    0xc60c, 0xd785, 0xe51e, 0xf497, 0x8028, 0x91a1, 0xa33a, 0xb2b3, 0x4a44, 0x5bcd, 0x6956, 0x78df, 0x0c60, 0x1de9, 0x2f72, 0x3efb,
    0xd68d, 0xc704, 0xf59f, 0xe416, 0x90a9, 0x8120, 0xb3bb, 0xa232, 0x5ac5, 0x4b4c, 0x79d7, 0x685e, 0x1ce1, 0x0d68, 0x3ff3, 0x2e7a,
    0xe70e, 0xf687, 0xc41c, 0xd595, 0xa12a, 0xb0a3, 0x8238, 0x93b1, 0x6b46, 0x7acf, 0x4854, 0x59dd, 0x2d62, 0x3ceb, 0x0e70, 0x1ff9,
    0xf78f, 0xe606, 0xd49d, 0xc514, 0xb1ab, 0xa022, 0x92b9, 0x8330, 0x7bc7, 0x6a4e, 0x58d5, 0x495c, 0x3de3, 0x2c6a, 0x1ef1, 0x0f78]"

definition crc_step :: "u16 \<Rightarrow> u8 \<Rightarrow> u16" where
  "crc_step crc b = drop_bit 8 crc XOR crc_table ! unat (ucast crc XOR b :: u8)"

definition sign :: "u8 list \<Rightarrow> u16" where
  "sign data = foldl crc_step 0xFFFF (take 3 data)"

text \<open>The undo buffer has the latest change first. It takes 256.\<close>

record hash_table =
  ht_table :: "u16 \<Rightarrow> u16"
  ht_undo :: "(u16 \<times> u16) list"

definition hash_update :: "u16 \<Rightarrow> u16 \<Rightarrow> hash_table \<Rightarrow> hash_table" where
  "hash_update hash off ht =
     \<lparr>ht_table = (ht_table ht)(hash := off),
      ht_undo = (if length (ht_undo ht) < 256 then (hash, ht_table ht hash) # ht_undo ht else ht_undo ht)\<rparr>"

definition update_indirect :: "u8 list \<Rightarrow> nat \<Rightarrow> hash_table \<Rightarrow> hash_table" where
  "update_indirect hist off ht = hash_update (sign (drop off hist)) (of_nat off) ht"

definition hash_reset :: hash_table where
  "hash_reset = \<lparr>ht_table = (\<lambda>_. 0), ht_undo = []\<rparr>"

definition undo_last_changes :: "hash_table \<Rightarrow> hash_table option" where
  "undo_last_changes ht =
     (if length (ht_undo ht) = 256 then None
      else Some \<lparr>ht_table = foldl (\<lambda>t (hash, off). t(hash := off)) (ht_table ht) (ht_undo ht), ht_undo = []\<rparr>)"

subsection \<open>The compressor\<close>

text \<open>
  How far a match goes on: \<open>n\<close> bytes are left after the first \<open>lom\<close>; the triplets passed are hashed. The indexes the table
  gives stay below the byte being compressed, so nothing outside of the history is read.
\<close>

definition same3 :: "u8 list \<Rightarrow> nat \<Rightarrow> nat \<Rightarrow> bool" where
  "same3 hist i j \<longleftrightarrow> take 3 (drop i hist) = take 3 (drop j hist)"

fun extend_match :: "u8 list \<Rightarrow> nat \<Rightarrow> nat \<Rightarrow> nat \<Rightarrow> nat \<Rightarrow> hash_table \<Rightarrow> nat \<times> hash_table" where
  "extend_match hist off prev lom 0 ht = (lom, ht)"
| "extend_match hist off prev lom (Suc n) ht =
     (let ht = update_indirect hist (off + lom - 1) ht in
      if hist ! (off + lom) \<noteq> hist ! (prev + lom) then (lom, ht) else extend_match hist off prev (lom + 1) n ht)"

lemma extend_match_ge: "lom \<le> fst (extend_match hist off prev lom n ht)"
  by (induction hist off prev lom n ht rule: extend_match.induct) (force simp: Let_def)+

text \<open>
  One turn of the loop over the new data, of which \<open>ctr\<close> bytes are done and the first is at \<open>start\<close>: the bytes it takes,
  the table, and the output or what was thrown.
\<close>

definition compress_turn :: "mppc \<Rightarrow> u8 list \<Rightarrow> nat \<Rightarrow> nat \<Rightarrow> nat \<Rightarrow> hash_table \<Rightarrow> out_bits \<Rightarrow> nat \<times> hash_table \<times> out_bits res" where
  "compress_turn k hist start sz ctr ht ob =
     (let off = start + ctr; hash = sign (drop off hist); prev = unat (ht_table ht hash); ht = hash_update hash (of_nat off) ht in
      if \<not> same3 hist off prev then (1, ht, encode_literal k (hist ! off) ob)
      else let (lom, ht) = extend_match hist off prev 3 (sz - (ctr + 3)) (update_indirect hist (off + 1) ht)
           in (lom, ht, encode_tuple k (unat (of_nat off - of_nat prev :: u16)) lom ob))"

lemma compress_turn_pos: "0 < fst (compress_turn k hist start sz ctr ht ob)"
proof -
  have "0 < fst (extend_match hist off prev 3 n ht)" for hist off prev n ht
    using extend_match_ge [of 3 hist off prev n ht] by simp
  then show ?thesis by (simp add: compress_turn_def Let_def split_beta)
qed

lemma compress_turn_less: "(lom, y) = compress_turn k hist start sz ctr ht ob \<Longrightarrow> ctr + 2 < sz \<Longrightarrow> sz - (ctr + lom) < sz - ctr"
  using compress_turn_pos [of k hist start sz ctr ht ob] by (cases "compress_turn k hist start sz ctr ht ob") auto

function compress_loop :: "mppc \<Rightarrow> u8 list \<Rightarrow> nat \<Rightarrow> nat \<Rightarrow> nat \<Rightarrow> hash_table \<Rightarrow> out_bits \<Rightarrow> hash_table \<times> out_bits res" where
  "compress_loop k hist start sz ctr ht ob =
     (if ctr + 2 < sz
      then case compress_turn k hist start sz ctr ht ob of
             (lom, ht, Inl e) \<Rightarrow> (ht, Inl e)
           | (lom, ht, Inr ob) \<Rightarrow> compress_loop k hist start sz (ctr + lom) ht ob
      else (ht, encode_literals k (take (sz - ctr) (drop (start + ctr) hist)) ob))"
  by auto
termination
  by (relation "measure (\<lambda>(k, hist, start, sz, ctr, ht, ob). sz - ctr)") (simp_all add: compress_turn_less)

declare compress_loop.simps [simp del]

text \<open>At the start of the history the first two bytes are literals, whatever the size.\<close>

definition compress_body :: "mppc \<Rightarrow> u8 list \<Rightarrow> nat \<Rightarrow> nat \<Rightarrow> hash_table \<Rightarrow> out_bits \<Rightarrow> hash_table \<times> out_bits res" where
  "compress_body k hist start sz ht ob =
     (if start = 0
      then case encode_literals k (take 2 hist) ob of
             Inl e \<Rightarrow> (ht, Inl e)
           | Inr ob \<Rightarrow> compress_loop k hist start sz 2 (update_indirect hist 1 (update_indirect hist 0 ht)) ob
      else compress_loop k hist start sz 0 ht ob)"

text \<open>
  The state between packets. The bytes of \<open>outputBuffer\<close> are written before they are read, the first by the \<open>memset\<close>; \<open>junk\<close> is what
  it held before.
\<close>

record mppc_enc =
  me_hist :: "u8 list"
  me_off :: nat
  me_flagsHold :: u8
  me_first_pkt :: bool
  me_table :: hash_table

definition mk_mppc_enc :: "mppc \<Rightarrow> mppc_enc" where
  "mk_mppc_enc k = \<lparr>me_hist = replicate (hist_len k) 0, me_off = 0, me_flagsHold = 0, me_first_pkt = True, me_table = hash_reset\<rparr>"

text \<open>Up to the \<open>try\<close>: the first packet goes to the front, and so does one that no longer fits.\<close>

definition place_data :: "mppc \<Rightarrow> u8 list \<Rightarrow> mppc_enc \<Rightarrow> mppc_enc" where
  "place_data k data e =
     (let e = e\<lparr>me_table := (me_table e)\<lparr>ht_undo := []\<rparr>\<rparr>;
          e = (if me_first_pkt e then e\<lparr>me_first_pkt := False, me_flagsHold := me_flagsHold e OR PACKET_AT_FRONT\<rparr> else e);
          e = (if hist_len k \<le> me_off e + length data + 2
               then e\<lparr>me_off := 0, me_flagsHold := me_flagsHold e OR PACKET_AT_FRONT, me_table := hash_reset\<rparr> else e)
      in e\<lparr>me_hist := take (me_off e) (me_hist e) @ data @ drop (me_off e + length data) (me_hist e)\<rparr>)"

definition give_up :: "mppc_enc \<Rightarrow> mppc_enc" where
  "give_up e = (case undo_last_changes (me_table e) of
     Some ht \<Rightarrow> e\<lparr>me_table := ht\<rparr>
   | None \<Rightarrow> e\<lparr>me_off := 0, me_flagsHold := me_flagsHold e OR PACKET_FLUSHED, me_first_pkt := True, me_table := hash_reset\<rparr>)"

text \<open>\<open>do_compress\<close>: the type is 0 when the packet has to be sent as it is.\<close>

definition compress_size :: "out_bits \<Rightarrow> nat" where
  "compress_size ob = ob_index ob + (if ob_left ob \<noteq> 8 then 1 else 0)"

definition mppc_compress :: "mppc \<Rightarrow> u8 list \<Rightarrow> nat \<Rightarrow> u8 list \<Rightarrow> mppc_enc \<Rightarrow> (mppc_enc \<times> u8 \<times> u8 list) res" where
  "mppc_compress k junk max_size data e =
     (let sz = length data in
      if k = Mppc40 \<and> hist_len k \<le> sz then Inl ERR_RDP_PROTOCOL
      else if sz = 0 \<or> hist_len k - 2 \<le> sz then Inr (e\<lparr>me_table := (me_table e)\<lparr>ht_undo := []\<rparr>\<rparr>, 0, [])
      else
        let e = place_data k data e;
            ob = \<lparr>ob_buf = replicate sz 0 @ drop sz junk, ob_left = 8, ob_index = 0\<rparr>;
            (ht, r) = compress_body k (me_hist e) (me_off e) sz (me_table e) ob;
            e = e\<lparr>me_table := ht\<rparr>;
            limit = (case k of Mppc40 \<Rightarrow> sz | Mppc50 \<Rightarrow> min sz max_size)
        in case r of
             Inl UB_WRITE \<Rightarrow> Inl UB_WRITE
           | Inl _ \<Rightarrow> Inr (give_up e, 0, [])
           | Inr ob \<Rightarrow>
               (if limit \<le> ob_index ob then Inr (give_up e, 0, [])
                else Inr (e\<lparr>me_off := me_off e + sz, me_flagsHold := 0\<rparr>,
                          (compr_type k OR PACKET_COMPRESSED) OR me_flagsHold e, take (compress_size ob) (ob_buf ob))))"

subsection \<open>Reading bits\<close>

text \<open>
  The 32 bits being processed, how many of them are left, the byte fetched last, how many of its bits are left, and the bytes not
  fetched yet.
\<close>

record in_bits =
  ib_d32 :: u32
  ib_left :: int
  ib_cur :: u8
  ib_cur_left :: nat
  ib_rest :: "u8 list"

definition fetch :: "in_bits \<Rightarrow> in_bits" where
  "fetch s = (case ib_rest s of [] \<Rightarrow> s\<lparr>ib_cur_left := 0\<rparr> | b # bs \<Rightarrow> s\<lparr>ib_cur := b, ib_cur_left := 8, ib_rest := bs\<rparr>)"

text \<open>The first four bytes, with the shift \<open>tmp\<close> for the next, and the byte after them.\<close>

fun load_initial :: "nat \<Rightarrow> nat \<Rightarrow> u32 \<Rightarrow> u8 list \<Rightarrow> u32 \<times> nat \<times> u8 list" where
  "load_initial (Suc n) tmp d32 (b # bs) =
     (let (d, m, r) = load_initial n (tmp - 8) (d32 OR push_bit tmp (ucast b)) bs in (d, m + 8, r))"
| "load_initial n tmp d32 bs = (d32, 0, bs)"

definition start_bits :: "u8 list \<Rightarrow> in_bits" where
  "start_bits cbuf = (let (d32, n, rest) = load_initial 4 24 0 cbuf in
     fetch \<lparr>ib_d32 = d32, ib_left = int n, ib_cur = 0, ib_cur_left = 0, ib_rest = rest\<rparr>)"

text \<open>Getting \<open>tmp\<close> more bits.\<close>

definition take_cur :: "in_bits \<Rightarrow> in_bits" where
  "take_cur s =
     (if ib_cur_left s = 0 then s
      else s\<lparr>ib_d32 := ib_d32 s OR push_bit (nat (32 - ib_left s) - ib_cur_left s) (ucast (drop_bit (8 - ib_cur_left s) (ib_cur s))),
             ib_left := ib_left s + int (ib_cur_left s), ib_cur_left := 0\<rparr>)"

definition more_bits_done :: "nat \<Rightarrow> in_bits \<Rightarrow> in_bits" where
  "more_bits_done tmp s =
     (let d = ib_d32 s OR ucast (drop_bit (8 - tmp) (ib_cur s)) in
      if tmp < ib_cur_left s
      then s\<lparr>ib_d32 := d, ib_cur := push_bit tmp (ib_cur s), ib_cur_left := ib_cur_left s - tmp, ib_left := 32\<rparr>
      else fetch (s\<lparr>ib_d32 := d, ib_left := 32\<rparr>))"

fun more_bits :: "nat \<Rightarrow> u8 list \<Rightarrow> in_bits \<Rightarrow> in_bits" where
  "more_bits tmp bs s =
     (if tmp = 0 then s
      else if ib_cur_left s < tmp
      then (case bs of [] \<Rightarrow> take_cur s
            | b # bs \<Rightarrow> more_bits (tmp - ib_cur_left s) bs (fetch (take_cur s)))
      else more_bits_done tmp s)"

declare more_bits.simps [simp del]

definition get_more_bits :: "in_bits \<Rightarrow> in_bits" where
  "get_more_bits s = more_bits (nat (32 - ib_left s)) (ib_rest s) s"

text \<open>A token: the bits it takes, and a byte or the offset of a copy, a \<open>uint16_t\<close>.\<close>

definition skip_bits :: "nat \<Rightarrow> in_bits \<Rightarrow> in_bits" where
  "skip_bits n s = s\<lparr>ib_d32 := push_bit n (ib_d32 s), ib_left := ib_left s - int n\<rparr>"

definition token :: "mppc \<Rightarrow> u32 \<Rightarrow> nat \<times> (u8 + u16)" where
  "token k d =
     (if d AND 0x80000000 = 0 then (8, Inl (ucast (drop_bit 24 d)))
      else if d AND 0xc0000000 = 0x80000000 then (9, Inl (ucast (drop_bit 25 (push_bit 2 d)) OR 0x80))
      else case k of
        Mppc40 \<Rightarrow>
          if d AND 0xf0000000 = 0xf0000000 then (10, Inr (ucast (drop_bit 26 (push_bit 4 d))))
          else if d AND 0xf0000000 = 0xe0000000 then (12, Inr (ucast (drop_bit 24 (push_bit 4 d)) + 64))
          else (16, Inr (ucast (drop_bit 19 (push_bit 3 d)) + 320))
      | Mppc50 \<Rightarrow>
          if d AND 0xf8000000 = 0xf8000000 then (11, Inr (ucast (drop_bit 26 (push_bit 5 d))))
          else if d AND 0xf8000000 = 0xf0000000 then (13, Inr (ucast (drop_bit 24 (push_bit 5 d)) + 64))
          else if d AND 0xf0000000 = 0xe0000000 then (15, Inr (ucast (drop_bit 21 (push_bit 4 d)) + 320))
          else (19, Inr (ucast (drop_bit 16 (push_bit 3 d)) + 2368)))"

text \<open>
  A length of match of \<open>j\<close> lower bits has \<open>j - 1\<close> ones and a zero before them; longer headers than the code knows leave the
  length 0, which it is at the end of every turn.
\<close>

definition lom_row :: "nat \<Rightarrow> u32 \<Rightarrow> bool" where
  "lom_row j d \<longleftrightarrow> d AND push_bit (32 - j) (mask j) = push_bit (32 - j) (mask j - 1)"

fun find_lom :: "nat list \<Rightarrow> u32 \<Rightarrow> nat \<times> nat" where
  "find_lom [] d = (0, 0)"
| "find_lom (j # js) d =
     (if lom_row j d then (2 * j, unat (drop_bit (32 - 2 * j) d AND mask j) + 2 ^ j) else find_lom js d)"

definition match_length :: "mppc \<Rightarrow> u32 \<Rightarrow> nat \<times> nat" where
  "match_length k d =
     (if d AND 0x80000000 = 0 then (1, 3)
      else find_lom (case k of Mppc40 \<Rightarrow> [2..<13] | Mppc50 \<Rightarrow> [2..<16]) d)"

subsection \<open>The decompressor\<close>

text \<open>A copy byte by byte; neither end is looked for.\<close>

fun copy_run :: "nat \<Rightarrow> nat \<Rightarrow> nat \<Rightarrow> u8 list \<Rightarrow> u8 list res" where
  "copy_run 0 src dst hist = Inr hist"
| "copy_run (Suc n) src dst hist = assertR (src < length hist)
     (bindR (put_byte dst (hist ! src) hist) (copy_run n (src + 1) (dst + 1)))"

definition copy_match :: "nat \<Rightarrow> nat \<Rightarrow> nat \<Rightarrow> u8 list \<Rightarrow> u8 list res" where
  "copy_match lom off dst hist =
     (if off \<le> dst then copy_run lom (dst - off) dst hist
      else assertR (off - dst \<le> length hist)
        (let n = min lom (off - dst) in
         bindR (copy_run n (length hist - (off - dst)) dst hist) (\<lambda>hist. copy_run (lom - n) 0 (dst + n) hist)))"

record mppc_dec =
  md_hist :: "u8 list"
  md_ptr :: nat

definition mk_mppc_dec :: "mppc \<Rightarrow> mppc_dec" where
  "mk_mppc_dec k = \<lparr>md_hist = replicate (hist_len k) 0, md_ptr = 0\<rparr>"

definition decompress_turn :: "mppc \<Rightarrow> in_bits \<Rightarrow> mppc_dec \<Rightarrow> (in_bits \<times> mppc_dec) res" where
  "decompress_turn k s d =
     (case token k (ib_d32 s) of
        (n, Inl b) \<Rightarrow> bindR (put_byte (md_ptr d) b (md_hist d)) (\<lambda>hist.
          Inr (get_more_bits (skip_bits n s), \<lparr>md_hist = hist, md_ptr = md_ptr d + 1\<rparr>))
      | (n, Inr off) \<Rightarrow>
          let s = get_more_bits (skip_bits n s) in
          if off = 0 then Inr (s, d)
          else let (m, lom) = match_length k (ib_d32 s) in
            bindR (copy_match lom (unat off) (md_ptr d) (md_hist d)) (\<lambda>hist.
            Inr (get_more_bits (skip_bits m s), \<lparr>md_hist = hist, md_ptr = md_ptr d + lom\<rparr>)))"

text \<open>The number of turns is bounded by the fuel; \<open>None\<close> is a loop that is still running.\<close>

fun decompress_loop :: "nat \<Rightarrow> mppc \<Rightarrow> in_bits \<Rightarrow> mppc_dec \<Rightarrow> mppc_dec res option" where
  "decompress_loop fuel k s d =
     (if ib_left s < 8 then Some (Inr d)
      else case fuel of 0 \<Rightarrow> None
      | Suc fuel \<Rightarrow> (case decompress_turn k s d of Inl e \<Rightarrow> Some (Inl e) | Inr (s, d) \<Rightarrow> decompress_loop fuel k s d))"

declare decompress_loop.simps [simp del]

text \<open>
  A packet: what is taken from the history for it, and the decompressor afterwards. \<open>from\<close> is the field \<open>history_ptr\<close> from which
  the length is measured; \<open>PACKET_FLUSHED\<close> alone does not set it back.
\<close>

definition decompress :: "nat \<Rightarrow> mppc \<Rightarrow> u8 list \<Rightarrow> u8 \<Rightarrow> mppc_dec \<Rightarrow> (u8 list \<times> mppc_dec) res option" where
  "decompress fuel k cbuf ctype d =
     (let from = (if has ctype PACKET_AT_FRONT then 0 else md_ptr d);
          roff = (if has ctype PACKET_AT_FRONT \<or> has ctype PACKET_FLUSHED then 0 else md_ptr d);
          hist = (if has ctype PACKET_FLUSHED then replicate (hist_len k) 0 else md_hist d);
          view = (\<lambda>d. assertR (from \<le> md_ptr d \<and> roff + (md_ptr d - from) \<le> length (md_hist d))
                    (Inr (take (md_ptr d - from) (drop roff (md_hist d)), d)))
      in if \<not> has ctype PACKET_COMPRESSED
         then Some (if length hist < roff + length cbuf then Inl UB_WRITE
                    else view \<lparr>md_hist = take roff hist @ cbuf @ drop (roff + length cbuf) hist, md_ptr = roff + length cbuf\<rparr>)
         else map_option (\<lambda>r. bindR r view) (decompress_loop fuel k (start_bits cbuf) \<lparr>md_hist = hist, md_ptr = roff\<rparr>))"

text \<open>
  \<open>rdp_mppc_unified_dec\<close>: the decompressor is made for the first packet and after each \<open>PACKET_FLUSHED\<close>. The decompressors of
  RDP 6.0 and 6.1 are not covered; an unknown type gives nothing.
\<close>

definition unified_dec :: "u8 \<Rightarrow> (mppc \<times> mppc_dec) option \<Rightarrow> (mppc \<times> mppc_dec) option res" where
  "unified_dec ctype u =
     (case (if has ctype PACKET_FLUSHED then None else u) of
        Some d \<Rightarrow> Inr (Some d)
      | None \<Rightarrow>
          (let type = ctype AND 0x0f in
           if type = 0 then Inr (Some (Mppc40, mk_mppc_dec Mppc40))
           else if type = 1 then Inr (Some (Mppc50, mk_mppc_dec Mppc50))
           else if type = 2 \<or> type = 3 then Inl NOT_MODELLED
           else Inr None))"

definition unified_decompress ::
  "nat \<Rightarrow> u8 list \<Rightarrow> u8 \<Rightarrow> (mppc \<times> mppc_dec) option \<Rightarrow> (u8 list \<times> (mppc \<times> mppc_dec) option) res option" where
  "unified_decompress fuel cbuf ctype u =
     (case unified_dec ctype u of
        Inl e \<Rightarrow> Some (Inl e)
      | Inr None \<Rightarrow> Some (Inr ([], None))
      | Inr (Some (k, d)) \<Rightarrow> map_option (\<lambda>r. bindR r (\<lambda>(bs, d). Inr (bs, Some (k, d)))) (decompress fuel k cbuf ctype d))"

text \<open>Sending a packet and receiving one, as \<open>send_share_data_ex\<close> and \<open>ShareData_Recv\<close> do.\<close>

definition bulk_send :: "mppc \<Rightarrow> u8 list \<Rightarrow> nat \<Rightarrow> u8 list \<Rightarrow> mppc_enc \<Rightarrow> (mppc_enc \<times> u8 \<times> u8 list) res" where
  "bulk_send k junk max_size data e =
     bindR (mppc_compress k junk max_size data e) (\<lambda>(e, ctype, bytes).
       Inr (e, ctype, if has ctype PACKET_COMPRESSED then bytes else data))"

definition bulk_receive ::
  "nat \<Rightarrow> u8 \<Rightarrow> u8 list \<Rightarrow> (mppc \<times> mppc_dec) option \<Rightarrow> (u8 list \<times> (mppc \<times> mppc_dec) option) res option" where
  "bulk_receive fuel ctype bytes u =
     (if has ctype PACKET_COMPRESSED then unified_decompress fuel bytes ctype u else Some (Inr (bytes, u)))"

end
