(* ===== verification/Mppc_Bits.thy ===== *)
theory Mppc_Bits
  imports Mppc
begin

text \<open>
  The bits of the compressed packets: what an insertion of the compressor adds to the bits written so far, and what the 32 bits the
  decompressor looks at are of the bits still to come.
\<close>

subsection \<open>Bits of a number\<close>

definition nbits :: "nat \<Rightarrow> 'a::len word \<Rightarrow> bool list" where
  "nbits n x = rev (map (bit x) [0..<n])"

lemma length_nbits [simp]: "length (nbits n x) = n"
  by (simp add: nbits_def)

lemma nbits_0 [simp]: "nbits 0 x = []"
  by (simp add: nbits_def)

lemma nth_nbits: "i < n \<Longrightarrow> nbits n x ! i = bit x (n - 1 - i)"
  by (simp add: nbits_def rev_nth)

lemma nbits_add: "nbits (a + b) x = nbits a (drop_bit b x) @ nbits b x"
  by (rule nth_equalityI) (auto simp: nth_nbits nth_append bit_drop_bit_eq intro!: arg_cong [of _ _ "bit x"])

lemma nbits_mask: "n \<le> m \<Longrightarrow> nbits n (x AND mask m) = nbits n x"
  by (rule nth_equalityI) (auto simp: nth_nbits bit_and_iff bit_mask_iff dest: bit_imp_le_length)

lemma nbits_zero [simp]: "nbits n 0 = replicate n False"
  by (rule nth_equalityI) (simp_all add: nth_nbits)

lemma nbits_eqI: "(\<And>i. i < n \<Longrightarrow> bit x i = bit y i) \<Longrightarrow> nbits n x = nbits n y"
  by (rule nth_equalityI) (simp_all add: nth_nbits)

lemma bits_below:
  fixes x :: "'a::len word"
  assumes "take_bit n x = 0" "i < n"
  shows "\<not> bit x i"
proof -
  have "bit (take_bit n x) i = bit x i" using assms(2) by (simp add: bit_take_bit_iff)
  then show ?thesis using assms(1) by simp
qed

lemma nbits_or_low: "take_bit n x = 0 \<Longrightarrow> nbits n (x OR y) = nbits n y" for x :: "'a::len word"
  by (rule nbits_eqI) (simp add: bit_or_iff bits_below)

lemma nbits_ucast: "n \<le> LENGTH('b) \<Longrightarrow> nbits n (ucast x :: 'b::len word) = nbits n x"
  by (rule nbits_eqI) (simp add: bit_ucast_iff)

lemma nbits_push: "a + b \<le> LENGTH('a) \<Longrightarrow> nbits (a + b) (push_bit b x) = nbits a x @ replicate b False" for x :: "'a::len word"
  by (rule nth_equalityI) (auto simp: nth_nbits nth_append bit_push_bit_iff)

lemma bits_above:
  fixes x :: "'a::len word"
  assumes "drop_bit n x = 0" "n \<le> i"
  shows "\<not> bit x i"
proof -
  have "bit (drop_bit n x) (i - n) = bit x i" using assms(2) by (simp add: bit_drop_bit_eq)
  then show ?thesis using assms(1) by simp
qed

lemma drop_or: "drop_bit n y = 0 \<Longrightarrow> drop_bit n (x OR y) = drop_bit n x" for x :: "'a::len word"
  by (simp add: bit_eq_iff bit_drop_bit_eq bit_or_iff)

subsection \<open>Writing\<close>

text \<open>The bits written so far; the byte being filled has zeros in the bits not used yet.\<close>

definition bits_of :: "u8 list \<Rightarrow> bool list" where
  "bits_of bs = concat (map (nbits 8) bs)"

lemma bits_of_simps [simp]: "bits_of [] = []" "bits_of (b # bs) = nbits 8 b @ bits_of bs" "bits_of (as @ bs) = bits_of as @ bits_of bs"
  by (simp_all add: bits_of_def)

lemma length_bits_of [simp]: "length (bits_of bs) = 8 * length bs"
  by (induction bs) simp_all

definition bits_written :: "out_bits \<Rightarrow> bool list" where
  "bits_written ob = bits_of (take (ob_index ob) (ob_buf ob)) @ nbits (8 - ob_left ob) (drop_bit (ob_left ob) (ob_buf ob ! ob_index ob))"

definition out_ok :: "mppc \<Rightarrow> out_bits \<Rightarrow> bool" where
  "out_ok k ob \<longleftrightarrow> output_size k \<le> length (ob_buf ob) \<and> ob_index ob < output_size k \<and> 0 < ob_left ob \<and> ob_left ob \<le> 8
     \<and> take_bit (ob_left ob) (ob_buf ob ! ob_index ob) = 0"

lemma length_written: "out_ok k ob \<Longrightarrow> length (bits_written ob) = 8 * ob_index ob + (8 - ob_left ob)"
  by (simp add: out_ok_def bits_written_def)

lemma output_size_u16: "output_size k < 65536"
  by (cases k) (simp_all add: output_size_def hist_len_def)

lemma byte_filled:
  fixes x :: u8 and v :: u32
  assumes "take_bit l x = 0" "drop_bit l v = 0" "l \<le> 8"
  shows "nbits 8 (x OR ucast v) = nbits (8 - l) (drop_bit l x) @ nbits l v"
proof -
  have "drop_bit l (ucast v :: u8) = 0"
    by (rule bit_word_eqI) (use bits_above [OF assms(2)] in \<open>simp add: bit_drop_bit_eq bit_ucast_iff\<close>)
  then have "nbits ((8 - l) + l) (x OR ucast v) = nbits (8 - l) (drop_bit l x) @ nbits l v"
    unfolding nbits_add using assms by (simp add: drop_or nbits_or_low nbits_ucast)
  then show ?thesis using assms(3) by simp
qed

lemma take_bit_above: "drop_bit n (x AND mask n) = 0" for x :: "'a::len word"
  by (rule bit_word_eqI) (simp add: bit_drop_bit_eq bit_and_iff bit_mask_iff)

lemma insert_bytes_written:
  "i + n div 8 < length buf \<Longrightarrow> i + n div 8 < 65536 \<Longrightarrow>
    \<exists>data' buf'. insert_bytes n data buf i = Inr (n mod 8, data', buf', i + n div 8) \<and> length buf' = length buf
      \<and> (drop_bit n data = 0 \<longrightarrow> drop_bit (n mod 8) data' = 0)
      \<and> bits_of (take (i + n div 8) buf') @ nbits (n mod 8) data' = bits_of (take i buf) @ nbits n data"
proof (induction n data buf i rule: insert_bytes.induct)
  case (1 n data buf i)
  show ?case
  proof (cases "8 \<le> n")
    case False
    then show ?thesis by (simp add: insert_bytes.simps [of n])
  next
    case True
    let ?buf = "buf[i := ucast (drop_bit (n - 8) data)]"
    have d: "n div 8 = Suc ((n - 8) div 8)" "n mod 8 = (n - 8) mod 8" "(i + 1) mod 65536 = i + 1"
      using True 1(2,3) by (simp_all add: le_div_geq le_mod_geq)
    have p: "put_byte i (ucast (drop_bit (n - 8) data)) buf = Inr ?buf" using 1(2) by (simp add: put_byte_def)
    from 1(1) [OF True p] obtain data' buf' where r:
      "insert_bytes (n - 8) (data AND mask (n - 8)) ?buf (i + 1) = Inr ((n - 8) mod 8, data', buf', i + 1 + (n - 8) div 8)" "length buf' = length buf"
      "drop_bit (n - 8) (data AND mask (n - 8)) = 0 \<longrightarrow> drop_bit ((n - 8) mod 8) data' = 0"
      "bits_of (take (i + 1 + (n - 8) div 8) buf') @ nbits ((n - 8) mod 8) data' = bits_of (take (i + 1) ?buf) @ nbits (n - 8) (data AND mask (n - 8))"
      using 1(2,3) d by auto
    have "take (i + 1) ?buf = take i buf @ [ucast (drop_bit (n - 8) data)]" using 1(2) by (simp add: take_Suc_conv_app_nth)
    moreover have "nbits n data = nbits 8 (drop_bit (n - 8) data) @ nbits (n - 8) data" using nbits_add [of 8 "n - 8" data] True by simp
    moreover have "drop_bit ((n - 8) mod 8) data' = 0" using r(3) take_bit_above by blast
    ultimately show ?thesis
      using r(1,2,4) p d True by (simp add: insert_bytes.simps [of n] nbits_ucast nbits_mask)
  qed
qed

lemma insert_written:
  assumes ok: "out_ok k ob" and data: "drop_bit n data = 0" and room: "length (bits_written ob) + n < 8 * output_size k"
  shows "\<exists>ob'. insert_n_bits k n data ob = Inr ob' \<and> out_ok k ob' \<and> bits_written ob' = bits_written ob @ nbits n data"
proof -
  let ?i = "ob_index ob" and ?l = "ob_left ob" and ?old = "ob_buf ob ! ob_index ob"
  have o: "?i < output_size k" "output_size k \<le> length (ob_buf ob)" "0 < ?l" "?l \<le> 8" "take_bit ?l ?old = 0"
    using ok by (simp_all add: out_ok_def)
  note len = length_written [OF ok]
  show ?thesis
  proof (cases "n < ?l")
    case True
    let ?x = "?old OR ucast (push_bit (?l - n) data)"
    let ?ob = "ob\<lparr>ob_buf := (ob_buf ob)[?i := ?x], ob_left := ?l - n\<rparr>"
    have "drop_bit ?l (push_bit (?l - n) data) = 0"
      by (rule bit_word_eqI) (use bits_above [OF data] True in \<open>auto simp: bit_drop_bit_eq bit_push_bit_iff\<close>)
    from byte_filled [OF o(5) this o(4)]
    have b: "nbits 8 ?x = nbits (8 - ?l) (drop_bit ?l ?old) @ nbits n data @ replicate (?l - n) False"
      using nbits_push [of n "?l - n" data] True o(4) by simp
    have z: "take_bit (?l - n) ?x = 0"
      by (rule bit_word_eqI) (use bits_below [OF o(5)] True in \<open>auto simp: bit_take_bit_iff bit_or_iff bit_ucast_iff bit_push_bit_iff\<close>)
    have "nbits (8 - (?l - n)) (drop_bit (?l - n) ?x) @ nbits (?l - n) ?x = nbits 8 ?x"
      using nbits_add [of "8 - (?l - n)" "?l - n" ?x] o(4) by simp
    with b have "nbits (8 - (?l - n)) (drop_bit (?l - n) ?x) = nbits (8 - ?l) (drop_bit ?l ?old) @ nbits n data"
      using True o(4) by (simp add: append_eq_append_conv flip: append_assoc)
    then have "bits_written ?ob = bits_written ob @ nbits n data" using o by (simp add: bits_written_def)
    moreover have "insert_n_bits k n data ob = Inr ?ob" using True o by (simp add: insert_n_bits_def Let_def put_byte_def)
    moreover have "out_ok k ?ob" using o True z by (simp add: out_ok_def)
    ultimately show ?thesis by blast
  next
    case False
    let ?r = "n - ?l" and ?x = "?old OR ucast (drop_bit (n - ?l) data)"
    let ?buf = "(ob_buf ob)[?i := ?x]"
    have i: "?i + 1 + ?r div 8 < output_size k" using room len False o(4) by linarith
    have m: "(?i + 1) mod 65536 = ?i + 1" using i output_size_u16 [of k] by simp
    obtain data' buf where b: "insert_bytes ?r (data AND mask ?r) ?buf (?i + 1) = Inr (?r mod 8, data', buf, ?i + 1 + ?r div 8)" "length buf = length (ob_buf ob)"
      "drop_bit (?r mod 8) data' = 0"
      "bits_of (take (?i + 1 + ?r div 8) buf) @ nbits (?r mod 8) data' = bits_of (take (?i + 1) ?buf) @ nbits ?r (data AND mask ?r)"
      using insert_bytes_written [of "?i + 1" ?r ?buf "data AND mask ?r"] i o(2) output_size_u16 [of k] take_bit_above by (auto simp: less_trans)
    let ?q = "?r mod 8" and ?j = "?i + 1 + ?r div 8"
    let ?y = "(if 0 < ?q then ucast (push_bit (8 - ?q) data') else 0) :: u8"
    let ?ob = "\<lparr>ob_buf = buf[?j := ?y], ob_left = 8 - ?q, ob_index = ?j\<rparr>"
    have q: "?q < 8" by simp
    have "drop_bit ?l (drop_bit ?r data) = 0" using data False by (simp add: drop_bit_drop_bit add.commute)
    from byte_filled [OF o(5) this o(4)] have x: "nbits 8 ?x = nbits (8 - ?l) (drop_bit ?l ?old) @ nbits ?l (drop_bit ?r data)" .
    have n: "nbits ?l (drop_bit ?r data) @ nbits ?r data = nbits n data" using nbits_add [of ?l ?r data] False by simp
    have low: "i < ?q" if "bit data' i" for i using bits_above [OF b(3), of i] that by (meson not_le)
    have "drop_bit (8 - ?q) ?y = ucast data'" if "0 < ?q"
    proof (rule bit_word_eqI)
      fix i assume "i < LENGTH(8)"
      then show "bit (drop_bit (8 - ?q) ?y) i = bit (ucast data' :: u8) i"
        using that low [of i] q by (cases "bit data' i") (auto simp: bit_drop_bit_eq bit_ucast_iff bit_push_bit_iff)
    qed
    then have y: "nbits ?q (drop_bit (8 - ?q) ?y) = nbits ?q data'" by (cases "0 < ?q") (simp_all add: nbits_ucast)
    have z: "take_bit (8 - ?q) ?y = 0"
      by (rule bit_word_eqI) (auto simp: bit_take_bit_iff bit_ucast_iff bit_push_bit_iff)
    have "bits_written ?ob = bits_of (take ?j buf) @ nbits ?q data'"
      using i o(2) b(2) q y by (simp add: bits_written_def)
    also have "\<dots> = bits_written ob @ nbits n data"
      unfolding b(4) using o i x n by (simp add: bits_written_def nbits_mask take_Suc_conv_app_nth)
    finally have "bits_written ?ob = bits_written ob @ nbits n data" .
    moreover have "insert_n_bits k n data ob = Inr ?ob"
      using False o i m b by (simp add: insert_n_bits_def Let_def put_byte_def)
    moreover have "out_ok k ?ob" using i o(2) b(2) z q by (simp add: out_ok_def)
    ultimately show ?thesis by blast
  qed
qed

subsection \<open>Reading\<close>

text \<open>The first \<open>l\<close> of the 32 bits, and all bits still to come.\<close>

definition top_bits :: "nat \<Rightarrow> u32 \<Rightarrow> bool list" where
  "top_bits l d = nbits l (drop_bit (32 - l) d)"

definition coming :: "in_bits \<Rightarrow> bool list" where
  "coming s = top_bits (nat (ib_left s)) (ib_d32 s) @ nbits (ib_cur_left s) (drop_bit (8 - ib_cur_left s) (ib_cur s)) @ bits_of (ib_rest s)"

definition in_ok :: "in_bits \<Rightarrow> bool" where
  "in_ok s \<longleftrightarrow> 0 \<le> ib_left s \<and> ib_left s \<le> 32 \<and> take_bit (32 - nat (ib_left s)) (ib_d32 s) = 0 \<and> ib_cur_left s \<le> 8"

definition in_full :: "in_bits \<Rightarrow> bool" where
  "in_full s \<longleftrightarrow> ib_left s = 32 \<or> ib_cur_left s = 0 \<and> ib_rest s = []"

lemma length_top_bits [simp]: "length (top_bits l d) = l"
  by (simp add: top_bits_def)

lemma top_bits_0 [simp]: "top_bits 0 d = []"
  by (simp add: top_bits_def)

lemma top_or:
  fixes v :: u8
  assumes "take_bit (32 - l) d = 0" "l + m \<le> 32" "drop_bit m v = 0"
  shows "top_bits (l + m) (d OR push_bit (32 - l - m) (ucast v)) = top_bits l d @ nbits m v"
    "take_bit (32 - l - m) (d OR push_bit (32 - l - m) (ucast v)) = 0"
proof -
  let ?d = "d OR push_bit (32 - l - m) (ucast v)"
  have "bit (drop_bit (32 - l) ?d) i = bit (drop_bit (32 - l) d) i" for i
  proof -
    have "32 - l + i - (32 - l - m) = m + i" using assms(2) by linarith
    then show ?thesis using bits_above [OF assms(3), of "m + i"] by (simp add: bit_drop_bit_eq bit_or_iff bit_push_bit_iff bit_ucast_iff)
  qed
  then have "nbits l (drop_bit m (drop_bit (32 - l - m) ?d)) = nbits l (drop_bit (32 - l) d)"
    using assms(2) by (intro nbits_eqI) (simp add: drop_bit_drop_bit)
  moreover have "nbits m (drop_bit (32 - l - m) ?d) = nbits m v"
  proof (rule nth_equalityI)
    fix i assume i: "i < length (nbits m (drop_bit (32 - l - m) ?d))"
    then have "32 - l - m + (m - 1 - i) < 32 - l" using assms(2) by simp
    from bits_below [OF assms(1) this] i assms(2) show "nbits m (drop_bit (32 - l - m) ?d) ! i = nbits m v ! i"
      by (simp add: nth_nbits bit_drop_bit_eq bit_or_iff bit_push_bit_iff bit_ucast_iff)
        (auto simp: add.commute dest: bit_imp_le_length)
  qed simp
  moreover have "32 - (l + m) = 32 - l - m" by simp
  ultimately show "top_bits (l + m) ?d = top_bits l d @ nbits m v" by (simp only: top_bits_def nbits_add)
  show "take_bit (32 - l - m) ?d = 0"
  proof (rule bit_word_eqI)
    fix i
    have "\<not> bit d i" if "i < 32 - l - m" using that by (intro bits_below [OF assms(1)]) simp
    then show "bit (take_bit (32 - l - m) ?d) i = bit (0 :: u32) i" by (simp add: bit_take_bit_iff bit_or_iff bit_push_bit_iff)
  qed
qed

lemma drop_top_byte: "n \<le> 8 \<Longrightarrow> drop_bit n (drop_bit (8 - n) b) = 0" for b :: u8
  by (rule bit_word_eqI) (simp add: bit_drop_bit_eq)

lemma take_cur_ok:
  assumes "in_ok s" "int (ib_cur_left s) \<le> 32 - ib_left s"
  shows "in_ok (take_cur s)" "coming (take_cur s) = coming s" "ib_left (take_cur s) = ib_left s + int (ib_cur_left s)"
    "ib_cur_left (take_cur s) = 0" "ib_rest (take_cur s) = ib_rest s"
proof -
  let ?l = "nat (ib_left s)" and ?m = "ib_cur_left s" and ?v = "drop_bit (8 - ib_cur_left s) (ib_cur s)"
  have o: "0 \<le> ib_left s" "take_bit (32 - ?l) (ib_d32 s) = 0" "?l + ?m \<le> 32" "?m \<le> 8"
    using assms by (auto simp: in_ok_def)
  note t = top_or [OF o(2,3) drop_top_byte [OF o(4), of "ib_cur s"]]
  have n: "nat (ib_left s + int ?m) = ?l + ?m" "nat (32 - ib_left s) = 32 - ?l" using o(1) by simp_all
  show "in_ok (take_cur s)" "coming (take_cur s) = coming s" "ib_left (take_cur s) = ib_left s + int ?m"
    "ib_cur_left (take_cur s) = 0" "ib_rest (take_cur s) = ib_rest s"
    using o t n by (auto simp: in_ok_def coming_def take_cur_def)
qed

lemma fetch_ok:
  assumes "ib_cur_left s = 0" "in_ok s"
  shows "in_ok (fetch s)" "coming (fetch s) = coming s" "ib_left (fetch s) = ib_left s"
    "in_full s \<Longrightarrow> in_full (fetch s)" "ib_rest (fetch s) = tl (ib_rest s)"
  using assms by (auto simp: fetch_def in_ok_def coming_def in_full_def split: list.splits)

lemma more_bits_done_ok:
  assumes "in_ok s" "int tmp = 32 - ib_left s" "0 < tmp" "tmp \<le> ib_cur_left s"
  shows "in_ok (more_bits_done tmp s)" "coming (more_bits_done tmp s) = coming s" "in_full (more_bits_done tmp s)"
proof -
  let ?l = "nat (ib_left s)" and ?v = "drop_bit (8 - tmp) (ib_cur s)" and ?m = "ib_cur_left s"
  have o: "0 \<le> ib_left s" "take_bit (32 - ?l) (ib_d32 s) = 0" "?l + tmp \<le> 32" "tmp \<le> 8" "?m \<le> 8" "?l + tmp = 32"
    using assms by (auto simp: in_ok_def)
  have "32 - ?l - tmp = 0" using o(6) by simp
  with top_or [OF o(2,3) drop_top_byte [OF o(4), of "ib_cur s"]] o(6)
  have t: "top_bits 32 (ib_d32 s OR ucast ?v) = top_bits ?l (ib_d32 s) @ nbits tmp ?v" by simp
  have c: "nbits tmp ?v @ nbits (?m - tmp) (drop_bit (8 - ?m) (ib_cur s)) = nbits ?m (drop_bit (8 - ?m) (ib_cur s))"
    using nbits_add [of tmp "?m - tmp" "drop_bit (8 - ?m) (ib_cur s)"] assms(4) o(5) by (simp add: drop_bit_drop_bit)
  have p: "nbits (?m - tmp) (drop_bit (8 - (?m - tmp)) (push_bit tmp (ib_cur s))) = nbits (?m - tmp) (drop_bit (8 - ?m) (ib_cur s))"
    using assms(4) o(5) by (intro nbits_eqI) (auto simp: bit_drop_bit_eq bit_push_bit_iff intro!: arg_cong [of _ _ "bit (ib_cur s)"])
  let ?s = "s\<lparr>ib_d32 := ib_d32 s OR ucast ?v, ib_left := 32\<rparr>"
  show "in_ok (more_bits_done tmp s)" "in_full (more_bits_done tmp s)"
    using o(5) by (auto simp: more_bits_done_def Let_def in_ok_def in_full_def fetch_def split: list.splits)
  show "coming (more_bits_done tmp s) = coming s"
  proof (cases "tmp < ?m")
    case True
    then show ?thesis using t c p by (simp add: more_bits_done_def Let_def coming_def)
  next
    case False
    then have "?m = tmp" using assms(4) by simp
    then show ?thesis using t by (simp add: more_bits_done_def Let_def coming_def fetch_def split: list.splits)
  qed
qed

lemma more_bits_ok:
  "in_ok s \<Longrightarrow> int tmp = 32 - ib_left s \<Longrightarrow> bs = ib_rest s \<Longrightarrow>
    in_ok (more_bits tmp bs s) \<and> coming (more_bits tmp bs s) = coming s \<and> in_full (more_bits tmp bs s)"
proof (induction tmp bs s rule: more_bits.induct)
  case (1 tmp bs s)
  note ok = \<open>in_ok s\<close> and need = \<open>int tmp = _\<close> and rest = \<open>bs = ib_rest s\<close>
  consider "tmp = 0" | "0 < tmp" "ib_cur_left s < tmp" | "0 < tmp" "tmp \<le> ib_cur_left s" by linarith
  then show ?case
  proof cases
    case 1
    with need show ?thesis using ok by (subst (1 2 3) more_bits.simps) (simp add: in_full_def)
  next
    case 2
    have le: "int (ib_cur_left s) \<le> 32 - ib_left s" using 2 need by simp
    note t = take_cur_ok [OF ok le]
    show ?thesis
    proof (cases bs)
      case Nil
      then show ?thesis using t 2 rest by (simp add: more_bits.simps [of tmp] in_full_def)
    next
      case (Cons b bs')
      note f = fetch_ok [OF t(4) t(1)]
      have "in_ok (more_bits (tmp - ib_cur_left s) bs' (fetch (take_cur s))) \<and>
        coming (more_bits (tmp - ib_cur_left s) bs' (fetch (take_cur s))) = coming (fetch (take_cur s)) \<and>
        in_full (more_bits (tmp - ib_cur_left s) bs' (fetch (take_cur s)))"
        using 2 Cons f t need rest by (intro 1(1)) auto
      then show ?thesis using f(2) t(2) 2 Cons by (simp add: more_bits.simps [of tmp])
    qed
  next
    case 3
    then show ?thesis using more_bits_done_ok [OF ok need] by (simp add: more_bits.simps [of tmp])
  qed
qed

lemma get_more_bits_ok:
  assumes "in_ok s"
  shows "in_ok (get_more_bits s)" "coming (get_more_bits s) = coming s" "in_full (get_more_bits s)"
  using more_bits_ok [OF assms, of "nat (32 - ib_left s)" "ib_rest s"] assms by (simp_all add: get_more_bits_def in_ok_def)

lemma load_initial_ok:
  "n \<le> 4 \<Longrightarrow> take_bit (8 * n) d = 0 \<Longrightarrow> tmp = 8 * (n - 1) \<Longrightarrow>
    \<exists>d'. load_initial n tmp d bs = (d', 8 * min n (length bs), drop n bs)
      \<and> top_bits (32 - 8 * n + 8 * min n (length bs)) d' = top_bits (32 - 8 * n) d @ bits_of (take n bs)
      \<and> take_bit (8 * n - 8 * min n (length bs)) d' = 0"
proof (induction n tmp d bs rule: load_initial.induct)
  case (1 n tmp d b bs)
  let ?d = "d OR push_bit tmp (ucast b)"
  have l: "32 - 8 * Suc n + 8 = 32 - 8 * n" "32 - (32 - 8 * Suc n) - 8 = tmp" "32 - (32 - 8 * Suc n) = 8 * Suc n" "tmp = 8 * n" "tmp - 8 = 8 * (n - 1)"
    using 1(2,4) by simp_all
  have "drop_bit 8 b = 0" by (rule bit_word_eqI) (simp add: bit_drop_bit_eq)
  with top_or [of "32 - 8 * Suc n" d 8 b] 1(2,3) l
  have t: "top_bits (32 - 8 * n) ?d = top_bits (32 - 8 * Suc n) d @ nbits 8 b" "take_bit (8 * n) ?d = 0" by simp_all
  obtain d' where "load_initial n (tmp - 8) ?d bs = (d', 8 * min n (length bs), drop n bs)"
    "top_bits (32 - 8 * n + 8 * min n (length bs)) d' = top_bits (32 - 8 * n) ?d @ bits_of (take n bs)"
    "take_bit (8 * n - 8 * min n (length bs)) d' = 0"
    using 1(1) [OF _ t(2) l(5)] 1(2) by auto
  moreover have "32 - 8 * n + 8 * min n (length bs) = 32 - 8 * Suc n + 8 * min (Suc n) (length (b # bs))"
    "8 * n - 8 * min n (length bs) = 8 * Suc n - 8 * min (Suc n) (length (b # bs))"
    using 1(2) by (simp_all add: min_def)
  ultimately show ?case using t(1) by (auto simp: min_def)
qed auto

lemma start_bits_ok: "in_ok (start_bits cbuf)" "coming (start_bits cbuf) = bits_of cbuf" "in_full (start_bits cbuf)"
proof -
  obtain d where d: "load_initial 4 24 0 cbuf = (d, 8 * min 4 (length cbuf), drop 4 cbuf)" "top_bits (8 * min 4 (length cbuf)) d = bits_of (take 4 cbuf)"
    "take_bit (32 - 8 * min 4 (length cbuf)) d = 0"
    using load_initial_ok [of 4 0 24 cbuf] by auto
  let ?s = "\<lparr>ib_d32 = d, ib_left = int (8 * min 4 (length cbuf)), ib_cur = 0, ib_cur_left = 0, ib_rest = drop 4 cbuf\<rparr>"
  have s: "start_bits cbuf = fetch ?s" by (simp add: start_bits_def d(1))
  have ok: "in_ok ?s" using d(3) by (simp add: in_ok_def nat_mult_distrib)
  have c: "coming ?s = bits_of cbuf" using d(2) bits_of_simps(3) [of "take 4 cbuf" "drop 4 cbuf"] by (simp add: coming_def nat_mult_distrib)
  have f: "in_full ?s" by (simp add: in_full_def min_def)
  show "in_ok (start_bits cbuf)" "coming (start_bits cbuf) = bits_of cbuf" "in_full (start_bits cbuf)"
    unfolding s using fetch_ok [OF _ ok] c f by simp_all
qed

text \<open>What the 32 bits begin with when the bits to come begin with a number.\<close>

lemma nbits_inj:
  fixes x y :: "'a::len word"
  assumes "nbits n x = nbits n y" "drop_bit n x = 0" "drop_bit n y = 0"
  shows "x = y"
proof (rule bit_word_eqI)
  fix i
  show "bit x i = bit y i"
  proof (cases "i < n")
    case True
    with arg_cong [OF assms(1), of "\<lambda>xs. xs ! (n - 1 - i)"] show ?thesis by (simp add: nth_nbits)
  next
    case False
    with bits_above [OF assms(2), of i] bits_above [OF assms(3), of i] show ?thesis by simp
  qed
qed

lemma drop_32: "drop_bit n (drop_bit (32 - n) d) = 0" for d :: u32
  by (rule bit_word_eqI) (auto simp: bit_drop_bit_eq dest: bit_imp_le_length)

lemma peek:
  assumes "in_ok s" "in_full s" "coming s = nbits n v @ r" "n \<le> 32" "drop_bit n v = 0"
  shows "drop_bit (32 - n) (ib_d32 s) = v" "in_ok (skip_bits n s)" "coming (skip_bits n s) = r"
proof -
  let ?l = "nat (ib_left s)" and ?d = "ib_d32 s"
  let ?after = "nbits (ib_cur_left s) (drop_bit (8 - ib_cur_left s) (ib_cur s)) @ bits_of (ib_rest s)"
  have o: "0 \<le> ib_left s" "?l \<le> 32" "take_bit (32 - ?l) ?d = 0" "ib_cur_left s \<le> 8" using assms(1) by (auto simp: in_ok_def)
  have "length (coming s) = n + length r" by (simp add: assms(3))
  then have n: "n \<le> ?l" using assms(2,4) by (auto simp: in_full_def coming_def)
  have "top_bits ?l ?d = nbits n (drop_bit (?l - n) (drop_bit (32 - ?l) ?d)) @ nbits (?l - n) (drop_bit (32 - ?l) ?d)"
    using nbits_add [of n "?l - n" "drop_bit (32 - ?l) ?d"] n by (simp add: top_bits_def)
  moreover have "drop_bit (?l - n) (drop_bit (32 - ?l) ?d) = drop_bit (32 - n) ?d" using n o(2) by (simp add: drop_bit_drop_bit)
  ultimately have c: "nbits n (drop_bit (32 - n) ?d) @ nbits (?l - n) (drop_bit (32 - ?l) ?d) @ ?after = nbits n v @ r"
    using assms(3) by (simp add: coming_def)
  then have c1: "nbits n (drop_bit (32 - n) ?d) = nbits n v" and c2: "nbits (?l - n) (drop_bit (32 - ?l) ?d) @ ?after = r"
    by (metis append_eq_append_conv length_nbits)+
  show "drop_bit (32 - n) ?d = v" by (rule nbits_inj [OF c1 drop_32 assms(5)])
  have "top_bits (?l - n) (push_bit n ?d) = nbits (?l - n) (drop_bit (32 - ?l) ?d)"
    unfolding top_bits_def using n o(2) by (intro nbits_eqI) (auto simp: bit_drop_bit_eq bit_push_bit_iff)
  moreover have l: "nat (ib_left s - int n) = ?l - n" using n by simp
  ultimately show "coming (skip_bits n s) = r" using c2 by (simp add: coming_def skip_bits_def)
  have "take_bit (32 - (?l - n)) (push_bit n ?d) = 0"
  proof (rule bit_word_eqI)
    fix i
    have "\<not> bit ?d (i - n)" if "i < 32 - (?l - n)" "n \<le> i" using that n o(2) by (intro bits_below [OF o(3)]) simp
    then show "bit (take_bit (32 - (?l - n)) (push_bit n ?d)) i = bit (0 :: u32) i" by (auto simp: bit_take_bit_iff bit_push_bit_iff)
  qed
  then show "in_ok (skip_bits n s)" using o n l assms(1) by (auto simp: in_ok_def skip_bits_def)
qed

end
