(* ===== verification/Mppc_Codes.thy ===== *)
theory Mppc_Codes
  imports Mppc_Bits
begin

text \<open>
  The codes of the bulk compressors: the decompressor takes the code of a literal, of a copy offset and of a length of match for what
  the compressor wrote it for.
\<close>

subsection \<open>Literals, offsets and lengths\<close>

lemma top_test:
  fixes d v :: u32
  assumes "m + j = 32" "drop_bit j v = 0"
  shows "d AND push_bit m (mask j) = push_bit m v \<longleftrightarrow> drop_bit m d = v"
proof
  assume eq: "d AND push_bit m (mask j) = push_bit m v"
  show "drop_bit m d = v"
  proof (rule bit_word_eqI)
    fix i :: nat assume "i < LENGTH(32)"
    show "bit (drop_bit m d) i = bit v i"
    proof (cases "i < j")
      case True
      with arg_cong [OF eq, of "\<lambda>x. bit x (m + i)"] assms(1) show ?thesis
        by (simp add: bit_drop_bit_eq bit_and_iff bit_push_bit_iff bit_mask_iff)
    next
      case False
      with bits_above [OF assms(2), of i] assms(1) show ?thesis by (auto simp: bit_drop_bit_eq dest: bit_imp_le_length)
    qed
  qed
next
  assume "drop_bit m d = v"
  then show "d AND push_bit m (mask j) = push_bit m v"
    using assms(1) by (intro bit_word_eqI) (auto simp: bit_drop_bit_eq bit_and_iff bit_push_bit_iff bit_mask_iff)
qed

lemma token_tests:
  fixes d :: u32
  shows "d AND 0x80000000 = 0 \<longleftrightarrow> drop_bit 31 d = 0" "d AND 0xc0000000 = 0x80000000 \<longleftrightarrow> drop_bit 30 d = 2"
    "d AND 0xf0000000 = 0xf0000000 \<longleftrightarrow> drop_bit 28 d = 15" "d AND 0xf0000000 = 0xe0000000 \<longleftrightarrow> drop_bit 28 d = 14"
    "d AND 0xf8000000 = 0xf8000000 \<longleftrightarrow> drop_bit 27 d = 31" "d AND 0xf8000000 = 0xf0000000 \<longleftrightarrow> drop_bit 27 d = 30"
  using top_test [of 31 1 0 d] top_test [of 30 2 2 d] top_test [of 28 4 15 d] top_test [of 28 4 14 d] top_test [of 27 5 31 d] top_test [of 27 5 30 d]
  by (simp_all add: mask_eq_exp_minus_1)

lemma shift_out:
  fixes d :: u32
  assumes "h + p \<le> 32"
  shows "drop_bit (32 - p) (push_bit h d) = take_bit p (drop_bit (32 - (h + p)) d)"
  by (rule bit_word_eqI) (use assms in \<open>auto simp: bit_drop_bit_eq bit_push_bit_iff bit_take_bit_iff algebra_simps dest: bit_imp_le_length\<close>)

text \<open>A literal.\<close>

definition literal_code :: "u8 \<Rightarrow> nat \<times> u32" where
  "literal_code c = (if has c 0x80 then (9, push_bit 7 0x02 OR (ucast c AND 0x7F)) else (8, ucast c))"

lemma encode_literal_code: "encode_literal k c = insert_n_bits k (fst (literal_code c)) (snd (literal_code c))"
  by (simp add: fun_eq_iff encode_literal_def literal_code_def)

lemma bit_128: "bit (0x80 :: u8) i \<longleftrightarrow> i = 7"
proof -
  have "(0x80 :: u8) = push_bit 7 1" by simp
  then show ?thesis by (simp only: bit_push_bit_iff bit_1_iff) auto
qed

lemma has_128: "has c 0x80 \<longleftrightarrow> bit c 7" for c :: u8
  using and_exp_eq_0_iff_not_bit [of c 7] by (simp add: has_def)

lemma literal_size: "drop_bit (fst (literal_code c)) (snd (literal_code c)) = 0" "8 \<le> fst (literal_code c)" "fst (literal_code c) \<le> 9"
proof -
  have m: "(0x7F :: u32) = mask 7" by (simp add: mask_eq_exp_minus_1)
  have "drop_bit 9 (push_bit 7 2 OR (ucast c AND mask 7) :: u32) = 0" "drop_bit 8 (ucast c :: u32) = 0"
    by (rule bit_word_eqI; auto simp: bit_drop_bit_eq bit_or_iff bit_and_iff bit_mask_iff bit_ucast_iff dest: bit_imp_le_length)+
  then show "drop_bit (fst (literal_code c)) (snd (literal_code c)) = 0" unfolding literal_code_def m by simp
  show "8 \<le> fst (literal_code c)" "fst (literal_code c) \<le> 9" by (simp_all add: literal_code_def)
qed

lemma token_literal:
  assumes "drop_bit (32 - fst (literal_code c)) d = snd (literal_code c)"
  shows "token k d = (fst (literal_code c), Inl c)"
proof (cases "has c 0x80")
  case False
  then have d: "drop_bit 24 d = ucast c" using assms by (simp add: literal_code_def)
  have "drop_bit 31 d = drop_bit 7 (drop_bit 24 d)" by (simp add: drop_bit_drop_bit)
  also have "\<dots> = 0" unfolding d
  proof (rule bit_word_eqI)
    fix i
    show "bit (drop_bit 7 (ucast c :: u32)) i = bit (0 :: u32) i"
      using False bit_imp_le_length [of c "7 + i"] by (cases "i = 0") (auto simp: has_128 bit_drop_bit_eq bit_ucast_iff)
  qed
  finally have "drop_bit 31 d = 0" .
  moreover have "ucast (ucast c :: u32) = c" by (rule bit_word_eqI) (simp add: bit_ucast_iff)
  ultimately show ?thesis using False d by (simp add: token_def token_tests literal_code_def)
next
  case True
  have m: "(0x7F :: u32) = mask 7" by (simp add: mask_eq_exp_minus_1)
  have d: "drop_bit 23 d = push_bit 7 2 OR (ucast c AND mask 7)" using assms True unfolding literal_code_def m by simp
  have low: "drop_bit 7 (ucast c AND mask 7 :: u32) = 0" by (rule take_bit_above)
  have "drop_bit 30 d = drop_bit 7 (drop_bit 23 d)" by (simp add: drop_bit_drop_bit)
  also have "\<dots> = drop_bit 7 (push_bit 7 2 :: u32)" unfolding d by (rule drop_or [OF low])
  finally have h: "drop_bit 30 d = 2" by simp
  then have "drop_bit 31 d \<noteq> 0" using drop_bit_drop_bit [of 1 30 d] by auto
  moreover have "drop_bit 25 (push_bit 2 d) = take_bit 7 (drop_bit 23 d)" using shift_out [of 2 7 d] by simp
  moreover have "ucast (take_bit 7 (drop_bit 23 d)) OR 0x80 = c"
  proof (rule bit_word_eqI)
    fix i :: nat assume i: "i < LENGTH(8)"
    have "bit (ucast (take_bit 7 (drop_bit 23 d)) OR (0x80 :: u8)) i \<longleftrightarrow> (i < 7 \<and> bit c i) \<or> i = 7"
      unfolding d using i by (simp only: bit_or_iff bit_and_iff bit_mask_iff bit_ucast_iff bit_take_bit_iff bit_push_bit_iff bit_128) auto
    moreover have "i < 7 \<or> i = 7" using i by auto
    ultimately show "bit (ucast (take_bit 7 (drop_bit 23 d)) OR (0x80 :: u8)) i = bit c i"
      using True by (auto simp only: has_128)
  qed
  ultimately show ?thesis using True h by (simp add: token_def token_tests literal_code_def)
qed

text \<open>A header of \<open>h\<close> bits and a number of \<open>p\<close> bits behind it.\<close>

lemma of_nat_bits: "x < 2 ^ p \<Longrightarrow> p \<le> 32 \<Longrightarrow> drop_bit p (of_nat x :: u32) = 0"
proof -
  assume x: "x < 2 ^ p" "p \<le> 32"
  then have "x < 2 ^ 32" using power_increasing [of p 32 "2 :: nat"] by linarith
  then have "unat (of_nat x :: u32) = x" by (simp add: unat_of_nat take_bit_nat_eq_self)
  moreover have "unat (drop_bit p (of_nat x :: u32)) = drop_bit p (take_bit 32 (unat (of_nat x :: u32)))"
    by (simp only: unsigned_drop_bit_eq) simp
  ultimately have "unat (drop_bit p (of_nat x :: u32)) = 0" using x \<open>x < 2 ^ 32\<close> by (simp add: take_bit_nat_eq_self drop_bit_eq_div)
  then show ?thesis by (simp only: unat_eq_zero)
qed

lemma code_parts:
  fixes hdr :: u32
  assumes "x < 2 ^ p" "h + p \<le> 32" "drop_bit h hdr = 0"
  shows "drop_bit p (push_bit p hdr OR of_nat x) = hdr" "take_bit p (push_bit p hdr OR of_nat x) = of_nat x"
    "drop_bit (h + p) (push_bit p hdr OR of_nat x) = 0"
proof -
  note x = of_nat_bits [OF assms(1)]
  have p: "p \<le> 32" using assms(2) by simp
  show d: "drop_bit p (push_bit p hdr OR of_nat x) = hdr"
    unfolding drop_or [OF x [OF p]]
  proof (rule bit_word_eqI)
    fix i
    show "bit (drop_bit p (push_bit p hdr)) i = bit hdr i"
      using bits_above [OF assms(3), of i] assms(2) by (cases "h \<le> i") (auto simp: bit_drop_bit_eq bit_push_bit_iff)
  qed
  have "drop_bit (h + p) (push_bit p hdr OR of_nat x) = drop_bit h (drop_bit p (push_bit p hdr OR of_nat x))" by (simp add: drop_bit_drop_bit add.commute)
  then show "drop_bit (h + p) (push_bit p hdr OR of_nat x) = 0" unfolding d assms(3) .
  show "take_bit p (push_bit p hdr OR of_nat x) = of_nat x"
    by (rule bit_word_eqI) (use bits_above [OF x [OF p]] in \<open>auto simp: bit_take_bit_iff bit_or_iff bit_push_bit_iff not_le [symmetric]\<close>)
qed

lemma tuple_head:
  fixes hdr d :: u32
  assumes "drop_bit (32 - (h + p)) d = push_bit p hdr OR of_nat x" "x < 2 ^ p" "h + p \<le> 32" "drop_bit h hdr = 0"
  shows "drop_bit (32 - h) d = hdr" "drop_bit (32 - p) (push_bit h d) = of_nat x"
proof -
  note c = code_parts [OF assms(2-4)]
  have "drop_bit (32 - h) d = drop_bit p (drop_bit (32 - (h + p)) d)" using assms(3) by (simp add: drop_bit_drop_bit)
  then show "drop_bit (32 - h) d = hdr" unfolding assms(1) c(1) .
  show "drop_bit (32 - p) (push_bit h d) = of_nat x" unfolding shift_out [OF assms(3)] assms(1) by (rule c(2))
qed

definition offset_max :: "mppc \<Rightarrow> nat" where
  "offset_max k = (case k of Mppc40 \<Rightarrow> 8191 | Mppc50 \<Rightarrow> 65535)"

lemma ucast_of_nat_16: "x < 65536 \<Longrightarrow> ucast (of_nat x :: u32) = (of_nat x :: u16)"
proof -
  assume x: "x < 65536"
  then have "unat (ucast (of_nat x :: u32) :: u16) = x" "unat (of_nat x :: u16) = x"
    by (simp_all add: unsigned_ucast_eq unat_of_nat take_bit_nat_eq_self)
  then show ?thesis by (simp only: word_unat_eq_iff)
qed

text \<open>The rows of the two tables of offsets: bits of the header and of the number, the header, and the first offset of the row.\<close>

definition offset_rows :: "mppc \<Rightarrow> (nat \<times> nat \<times> u32 \<times> nat) list" where
  "offset_rows k = (case k of
     Mppc40 \<Rightarrow> [(4, 6, 15, 0), (4, 8, 14, 64), (3, 13, 6, 320)]
   | Mppc50 \<Rightarrow> [(5, 6, 31, 0), (5, 8, 30, 64), (4, 11, 14, 320), (3, 16, 6, 2368)])"

lemma offset_code_row:
  assumes "off \<le> offset_max k"
  obtains h p hdr base x where "(h, p, hdr, base) \<in> set (offset_rows k)" "offset_code k off = (h + p, push_bit p hdr OR of_nat x)"
    "x < 2 ^ p" "off = base + x"
proof (cases k)
  case Mppc40
  consider "off \<le> 0x3F" | "0x3F < off" "off \<le> 0x13F" | "0x13F < off" by linarith
  then show ?thesis
  proof cases
    case 1 then show ?thesis using Mppc40 by (intro that [of 4 6 15 0 off]) (simp_all add: offset_rows_def offset_code_def)
  next
    case 2
    then obtain x where "off = 64 + x" using le_Suc_ex [of 64 off] by auto
    then show ?thesis using 2 Mppc40 by (intro that [of 4 8 14 64 x]) (simp_all add: offset_rows_def offset_code_def)
  next
    case 3
    then obtain x where "off = 320 + x" using le_Suc_ex [of 320 off] by auto
    then show ?thesis using 3 Mppc40 assms by (intro that [of 3 13 6 320 x]) (simp_all add: offset_rows_def offset_code_def offset_max_def)
  qed
next
  case Mppc50
  consider "off \<le> 0x3F" | "0x3F < off" "off \<le> 0x13F" | "0x13F < off" "off \<le> 0x93F" | "0x93F < off" by linarith
  then show ?thesis
  proof cases
    case 1 then show ?thesis using Mppc50 by (intro that [of 5 6 31 0 off]) (simp_all add: offset_rows_def offset_code_def)
  next
    case 2
    then obtain x where "off = 64 + x" using le_Suc_ex [of 64 off] by auto
    then show ?thesis using 2 Mppc50 by (intro that [of 5 8 30 64 x]) (simp_all add: offset_rows_def offset_code_def)
  next
    case 3
    then obtain x where "off = 320 + x" using le_Suc_ex [of 320 off] by auto
    then show ?thesis using 3 Mppc50 by (intro that [of 4 11 14 320 x]) (simp_all add: offset_rows_def offset_code_def)
  next
    case 4
    then obtain x where "off = 2368 + x" using le_Suc_ex [of 2368 off] by auto
    then show ?thesis using 4 Mppc50 assms by (intro that [of 3 16 6 2368 x]) (simp_all add: offset_rows_def offset_code_def offset_max_def)
  qed
qed

lemma row_sizes:
  assumes "(h, p, hdr, base) \<in> set (offset_rows k)"
  shows "10 \<le> h + p" "h + p \<le> 19" "drop_bit h hdr = 0" "base + 2 ^ p \<le> 8512 \<or> k = Mppc50" "p \<le> 16"
  using assms by (auto simp: offset_rows_def split: mppc.splits)

lemma token_row:
  assumes "(h, p, hdr, base) \<in> set (offset_rows k)" "drop_bit (32 - h) d = hdr"
  shows "token k d = (h + p, Inr (ucast (drop_bit (32 - p) (push_bit h d)) + of_nat base))"
proof -
  have e: "drop_bit 1 (15 :: u32) = 7" "drop_bit 1 (14 :: u32) = 7" "drop_bit 1 (31 :: u32) = 15" "drop_bit 1 (30 :: u32) = 15"
    "drop_bit 1 (7 :: u32) = 3" "drop_bit 2 (7 :: u32) = 1" "drop_bit 1 (6 :: u32) = 3" "drop_bit 2 (6 :: u32) = 1"
    by simp_all
  have s: "drop_bit 28 d = drop_bit 1 (drop_bit 27 d)" "drop_bit 29 d = drop_bit 1 (drop_bit 28 d)"
    "drop_bit 30 d = drop_bit 1 (drop_bit 29 d)" "drop_bit 31 d = drop_bit 2 (drop_bit 29 d)"
    by (simp_all add: drop_bit_drop_bit)
  have c: "drop_bit 27 d = 31 \<Longrightarrow> drop_bit 28 d = 15" "drop_bit 27 d = 30 \<Longrightarrow> drop_bit 28 d = 15"
    "drop_bit 28 d = 15 \<Longrightarrow> drop_bit 29 d = 7" "drop_bit 28 d = 14 \<Longrightarrow> drop_bit 29 d = 7"
    "drop_bit 29 d = 7 \<Longrightarrow> drop_bit 30 d = 3" "drop_bit 29 d = 7 \<Longrightarrow> drop_bit 31 d = 1"
    "drop_bit 29 d = 6 \<Longrightarrow> drop_bit 30 d = 3" "drop_bit 29 d = 6 \<Longrightarrow> drop_bit 31 d = 1"
    using s by (simp_all only: e)
  have n: "drop_bit 28 d = 14 \<Longrightarrow> drop_bit 27 d \<noteq> 31 \<and> drop_bit 27 d \<noteq> 30"
    "drop_bit 29 d = 6 \<Longrightarrow> drop_bit 28 d \<noteq> 15 \<and> drop_bit 28 d \<noteq> 14 \<and> drop_bit 27 d \<noteq> 31 \<and> drop_bit 27 d \<noteq> 30"
    using c(1-4) by auto
  consider "k = Mppc40" "drop_bit 28 d = 15" "h = 4" "p = 6" "base = 0" | "k = Mppc40" "drop_bit 28 d = 14" "h = 4" "p = 8" "base = 64"
    | "k = Mppc40" "drop_bit 29 d = 6" "h = 3" "p = 13" "base = 320" | "k = Mppc50" "drop_bit 27 d = 31" "h = 5" "p = 6" "base = 0"
    | "k = Mppc50" "drop_bit 27 d = 30" "h = 5" "p = 8" "base = 64" | "k = Mppc50" "drop_bit 28 d = 14" "h = 4" "p = 11" "base = 320"
    | "k = Mppc50" "drop_bit 29 d = 6" "h = 3" "p = 16" "base = 2368"
    using assms by (auto simp: offset_rows_def split: mppc.splits)
  then show ?thesis
  proof cases
    case 1 with c(3,5,6) show ?thesis by (simp add: token_def token_tests)
  next
    case 2 with c(4,5,6) show ?thesis by (simp add: token_def token_tests)
  next
    case 3 with c(7,8) n(2) show ?thesis by (simp add: token_def token_tests)
  next
    case 4 with c(1,3,5,6) show ?thesis by (simp add: token_def token_tests)
  next
    case 5 with c(2,3,5,6) show ?thesis by (simp add: token_def token_tests)
  next
    case 6 with c(4,5,6) n(1) show ?thesis by (simp add: token_def token_tests)
  next
    case 7 with c(7,8) n(2) show ?thesis by (simp add: token_def token_tests)
  qed
qed

lemma offset_size:
  assumes "off \<le> offset_max k"
  shows "drop_bit (fst (offset_code k off)) (snd (offset_code k off)) = 0" "10 \<le> fst (offset_code k off)" "fst (offset_code k off) \<le> 19"
proof -
  obtain h p hdr base x where r: "(h, p, hdr, base) \<in> set (offset_rows k)" "offset_code k off = (h + p, push_bit p hdr OR of_nat x)" "x < 2 ^ p"
    by (rule offset_code_row [OF assms])
  note z = row_sizes [OF r(1)]
  have "h + p \<le> 32" using z(2) by simp
  from code_parts(3) [OF r(3) this z(3)] show "drop_bit (fst (offset_code k off)) (snd (offset_code k off)) = 0" using r(2) by simp
  show "10 \<le> fst (offset_code k off)" "fst (offset_code k off) \<le> 19" using r(2) z by simp_all
qed

lemma token_offset:
  assumes "off \<le> offset_max k" "drop_bit (32 - fst (offset_code k off)) d = snd (offset_code k off)"
  shows "token k d = (fst (offset_code k off), Inr (of_nat off))"
proof -
  obtain h p hdr base x where r: "(h, p, hdr, base) \<in> set (offset_rows k)" "offset_code k off = (h + p, push_bit p hdr OR of_nat x)" "x < 2 ^ p" "off = base + x"
    by (rule offset_code_row [OF assms(1)])
  note z = row_sizes [OF r(1)]
  have le: "h + p \<le> 32" using z(2) by simp
  have "x < 65536" using r(3) z(5) power_increasing [of p 16 "2 :: nat"] by simp
  moreover note t = tuple_head [OF _ r(3) le z(3), of d]
  ultimately show ?thesis using token_row [OF r(1) t(1)] t(2) assms(2) r(2,4) by (simp add: ucast_of_nat_16 add.commute)
qed

text \<open>Lengths of match.\<close>

lemma log2_range: "0 < n \<Longrightarrow> 2 ^ log2 n \<le> n \<and> n < 2 ^ Suc (log2 n)"
proof (induction n rule: log2.induct)
  case (1 n)
  show ?case
  proof (cases "n < 2")
    case True
    then have "n = 1" using 1(2) by simp
    then show ?thesis by (simp add: log2.simps)
  next
    case False
    then have "2 ^ log2 (n div 2) \<le> n div 2 \<and> n div 2 < 2 ^ Suc (log2 (n div 2))" using 1(1) by simp
    then have "2 * 2 ^ log2 (n div 2) \<le> n \<and> n < 2 * 2 ^ Suc (log2 (n div 2))" by linarith
    then show ?thesis using False by (simp add: log2.simps [of n])
  qed
qed

lemma log2_between:
  assumes "2 ^ a \<le> n" "n < 2 ^ b"
  shows "a \<le> log2 n" "log2 n < b"
proof -
  have r: "2 ^ log2 n \<le> n" "n < 2 ^ Suc (log2 n)" using log2_range [of n] less_le_trans [OF _ assms(1), of 0] by simp_all
  from assms(1) r(2) have "(2 :: nat) ^ a < 2 ^ Suc (log2 n)" by linarith
  then have "a < Suc (log2 n)" by (simp only: power_strict_increasing_iff)
  then show "a \<le> log2 n" by simp
  from assms(2) r(1) have "(2 :: nat) ^ log2 n < 2 ^ b" by linarith
  then show "log2 n < b" by (simp only: power_strict_increasing_iff)
qed

lemma bit_ones: "0 < j \<Longrightarrow> bit (mask j - 1 :: u32) i \<longleftrightarrow> 0 < i \<and> i < j \<and> i < 32"
proof -
  assume "0 < j"
  then obtain n where Suc: "j = Suc n" by (cases j) auto
  have "mask (Suc n) = (2 ^ n + mask n :: u32)" "mask n + 1 = (2 ^ n :: u32)" by (simp_all add: mask_eq_exp_minus_1)
  then have "mask (Suc n) - 1 = (2 * mask n :: u32)" by (simp add: algebra_simps)
  then have "mask (Suc n) - 1 = push_bit 1 (mask n :: u32)" by (simp add: push_bit_eq_mult mult.commute)
  then show ?thesis unfolding Suc by (simp only: bit_push_bit_iff bit_mask_iff) auto
qed

lemma lom_row_head: "0 < j \<Longrightarrow> j \<le> 32 \<Longrightarrow> lom_row j d \<longleftrightarrow> drop_bit (32 - j) d = mask j - 1"
  unfolding lom_row_def by (rule top_test) (auto intro!: bit_word_eqI simp: bit_drop_bit_eq bit_ones)

lemma ones_apart:
  assumes "0 < j" "j < l" "l \<le> 32" "drop_bit (32 - l) d = (mask l - 1 :: u32)"
  shows "drop_bit (32 - j) d \<noteq> mask j - 1"
proof -
  have "drop_bit (32 - j) d = drop_bit (l - j) (mask l - 1)"
    unfolding assms(4) [symmetric] using assms(2,3) by (simp add: drop_bit_drop_bit)
  then have "bit (drop_bit (32 - j) d) 0" using assms by (simp add: bit_drop_bit_eq bit_ones)
  moreover have "\<not> bit (mask j - 1 :: u32) 0" using assms(1) by (simp add: bit_ones)
  ultimately show ?thesis by metis
qed

lemma find_lom_row:
  assumes "0 < a" "a \<le> l" "l < b" "l \<le> 16" "drop_bit (32 - l) d = mask l - 1"
  shows "find_lom [a..<b] d = (2 * l, unat (drop_bit (32 - 2 * l) d AND mask l) + 2 ^ l)"
  using assms(1,2)
proof (induction "l - a" arbitrary: a)
  case 0
  then have "a = l" by simp
  then show ?case using 0 assms(3-5) by (simp add: upt_conv_Cons lom_row_head)
next
  case (Suc n)
  then have "a < l" by simp
  moreover have "\<not> lom_row a d"
    using ones_apart [OF \<open>0 < a\<close> \<open>a < l\<close> _ assms(5)] lom_row_head [of a d] assms(4) Suc(3) \<open>a < l\<close> by simp
  moreover have "find_lom [Suc a..<b] d = (2 * l, unat (drop_bit (32 - 2 * l) d AND mask l) + 2 ^ l)"
    using Suc \<open>a < l\<close> by (intro Suc(1)) simp_all
  ultimately show ?case using assms(3) by (simp add: upt_conv_Cons)
qed

definition lom_bits :: "mppc \<Rightarrow> nat" where
  "lom_bits k = (case k of Mppc40 \<Rightarrow> 13 | Mppc50 \<Rightarrow> 16)"

lemma lom_header:
  assumes "2 \<le> l" "l < lom_bits k"
  shows "mask l AND (case k of Mppc40 \<Rightarrow> 0xFFE | Mppc50 \<Rightarrow> 0xFFFE) = (mask l - 1 :: u32)"
proof -
  have e: "(0xFFE :: u32) = mask 12 - 1" "(0xFFFE :: u32) = mask 16 - 1" by (simp_all add: mask_eq_exp_minus_1)
  have "(case k of Mppc40 \<Rightarrow> 0xFFE | Mppc50 \<Rightarrow> 0xFFFE) = (mask (case k of Mppc40 \<Rightarrow> 12 | Mppc50 \<Rightarrow> 16) - 1 :: u32)"
    unfolding e by (cases k) simp_all
  then show ?thesis
    using assms by (intro bit_word_eqI) (auto simp: bit_and_iff bit_mask_iff bit_ones lom_bits_def split: mppc.splits)
qed

lemma lom_code_parts:
  assumes "4 \<le> lom" "lom < 2 ^ lom_bits k"
  obtains l x where "2 \<le> l" "l < lom_bits k" "x < 2 ^ l" "lom = 2 ^ l + x" "lom_code k lom = (l + l, push_bit l (mask l - 1) OR of_nat x)"
proof (rule that [of "log2 lom" "lom - 2 ^ log2 lom"])
  have b: "2 \<le> log2 lom" "log2 lom < lom_bits k" using log2_between [of 2 lom] log2_between [OF _ assms(2), of 2] assms(1) by simp_all
  have r: "2 ^ log2 lom \<le> lom" "lom < 2 ^ Suc (log2 lom)" using log2_range [of lom] assms(1) by simp_all
  show "2 \<le> log2 lom" "log2 lom < lom_bits k" by (fact b)+
  show "lom - 2 ^ log2 lom < 2 ^ log2 lom" "lom = 2 ^ log2 lom + (lom - 2 ^ log2 lom)" using r by auto
  have "(of_nat lom :: u32) - push_bit (log2 lom) 1 = of_nat (lom - 2 ^ log2 lom)" using r(1) by (simp add: push_bit_eq_mult)
  then show "lom_code k lom = (log2 lom + log2 lom, push_bit (log2 lom) (mask (log2 lom) - 1) OR of_nat (lom - 2 ^ log2 lom))"
    using assms(1) by (simp add: lom_code_def Let_def lom_header [OF b] del: push_bit_and)
qed

lemma lom_bits_le: "lom_bits k \<le> 16"
  by (cases k) (simp_all add: lom_bits_def)

lemma lom_size:
  assumes "3 \<le> lom" "lom < 2 ^ lom_bits k"
  shows "drop_bit (fst (lom_code k lom)) (snd (lom_code k lom)) = 0" "1 \<le> fst (lom_code k lom)" "fst (lom_code k lom) \<le> 30"
proof -
  have "drop_bit (fst (lom_code k lom)) (snd (lom_code k lom)) = 0 \<and> 1 \<le> fst (lom_code k lom) \<and> fst (lom_code k lom) \<le> 30"
  proof (cases "lom = 3")
    case True
    then show ?thesis by (simp add: lom_code_def)
  next
    case False
    with assms(1) have "4 \<le> lom" by simp
    from lom_code_parts [OF this assms(2)] obtain l x where r: "2 \<le> l" "l < lom_bits k" "x < 2 ^ l"
      "lom_code k lom = (l + l, push_bit l (mask l - 1) OR of_nat x)" by metis
    have "drop_bit l (mask l - 1 :: u32) = 0" using r(1) by (auto intro!: bit_word_eqI simp: bit_drop_bit_eq bit_ones)
    with code_parts(3) [of x l l "mask l - 1"] r lom_bits_le [of k] show ?thesis by simp
  qed
  then show "drop_bit (fst (lom_code k lom)) (snd (lom_code k lom)) = 0" "1 \<le> fst (lom_code k lom)" "fst (lom_code k lom) \<le> 30" by simp_all
qed

lemma match_length_code:
  assumes "3 \<le> lom" "lom < 2 ^ lom_bits k" "drop_bit (32 - fst (lom_code k lom)) d = snd (lom_code k lom)"
  shows "match_length k d = (fst (lom_code k lom), lom)"
proof (cases "lom = 3")
  case True
  then show ?thesis using assms(3) by (simp add: lom_code_def match_length_def token_tests)
next
  case False
  with assms(1) have "4 \<le> lom" by simp
  from lom_code_parts [OF this assms(2)] obtain l x where r: "2 \<le> l" "l < lom_bits k" "x < 2 ^ l" "lom = 2 ^ l + x"
    "lom_code k lom = (l + l, push_bit l (mask l - 1) OR of_nat x)" by metis
  have z: "drop_bit l (mask l - 1 :: u32) = 0" using r(1) by (auto intro!: bit_word_eqI simp: bit_drop_bit_eq bit_ones)
  have l: "l \<le> 16" "l + l \<le> 32" using r(2) lom_bits_le [of k] by simp_all
  have d: "drop_bit (32 - (l + l)) d = push_bit l (mask l - 1) OR of_nat x" using assms(3) r(5) by simp
  from tuple_head(1) [OF d r(3) l(2) z] have h: "drop_bit (32 - l) d = mask l - 1" .
  from ones_apart [OF _ _ _ h, of 1] r(1) l(1) have "drop_bit 31 d \<noteq> 0" by simp
  moreover have "unat (drop_bit (32 - 2 * l) d AND mask l) = x"
  proof -
    have "drop_bit (32 - 2 * l) d AND mask l = of_nat x"
      using d code_parts(2) [OF r(3) l(2) z] by (simp add: take_bit_eq_mask mult_2)
    moreover have "x < 2 ^ 32" using r(3) power_increasing [of l 32 "2 :: nat"] l(1) by linarith
    ultimately show ?thesis by (simp add: unat_of_nat take_bit_nat_eq_self)
  qed
  moreover have "[2..<lom_bits k] = (case k of Mppc40 \<Rightarrow> [2..<13] | Mppc50 \<Rightarrow> [2..<16])" by (cases k) (simp_all only: lom_bits_def mppc.case)
  ultimately show ?thesis
    using find_lom_row [OF _ r(1,2) l(1) h] r(4,5) by (simp add: match_length_def token_tests)
qed

end
