(* ===== verification/Mppc_Link.thy ===== *)
theory Mppc_Link
  imports Mppc_Codes
begin

text \<open>
  The two ends of the bulk compression: a packet of the compressor is a list of literals and copies that gives the data, the
  decompressor replays it, and the histories of the two ends stay in step from packet to packet.
\<close>

subsection \<open>What a packet is made of\<close>

datatype tok = Lit u8 | Copy nat nat

fun tok_bits :: "mppc \<Rightarrow> tok \<Rightarrow> bool list" where
  "tok_bits k (Lit c) = nbits (fst (literal_code c)) (snd (literal_code c))"
| "tok_bits k (Copy off lom) = nbits (fst (offset_code k off)) (snd (offset_code k off)) @ nbits (fst (lom_code k lom)) (snd (lom_code k lom))"

fun tok_ok :: "mppc \<Rightarrow> tok \<Rightarrow> bool" where
  "tok_ok k (Lit c) \<longleftrightarrow> True"
| "tok_ok k (Copy off lom) \<longleftrightarrow> 0 < off \<and> off \<le> offset_max k \<and> 3 \<le> lom \<and> lom < 2 ^ lom_bits k"

fun tok_len :: "tok \<Rightarrow> nat" where
  "tok_len (Lit c) = 1"
| "tok_len (Copy off lom) = lom"

fun tok_makes :: "u8 list \<Rightarrow> nat \<Rightarrow> tok \<Rightarrow> bool" where
  "tok_makes h p (Lit c) \<longleftrightarrow> h ! p = c"
| "tok_makes h p (Copy off lom) \<longleftrightarrow> off \<le> p \<and> (\<forall>i < lom. h ! (p + i) = h ! (p - off + i))"

text \<open>From \<open>p\<close> on the tokens give the bytes of \<open>h\<close> up to \<open>q\<close>.\<close>

fun makes :: "mppc \<Rightarrow> u8 list \<Rightarrow> nat \<Rightarrow> tok list \<Rightarrow> nat \<Rightarrow> bool" where
  "makes k h p [] q \<longleftrightarrow> p = q"
| "makes k h p (t # ts) q \<longleftrightarrow> tok_ok k t \<and> tok_makes h p t \<and> makes k h (p + tok_len t) ts q"

lemma makes_append: "makes k h p ts q \<Longrightarrow> makes k h q us r \<Longrightarrow> makes k h p (ts @ us) r"
  by (induction ts arbitrary: p) auto

lemma tok_size: "tok_ok k t \<Longrightarrow> 8 \<le> length (tok_bits k t) \<and> length (tok_bits k t) \<le> 9 * tok_len t"
proof (cases t)
  case (Lit c)
  then show ?thesis using literal_size [of c] by simp
next
  case (Copy off lom)
  assume ok: "tok_ok k t"
  have l: "off \<le> offset_max k" "3 \<le> lom" "lom < 2 ^ lom_bits k" using ok Copy by simp_all
  have "fst (lom_code k lom) \<le> 1 \<and> lom = 3 \<or> fst (lom_code k lom) \<le> 2 * lom \<and> 4 \<le> lom"
  proof (cases "lom = 3")
    case True
    then show ?thesis by (simp add: lom_code_def)
  next
    case False
    have "log2 lom < 2 ^ log2 lom" by (rule less_exp)
    then have "log2 lom \<le> lom" using log2_range [of lom] l(2) by linarith
    then show ?thesis using False l(2) by (simp add: lom_code_def Let_def)
  qed
  then show ?thesis using offset_size [OF l(1)] l(2) Copy by auto
qed

subsection \<open>What the compressor writes\<close>

lemma encode_literal_written:
  assumes "out_ok k ob" "length (bits_written ob) + 9 < 8 * output_size k"
  shows "\<exists>ob'. encode_literal k c ob = Inr ob' \<and> out_ok k ob' \<and> bits_written ob' = bits_written ob @ tok_bits k (Lit c)"
  using insert_written [OF assms(1) literal_size(1) [of c]] literal_size(3) [of c] assms(2) by (simp add: encode_literal_code)

lemma encode_tuple_written:
  assumes "out_ok k ob" "tok_ok k (Copy off lom)" "length (bits_written ob) + 9 * lom < 8 * output_size k"
  shows "\<exists>ob'. encode_tuple k off lom ob = Inr ob' \<and> out_ok k ob' \<and> bits_written ob' = bits_written ob @ tok_bits k (Copy off lom)"
proof -
  have o: "off \<le> offset_max k" "3 \<le> lom" "lom < 2 ^ lom_bits k" using assms(2) by simp_all
  have s: "length (bits_written ob) + fst (offset_code k off) + fst (lom_code k lom) < 8 * output_size k"
    using tok_size [OF assms(2)] assms(3) by simp
  obtain ob1 where 1: "insert_n_bits k (fst (offset_code k off)) (snd (offset_code k off)) ob = Inr ob1" "out_ok k ob1"
    "bits_written ob1 = bits_written ob @ nbits (fst (offset_code k off)) (snd (offset_code k off))"
    using insert_written [OF assms(1) offset_size(1) [OF o(1)]] s by auto
  obtain ob2 where "insert_n_bits k (fst (lom_code k lom)) (snd (lom_code k lom)) ob1 = Inr ob2" "out_ok k ob2"
    "bits_written ob2 = bits_written ob1 @ nbits (fst (lom_code k lom)) (snd (lom_code k lom))"
    using insert_written [OF 1(2) lom_size(1) [OF o(2,3)]] s 1(3) by auto
  with 1 show ?thesis by (simp add: encode_tuple_def)
qed

lemma encode_literals_written:
  "out_ok k ob \<Longrightarrow> length (bits_written ob) + 9 * length cs < 8 * output_size k \<Longrightarrow>
    \<exists>ob'. encode_literals k cs ob = Inr ob' \<and> out_ok k ob' \<and> bits_written ob' = bits_written ob @ concat (map (tok_bits k) (map Lit cs))"
proof (induction cs arbitrary: ob)
  case Nil
  then show ?case by simp
next
  case (Cons c cs)
  obtain ob1 where 1: "encode_literal k c ob = Inr ob1" "out_ok k ob1" "bits_written ob1 = bits_written ob @ tok_bits k (Lit c)"
    using encode_literal_written [OF Cons(2), of c] Cons(3) by auto
  have "length (bits_written ob1) + 9 * length cs < 8 * output_size k" using 1(3) tok_size [of k "Lit c"] Cons(3) by simp
  from Cons(1) [OF 1(2) this] 1 show ?case by auto
qed

lemma makes_literals:
  "p + length cs \<le> length h \<Longrightarrow> take (length cs) (drop p h) = cs \<Longrightarrow> makes k h p (map Lit cs) (p + length cs)"
proof (induction cs arbitrary: p)
  case Nil
  then show ?case by simp
next
  case (Cons c cs)
  have "drop p h = h ! p # drop (Suc p) h" using Cons(2) by (simp add: Cons_nth_drop_Suc)
  then have "h ! p = c" "take (length cs) (drop (Suc p) h) = cs" using Cons(3) by simp_all
  then show ?case using Cons(1) [of "Suc p"] Cons(2) by simp
qed

lemma output_bits:
  assumes "out_ok k ob"
  shows "\<exists>pad. bits_of (take (compress_size ob) (ob_buf ob)) = bits_written ob @ pad \<and> length pad < 8"
proof (cases "ob_left ob = 8")
  case True
  then show ?thesis by (simp add: compress_size_def bits_written_def)
next
  case False
  let ?b = "ob_buf ob ! ob_index ob"
  have o: "ob_left ob \<le> 8" "ob_index ob < length (ob_buf ob)" using assms by (auto simp: out_ok_def)
  have "nbits 8 ?b = nbits (8 - ob_left ob) (drop_bit (ob_left ob) ?b) @ nbits (ob_left ob) ?b"
    using nbits_add [of "8 - ob_left ob" "ob_left ob" ?b] o(1) by simp
  then have "bits_of (take (compress_size ob) (ob_buf ob)) = bits_written ob @ nbits (ob_left ob) ?b"
    using False o(2) by (simp add: compress_size_def bits_written_def take_Suc_conv_app_nth)
  then show ?thesis using False o(1) by (intro exI [of _ "nbits (ob_left ob) ?b"]) simp
qed

text \<open>
  The table points below the byte being compressed, and the undo buffer leads back to the table the packet began with, unless it is full.
\<close>

definition hash_inv :: "(u16 \<Rightarrow> u16) \<Rightarrow> nat \<Rightarrow> hash_table \<Rightarrow> bool" where
  "hash_inv t0 n ht \<longleftrightarrow> (\<forall>h. unat (ht_table ht h) < n) \<and> length (ht_undo ht) \<le> 256 \<and>
     (length (ht_undo ht) < 256 \<longrightarrow> foldl (\<lambda>t (hash, off). t(hash := off)) (ht_table ht) (ht_undo ht) = t0)"

lemma hash_inv_mono: "hash_inv t0 n ht \<Longrightarrow> n \<le> m \<Longrightarrow> hash_inv t0 m ht"
  by (auto simp: hash_inv_def intro: less_le_trans)

lemma hash_inv_update:
  assumes "hash_inv t0 n ht" "off < m" "n \<le> m" "m \<le> 65536"
  shows "hash_inv t0 m (hash_update h (of_nat off) ht)" "hash_inv t0 m (update_indirect hist off ht)"
proof -
  have "unat (of_nat off :: u16) = off" using assms(2,4) by (simp add: unat_of_nat take_bit_nat_eq_self)
  then show "hash_inv t0 m (hash_update h (of_nat off) ht)" for h
    using hash_inv_mono [OF assms(1,3)] assms(2) by (auto simp: hash_inv_def hash_update_def)
  then show "hash_inv t0 m (update_indirect hist off ht)" by (simp add: update_indirect_def)
qed

lemma extend_match_ok:
  "hash_inv t0 (off + lom) ht \<Longrightarrow> 0 < lom \<Longrightarrow> off + lom + n \<le> 65536 \<Longrightarrow> \<forall>i < lom. h ! (off + i) = h ! (prev + i) \<Longrightarrow>
    extend_match h off prev lom n ht = (l, ht') \<Longrightarrow>
    lom \<le> l \<and> l \<le> lom + n \<and> hash_inv t0 (off + l) ht' \<and> (\<forall>i < l. h ! (off + i) = h ! (prev + i))"
proof (induction h off prev lom n ht rule: extend_match.induct)
  case (1 h off prev lom ht)
  then show ?case by simp
next
  case (2 h off prev lom n ht)
  let ?ht = "update_indirect h (off + lom - 1) ht"
  have u: "hash_inv t0 m ?ht" if "off + lom \<le> m" "m \<le> 65536" for m
    using hash_inv_update(2) [OF 2(2) _ that, of "off + lom - 1" h] 2(3) that by simp
  show ?case
  proof (cases "h ! (off + lom) = h ! (prev + lom)")
    case False
    then show ?thesis using 2(3,4,5,6) u [of "off + lom"] by (auto simp: Let_def)
  next
    case True
    have "\<forall>i < lom + 1. h ! (off + i) = h ! (prev + i)" using 2(5) True by (auto simp: less_Suc_eq)
    moreover have "extend_match h off prev (lom + 1) n ?ht = (l, ht')" using 2(6) True by (simp add: Let_def)
    ultimately have "lom + 1 \<le> l \<and> l \<le> lom + 1 + n \<and> hash_inv t0 (off + l) ht' \<and> (\<forall>i < l. h ! (off + i) = h ! (prev + i))"
      using 2(1) [OF refl] True u [of "off + (lom + 1)"] 2(4) by simp
    then show ?thesis by auto
  qed
qed

lemma same3_bytes:
  assumes "same3 h i j" "i + 3 \<le> length h"
  shows "\<forall>m < 3. h ! (i + m) = h ! (j + m)"
proof (intro allI impI)
  fix m :: nat assume m: "m < 3"
  have "length (take 3 (drop i h)) = length (take 3 (drop j h))" using assms(1) by (simp only: same3_def)
  then have l: "j + 3 \<le> length h" using assms(2) by simp
  have "take 3 (drop i h) ! m = take 3 (drop j h) ! m" using assms(1) by (simp only: same3_def)
  then show "h ! (i + m) = h ! (j + m)" using m assms(2) l by simp
qed

text \<open>One turn, and all of them.\<close>

definition turn_limits :: "mppc \<Rightarrow> u8 list \<Rightarrow> nat \<Rightarrow> nat \<Rightarrow> bool" where
  "turn_limits k h start sz \<longleftrightarrow> length h = hist_len k \<and> start + sz + 2 < hist_len k"

lemma limits_fit:
  assumes "turn_limits k h start sz"
  shows "start + sz \<le> length h" "start + sz \<le> 65536" "start + sz \<le> offset_max k" "sz < 2 ^ lom_bits k"
  using assms by (cases k; simp add: turn_limits_def hist_len_def offset_max_def lom_bits_def)+

lemma compress_turn_ok:
  assumes lim: "turn_limits k h start sz" and inv: "hash_inv t0 (start + ctr) ht" and ctr: "0 < start + ctr" "ctr + 2 < sz"
    and ok: "out_ok k ob" and room: "length (bits_written ob) + 9 * (sz - ctr) < 8 * output_size k"
  shows "\<exists>t ht' ob'. compress_turn k h start sz ctr ht ob = (tok_len t, ht', Inr ob') \<and> tok_ok k t \<and> tok_makes h (start + ctr) t
    \<and> ctr + tok_len t \<le> sz \<and> hash_inv t0 (start + ctr + tok_len t) ht' \<and> out_ok k ob' \<and> bits_written ob' = bits_written ob @ tok_bits k t"
proof -
  note fit = limits_fit [OF lim]
  let ?off = "start + ctr" and ?hash = "sign (drop (start + ctr) h)"
  let ?prev = "unat (ht_table ht ?hash)" and ?ht = "hash_update ?hash (of_nat (start + ctr)) ht"
  have prev: "?prev < ?off" using inv by (simp add: hash_inv_def)
  have inv1: "hash_inv t0 (?off + 1) ?ht" using hash_inv_update(1) [OF inv, of ?off "?off + 1"] fit(2) ctr(2) by simp
  show ?thesis
  proof (cases "same3 h ?off ?prev")
    case False
    have "length (bits_written ob) + 9 < 8 * output_size k" using room ctr(2) by linarith
    then obtain ob' where "encode_literal k (h ! ?off) ob = Inr ob'" "out_ok k ob'" "bits_written ob' = bits_written ob @ tok_bits k (Lit (h ! ?off))"
      using encode_literal_written [OF ok, of "h ! ?off"] by auto
    then show ?thesis using False inv1 ctr(2) by (intro exI [of _ "Lit (h ! ?off)"]) (auto simp: compress_turn_def Let_def)
  next
    case True
    let ?n = "sz - (ctr + 3)" and ?ht2 = "update_indirect h (?off + 1) ?ht"
    have inv2: "hash_inv t0 (?off + 3) ?ht2" using hash_inv_update(2) [OF inv1, of "?off + 1" "?off + 3" h] fit(2) ctr(2) by simp
    obtain lom ht' where e: "extend_match h ?off ?prev 3 ?n ?ht2 = (lom, ht')" by (cases "extend_match h ?off ?prev 3 ?n ?ht2")
    have m: "3 \<le> lom" "lom \<le> 3 + ?n" "hash_inv t0 (?off + lom) ht'" "\<forall>i < lom. h ! (?off + i) = h ! (?prev + i)"
      using extend_match_ok [OF inv2 _ _ _ e] same3_bytes [OF True] fit ctr(2) by auto
    have d: "unat (of_nat ?off - of_nat ?prev :: u16) = ?off - ?prev"
    proof -
      have "(of_nat ?off - of_nat ?prev :: u16) = of_nat (?off - ?prev)" using prev by simp
      then show ?thesis using fit(2) ctr(2) by (simp add: unat_of_nat take_bit_nat_eq_self)
    qed
    have t: "tok_ok k (Copy (?off - ?prev) lom)" "tok_makes h ?off (Copy (?off - ?prev) lom)"
      using m prev fit(3,4) ctr(2) by auto
    have "lom \<le> sz - ctr" using m(2) ctr(2) by simp
    then have "length (bits_written ob) + 9 * lom < 8 * output_size k" using room by simp
    from encode_tuple_written [OF ok t(1) this] obtain ob' where "encode_tuple k (?off - ?prev) lom ob = Inr ob'" "out_ok k ob'"
      "bits_written ob' = bits_written ob @ tok_bits k (Copy (?off - ?prev) lom)" by auto
    then show ?thesis
      using True e d t m(2,3) ctr(2) by (intro exI [of _ "Copy (?off - ?prev) lom"]) (auto simp: compress_turn_def Let_def)
  qed
qed

lemma compress_loop_ok:
  "turn_limits k h start sz \<Longrightarrow> hash_inv t0 (start + ctr) ht \<Longrightarrow> 0 < start + ctr \<Longrightarrow> ctr \<le> sz \<Longrightarrow> out_ok k ob \<Longrightarrow>
    length (bits_written ob) + 9 * (sz - ctr) < 8 * output_size k \<Longrightarrow>
    \<exists>ts ht' ob'. compress_loop k h start sz ctr ht ob = (ht', Inr ob') \<and> makes k h (start + ctr) ts (start + sz)
      \<and> hash_inv t0 (start + sz) ht' \<and> out_ok k ob' \<and> bits_written ob' = bits_written ob @ concat (map (tok_bits k) ts)"
proof (induction k h start sz ctr ht ob rule: compress_loop.induct)
  case (1 k h start sz ctr ht ob)
  note lim = 1(2) and inv = 1(3) and pos = 1(4) and le = 1(5) and ok = 1(6) and room = 1(7)
  show ?case
  proof (cases "ctr + 2 < sz")
    case False
    let ?cs = "take (sz - ctr) (drop (start + ctr) h)"
    have l: "length ?cs = sz - ctr" using limits_fit(1) [OF lim] le by simp
    obtain ob' where "encode_literals k ?cs ob = Inr ob'" "out_ok k ob'" "bits_written ob' = bits_written ob @ concat (map (tok_bits k) (map Lit ?cs))"
      using encode_literals_written [OF ok, of ?cs] room l by auto
    moreover have "makes k h (start + ctr) (map Lit ?cs) (start + sz)"
      using makes_literals [of "start + ctr" ?cs h k] l limits_fit(1) [OF lim] le by simp
    moreover have "hash_inv t0 (start + sz) ht" using hash_inv_mono [OF inv] le by simp
    ultimately show ?thesis using False by (intro exI [of _ "map Lit ?cs"]) (simp add: compress_loop.simps [of k h start sz ctr])
  next
    case True
    obtain t ht1 ob1 where t: "compress_turn k h start sz ctr ht ob = (tok_len t, ht1, Inr ob1)" "tok_ok k t" "tok_makes h (start + ctr) t"
      "ctr + tok_len t \<le> sz" "hash_inv t0 (start + ctr + tok_len t) ht1" "out_ok k ob1" "bits_written ob1 = bits_written ob @ tok_bits k t"
      using compress_turn_ok [OF lim inv pos True ok room] by blast
    have r: "length (bits_written ob1) + 9 * (sz - (ctr + tok_len t)) < 8 * output_size k"
    proof -
      have "length (bits_written ob1) \<le> length (bits_written ob) + 9 * tok_len t" using t(7) tok_size [OF t(2)] by simp
      then show ?thesis using room t(4) by linarith
    qed
    obtain ts ht' ob' where "compress_loop k h start sz (ctr + tok_len t) ht1 ob1 = (ht', Inr ob')"
      "makes k h (start + (ctr + tok_len t)) ts (start + sz)" "hash_inv t0 (start + sz) ht'" "out_ok k ob'"
      "bits_written ob' = bits_written ob1 @ concat (map (tok_bits k) ts)"
      using 1(1) [OF True t(1) [symmetric] refl refl lim] t pos r by (auto simp: add.assoc)
    then show ?thesis using t True by (intro exI [of _ "t # ts"]) (simp add: compress_loop.simps [of k h start sz ctr] add.assoc)
  qed
qed

lemma compress_body_ok:
  assumes lim: "turn_limits k h start sz" and inv: "hash_inv t0 (max 1 start) ht" and sz: "0 < sz" and ok: "out_ok k ob" and new: "bits_written ob = []"
    and room: "9 * max 2 sz < 8 * output_size k"
  shows "\<exists>ht' ob'. compress_body k h start sz ht ob = (ht', Inr ob') \<and> out_ok k ob' \<and> hash_inv t0 (start + max 2 sz) ht'
    \<and> (if start = 0 \<and> sz < 2 then sz \<le> ob_index ob'
       else hash_inv t0 (start + sz) ht' \<and> (\<exists>ts. makes k h start ts (start + sz) \<and> bits_written ob' = concat (map (tok_bits k) ts)))"
proof (cases "start = 0")
  case False
  then have i: "hash_inv t0 (start + 0) ht" "0 < start + 0" using inv by (simp_all add: max_def split: if_splits)
  have "length (bits_written ob) + 9 * (sz - 0) < 8 * output_size k" using room by (simp add: new)
  from compress_loop_ok [OF lim i _ ok this] new obtain ts ht' ob' where
    "compress_loop k h start sz 0 ht ob = (ht', Inr ob')" "makes k h start ts (start + sz)"
      "hash_inv t0 (start + sz) ht'" "out_ok k ob'" "bits_written ob' = concat (map (tok_bits k) ts)" by auto
  then show ?thesis using False hash_inv_mono [of t0 "start + sz" ht'] by (auto simp: compress_body_def)
next
  case True
  have hl: "2 + sz < length h" "length h \<le> 65536" using lim True by (auto simp: turn_limits_def hist_len_def split: mppc.splits)
  let ?cs = "take 2 h" and ?ht = "update_indirect h 1 (update_indirect h 0 ht)"
  have l: "length ?cs = 2" using hl by simp
  have "length (bits_written ob) + 9 * length ?cs < 8 * output_size k" unfolding l using room by (simp add: new)
  then obtain ob1 where o: "encode_literals k ?cs ob = Inr ob1" "out_ok k ob1" "bits_written ob1 = concat (map (tok_bits k) (map Lit ?cs))"
    using encode_literals_written [OF ok, of ?cs] new by auto
  have "\<exists>a b. xs = [a, b]" if "length xs = 2" for xs :: "u8 list" using that by (auto simp: length_Suc_conv numeral_2_eq_2)
  then have "\<exists>a b. ?cs = [a, b]" using l by blast
  then have w: "16 \<le> length (bits_written ob1)" "length (bits_written ob1) \<le> 18"
    using o(3) tok_size [of k "Lit a" for a] by (auto simp: literal_code_def)
  have m: "makes k h 0 (map Lit ?cs) 2" using makes_literals [of 0 ?cs h k] hl unfolding l by (simp add: numeral_2_eq_2)
  have "hash_inv t0 1 ht" using inv True by simp
  then have inv2: "hash_inv t0 2 ?ht" by (intro hash_inv_update(2) [of t0 1]) (auto intro: hash_inv_update(2))
  show ?thesis
  proof (cases "sz < 2")
    case False
    have r: "length (bits_written ob1) + 9 * (sz - 2) < 8 * output_size k" using w room False by simp
    from compress_loop_ok [OF lim _ _ _ o(2) r, of t0 ?ht, unfolded True add_0] inv2 False obtain ts ht' ob' where
      r: "compress_loop k h 0 sz 2 ?ht ob1 = (ht', Inr ob')" "makes k h 2 ts sz"
      "hash_inv t0 sz ht'" "out_ok k ob'" "bits_written ob' = bits_written ob1 @ concat (map (tok_bits k) ts)" by auto
    have "makes k h 0 (map Lit ?cs @ ts) sz" "bits_written ob' = concat (map (tok_bits k) (map Lit ?cs @ ts))"
      using makes_append [OF m r(2)] r(5) o(3) by simp_all
    then show ?thesis using True False o(1) r by (auto simp: compress_body_def max_def)
  next
    case small: True
    then have e: "compress_loop k h start sz 2 ?ht ob1 = (?ht, Inr ob1)" using sz by (simp add: compress_loop.simps)
    have "ob_left ob1 > 0" "8 * ob_index ob1 + (8 - ob_left ob1) \<ge> 16" using o(2) w(1) length_written [OF o(2)] by (auto simp: out_ok_def)
    then have "2 \<le> ob_index ob1" by linarith
    then show ?thesis using True small o(1,2) inv2 e by (simp add: compress_body_def max_def numeral_2_eq_2)
  qed
qed

subsection \<open>What the decompressor makes of it\<close>

definition same_upto :: "nat \<Rightarrow> u8 list \<Rightarrow> u8 list \<Rightarrow> bool" where
  "same_upto n a b \<longleftrightarrow> length a = length b \<and> take n a = take n b"

lemma same_upto_nth: "same_upto n a b \<Longrightarrow> i < n \<Longrightarrow> n \<le> length b \<Longrightarrow> a ! i = b ! i"
  unfolding same_upto_def by (metis nth_take)

lemma same_upto_put:
  assumes "same_upto p a h" "p < length h"
  shows "put_byte p (h ! p) a = Inr (a[p := h ! p]) \<and> same_upto (Suc p) (a[p := h ! p]) h"
  using assms by (simp add: same_upto_def put_byte_def take_Suc_conv_app_nth)

lemma copy_run_ok:
  "same_upto dst a h \<Longrightarrow> src < dst \<Longrightarrow> dst + n \<le> length h \<Longrightarrow> \<forall>i < n. h ! (dst + i) = h ! (src + i) \<Longrightarrow>
    \<exists>a'. copy_run n src dst a = Inr a' \<and> same_upto (dst + n) a' h"
proof (induction n arbitrary: src dst a)
  case 0
  then show ?case by simp
next
  case (Suc n)
  have s: "a ! src = h ! dst" using same_upto_nth [OF Suc(2,3)] Suc(4,5) by force
  note p = same_upto_put [OF Suc(2)]
  have "\<forall>i < n. h ! (dst + 1 + i) = h ! (src + 1 + i)"
  proof (intro allI impI)
    fix i assume "i < n"
    then show "h ! (dst + 1 + i) = h ! (src + 1 + i)" using Suc(5) [rule_format, of "Suc i"] by simp
  qed
  then obtain a' where "copy_run n (src + 1) (dst + 1) (a[dst := h ! dst]) = Inr a'" "same_upto (dst + 1 + n) a' h"
    using Suc(1) [of "dst + 1" "a[dst := h ! dst]" "src + 1"] p Suc(3,4) by auto
  moreover have "length a = length h" using Suc(2) by (simp add: same_upto_def)
  ultimately show ?case using s p Suc(3,4) by simp
qed

lemma literal_turn:
  assumes s: "in_ok s" "in_full s" "coming s = tok_bits k (Lit c) @ r"
  obtains s' where "in_ok s'" "in_full s'" "coming s' = r"
    "decompress_turn k s d = bindR (put_byte (md_ptr d) c (md_hist d)) (\<lambda>hist. Inr (s', \<lparr>md_hist = hist, md_ptr = md_ptr d + 1\<rparr>))"
proof -
  have c: "coming s = nbits (fst (literal_code c)) (snd (literal_code c)) @ r" using s(3) by simp
  have n: "fst (literal_code c) \<le> 32" using literal_size(3) [of c] by simp
  note p = peek [OF s(1,2) c n literal_size(1)]
  note g = get_more_bits_ok [OF p(2)]
  show ?thesis
    using token_literal [OF p(1), of k] g p(3) by (intro that [of "get_more_bits (skip_bits (fst (literal_code c)) s)"]) (simp_all add: decompress_turn_def)
qed

lemma turn_ok:
  assumes s: "in_ok s" "in_full s" "coming s = tok_bits k t @ r" and t: "tok_ok k t" "tok_makes h (md_ptr d) t"
    and d: "same_upto (md_ptr d) (md_hist d) h" "md_ptr d + tok_len t \<le> length h"
  shows "\<exists>s' d'. decompress_turn k s d = Inr (s', d') \<and> in_ok s' \<and> in_full s' \<and> coming s' = r
    \<and> md_ptr d' = md_ptr d + tok_len t \<and> same_upto (md_ptr d') (md_hist d') h"
proof (cases t)
  case (Lit c)
  have "coming s = tok_bits k (Lit c) @ r" "h ! md_ptr d = c" using s(3) t(2) Lit by simp_all
  then show ?thesis using literal_turn [OF s(1,2), of k c r d] same_upto_put [OF d(1)] d(2) Lit by fastforce
next
  case (Copy off lom)
  let ?n = "fst (offset_code k off)" and ?m = "fst (lom_code k lom)"
  have o: "0 < off" "off \<le> offset_max k" "3 \<le> lom" "lom < 2 ^ lom_bits k" "off \<le> md_ptr d" "\<forall>i < lom. h ! (md_ptr d + i) = h ! (md_ptr d - off + i)"
    using t Copy by simp_all
  have c: "coming s = nbits ?n (snd (offset_code k off)) @ nbits ?m (snd (lom_code k lom)) @ r" using s(3) Copy by simp
  have n: "?n \<le> 32" "?m \<le> 32" using offset_size(3) [OF o(2)] lom_size(3) [OF o(3,4)] by simp_all
  note p = peek [OF s(1,2) c n(1) offset_size(1) [OF o(2)]]
  note g = get_more_bits_ok [OF p(2)]
  have c2: "coming (get_more_bits (skip_bits ?n s)) = nbits ?m (snd (lom_code k lom)) @ r" using g(2) p(3) by simp
  note q = peek [OF g(1,3) c2 n(2) lom_size(1) [OF o(3,4)]]
  have off: "unat (of_nat off :: u16) = off"
    using o(2) by (cases k) (simp_all add: offset_max_def unat_of_nat take_bit_nat_eq_self)
  then have "(of_nat off :: u16) \<noteq> 0" using o(1) by force
  moreover obtain a where "copy_match lom off (md_ptr d) (md_hist d) = Inr a" "same_upto (md_ptr d + lom) a h"
    using copy_run_ok [OF d(1) _ _ o(6)] d(2) o(1,5) Copy by (auto simp: copy_match_def)
  ultimately show ?thesis
    using token_offset [OF o(2) p(1)] match_length_code [OF o(3,4) q(1)] get_more_bits_ok [OF q(2)] q(3) off Copy
    by (simp add: decompress_turn_def Let_def)
qed

lemma makes_le: "makes k h p ts q \<Longrightarrow> p \<le> q"
  by (induction ts arbitrary: p) (auto dest: le_trans [OF le_add1])

lemma mppc_loop_ok:
  "in_ok s \<Longrightarrow> in_full s \<Longrightarrow> coming s = concat (map (tok_bits k) ts) @ pad \<Longrightarrow> length pad < 8 \<Longrightarrow> makes k h (md_ptr d) ts q \<Longrightarrow>
    same_upto (md_ptr d) (md_hist d) h \<Longrightarrow> q \<le> length h \<Longrightarrow> length ts \<le> fuel \<Longrightarrow>
    \<exists>d'. decompress_loop fuel k s d = Some (Inr d') \<and> md_ptr d' = q \<and> same_upto q (md_hist d') h"
proof (induction ts arbitrary: s d fuel)
  case Nil
  have "ib_left s < 8" using Nil(1-4) by (auto simp: in_ok_def in_full_def coming_def)
  then show ?case using Nil by (auto simp: decompress_loop.simps [of fuel])
next
  case (Cons t ts)
  have t: "tok_ok k t" "tok_makes h (md_ptr d) t" "makes k h (md_ptr d + tok_len t) ts q" using Cons(6) by simp_all
  have c: "coming s = tok_bits k t @ concat (map (tok_bits k) ts) @ pad" using Cons(4) by simp
  have "md_ptr d + tok_len t \<le> length h" using makes_le [OF t(3)] Cons(8) by simp
  from turn_ok [OF Cons(2,3) c t(1,2) Cons(7) this] obtain s' d' where
    s: "decompress_turn k s d = Inr (s', d')" "in_ok s'" "in_full s'" "coming s' = concat (map (tok_bits k) ts) @ pad"
    "md_ptr d' = md_ptr d + tok_len t" "same_upto (md_ptr d') (md_hist d') h" by auto
  obtain f where f: "fuel = Suc f" "length ts \<le> f" using Cons(9) by (cases fuel) auto
  have "8 \<le> length (coming s)" using c tok_size [OF t(1)] by simp
  then have "\<not> ib_left s < 8" using Cons(2,3) by (auto simp: in_ok_def in_full_def coming_def)
  moreover obtain d2 where "decompress_loop f k s' d' = Some (Inr d2)" "md_ptr d2 = q" "same_upto q (md_hist d2) h"
    using Cons(1) [OF s(2-4) Cons(5) _ s(6) Cons(8) f(2)] t(3) s(5) by auto
  ultimately show ?case using s(1) f(1) by (simp add: decompress_loop.simps [of "Suc f"])
qed

subsection \<open>The two ends in step\<close>

definition hold_ok :: "u8 \<Rightarrow> bool" where
  "hold_ok f \<longleftrightarrow> f \<in> {0, 0x40, 0x80, 0xC0}"

lemma hold_ok_or: "hold_ok f \<Longrightarrow> hold_ok (f OR PACKET_AT_FRONT)" "hold_ok f \<Longrightarrow> hold_ok (f OR PACKET_FLUSHED)"
  "hold_ok f \<Longrightarrow> has (f OR PACKET_AT_FRONT) PACKET_AT_FRONT"
  "hold_ok f \<Longrightarrow> has (f OR PACKET_FLUSHED) PACKET_AT_FRONT \<longleftrightarrow> has f PACKET_AT_FRONT"
  by (auto simp: hold_ok_def PACKET_AT_FRONT_def PACKET_FLUSHED_def has_def)

lemma type_flags:
  assumes "hold_ok f" "ctype = (compr_type k OR PACKET_COMPRESSED) OR f"
  shows "has ctype PACKET_COMPRESSED" "has ctype PACKET_AT_FRONT \<longleftrightarrow> has f PACKET_AT_FRONT" "has ctype PACKET_FLUSHED \<longleftrightarrow> has f PACKET_FLUSHED"
    "ctype AND 0x0f = compr_type k"
  using assms by (cases k; auto simp: hold_ok_def has_def PACKET_COMPRESSED_def PACKET_AT_FRONT_def PACKET_FLUSHED_def compr_type_def)+

text \<open>The compressor between two packets, and the two ends: unless the next packet goes to the front they have the same history.\<close>

definition enc_inv :: "mppc \<Rightarrow> mppc_enc \<Rightarrow> bool" where
  "enc_inv k e \<longleftrightarrow> length (me_hist e) = hist_len k \<and> me_off e + 2 < hist_len k \<and> hold_ok (me_flagsHold e)
     \<and> (if me_off e = 0 then ht_table (me_table e) = (\<lambda>_. 0) else \<forall>h. unat (ht_table (me_table e) h) < me_off e)
     \<and> (has (me_flagsHold e) PACKET_AT_FRONT \<longrightarrow> me_off e = 0) \<and> (me_first_pkt e \<longrightarrow> me_off e = 0)
     \<and> (has (me_flagsHold e) PACKET_FLUSHED \<longrightarrow> me_first_pkt e \<or> has (me_flagsHold e) PACKET_AT_FRONT)"

definition bulk_sync :: "mppc \<Rightarrow> mppc_enc \<Rightarrow> (mppc \<times> mppc_dec) option \<Rightarrow> bool" where
  "bulk_sync k e u \<longleftrightarrow> enc_inv k e
     \<and> (case u of None \<Rightarrow> True | Some (k', d) \<Rightarrow> k' = k \<and> length (md_hist d) = hist_len k)
     \<and> (me_first_pkt e \<or> has (me_flagsHold e) PACKET_AT_FRONT
        \<or> (\<exists>d. u = Some (k, d) \<and> md_ptr d = me_off e \<and> same_upto (me_off e) (md_hist d) (me_hist e)))"

lemma place_data_ok:
  assumes inv: "enc_inv k e" and sz: "length data + 2 < hist_len k"
  defines "e' \<equiv> place_data k data e"
  shows "turn_limits k (me_hist e') (me_off e') (length data)" "ht_undo (me_table e') = []"
    "if me_off e' = 0 then ht_table (me_table e') = (\<lambda>_. 0) else \<forall>h. unat (ht_table (me_table e') h) < me_off e'"
    "take (length data) (drop (me_off e') (me_hist e')) = data" "\<not> me_first_pkt e'" "hold_ok (me_flagsHold e')"
    "has (me_flagsHold e') PACKET_FLUSHED \<longrightarrow> has (me_flagsHold e') PACKET_AT_FRONT"
    "me_first_pkt e \<or> has (me_flagsHold e) PACKET_AT_FRONT \<longrightarrow> has (me_flagsHold e') PACKET_AT_FRONT"
    "if has (me_flagsHold e') PACKET_AT_FRONT then me_off e' = 0 else me_off e' = me_off e \<and> same_upto (me_off e) (me_hist e) (me_hist e')"
proof -
  have i: "length (me_hist e) = hist_len k" "me_off e + 2 < hist_len k" "hold_ok (me_flagsHold e)"
    "if me_off e = 0 then ht_table (me_table e) = (\<lambda>_. 0) else \<forall>h. unat (ht_table (me_table e) h) < me_off e"
    "has (me_flagsHold e) PACKET_AT_FRONT \<longrightarrow> me_off e = 0" "me_first_pkt e \<longrightarrow> me_off e = 0"
    "has (me_flagsHold e) PACKET_FLUSHED \<longrightarrow> me_first_pkt e \<or> has (me_flagsHold e) PACKET_AT_FRONT"
    using inv by (simp_all add: enc_inv_def)
  note o = hold_ok_or(1,3) [OF i(3)] hold_ok_or(1,3) [OF hold_ok_or(1) [OF i(3)]]
  show "turn_limits k (me_hist e') (me_off e') (length data)" "ht_undo (me_table e') = []"
    "if me_off e' = 0 then ht_table (me_table e') = (\<lambda>_. 0) else \<forall>h. unat (ht_table (me_table e') h) < me_off e'"
    "take (length data) (drop (me_off e') (me_hist e')) = data" "\<not> me_first_pkt e'" "hold_ok (me_flagsHold e')"
    using i o sz by (auto simp: e'_def place_data_def Let_def turn_limits_def hash_reset_def)
  show "has (me_flagsHold e') PACKET_FLUSHED \<longrightarrow> has (me_flagsHold e') PACKET_AT_FRONT"
    "me_first_pkt e \<or> has (me_flagsHold e) PACKET_AT_FRONT \<longrightarrow> has (me_flagsHold e') PACKET_AT_FRONT"
    "if has (me_flagsHold e') PACKET_AT_FRONT then me_off e' = 0 else me_off e' = me_off e \<and> same_upto (me_off e) (me_hist e) (me_hist e')"
    using i o sz by (auto simp: e'_def place_data_def Let_def same_upto_def)
qed

lemma hash_inv_start:
  assumes "ht_undo ht = []" "if off = 0 then ht_table ht = (\<lambda>_. 0) else \<forall>h. unat (ht_table ht h) < off"
  shows "hash_inv (ht_table ht) (max 1 off) ht"
  using assms by (auto simp: hash_inv_def split: if_splits)

lemma give_up_ok:
  assumes "hash_inv t0 n ht" "length (me_hist e) = hist_len k" "me_off e + 2 < hist_len k" "hold_ok (me_flagsHold e)"
    "if me_off e = 0 then t0 = (\<lambda>_. 0) else \<forall>h. unat (t0 h) < me_off e"
    "has (me_flagsHold e) PACKET_FLUSHED \<longrightarrow> has (me_flagsHold e) PACKET_AT_FRONT" "has (me_flagsHold e) PACKET_AT_FRONT \<longrightarrow> me_off e = 0"
    "\<not> me_first_pkt e"
  defines "e' \<equiv> give_up (e\<lparr>me_table := ht\<rparr>)"
  shows "enc_inv k e' \<and> (me_first_pkt e' \<or> me_flagsHold e' = me_flagsHold e \<and> me_off e' = me_off e \<and> me_hist e' = me_hist e)"
proof (cases "length (ht_undo ht) = 256")
  case True
  have "hist_len k > 2" using assms(3) by simp
  then show ?thesis
    using True assms(2-8) hold_ok_or(2) [OF assms(4)] by (simp add: e'_def give_up_def undo_last_changes_def enc_inv_def hash_reset_def)
next
  case False
  then have "foldl (\<lambda>t (hash, off). t(hash := off)) (ht_table ht) (ht_undo ht) = t0" using assms(1) by (auto simp: hash_inv_def)
  then show ?thesis using False assms(2-8) by (auto simp: e'_def give_up_def undo_last_changes_def enc_inv_def)
qed

lemma makes_ok: "makes k h p ts q \<Longrightarrow> \<forall>t \<in> set ts. tok_ok k t"
  by (induction ts arbitrary: p) auto

lemma unified_receives:
  assumes d: "has f PACKET_FLUSHED \<longrightarrow> has f PACKET_AT_FRONT" "hold_ok f" "ctype = (compr_type k OR PACKET_COMPRESSED) OR f"
    and u: "case u of None \<Rightarrow> True | Some (k', d) \<Rightarrow> k' = k \<and> length (md_hist d) = hist_len k"
    and h: "if has f PACKET_AT_FRONT then off = 0 else (\<exists>d. u = Some (k, d) \<and> md_ptr d = off \<and> same_upto off (md_hist d) h)"
    and m: "makes k h off ts (off + n)" "bits_of bytes = concat (map (tok_bits k) ts) @ pad" "length pad < 8" "length h = hist_len k" "off + n \<le> hist_len k"
  shows "\<exists>d. unified_decompress (length bytes) bytes ctype u = Some (Inr (take n (drop off h), Some (k, d)))
    \<and> md_ptr d = off + n \<and> same_upto (off + n) (md_hist d) h"
proof -
  note t = type_flags [OF d(2,3)]
  have l: "length ts \<le> length bytes"
  proof -
    have "\<forall>t \<in> set ts. tok_ok k t" using makes_ok [OF m(1)] .
    then have "8 * length ts \<le> length (concat (map (tok_bits k) ts))" by (induction ts) (use tok_size in fastforce)+
    also have "\<dots> \<le> length (bits_of bytes)" unfolding m(2) by simp
    finally show ?thesis by simp
  qed
  have s: "coming (start_bits bytes) = concat (map (tok_bits k) ts) @ pad" using start_bits_ok(2) m(2) by simp
  define d0 where "d0 = (case u of Some (k', d) \<Rightarrow> if has f PACKET_FLUSHED then mk_mppc_dec k else d | None \<Rightarrow> mk_mppc_dec k)"
  have u0: "unified_dec ctype u = Inr (Some (k, d0))"
    using u t(3,4) by (cases k; auto simp: unified_dec_def d0_def compr_type_def split: option.splits prod.splits)
  let ?d = "\<lparr>md_hist = if has f PACKET_FLUSHED then replicate (hist_len k) 0 else md_hist d0, md_ptr = off\<rparr>"
  have a: "same_upto (md_ptr ?d) (md_hist ?d) h"
    using u h d(1) m(4) by (auto simp: d0_def same_upto_def mk_mppc_dec_def split: if_splits option.splits prod.splits)
  have p: "has f PACKET_AT_FRONT \<or> md_ptr d0 = off" using h d(1) by (auto simp: d0_def split: if_splits)
  obtain d' where d': "decompress_loop (length bytes) k (start_bits bytes) ?d = Some (Inr d')" "md_ptr d' = off + n" "same_upto (off + n) (md_hist d') h"
    using mppc_loop_ok [OF start_bits_ok(1,3) s m(3) _ a _ l, of "off + n"] m(1,4,5) by auto
  have v: "take n (drop off (md_hist d')) = take n (drop off h)" "length (md_hist d') = length h"
    using d'(3) by (simp_all add: same_upto_def take_drop add.commute)
  have "decompress (length bytes) k bytes ctype d0 = Some (Inr (take n (drop off h), d'))"
    using d' v p t d(1) h m(4,5) by (cases "has f PACKET_AT_FRONT") (auto simp: decompress_def Let_def split: if_splits)
  then show ?thesis using u0 d'(2,3) by (simp add: unified_decompress_def)
qed

definition bulk_fits :: "mppc \<Rightarrow> nat \<Rightarrow> bool" where
  "bulk_fits k n \<longleftrightarrow> 9 * n < 8 * output_size k"

lemma fits_history: "bulk_fits k n \<Longrightarrow> n + 2 < hist_len k" "bulk_fits k n \<Longrightarrow> 9 * max 2 n < 8 * output_size k"
  by (cases k; auto simp: bulk_fits_def output_size_def hist_len_def max_def)+

lemma bulk_empty: "bulk_sync k e u \<Longrightarrow> bulk_sync k (e\<lparr>me_table := (me_table e)\<lparr>ht_undo := []\<rparr>\<rparr>) u"
  by (simp add: bulk_sync_def enc_inv_def)

lemma bulk_packet:
  assumes sync: "bulk_sync k e u" and fits: "bulk_fits k (length data)" and junk: "length junk = output_room k"
  shows "\<exists>e' ctype bytes u'. bulk_send k junk m data e = Inr (e', ctype, bytes) \<and> length bytes \<le> length data
    \<and> bulk_receive (length bytes) ctype bytes u = Some (Inr (data, u')) \<and> bulk_sync k e' u'"
proof (cases "data = []")
  case True
  then show ?thesis
    using bulk_empty [OF sync] by (simp add: bulk_send_def mppc_compress_def bulk_receive_def has_def hist_len_def split: mppc.splits)
next
  case False
  let ?sz = "length data" and ?e = "place_data k data e"
  define ob where "ob = \<lparr>ob_buf = replicate ?sz 0 @ drop ?sz junk, ob_left = 8, ob_index = 0\<rparr>"
  define limit where "limit = (case k of Mppc40 \<Rightarrow> ?sz | Mppc50 \<Rightarrow> min ?sz m)"
  note f = fits_history [OF fits]
  have inv: "enc_inv k e" and u: "case u of None \<Rightarrow> True | Some (k', d) \<Rightarrow> k' = k \<and> length (md_hist d) = hist_len k"
    using sync by (auto simp: bulk_sync_def)
  note p = place_data_ok [OF inv f(1)]
  have ok: "out_ok k ob" "bits_written ob = []"
    using f(1) junk False by (cases data; cases k; simp add: ob_def out_ok_def bits_written_def output_size_def output_room_def hist_len_def)+
  obtain ht ob' where b: "compress_body k (me_hist ?e) (me_off ?e) ?sz (me_table ?e) ob = (ht, Inr ob')" "out_ok k ob'"
    "hash_inv (ht_table (me_table ?e)) (me_off ?e + max 2 ?sz) ht"
    "if me_off ?e = 0 \<and> ?sz < 2 then ?sz \<le> ob_index ob' else hash_inv (ht_table (me_table ?e)) (me_off ?e + ?sz) ht
      \<and> (\<exists>ts. makes k (me_hist ?e) (me_off ?e) ts (me_off ?e + ?sz) \<and> bits_written ob' = concat (map (tok_bits k) ts))"
    using compress_body_ok [OF p(1) hash_inv_start [OF p(2,3)] _ ok f(2)] False by auto
  have c: "mppc_compress k junk m data e =
    (if limit \<le> ob_index ob' then Inr (give_up (?e\<lparr>me_table := ht\<rparr>), 0, [])
     else Inr (?e\<lparr>me_table := ht, me_off := me_off ?e + ?sz, me_flagsHold := 0\<rparr>,
               (compr_type k OR PACKET_COMPRESSED) OR me_flagsHold ?e, take (compress_size ob') (ob_buf ob')))"
  proof -
    have n: "\<not> (k = Mppc40 \<and> hist_len k \<le> ?sz)" "\<not> (?sz = 0 \<or> hist_len k - 2 \<le> ?sz)" using f(1) False by auto
    show ?thesis unfolding mppc_compress_def Let_def by (simp only: n if_False ob_def [symmetric] b(1) prod.case sum.case limit_def [symmetric]) simp
  qed
  show ?thesis
  proof (cases "limit \<le> ob_index ob'")
    case True
    let ?g = "give_up (?e\<lparr>me_table := ht\<rparr>)"
    have t: "length (me_hist ?e) = hist_len k" "me_off ?e + 2 < hist_len k" using p(1) by (auto simp: turn_limits_def)
    have z: "has (me_flagsHold ?e) PACKET_AT_FRONT \<longrightarrow> me_off ?e = 0" using p(9) by auto
    have g: "enc_inv k ?g" "me_first_pkt ?g \<or> me_flagsHold ?g = me_flagsHold ?e \<and> me_off ?g = me_off ?e \<and> me_hist ?g = me_hist ?e"
      using give_up_ok [OF b(3) t p(6,3,7) z p(5)] by auto
    have "bulk_sync k ?g u"
    proof (cases "me_first_pkt ?g \<or> has (me_flagsHold ?e) PACKET_AT_FRONT")
      case True
      then show ?thesis using g u by (auto simp: bulk_sync_def)
    next
      case False
      then obtain d where d: "u = Some (k, d)" "md_ptr d = me_off e" "same_upto (me_off e) (md_hist d) (me_hist e)"
        using sync p(8) by (auto simp: bulk_sync_def)
      then have "same_upto (me_off e) (md_hist d) (me_hist ?e)" "me_off ?e = me_off e" using p(9) False by (auto simp: same_upto_def)
      then show ?thesis using g u d False by (auto simp: bulk_sync_def)
    qed
    then show ?thesis using c True by (simp add: bulk_send_def bulk_receive_def has_def)
  next
    case False
    let ?f = "me_flagsHold ?e" and ?bytes = "take (compress_size ob') (ob_buf ob')"
    let ?e2 = "?e\<lparr>me_table := ht, me_off := me_off ?e + ?sz, me_flagsHold := 0\<rparr>"
    have "limit \<le> ?sz" by (auto simp: limit_def split: mppc.splits)
    then have n: "\<not> (me_off ?e = 0 \<and> ?sz < 2)" and size: "length ?bytes \<le> ?sz"
      using b(4) False by (auto simp: compress_size_def split: if_splits)
    obtain ts where ts: "makes k (me_hist ?e) (me_off ?e) ts (me_off ?e + ?sz)" "bits_written ob' = concat (map (tok_bits k) ts)"
      and hi: "hash_inv (ht_table (me_table ?e)) (me_off ?e + ?sz) ht" using b(4) n by (simp only: if_False) blast
    obtain pad where pad: "bits_of ?bytes = concat (map (tok_bits k) ts) @ pad" "length pad < 8" using output_bits [OF b(2)] ts(2) by auto
    have l: "length (me_hist ?e) = hist_len k" "me_off ?e + ?sz + 2 < hist_len k" "me_off ?e + ?sz \<le> hist_len k" using p(1) by (auto simp: turn_limits_def)
    have h: "if has ?f PACKET_AT_FRONT then me_off ?e = 0
      else (\<exists>d. u = Some (k, d) \<and> md_ptr d = me_off ?e \<and> same_upto (me_off ?e) (md_hist d) (me_hist ?e))"
      using sync p(8,9) by (auto simp: bulk_sync_def same_upto_def)
    obtain d where d: "unified_decompress (length ?bytes) ?bytes ((compr_type k OR PACKET_COMPRESSED) OR ?f) u = Some (Inr (data, Some (k, d)))"
      "md_ptr d = me_off ?e + ?sz" "same_upto (me_off ?e + ?sz) (md_hist d) (me_hist ?e)"
      using unified_receives [OF p(7,6) refl u h ts(1) pad l(1,3)] p(4) by auto
    have "bulk_sync k ?e2 (Some (k, d))"
      using d(2,3) l p(5) hi \<open>data \<noteq> []\<close> by (auto simp: bulk_sync_def enc_inv_def hold_ok_def has_def same_upto_def hash_inv_def)
    moreover have "bulk_send k junk m data e = Inr (?e2, (compr_type k OR PACKET_COMPRESSED) OR ?f, ?bytes)"
      using c False type_flags(1) [OF p(6) refl, of k] by (simp add: bulk_send_def)
    ultimately show ?thesis using size d(1) type_flags(1) [OF p(6) refl, of k] unfolding bulk_receive_def by auto
  qed
qed

text \<open>A packet after the other, from the first on.\<close>

fun bulk_link :: "mppc \<Rightarrow> nat \<Rightarrow> (u8 list \<times> u8 list) list \<Rightarrow> mppc_enc \<Rightarrow> (mppc \<times> mppc_dec) option \<Rightarrow> u8 list list res option" where
  "bulk_link k m [] e u = Some (Inr [])"
| "bulk_link k m ((junk, data) # xs) e u = (case bulk_send k junk m data e of
     Inl err \<Rightarrow> Some (Inl err)
   | Inr (e, ctype, bytes) \<Rightarrow> (case bulk_receive (length bytes) ctype bytes u of
       None \<Rightarrow> None
     | Some (Inl err) \<Rightarrow> Some (Inl err)
     | Some (Inr (got, u)) \<Rightarrow> map_option (map_sum id (Cons got)) (bulk_link k m xs e u)))"

lemma bulk_link_sync:
  "bulk_sync k e u \<Longrightarrow> \<forall>(junk, data) \<in> set xs. length junk = output_room k \<and> bulk_fits k (length data) \<Longrightarrow>
    bulk_link k m xs e u = Some (Inr (map snd xs))"
proof (induction xs arbitrary: e u)
  case Nil
  then show ?case by simp
next
  case (Cons x xs)
  obtain junk data where x: "x = (junk, data)" by (cases x)
  obtain e' ctype bytes u' where "bulk_send k junk m data e = Inr (e', ctype, bytes)"
    "bulk_receive (length bytes) ctype bytes u = Some (Inr (data, u'))" "bulk_sync k e' u'"
    using bulk_packet [OF Cons(2), of data junk m] Cons(3) x by auto
  then show ?case using Cons(1) Cons(3) x by simp
qed

lemma bulk_start: "bulk_sync k (mk_mppc_enc k) None"
  by (cases k; simp add: bulk_sync_def enc_inv_def mk_mppc_enc_def hash_reset_def hold_ok_def hist_len_def has_def)

text \<open>
  C11. Packets of at most 7288 bytes for RDP 4.0 and 58253 for RDP 5.0 (\<open>bulk_fits\<close>) that go through the compressor, from a new one on,
  come out of the decompressor as they were, whether they were compressed, sent as they are, put at the front of the history or after a
  flush. Within these bounds the compressor never writes behind its buffer; longer packets may make it.
\<close>

theorem bulk_data_delivered:
  assumes "\<forall>(junk, data) \<in> set xs. length junk = output_room k \<and> bulk_fits k (length data)"
  shows "bulk_link k m xs (mk_mppc_enc k) None = Some (Inr (map snd xs))"
  by (rule bulk_link_sync [OF bulk_start assms])

lemma bulk_data_delivered_witness:
  "bulk_link Mppc40 0 [(replicate 8200 0, [1, 2, 3, 1, 2, 3, 1, 2, 3, 4]), (replicate 8200 7, [9])] (mk_mppc_enc Mppc40) None
    = Some (Inr [[1, 2, 3, 1, 2, 3, 1, 2, 3, 4], [9]])"
  using bulk_data_delivered [where k = Mppc40 and m = 0 and xs = "[(replicate 8200 0, [1, 2, 3, 1, 2, 3, 1, 2, 3, 4]), (replicate 8200 7, [9])]"]
  by (simp add: output_room_def hist_len_def bulk_fits_def output_size_def)

end
