(* ===== verification/Mppc_Safety.thy ===== *)
theory Mppc_Safety
  imports Mppc_Link
begin

text \<open>What the bulk compressors do with any data: the decompressor ends, and neither end looks for the end of the buffer it writes.\<close>

subsection \<open>Every packet ends\<close>

text \<open>The bits left of the packet; every token takes eight of them or more, whatever they are.\<close>

definition bits_to_go :: "in_bits \<Rightarrow> int" where
  "bits_to_go s = ib_left s + int (ib_cur_left s) + 8 * int (length (ib_rest s))"

lemma take_cur_to_go [simp]: "bits_to_go (take_cur s) = bits_to_go s" "ib_rest (take_cur s) = ib_rest s" "ib_cur_left (take_cur s) = 0"
  "ib_left (take_cur s) = ib_left s + int (ib_cur_left s)"
  by (simp_all add: take_cur_def bits_to_go_def)

lemma fetch_to_go: "ib_cur_left s = 0 \<Longrightarrow> bits_to_go (fetch s) = bits_to_go s" "ib_left (fetch s) = ib_left s"
  by (simp_all add: fetch_def bits_to_go_def split: list.splits)

lemma more_bits_to_go:
  "bs = ib_rest s \<Longrightarrow> int tmp = 32 - ib_left s \<Longrightarrow> bits_to_go (more_bits tmp bs s) = bits_to_go s \<and> ib_left (more_bits tmp bs s) \<le> 32"
proof (induction tmp bs s rule: more_bits.induct)
  case (1 tmp bs s)
  consider "tmp = 0" | "0 < tmp" "ib_cur_left s < tmp" | "0 < tmp" "tmp \<le> ib_cur_left s" by linarith
  then show ?case
  proof cases
    case 1
    then show ?thesis using \<open>int tmp = _\<close> by (simp add: more_bits.simps [of 0])
  next
    case 2
    show ?thesis
    proof (cases bs)
      case Nil
      then show ?thesis using 2 \<open>int tmp = _\<close> by (simp add: more_bits.simps [of tmp])
    next
      case (Cons b bs')
      have r: "bs' = ib_rest (fetch (take_cur s))" using Cons \<open>bs = ib_rest s\<close> by (simp add: fetch_def split: list.splits)
      have l: "int (tmp - ib_cur_left s) = 32 - ib_left (fetch (take_cur s))" using 2 \<open>int tmp = _\<close> by (simp add: fetch_to_go(2))
      have "bits_to_go (more_bits (tmp - ib_cur_left s) bs' (fetch (take_cur s))) = bits_to_go (fetch (take_cur s))
        \<and> ib_left (more_bits (tmp - ib_cur_left s) bs' (fetch (take_cur s))) \<le> 32"
        by (rule 1(1) [OF _ _ Cons r l]) (use 2 in simp_all)
      then show ?thesis using 2 Cons fetch_to_go(1) [of "take_cur s"] by (simp add: more_bits.simps [of tmp])
    qed
  next
    case 3
    have "bits_to_go (more_bits_done tmp s) = bits_to_go s \<and> ib_left (more_bits_done tmp s) = 32"
    proof (cases "tmp = ib_cur_left s")
      case True
      then show ?thesis using \<open>int tmp = _\<close> by (simp add: more_bits_done_def Let_def bits_to_go_def fetch_def split: list.splits)
    next
      case False
      then show ?thesis using 3 \<open>int tmp = _\<close> by (simp add: more_bits_done_def Let_def bits_to_go_def)
    qed
    then show ?thesis using 3 by (simp add: more_bits.simps [of tmp])
  qed
qed

lemma get_more_bits_to_go:
  "ib_left s \<le> 32 \<Longrightarrow> bits_to_go (get_more_bits s) = bits_to_go s \<and> ib_left (get_more_bits s) \<le> 32"
  using more_bits_to_go [OF refl, of "nat (32 - ib_left s)" s] by (simp add: get_more_bits_def)

lemma skip_bits_to_go [simp]: "bits_to_go (skip_bits n s) = bits_to_go s - int n" "ib_left (skip_bits n s) = ib_left s - int n"
  by (simp_all add: skip_bits_def bits_to_go_def)

lemma token_takes: "8 \<le> fst (token k d)"
  by (simp add: token_def split: mppc.splits)

lemma turn_to_go:
  assumes "decompress_turn k s d = Inr (s', d')" "ib_left s \<le> 32"
  shows "bits_to_go s' \<le> bits_to_go s - 8 \<and> ib_left s' \<le> 32"
proof -
  obtain n c where t: "token k (ib_d32 s) = (n, c)" by (cases "token k (ib_d32 s)")
  have n: "8 \<le> n" using token_takes [of k "ib_d32 s"] t by simp
  let ?s = "get_more_bits (skip_bits n s)"
  have g: "bits_to_go ?s = bits_to_go s - int n" "ib_left ?s \<le> 32" using get_more_bits_to_go [of "skip_bits n s"] assms(2) n by simp_all
  show ?thesis
  proof (cases c)
    case (Inl b)
    then show ?thesis using assms(1) t g n by (auto simp: decompress_turn_def bindR_def split: sum.splits)
  next
    case (Inr off)
    obtain m lom where m: "match_length k (ib_d32 ?s) = (m, lom)" by (cases "match_length k (ib_d32 ?s)")
    have "bits_to_go (get_more_bits (skip_bits m ?s)) = bits_to_go s - int n - int m" "ib_left (get_more_bits (skip_bits m ?s)) \<le> 32"
      using get_more_bits_to_go [of "skip_bits m ?s"] g by simp_all
    then show ?thesis using assms(1) t g n Inr m by (auto simp: decompress_turn_def Let_def bindR_def split: sum.splits if_splits)
  qed
qed

lemma mppc_loop_ends: "ib_left s \<le> 32 \<Longrightarrow> bits_to_go s < 8 * int fuel + 8 \<Longrightarrow> decompress_loop fuel k s d \<noteq> None"
proof (induction fuel arbitrary: s d)
  case 0
  then show ?case by (simp add: decompress_loop.simps bits_to_go_def)
next
  case (Suc fuel)
  show ?case
  proof (cases "decompress_turn k s d")
    case (Inl e)
    then show ?thesis by (simp add: decompress_loop.simps [of "Suc fuel"])
  next
    case (Inr p)
    obtain s' d' where p: "p = (s', d')" by (cases p)
    from turn_to_go [OF Inr [unfolded p] Suc(2)] Suc(3) have "decompress_loop fuel k s' d' \<noteq> None" by (intro Suc(1)) simp_all
    then show ?thesis using Inr p by (simp add: decompress_loop.simps [of "Suc fuel"])
  qed
qed

lemma start_to_go: "bits_to_go (start_bits cbuf) = 8 * int (length cbuf)" "ib_left (start_bits cbuf) \<le> 32"
proof -
  have "length (coming (start_bits cbuf)) = 8 * length cbuf" by (simp add: start_bits_ok(2))
  then show "bits_to_go (start_bits cbuf) = 8 * int (length cbuf)" "ib_left (start_bits cbuf) \<le> 32"
    using start_bits_ok(1) [of cbuf] by (auto simp: coming_def in_ok_def bits_to_go_def)
qed

lemma decompress_ends: "decompress (length cbuf) k cbuf ctype d \<noteq> None"
  using mppc_loop_ends [OF start_to_go(2), of cbuf "length cbuf" k] by (simp add: decompress_def Let_def start_to_go(1))

subsection \<open>Writing behind the output buffer\<close>

lemma put_byte_length: "put_byte i v buf = Inr b \<Longrightarrow> length b = length buf"
  by (auto simp: put_byte_def split: if_splits)

lemma insert_bytes_length: "insert_bytes n data buf i = Inr (r, x, b, j) \<Longrightarrow> length b = length buf"
proof (induction n data buf i arbitrary: r x b j rule: insert_bytes.induct)
  case (1 n data buf i)
  show ?case
  proof (cases "8 \<le> n \<and> i < length buf")
    case True
    have p: "put_byte i (ucast (drop_bit (n - 8) data)) buf = Inr (buf[i := ucast (drop_bit (n - 8) data)])" using True by (simp add: put_byte_def)
    then show ?thesis using 1(1) [OF _ p] 1(2) True by (simp add: insert_bytes.simps [of n])
  next
    case False
    then show ?thesis using 1(2) by (auto simp: insert_bytes.simps [of n] put_byte_def split: if_splits)
  qed
qed

lemma insert_bytes_end:
  "length buf \<le> i + n div 8 \<Longrightarrow> i + n div 8 < 65536 \<Longrightarrow>
    insert_bytes n data buf i = Inl UB_WRITE \<or> (\<exists>r x b j. insert_bytes n data buf i = Inr (r, x, b, j) \<and> length b \<le> j)"
proof (induction n data buf i rule: insert_bytes.induct)
  case (1 n data buf i)
  show ?case
  proof (cases "8 \<le> n \<and> i < length buf")
    case False
    then show ?thesis using 1(2) by (auto simp: insert_bytes.simps [of n] put_byte_def)
  next
    case True
    let ?b = "buf[i := ucast (drop_bit (n - 8) data)]"
    have d: "n div 8 = Suc ((n - 8) div 8)" using True by (simp add: le_div_geq)
    have p: "put_byte i (ucast (drop_bit (n - 8) data)) buf = Inr ?b" using True by (simp add: put_byte_def)
    have "(i + 1) mod 65536 = i + 1" "length ?b \<le> i + 1 + (n - 8) div 8" "i + 1 + (n - 8) div 8 < 65536" using 1(2,3) d by simp_all
    then show ?thesis using 1(1) [OF _ p] True p by (simp add: insert_bytes.simps [of n])
  qed
qed

lemma insert_behind:
  assumes ok: "out_ok k ob" and buf: "length (ob_buf ob) = output_size k" and over: "8 * output_size k \<le> length (bits_written ob) + n" and n: "n \<le> 32"
    and k: "k = Mppc40"
  shows "insert_n_bits k n data ob = Inl UB_WRITE"
proof -
  have o: "ob_index ob < output_size k" "0 < ob_left ob" "ob_left ob \<le> 8" using ok by (simp_all add: out_ok_def)
  have l: "\<not> n < ob_left ob" using over length_written [OF ok] o by linarith
  let ?r = "n - ob_left ob" and ?i = "ob_index ob"
  let ?b = "(ob_buf ob)[?i := ob_buf ob ! ?i OR ucast (drop_bit (n - ob_left ob) data)]"
  have os: "output_size k = 8200" using k by (simp add: output_size_def hist_len_def)
  have "output_size k \<le> ?i + 1 + ?r div 8" using over length_written [OF ok] o l by linarith
  moreover have "?i + 1 + ?r div 8 < 65536" "(?i + 1) mod 65536 = ?i + 1" using o(1) n os by simp_all
  ultimately have "insert_bytes ?r (data AND mask ?r) ?b (?i + 1) = Inl UB_WRITE
    \<or> (\<exists>r x b j. insert_bytes ?r (data AND mask ?r) ?b (?i + 1) = Inr (r, x, b, j) \<and> length b \<le> j)"
    using insert_bytes_end [of ?b "?i + 1" ?r "data AND mask ?r"] buf by simp
  then show ?thesis
    using l o(1) buf \<open>(?i + 1) mod 65536 = ?i + 1\<close> by (auto simp: insert_n_bits_def Let_def put_byte_def)
qed

lemma insert_length: "insert_n_bits k n data ob = Inr ob' \<Longrightarrow> length (ob_buf ob') = length (ob_buf ob)"
  by (auto simp: insert_n_bits_def Let_def bindR_def dest!: put_byte_length insert_bytes_length split: if_splits sum.splits)

text \<open>The bits of data that go out as literals: nine for a byte from 0x80 up, eight for another.\<close>

definition literal_bits :: "u8 list \<Rightarrow> nat" where
  "literal_bits cs = 8 * length cs + length (filter (\<lambda>c. has c 0x80) cs)"

lemma literal_bits_Cons: "literal_bits (c # cs) = fst (literal_code c) + literal_bits cs"
  by (simp add: literal_bits_def literal_code_def)

lemma literals_behind:
  "out_ok Mppc40 ob \<Longrightarrow> length (ob_buf ob) = output_size Mppc40 \<Longrightarrow>
    8 * output_size Mppc40 \<le> length (bits_written ob) + literal_bits cs \<Longrightarrow> encode_literals Mppc40 cs ob = Inl UB_WRITE"
proof (induction cs arbitrary: ob)
  case Nil
  then have "length (bits_written ob) = 8 * ob_index ob + (8 - ob_left ob)" "ob_index ob < output_size Mppc40" "0 < ob_left ob"
    using length_written [of Mppc40 ob] by (simp_all add: out_ok_def)
  then have "length (bits_written ob) < 8 * output_size Mppc40" by linarith
  then show ?case using Nil by (simp add: literal_bits_def)
next
  case (Cons c cs)
  let ?n = "fst (literal_code c)"
  show ?case
  proof (cases "8 * output_size Mppc40 \<le> length (bits_written ob) + ?n")
    case True
    then show ?thesis using insert_behind [OF Cons(2,3), of ?n] literal_size(3) [of c] by (simp add: encode_literal_code)
  next
    case False
    then obtain ob' where "insert_n_bits Mppc40 ?n (snd (literal_code c)) ob = Inr ob'" "out_ok Mppc40 ob'"
      "length (bits_written ob') = length (bits_written ob) + ?n"
      using insert_written [OF Cons(2) literal_size(1) [of c]] by auto
    then show ?thesis using Cons insert_length by (simp add: encode_literal_code literal_bits_Cons)
  qed
qed

text \<open>Data in which no three bytes are like three before them go out as literals.\<close>

lemma loop_without_match:
  "\<forall>i j. j < i \<and> i + 2 < start + sz \<longrightarrow> \<not> same3 h i j \<Longrightarrow> hash_inv t0 (start + ctr) ht \<Longrightarrow> 0 < start + ctr \<Longrightarrow> start + sz \<le> length h \<Longrightarrow>
    start + sz \<le> 65536 \<Longrightarrow> snd (compress_loop k h start sz ctr ht ob) = encode_literals k (take (sz - ctr) (drop (start + ctr) h)) ob"
proof (induction k h start sz ctr ht ob rule: compress_loop.induct)
  case (1 k h start sz ctr ht ob)
  show ?case
  proof (cases "ctr + 2 < sz")
    case False
    then show ?thesis by (simp add: compress_loop.simps [of k h start sz ctr])
  next
    case True
    let ?off = "start + ctr"
    let ?ht = "hash_update (sign (drop ?off h)) (of_nat ?off) ht"
    have "unat (ht_table ht (sign (drop ?off h))) < ?off" using 1(3) by (simp add: hash_inv_def)
    then have "\<not> same3 h ?off (unat (ht_table ht (sign (drop ?off h))))" using 1(2) True by simp
    then have t: "compress_turn k h start sz ctr ht ob = (1, ?ht, encode_literal k (h ! ?off) ob)" by (simp add: compress_turn_def Let_def)
    have d: "take (sz - ctr) (drop ?off h) = h ! ?off # take (sz - (ctr + 1)) (drop (?off + 1) h)"
    proof -
      have "drop ?off h = h ! ?off # drop (Suc ?off) h" using True 1(5) by (intro Cons_nth_drop_Suc [symmetric]) simp
      moreover have "sz - ctr = Suc (sz - (ctr + 1))" using True by simp
      ultimately show ?thesis by simp
    qed
    have i: "hash_inv t0 (start + (ctr + 1)) ?ht" using hash_inv_update(1) [OF 1(3), of ?off "start + (ctr + 1)"] 1(6) True by simp
    show ?thesis
    proof (cases "encode_literal k (h ! ?off) ob")
      case (Inl e)
      then show ?thesis using t d True by (simp add: compress_loop.simps [of k h start sz ctr])
    next
      case (Inr ob')
      have "snd (compress_loop k h start sz (ctr + 1) ?ht ob') = encode_literals k (take (sz - (ctr + 1)) (drop (start + (ctr + 1)) h)) ob'"
        using 1(1) [OF True _ refl Inr 1(2) i] t 1(4-6) Inr by simp
      then show ?thesis using t d True Inr by (simp add: compress_loop.simps [of k h start sz ctr] add.assoc)
    qed
  qed
qed

definition noise_at :: "nat \<Rightarrow> u8" where
  "noise_at i = (if even i then 0x80 + of_nat (i div 2 mod 64) else 0xC0 + of_nat (i div 2 div 64))"

definition noise :: "nat \<Rightarrow> u8 list" where
  "noise n = map noise_at [0..<n]"

lemma unat_noise: "i < 8192 \<Longrightarrow> unat (noise_at i) = (if even i then 0x80 + i div 2 mod 64 else 0xC0 + i div 2 div 64)"
proof -
  assume i: "i < 8192"
  have "i div 2 mod 64 < 64" "i div 2 div 64 < 64" using i by (simp_all add: less_mult_imp_div_less)
  then have "noise_at i = of_nat (if even i then 0x80 + i div 2 mod 64 else 0xC0 + i div 2 div 64)"
    "(if even i then 0x80 + i div 2 mod 64 else 0xC0 + i div 2 div 64) < (256 :: nat)"
    using less_le_trans [of "i div 2 mod 64" 64 128] by (simp_all add: noise_at_def)
  then show ?thesis by (simp only: unat_of_nat) (simp add: take_bit_nat_eq_self)
qed

lemma div_mod_64: "(a :: nat) mod 64 = b mod 64 \<Longrightarrow> a div 64 = b div 64 \<Longrightarrow> a = b"
  by (metis div_mult_mod_eq)

lemma noise_differs:
  assumes "j < i" "i + 2 < 8192"
  shows "\<exists>m < 3. noise_at (i + m) \<noteq> noise_at (j + m)"
proof (rule ccontr)
  assume "\<not> (\<exists>m < 3. noise_at (i + m) \<noteq> noise_at (j + m))"
  then have eq: "noise_at (i + m) = noise_at (j + m)" if "m < 3" for m using that by blast
  have u: "unat (noise_at i) = unat (noise_at j)" "unat (noise_at (i + 1)) = unat (noise_at (j + 1))"
    "unat (noise_at (i + 2)) = unat (noise_at (j + 2))" using eq [of 0] eq [of 1] eq [of 2] by simp_all
  have b: "i < 8192" "i + 1 < 8192" "i + 2 < 8192" "j < 8192" "j + 1 < 8192" "j + 2 < 8192" using assms by simp_all
  have m: "a mod 64 < 64" for a :: nat by simp
  have e: "even i = even j"
    using u(1) m [of "i div 2"] m [of "j div 2"] unfolding unat_noise [OF b(1)] unat_noise [OF b(4)] by (auto split: if_splits)
  show False
  proof (cases "even i")
    case True
    then have p: "even i = True" "even j = True" "even (i + 1) = False" "even (j + 1) = False" using e by simp_all
    have "i div 2 mod 64 = j div 2 mod 64"
      using u(1) unfolding unat_noise [OF b(1)] unat_noise [OF b(4)] p if_True by (rule add_left_imp_eq)
    moreover have "(i + 1) div 2 div 64 = (j + 1) div 2 div 64"
      using u(2) unfolding unat_noise [OF b(2)] unat_noise [OF b(5)] p if_False by (rule add_left_imp_eq)
    moreover have "(i + 1) div 2 = i div 2" "(j + 1) div 2 = j div 2" using True e by simp_all
    ultimately have "i div 2 = j div 2" by (metis div_mod_64)
    then show False using True e assms(1) by (auto elim!: evenE)
  next
    case False
    then have p: "even (i + 1) = True" "even (j + 1) = True" "even (i + 2) = False" "even (j + 2) = False" using e by simp_all
    have "(i + 1) div 2 mod 64 = (j + 1) div 2 mod 64"
      using u(2) unfolding unat_noise [OF b(2)] unat_noise [OF b(5)] p if_True by (rule add_left_imp_eq)
    moreover have "(i + 2) div 2 div 64 = (j + 2) div 2 div 64"
      using u(3) unfolding unat_noise [OF b(3)] unat_noise [OF b(6)] p if_False by (rule add_left_imp_eq)
    moreover have "(i + 1) div 2 = (i + 2) div 2" "(j + 1) div 2 = (j + 2) div 2" using False e by (auto elim!: oddE)
    ultimately have "(i + 2) div 2 = (j + 2) div 2" by (metis div_mod_64)
    then show False using False e assms(1) by (auto elim!: oddE)
  qed
qed

lemma noise_high: "i < 8192 \<Longrightarrow> has (noise_at i) 0x80"
proof -
  assume i: "i < 8192"
  have "128 \<le> unat (noise_at i)" "unat (noise_at i) < 256" 
    using unat_noise [OF i] i less_le_trans [of "i div 2 mod 64" 64 128] by (simp_all add: less_mult_imp_div_less)
  then have "unat (noise_at i) div 2 ^ 7 = 1" by (intro div_nat_eqI) simp_all
  then have "odd (unat (noise_at i) div 2 ^ 7)" by simp
  then have "bit (unat (noise_at i)) 7" by (simp add: bit_iff_odd)
  then show ?thesis by (simp add: has_128 bit_unsigned_iff)
qed

lemma encode_literals_append: "encode_literals k (xs @ ys) ob = bindR (encode_literals k xs ob) (encode_literals k ys)"
  by (induction xs arbitrary: ob) (simp_all add: bindR_def split: sum.split)

text \<open>Data in which no three bytes come twice.\<close>

definition no_triple_twice :: "u8 list \<Rightarrow> bool" where
  "no_triple_twice data \<longleftrightarrow> (\<forall>i < length data. \<forall>j < i. i + 2 < length data \<longrightarrow> \<not> same3 data i j)"

text \<open>The state before the first packet, and any in which the packet goes to the front of the history.\<close>

definition goes_to_front :: "mppc \<Rightarrow> u8 list \<Rightarrow> mppc_enc \<Rightarrow> bool" where
  "goes_to_front k data e \<longleftrightarrow> e = mk_mppc_enc k \<or> length (me_hist e) = hist_len k \<and> hist_len k \<le> me_off e + length data + 2"

lemma placed_at_front:
  assumes "goes_to_front k data e" "length data + 2 < hist_len k"
  obtains tail where "me_off (place_data k data e) = 0" "me_hist (place_data k data e) = data @ tail"
    "ht_table (me_table (place_data k data e)) = (\<lambda>_. 0)" "ht_undo (me_table (place_data k data e)) = []"
  using assms that [of "drop (length data) (me_hist e)"]
  by (auto simp: goes_to_front_def place_data_def Let_def mk_mppc_enc_def hash_reset_def split: if_splits)

text \<open>
  C23. The room of the RDP 4.0 compressor is 8200 bytes, and the check of \<open>insert_n_bits_40_50\<close> lets the byte behind them pass: a packet at
  the front of the history (the first, or one that no longer fits behind the last), of at most 8189 bytes, in which no three bytes come
  twice and whose literals take 8200 bytes or more, makes it write there. Such are 7289 bytes from 0x80 up, or 8189 with 88 of
  them.
\<close>

theorem compressor_writes_behind_buffer:
  assumes "no_triple_twice data" "8 * 8200 \<le> literal_bits data" "length data + 2 < hist_len Mppc40"
    and "goes_to_front Mppc40 data e" "length junk = output_room Mppc40"
  shows "mppc_compress Mppc40 junk m data e = Inl UB_WRITE"
proof (rule placed_at_front [OF assms(4,3)])
  let ?n = "length data" and ?e = "place_data Mppc40 data e"
  let ?ob = "\<lparr>ob_buf = replicate ?n 0 @ drop ?n junk, ob_left = 8, ob_index = 0\<rparr>"
  have "literal_bits data \<le> 9 * ?n" using length_filter_le [of "\<lambda>c. has c 0x80" data] by (simp add: literal_bits_def)
  then have n: "?n \<le> 8189" "7000 \<le> ?n" using assms(2,3) by (simp_all add: hist_len_def)
  fix tail
  assume e: "me_off ?e = 0" "me_hist ?e = data @ tail" "ht_table (me_table ?e) = (\<lambda>_. 0)" "ht_undo (me_table ?e) = []"
  have no: "\<forall>i j. j < i \<and> i + 2 < 0 + ?n \<longrightarrow> \<not> same3 (me_hist ?e) i j"
    using assms(1) e(2) by (auto simp: no_triple_twice_def same3_def)
  have ok: "out_ok Mppc40 ?ob" "bits_written ?ob = []" "length (ob_buf ?ob) = output_size Mppc40"
    using assms(5) n by (cases ?n; simp add: out_ok_def bits_written_def output_size_def output_room_def hist_len_def)+
  let ?ht = "update_indirect (me_hist ?e) 1 (update_indirect (me_hist ?e) 0 (me_table ?e))"
  have "hash_inv (\<lambda>_. 0) 1 (me_table ?e)" using e(3,4) by (simp add: hash_inv_def)
  then have inv: "hash_inv (\<lambda>_. 0) (0 + 2) ?ht" by (intro hash_inv_update(2) [of _ 1]) (auto intro: hash_inv_update(2))
  have loop: "snd (compress_loop Mppc40 (me_hist ?e) 0 ?n 2 ?ht ob) = encode_literals Mppc40 (drop 2 data) ob" for ob
  proof -
    have "snd (compress_loop Mppc40 (me_hist ?e) 0 ?n 2 ?ht ob) = encode_literals Mppc40 (take (?n - 2) (drop (0 + 2) (me_hist ?e))) ob"
      using e(2) n by (intro loop_without_match [OF no inv]) simp_all
    moreover have "take (?n - 2) (drop (0 + 2) (me_hist ?e)) = drop 2 data" using e(2) n by (simp add: numeral_2_eq_2)
    ultimately show ?thesis by simp
  qed
  have "take 2 (me_hist ?e) = take 2 data" using e(2) n by simp
  then have "snd (compress_body Mppc40 (me_hist ?e) (me_off ?e) ?n (me_table ?e) ?ob) = encode_literals Mppc40 (take 2 data @ drop 2 data) ?ob"
    using e(1) loop by (simp add: compress_body_def encode_literals_append bindR_def del: append_take_drop_id split: sum.split)
  also have "\<dots> = Inl UB_WRITE" unfolding append_take_drop_id
    using assms(2) ok(2) by (intro literals_behind [OF ok(1,3)]) (simp add: output_size_def hist_len_def)
  finally show ?thesis
    using n by (cases "compress_body Mppc40 (me_hist ?e) (me_off ?e) ?n (me_table ?e) ?ob") (auto simp: mppc_compress_def Let_def hist_len_def)
qed

subsection \<open>Writing behind the history\<close>

lemma literals_behind_history:
  "in_ok s \<Longrightarrow> in_full s \<Longrightarrow> coming s = concat (map (tok_bits k) (map Lit cs)) \<Longrightarrow> md_ptr d \<le> length (md_hist d) \<Longrightarrow>
    length (md_hist d) < md_ptr d + length cs \<Longrightarrow> length cs \<le> fuel \<Longrightarrow> decompress_loop fuel k s d = Some (Inl UB_WRITE)"
proof (induction cs arbitrary: s d fuel)
  case Nil
  then show ?case by simp
next
  case (Cons c cs)
  have "coming s = tok_bits k (Lit c) @ concat (map (tok_bits k) (map Lit cs))" using Cons(4) by simp
  from literal_turn [OF Cons(2,3) this, of d] obtain s' where s: "in_ok s'" "in_full s'" "coming s' = concat (map (tok_bits k) (map Lit cs))"
    "decompress_turn k s d = bindR (put_byte (md_ptr d) c (md_hist d)) (\<lambda>hist. Inr (s', \<lparr>md_hist = hist, md_ptr = md_ptr d + 1\<rparr>))" .
  obtain f where f: "fuel = Suc f" "length cs \<le> f" using Cons(7) by (cases fuel) auto
  have "8 \<le> length (coming s)" using Cons(4) tok_size [of k "Lit c"] by simp
  then have "\<not> ib_left s < 8" using Cons(2,3) by (auto simp: in_ok_def in_full_def coming_def)
  moreover have "decompress_loop f k s' \<lparr>md_hist = (md_hist d)[md_ptr d := c], md_ptr = md_ptr d + 1\<rparr> = Some (Inl UB_WRITE)"
    if "md_ptr d < length (md_hist d)" using Cons(1) [OF s(1-3) _ _ f(2)] Cons(6) that by simp
  ultimately show ?case using s(4) f(1) Cons(5) by (simp add: decompress_loop.simps [of "Suc f"] put_byte_def)
qed

text \<open>
  C24. The decompressor never compares its position with the end of the history: a packet of more literals than there is room left
  makes it write behind the history.
\<close>

theorem decompressor_writes_behind_history:
  assumes "md_ptr d \<le> length (md_hist d)" "length (md_hist d) < md_ptr d + length cs" "\<forall>c \<in> set cs. \<not> has c 0x80"
  shows "decompress (length cs) k cs PACKET_COMPRESSED d = Some (Inl UB_WRITE)"
proof -
  have "bits_of cs = concat (map (tok_bits k) (map Lit cs))"
    using assms(3) by (induction cs) (simp_all add: literal_code_def nbits_ucast)
  then have "coming (start_bits cs) = concat (map (tok_bits k) (map Lit cs))" by (simp add: start_bits_ok(2))
  from literals_behind_history [OF start_bits_ok(1,3) this assms(1,2) order_refl]
  show ?thesis by (cases d) (simp add: decompress_def Let_def PACKET_COMPRESSED_def PACKET_AT_FRONT_def PACKET_FLUSHED_def has_def)
qed

lemma decompressor_writes_behind_history_witness:
  "decompress (length [0x41, 0x42 :: u8]) Mppc40 [0x41, 0x42] PACKET_COMPRESSED \<lparr>md_hist = replicate 8192 0, md_ptr = 8191\<rparr> = Some (Inl UB_WRITE)"
  by (rule decompressor_writes_behind_history) (simp_all add: has_def)

text \<open>Data of this kind, of any length up to 8189.\<close>

lemma noise_ok:
  assumes "n < 8190"
  shows "no_triple_twice (noise n)" "literal_bits (noise n) = 9 * n" "length (noise n) = n"
proof -
  show l: "length (noise n) = n" by (simp add: noise_def)
  have "\<not> same3 (noise n) i j" if ij: "j < i" "i + 2 < n" for i j
  proof
    assume "same3 (noise n) i j"
    then have "\<forall>m < 3. noise n ! (i + m) = noise n ! (j + m)" using ij l by (intro same3_bytes) simp_all
    then have "\<forall>m < 3. noise_at (i + m) = noise_at (j + m)" using ij by (simp add: noise_def)
    then show False using noise_differs [of j i] ij assms by auto
  qed
  then show "no_triple_twice (noise n)" by (auto simp: no_triple_twice_def l)
  have "filter (\<lambda>c. has c 0x80) (noise n) = noise n" using noise_high assms by (intro filter_True) (auto simp: noise_def)
  then show "literal_bits (noise n) = 9 * n" by (simp add: literal_bits_def l)
qed

lemma compressor_writes_behind_buffer_witness:
  "mppc_compress Mppc40 (replicate 8200 0) 0 (noise 8171) (mk_mppc_enc Mppc40) = Inl UB_WRITE"
  by (rule compressor_writes_behind_buffer) (simp_all add: noise_ok goes_to_front_def hist_len_def output_room_def)

text \<open>
  The decompressor ends on any bytes, type and state: at most a turn for every byte, as no code is shorter.
\<close>

theorem bulk_decompressor_ends: "unified_decompress (length cbuf) cbuf ctype u \<noteq> None"
  using decompress_ends by (auto simp: unified_decompress_def split: sum.split option.split)


end
