(* ===== verification/Fast_Path.thy ===== *)
theory Fast_Path
  imports Mppc_Safety Varint
begin

text \<open>
  Fast-path updates: \<open>send_fast_path_data\<close> (\<open>core/RDP/GraphicUpdatePDU.hpp\<close>), which compresses the fragments of an update and wraps
  them, \<open>Update_Send\<close>, \<open>Update_Recv\<close>, \<open>ServerUpdatePDU_Send\<close> and \<open>ServerUpdatePDU_Recv\<close> (\<open>core/RDP/fastpath.hpp\<close>), and
  \<open>connected_fast_path\<close> (\<open>mod/rdp/rdp.hpp\<close>), which puts the fragments together. The compressor and the decompressor, virtual
  functions in the code, are arguments; what they owe to each other is the locale \<open>bulk_codec\<close>. Encrypted packets are left out.
\<close>

definition FASTPATH_FRAGMENT_SINGLE :: u8 where "FASTPATH_FRAGMENT_SINGLE = 0"
definition FASTPATH_FRAGMENT_LAST :: u8 where "FASTPATH_FRAGMENT_LAST = 1"
definition FASTPATH_FRAGMENT_FIRST :: u8 where "FASTPATH_FRAGMENT_FIRST = 2"
definition FASTPATH_FRAGMENT_NEXT :: u8 where "FASTPATH_FRAGMENT_NEXT = 3"
definition FASTPATH_OUTPUT_COMPRESSION_USED :: u8 where "FASTPATH_OUTPUT_COMPRESSION_USED = 2"
definition FASTPATH_OUTPUT_ENCRYPTED :: u8 where "FASTPATH_OUTPUT_ENCRYPTED = 2"

lemmas fastpath_numbers = FASTPATH_FRAGMENT_SINGLE_def FASTPATH_FRAGMENT_LAST_def FASTPATH_FRAGMENT_FIRST_def FASTPATH_FRAGMENT_NEXT_def
  FASTPATH_OUTPUT_COMPRESSION_USED_def FASTPATH_OUTPUT_ENCRYPTED_def

text \<open>The numbers of \<open>UpdateType\<close>; \<open>connected_fast_path\<close> throws for others.\<close>

definition update_types :: "u8 list" where
  "update_types = [0, 1, 2, 3, 4, 5, 6, 8, 9, 10, 11]"

subsection \<open>Sending\<close>

type_synonym 'e packer = "u8 list \<Rightarrow> 'e \<Rightarrow> ('e \<times> u8 \<times> u8 list) res"

definition no_packer :: "'e packer" where
  "no_packer data e = Inr (e, 0, data)"

definition update_send :: "u8 \<Rightarrow> u8 \<Rightarrow> u8 \<Rightarrow> u8 \<Rightarrow> u8 list \<Rightarrow> u8 list" where
  "update_send code fragmentation compression flags payload =
     bytes_uint8 ((code AND 0x0F) OR push_bit 4 (fragmentation AND 3) OR push_bit 6 (compression AND 3))
     @ (if has compression FASTPATH_OUTPUT_COMPRESSION_USED then bytes_uint8 flags else [])
     @ bytes_uint16_le (of_nat (length payload)) @ payload"

definition server_update_send :: "u8 list \<Rightarrow> u8 list" where
  "server_update_send data =
     (let len = 1 + of_nat (length data) :: u16
      in bytes_uint8 0 @ bytes_2BUE (len + (if 127 \<le> len then 2 else 1)) @ data)"

text \<open>
  The loop over the fragments, of at most \<open>maxf\<close> bytes; what is left out is a \<open>fragmentMax\<close> of 0, for which it does not end.
  \<open>compression\<close> stays set for the fragments after a compressed one.
\<close>

function fp_send :: "'e packer \<Rightarrow> nat \<Rightarrow> bool \<Rightarrow> u8 \<Rightarrow> u8 \<Rightarrow> u8 list \<Rightarrow> 'e \<Rightarrow> (u8 list list \<times> 'e) res" where
  "fp_send pack maxf first compression code rest e =
     (if maxf = 0 then Inl NOT_MODELLED
      else let last = drop maxf rest = [] in
        bindR (pack (take maxf rest) e) (\<lambda>(e, flags, payload).
          let compression = (if has flags PACKET_COMPRESSED then FASTPATH_OUTPUT_COMPRESSION_USED else compression);
              fragmentation = (if first then if last then FASTPATH_FRAGMENT_SINGLE else FASTPATH_FRAGMENT_FIRST
                               else if last then FASTPATH_FRAGMENT_LAST else FASTPATH_FRAGMENT_NEXT);
              pdu = server_update_send (update_send code fragmentation compression flags payload)
          in if last then Inr ([pdu], e)
             else bindR (fp_send pack maxf False compression code (drop maxf rest) e) (\<lambda>(pdus, e). Inr (pdu # pdus, e))))"
  by auto
termination
  by (relation "measure (\<lambda>(pack, maxf, first, compression, code, rest, e). length rest)") auto

declare fp_send.simps [simp del]

definition max_data_block_size :: "mppc \<Rightarrow> nat" where
  "max_data_block_size k = hist_len k - 1"

definition fragment_max :: "bool \<Rightarrow> mppc \<Rightarrow> nat" where
  "fragment_max support k = (if support then min (0x3fff - 20) (max_data_block_size k - 20) else 0x3fff - 20)"

definition send_fast_path_data :: "'e packer \<Rightarrow> bool \<Rightarrow> mppc \<Rightarrow> u8 \<Rightarrow> u8 list \<Rightarrow> 'e \<Rightarrow> (u8 list list \<times> 'e) res" where
  "send_fast_path_data pack support k code data e =
     fp_send (if support then pack else no_packer) (fragment_max support k) True 0 code data e"

text \<open>Updates sent one after the other.\<close>

fun send_all :: "(u8 \<Rightarrow> u8 list \<Rightarrow> 'e \<Rightarrow> (u8 list list \<times> 'e) res) \<Rightarrow> (u8 \<times> u8 list) list \<Rightarrow> 'e \<Rightarrow> (u8 list list \<times> 'e) res" where
  "send_all send [] e = Inr ([], e)"
| "send_all send ((code, data) # xs) e =
     bindR (send code data e) (\<lambda>(ps, e). bindR (send_all send xs e) (\<lambda>(qs, e). Inr (ps @ qs, e)))"

subsection \<open>Receiving\<close>

type_synonym 'u unpacker = "u8 list \<Rightarrow> u8 \<Rightarrow> 'u \<Rightarrow> (u8 list \<times> 'u) res option"

definition bindO :: "'a res option \<Rightarrow> ('a \<Rightarrow> 'b res option) \<Rightarrow> 'b res option" where
  "bindO m f = (case m of None \<Rightarrow> None | Some (Inl e) \<Rightarrow> Some (Inl e) | Some (Inr a) \<Rightarrow> f a)"

lemma bindO_simps [simp]: "bindO None f = None" "bindO (Some (Inl e)) f = Some (Inl e)" "bindO (Some (Inr a)) f = f a"
  by (simp_all add: bindO_def)

record fp_update =
  fu_code :: u8
  fu_fragmentation :: u8
  fu_payload :: "u8 list"

definition update_recv :: "'u unpacker \<Rightarrow> instream \<Rightarrow> 'u \<Rightarrow> (fp_update \<times> instream \<times> 'u) res option" where
  "update_recv unpack s u =
     (if \<not> in_check_rem s 1 then Some (Inl ERR_RDP_FASTPATH) else
      bindO (Some (in_uint8 s)) (\<lambda>(header, s).
      let used = has (drop_bit 6 header AND 3) FASTPATH_OUTPUT_COMPRESSION_USED in
      if \<not> in_check_rem s ((if used then 1 else 0) + 2) then Some (Inl ERR_RDP_FASTPATH) else
      bindO (Some (if used then in_uint8 s else Inr (0, s))) (\<lambda>(flags, s).
      bindO (Some (in_uint16_le s)) (\<lambda>(sz, s).
      if sz \<noteq> 0 \<and> \<not> in_check_rem s (unat sz) then Some (Inl ERR_RDP_FASTPATH) else
      bindO (if used \<and> has flags PACKET_COMPRESSED then unpack (take (unat sz) (remaining_bytes s)) flags u
             else Some (Inr (take (unat sz) (remaining_bytes s), u))) (\<lambda>(payload, u).
      bindO (Some (in_skip_bytes (unat sz) s)) (\<lambda>(_, s).
      Some (Inr (\<lparr>fu_code = header AND 0xF, fu_fragmentation = drop_bit 4 header AND 3, fu_payload = payload\<rparr>, s, u))))))))"

text \<open>\<open>multifragment_update_data\<close>, the room it has, and the decompressor.\<close>

record 'u fp_in =
  fi_frags :: "u8 list"
  fi_cap :: nat
  fi_dec :: 'u

definition join_fragment :: "fp_update \<Rightarrow> 'u fp_in \<Rightarrow> (u8 list option \<times> 'u fp_in) res" where
  "join_fragment upd st =
     (if fu_fragmentation upd = FASTPATH_FRAGMENT_SINGLE then Inr (Some (fu_payload upd), st)
      else let frags = (if fu_fragmentation upd = FASTPATH_FRAGMENT_FIRST then [] else fi_frags st) @ fu_payload upd
           in if fi_cap st < length frags then Inl UB_WRITE
              else Inr (if fu_fragmentation upd = FASTPATH_FRAGMENT_LAST then Some frags else None, st\<lparr>fi_frags := frags\<rparr>))"

text \<open>The updates handed on, with their numbers; the turns of the loop are bounded by \<open>fuel\<close>.\<close>

fun fp_updates :: "'u unpacker \<Rightarrow> nat \<Rightarrow> instream \<Rightarrow> 'u fp_in \<Rightarrow> ((u8 \<times> u8 list) list \<times> 'u fp_in) res option" where
  "fp_updates unpack fuel s st =
     (if in_remain s = 0 then Some (Inr ([], st))
      else case fuel of 0 \<Rightarrow> None
      | Suc fuel \<Rightarrow> bindO (update_recv unpack s (fi_dec st)) (\<lambda>(upd, s, u).
          bindO (Some (join_fragment upd (st\<lparr>fi_dec := u\<rparr>))) (\<lambda>(whole, st).
          if whole \<noteq> None \<and> fu_code upd \<notin> set update_types then Some (Inl ERR_RDP_FASTPATH)
          else bindO (fp_updates unpack fuel s st) (\<lambda>(xs, st).
            Some (Inr ((case whole of None \<Rightarrow> xs | Some data \<Rightarrow> (fu_code upd, data) # xs), st))))))"

declare fp_updates.simps [simp del]

definition server_update_recv :: "u8 list \<Rightarrow> u8 list res" where
  "server_update_recv pdu =
     bindR (in_uint8 (instream_of pdu)) (\<lambda>(header, s).
       if header AND 3 \<noteq> 0 then Inl ERR_RDP_FASTPATH
       else bindR (in_2BUE s) (\<lambda>(_, s).
         if has (drop_bit 6 header AND 3) FASTPATH_OUTPUT_ENCRYPTED then Inl NOT_MODELLED else Inr (remaining_bytes s)))"

definition connected_fast_path :: "'u unpacker \<Rightarrow> u8 list \<Rightarrow> 'u fp_in \<Rightarrow> ((u8 \<times> u8 list) list \<times> 'u fp_in) res option" where
  "connected_fast_path unpack pdu st =
     bindO (Some (server_update_recv pdu)) (\<lambda>payload. fp_updates unpack (length payload) (instream_of payload) st)"

fun fp_recv :: "'u unpacker \<Rightarrow> u8 list list \<Rightarrow> 'u fp_in \<Rightarrow> ((u8 \<times> u8 list) list \<times> 'u fp_in) res option" where
  "fp_recv unpack [] st = Some (Inr ([], st))"
| "fp_recv unpack (pdu # pdus) st = bindO (connected_fast_path unpack pdu st) (\<lambda>(xs, st).
     bindO (fp_recv unpack pdus st) (\<lambda>(ys, st). Some (Inr (xs @ ys, st))))"

lemma fp_recv_append: "fp_recv unpack (ps @ qs) st = bindO (fp_recv unpack ps st) (\<lambda>(xs, st).
    bindO (fp_recv unpack qs st) (\<lambda>(ys, st). Some (Inr (xs @ ys, st))))"
proof (induction ps arbitrary: st)
  case Nil
  then show ?case by (simp add: bindO_def split: option.split sum.split)
next
  case (Cons p ps)
  then show ?case by (auto simp: bindO_def split: option.split sum.split)
qed

subsection \<open>One update\<close>

lemma update_header:
  assumes "code \<in> set update_types" "frag \<in> {0, 1, 2, 3}" "compression \<in> {0, 2}"
  defines "h \<equiv> ((code AND 0x0F) OR push_bit 4 (frag AND 3) OR push_bit 6 (compression AND 3)) :: u8"
  shows "h AND 0xF = code" "drop_bit 4 h AND 3 = frag" "drop_bit 6 h AND 3 = compression"
proof -
  have "code < 16" using assms(1) by (auto simp: update_types_def)
  then have c: "i < 4" if "bit code i" for i using bit_below [OF that, of 4] by simp
  have f: "i < 2" if "bit frag i" for i using bit_below [OF that, of 2] assms(2) by auto
  have u: "i < 2" if "bit compression i" for i using bit_below [OF that, of 2] assms(3) by auto
  have m: "(0x0F :: u8) = mask 4" "(3 :: u8) = mask 2" by (simp_all add: mask_eq_exp_minus_1)
  have h: "bit h i \<longleftrightarrow> bit code i \<or> (4 \<le> i \<and> i < 8 \<and> bit frag (i - 4)) \<or> (6 \<le> i \<and> i < 8 \<and> bit compression (i - 6))" for i
    unfolding h_def m by (auto simp only: bit_or_iff bit_and_iff bit_mask_iff bit_push_bit_iff possible_bit_word word_size
      dest: c f u) (auto dest!: c f u)
  show "h AND 0xF = code"
    unfolding m by (rule bit_word_eqI) (auto simp only: bit_and_iff bit_mask_iff h possible_bit_word dest: c)
  show "drop_bit 4 h AND 3 = frag"
    unfolding m
  proof (rule bit_word_eqI)
    fix i :: nat assume "i < LENGTH(8)"
    have "bit h (4 + i) = bit frag i" if "i < 2" using that h [of "4 + i"] c [of "4 + i"] by auto
    then show "bit (drop_bit 4 h AND mask 2) i = bit frag i"
      using f [of i] by (auto simp: bit_and_iff bit_mask_iff bit_drop_bit_eq)
  qed
  show "drop_bit 6 h AND 3 = compression"
    unfolding m
  proof (rule bit_word_eqI)
    fix i :: nat assume "i < LENGTH(8)"
    have "bit h (6 + i) = bit compression i" if "i < 2" using that h [of "6 + i"] c [of "6 + i"] f [of "6 + i - 4"] by auto
    then show "bit (drop_bit 6 h AND mask 2) i = bit compression i"
      using u [of i] by (auto simp: bit_and_iff bit_mask_iff bit_drop_bit_eq)
  qed
qed

lemma update_recv_send:
  assumes "code \<in> set update_types" "frag \<in> {0, 1, 2, 3}" "compression \<in> {0, 2}" "length payload < 65536"
  shows "update_recv unpack (InStream c (update_send code frag compression flags payload @ r)) u =
    bindO (if compression = 2 \<and> has flags PACKET_COMPRESSED then unpack payload flags u else Some (Inr (payload, u)))
      (\<lambda>(data, u). Some (Inr (\<lparr>fu_code = code, fu_fragmentation = frag, fu_payload = data\<rparr>,
         InStream (c @ update_send code frag compression flags payload) r, u)))"
proof -
  define h where "h = ((code AND 0x0F) OR push_bit 4 (frag AND 3) OR push_bit 6 (compression AND 3) :: u8)"
  note hd = update_header [OF assms(1-3), folded h_def]
  have sz: "unat (of_nat (length payload) :: u16) = length payload" using assms(4) by (simp add: unat_of_nat take_bit_nat_eq_self)
  have used: "has compression FASTPATH_OUTPUT_COMPRESSION_USED \<longleftrightarrow> compression = 2" using assms(3) by (auto simp: has_def fastpath_numbers)
  have le: "in_uint16_le (InStream d (bytes_uint16_le v @ q)) = Inr (v, InStream (d @ bytes_uint16_le v) q)" for d v q
    by (rule uint16_le.rd_enc) simp
  have l: "length (bytes_uint16_le v) = 2" for v by (simp add: bytes_uint16_le_def)
  have w: "update_send code frag compression flags payload
      = h # (if compression = 2 then [flags] else []) @ bytes_uint16_le (of_nat (length payload)) @ payload"
    by (simp add: update_send_def h_def bytes_uint8_def used)
  have n: "has 2 FASTPATH_OUTPUT_COMPRESSION_USED" "\<not> has 0 FASTPATH_OUTPUT_COMPRESSION_USED" by (simp_all add: has_def fastpath_numbers)
  show ?thesis
  proof (cases "compression = 2")
    case True
    note hd = hd [unfolded True]
    show ?thesis unfolding w
      by (simp add: True update_recv_def in_check_rem_def in_remain_def n hd sz le l skip_data bindO_def split: option.split sum.split)
  next
    case False
    then have "compression = 0" using assms(3) by simp
    note hd = hd [unfolded this]
    show ?thesis unfolding w
      by (simp add: \<open>compression = 0\<close> update_recv_def in_check_rem_def in_remain_def n hd sz le l skip_data bindO_def split: option.split sum.split)
  qed
qed

lemma server_update_recv_send:
  assumes "length data + 3 < 0x8000"
  shows "server_update_recv (server_update_send data) = Inr data"
proof -
  let ?len = "1 + of_nat (length data) :: u16"
  let ?l = "?len + (if 127 \<le> ?len then 2 else 1)"
  have "?l < 0x8000"
  proof -
    obtain n where n: "?l = of_nat n" "n \<le> length data + 3"
      by (cases "127 \<le> ?len") (auto intro: that [of "length data + 3"] that [of "length data + 2"])
    then show ?thesis using assms by (simp add: word_less_nat_alt unat_of_nat take_bit_nat_eq_self)
  qed
  note r = dec_2BUE [OF this, of "[0]" data]
  then show ?thesis
    by (simp add: server_update_send_def server_update_recv_def Let_def bytes_uint8_def instream_of_def has_def)
qed

lemma connected_one:
  assumes "server_update_recv pdu = Inr w" "w \<noteq> []" "update_recv unpack (InStream [] w) (fi_dec st) = Some (Inr (upd, InStream w [], u))"
    "fu_code upd \<in> set update_types"
  shows "connected_fast_path unpack pdu st = bindO (Some (join_fragment upd (st\<lparr>fi_dec := u\<rparr>)))
    (\<lambda>(whole, st). Some (Inr (case whole of None \<Rightarrow> [] | Some d \<Rightarrow> [(fu_code upd, d)], st)))"
proof -
  obtain n where n: "length w = Suc n" using assms(2) by (cases "length w") simp_all
  have e: "fp_updates unpack m (InStream w []) st = Some (Inr ([], st))" for m st
    by (simp add: fp_updates.simps [of _ m] in_remain_def)
  show ?thesis
    using assms n
    by (simp add: connected_fast_path_def fp_updates.simps [of _ "Suc n"] instream_of_def in_remain_def e bindO_def
        split: sum.split option.split prod.split)
qed

subsection \<open>The contract of a compressor and its decompressor\<close>

text \<open>
  While they are in step, a packet that fits comes back, compressed or as it is, not longer than it was; afterwards they are in step
  again.
\<close>

locale bulk_codec =
  fixes pack :: "'e packer" and unpack :: "'u unpacker" and in_step :: "'e \<Rightarrow> 'u \<Rightarrow> bool" and fits :: "nat \<Rightarrow> bool"
  assumes fits_less: "fits n \<Longrightarrow> m \<le> n \<Longrightarrow> fits m"
    and packet: "in_step e u \<Longrightarrow> fits (length data) \<Longrightarrow> \<exists>e' flags bytes u'. pack data e = Inr (e', flags, bytes) \<and> length bytes \<le> length data
      \<and> (if has flags PACKET_COMPRESSED then unpack bytes flags u else Some (Inr (bytes, u))) = Some (Inr (data, u')) \<and> in_step e' u'"
begin

lemma pdu_received:
  assumes "in_step e (fi_dec st)" "fits (length data)" "length data \<le> 0x3fff" "code \<in> set update_types" "frag \<in> {0, 1, 2, 3}" "compression \<in> {0, 2}"
  obtains e' flags bytes u' where "pack data e = Inr (e', flags, bytes)" "in_step e' u'"
    "connected_fast_path unpack (server_update_send (update_send code frag
        (if has flags PACKET_COMPRESSED then FASTPATH_OUTPUT_COMPRESSION_USED else compression) flags bytes)) st
      = bindO (Some (join_fragment \<lparr>fu_code = code, fu_fragmentation = frag, fu_payload = data\<rparr> (st\<lparr>fi_dec := u'\<rparr>)))
          (\<lambda>(whole, st). Some (Inr (case whole of None \<Rightarrow> [] | Some d \<Rightarrow> [(code, d)], st)))"
proof -
  obtain e' flags bytes u' where p: "pack data e = Inr (e', flags, bytes)" "length bytes \<le> length data" "in_step e' u'"
    "(if has flags PACKET_COMPRESSED then unpack bytes flags (fi_dec st) else Some (Inr (bytes, fi_dec st))) = Some (Inr (data, u'))"
    using packet [OF assms(1,2)] by blast
  let ?c = "if has flags PACKET_COMPRESSED then FASTPATH_OUTPUT_COMPRESSION_USED else compression"
  let ?upd = "update_send code frag ?c flags bytes"
  have c: "?c \<in> {0, 2}" using assms(6) by (simp add: fastpath_numbers)
  have l: "length ?upd \<le> length bytes + 4" "0 < length ?upd"
    by (simp_all add: update_send_def bytes_uint8_def bytes_uint16_le_def)
  have s: "server_update_recv (server_update_send ?upd) = Inr ?upd" using l(1) p(2) assms(3) by (intro server_update_recv_send) simp
  have u: "update_recv unpack (InStream [] ?upd) (fi_dec st)
      = Some (Inr (\<lparr>fu_code = code, fu_fragmentation = frag, fu_payload = data\<rparr>, InStream ?upd [], u'))"
  proof -
    have "(if ?c = 2 \<and> has flags PACKET_COMPRESSED then unpack bytes flags (fi_dec st) else Some (Inr (bytes, fi_dec st))) = Some (Inr (data, u'))"
      using p(4) by (simp add: fastpath_numbers split: if_splits)
    moreover have "length bytes < 65536" using p(2) assms(3) by simp
    ultimately show ?thesis using update_recv_send [OF assms(4,5) c, of bytes unpack "[]" flags "[]" "fi_dec st"] by simp
  qed
  have "?upd \<noteq> []" using l(2) by auto
  note o = connected_one [OF s this u, unfolded fp_update.simps, OF assms(4)]
  show ?thesis by (rule that [OF p(1,3) o])
qed

end

context bulk_codec
begin

lemma fragments_received:
  "0 < maxf \<Longrightarrow> maxf \<le> 0x3fff \<Longrightarrow> code \<in> set update_types \<Longrightarrow> c \<in> {0, 2} \<Longrightarrow> in_step e (fi_dec st) \<Longrightarrow> fits (min maxf (length rest)) \<Longrightarrow>
    length (fi_frags st) + length rest \<le> fi_cap st \<Longrightarrow>
    \<exists>pdus e' st'. fp_send pack maxf False c code rest e = Inr (pdus, e')
      \<and> fp_recv unpack pdus st = Some (Inr ([(code, fi_frags st @ rest)], st')) \<and> in_step e' (fi_dec st') \<and> fi_cap st' = fi_cap st"
proof (induction "length rest" arbitrary: rest c e st rule: less_induct)
  case less
  let ?now = "take maxf rest" and ?last = "drop maxf rest = []"
  let ?f = "if ?last then FASTPATH_FRAGMENT_LAST else FASTPATH_FRAGMENT_NEXT"
  have f: "?f \<in> {0, 1, 2, 3}" by (simp add: fastpath_numbers)
  have fit: "fits (length ?now)" "length ?now \<le> 0x3fff" using less(7,3) by (simp_all add: min.commute)
  obtain e1 flags bytes u1 where p: "pack ?now e = Inr (e1, flags, bytes)" "in_step e1 u1"
    "connected_fast_path unpack (server_update_send (update_send code ?f
        (if has flags PACKET_COMPRESSED then FASTPATH_OUTPUT_COMPRESSION_USED else c) flags bytes)) st
      = bindO (Some (join_fragment \<lparr>fu_code = code, fu_fragmentation = ?f, fu_payload = ?now\<rparr> (st\<lparr>fi_dec := u1\<rparr>)))
          (\<lambda>(whole, st). Some (Inr (case whole of None \<Rightarrow> [] | Some d \<Rightarrow> [(code, d)], st)))"
    by (rule pdu_received [OF less(6) fit(1,2) less(4) f less(5)])
  let ?c = "if has flags PACKET_COMPRESSED then FASTPATH_OUTPUT_COMPRESSION_USED else c"
  let ?pdu = "server_update_send (update_send code ?f ?c flags bytes)"
  let ?st = "st\<lparr>fi_dec := u1, fi_frags := fi_frags st @ ?now\<rparr>"
  have room: "length (fi_frags st @ ?now) \<le> fi_cap st" using less(8) by simp
  have j: "join_fragment \<lparr>fu_code = code, fu_fragmentation = ?f, fu_payload = ?now\<rparr> (st\<lparr>fi_dec := u1\<rparr>)
      = Inr (if ?last then Some (fi_frags st @ ?now) else None, ?st)"
    using room by (auto simp: join_fragment_def fastpath_numbers Let_def min_def)
  show ?case
  proof (cases ?last)
    case True
    then have "?now = rest" by simp
    then show ?thesis using True p j less(2) by (simp add: fp_send.simps [of _ maxf] Let_def fastpath_numbers)
  next
    case False
    let ?rest = "drop maxf rest"
    have "length ?rest < length rest" using False less(2) by simp
    moreover have "?c \<in> {0, 2}" using less(5) by (simp add: fastpath_numbers)
    moreover have "fits (min maxf (length ?rest))" by (rule fits_less [OF less(7)]) simp
    moreover have "length (fi_frags ?st) + length ?rest \<le> fi_cap ?st" using less(8) by simp
    ultimately obtain pdus e' st' where r: "fp_send pack maxf False ?c code ?rest e1 = Inr (pdus, e')"
      "fp_recv unpack pdus ?st = Some (Inr ([(code, fi_frags ?st @ ?rest)], st'))" "in_step e' (fi_dec st')" "fi_cap st' = fi_cap ?st"
      using less(1) [of ?rest ?c e1 ?st] less(2-4) p(2) by auto
    then show ?thesis using False p j less(2)
      by (intro exI [of _ "?pdu # pdus"]) (simp add: fp_send.simps [of _ maxf _ _ _ rest] Let_def)
  qed
qed

lemma update_received:
  assumes "0 < maxf" "maxf \<le> 0x3fff" "code \<in> set update_types" "in_step e (fi_dec st)" "fits (min maxf (length data))" "length data \<le> fi_cap st"
  shows "\<exists>pdus e' st'. fp_send pack maxf True 0 code data e = Inr (pdus, e')
    \<and> fp_recv unpack pdus st = Some (Inr ([(code, data)], st')) \<and> in_step e' (fi_dec st') \<and> fi_cap st' = fi_cap st"
proof -
  let ?now = "take maxf data" and ?last = "drop maxf data = []"
  let ?f = "if ?last then FASTPATH_FRAGMENT_SINGLE else FASTPATH_FRAGMENT_FIRST"
  have f: "?f \<in> {0, 1, 2, 3}" by (simp add: fastpath_numbers)
  have fit: "fits (length ?now)" "length ?now \<le> 0x3fff" using assms(5,2) by (simp_all add: min.commute)
  obtain e1 flags bytes u1 where p: "pack ?now e = Inr (e1, flags, bytes)" "in_step e1 u1"
    "connected_fast_path unpack (server_update_send (update_send code ?f
        (if has flags PACKET_COMPRESSED then FASTPATH_OUTPUT_COMPRESSION_USED else 0) flags bytes)) st
      = bindO (Some (join_fragment \<lparr>fu_code = code, fu_fragmentation = ?f, fu_payload = ?now\<rparr> (st\<lparr>fi_dec := u1\<rparr>)))
          (\<lambda>(whole, st). Some (Inr (case whole of None \<Rightarrow> [] | Some d \<Rightarrow> [(code, d)], st)))"
    by (rule pdu_received [OF assms(4) fit(1,2) assms(3) f, of 0]) simp_all
  let ?c = "if has flags PACKET_COMPRESSED then FASTPATH_OUTPUT_COMPRESSION_USED else 0"
  let ?pdu = "server_update_send (update_send code ?f ?c flags bytes)"
  show ?thesis
  proof (cases ?last)
    case True
    then have "?now = data" by simp
    then show ?thesis using True p assms(1) by (simp add: fp_send.simps [of _ maxf] Let_def join_fragment_def)
  next
    case False
    let ?st = "st\<lparr>fi_dec := u1, fi_frags := ?now\<rparr>" and ?rest = "drop maxf data"
    have j: "join_fragment \<lparr>fu_code = code, fu_fragmentation = ?f, fu_payload = ?now\<rparr> (st\<lparr>fi_dec := u1\<rparr>) = Inr (None, ?st)"
      using False assms(6) by (simp add: join_fragment_def fastpath_numbers Let_def)
    have c: "?c \<in> {0, 2}" by (simp add: fastpath_numbers)
    have "fits (min maxf (length ?rest))" by (rule fits_less [OF assms(5)]) simp
    moreover have "length (fi_frags ?st) + length ?rest \<le> fi_cap ?st" "in_step e1 (fi_dec ?st)" using assms(6) p(2) by simp_all
    ultimately obtain pdus e' st' where r: "fp_send pack maxf False ?c code ?rest e1 = Inr (pdus, e')"
      "fp_recv unpack pdus ?st = Some (Inr ([(code, fi_frags ?st @ ?rest)], st'))" "in_step e' (fi_dec st')" "fi_cap st' = fi_cap ?st"
      using fragments_received [OF assms(1-3) c, of e1 ?st ?rest] by blast
    then show ?thesis using False p j assms(1)
      by (intro exI [of _ "?pdu # pdus"]) (simp add: fp_send.simps [of _ maxf _ _ _ data] Let_def)
  qed
qed

lemma updates_received:
  "0 < maxf \<Longrightarrow> maxf \<le> 0x3fff \<Longrightarrow> in_step e (fi_dec st) \<Longrightarrow>
    \<forall>(code, data) \<in> set xs. code \<in> set update_types \<and> fits (min maxf (length data)) \<and> length data \<le> fi_cap st \<Longrightarrow>
    \<exists>pdus e' st'. send_all (fp_send pack maxf True 0) xs e = Inr (pdus, e') \<and> fp_recv unpack pdus st = Some (Inr (xs, st')) \<and> in_step e' (fi_dec st')"
proof (induction xs arbitrary: e st)
  case Nil
  then show ?case by auto
next
  case (Cons x xs)
  obtain code data where x: "x = (code, data)" by (cases x)
  obtain ps e1 st1 where 1: "fp_send pack maxf True 0 code data e = Inr (ps, e1)" "fp_recv unpack ps st = Some (Inr ([(code, data)], st1))"
    "in_step e1 (fi_dec st1)" "fi_cap st1 = fi_cap st"
    using update_received [OF Cons(2,3), of code e st data] Cons(4,5) x by auto
  obtain qs e2 st2 where "send_all (fp_send pack maxf True 0) xs e1 = Inr (qs, e2)" "fp_recv unpack qs st1 = Some (Inr (xs, st2))" "in_step e2 (fi_dec st2)"
    using Cons(1) [OF Cons(2,3) 1(3)] Cons(5) 1(4) by auto
  then show ?case using 1 x by (auto simp: fp_recv_append)
qed

end

subsection \<open>The bulk compressors keep the contract\<close>

text \<open>The state of the compressor has what its output buffer holds before each of the packets to come.\<close>

definition mppc_packer :: "mppc \<Rightarrow> nat \<Rightarrow> (mppc_enc \<times> (nat \<Rightarrow> u8 list)) packer" where
  "mppc_packer k max_size data e =
     bindR (bulk_send k (snd e 0) max_size data (fst e)) (\<lambda>(e', flags, bytes). Inr ((e', \<lambda>i. snd e (Suc i)), flags, bytes))"

definition mppc_unpacker :: "(mppc \<times> mppc_dec) option unpacker" where
  "mppc_unpacker bytes flags u = unified_decompress (length bytes) bytes flags u"

definition mppc_in_step :: "mppc \<Rightarrow> mppc_enc \<times> (nat \<Rightarrow> u8 list) \<Rightarrow> (mppc \<times> mppc_dec) option \<Rightarrow> bool" where
  "mppc_in_step k e u \<longleftrightarrow> bulk_sync k (fst e) u \<and> (\<forall>i. length (snd e i) = output_room k)"

interpretation mppc: bulk_codec "mppc_packer k max_size" mppc_unpacker "mppc_in_step k" "bulk_fits k"
proof unfold_locales
  show "bulk_fits k m" if "bulk_fits k n" "m \<le> n" for n m using that by (simp add: bulk_fits_def)
next
  fix e u and data :: "u8 list"
  assume s: "mppc_in_step k e u" and f: "bulk_fits k (length data)"
  obtain e' flags bytes u' where "bulk_send k (snd e 0) max_size data (fst e) = Inr (e', flags, bytes)" "length bytes \<le> length data"
    "bulk_receive (length bytes) flags bytes u = Some (Inr (data, u'))" "bulk_sync k e' u'"
    using bulk_packet [of k "fst e" u data "snd e 0" max_size] s f by (auto simp: mppc_in_step_def)
  then show "\<exists>e' flags bytes u'. mppc_packer k max_size data e = Inr (e', flags, bytes) \<and> length bytes \<le> length data
    \<and> (if has flags PACKET_COMPRESSED then mppc_unpacker bytes flags u else Some (Inr (bytes, u))) = Some (Inr (data, u')) \<and> mppc_in_step k e' u'"
    using s by (auto simp: mppc_packer_def mppc_in_step_def mppc_unpacker_def bulk_receive_def)
qed

interpretation uncompressed: bulk_codec no_packer unpack "\<lambda>_ _. True" "\<lambda>_. True"
  by unfold_locales (simp_all add: no_packer_def has_def)

lemma fragment_max_range: "0 < fragment_max b k" "fragment_max b k \<le> 0x3fff"
  by (cases k; simp add: fragment_max_def max_data_block_size_def hist_len_def)+

lemma fast_path_delivers:
  assumes "\<forall>(code, data) \<in> set xs. code \<in> set update_types \<and> length data \<le> cap \<and> bulk_fits k (min (fragment_max True k) (length data))"
    and "\<forall>i. length (js i) = output_room k"
  shows "\<exists>pdus e st. send_all (send_fast_path_data (mppc_packer k m) True k) xs (mk_mppc_enc k, js) = Inr (pdus, e)
    \<and> fp_recv mppc_unpacker pdus \<lparr>fi_frags = [], fi_cap = cap, fi_dec = None\<rparr> = Some (Inr (xs, st)) \<and> mppc_in_step k e (fi_dec st)"
proof -
  let ?st = "\<lparr>fi_frags = [], fi_cap = cap, fi_dec = None\<rparr>"
  have "send_fast_path_data (mppc_packer k m) True k = fp_send (mppc_packer k m) (fragment_max True k) True 0"
    by (simp add: fun_eq_iff send_fast_path_data_def)
  moreover have "mppc_in_step k (mk_mppc_enc k, js) (fi_dec ?st)" using assms(2) bulk_start by (simp add: mppc_in_step_def)
  ultimately show ?thesis
    using mppc.updates_received [OF fragment_max_range, of k "(mk_mppc_enc k, js)" ?st xs True k m] assms(1) by force
qed

text \<open>
  C10. What \<open>send_fast_path_data\<close> sends of a sequence of updates with known codes, no longer than the buffer for fragments, and with
  fragments the compressor can take (always for RDP 5.0; at most 7288 bytes for RDP 4.0, though \<open>send_fast_path_data\<close> cuts at 8171, see
  \<open>compressor_writes_behind_buffer\<close>), cut into fragments, compressed packet by packet and wrapped, \<open>connected_fast_path\<close> decompresses and
  puts together again: the same updates, in the same order, whole.
\<close>

theorem updates_delivered:
  assumes "\<forall>(code, data) \<in> set xs. code \<in> set update_types \<and> length data \<le> cap \<and> bulk_fits k (min (fragment_max True k) (length data))"
    and "\<forall>i. length (js i) = output_room k"
  shows "\<exists>pdus e st. send_all (send_fast_path_data (mppc_packer k m) True k) xs (mk_mppc_enc k, js) = Inr (pdus, e)
    \<and> fp_recv mppc_unpacker pdus \<lparr>fi_frags = [], fi_cap = cap, fi_dec = None\<rparr> = Some (Inr (xs, st)) \<and> mppc_in_step k e (fi_dec st)"
  by (rule fast_path_delivers [OF assms])

text \<open>
  C25. Fragments are put together without a look at the room: one that no longer fits is written behind \<open>multifragment_update_data\<close>.
\<close>

theorem fragments_write_behind_buffer:
  assumes "code \<in> set update_types" "frag \<in> {FASTPATH_FRAGMENT_NEXT, FASTPATH_FRAGMENT_LAST}" "length data \<le> 0x3fff"
    "fi_cap st < length (fi_frags st) + length data"
  shows "connected_fast_path unpack (server_update_send (update_send code frag 0 0 data)) st = Some (Inl UB_WRITE)"
proof -
  have f: "frag \<in> {0, 1, 2, 3}" "frag \<noteq> FASTPATH_FRAGMENT_SINGLE" "frag \<noteq> FASTPATH_FRAGMENT_FIRST" using assms(2) by (auto simp: fastpath_numbers)
  obtain e' flags bytes u where p: "no_packer data () = Inr (e', flags, bytes)"
    "connected_fast_path unpack (server_update_send (update_send code frag
        (if has flags PACKET_COMPRESSED then FASTPATH_OUTPUT_COMPRESSION_USED else 0) flags bytes)) st
      = bindO (Some (join_fragment \<lparr>fu_code = code, fu_fragmentation = frag, fu_payload = data\<rparr> (st\<lparr>fi_dec := u\<rparr>)))
          (\<lambda>(whole, st). Some (Inr (case whole of None \<Rightarrow> [] | Some d \<Rightarrow> [(code, d)], st)))"
    by (rule uncompressed.pdu_received [where e = "()" and st = st and unpack = unpack and compression = 0, OF TrueI TrueI assms(3,1) f(1)]) simp_all
  moreover have "flags = 0" "bytes = data" using p(1) by (simp_all add: no_packer_def)
  ultimately show ?thesis using f(2,3) assms(4) by (simp add: join_fragment_def has_def Let_def)
qed

lemma fragments_write_behind_buffer_witness:
  "connected_fast_path mppc_unpacker (server_update_send (update_send 0 FASTPATH_FRAGMENT_NEXT 0 0 [1, 2, 3]))
    \<lparr>fi_frags = [9, 9], fi_cap = 4, fi_dec = None\<rparr> = Some (Inl UB_WRITE)"
  by (rule fragments_write_behind_buffer) (simp_all add: update_types_def)

lemma updates_delivered_witness:
  "\<exists>pdus e st. send_all (send_fast_path_data (mppc_packer Mppc50 0) True Mppc50) [(0, [1, 2, 3, 1, 2, 3]), (9, [])]
      (mk_mppc_enc Mppc50, \<lambda>_. replicate (output_room Mppc50) 0) = Inr (pdus, e)
    \<and> fp_recv mppc_unpacker pdus \<lparr>fi_frags = [], fi_cap = 65536, fi_dec = None\<rparr> = Some (Inr ([(0, [1, 2, 3, 1, 2, 3]), (9, [])], st))
    \<and> mppc_in_step Mppc50 e (fi_dec st)"
  by (rule updates_delivered) (simp_all add: update_types_def bulk_fits_def output_size_def hist_len_def fragment_max_def max_data_block_size_def)

subsection \<open>Every packet of updates ends\<close>

lemma remain_less:
  "in_uint8 s = Inr (v, s') \<Longrightarrow> in_remain s = Suc (in_remain s')" "in_uint16_le s = Inr (x, s') \<Longrightarrow> in_remain s = in_remain s' + 2"
  "in_skip_bytes n s = Inr (bs, s') \<Longrightarrow> in_remain s' \<le> in_remain s"
  by (auto simp: in_uint8_Inr in_remain_def in_skip_bytes_def assertR_eq_Inr elim!: in_uint16_le.elims)

lemma bindO_Inr: "bindO m f = Some (Inr y) \<longleftrightarrow> (\<exists>x. m = Some (Inr x) \<and> f x = Some (Inr y))"
  by (auto simp: bindO_def split: option.splits sum.splits)

lemma bindO_None: "bindO m f = None \<longleftrightarrow> m = None \<or> (\<exists>x. m = Some (Inr x) \<and> f x = None)"
  by (auto simp: bindO_def split: option.splits sum.splits)

lemma update_recv_less: "update_recv unpack s u = Some (Inr (upd, s', u')) \<Longrightarrow> in_remain s' < in_remain s"
  by (auto simp: update_recv_def bindO_Inr Let_def dest!: remain_less split: if_splits)

lemma update_recv_ends:
  assumes "\<forall>bs flags u. unpack bs flags u \<noteq> None"
  shows "update_recv unpack s u \<noteq> None"
  using assms by (auto simp: update_recv_def bindO_None Let_def simp del: not_None_eq split: if_splits)

lemma fp_updates_ends:
  assumes u: "\<forall>bs flags u. unpack bs flags u \<noteq> None"
  shows "in_remain s \<le> fuel \<Longrightarrow> fp_updates unpack fuel s st \<noteq> None"
proof (induction fuel arbitrary: s st)
  case 0
  then show ?case by (simp add: fp_updates.simps)
next
  case (Suc fuel)
  show ?case
  proof (cases "update_recv unpack s (fi_dec st)")
    case None
    then show ?thesis using update_recv_ends [OF u] by blast
  next
    case (Some r)
    have "fp_updates unpack fuel s' st' \<noteq> None" if "r = Inr (upd, s', u')" for upd s' u' st'
      using update_recv_less [of unpack s "fi_dec st" upd s' u'] Some that Suc(2) by (intro Suc(1)) simp
    then show ?thesis using Some by (auto simp: fp_updates.simps [of _ "Suc fuel"] bindO_None simp del: not_None_eq split: if_splits)
  qed
qed

text \<open>
  C12. Whatever bytes a fast-path packet has, the loop over its updates ends, and so does the decompressor for each of them, in whatever
  state they are.
\<close>

theorem fast_path_packets_end: "connected_fast_path mppc_unpacker pdu st \<noteq> None"
proof -
  have "\<forall>bs flags u. mppc_unpacker bs flags u \<noteq> None" using decompress_ends by (auto simp: mppc_unpacker_def unified_decompress_def split: sum.split option.split)
  from fp_updates_ends [OF this] show ?thesis
    by (auto simp: connected_fast_path_def bindO_None instream_of_def in_remain_def simp del: not_None_eq)
qed

end
