(* ===== verification/Graphics_Link.thy ===== *)
theory Graphics_Link
  imports Order_Link Fast_Path
begin

text \<open>
  Drawings through the whole of the fast path: \<open>GraphicsUpdatePDU\<close> gives its updates to \<open>send_fast_path_data\<close>, which compresses
  and fragments them, and \<open>connected_fast_path\<close> gives what it has put together to the decoder of orders.
\<close>

text \<open>\<open>flush_orders\<close> and \<open>flush_bitmaps\<close> on the fast path; the update of bitmaps begins with its type and the count.\<close>

definition update_of :: "pdu \<Rightarrow> u8 \<times> u8 list" where
  "update_of p = (case p of
     OrdersPDU bs \<Rightarrow> (0, bs)
   | BitmapsPDU n bs \<Rightarrow> (1, bytes_uint16_le 1 @ bytes_uint16_le (of_nat n) @ bs))"

text \<open>The cases of \<open>connected_fast_path\<close> as far as the decoder of orders is concerned.\<close>

fun process_updates :: "handler \<Rightarrow> handler \<Rightarrow> u16 \<Rightarrow> u16 \<Rightarrow> (u8 \<times> u8 list) list \<Rightarrow> receiver \<Rightarrow> receiver res" where
  "process_updates secondary altsec w h [] st = Inr st"
| "process_updates secondary altsec w h ((code, data) # us) st =
     bindR (if code = 0 then receive_pdu secondary altsec True w h (OrdersPDU data) st else Inr st)
       (process_updates secondary altsec w h us)"

lemma process_updates_of:
  "process_updates secondary altsec w h (map update_of ps) st = receive_pdus secondary altsec True w h ps st"
proof (induction ps arbitrary: st)
  case Nil
  then show ?case by simp
next
  case (Cons p ps)
  then show ?case by (cases p) (auto simp: update_of_def receive_pdu_def bindR_def split: sum.split)
qed

lemma batch_pdus_orders: "p \<in> set (fst (batch_pdus fp k bss)) \<Longrightarrow> \<exists>bs. p = OrdersPDU bs"
proof (induction bss arbitrary: k)
  case Nil
  then show ?case by simp
next
  case (Cons b bss)
  obtain bytes k1 where e: "emits k b = (bytes, k1)" by (cases "emits k b")
  show ?case using Cons(1) [of k1] Cons(2) e by (auto simp: Let_def split: prod.splits)
qed

lemma rdp5_fragments_fit: "bulk_fits Mppc50 (min (fragment_max True Mppc50) n)"
  by (simp add: bulk_fits_def output_size_def hist_len_def fragment_max_def max_data_block_size_def min_def)

text \<open>
  C3. What is drawn at one end of the fast path is drawn at the other: serialized, cut into updates, into fragments, compressed by the
  RDP 5.0 compressor, wrapped, unwrapped, decompressed, put together and decoded.
\<close>

theorem drawings_through_compression:
  assumes ok: "\<forall>dc\<in>set dcs. cmd_ok valid (fst dc)" "930 \<le> m" and junk: "\<forall>i. length (js i) = output_room Mppc50"
  shows "\<exists>st packets e us st2 r. draws dcs (mk_serializer m limit True req) = Inr st
    \<and> send_all (send_fast_path_data (mppc_packer Mppc50 max_size) True Mppc50) (map update_of (s_sent (sync st))) (mk_mppc_enc Mppc50, js) = Inr (packets, e)
    \<and> fp_recv mppc_unpacker packets \<lparr>fi_frags = [], fi_cap = 65536, fi_dec = None\<rparr> = Some (Inr (us, st2))
    \<and> process_updates secondary altsec w h us (mk_receiver valid) = Inr r
    \<and> list_all2 (shows_as w h) dcs (drawn r)"
proof -
  have "930 \<le> s_max_data_block_size (mk_serializer m limit True req)" "s_capacity (mk_serializer m limit True req) = 65536 - 1024"
    using ok(2) by (simp_all add: mk_serializer_def)
  from draws_succeed [OF link_inv_init ok(1) this(2,1)] obtain st where d: "draws dcs (mk_serializer m limit True req) = Inr st" by blast
  obtain r where r: "receive_pdus secondary altsec True w h (s_sent (sync st)) (mk_receiver valid) = Inr r" "list_all2 (shows_as w h) dcs (drawn r)"
    using link_correct [OF d ok(1)] by blast
  let ?us = "map update_of (s_sent (sync st))"
  have "\<exists>bs. p = OrdersPDU bs \<and> length bs \<le> 65536" if p: "p \<in> set (s_sent (sync st))" for p
  proof -
    obtain bs where bs: "p = OrdersPDU bs" using sent_batches [OF d] batch_pdus_orders p by metis
    then have "length bs \<le> min (65536 - 1024) (if limit then min m MAX_ORDERS_SIZE else m)"
      using sent_fit [OF ok d] p by (force simp: updates_fit_def)
    then show ?thesis using bs by simp
  qed
  then have us: "\<forall>(code, data) \<in> set ?us. code \<in> set update_types \<and> length data \<le> 65536 \<and> bulk_fits Mppc50 (min (fragment_max True Mppc50) (length data))"
    using rdp5_fragments_fit by (fastforce simp: update_of_def update_types_def)
  from fast_path_delivers [OF us junk, of max_size] obtain packets e st2 where
    "send_all (send_fast_path_data (mppc_packer Mppc50 max_size) True Mppc50) ?us (mk_mppc_enc Mppc50, js) = Inr (packets, e)"
    "fp_recv mppc_unpacker packets \<lparr>fi_frags = [], fi_cap = 65536, fi_dec = None\<rparr> = Some (Inr (?us, st2))" by blast
  then show ?thesis using d r process_updates_of [of secondary altsec w h "s_sent (sync st)"] by auto
qed

lemma drawings_through_compression_witness:
  "\<exists>st packets e us st2 r. draws [(CScrBlt \<lparr>sb_rect = mk_rect 1 1 9 9, sb_rop = 0xCC, sb_srcx = 3, sb_srcy = 4\<rparr>, mk_rect 0 0 640 480)]
      (mk_serializer 16384 False True 0) = Inr st
    \<and> send_all (send_fast_path_data (mppc_packer Mppc50 0) True Mppc50) (map update_of (s_sent (sync st)))
        (mk_mppc_enc Mppc50, \<lambda>_. replicate (output_room Mppc50) 0) = Inr (packets, e)
    \<and> fp_recv mppc_unpacker packets \<lparr>fi_frags = [], fi_cap = 65536, fi_dec = None\<rparr> = Some (Inr (us, st2))
    \<and> process_updates (\<lambda>c st s. Inl UB) (\<lambda>c st s. Inl UB) 640 480 us (mk_receiver (\<lambda>_ _. False)) = Inr r
    \<and> list_all2 (shows_as 640 480) [(CScrBlt \<lparr>sb_rect = mk_rect 1 1 9 9, sb_rop = 0xCC, sb_srcx = 3, sb_srcy = 4\<rparr>, mk_rect 0 0 640 480)] (drawn r)"
  by (rule drawings_through_compression) (simp_all add: cmd_ok_def)

end
