(* ===== verification/Tpdu.thy ===== *)
theory Tpdu
  imports Prelude
begin

text \<open>
  The cutting of the network stream into packets: \<open>Buf64k\<close> (\<open>core/buf64k.hpp\<close>) and \<open>TpduBuffer\<close> with
  its two extractors (\<open>core/RDP/tpdu_buffer.hpp\<close>). The locale \<open>extractor\<close> states what an extractor owes
  the buffer; under it, however the network cuts the bytes, the packets are those of the whole
  stream.
\<close>

subsection \<open>Buf64k\<close>

text \<open>\<open>bf_data\<close> is \<open>buf[0 .. len)\<close>; \<open>bf_idx\<close> is \<open>idx\<close>.\<close>

record buf64k =
  bf_data :: "u8 list"
  bf_idx :: nat

abbreviation max_len :: nat where "max_len \<equiv> 65535"

definition mk_buf64k :: buf64k where
  "mk_buf64k = \<lparr>bf_data = [], bf_idx = 0\<rparr>"

definition remaining :: "buf64k \<Rightarrow> nat" where
  "remaining b = length (bf_data b) - bf_idx b"

definition av :: "buf64k \<Rightarrow> u8 list" where
  "av b = drop (bf_idx b) (bf_data b)"

definition advance :: "nat \<Rightarrow> buf64k \<Rightarrow> buf64k res" where
  "advance n b = assertR (n \<le> remaining b) (Inr (b\<lparr>bf_idx := bf_idx b + n\<rparr>))"

text \<open>The room that \<open>read_with\<close> offers to the transport, and the buffer after it delivered \<open>bs\<close>.\<close>

definition room :: "buf64k \<Rightarrow> nat" where
  "room b = (if bf_idx b = length (bf_data b) then max_len else max_len - remaining b)"

definition read_with :: "u8 list \<Rightarrow> buf64k \<Rightarrow> buf64k res" where
  "read_with bs b = assertR (length bs \<le> room b)
     (Inr (if bf_idx b = length (bf_data b) then \<lparr>bf_data = bs, bf_idx = 0\<rparr>
           else \<lparr>bf_data = av b @ bs, bf_idx = 0\<rparr>))"

definition buf_wf :: "buf64k \<Rightarrow> bool" where
  "buf_wf b \<longleftrightarrow> bf_idx b \<le> length (bf_data b) \<and> length (bf_data b) \<le> max_len"

lemma remaining_av: "remaining b = length (av b)"
  by (simp add: remaining_def av_def)

lemma advance_ok:
  assumes "buf_wf b" "n \<le> length (av b)"
  shows "\<exists>b'. advance n b = Inr b' \<and> av b' = drop n (av b) \<and> buf_wf b'"
  using assms by (auto simp: advance_def remaining_def av_def buf_wf_def add.commute)

lemma read_with_ok:
  assumes "buf_wf b" "length bs \<le> room b"
  shows "\<exists>b'. read_with bs b = Inr b' \<and> av b' = av b @ bs \<and> buf_wf b'"
  using assms by (auto simp: read_with_def room_def remaining_def av_def buf_wf_def)

lemma room_av: "buf_wf b \<Longrightarrow> room b = max_len - length (av b)"
  by (auto simp: room_def remaining_def av_def)

subsection \<open>The extractors\<close>

abbreviation (input) CR_TPDU :: u8 where "CR_TPDU \<equiv> 0xE0"
abbreviation (input) CC_TPDU :: u8 where "CC_TPDU \<equiv> 0xD0"
abbreviation (input) DR_TPDU :: u8 where "DR_TPDU \<equiv> 0x80"
abbreviation (input) DT_TPDU :: u8 where "DT_TPDU \<equiv> 0xF0"
abbreviation (input) ER_TPDU :: u8 where "ER_TPDU \<equiv> 0x70"
abbreviation (input) FASTPATH :: u8 where "FASTPATH \<equiv> 1"

record x224_extractor =
  has_fast_path :: bool
  x_type :: u8

definition x224_read_header :: "u8 list \<Rightarrow> x224_extractor \<Rightarrow> (u16 option \<times> x224_extractor) res" where
  "x224_read_header bs x =
     (if length bs < 4 then Inr (None, x)
      else if bs ! 0 AND 0x03 = 0 then
        (let len0 = ucast (bs ! 1) :: u16;
             long = has len0 0x80;
             min_len = (if long then 3 else 2);
             len = (if long then push_bit 8 (len0 AND 0x7F) OR ucast (bs ! 2) else len0)
         in if len < min_len then Inl ERR_X224
            else Inr (Some len, x\<lparr>has_fast_path := True, x_type := FASTPATH\<rparr>))
      else if bs ! 0 AND 0x03 = 3 then
        (if length bs < 6 then Inr (None, x)
         else let len = push_bit 8 (ucast (bs ! 2)) OR ucast (bs ! 3) :: u16
              in if len < 6 then Inl ERR_X224 else Inr (Some len, x\<lparr>has_fast_path := False\<rparr>))
      else Inl ERR_X224)"

definition x224_prepare_data :: "u8 list \<Rightarrow> x224_extractor \<Rightarrow> x224_extractor res" where
  "x224_prepare_data bs x =
     (if has_fast_path x then Inr (x\<lparr>x_type := FASTPATH\<rparr>)
      else let tpdu_type = bs ! 5 AND 0xF0
           in if tpdu_type = CR_TPDU \<or> tpdu_type = CC_TPDU \<or> tpdu_type = DR_TPDU
                 \<or> tpdu_type = DT_TPDU \<or> tpdu_type = ER_TPDU
              then Inr (x\<lparr>x_type := tpdu_type\<rparr>) else Inl ERR_X224)"

definition get_type :: "x224_extractor \<Rightarrow> u8" where
  "get_type x = (if has_fast_path x then FASTPATH else x_type x)"

text \<open>The sums of \<open>CreedsppExtractor\<close> are \<open>int\<close>s narrowed to the \<open>uint16_t\<close> of \<open>HeaderResult\<close>.\<close>

definition credssp_read_header :: "u8 list \<Rightarrow> x224_extractor \<Rightarrow> (u16 option \<times> x224_extractor) res" where
  "credssp_read_header bs x =
     (if length bs < 4 then Inr (None, x)
      else if bs ! 1 \<le> 0x7F then Inr (Some (ucast (bs ! 1) + 2), x)
      else if bs ! 1 = 0x81 then Inr (Some (ucast (bs ! 2) + 3), x)
      else if bs ! 1 = 0x82 then Inr (Some ((push_bit 8 (ucast (bs ! 2)) OR ucast (bs ! 3)) + 4), x)
      else Inl ERR_NEGO_INCONSISTENT_FLAGS)"

definition credssp_prepare_data :: "u8 list \<Rightarrow> x224_extractor \<Rightarrow> x224_extractor res" where
  "credssp_prepare_data bs x = Inr x"

subsection \<open>TpduBuffer\<close>

datatype state_read = RHeader | RData

record tpdu =
  t_state :: state_read
  t_x224 :: x224_extractor
  t_pdu_len :: u16
  t_buf :: buf64k

definition mk_tpdu :: "x224_extractor \<Rightarrow> tpdu" where
  "mk_tpdu x = \<lparr>t_state = RHeader, t_x224 = x, t_pdu_len = 0, t_buf = mk_buf64k\<rparr>"

definition load_data :: "u8 list \<Rightarrow> tpdu \<Rightarrow> tpdu res" where
  "load_data bs t = bindR (read_with bs (t_buf t)) (\<lambda>b. Inr (t\<lparr>t_buf := b\<rparr>))"

definition current_pdu_buffer :: "tpdu \<Rightarrow> u8 list res" where
  "current_pdu_buffer t = assertR (t_pdu_len t \<noteq> 0 \<and> unat (t_pdu_len t) \<le> remaining (t_buf t))
     (Inr (take (unat (t_pdu_len t)) (av (t_buf t))))"

definition consume_current_packet :: "tpdu \<Rightarrow> tpdu res" where
  "consume_current_packet t =
     bindR (advance (unat (t_pdu_len t)) (t_buf t)) (\<lambda>b. Inr (t\<lparr>t_buf := b, t_pdu_len := 0\<rparr>))"

definition rewind_current_packet :: "tpdu \<Rightarrow> tpdu" where
  "rewind_current_packet t = t\<lparr>t_pdu_len := 0\<rparr>"

definition extract_packet ::
  "(u8 list \<Rightarrow> x224_extractor \<Rightarrow> (u16 option \<times> x224_extractor) res)
   \<Rightarrow> (u8 list \<Rightarrow> x224_extractor \<Rightarrow> x224_extractor res) \<Rightarrow> tpdu \<Rightarrow> (bool \<times> tpdu) res" where
  "extract_packet read_header prepare_data t =
     (case t_state t of
        RHeader \<Rightarrow>
          bindR (consume_current_packet t) (\<lambda>t.
          bindR (read_header (av (t_buf t)) (t_x224 t)) (\<lambda>(r, x).
          let t = t\<lparr>t_x224 := x\<rparr> in
          case r of
            None \<Rightarrow> Inr (False, t)
          | Some n \<Rightarrow>
              let t = t\<lparr>t_pdu_len := n\<rparr> in
              if unat n \<le> remaining (t_buf t)
              then bindR (prepare_data (av (t_buf t)) (t_x224 t)) (\<lambda>x. Inr (True, t\<lparr>t_x224 := x\<rparr>))
              else Inr (False, t\<lparr>t_state := RData\<rparr>)))
      | RData \<Rightarrow>
          if unat (t_pdu_len t) \<le> remaining (t_buf t)
          then bindR (prepare_data (av (t_buf t)) (t_x224 t)) (\<lambda>x. Inr (True, t\<lparr>t_state := RHeader, t_x224 := x\<rparr>))
          else Inr (False, t))"

datatype tpdu_type = PDU | CREDSSP

definition next_packet :: "tpdu_type \<Rightarrow> tpdu \<Rightarrow> (bool \<times> tpdu) res" where
  "next_packet p t =
     (case p of PDU \<Rightarrow> extract_packet x224_read_header x224_prepare_data t
      | CREDSSP \<Rightarrow> extract_packet credssp_read_header credssp_prepare_data t)"

text \<open>
  The loop every reader runs after a read: \<open>while (buf.next(type)) { ... buf.current_pdu_buffer() ... }\<close>,
  with the packets it hands over and their types. Without fuel left the value is \<open>None\<close>.
\<close>

fun drain ::
  "(tpdu \<Rightarrow> (bool \<times> tpdu) res) \<Rightarrow> (x224_extractor \<Rightarrow> u8) \<Rightarrow> nat \<Rightarrow> tpdu \<Rightarrow> ((u8 \<times> u8 list) list \<times> tpdu res) option" where
  "drain nxt ty 0 t = None"
| "drain nxt ty (Suc fuel) t =
     (case nxt t of
        Inl e \<Rightarrow> Some ([], Inl e)
      | Inr (False, t) \<Rightarrow> Some ([], Inr t)
      | Inr (True, t) \<Rightarrow>
          (case current_pdu_buffer t of
             Inl e \<Rightarrow> Some ([], Inl e)
           | Inr pdu \<Rightarrow> map_option (\<lambda>(ps, r). ((ty (t_x224 t), pdu) # ps, r)) (drain nxt ty fuel t)))"

text \<open>
  A session: the transport delivers \<open>k\<close> bytes (at most the room of the buffer and what has arrived), the
  reader drains the buffer, and so on for every \<open>k\<close> of the schedule. The result is the packets, the
  state or error, and the bytes not yet read.
\<close>

fun pump ::
  "(tpdu \<Rightarrow> (bool \<times> tpdu) res) \<Rightarrow> (x224_extractor \<Rightarrow> u8) \<Rightarrow> nat list \<Rightarrow> u8 list \<Rightarrow> tpdu
     \<Rightarrow> (u8 \<times> u8 list) list \<times> tpdu res \<times> u8 list" where
  "pump nxt ty [] net t = ([], Inr t, net)"
| "pump nxt ty (k # ks) net t =
     (let n = min k (room (t_buf t)) in
      case load_data (take n net) t of
        Inl e \<Rightarrow> ([], Inl e, drop n net)
      | Inr t \<Rightarrow>
          (case drain nxt ty (length (av (t_buf t)) + 1) t of
             None \<Rightarrow> ([], Inl UB, drop n net)
           | Some (ps, Inl e) \<Rightarrow> (ps, Inl e, drop n net)
           | Some (ps, Inr t) \<Rightarrow>
               (let (ps', r) = pump nxt ty ks (drop n net) t in (ps @ ps', r))))"

subsection \<open>What an extractor owes the buffer\<close>

text \<open>
  The packets of a whole stream: \<open>len\<close> reads the length of the first packet off the bytes, or asks
  for more (\<open>None\<close>); \<open>kind\<close> its type. The last component is the incomplete packet at the end.
\<close>

function frames ::
  "(u8 list \<Rightarrow> u16 option res) \<Rightarrow> (u8 list \<Rightarrow> u8 res) \<Rightarrow> u8 list \<Rightarrow> (u8 \<times> u8 list) list \<times> u8 list res" where
  "frames len kind bs =
     (case len bs of
        Inl e \<Rightarrow> ([], Inl e)
      | Inr None \<Rightarrow> ([], Inr bs)
      | Inr (Some n) \<Rightarrow>
          if n = 0 \<or> unat n > length bs then ([], Inr bs)
          else (case kind bs of
                  Inl e \<Rightarrow> ([], Inl e)
                | Inr k \<Rightarrow> (let (ps, r) = frames len kind (drop (unat n) bs) in ((k, take (unat n) bs) # ps, r))))"
  by pat_completeness auto
termination
  by (relation "measure (\<lambda>(len, kind, bs). length bs)") (auto simp: unat_gt_0 word_neq_0_conv [symmetric] word_greater_zero_iff intro!: diff_less)

declare frames.simps [simp del]

text \<open>\<open>prepare_data\<close> on the complete packet \<open>bs\<close> sets its type, or fails, as \<open>kind\<close> says.\<close>

definition prepares ::
  "(u8 list \<Rightarrow> x224_extractor \<Rightarrow> x224_extractor res) \<Rightarrow> (x224_extractor \<Rightarrow> u8) \<Rightarrow> (u8 list \<Rightarrow> u8 res)
     \<Rightarrow> u8 list \<Rightarrow> x224_extractor \<Rightarrow> bool" where
  "prepares prepare ty kind bs x \<longleftrightarrow>
     (case kind bs of
        Inl e \<Rightarrow> prepare bs x = Inl e
      | Inr k \<Rightarrow> (\<exists>x2. prepare bs x = Inr x2 \<and> ty x2 = k))"

lemma preparesE:
  assumes "prepares prepare ty kind bs x"
  obtains e where "kind bs = Inl e" "prepare bs x = Inl e"
  | k x2 where "kind bs = Inr k" "prepare bs x = Inr x2" "ty x2 = k"
  using assms by (auto simp: prepares_def split: sum.splits)

locale extractor =
  fixes read_header :: "u8 list \<Rightarrow> x224_extractor \<Rightarrow> (u16 option \<times> x224_extractor) res"
    and prepare :: "u8 list \<Rightarrow> x224_extractor \<Rightarrow> x224_extractor res"
    and ty :: "x224_extractor \<Rightarrow> u8"
    and len :: "u8 list \<Rightarrow> u16 option res"
    and kind :: "u8 list \<Rightarrow> u8 res"
  assumes header_error: "len bs = Inl e \<Longrightarrow> read_header bs x = Inl e"
    and header_none: "len bs = Inr None \<Longrightarrow> read_header bs x = Inr (None, x)"
    and header_some: "len bs = Inr (Some n) \<Longrightarrow>
      \<exists>x1. read_header bs x = Inr (Some n, x1)
         \<and> (\<forall>cs. unat n \<le> length (bs @ cs) \<longrightarrow> prepares prepare ty kind (bs @ cs) x1)"
    and len_error: "len bs = Inl e \<Longrightarrow> len (bs @ cs) = Inl e"
    and len_some: "len bs = Inr (Some n) \<Longrightarrow> len (bs @ cs) = Inr (Some n)"
    and kind_prefix: "len bs = Inr (Some n) \<Longrightarrow> unat n \<le> length bs \<Longrightarrow> kind (bs @ cs) = kind bs"
begin

text \<open>The header that was read from \<open>bs\<close> into \<open>x\<close> stays good when more bytes arrive.\<close>

definition header_read :: "u8 list \<Rightarrow> u16 \<Rightarrow> x224_extractor \<Rightarrow> bool" where
  "header_read bs n x \<longleftrightarrow> len bs = Inr (Some n)
     \<and> (\<forall>cs. unat n \<le> length (bs @ cs) \<longrightarrow> prepares prepare ty kind (bs @ cs) x)"

lemma header_read_more: "header_read bs n x \<Longrightarrow> header_read (bs @ cs) n x"
  by (simp add: header_read_def len_some)

text \<open>The bytes the reader has not been given yet, and the invariant of the buffer.\<close>

definition pending :: "tpdu \<Rightarrow> u8 list" where
  "pending t = (case t_state t of RHeader \<Rightarrow> drop (unat (t_pdu_len t)) (av (t_buf t)) | RData \<Rightarrow> av (t_buf t))"

definition wf :: "tpdu \<Rightarrow> bool" where
  "wf t \<longleftrightarrow> buf_wf (t_buf t)
     \<and> (case t_state t of
          RHeader \<Rightarrow> unat (t_pdu_len t) \<le> length (av (t_buf t))
        | RData \<Rightarrow> header_read (av (t_buf t)) (t_pdu_len t) (t_x224 t))"

lemma load_data_ok:
  assumes "wf t" "length bs \<le> room (t_buf t)"
  shows "\<exists>t'. load_data bs t = Inr t' \<and> wf t' \<and> pending t' = pending t @ bs"
proof -
  obtain b where "read_with bs (t_buf t) = Inr b" "av b = av (t_buf t) @ bs" "buf_wf b"
    using read_with_ok [OF _ assms(2)] assms(1) by (auto simp: wf_def)
  then show ?thesis using assms(1)
    by (auto simp: load_data_def wf_def pending_def header_read_more split: state_read.splits)
qed

text \<open>One call of \<open>next\<close>.\<close>

lemma next_waiting:
  assumes "wf t" "len (pending t) = Inr None"
  shows "\<exists>t'. extract_packet read_header prepare t = Inr (False, t') \<and> wf t' \<and> pending t' = pending t
    \<and> av (t_buf t') = pending t"
proof (cases "t_state t")
  case RHeader
  obtain b where b: "advance (unat (t_pdu_len t)) (t_buf t) = Inr b" "av b = pending t" "buf_wf b"
    using advance_ok assms(1) RHeader by (fastforce simp: wf_def pending_def)
  with RHeader assms(2) show ?thesis
    by (simp add: extract_packet_def consume_current_packet_def header_none wf_def) (simp add: pending_def)
next
  case RData
  then show ?thesis using assms by (simp add: wf_def pending_def header_read_def)
qed

lemma next_error:
  assumes "wf t" "len (pending t) = Inl e"
  shows "extract_packet read_header prepare t = Inl e"
proof (cases "t_state t")
  case RHeader
  obtain b where b: "advance (unat (t_pdu_len t)) (t_buf t) = Inr b" "av b = pending t"
    using advance_ok assms(1) RHeader by (fastforce simp: wf_def pending_def)
  with RHeader assms(2) show ?thesis by (simp add: extract_packet_def consume_current_packet_def header_error)
next
  case RData
  then show ?thesis using assms by (simp add: wf_def pending_def header_read_def)
qed

lemma next_packet_found:
  assumes w: "wf t" and l: "len (pending t) = Inr (Some n)"
  shows "(unat n > length (pending t) \<longrightarrow>
            (\<exists>t'. extract_packet read_header prepare t = Inr (False, t') \<and> wf t' \<and> pending t' = pending t
              \<and> av (t_buf t') = pending t))
    \<and> (unat n \<le> length (pending t) \<longrightarrow>
         (case kind (pending t) of
            Inl e \<Rightarrow> extract_packet read_header prepare t = Inl e
          | Inr k \<Rightarrow> (\<exists>t'. extract_packet read_header prepare t = Inr (True, t') \<and> wf t' \<and> t_state t' = RHeader
              \<and> pending t' = drop (unat n) (pending t) \<and> t_pdu_len t' = n
              \<and> av (t_buf t') = pending t \<and> ty (t_x224 t') = k)))"
proof (cases "t_state t")
  case RHeader
  obtain b where b: "advance (unat (t_pdu_len t)) (t_buf t) = Inr b" "av b = pending t" "buf_wf b"
    using advance_ok w RHeader by (fastforce simp: wf_def pending_def)
  obtain x1 where x1: "read_header (pending t) (t_x224 t) = Inr (Some n, x1)" "header_read (pending t) n x1"
    using header_some [OF l, of "t_x224 t"] l by (auto simp: header_read_def)
  from x1(2) have pr: "unat n \<le> length (pending t) \<Longrightarrow> prepares prepare ty kind (pending t) x1"
    unfolding header_read_def by (metis append_Nil2)
  define t1 where "t1 = t\<lparr>t_buf := b, t_x224 := x1, t_pdu_len := n\<rparr>"
  have e: "extract_packet read_header prepare t =
      (if unat n \<le> length (pending t) then bindR (prepare (pending t) x1) (\<lambda>x. Inr (True, t1\<lparr>t_x224 := x\<rparr>))
       else Inr (False, t1\<lparr>t_state := RData\<rparr>))"
    using RHeader b x1(1) by (simp add: extract_packet_def consume_current_packet_def remaining_av t1_def)
  show ?thesis
  proof (cases "unat n \<le> length (pending t)")
    case True
    show ?thesis
      by (rule preparesE [OF pr [OF True]]; use True e b RHeader in \<open>simp add: wf_def pending_def t1_def\<close>)
  next
    case False
    then show ?thesis using e b x1(2) by (simp add: wf_def t1_def) (simp add: pending_def)
  qed
next
  case RData
  have p: "pending t = av (t_buf t)" using RData by (simp add: pending_def)
  have h: "header_read (pending t) (t_pdu_len t) (t_x224 t)" "buf_wf (t_buf t)" using w RData by (simp_all add: wf_def p)
  then have n: "t_pdu_len t = n" using l by (simp add: header_read_def)
  from h(1) have pr: "unat n \<le> length (pending t) \<Longrightarrow> prepares prepare ty kind (pending t) (t_x224 t)"
    unfolding header_read_def n by (metis append_Nil2)
  have e: "extract_packet read_header prepare t =
      (if unat n \<le> length (pending t) then bindR (prepare (pending t) (t_x224 t)) (\<lambda>x. Inr (True, t\<lparr>t_state := RHeader, t_x224 := x\<rparr>))
       else Inr (False, t))"
    using RData by (simp add: extract_packet_def remaining_av p n)
  show ?thesis
  proof (cases "unat n \<le> length (pending t)")
    case True
    show ?thesis
      by (rule preparesE [OF pr [OF True]]; use True e h n RData p in \<open>simp add: wf_def pending_def\<close>)
  next
    case False
    then show ?thesis using e w RData n p by simp
  qed
qed

end

subsection \<open>However the bytes arrive\<close>

locale framing = extractor +
  assumes len_pos: "len bs = Inr (Some n) \<Longrightarrow> n \<noteq> 0"
    and len_none: "len bs = Inr None \<Longrightarrow> length bs < 6"
begin

lemma frames_more:
  "frames len kind (bs @ cs) =
     (case frames len kind bs of
        (ps, Inl e) \<Rightarrow> (ps, Inl e)
      | (ps, Inr rest) \<Rightarrow> (let (ps', r) = frames len kind (rest @ cs) in (ps @ ps', r)))"
proof (induction bs rule: length_induct)
  case (1 bs)
  show ?case
  proof (cases "len bs")
    case (Inl e)
    then show ?thesis by (simp add: frames.simps [of len kind bs] frames.simps [of len kind "bs @ cs"] len_error)
  next
    case (Inr o1)
    show ?thesis
    proof (cases o1)
      case None
      then show ?thesis using Inr by (simp add: frames.simps [of len kind bs])
    next
      case (Some n)
      with Inr have l: "len bs = Inr (Some n)" by simp
      show ?thesis
      proof (cases "unat n \<le> length bs")
        case False
        then show ?thesis using l by (simp add: frames.simps [of len kind bs])
      next
        case True
        have n: "n \<noteq> 0" "0 < unat n" using len_pos [OF l] by (simp_all add: unat_gt_0)
        have "length (drop (unat n) bs) < length bs" using n(2) True by simp
        with "1.IH" have IH: "frames len kind (drop (unat n) bs @ cs) =
           (case frames len kind (drop (unat n) bs) of
              (ps, Inl e) \<Rightarrow> (ps, Inl e)
            | (ps, Inr rest) \<Rightarrow> (let (ps', r) = frames len kind (rest @ cs) in (ps @ ps', r)))" by blast
        show ?thesis
          using l len_some [OF l, of cs] kind_prefix [OF l True, of cs] n(1) True IH
          by (simp add: frames.simps [of len kind bs] frames.simps [of len kind "bs @ cs"] split: sum.splits prod.splits)
      qed
    qed
  qed
qed

lemma frames_rest:
  "frames len kind bs = (ps, Inr rest) \<Longrightarrow> frames len kind rest = ([], Inr rest)
     \<and> (len rest = Inr None \<or> (\<exists>n. len rest = Inr (Some n) \<and> length rest < unat n))
     \<and> bs = concat (map snd ps) @ rest"
proof (induction bs arbitrary: ps rule: length_induct)
  case (1 bs)
  show ?case
  proof (cases "\<exists>n. len bs = Inr (Some n) \<and> unat n \<le> length bs")
    case False
    then have "bs = rest" "ps = []" "len bs = Inr None \<or> (\<exists>n. len bs = Inr (Some n) \<and> length bs < unat n)"
      using "1.prems" by (auto simp: frames.simps [of len kind bs] not_le split: sum.splits option.splits if_splits)
    with "1.prems" show ?thesis by simp
  next
    case True
    then obtain n where l: "len bs = Inr (Some n)" "unat n \<le> length bs" by blast
    have n: "n \<noteq> 0" "0 < unat n" using len_pos [OF l(1)] by (simp_all add: unat_gt_0)
    obtain ps' k where f: "frames len kind (drop (unat n) bs) = (ps', Inr rest)" "ps = (k, take (unat n) bs) # ps'"
      using "1.prems" l n(1) by (auto simp: frames.simps [of len kind bs] split: sum.splits prod.splits)
    have "length (drop (unat n) bs) < length bs" using n(2) l(2) by simp
    with "1.IH" f(1) have IH: "frames len kind rest = ([], Inr rest)"
      "len rest = Inr None \<or> (\<exists>n. len rest = Inr (Some n) \<and> length rest < unat n)"
      "drop (unat n) bs = concat (map snd ps') @ rest" by blast+
    have "bs = take (unat n) bs @ drop (unat n) bs" by simp
    then have "bs = concat (map snd ps) @ rest" unfolding IH(3) f(2) by simp
    with IH show ?thesis by blast
  qed
qed

text \<open>What the reader's loop leaves: everything but the incomplete packet has been handed over.\<close>

definition drained :: "tpdu \<Rightarrow> u8 list \<Rightarrow> bool" where
  "drained t rest \<longleftrightarrow> wf t \<and> pending t = rest \<and> av (t_buf t) = rest"

definition ends_as :: "tpdu res \<Rightarrow> u8 list res \<Rightarrow> bool" where
  "ends_as r q \<longleftrightarrow> (case q of Inl e \<Rightarrow> r = Inl e | Inr rest \<Rightarrow> (\<exists>t. r = Inr t \<and> drained t rest))"

lemma drain_frames:
  assumes "wf t" "length (pending t) < fuel"
  shows "\<exists>r. drain (extract_packet read_header prepare) ty fuel t = Some (fst (frames len kind (pending t)), r)
    \<and> ends_as r (snd (frames len kind (pending t)))"
  using assms
proof (induction fuel arbitrary: t)
  case 0
  then show ?case by simp
next
  case (Suc fuel)
  note fr = frames.simps [of len kind "pending t"]
  show ?case
  proof (cases "len (pending t)")
    case (Inl e)
    then show ?thesis using next_error [OF Suc.prems(1)] by (simp add: fr ends_as_def)
  next
    case (Inr o1)
    show ?thesis
    proof (cases o1)
      case None
      then show ?thesis using next_waiting [OF Suc.prems(1)] Inr by (auto simp: fr ends_as_def drained_def)
    next
      case (Some n)
      with Inr have l: "len (pending t) = Inr (Some n)" by simp
      have n: "n \<noteq> 0" "0 < unat n" using len_pos [OF l] by (simp_all add: unat_gt_0)
      note nx = next_packet_found [OF Suc.prems(1) l]
      show ?thesis
      proof (cases "unat n \<le> length (pending t)")
        case False
        then show ?thesis using nx l by (auto simp: fr ends_as_def drained_def)
      next
        case True
        show ?thesis
        proof (cases "kind (pending t)")
          case (Inl e)
          then show ?thesis using nx True l n(1) by (auto simp: fr ends_as_def)
        next
          case (Inr k)
          then obtain t' where t': "extract_packet read_header prepare t = Inr (True, t')" "wf t'"
            "pending t' = drop (unat n) (pending t)" "t_pdu_len t' = n" "av (t_buf t') = pending t" "ty (t_x224 t') = k"
            using nx True by auto
          have "length (pending t') < fuel" using Suc.prems(2) True n(2) by (simp add: t'(3))
          from Suc.IH [OF t'(2) this] obtain r where r: "drain (extract_packet read_header prepare) ty fuel t'
              = Some (fst (frames len kind (pending t')), r)" "ends_as r (snd (frames len kind (pending t')))" by blast
          have "current_pdu_buffer t' = Inr (take (unat n) (pending t))"
            using True n(1) by (simp add: current_pdu_buffer_def remaining_av t'(4,5))
          then show ?thesis using t' r Inr l True n(1)
            by (cases "frames len kind (drop (unat n) (pending t))") (simp add: fr)
        qed
      qed
    qed
  qed
qed

lemma drained_room:
  assumes "drained t rest" "frames len kind bs = (ps, Inr rest)"
  shows "0 < room (t_buf t)"
proof -
  have "unat (n :: u16) \<le> 65535" for n
    using unsigned_less [of n, where 'a = nat] by simp
  then have "length rest < 65535"
    using frames_rest [OF assms(2)] len_none [of rest] by (fastforce dest: order.strict_trans2)
  then show ?thesis using assms(1) room_av by (auto simp: drained_def wf_def)
qed

lemma pump_frames:
  assumes "drained t rest" "frames len kind rest = ([], Inr rest)"
    and "pump (extract_packet read_header prepare) ty ks net t = (ps, r, net')"
  shows "\<exists>m. net' = drop m net \<and> ps = fst (frames len kind (rest @ take m net))
    \<and> ends_as r (snd (frames len kind (rest @ take m net)))
    \<and> ((\<forall>k\<in>set ks. 0 < k) \<longrightarrow> length net \<le> length ks \<longrightarrow> net' = [] \<or> (\<exists>e. r = Inl e))"
  using assms
proof (induction ks arbitrary: net t rest ps)
  case Nil
  then show ?case by (intro exI [of _ 0]) (auto simp: ends_as_def)
next
  case (Cons k ks)
  define n where "n = min k (room (t_buf t))"
  have wf: "wf t" "pending t = rest" using Cons.prems(1) by (simp_all add: drained_def)
  have "length (take n net) \<le> room (t_buf t)" by (simp add: n_def)
  from load_data_ok [OF wf(1) this] wf(2)
  obtain t1 where t1: "load_data (take n net) t = Inr t1" "wf t1" "pending t1 = rest @ take n net" by auto
  have "length (pending t1) < length (av (t_buf t1)) + 1"
    by (simp add: pending_def less_Suc_eq_le split: state_read.splits)
  from drain_frames [OF t1(2) this] obtain r1 where
    d: "drain (extract_packet read_header prepare) ty (length (av (t_buf t1)) + 1) t1 = Some (fst (frames len kind (rest @ take n net)), r1)"
    and r1: "ends_as r1 (snd (frames len kind (rest @ take n net)))"
    unfolding t1(3) by blast
  obtain ps1 q where f: "frames len kind (rest @ take n net) = (ps1, q)" by (cases "frames len kind (rest @ take n net)")
  show ?case
  proof (cases q)
    case (Inl e)
    with r1 f have "r1 = Inl e" by (simp add: ends_as_def)
    then have "ps = ps1" "r = Inl e" "net' = drop n net"
      using Cons.prems(3) t1(1) d f by (auto simp: n_def [symmetric] Let_def)
    then show ?thesis using f Inl by (intro exI [of _ n]) (simp add: ends_as_def)
  next
    case (Inr rest2)
    with r1 f obtain t2 where t2: "r1 = Inr t2" "drained t2 rest2" by (auto simp: ends_as_def)
    obtain ps2 where p2: "pump (extract_packet read_header prepare) ty ks (drop n net) t2 = (ps2, r, net')" "ps = ps1 @ ps2"
      using Cons.prems(3) t1(1) d f t2(1) by (auto simp: n_def [symmetric] Let_def split: prod.splits)
    have fr2: "frames len kind rest2 = ([], Inr rest2)" using frames_rest f Inr by blast
    from Cons.IH [OF t2(2) fr2 p2(1)] obtain m where m: "net' = drop m (drop n net)"
      "ps2 = fst (frames len kind (rest2 @ take m (drop n net)))" "ends_as r (snd (frames len kind (rest2 @ take m (drop n net))))"
      "(\<forall>k\<in>set ks. 0 < k) \<longrightarrow> length (drop n net) \<le> length ks \<longrightarrow> net' = [] \<or> (\<exists>e. r = Inl e)" by blast
    have "rest @ take (n + m) net = (rest @ take n net) @ take m (drop n net)" by (simp add: take_add)
    with frames_more [of "rest @ take n net" "take m (drop n net)"] f Inr
    have fm: "frames len kind (rest @ take (n + m) net)
      = (ps1 @ fst (frames len kind (rest2 @ take m (drop n net))), snd (frames len kind (rest2 @ take m (drop n net))))"
      by (simp add: split_beta Let_def)
    have "0 < room (t_buf t)" using drained_room Cons.prems(1,2) by blast
    then have "0 < k \<Longrightarrow> 0 < n" by (simp add: n_def)
    then have live: "(\<forall>k\<in>set (k # ks). 0 < k) \<longrightarrow> length net \<le> length (k # ks) \<longrightarrow> net' = [] \<or> (\<exists>e. r = Inl e)"
      using m(4) by auto
    from m(1-3) p2(2) fm live show ?thesis by (intro exI [of _ "n + m"]) (simp add: add.commute)
  qed
qed

lemma start_drained: "drained (mk_tpdu x) []"
  by (simp add: drained_def wf_def mk_tpdu_def mk_buf64k_def buf_wf_def av_def pending_def)

end

subsection \<open>The extractors are extractors\<close>

text \<open>The length and the type of the first packet of a stream, as functions of its first bytes.\<close>

definition fast_length :: "u8 \<Rightarrow> u8 \<Rightarrow> u16" where
  "fast_length b1 b2 = (if bit b1 7 then push_bit 8 (ucast b1 AND 0x7F) OR ucast b2 else ucast b1)"

definition pdu_len :: "u8 list \<Rightarrow> u16 option res" where
  "pdu_len bs =
     (if length bs < 4 then Inr None
      else if bs ! 0 AND 0x03 = 0 then
        (if fast_length (bs ! 1) (bs ! 2) < (if bit (bs ! 1) 7 then 3 else 2) then Inl ERR_X224
         else Inr (Some (fast_length (bs ! 1) (bs ! 2))))
      else if bs ! 0 AND 0x03 = 3 then
        (if length bs < 6 then Inr None
         else if push_bit 8 (ucast (bs ! 2)) OR ucast (bs ! 3) < (6 :: u16) then Inl ERR_X224
         else Inr (Some (push_bit 8 (ucast (bs ! 2)) OR ucast (bs ! 3))))
      else Inl ERR_X224)"

definition pdu_kind :: "u8 list \<Rightarrow> u8 res" where
  "pdu_kind bs =
     (if bs ! 0 AND 0x03 = 0 then Inr FASTPATH
      else if bs ! 5 AND 0xF0 \<in> {CR_TPDU, CC_TPDU, DR_TPDU, DT_TPDU, ER_TPDU} then Inr (bs ! 5 AND 0xF0)
      else Inl ERR_X224)"

definition credssp_len :: "u8 list \<Rightarrow> u16 option res" where
  "credssp_len bs =
     (if length bs < 4 then Inr None
      else if bs ! 1 \<le> 0x7F then Inr (Some (ucast (bs ! 1) + 2))
      else if bs ! 1 = 0x81 then Inr (Some (ucast (bs ! 2) + 3))
      else if bs ! 1 = 0x82 then Inr (Some ((push_bit 8 (ucast (bs ! 2)) OR ucast (bs ! 3)) + 4))
      else Inl ERR_NEGO_INCONSISTENT_FLAGS)"

lemma has_0x80: "has (ucast (b :: u8) :: u16) 0x80 \<longleftrightarrow> bit b 7"
proof -
  have "has (w :: u16) (2 ^ 7) \<longleftrightarrow> bit w 7" for w
    unfolding has_def and_exp_eq_0_iff_not_bit by simp
  then show ?thesis by (simp add: bit_simps)
qed

lemma x224_header_cases:
  "x224_read_header bs x =
     (case pdu_len bs of
        Inl e \<Rightarrow> Inl e
      | Inr None \<Rightarrow> Inr (None, x)
      | Inr (Some n) \<Rightarrow> Inr (Some n, if bs ! 0 AND 0x03 = 0 then \<lparr>has_fast_path = True, x_type = FASTPATH\<rparr>
                                    else x\<lparr>has_fast_path := False\<rparr>))"
  by (cases x) (simp add: pdu_len_def x224_read_header_def Let_def has_0x80 fast_length_def)

lemma nth_first: "k < length bs \<Longrightarrow> (bs @ cs) ! k = bs ! k"
  by (simp add: nth_append)

lemma pdu_len_more:
  assumes "pdu_len bs \<noteq> Inr None"
  shows "pdu_len (bs @ cs) = pdu_len bs"
proof -
  have l: "4 \<le> length bs" using assms by (rule contrapos_np) (simp add: pdu_len_def)
  then have i: "(bs @ cs) ! 0 = bs ! 0" "(bs @ cs) ! 1 = bs ! 1" "(bs @ cs) ! 2 = bs ! 2" "(bs @ cs) ! 3 = bs ! 3"
    "\<not> length (bs @ cs) < 4"
    by (auto intro!: nth_first)
  have "pdu_len bs = Inr None" if "bs ! 0 AND 0x03 = 3" "length bs < 6"
    using that by (simp add: pdu_len_def)
  then have "bs ! 0 AND 0x03 = 3 \<Longrightarrow> \<not> length bs < 6" using assms by blast
  then show ?thesis using l unfolding pdu_len_def i by auto
qed

lemma pdu_len_some:
  assumes "pdu_len bs = Inr (Some n)"
  shows "n \<noteq> 0" "4 \<le> length bs" "bs ! 0 AND 0x03 = 0 \<or> 6 \<le> length bs"
  using assms by (auto simp: pdu_len_def split: if_splits)

lemma pdu_kind_more:
  assumes "pdu_len bs = Inr (Some n)"
  shows "pdu_kind (bs @ cs) = pdu_kind bs"
proof -
  have "(bs @ cs) ! 0 = bs ! 0" "bs ! 0 AND 0x03 \<noteq> 0 \<Longrightarrow> (bs @ cs) ! 5 = bs ! 5"
    using pdu_len_some(2,3) [OF assms] by (auto intro!: nth_first)
  then show ?thesis by (simp add: pdu_kind_def)
qed

lemma x224_prepares:
  assumes "pdu_len bs = Inr (Some n)"
  shows "prepares x224_prepare_data get_type pdu_kind (bs @ cs)
    (if bs ! 0 AND 0x03 = 0 then \<lparr>has_fast_path = True, x_type = FASTPATH\<rparr> else x\<lparr>has_fast_path := False\<rparr>)"
proof -
  have "(bs @ cs) ! 0 = bs ! 0" using pdu_len_some(2) [OF assms] by (auto intro!: nth_first)
  then show ?thesis by (simp add: prepares_def pdu_kind_def x224_prepare_data_def get_type_def)
qed

interpretation x224: framing x224_read_header x224_prepare_data get_type pdu_len pdu_kind
proof unfold_locales
  show "length bs < 6" if "pdu_len bs = Inr None" for bs
    using that by (auto simp: pdu_len_def split: if_splits)
  show "\<exists>x1. x224_read_header bs x = Inr (Some n, x1)
         \<and> (\<forall>cs. unat n \<le> length (bs @ cs) \<longrightarrow> prepares x224_prepare_data get_type pdu_kind (bs @ cs) x1)"
    if "pdu_len bs = Inr (Some n)" for bs x n
    using x224_prepares [OF that, of _ x] that by (simp add: x224_header_cases)
qed (simp_all add: x224_header_cases pdu_len_more pdu_kind_more pdu_len_some)

lemma credssp_len_more:
  assumes "credssp_len bs \<noteq> Inr None"
  shows "credssp_len (bs @ cs) = credssp_len bs"
proof -
  have l: "4 \<le> length bs" using assms by (rule contrapos_np) (simp add: credssp_len_def)
  then have i: "(bs @ cs) ! 1 = bs ! 1" "(bs @ cs) ! 2 = bs ! 2" "(bs @ cs) ! 3 = bs ! 3" "\<not> length (bs @ cs) < 4"
    by (auto intro!: nth_first)
  show ?thesis using l unfolding credssp_len_def i by auto
qed

lemma credssp_header_cases:
  "credssp_read_header bs x = (case credssp_len bs of Inl e \<Rightarrow> Inl e | Inr n \<Rightarrow> Inr (n, x))"
  by (simp add: credssp_read_header_def credssp_len_def)

interpretation credssp: extractor credssp_read_header credssp_prepare_data "\<lambda>_. 0" credssp_len "\<lambda>_. Inr 0"
  by unfold_locales (simp_all add: credssp_header_cases credssp_len_more prepares_def credssp_prepare_data_def)

subsection \<open>Properties\<close>

text \<open>
  C5. The packets do not depend on how the network cuts the stream: whatever number of bytes every
  read delivers, the reader is given, in order and with their types, exactly the packets of the
  bytes read so far, and stops at the error those bytes contain; the bytes not handed over are the
  incomplete packet at the end.
\<close>

theorem packets_independent_of_chunks:
  "\<exists>m. case pump (next_packet PDU) get_type ks net (mk_tpdu x) of
        (ps, r, net') \<Rightarrow>
          net' = drop m net \<and> ps = fst (frames pdu_len pdu_kind (take m net))
          \<and> (case snd (frames pdu_len pdu_kind (take m net)) of
               Inl e \<Rightarrow> r = Inl e
             | Inr rest \<Rightarrow> take m net = concat (map snd ps) @ rest \<and> (\<exists>t. r = Inr t \<and> av (t_buf t) = rest))"
proof -
  have nx: "next_packet PDU = extract_packet x224_read_header x224_prepare_data"
    by (rule ext) (simp add: next_packet_def)
  have f0: "frames pdu_len pdu_kind [] = ([], Inr [])" by (simp add: frames.simps pdu_len_def)
  obtain ps r net' where p: "pump (next_packet PDU) get_type ks net (mk_tpdu x) = (ps, r, net')"
    by (cases "pump (next_packet PDU) get_type ks net (mk_tpdu x)") auto
  from x224.pump_frames [OF x224.start_drained f0 p [unfolded nx]] obtain m where
    m: "net' = drop m net" "ps = fst (frames pdu_len pdu_kind (take m net))"
    "x224.ends_as r (snd (frames pdu_len pdu_kind (take m net)))" by auto
  have "take m net = concat (map snd ps) @ rest" if "snd (frames pdu_len pdu_kind (take m net)) = Inr rest" for rest
    using x224.frames_rest [of "take m net" ps rest] m(2) that by (simp add: prod_eq_iff)
  with p m show ?thesis
    by (intro exI [of _ m]) (auto simp: x224.ends_as_def x224.drained_def split: sum.splits)
qed

text \<open>
  C7. The reader never stalls: the buffer always has room for another byte after the loop, so if every
  read delivers something, all the bytes are read or an error is raised.
\<close>

theorem reader_never_stalls:
  assumes "\<forall>k\<in>set ks. 0 < k" "length net \<le> length ks"
    and "pump (next_packet PDU) get_type ks net (mk_tpdu x) = (ps, r, net')"
  shows "net' = [] \<or> (\<exists>e. r = Inl e)"
proof -
  have nx: "next_packet PDU = extract_packet x224_read_header x224_prepare_data"
    by (rule ext) (simp add: next_packet_def)
  have f0: "frames pdu_len pdu_kind [] = ([], Inr [])" by (simp add: frames.simps pdu_len_def)
  obtain m where "(\<forall>k\<in>set ks. 0 < k) \<longrightarrow> length net \<le> length ks \<longrightarrow> net' = [] \<or> (\<exists>e. r = Inl e)"
    using x224.pump_frames [OF x224.start_drained f0 assms(3) [unfolded nx]] by auto
  with assms(1,2) show ?thesis by simp
qed

theorem reader_never_stalls_witness:
  "\<exists>ps r net'. pump (next_packet PDU) get_type [1, 2, 1, 5, 9, 1] [0x00, 0x06, 1, 2, 3, 4] (mk_tpdu \<lparr>has_fast_path = False, x_type = 0\<rparr>)
       = (ps, r, net')
     \<and> (net' = [] \<or> (\<exists>e. r = Inl e))"
proof -
  obtain ps r net' where p: "pump (next_packet PDU) get_type [1, 2, 1, 5, 9, 1] [0x00, 0x06, 1, 2, 3, 4]
      (mk_tpdu \<lparr>has_fast_path = False, x_type = 0\<rparr>) = (ps, r, net')"
    using prod_cases3 by blast
  from reader_never_stalls [OF _ _ p] p show ?thesis by auto
qed

text \<open>
  The length of a CredSSP packet is computed in 16 bits: a header announcing 65532 bytes is taken
  as a packet of 0 bytes, which \<open>next\<close> reports as complete for ever, without consuming anything.
\<close>

theorem credssp_length_wraps:
  "let t = (mk_tpdu x)\<lparr>t_buf := \<lparr>bf_data = [0x30, 0x82, 0xFF, 0xFC], bf_idx = 0\<rparr>\<rparr>
   in next_packet CREDSSP t = Inr (True, t) \<and> current_pdu_buffer t = Inl UB"
proof -
  have "credssp_len [0x30, 0x82, 0xFF, 0xFC] = Inr (Some 0)" by (simp add: credssp_len_def)
  then have "credssp_read_header [0x30, 0x82, 0xFF, 0xFC] y = Inr (Some 0, y)" for y
    by (simp add: credssp_header_cases)
  then show ?thesis
    by (simp add: next_packet_def extract_packet_def mk_tpdu_def consume_current_packet_def advance_def
        credssp_prepare_data_def current_pdu_buffer_def av_def Let_def)
qed

end
