(* ===== verification/Save_State.thy ===== *)
theory Save_State
  imports Order_Sync
begin

text \<open>
  The order history saved at the head of every part of a recording, \<open>SaveStateChunk\<close> of
  \<open>capture/save_state_chunk.hpp\<close>: one template \<open>send_recv\<close> that writes or reads every field of a
  \<open>StateChunk\<close> in the same order, with fields that appeared in later versions of the format.
\<close>

subsection \<open>Fields\<close>

definition save_rect :: "rect \<Rightarrow> u8 list" where
  "save_rect r = bytes_uint16_le (rx r) @ bytes_uint16_le (ry r) @ bytes_uint16_le (rcx r) @ bytes_uint16_le (rcy r)"

definition load_rect :: "instream \<Rightarrow> (rect \<times> instream) res" where
  "load_rect s =
     bindR (in_sint16_le s) (\<lambda>(x, s).
     bindR (in_sint16_le s) (\<lambda>(y, s).
     bindR (in_uint16_le s) (\<lambda>(cx, s).
     bindR (in_uint16_le s) (\<lambda>(cy, s).
     Inr (\<lparr>rx = x, ry = y, rcx = cx, rcy = cy\<rparr>, s)))))"

text \<open>\<open>io_uint8_unsafe\<close>: a 16-bit field through one byte.\<close>

definition save_uint8_unsafe :: "u16 \<Rightarrow> u8 list" where
  "save_uint8_unsafe v = bytes_uint8 (ucast v)"

definition load_uint8_unsafe :: "instream \<Rightarrow> (u16 \<times> instream) res" where
  "load_uint8_unsafe s = bindR (in_uint8 s) (\<lambda>(v, s). Inr (ucast v, s))"

definition save_brush :: "brush \<Rightarrow> u8 list" where
  "save_brush b = bytes_uint8 (org_x b) @ bytes_uint8 (org_y b) @ bytes_uint8 (bstyle b) @ bytes_uint8 (bhatch b) @ extra b"

definition load_brush :: "instream \<Rightarrow> (brush \<times> instream) res" where
  "load_brush s =
     bindR (in_sint8 s) (\<lambda>(x, s).
     bindR (in_sint8 s) (\<lambda>(y, s).
     bindR (in_uint8 s) (\<lambda>(st, s).
     bindR (in_uint8 s) (\<lambda>(ha, s).
     bindR (in_skip_bytes 7 s) (\<lambda>(ex, s).
     Inr (\<lparr>org_x = x, org_y = y, bstyle = st, bhatch = ha, extra = ex\<rparr>, s))))))"

definition save_der :: "der \<Rightarrow> u8 list" where
  "save_der e = bytes_uint16_le (er_left e) @ bytes_uint16_le (er_top e) @ bytes_uint16_le (er_width e) @ bytes_uint16_le (er_height e)"

definition load_der :: "instream \<Rightarrow> (der \<times> instream) res" where
  "load_der s =
     bindR (in_sint16_le s) (\<lambda>(l, s).
     bindR (in_sint16_le s) (\<lambda>(t, s).
     bindR (in_sint16_le s) (\<lambda>(w, s).
     bindR (in_sint16_le s) (\<lambda>(h, s).
     Inr (\<lparr>er_left = l, er_top = t, er_width = w, er_height = h\<rparr>, s)))))"

text \<open>\<open>io_delta_encoded_rects\<close> on the first \<open>n\<close> entries of the array of 45.\<close>

definition save_ders :: "u8 \<Rightarrow> der list \<Rightarrow> u8 list" where
  "save_ders n ds = concat (map save_der (take (unat n) ds))"

definition load_ders :: "u8 \<Rightarrow> der list \<Rightarrow> instream \<Rightarrow> (der list \<times> instream) res" where
  "load_ders n old s = assertR (unat n \<le> 45)
     (bindR (in_list load_der (unat n) s) (\<lambda>(es, s). Inr (es @ drop (unat n) old, s)))"

definition save_point :: "dep_point \<Rightarrow> u8 list" where
  "save_point e = bytes_uint16_le (p_x e) @ bytes_uint16_le (p_y e)"

definition load_point :: "instream \<Rightarrow> (dep_point \<times> instream) res" where
  "load_point s =
     bindR (in_sint16_le s) (\<lambda>(x, s). bindR (in_sint16_le s) (\<lambda>(y, s). Inr (\<lparr>p_x = x, p_y = y\<rparr>, s)))"

definition save_points :: "u8 \<Rightarrow> dep_point list \<Rightarrow> u8 list" where
  "save_points n ps = concat (map save_point (take (unat n) ps))"

definition load_points :: "u8 \<Rightarrow> dep_point list \<Rightarrow> instream \<Rightarrow> (dep_point list \<times> instream) res" where
  "load_points n old s = assertR (unat n \<le> 128)
     (bindR (in_list load_point (unat n) s) (\<lambda>(es, s). Inr (es @ drop (unat n) old, s)))"

named_theorems load_save "what a load reads back from the bytes of its save"

lemmas [load_save] = uint8.rd_enc [OF TrueI] uint16_le.rd_enc [OF TrueI] uint32_le.rd_enc [OF TrueI] rdp_color.rd_enc

interpretation saved_rect: codec load_rect save_rect "\<lambda>_. True"
  by unfold_locales
    (auto simp: load_rect_def save_rect_def load_save bindR_eq_Inr dest!: in_uint16_le_advances intro: advances_trans)

interpretation saved_brush: codec load_brush save_brush brush_ok
proof unfold_locales
  show "advances s s'" if "load_brush s = Inr (b, s')" for s s' b
    using that by (auto simp: load_brush_def bindR_eq_Inr dest!: in_uint8_advances in_skip_bytes_advances)
      (meson advances_trans)
  show "load_brush (InStream c (save_brush b @ r)) = Inr (b, InStream (c @ save_brush b) r)" if "brush_ok b" for b c r
    using that in_skip_bytes_append [of "extra b" _ r]
    by (simp add: load_brush_def save_brush_def load_save brush_ok_def)
qed

interpretation saved_der: codec load_der save_der "\<lambda>_. True"
  by unfold_locales
    (auto simp: load_der_def save_der_def load_save bindR_eq_Inr dest!: in_uint16_le_advances intro: advances_trans)

interpretation saved_point: codec load_point save_point "\<lambda>_. True"
  by unfold_locales
    (auto simp: load_point_def save_point_def load_save bindR_eq_Inr dest!: in_uint16_le_advances intro: advances_trans)

lemma load_save_unsafe [load_save]:
  "load_uint8_unsafe (InStream c (save_uint8_unsafe v @ r)) = Inr (take_bit 8 v, InStream (c @ save_uint8_unsafe v) r)"
proof -
  have "ucast (ucast v :: u8) = take_bit 8 v"
    by (rule bit_word_eqI) (auto simp: bit_simps)
  then show ?thesis by (simp add: load_uint8_unsafe_def save_uint8_unsafe_def load_save)
qed

lemmas [load_save] = saved_rect.rd_enc [OF TrueI] saved_brush.rd_enc

lemma load_save_ders [load_save]:
  assumes "unat n \<le> 45" "length ds = 45"
  shows "load_ders n old (InStream c (save_ders n ds @ r))
    = Inr (take (unat n) ds @ drop (unat n) old, InStream (c @ save_ders n ds) r)"
  using saved_der.in_list_enc [of "take (unat n) ds" c r] assms by (simp add: load_ders_def save_ders_def)

lemma load_save_points [load_save]:
  assumes "unat n \<le> 128" "length ps = 128"
  shows "load_points n old (InStream c (save_points n ps @ r))
    = Inr (take (unat n) ps @ drop (unat n) old, InStream (c @ save_points n ps) r)"
  using saved_point.in_list_enc [of "take (unat n) ps" c r] assms by (simp add: load_points_def save_points_def)

lemma load_save_bytes [load_save]:
  "length bs = n \<Longrightarrow> in_skip_bytes n (InStream c (bs @ r)) = Inr (bs, InStream (c @ bs) r)"
  using in_skip_bytes_append by blast

subsection \<open>Orders\<close>

definition save_pen :: "pen \<Rightarrow> u8 list" where
  "save_pen p = bytes_uint8 (pstyle p) @ bytes_uint8 (pwidth p) @ bytes_uint32_le (pcolor p)"

definition load_pen :: "instream \<Rightarrow> (pen \<times> instream) res" where
  "load_pen s =
     bindR (in_uint8 s) (\<lambda>(st, s). bindR (in_uint8 s) (\<lambda>(w, s). bindR (in_uint32_le s) (\<lambda>(c, s).
     Inr (\<lparr>pstyle = st, pwidth = w, pcolor = c\<rparr>, s))))"

lemma load_save_pen [load_save]: "load_pen (InStream c (save_pen p @ r)) = Inr (p, InStream (c @ save_pen p) r)"
  by (simp add: load_pen_def save_pen_def load_save)

definition save_common :: "common \<Rightarrow> u8 list" where
  "save_common x =
     bytes_uint8 (corder x) @ save_rect (clip x)"

definition load_common :: "instream \<Rightarrow> (common \<times> instream) res" where
  "load_common s =
     bindR (in_uint8 s) (\<lambda>(v0, s).
     bindR (load_rect s) (\<lambda>(v1, s).
     Inr (\<lparr>corder = v0, clip = v1\<rparr>, s)))"

lemma load_save_common [load_save]:
  "load_common (InStream c (save_common x @ r))
    = Inr (x, InStream (c @ save_common x) r)"
  by (cases x) (simp add: load_common_def save_common_def load_save)

definition save_DstBlt :: "DstBlt \<Rightarrow> u8 list" where
  "save_DstBlt x =
     save_rect (d_rect x) @ bytes_uint8 (d_rop x)"

definition load_DstBlt :: "instream \<Rightarrow> (DstBlt \<times> instream) res" where
  "load_DstBlt s =
     bindR (load_rect s) (\<lambda>(v0, s).
     bindR (in_uint8 s) (\<lambda>(v1, s).
     Inr (\<lparr>d_rect = v0, d_rop = v1\<rparr>, s)))"

lemma load_save_DstBlt [load_save]:
  "load_DstBlt (InStream c (save_DstBlt x @ r))
    = Inr (x, InStream (c @ save_DstBlt x) r)"
  by (cases x) (simp add: load_DstBlt_def save_DstBlt_def load_save)

definition save_PatBlt :: "PatBlt \<Rightarrow> u8 list" where
  "save_PatBlt x =
     save_rect (pb_rect x) @ bytes_uint8 (pb_rop x) @ bytes_uint32_le (pb_back_color x)
     @ bytes_uint32_le (pb_fore_color x) @ save_brush (pb_brush x)"

definition load_PatBlt :: "instream \<Rightarrow> (PatBlt \<times> instream) res" where
  "load_PatBlt s =
     bindR (load_rect s) (\<lambda>(v0, s).
     bindR (in_uint8 s) (\<lambda>(v1, s).
     bindR (in_uint32_le s) (\<lambda>(v2, s).
     bindR (in_uint32_le s) (\<lambda>(v3, s).
     bindR (load_brush s) (\<lambda>(v4, s).
     Inr (\<lparr>pb_rect = v0, pb_rop = v1, pb_back_color = v2, pb_fore_color = v3, pb_brush = v4\<rparr>, s))))))"

lemma load_save_PatBlt [load_save]:
  assumes "brush_ok (pb_brush x)"
  shows "load_PatBlt (InStream c (save_PatBlt x @ r))
    = Inr (x, InStream (c @ save_PatBlt x) r)"
  using assms by (cases x) (simp add: load_PatBlt_def save_PatBlt_def load_save)

definition save_ScrBlt :: "ScrBlt \<Rightarrow> u8 list" where
  "save_ScrBlt x =
     save_rect (sb_rect x) @ bytes_uint8 (sb_rop x) @ bytes_uint16_le (sb_srcx x)
     @ bytes_uint16_le (sb_srcy x)"

definition load_ScrBlt :: "instream \<Rightarrow> (ScrBlt \<times> instream) res" where
  "load_ScrBlt s =
     bindR (load_rect s) (\<lambda>(v0, s).
     bindR (in_uint8 s) (\<lambda>(v1, s).
     bindR (in_uint16_le s) (\<lambda>(v2, s).
     bindR (in_uint16_le s) (\<lambda>(v3, s).
     Inr (\<lparr>sb_rect = v0, sb_rop = v1, sb_srcx = v2, sb_srcy = v3\<rparr>, s)))))"

lemma load_save_ScrBlt [load_save]:
  "load_ScrBlt (InStream c (save_ScrBlt x @ r))
    = Inr (x, InStream (c @ save_ScrBlt x) r)"
  by (cases x) (simp add: load_ScrBlt_def save_ScrBlt_def load_save)

definition save_OpaqueRect :: "OpaqueRect \<Rightarrow> u8 list" where
  "save_OpaqueRect x =
     save_rect (o_rect x) @ emit_rdp_color (o_color x)"

definition load_OpaqueRect :: "instream \<Rightarrow> (OpaqueRect \<times> instream) res" where
  "load_OpaqueRect s =
     bindR (load_rect s) (\<lambda>(v0, s).
     bindR (receive_rdp_color s) (\<lambda>(v1, s).
     Inr (\<lparr>o_rect = v0, o_color = v1\<rparr>, s)))"

lemma load_save_OpaqueRect [load_save]:
  assumes "color_ok (o_color x)"
  shows "load_OpaqueRect (InStream c (save_OpaqueRect x @ r))
    = Inr (x, InStream (c @ save_OpaqueRect x) r)"
  using assms by (cases x) (simp add: load_OpaqueRect_def save_OpaqueRect_def load_save)

definition save_MemBlt :: "MemBlt \<Rightarrow> u8 list" where
  "save_MemBlt x =
     bytes_uint16_le (m_cache_id x) @ save_rect (m_rect x) @ bytes_uint8 (m_rop x)
     @ save_uint8_unsafe (m_srcx x) @ save_uint8_unsafe (m_srcy x) @ bytes_uint16_le (m_cache_idx x)"

definition load_MemBlt :: "instream \<Rightarrow> (MemBlt \<times> instream) res" where
  "load_MemBlt s =
     bindR (in_uint16_le s) (\<lambda>(v0, s).
     bindR (load_rect s) (\<lambda>(v1, s).
     bindR (in_uint8 s) (\<lambda>(v2, s).
     bindR (load_uint8_unsafe s) (\<lambda>(v3, s).
     bindR (load_uint8_unsafe s) (\<lambda>(v4, s).
     bindR (in_uint16_le s) (\<lambda>(v5, s).
     Inr (\<lparr>m_cache_id = v0, m_rect = v1, m_rop = v2, m_srcx = v3, m_srcy = v4, m_cache_idx = v5\<rparr>, s)))))))"

lemma load_save_MemBlt [load_save]:
  "load_MemBlt (InStream c (save_MemBlt x @ r))
    = Inr (x\<lparr>m_srcx := take_bit 8 (m_srcx x), m_srcy := take_bit 8 (m_srcy x)\<rparr>, InStream (c @ save_MemBlt x) r)"
  by (cases x) (simp add: load_MemBlt_def save_MemBlt_def load_save)

definition save_Mem3Blt :: "Mem3Blt \<Rightarrow> u8 list" where
  "save_Mem3Blt x =
     bytes_uint16_le (m3_cache_id x) @ save_rect (m3_rect x) @ bytes_uint8 (m3_rop x)
     @ save_uint8_unsafe (m3_srcx x) @ save_uint8_unsafe (m3_srcy x)
     @ bytes_uint32_le (m3_back_color x) @ bytes_uint32_le (m3_fore_color x) @ save_brush (m3_brush x)
     @ bytes_uint16_le (m3_cache_idx x)"

definition load_Mem3Blt :: "instream \<Rightarrow> (Mem3Blt \<times> instream) res" where
  "load_Mem3Blt s =
     bindR (in_uint16_le s) (\<lambda>(v0, s).
     bindR (load_rect s) (\<lambda>(v1, s).
     bindR (in_uint8 s) (\<lambda>(v2, s).
     bindR (load_uint8_unsafe s) (\<lambda>(v3, s).
     bindR (load_uint8_unsafe s) (\<lambda>(v4, s).
     bindR (in_uint32_le s) (\<lambda>(v5, s).
     bindR (in_uint32_le s) (\<lambda>(v6, s).
     bindR (load_brush s) (\<lambda>(v7, s).
     bindR (in_uint16_le s) (\<lambda>(v8, s).
     Inr (\<lparr>m3_cache_id = v0, m3_rect = v1, m3_rop = v2, m3_srcx = v3, m3_srcy = v4, m3_back_color = v5, m3_fore_color = v6, m3_brush = v7, m3_cache_idx = v8\<rparr>, s))))))))))"

lemma load_save_Mem3Blt [load_save]:
  assumes "brush_ok (m3_brush x)"
  shows "load_Mem3Blt (InStream c (save_Mem3Blt x @ r))
    = Inr (x\<lparr>m3_srcx := take_bit 8 (m3_srcx x), m3_srcy := take_bit 8 (m3_srcy x)\<rparr>, InStream (c @ save_Mem3Blt x) r)"
  using assms by (cases x) (simp add: load_Mem3Blt_def save_Mem3Blt_def load_save)

definition save_LineTo :: "LineTo \<Rightarrow> u8 list" where
  "save_LineTo x =
     bytes_uint8 (l_back_mode x) @ bytes_uint16_le (l_startx x) @ bytes_uint16_le (l_starty x)
     @ bytes_uint16_le (l_endx x) @ bytes_uint16_le (l_endy x) @ bytes_uint32_le (l_back_color x)
     @ bytes_uint8 (l_rop2 x) @ save_pen (l_pen x)"

definition load_LineTo :: "instream \<Rightarrow> (LineTo \<times> instream) res" where
  "load_LineTo s =
     bindR (in_uint8 s) (\<lambda>(v0, s).
     bindR (in_sint16_le s) (\<lambda>(v1, s).
     bindR (in_sint16_le s) (\<lambda>(v2, s).
     bindR (in_sint16_le s) (\<lambda>(v3, s).
     bindR (in_sint16_le s) (\<lambda>(v4, s).
     bindR (in_uint32_le s) (\<lambda>(v5, s).
     bindR (in_uint8 s) (\<lambda>(v6, s).
     bindR (load_pen s) (\<lambda>(v7, s).
     Inr (\<lparr>l_back_mode = v0, l_startx = v1, l_starty = v2, l_endx = v3, l_endy = v4, l_back_color = v5, l_rop2 = v6, l_pen = v7\<rparr>, s)))))))))"

lemma load_save_LineTo [load_save]:
  "load_LineTo (InStream c (save_LineTo x @ r))
    = Inr (x, InStream (c @ save_LineTo x) r)"
  by (cases x) (simp add: load_LineTo_def save_LineTo_def load_save)

definition save_GlyphIndex :: "GlyphIndex \<Rightarrow> u8 list" where
  "save_GlyphIndex x =
     bytes_uint8 (g_cache_id x) @ bytes_uint16_le (g_fl_accel x) @ bytes_uint16_le (g_ui_charinc x)
     @ bytes_uint16_le (g_f_op_redundant x) @ bytes_uint32_le (g_back_color x)
     @ bytes_uint32_le (g_fore_color x) @ save_rect (g_bk x) @ save_rect (g_op x)
     @ save_brush (g_brush x) @ bytes_uint16_le (g_glyph_x x) @ bytes_uint16_le (g_glyph_y x)
     @ bytes_uint8 (g_data_len x) @ g_data x"

definition load_GlyphIndex :: "instream \<Rightarrow> (GlyphIndex \<times> instream) res" where
  "load_GlyphIndex s =
     bindR (in_uint8 s) (\<lambda>(v0, s).
     bindR (in_sint16_le s) (\<lambda>(v1, s).
     bindR (in_sint16_le s) (\<lambda>(v2, s).
     bindR (in_sint16_le s) (\<lambda>(v3, s).
     bindR (in_uint32_le s) (\<lambda>(v4, s).
     bindR (in_uint32_le s) (\<lambda>(v5, s).
     bindR (load_rect s) (\<lambda>(v6, s).
     bindR (load_rect s) (\<lambda>(v7, s).
     bindR (load_brush s) (\<lambda>(v8, s).
     bindR (in_sint16_le s) (\<lambda>(v9, s).
     bindR (in_sint16_le s) (\<lambda>(v10, s).
     bindR (in_uint8 s) (\<lambda>(v11, s).
     bindR (in_skip_bytes 256 s) (\<lambda>(v12, s).
     Inr (\<lparr>g_cache_id = v0, g_fl_accel = v1, g_ui_charinc = v2, g_f_op_redundant = v3, g_back_color = v4, g_fore_color = v5, g_bk = v6, g_op = v7, g_brush = v8, g_glyph_x = v9, g_glyph_y = v10, g_data_len = v11, g_data = v12\<rparr>, s))))))))))))))"

lemma load_save_GlyphIndex [load_save]:
  assumes "brush_ok (g_brush x)" "length (g_data x) = 256"
  shows "load_GlyphIndex (InStream c (save_GlyphIndex x @ r))
    = Inr (x, InStream (c @ save_GlyphIndex x) r)"
  using assms by (cases x) (simp add: load_GlyphIndex_def save_GlyphIndex_def load_save)

definition save_Polyline :: "Polyline \<Rightarrow> u8 list" where
  "save_Polyline x =
     bytes_uint16_le (pl_xStart x) @ bytes_uint16_le (pl_yStart x) @ bytes_uint8 (pl_rop2 x)
     @ bytes_uint16_le (pl_brush_entry x) @ bytes_uint32_le (pl_color x) @ bytes_uint8 (pl_n x)
     @ save_points (pl_n x) (pl_points x)"

definition load_Polyline :: "Polyline \<Rightarrow> instream \<Rightarrow> (Polyline \<times> instream) res" where
  "load_Polyline old s =
     bindR (in_sint16_le s) (\<lambda>(v0, s).
     bindR (in_sint16_le s) (\<lambda>(v1, s).
     bindR (in_uint8 s) (\<lambda>(v2, s).
     bindR (in_uint16_le s) (\<lambda>(v3, s).
     bindR (in_uint32_le s) (\<lambda>(v4, s).
     bindR (in_uint8 s) (\<lambda>(v5, s).
     bindR (load_points v5 (pl_points old) s) (\<lambda>(v6, s).
     Inr (\<lparr>pl_xStart = v0, pl_yStart = v1, pl_rop2 = v2, pl_brush_entry = v3, pl_color = v4, pl_n = v5, pl_points = v6\<rparr>, s))))))))"

lemma load_save_Polyline [load_save]:
  assumes "unat (pl_n x) \<le> 128" "length (pl_points x) = 128"
  shows "load_Polyline old (InStream c (save_Polyline x @ r))
    = Inr (x\<lparr>pl_points := take (unat (pl_n x)) (pl_points x) @ drop (unat (pl_n x)) (pl_points old)\<rparr>, InStream (c @ save_Polyline x) r)"
  using assms by (cases x) (simp add: load_Polyline_def save_Polyline_def load_save)

definition save_MultiDstBlt :: "MultiDstBlt \<Rightarrow> u8 list" where
  "save_MultiDstBlt x =
     bytes_uint16_le (md_left x) @ bytes_uint16_le (md_top x) @ bytes_uint16_le (md_width x)
     @ bytes_uint16_le (md_height x) @ bytes_uint8 (md_rop x) @ bytes_uint8 (md_n x)
     @ save_ders (md_n x) (md_deltas x)"

definition load_MultiDstBlt :: "MultiDstBlt \<Rightarrow> instream \<Rightarrow> (MultiDstBlt \<times> instream) res" where
  "load_MultiDstBlt old s =
     bindR (in_sint16_le s) (\<lambda>(v0, s).
     bindR (in_sint16_le s) (\<lambda>(v1, s).
     bindR (in_sint16_le s) (\<lambda>(v2, s).
     bindR (in_sint16_le s) (\<lambda>(v3, s).
     bindR (in_uint8 s) (\<lambda>(v4, s).
     bindR (in_uint8 s) (\<lambda>(v5, s).
     bindR (load_ders v5 (md_deltas old) s) (\<lambda>(v6, s).
     Inr (\<lparr>md_left = v0, md_top = v1, md_width = v2, md_height = v3, md_rop = v4, md_n = v5, md_deltas = v6\<rparr>, s))))))))"

lemma load_save_MultiDstBlt [load_save]:
  assumes "unat (md_n x) \<le> 45" "length (md_deltas x) = 45"
  shows "load_MultiDstBlt old (InStream c (save_MultiDstBlt x @ r))
    = Inr (x\<lparr>md_deltas := take (unat (md_n x)) (md_deltas x) @ drop (unat (md_n x)) (md_deltas old)\<rparr>, InStream (c @ save_MultiDstBlt x) r)"
  using assms by (cases x) (simp add: load_MultiDstBlt_def save_MultiDstBlt_def load_save)

definition save_MultiOpaqueRect :: "MultiOpaqueRect \<Rightarrow> u8 list" where
  "save_MultiOpaqueRect x =
     bytes_uint16_le (mo_left x) @ bytes_uint16_le (mo_top x) @ bytes_uint16_le (mo_width x)
     @ bytes_uint16_le (mo_height x) @ emit_rdp_color (mo_color x) @ bytes_uint8 (mo_n x)
     @ save_ders (mo_n x) (mo_deltas x)"

definition load_MultiOpaqueRect :: "MultiOpaqueRect \<Rightarrow> instream \<Rightarrow> (MultiOpaqueRect \<times> instream) res" where
  "load_MultiOpaqueRect old s =
     bindR (in_sint16_le s) (\<lambda>(v0, s).
     bindR (in_sint16_le s) (\<lambda>(v1, s).
     bindR (in_sint16_le s) (\<lambda>(v2, s).
     bindR (in_sint16_le s) (\<lambda>(v3, s).
     bindR (receive_rdp_color s) (\<lambda>(v4, s).
     bindR (in_uint8 s) (\<lambda>(v5, s).
     bindR (load_ders v5 (mo_deltas old) s) (\<lambda>(v6, s).
     Inr (\<lparr>mo_left = v0, mo_top = v1, mo_width = v2, mo_height = v3, mo_color = v4, mo_n = v5, mo_deltas = v6\<rparr>, s))))))))"

lemma load_save_MultiOpaqueRect [load_save]:
  assumes "color_ok (mo_color x)" "unat (mo_n x) \<le> 45" "length (mo_deltas x) = 45"
  shows "load_MultiOpaqueRect old (InStream c (save_MultiOpaqueRect x @ r))
    = Inr (x\<lparr>mo_deltas := take (unat (mo_n x)) (mo_deltas x) @ drop (unat (mo_n x)) (mo_deltas old)\<rparr>, InStream (c @ save_MultiOpaqueRect x) r)"
  using assms by (cases x) (simp add: load_MultiOpaqueRect_def save_MultiOpaqueRect_def load_save)

definition save_MultiPatBlt :: "MultiPatBlt \<Rightarrow> u8 list" where
  "save_MultiPatBlt x =
     save_rect (mp_rect x) @ bytes_uint8 (mp_rop x) @ bytes_uint32_le (mp_back_color x)
     @ bytes_uint32_le (mp_fore_color x) @ save_brush (mp_brush x) @ bytes_uint8 (mp_n x)
     @ save_ders (mp_n x) (mp_deltas x)"

definition load_MultiPatBlt :: "MultiPatBlt \<Rightarrow> instream \<Rightarrow> (MultiPatBlt \<times> instream) res" where
  "load_MultiPatBlt old s =
     bindR (load_rect s) (\<lambda>(v0, s).
     bindR (in_uint8 s) (\<lambda>(v1, s).
     bindR (in_uint32_le s) (\<lambda>(v2, s).
     bindR (in_uint32_le s) (\<lambda>(v3, s).
     bindR (load_brush s) (\<lambda>(v4, s).
     bindR (in_uint8 s) (\<lambda>(v5, s).
     bindR (load_ders v5 (mp_deltas old) s) (\<lambda>(v6, s).
     Inr (\<lparr>mp_rect = v0, mp_rop = v1, mp_back_color = v2, mp_fore_color = v3, mp_brush = v4, mp_n = v5, mp_deltas = v6\<rparr>, s))))))))"

lemma load_save_MultiPatBlt [load_save]:
  assumes "brush_ok (mp_brush x)" "unat (mp_n x) \<le> 45" "length (mp_deltas x) = 45"
  shows "load_MultiPatBlt old (InStream c (save_MultiPatBlt x @ r))
    = Inr (x\<lparr>mp_deltas := take (unat (mp_n x)) (mp_deltas x) @ drop (unat (mp_n x)) (mp_deltas old)\<rparr>, InStream (c @ save_MultiPatBlt x) r)"
  using assms by (cases x) (simp add: load_MultiPatBlt_def save_MultiPatBlt_def load_save)

definition save_MultiScrBlt :: "MultiScrBlt \<Rightarrow> u8 list" where
  "save_MultiScrBlt x =
     save_rect (ms_rect x) @ bytes_uint8 (ms_rop x) @ bytes_uint16_le (ms_xsrc x)
     @ bytes_uint16_le (ms_ysrc x) @ bytes_uint8 (ms_n x) @ save_ders (ms_n x) (ms_deltas x)"

definition load_MultiScrBlt :: "MultiScrBlt \<Rightarrow> instream \<Rightarrow> (MultiScrBlt \<times> instream) res" where
  "load_MultiScrBlt old s =
     bindR (load_rect s) (\<lambda>(v0, s).
     bindR (in_uint8 s) (\<lambda>(v1, s).
     bindR (in_sint16_le s) (\<lambda>(v2, s).
     bindR (in_sint16_le s) (\<lambda>(v3, s).
     bindR (in_uint8 s) (\<lambda>(v4, s).
     bindR (load_ders v4 (ms_deltas old) s) (\<lambda>(v5, s).
     Inr (\<lparr>ms_rect = v0, ms_rop = v1, ms_xsrc = v2, ms_ysrc = v3, ms_n = v4, ms_deltas = v5\<rparr>, s)))))))"

lemma load_save_MultiScrBlt [load_save]:
  assumes "unat (ms_n x) \<le> 45" "length (ms_deltas x) = 45"
  shows "load_MultiScrBlt old (InStream c (save_MultiScrBlt x @ r))
    = Inr (x\<lparr>ms_deltas := take (unat (ms_n x)) (ms_deltas x) @ drop (unat (ms_n x)) (ms_deltas old)\<rparr>, InStream (c @ save_MultiScrBlt x) r)"
  using assms by (cases x) (simp add: load_MultiScrBlt_def save_MultiScrBlt_def load_save)

subsection \<open>The history\<close>

text \<open>\<open>send_recv\<close> writing; \<open>send\<close> passes the version \<open>~0\<close>.\<close>

definition save_chunk :: "u8 \<Rightarrow> chunk \<Rightarrow> u8 list" where
  "save_chunk version k =
     save_common (ch_common k)
     @ save_DstBlt (ch_DstBlt k)
     @ save_PatBlt (ch_PatBlt k)
     @ save_ScrBlt (ch_ScrBlt k)
     @ save_OpaqueRect (ch_OpaqueRect k)
     @ save_MemBlt (ch_MemBlt k)
     @ opt (version > 1) (save_Mem3Blt (ch_Mem3Blt k))
     @ save_LineTo (ch_LineTo k)
     @ save_GlyphIndex (ch_GlyphIndex k)
     @ opt (version > 2) (save_Polyline (ch_Polyline k))
     @ opt (version > 3) (save_MultiDstBlt (ch_MultiDstBlt k))
     @ opt (version > 3) (save_MultiOpaqueRect (ch_MultiOpaqueRect k))
     @ opt (version > 3) (save_MultiPatBlt (ch_MultiPatBlt k))
     @ opt (version > 3) (save_MultiScrBlt (ch_MultiScrBlt k))"

text \<open>\<open>send_recv\<close> reading into the history \<open>k0\<close>.\<close>

definition load_chunk :: "u8 \<Rightarrow> chunk \<Rightarrow> instream \<Rightarrow> (chunk \<times> instream) res" where
  "load_chunk version k0 s =
     bindR (load_common s) (\<lambda>(v0, s).
     bindR (load_DstBlt s) (\<lambda>(v1, s).
     bindR (load_PatBlt s) (\<lambda>(v2, s).
     bindR (load_ScrBlt s) (\<lambda>(v3, s).
     bindR (load_OpaqueRect s) (\<lambda>(v4, s).
     bindR (load_MemBlt s) (\<lambda>(v5, s).
     bindR (in_if (version > 1) (load_Mem3Blt) (ch_Mem3Blt k0) s) (\<lambda>(v6, s).
     bindR (load_LineTo s) (\<lambda>(v7, s).
     bindR (load_GlyphIndex s) (\<lambda>(v8, s).
     bindR (in_if (version > 2) (load_Polyline (ch_Polyline k0)) (ch_Polyline k0) s) (\<lambda>(v9, s).
     bindR (in_if (version > 3) (load_MultiDstBlt (ch_MultiDstBlt k0)) (ch_MultiDstBlt k0) s) (\<lambda>(v10, s).
     bindR (in_if (version > 3) (load_MultiOpaqueRect (ch_MultiOpaqueRect k0)) (ch_MultiOpaqueRect k0) s) (\<lambda>(v11, s).
     bindR (in_if (version > 3) (load_MultiPatBlt (ch_MultiPatBlt k0)) (ch_MultiPatBlt k0) s) (\<lambda>(v12, s).
     bindR (in_if (version > 3) (load_MultiScrBlt (ch_MultiScrBlt k0)) (ch_MultiScrBlt k0) s) (\<lambda>(v13, s).
     Inr (k0\<lparr>ch_common := v0, ch_DstBlt := v1, ch_PatBlt := v2, ch_ScrBlt := v3, ch_OpaqueRect := v4,
       ch_MemBlt := v5, ch_Mem3Blt := v6, ch_LineTo := v7, ch_GlyphIndex := v8, ch_Polyline := v9,
       ch_MultiDstBlt := v10, ch_MultiOpaqueRect := v11, ch_MultiPatBlt := v12, ch_MultiScrBlt := v13\<rparr>, s)))))))))))))))"

definition send_chunk :: "chunk \<Rightarrow> u8 list" where
  "send_chunk k = save_chunk (NOT 0) k"

text \<open>The histories the format can carry: counts within the arrays, 24-bit colours where three bytes are written.\<close>

definition chunk_ok :: "chunk \<Rightarrow> bool" where
  "chunk_ok k \<longleftrightarrow> color_ok (o_color (ch_OpaqueRect k)) \<and> color_ok (mo_color (ch_MultiOpaqueRect k))
     \<and> brush_ok (pb_brush (ch_PatBlt k)) \<and> brush_ok (m3_brush (ch_Mem3Blt k)) \<and> brush_ok (g_brush (ch_GlyphIndex k))
     \<and> brush_ok (mp_brush (ch_MultiPatBlt k)) \<and> length (g_data (ch_GlyphIndex k)) = 256
     \<and> unat (pl_n (ch_Polyline k)) \<le> 128 \<and> length (pl_points (ch_Polyline k)) = 128
     \<and> unat (md_n (ch_MultiDstBlt k)) \<le> 45 \<and> length (md_deltas (ch_MultiDstBlt k)) = 45
     \<and> unat (mo_n (ch_MultiOpaqueRect k)) \<le> 45 \<and> length (mo_deltas (ch_MultiOpaqueRect k)) = 45
     \<and> unat (mp_n (ch_MultiPatBlt k)) \<le> 45 \<and> length (mp_deltas (ch_MultiPatBlt k)) = 45
     \<and> unat (ms_n (ch_MultiScrBlt k)) \<le> 45 \<and> length (ms_deltas (ch_MultiScrBlt k)) = 45"

text \<open>
  What reading the bytes of \<open>k\<close> makes of \<open>k0\<close>: the source coordinates of \<open>MemBlt\<close> and \<open>Mem3Blt\<close> lose
  their high byte, unused entries of the arrays and orders the version does not know stay, and so
  does the ellipse, which no version saves.
\<close>

definition low_src :: "MemBlt \<Rightarrow> MemBlt" where
  "low_src x = x\<lparr>m_srcx := take_bit 8 (m_srcx x), m_srcy := take_bit 8 (m_srcy x)\<rparr>"

definition low_src3 :: "Mem3Blt \<Rightarrow> Mem3Blt" where
  "low_src3 x = x\<lparr>m3_srcx := take_bit 8 (m3_srcx x), m3_srcy := take_bit 8 (m3_srcy x)\<rparr>"

definition used_first :: "u8 \<Rightarrow> 'a list \<Rightarrow> 'a list \<Rightarrow> 'a list" where
  "used_first n xs old = take (unat n) xs @ drop (unat n) old"

definition restored :: "u8 \<Rightarrow> chunk \<Rightarrow> chunk \<Rightarrow> chunk" where
  "restored version k k0 = k0
     \<lparr>ch_common := ch_common k, ch_DstBlt := ch_DstBlt k, ch_PatBlt := ch_PatBlt k, ch_ScrBlt := ch_ScrBlt k,
      ch_OpaqueRect := ch_OpaqueRect k, ch_MemBlt := low_src (ch_MemBlt k),
      ch_Mem3Blt := (if version > 1 then low_src3 (ch_Mem3Blt k) else ch_Mem3Blt k0),
      ch_LineTo := ch_LineTo k, ch_GlyphIndex := ch_GlyphIndex k,
      ch_Polyline := (if version > 2 then (ch_Polyline k)\<lparr>pl_points :=
        used_first (pl_n (ch_Polyline k)) (pl_points (ch_Polyline k)) (pl_points (ch_Polyline k0))\<rparr> else ch_Polyline k0),
      ch_MultiDstBlt := (if version > 3 then (ch_MultiDstBlt k)\<lparr>md_deltas :=
        used_first (md_n (ch_MultiDstBlt k)) (md_deltas (ch_MultiDstBlt k)) (md_deltas (ch_MultiDstBlt k0))\<rparr> else ch_MultiDstBlt k0),
      ch_MultiOpaqueRect := (if version > 3 then (ch_MultiOpaqueRect k)\<lparr>mo_deltas :=
        used_first (mo_n (ch_MultiOpaqueRect k)) (mo_deltas (ch_MultiOpaqueRect k)) (mo_deltas (ch_MultiOpaqueRect k0))\<rparr> else ch_MultiOpaqueRect k0),
      ch_MultiPatBlt := (if version > 3 then (ch_MultiPatBlt k)\<lparr>mp_deltas :=
        used_first (mp_n (ch_MultiPatBlt k)) (mp_deltas (ch_MultiPatBlt k)) (mp_deltas (ch_MultiPatBlt k0))\<rparr> else ch_MultiPatBlt k0),
      ch_MultiScrBlt := (if version > 3 then (ch_MultiScrBlt k)\<lparr>ms_deltas :=
        used_first (ms_n (ch_MultiScrBlt k)) (ms_deltas (ch_MultiScrBlt k)) (ms_deltas (ch_MultiScrBlt k0))\<rparr> else ch_MultiScrBlt k0)\<rparr>"

lemma in_if_opt:
  assumes "\<And>c r. b \<Longrightarrow> rd (InStream c (bs @ r)) = Inr (x, InStream (c @ bs) r)"
  shows "in_if b rd old (InStream c (opt b bs @ r)) = Inr (if b then x else old, InStream (c @ opt b bs) r)"
  using assms by (simp add: in_if_def opt_def)

lemma load_save_chunk:
  assumes "chunk_ok k"
  shows "load_chunk version k0 (InStream c (save_chunk version k @ r))
    = Inr (restored version k k0, InStream (c @ save_chunk version k) r)"
proof -
  note ok = assms [unfolded chunk_ok_def]
  have opts: "in_if b load_Mem3Blt old3 (InStream c (opt b (save_Mem3Blt (ch_Mem3Blt k)) @ r))
      = Inr (if b then low_src3 (ch_Mem3Blt k) else old3, InStream (c @ opt b (save_Mem3Blt (ch_Mem3Blt k))) r)"
    "in_if b (load_Polyline p0) p0 (InStream c (opt b (save_Polyline (ch_Polyline k)) @ r))
      = Inr (if b then (ch_Polyline k)\<lparr>pl_points := used_first (pl_n (ch_Polyline k)) (pl_points (ch_Polyline k)) (pl_points p0)\<rparr> else p0,
             InStream (c @ opt b (save_Polyline (ch_Polyline k))) r)"
    "in_if b (load_MultiDstBlt d0) d0 (InStream c (opt b (save_MultiDstBlt (ch_MultiDstBlt k)) @ r))
      = Inr (if b then (ch_MultiDstBlt k)\<lparr>md_deltas := used_first (md_n (ch_MultiDstBlt k)) (md_deltas (ch_MultiDstBlt k)) (md_deltas d0)\<rparr> else d0,
             InStream (c @ opt b (save_MultiDstBlt (ch_MultiDstBlt k))) r)"
    "in_if b (load_MultiOpaqueRect o0) o0 (InStream c (opt b (save_MultiOpaqueRect (ch_MultiOpaqueRect k)) @ r))
      = Inr (if b then (ch_MultiOpaqueRect k)\<lparr>mo_deltas := used_first (mo_n (ch_MultiOpaqueRect k)) (mo_deltas (ch_MultiOpaqueRect k)) (mo_deltas o0)\<rparr> else o0,
             InStream (c @ opt b (save_MultiOpaqueRect (ch_MultiOpaqueRect k))) r)"
    "in_if b (load_MultiPatBlt q0) q0 (InStream c (opt b (save_MultiPatBlt (ch_MultiPatBlt k)) @ r))
      = Inr (if b then (ch_MultiPatBlt k)\<lparr>mp_deltas := used_first (mp_n (ch_MultiPatBlt k)) (mp_deltas (ch_MultiPatBlt k)) (mp_deltas q0)\<rparr> else q0,
             InStream (c @ opt b (save_MultiPatBlt (ch_MultiPatBlt k))) r)"
    "in_if b (load_MultiScrBlt t0) t0 (InStream c (opt b (save_MultiScrBlt (ch_MultiScrBlt k)) @ r))
      = Inr (if b then (ch_MultiScrBlt k)\<lparr>ms_deltas := used_first (ms_n (ch_MultiScrBlt k)) (ms_deltas (ch_MultiScrBlt k)) (ms_deltas t0)\<rparr> else t0,
             InStream (c @ opt b (save_MultiScrBlt (ch_MultiScrBlt k))) r)" for b c r old3 p0 d0 o0 q0 t0
    by (rule in_if_opt, simp add: load_save ok low_src3_def used_first_def)+
  have mem: "load_MemBlt (InStream c (save_MemBlt (ch_MemBlt k) @ r)) = Inr (low_src (ch_MemBlt k), InStream (c @ save_MemBlt (ch_MemBlt k)) r)" for c r
    by (simp add: load_save_MemBlt low_src_def)
  show ?thesis unfolding load_chunk_def save_chunk_def append_assoc
    by (simp only: load_save_common load_save_DstBlt load_save_PatBlt load_save_ScrBlt load_save_OpaqueRect mem opts
        load_save_LineTo load_save_GlyphIndex ok bindR_simps prod.case append_assoc) (simp add: restored_def)
qed

text \<open>The source coordinates that one byte carries.\<close>

definition src_small :: "chunk \<Rightarrow> bool" where
  "src_small k \<longleftrightarrow> m_srcx (ch_MemBlt k) < 256 \<and> m_srcy (ch_MemBlt k) < 256
     \<and> m3_srcx (ch_Mem3Blt k) < 256 \<and> m3_srcy (ch_Mem3Blt k) < 256"

lemma take_bit_8_small: "x < 256 \<Longrightarrow> take_bit 8 x = x" for x :: u16
  by (simp add: take_bit_eq_mod word_less_nat_alt word_unat_eq_iff unat_mod)

lemma take_used_first: "unat n \<le> length xs \<Longrightarrow> take (unat n) (used_first n xs old) = take (unat n) xs"
  by (simp add: used_first_def)

lemma restored_synced:
  assumes "chunk_ok k" "src_small k" "ch_EllipseSC k0 = ch_EllipseSC k" "version > 3"
  shows "synced k (restored version k k0)"
proof -
  have v: "version > 1" "version > 2" using assms(4) by (simp_all add: word_less_nat_alt)
  show ?thesis
    using assms(1,2) unfolding synced_def
    by (intro conjI) (simp_all add: restored_def v assms(3,4) cmd_same_def MultiDstBlt_same_def MultiOpaqueRect_same_def
        MultiPatBlt_same_def MultiScrBlt_same_def GlyphIndex_same_def Polyline_same_def take_used_first
        chunk_ok_def src_small_def low_src_def low_src3_def take_bit_8_small)
qed

lemma newest_version: "(NOT 0 :: u8) > 3"
  by code_simp

lemma save_chunk_recent: "version > 3 \<Longrightarrow> send_chunk k = save_chunk version k"
  using newest_version by (simp add: send_chunk_def save_chunk_def opt_def word_less_nat_alt)

lemma chunk_ok_initial: "chunk_ok initial_chunk"
  by (simp add: chunk_ok_def initial_chunk_def color_ok_def brush_ok_def zero_deltas_def zero_brush_def)

subsection \<open>Properties\<close>

text \<open>
  C6. A reader of a recording of version 4 or later that starts from a history with the writer's
  ellipse has, after the saved state, consumed exactly its bytes and holds a history in step with the
  writer's, so that the orders that follow decode as they were drawn; provided the source coordinates
  of \<open>MemBlt\<close> and \<open>Mem3Blt\<close> are below 256.
\<close>

theorem saved_history_in_step:
  assumes "chunk_ok k" "src_small k" "ch_EllipseSC k0 = ch_EllipseSC k" "version > 3"
  shows "\<exists>k'. load_chunk version k0 (InStream c (send_chunk k @ r)) = Inr (k', InStream (c @ send_chunk k) r)
    \<and> synced k k'"
  using load_save_chunk [OF assms(1), of version k0 c r] restored_synced [OF assms]
  by (simp add: save_chunk_recent [OF assms(4)])

theorem saved_history_in_step_witness:
  "\<exists>k'. load_chunk 5 initial_chunk (InStream [] (send_chunk initial_chunk @ [])) =
      Inr (k', InStream ([] @ send_chunk initial_chunk) [])
    \<and> synced initial_chunk k'"
  by (rule saved_history_in_step)
    (simp_all add: chunk_ok_initial src_small_def, simp_all add: initial_chunk_def)

text \<open>
  Every version of the format is read back field by field: the orders the version has are those
  saved, with the entries of their arrays in use and the low bytes of the two source coordinates;
  everything else stays as the reader had it.
\<close>

theorem saved_history_round_trip:
  assumes "chunk_ok k"
  shows "load_chunk version k0 (InStream c (save_chunk version k @ r))
    = Inr (restored version k k0, InStream (c @ save_chunk version k) r)"
  using assms by (rule load_save_chunk)

theorem saved_history_round_trip_witness:
  "load_chunk 2 initial_chunk (InStream [7] (save_chunk 2 initial_chunk @ [9]))
    = Inr (restored 2 initial_chunk initial_chunk, InStream ([7] @ save_chunk 2 initial_chunk) [9])"
  by (rule saved_history_round_trip) (rule chunk_ok_initial)

text \<open>
  A source coordinate of 256 is restored as 0, and the ellipse is not restored at all: the reader
  is not in step with the writer.
\<close>

theorem saved_history_losses:
  "let k = initial_chunk\<lparr>ch_MemBlt := (ch_MemBlt initial_chunk)\<lparr>m_srcx := 256\<rparr>\<rparr> in
   \<exists>k'. load_chunk 5 k0 (InStream c (send_chunk k @ r)) = Inr (k', InStream (c @ send_chunk k) r)
     \<and> m_srcx (ch_MemBlt k') = 0 \<and> ch_EllipseSC k' = ch_EllipseSC k0 \<and> \<not> synced k k'"
proof -
  let ?k = "initial_chunk\<lparr>ch_MemBlt := (ch_MemBlt initial_chunk)\<lparr>m_srcx := 256\<rparr>\<rparr>"
  let ?k' = "restored 5 ?k k0"
  have ok: "chunk_ok ?k" using chunk_ok_initial by (simp add: chunk_ok_def)
  have src: "m_srcx (ch_MemBlt ?k') = 0" "ch_EllipseSC ?k' = ch_EllipseSC k0"
    by (simp_all add: restored_def low_src_def)
  then have "\<not> synced ?k ?k'" by (auto simp: synced_def cmd_same_def)
  then show ?thesis
    using load_save_chunk [OF ok, of 5 k0 c r] src by (simp add: Let_def save_chunk_recent [of 5])
qed

end
