(* ===== verification/Pointer_Cache.thy ===== *)
theory Pointer_Cache
  imports Streams
begin

text \<open>
  The cache of mouse pointers in front of a client: \<open>CacheIndexMapping\<close> (\<open>utils/cache_index_mapping.hpp\<close>),
  \<open>PointerCache\<close> (\<open>core/RDP/caches/pointercache.hpp\<close>), the pointer operations of \<open>GraphicsUpdatePDU\<close> that
  use it, and the two pointer updates \<open>mod_rdp\<close> turns into them. The locale \<open>index_cache\<close> states what the
  mapping promises; under it the client's cache mirrors the server's.
\<close>

subsection \<open>CacheIndexMapping\<close>

text \<open>Indices are naturals below \<open>Max\<close>, the length of the arrays; \<open>not_fount\<close> is the largest \<open>uint16_t\<close>.\<close>

record index_mapping =
  src_to_dst :: "nat list"
  dst_to_src :: "nat list"
  im_stamps :: "u32 list"
  im_max_entries :: nat
  im_entries :: nat
  im_stamp :: u32

abbreviation not_fount :: nat where "not_fount \<equiv> 65535"

definition mk_mapping :: "nat \<Rightarrow> nat \<Rightarrow> index_mapping res" where
  "mk_mapping capacity max_entries = assertR (max_entries \<le> capacity)
     (Inr \<lparr>src_to_dst = replicate capacity not_fount, dst_to_src = replicate capacity not_fount,
       im_stamps = replicate capacity 0, im_max_entries = max_entries, im_entries = 0, im_stamp = 0\<rparr>)"

definition mapping_insert :: "nat \<Rightarrow> index_mapping \<Rightarrow> index_mapping res" where
  "mapping_insert source_idx m = assertR (source_idx < length (src_to_dst m))
     (let dest_idx = src_to_dst m ! source_idx in
      Inr (if dest_idx \<noteq> not_fount
           then m\<lparr>src_to_dst := (src_to_dst m)[source_idx := not_fount],
                  dst_to_src := (dst_to_src m)[dest_idx := not_fount],
                  im_stamps := (im_stamps m)[dest_idx := 0]\<rparr>
           else m))"

text \<open>The destination \<open>use\<close> takes for a source that has none, and the mapping without its old source.\<close>

definition mapping_slot :: "index_mapping \<Rightarrow> (nat \<times> index_mapping) res" where
  "mapping_slot m =
     (if im_entries m < im_max_entries m
      then Inr (im_entries m, m\<lparr>im_entries := im_entries m + 1\<rparr>)
      else assertR (im_max_entries m > 0)
        (let dest_idx = oldest (take (im_entries m) (im_stamps m));
             old_source_id = dst_to_src m ! dest_idx
         in Inr (dest_idx, if old_source_id \<noteq> not_fount
              then m\<lparr>src_to_dst := (src_to_dst m)[old_source_id := not_fount]\<rparr> else m)))"

text \<open>The result is \<open>CacheResult\<close>: the destination and whether the client holds the source already.\<close>

definition mapping_use :: "nat \<Rightarrow> index_mapping \<Rightarrow> ((nat \<times> bool) \<times> index_mapping) res" where
  "mapping_use source_idx m0 = assertR (source_idx < length (src_to_dst m0))
     (let m = m0\<lparr>im_stamp := im_stamp m0 + 1\<rparr>;
          dest_idx = src_to_dst m ! source_idx in
      if dest_idx \<noteq> not_fount
      then Inr ((dest_idx, True), m\<lparr>im_stamps := (im_stamps m)[dest_idx := im_stamp m]\<rparr>)
      else bindR (mapping_slot m) (\<lambda>(dest_idx, m).
        Inr ((dest_idx, False),
          m\<lparr>src_to_dst := (src_to_dst m)[source_idx := dest_idx],
            dst_to_src := (dst_to_src m)[dest_idx := source_idx],
            im_stamps := (im_stamps m)[dest_idx := im_stamp m]\<rparr>)))"

subsection \<open>What a mapping promises\<close>

locale index_cache =
  fixes insert :: "nat \<Rightarrow> 'm \<Rightarrow> 'm res"
    and use :: "nat \<Rightarrow> 'm \<Rightarrow> ((nat \<times> bool) \<times> 'm) res"
    and lookup :: "'m \<Rightarrow> nat \<Rightarrow> nat option"
    and ok :: "'m \<Rightarrow> bool"
    and size_of :: "'m \<Rightarrow> nat"
    and slots :: "'m \<Rightarrow> nat"
  assumes lookup_inj: "ok m \<Longrightarrow> lookup m s = Some d \<Longrightarrow> lookup m s' = Some d \<Longrightarrow> s = s'"
    and insert_law: "ok m \<Longrightarrow> s < size_of m \<Longrightarrow>
      \<exists>m'. insert s m = Inr m' \<and> ok m' \<and> size_of m' = size_of m \<and> slots m' = slots m
        \<and> lookup m' = (lookup m)(s := None)"
    and use_law: "ok m \<Longrightarrow> s < size_of m \<Longrightarrow> 0 < slots m \<Longrightarrow>
      \<exists>d m'. use s m = Inr ((d, lookup m s \<noteq> None), m') \<and> ok m' \<and> size_of m' = size_of m \<and> slots m' = slots m
        \<and> d < slots m \<and> lookup m' s = Some d \<and> (\<forall>d'. lookup m s = Some d' \<longrightarrow> d' = d)
        \<and> (\<forall>s'. s' \<noteq> s \<longrightarrow> lookup m' s' = (if lookup m s' = Some d then None else lookup m s'))"
begin

text \<open>\<open>dst\<close>, what the client holds, is a copy of the sources the mapping says it holds.\<close>

definition mirrors :: "'m \<Rightarrow> (nat \<Rightarrow> 'p) \<Rightarrow> (nat \<Rightarrow> 'p option) \<Rightarrow> bool" where
  "mirrors m src dst \<longleftrightarrow> (\<forall>s d. lookup m s = Some d \<longrightarrow> dst d = Some (src s))"

lemma insert_mirrors:
  assumes "ok m" "s < size_of m" "mirrors m src dst"
  obtains m' where "insert s m = Inr m'" "ok m'" "size_of m' = size_of m" "slots m' = slots m"
    "mirrors m' (src(s := p)) dst" "lookup m' s = None"
  using insert_law [OF assms(1,2)] assms(3) by (force simp: mirrors_def)

lemma use_mirrors:
  assumes "ok m" "s < size_of m" "0 < slots m" "mirrors m src dst"
  obtains d hit m' where "use s m = Inr ((d, hit), m')" "ok m'" "size_of m' = size_of m" "slots m' = slots m"
    "d < slots m" "hit = (lookup m s \<noteq> None)" "hit \<Longrightarrow> dst d = Some (src s)"
    "mirrors m' src (dst(d := Some (src s)))"
proof -
  from use_law [OF assms(1-3)] obtain d m' where
    u: "use s m = Inr ((d, lookup m s \<noteq> None), m')" "ok m'" "size_of m' = size_of m" "slots m' = slots m"
      "d < slots m" "lookup m' s = Some d" "\<forall>d'. lookup m s = Some d' \<longrightarrow> d' = d"
      "\<forall>s'. s' \<noteq> s \<longrightarrow> lookup m' s' = (if lookup m s' = Some d then None else lookup m s')" by blast
  have hit: "dst d = Some (src s)" if "lookup m s \<noteq> None"
    using that u(7) assms(4) by (auto simp: mirrors_def)
  have "(dst(d := Some (src s))) d' = Some (src s')" if "lookup m' s' = Some d'" for s' d'
    using that u(6,8) assms(4) by (cases "s' = s") (auto simp: mirrors_def split: if_splits)
  then have "mirrors m' src (dst(d := Some (src s)))" by (simp add: mirrors_def)
  with u hit show ?thesis using that by blast
qed

end
subsection \<open>The mapping keeps its promise\<close>

text \<open>The two arrays are inverse to each other, and the destinations in use are the first \<open>entries\<close>.\<close>

definition mapping_ok :: "index_mapping \<Rightarrow> bool" where
  "mapping_ok m \<longleftrightarrow> (let n = length (src_to_dst m) in
     n \<le> not_fount \<and> length (dst_to_src m) = n \<and> length (im_stamps m) = n
     \<and> im_entries m \<le> im_max_entries m \<and> im_max_entries m \<le> n
     \<and> (\<forall>s<n. src_to_dst m ! s = not_fount \<or> src_to_dst m ! s < im_entries m \<and> dst_to_src m ! (src_to_dst m ! s) = s)
     \<and> (\<forall>d<n. dst_to_src m ! d = not_fount \<or> dst_to_src m ! d < n \<and> src_to_dst m ! (dst_to_src m ! d) = d))"

definition mapping_lookup :: "index_mapping \<Rightarrow> nat \<Rightarrow> nat option" where
  "mapping_lookup m s =
     (if s < length (src_to_dst m) \<and> src_to_dst m ! s \<noteq> not_fount then Some (src_to_dst m ! s) else None)"

definition mapping_size :: "index_mapping \<Rightarrow> nat" where
  "mapping_size m = length (src_to_dst m)"

lemma mapping_okD:
  assumes "mapping_ok m"
  shows "length (src_to_dst m) \<le> not_fount" "length (dst_to_src m) = length (src_to_dst m)"
    "length (im_stamps m) = length (src_to_dst m)" "im_entries m \<le> im_max_entries m"
    "im_max_entries m \<le> length (src_to_dst m)"
    "s < length (src_to_dst m) \<Longrightarrow> src_to_dst m ! s \<noteq> not_fount \<Longrightarrow>
       src_to_dst m ! s < im_entries m \<and> dst_to_src m ! (src_to_dst m ! s) = s"
    "d < length (src_to_dst m) \<Longrightarrow> dst_to_src m ! d \<noteq> not_fount \<Longrightarrow>
       dst_to_src m ! d < length (src_to_dst m) \<and> src_to_dst m ! (dst_to_src m ! d) = d"
  using assms by (auto simp: mapping_ok_def Let_def)

lemma mk_mapping_ok:
  assumes "n \<le> capacity" "capacity \<le> not_fount"
  obtains m where "mk_mapping capacity n = Inr m" "mapping_ok m" "mapping_size m = capacity"
    "im_max_entries m = n" "mapping_lookup m = (\<lambda>_. None)"
proof
  let ?m = "\<lparr>src_to_dst = replicate capacity not_fount, dst_to_src = replicate capacity not_fount,
       im_stamps = replicate capacity 0, im_max_entries = n, im_entries = 0, im_stamp = 0\<rparr>"
  show "mk_mapping capacity n = Inr ?m" using assms by (simp add: mk_mapping_def)
  show "mapping_ok ?m" "mapping_size ?m = capacity" "im_max_entries ?m = n" "mapping_lookup ?m = (\<lambda>_. None)"
    using assms by (auto simp: mapping_ok_def mapping_size_def mapping_lookup_def)
qed

lemma mapping_insert_law:
  assumes ok: "mapping_ok m" and s: "s < mapping_size m"
  shows "\<exists>m'. mapping_insert s m = Inr m' \<and> mapping_ok m' \<and> mapping_size m' = mapping_size m
    \<and> im_max_entries m' = im_max_entries m \<and> mapping_lookup m' = (mapping_lookup m)(s := None)"
proof (cases "src_to_dst m ! s = not_fount")
  case True
  with ok s show ?thesis
    by (auto simp: mapping_insert_def mapping_size_def mapping_lookup_def)
next
  case False
  note D = mapping_okD [OF ok]
  let ?d = "src_to_dst m ! s"
  from D(6) [OF s [unfolded mapping_size_def] False] D(4,5)
  have d: "?d < length (src_to_dst m)" "dst_to_src m ! ?d = s" by auto
  let ?m = "m\<lparr>src_to_dst := (src_to_dst m)[s := not_fount], dst_to_src := (dst_to_src m)[?d := not_fount],
    im_stamps := (im_stamps m)[?d := 0]\<rparr>"
  have "mapping_ok ?m"
    unfolding mapping_ok_def Let_def
  proof (intro conjI allI impI)
    fix s' assume "s' < length (src_to_dst ?m)"
    then have s': "s' < length (src_to_dst m)" by simp
    then show "src_to_dst ?m ! s' = not_fount \<or> src_to_dst ?m ! s' < im_entries ?m \<and> dst_to_src ?m ! (src_to_dst ?m ! s') = s'"
      using D(6) [OF s'] d D(2) by (cases "s' = s") (auto simp: nth_list_update)
  next
    fix d' assume "d' < length (src_to_dst ?m)"
    then have d': "d' < length (src_to_dst m)" by simp
    then show "dst_to_src ?m ! d' = not_fount \<or> dst_to_src ?m ! d' < length (src_to_dst ?m) \<and> src_to_dst ?m ! (dst_to_src ?m ! d') = d'"
      using D(7) [OF d'] d D(2) by (cases "d' = ?d"; cases "dst_to_src m ! d' = s") (auto simp: nth_list_update)
  qed (use D in simp_all)
  moreover have "mapping_lookup ?m = (mapping_lookup m)(s := None)"
    by (rule ext) (auto simp: mapping_lookup_def nth_list_update)
  ultimately show ?thesis
    using s False by (simp add: mapping_insert_def mapping_size_def Let_def)
qed

text \<open>A mapping in which no source has the destination \<open>d\<close>, ready to be given one.\<close>

definition free_at :: "nat \<Rightarrow> index_mapping \<Rightarrow> bool" where
  "free_at d m \<longleftrightarrow> (let n = length (src_to_dst m) in
     n \<le> not_fount \<and> length (dst_to_src m) = n \<and> length (im_stamps m) = n
     \<and> d < im_entries m \<and> im_entries m \<le> im_max_entries m \<and> im_max_entries m \<le> n
     \<and> (\<forall>s<n. src_to_dst m ! s = not_fount \<or> src_to_dst m ! s \<noteq> d \<and> src_to_dst m ! s < im_entries m
           \<and> dst_to_src m ! (src_to_dst m ! s) = s)
     \<and> (\<forall>d'<n. d' = d \<or> dst_to_src m ! d' = not_fount \<or> dst_to_src m ! d' < n \<and> src_to_dst m ! (dst_to_src m ! d') = d'))"

lemma free_at_ok:
  assumes f: "free_at d m" and s: "s < length (src_to_dst m)" "src_to_dst m ! s = not_fount"
  shows "mapping_ok (m\<lparr>src_to_dst := (src_to_dst m)[s := d], dst_to_src := (dst_to_src m)[d := s],
    im_stamps := (im_stamps m)[d := t]\<rparr>)" (is "mapping_ok ?m")
  unfolding mapping_ok_def Let_def
proof (intro conjI allI impI)
  fix s' assume "s' < length (src_to_dst ?m)"
  then show "src_to_dst ?m ! s' = not_fount \<or> src_to_dst ?m ! s' < im_entries ?m \<and> dst_to_src ?m ! (src_to_dst ?m ! s') = s'"
    using f by (cases "s' = s") (auto simp: free_at_def Let_def nth_list_update)
next
  fix d' assume d: "d' < length (src_to_dst ?m)"
  then have "dst_to_src m ! d' \<noteq> s" if "d' \<noteq> d"
    using f s that by (auto simp: free_at_def Let_def)
  with d s show "dst_to_src ?m ! d' = not_fount \<or> dst_to_src ?m ! d' < length (src_to_dst ?m) \<and> src_to_dst ?m ! (dst_to_src ?m ! d') = d'"
    using f by (cases "d' = d") (auto simp: free_at_def Let_def nth_list_update)
qed (use f in \<open>simp_all add: free_at_def Let_def\<close>)

lemma mapping_slot_law:
  assumes ok: "mapping_ok m" and pos: "0 < im_max_entries m"
  obtains d m1 where "mapping_slot m = Inr (d, m1)" "free_at d m1" "d < im_max_entries m"
    "mapping_size m1 = mapping_size m" "im_max_entries m1 = im_max_entries m" "im_stamp m1 = im_stamp m"
    "\<And>s. mapping_lookup m1 s = (if mapping_lookup m s = Some d then None else mapping_lookup m s)"
proof (cases "im_entries m < im_max_entries m")
  case True
  note D = mapping_okD [OF ok]
  let ?d = "im_entries m" and ?m = "m\<lparr>im_entries := im_entries m + 1\<rparr>"
  have "free_at ?d ?m"
    using ok True unfolding mapping_ok_def free_at_def Let_def by (auto simp: less_Suc_eq)
  moreover have "mapping_lookup m s \<noteq> Some ?d" for s
    using D(6) [of s] by (auto simp: mapping_lookup_def)
  ultimately show ?thesis
    using True by (intro that [of ?d ?m]) (simp_all add: mapping_slot_def mapping_lookup_def mapping_size_def)
next
  case False
  note D = mapping_okD [OF ok]
  let ?ts = "take (im_entries m) (im_stamps m)"
  let ?d = "oldest ?ts"
  have "?ts \<noteq> []" using False pos D(3,4,5) by auto
  from oldest_least(1) [OF this] have d: "?d < im_entries m" by simp
  then have dn: "?d < length (src_to_dst m)" using D(4,5) by simp
  define old where "old = dst_to_src m ! ?d"
  define m1 where "m1 = (if old \<noteq> not_fount then m\<lparr>src_to_dst := (src_to_dst m)[old := not_fount]\<rparr> else m)"
  have old: "old < length (src_to_dst m)" "src_to_dst m ! old = ?d" if "old \<noteq> not_fount"
    using D(7) [OF dn] that by (auto simp: old_def)
  have only: "s = old" if "s < length (src_to_dst m)" "src_to_dst m ! s = ?d" for s
    using D(6) [OF that(1)] that(2) dn D(1) by (auto simp: old_def)
  have sizes: "mapping_size m1 = mapping_size m" "im_max_entries m1 = im_max_entries m" "im_stamp m1 = im_stamp m"
      "im_entries m1 = im_entries m" "dst_to_src m1 = dst_to_src m" "im_stamps m1 = im_stamps m"
      "length (src_to_dst m1) = length (src_to_dst m)"
    by (simp_all add: m1_def mapping_size_def)
  have nth: "src_to_dst m1 ! s = (if src_to_dst m ! s = ?d then not_fount else src_to_dst m ! s)"
    if "s < length (src_to_dst m)" for s
    using that only [OF that] old D(1) by (auto simp: m1_def nth_list_update)
  have "free_at ?d m1"
    unfolding free_at_def Let_def sizes
  proof (intro conjI allI impI)
    fix s assume s: "s < length (src_to_dst m)"
    show "src_to_dst m1 ! s = not_fount \<or> src_to_dst m1 ! s \<noteq> ?d \<and> src_to_dst m1 ! s < im_entries m
        \<and> dst_to_src m ! (src_to_dst m1 ! s) = s"
      using D(6) [OF s] nth [OF s] by auto
  next
    fix d' assume d': "d' < length (src_to_dst m)"
    show "d' = ?d \<or> dst_to_src m ! d' = not_fount
        \<or> dst_to_src m ! d' < length (src_to_dst m) \<and> src_to_dst m1 ! (dst_to_src m ! d') = d'"
      using D(7) [OF d'] nth [of "dst_to_src m ! d'"] by auto
  qed (use D d in simp_all)
  moreover have "mapping_lookup m1 s = (if mapping_lookup m s = Some ?d then None else mapping_lookup m s)" for s
    using nth [of s] dn D(1) by (auto simp: mapping_lookup_def sizes split: if_splits)
  ultimately show ?thesis
    using False pos d D(4) sizes
    by (intro that [of ?d m1]) (simp_all add: mapping_slot_def Let_def old_def m1_def)
qed

lemma mapping_lookupD:
  assumes "mapping_ok m" "mapping_lookup m s = Some d"
  shows "dst_to_src m ! d = s" "d < im_entries m"
  using mapping_okD(6) [OF assms(1), of s] assms(2) by (auto simp: mapping_lookup_def split: if_splits)

lemma mapping_lookup_inj:
  "mapping_ok m \<Longrightarrow> mapping_lookup m s = Some d \<Longrightarrow> mapping_lookup m s' = Some d \<Longrightarrow> s = s'"
  using mapping_lookupD(1) by metis

lemma mapping_use_law:
  assumes ok: "mapping_ok m" and s: "s < mapping_size m" and pos: "0 < im_max_entries m"
  shows "\<exists>d m'. mapping_use s m = Inr ((d, mapping_lookup m s \<noteq> None), m') \<and> mapping_ok m'
    \<and> mapping_size m' = mapping_size m \<and> im_max_entries m' = im_max_entries m
    \<and> d < im_max_entries m \<and> mapping_lookup m' s = Some d \<and> (\<forall>d'. mapping_lookup m s = Some d' \<longrightarrow> d' = d)
    \<and> (\<forall>s'. s' \<noteq> s \<longrightarrow> mapping_lookup m' s' = (if mapping_lookup m s' = Some d then None else mapping_lookup m s'))"
proof (cases "src_to_dst m ! s = not_fount")
  case False
  note D = mapping_okD [OF ok]
  let ?d = "src_to_dst m ! s"
  let ?m = "m\<lparr>im_stamp := im_stamp m + 1, im_stamps := (im_stamps m)[?d := im_stamp m + 1]\<rparr>"
  have "mapping_ok ?m" using ok by (simp add: mapping_ok_def)
  moreover have "mapping_lookup ?m = mapping_lookup m" by (rule ext) (simp add: mapping_lookup_def)
  moreover have look: "mapping_lookup m s = Some ?d" using s False by (simp add: mapping_lookup_def mapping_size_def)
  moreover have "s' = s" if "mapping_lookup m s' = Some ?d" for s'
    using mapping_lookup_inj [OF ok that look] .
  moreover have "mapping_use s m = Inr ((?d, mapping_lookup m s \<noteq> None), ?m)"
    using s False look by (simp add: mapping_use_def mapping_size_def Let_def)
  moreover have "?d < im_max_entries m" using s False D(4) D(6) [of s] by (simp add: mapping_size_def)
  ultimately show ?thesis
    by (intro exI [of _ ?d] exI [of _ ?m]) (auto simp: mapping_size_def)
next
  case True
  let ?m0 = "m\<lparr>im_stamp := im_stamp m + 1\<rparr>"
  have ok0: "mapping_ok ?m0" using ok by (simp add: mapping_ok_def)
  have l0: "mapping_lookup ?m0 = mapping_lookup m" by (rule ext) (simp add: mapping_lookup_def)
  obtain d m1 where m1: "mapping_slot ?m0 = Inr (d, m1)" "free_at d m1" "d < im_max_entries m"
    "mapping_size m1 = mapping_size m" "im_max_entries m1 = im_max_entries m" "im_stamp m1 = im_stamp m + 1"
    "\<And>s. mapping_lookup m1 s = (if mapping_lookup m s = Some d then None else mapping_lookup m s)"
    using mapping_slot_law [OF ok0] pos unfolding l0 by (auto simp: mapping_size_def)
  have none: "mapping_lookup m s = None" using True by (simp add: mapping_lookup_def)
  with m1(7) [of s] have s1: "s < length (src_to_dst m1)" "src_to_dst m1 ! s = not_fount"
    using s m1(4) by (auto simp: mapping_lookup_def mapping_size_def split: if_splits)
  let ?m = "m1\<lparr>src_to_dst := (src_to_dst m1)[s := d], dst_to_src := (dst_to_src m1)[d := s],
      im_stamps := (im_stamps m1)[d := im_stamp m1]\<rparr>"
  have "d \<noteq> not_fount" using m1(2) by (auto simp: free_at_def Let_def)
  then have "mapping_lookup ?m s' = (if s' = s then Some d else mapping_lookup m1 s')" for s'
    using s1 by (auto simp: mapping_lookup_def)
  moreover have "mapping_use s m = Inr ((d, False), ?m)"
    using True s m1(1) by (simp add: mapping_use_def mapping_size_def)
  ultimately show ?thesis
    using free_at_ok [OF m1(2) s1, of "im_stamp m1"] m1 none
    by (intro exI [of _ d] exI [of _ ?m]) (auto simp: mapping_size_def)
qed

interpretation mapping: index_cache mapping_insert mapping_use mapping_lookup mapping_ok mapping_size im_max_entries
  by unfold_locales (rule mapping_lookup_inj mapping_insert_law mapping_use_law; assumption)+

subsection \<open>PointerCache\<close>

text \<open>
  \<open>gdi::CachePointerIndex\<close> is a \<open>uint16_t\<close>: below 25 a pointer of the source, from 25 on one of the eleven
  predefined pointers. \<open>Normal\<close> is 0, \<open>SystemNormal\<close> 2, \<open>Null\<close> 3. The first constructor asserts its
  range, the second is \<open>predefined\<close>.
\<close>

abbreviation MAX_POINTER_COUNT :: nat where "MAX_POINTER_COUNT \<equiv> 25"
abbreviation RESERVED_POINTER_COUNT :: nat where "RESERVED_POINTER_COUNT \<equiv> 11"
abbreviation (input) SystemNormal :: nat where "SystemNormal \<equiv> 2"
abbreviation (input) NullPointer :: nat where "NullPointer \<equiv> 3"

definition mk_pointer_index :: "u16 \<Rightarrow> nat res" where
  "mk_pointer_index idx = assertR (unat idx < MAX_POINTER_COUNT) (Inr (unat idx))"

definition predefined :: "nat \<Rightarrow> nat" where
  "predefined k = MAX_POINTER_COUNT + k"

definition is_predefined_pointer :: "nat \<Rightarrow> bool" where
  "is_predefined_pointer idx \<longleftrightarrow> idx \<ge> MAX_POINTER_COUNT"

text \<open>
  The pointers are of any type \<open>'p\<close>: the cache stores them and never looks inside. An entry that was
  never set is a default-constructed \<open>RdpPointer\<close>, here \<open>None\<close>.
\<close>

record 'p pointer_cache =
  pc_mapping :: index_mapping
  pc_pointers :: "'p option list"

definition mk_pointer_cache :: "nat \<Rightarrow> 'p pointer_cache res" where
  "mk_pointer_cache pointer_cache_entries =
     bindR (mk_mapping (MAX_POINTER_COUNT + RESERVED_POINTER_COUNT) pointer_cache_entries)
       (\<lambda>m. Inr \<lparr>pc_mapping = m, pc_pointers = replicate MAX_POINTER_COUNT None\<rparr>)"

definition pointer_check :: "nat \<Rightarrow> nat \<Rightarrow> 'a res \<Rightarrow> 'a res" where
  "pointer_check idx bound m = (if idx \<ge> bound then Inl ERR_RDP_PROCESS_POINTER_CACHE_NOT_OK else m)"

definition pointer_insert :: "nat \<Rightarrow> 'p \<Rightarrow> 'p pointer_cache \<Rightarrow> 'p pointer_cache res" where
  "pointer_insert idx cursor pc =
     pointer_check idx MAX_POINTER_COUNT
       (let pc = pc\<lparr>pc_pointers := (pc_pointers pc)[idx := Some cursor]\<rparr> in
        bindR (mapping_insert idx (pc_mapping pc)) (\<lambda>m. Inr (pc\<lparr>pc_mapping := m\<rparr>)))"

definition insert_and_use :: "nat \<Rightarrow> 'p \<Rightarrow> 'p pointer_cache \<Rightarrow> (nat \<times> 'p pointer_cache) res" where
  "insert_and_use idx cursor pc =
     bindR (pointer_insert idx cursor pc) (\<lambda>pc.
     bindR (mapping_use idx (pc_mapping pc)) (\<lambda>((d, is_cached), m).
     assertR (\<not> is_cached) (Inr (d, pc\<lparr>pc_mapping := m\<rparr>))))"

text \<open>\<open>use\<close> is \<open>noexcept\<close>: the exception of its \<open>check\<close> ends the process, here \<open>UB\<close>.\<close>

definition pointer_use :: "nat \<Rightarrow> 'p pointer_cache \<Rightarrow> ((nat \<times> bool) \<times> 'p pointer_cache) res" where
  "pointer_use idx pc = assertR (idx < MAX_POINTER_COUNT + RESERVED_POINTER_COUNT)
     (bindR (mapping_use idx (pc_mapping pc)) (\<lambda>(r, m). Inr (r, pc\<lparr>pc_mapping := m\<rparr>)))"

definition pointer_at :: "(nat \<Rightarrow> 'p) \<Rightarrow> nat \<Rightarrow> 'p pointer_cache \<Rightarrow> 'p option res" where
  "pointer_at predef idx pc = assertR (idx < MAX_POINTER_COUNT + RESERVED_POINTER_COUNT)
     (Inr (if is_predefined_pointer idx then Some (predef (idx - MAX_POINTER_COUNT)) else pc_pointers pc ! idx))"

definition set_pointers :: "'p option list \<Rightarrow> 'p pointer_cache \<Rightarrow> 'p pointer_cache" where
  "set_pointers ps pc = pc\<lparr>pc_pointers := ps\<rparr>"

subsection \<open>Pointer updates\<close>

text \<open>The updates \<open>GraphicsUpdatePDU\<close> sends; \<open>send_pointer\<close> asserts that the pointer is not empty.\<close>

datatype 'p pointer_update = PointerUpdate nat 'p | CachedUpdate nat | SystemUpdate nat

definition send_pointer :: "nat \<Rightarrow> 'p option \<Rightarrow> 'p pointer_update res" where
  "send_pointer idx cursor = (case cursor of None \<Rightarrow> Inl UB | Some p \<Rightarrow> Inr (PointerUpdate idx p))"

definition cached_pointer :: "(nat \<Rightarrow> 'p) \<Rightarrow> nat \<Rightarrow> 'p pointer_cache \<Rightarrow> ('p pointer_update \<times> 'p pointer_cache) res" where
  "cached_pointer predef cache_idx pc =
     (if is_predefined_pointer cache_idx
         \<and> (cache_idx - MAX_POINTER_COUNT = SystemNormal \<or> cache_idx - MAX_POINTER_COUNT = NullPointer)
      then Inr (SystemUpdate (cache_idx - MAX_POINTER_COUNT), pc)
      else bindR (pointer_use cache_idx pc) (\<lambda>((idx, is_cached), pc).
        if is_cached then Inr (CachedUpdate idx, pc)
        else bindR (pointer_at predef cache_idx pc) (\<lambda>p.
             bindR (send_pointer idx p) (\<lambda>u. Inr (u, pc)))))"

definition new_pointer :: "nat \<Rightarrow> 'p \<Rightarrow> 'p pointer_cache \<Rightarrow> ('p pointer_update \<times> 'p pointer_cache) res" where
  "new_pointer cache_idx cursor pc =
     bindR (insert_and_use cache_idx cursor pc) (\<lambda>(idx, pc).
     bindR (send_pointer idx (Some cursor)) (\<lambda>u. Inr (u, pc)))"

text \<open>What \<open>mod_rdp\<close> makes of the index in a cached pointer update of the target.\<close>

definition process_cached_pointer_pdu ::
  "(nat \<Rightarrow> 'p) \<Rightarrow> instream \<Rightarrow> 'p pointer_cache \<Rightarrow> (('p pointer_update \<times> 'p pointer_cache) \<times> instream) res" where
  "process_cached_pointer_pdu predef s pc =
     bindR (in_uint16_le s) (\<lambda>(pointer_idx, s).
     bindR (mk_pointer_index pointer_idx) (\<lambda>idx.
     bindR (cached_pointer predef idx pc) (\<lambda>r. Inr (r, s))))"

subsection \<open>A session\<close>

datatype 'p pointer_op = NewPointer nat 'p | UsePointer nat

definition pointer_step ::
  "(nat \<Rightarrow> 'p) \<Rightarrow> 'p pointer_op \<Rightarrow> 'p pointer_cache \<Rightarrow> ('p pointer_update \<times> 'p pointer_cache) res" where
  "pointer_step predef op pc =
     (case op of NewPointer i p \<Rightarrow> new_pointer i p pc | UsePointer i \<Rightarrow> cached_pointer predef i pc)"

fun pointer_run ::
  "(nat \<Rightarrow> 'p) \<Rightarrow> 'p pointer_op list \<Rightarrow> 'p pointer_cache \<Rightarrow> ('p pointer_update list \<times> 'p pointer_cache) res" where
  "pointer_run predef [] pc = Inr ([], pc)"
| "pointer_run predef (op # ops) pc =
     bindR (pointer_step predef op pc) (\<lambda>(u, pc).
     bindR (pointer_run predef ops pc) (\<lambda>(us, pc). Inr (u # us, pc)))"

text \<open>
  The client of the protocol: a pointer update is stored and shown, a cached update shows what is
  stored. \<open>shown\<close> is the sequence of pointers on its screen, \<open>meant\<close> the sequence the source asked for.
\<close>

fun shown :: "(nat \<Rightarrow> 'p) \<Rightarrow> 'p pointer_update list \<Rightarrow> (nat \<Rightarrow> 'p option) \<Rightarrow> 'p option list" where
  "shown predef [] cache = []"
| "shown predef (PointerUpdate d p # us) cache = Some p # shown predef us (cache(d \<mapsto> p))"
| "shown predef (CachedUpdate d # us) cache = cache d # shown predef us cache"
| "shown predef (SystemUpdate k # us) cache = Some (predef k) # shown predef us cache"

fun meant :: "(nat \<Rightarrow> 'p) \<Rightarrow> 'p pointer_op list \<Rightarrow> (nat \<Rightarrow> 'p option) \<Rightarrow> 'p option list" where
  "meant predef [] src = []"
| "meant predef (NewPointer i p # ops) src = Some p # meant predef ops (src(i \<mapsto> p))"
| "meant predef (UsePointer i # ops) src = src i # meant predef ops src"

definition op_ok :: "'p pointer_op \<Rightarrow> bool" where
  "op_ok op = (case op of NewPointer i p \<Rightarrow> i < MAX_POINTER_COUNT
     | UsePointer i \<Rightarrow> i < MAX_POINTER_COUNT + RESERVED_POINTER_COUNT)"

definition slot_ok :: "nat \<Rightarrow> 'p pointer_update \<Rightarrow> bool" where
  "slot_ok n u = (case u of PointerUpdate d p \<Rightarrow> d < n | CachedUpdate d \<Rightarrow> d < n | SystemUpdate k \<Rightarrow> True)"

text \<open>All the sources, predefined ones included.\<close>

definition sources :: "(nat \<Rightarrow> 'p) \<Rightarrow> 'p option list \<Rightarrow> nat \<Rightarrow> 'p option" where
  "sources predef ps i =
     (if is_predefined_pointer i then Some (predef (i - MAX_POINTER_COUNT)) else ps ! i)"

definition held :: "(nat \<Rightarrow> 'p option) \<Rightarrow> nat \<Rightarrow> 'p option option" where
  "held cache = map_option Some \<circ> cache"

lemma held_upd: "held (cache(d \<mapsto> p)) = (held cache)(d := Some (Some p))"
  by (simp add: held_def fun_upd_comp)

definition in_mirror :: "nat \<Rightarrow> (nat \<Rightarrow> 'p) \<Rightarrow> 'p pointer_cache \<Rightarrow> (nat \<Rightarrow> 'p option) \<Rightarrow> bool" where
  "in_mirror n predef pc cache \<longleftrightarrow> mapping_ok (pc_mapping pc)
     \<and> mapping_size (pc_mapping pc) = MAX_POINTER_COUNT + RESERVED_POINTER_COUNT
     \<and> im_max_entries (pc_mapping pc) = n \<and> 0 < n \<and> length (pc_pointers pc) = MAX_POINTER_COUNT
     \<and> mapping.mirrors (pc_mapping pc) (sources predef (pc_pointers pc)) (held cache)"

lemma sources_upd:
  assumes "i < MAX_POINTER_COUNT" "length ps = MAX_POINTER_COUNT"
  shows "sources predef (ps[i := x]) = (sources predef ps)(i := x)"
  using assms by (auto simp: sources_def is_predefined_pointer_def fun_eq_iff nth_list_update)

lemma use_in_mirror:
  assumes "in_mirror n predef pc cache" "i < MAX_POINTER_COUNT + RESERVED_POINTER_COUNT"
    and src: "sources predef (pc_pointers pc) i = Some p"
  obtains d m' where "mapping_use i (pc_mapping pc) = Inr ((d, mapping_lookup (pc_mapping pc) i \<noteq> None), m')" "d < n"
    "in_mirror n predef (pc\<lparr>pc_mapping := m'\<rparr>) (cache(d \<mapsto> p))"
    "mapping_lookup (pc_mapping pc) i \<noteq> None \<Longrightarrow> cache d = Some p"
proof -
  note inv = assms(1) [unfolded in_mirror_def]
  obtain d hit m' where u: "mapping_use i (pc_mapping pc) = Inr ((d, hit), m')" "mapping_ok m'"
    "mapping_size m' = mapping_size (pc_mapping pc)" "im_max_entries m' = im_max_entries (pc_mapping pc)"
    "d < im_max_entries (pc_mapping pc)" "hit = (mapping_lookup (pc_mapping pc) i \<noteq> None)"
    "hit \<Longrightarrow> held cache d = Some (sources predef (pc_pointers pc) i)"
    "mapping.mirrors m' (sources predef (pc_pointers pc)) ((held cache)(d := Some (sources predef (pc_pointers pc) i)))"
    using mapping.use_mirrors [of "pc_mapping pc" i "sources predef (pc_pointers pc)" "held cache"] inv assms(2) by metis
  show ?thesis
  proof (rule that)
    show "mapping_use i (pc_mapping pc) = Inr ((d, mapping_lookup (pc_mapping pc) i \<noteq> None), m')" "d < n"
      using u inv by simp_all
    show "in_mirror n predef (pc\<lparr>pc_mapping := m'\<rparr>) (cache(d \<mapsto> p))"
      using u inv src by (simp add: in_mirror_def held_upd)
    show "cache d = Some p" if "mapping_lookup (pc_mapping pc) i \<noteq> None"
      using u(6,7) that src by (auto simp: held_def)
  qed
qed

lemma new_pointer_step:
  assumes "in_mirror n predef pc cache" "i < MAX_POINTER_COUNT"
  obtains d pc' where "new_pointer i p pc = Inr (PointerUpdate d p, pc')" "d < n"
    "in_mirror n predef pc' (cache(d \<mapsto> p))" "pc_pointers pc' = (pc_pointers pc)[i := Some p]"
proof -
  note inv = assms(1) [unfolded in_mirror_def]
  obtain m' where m': "mapping_insert i (pc_mapping pc) = Inr m'" "mapping_ok m'"
    "mapping_size m' = mapping_size (pc_mapping pc)" "im_max_entries m' = im_max_entries (pc_mapping pc)"
    "mapping.mirrors m' ((sources predef (pc_pointers pc))(i := Some p)) (held cache)" "mapping_lookup m' i = None"
    using mapping.insert_mirrors [of "pc_mapping pc" i "sources predef (pc_pointers pc)" "held cache" "Some p"] inv assms(2)
    by auto
  let ?pc = "pc\<lparr>pc_pointers := (pc_pointers pc)[i := Some p], pc_mapping := m'\<rparr>"
  have "in_mirror n predef ?pc cache"
    using inv m' assms(2) by (simp add: in_mirror_def sources_upd)
  moreover have "sources predef (pc_pointers ?pc) i = Some p"
    using inv assms(2) by (simp add: sources_upd)
  ultimately obtain d m2 where "mapping_use i m' = Inr ((d, False), m2)" "d < n"
      "in_mirror n predef (?pc\<lparr>pc_mapping := m2\<rparr>) (cache(d \<mapsto> p))"
    using use_in_mirror [of n predef ?pc cache i p] assms(2) m'(6) by auto
  then show ?thesis
    using m'(1) assms(2) by (intro that [of d "?pc\<lparr>pc_mapping := m2\<rparr>"])
      (simp_all add: new_pointer_def insert_and_use_def pointer_insert_def pointer_check_def send_pointer_def Let_def)
qed

lemma cached_pointer_step:
  assumes "in_mirror n predef pc cache" "i < MAX_POINTER_COUNT + RESERVED_POINTER_COUNT"
    and "sources predef (pc_pointers pc) i = Some p"
  obtains u pc' cache' where "cached_pointer predef i pc = Inr (u, pc')" "slot_ok n u"
    "in_mirror n predef pc' cache'" "pc_pointers pc' = pc_pointers pc"
    "\<And>us. shown predef (u # us) cache = Some p # shown predef us cache'"
proof (cases "is_predefined_pointer i \<and> (i - MAX_POINTER_COUNT = SystemNormal \<or> i - MAX_POINTER_COUNT = NullPointer)")
  case True
  then have "predef (i - MAX_POINTER_COUNT) = p" using assms(3) by (simp add: sources_def)
  with True assms(1) show ?thesis
    by (intro that [of "SystemUpdate (i - MAX_POINTER_COUNT)" pc cache]) (simp_all add: cached_pointer_def slot_ok_def)
next
  case False
  obtain d m' where u: "mapping_use i (pc_mapping pc) = Inr ((d, mapping_lookup (pc_mapping pc) i \<noteq> None), m')" "d < n"
    "in_mirror n predef (pc\<lparr>pc_mapping := m'\<rparr>) (cache(d \<mapsto> p))"
    "mapping_lookup (pc_mapping pc) i \<noteq> None \<Longrightarrow> cache d = Some p"
    using use_in_mirror [OF assms] by blast
  have at: "pointer_at predef i pc' = Inr (Some p)" if "pc_pointers pc' = pc_pointers pc" for pc'
    using assms(2,3) that by (auto simp: pointer_at_def sources_def)
  show ?thesis
  proof (cases "mapping_lookup (pc_mapping pc) i")
    case None
    with False u(1-3) assms(2) at [of "pc\<lparr>pc_mapping := m'\<rparr>"] show ?thesis
      by (intro that [of "PointerUpdate d p" "pc\<lparr>pc_mapping := m'\<rparr>" "cache(d \<mapsto> p)"])
        (simp_all add: cached_pointer_def pointer_use_def send_pointer_def slot_ok_def)
  next
    case (Some d')
    with u(4) have "cache d = Some p" by simp
    with Some False u(1-3) assms(2) show ?thesis
      by (intro that [of "CachedUpdate d" "pc\<lparr>pc_mapping := m'\<rparr>" cache])
        (simp_all add: cached_pointer_def pointer_use_def slot_ok_def fun_upd_idem)
  qed
qed

lemma pointer_run_mirrored:
  assumes "in_mirror n predef pc cache" "\<forall>op\<in>set ops. op_ok op"
    and "None \<notin> set (meant predef ops (sources predef (pc_pointers pc)))"
  shows "\<exists>us pc'. pointer_run predef ops pc = Inr (us, pc')
    \<and> shown predef us cache = meant predef ops (sources predef (pc_pointers pc)) \<and> (\<forall>u\<in>set us. slot_ok n u)"
  using assms
proof (induction ops arbitrary: pc cache)
  case (Cons op ops)
  show ?case
  proof (cases op)
    case (NewPointer i p)
    with Cons.prems(2) have i: "i < MAX_POINTER_COUNT" by (simp add: op_ok_def)
    obtain d pc' where s: "new_pointer i p pc = Inr (PointerUpdate d p, pc')" "d < n"
      "in_mirror n predef pc' (cache(d \<mapsto> p))" "pc_pointers pc' = (pc_pointers pc)[i := Some p]"
      using new_pointer_step [OF Cons.prems(1) i] by blast
    have src: "sources predef (pc_pointers pc') = (sources predef (pc_pointers pc))(i \<mapsto> p)"
      using s(4) i Cons.prems(1) by (simp add: sources_upd in_mirror_def)
    have "\<forall>op\<in>set ops. op_ok op" "None \<notin> set (meant predef ops (sources predef (pc_pointers pc')))"
      using Cons.prems(2,3) NewPointer by (simp_all add: src)
    from Cons.IH [OF s(3) this] obtain us pc2 where "pointer_run predef ops pc' = Inr (us, pc2)"
      "shown predef us (cache(d \<mapsto> p)) = meant predef ops ((sources predef (pc_pointers pc))(i \<mapsto> p))"
      "\<forall>u\<in>set us. slot_ok n u" unfolding src by blast
    then show ?thesis
      using NewPointer s(1,2) by (simp add: pointer_step_def slot_ok_def [of n "PointerUpdate d p"])
  next
    case (UsePointer i)
    with Cons.prems(2,3) obtain p where i: "i < MAX_POINTER_COUNT + RESERVED_POINTER_COUNT"
      "sources predef (pc_pointers pc) i = Some p" by (cases "sources predef (pc_pointers pc) i") (auto simp: op_ok_def)
    obtain u pc' cache' where s: "cached_pointer predef i pc = Inr (u, pc')" "slot_ok n u"
      "in_mirror n predef pc' cache'" "pc_pointers pc' = pc_pointers pc"
      "\<And>us. shown predef (u # us) cache = Some p # shown predef us cache'"
      using cached_pointer_step [OF Cons.prems(1) i] by blast
    have "\<exists>us pc2. pointer_run predef ops pc' = Inr (us, pc2)
        \<and> shown predef us cache' = meant predef ops (sources predef (pc_pointers pc)) \<and> (\<forall>u\<in>set us. slot_ok n u)"
      using Cons.IH [OF s(3)] Cons.prems(2,3) UsePointer s(4) by simp
    then show ?thesis
      using UsePointer s(1,2,5) i(2) by (auto simp: pointer_step_def)
  qed
qed simp

subsection \<open>Properties\<close>

text \<open>
  C29. The client's pointer cache mirrors the source's: whatever sequence of new and cached pointers the
  source asks for, however many more of them than the client has entries (1 to 25), every update is accepted,
  the client shows the pointer that was asked for each time, and no update names an entry the client
  does not have.
\<close>

theorem pointers_mirrored:
  assumes "0 < n" "n \<le> MAX_POINTER_COUNT" "\<forall>op\<in>set ops. op_ok op"
    and "None \<notin> set (meant predef ops (sources predef (replicate MAX_POINTER_COUNT None)))"
  shows "\<exists>pc us pc'. mk_pointer_cache n = Inr pc \<and> pointer_run predef ops pc = Inr (us, pc')
    \<and> shown predef us Map.empty = meant predef ops (sources predef (replicate MAX_POINTER_COUNT None))
    \<and> (\<forall>u\<in>set us. slot_ok n u)"
proof -
  obtain m where m: "mk_mapping (MAX_POINTER_COUNT + RESERVED_POINTER_COUNT) n = Inr m" "mapping_ok m"
    "mapping_size m = MAX_POINTER_COUNT + RESERVED_POINTER_COUNT" "im_max_entries m = n" "mapping_lookup m = (\<lambda>_. None)"
    using mk_mapping_ok [of n "MAX_POINTER_COUNT + RESERVED_POINTER_COUNT"] assms(2) by auto
  let ?pc = "\<lparr>pc_mapping = m, pc_pointers = replicate MAX_POINTER_COUNT None\<rparr>"
  have "in_mirror n predef ?pc Map.empty"
    using m assms(1) by (simp add: in_mirror_def mapping.mirrors_def)
  from pointer_run_mirrored [OF this assms(3)] assms(4) m(1) show ?thesis
    by (simp add: mk_pointer_cache_def)
qed

theorem pointers_mirrored_witness:
  "\<exists>pc us pc'. mk_pointer_cache 1 = Inr pc
    \<and> pointer_run id [NewPointer 3 7, NewPointer 4 8, UsePointer 3, UsePointer 3, UsePointer 27] pc = Inr (us, pc')
    \<and> shown id us Map.empty = meant id [NewPointer 3 (7::nat), NewPointer 4 8, UsePointer 3, UsePointer 3, UsePointer 27]
        (sources id (replicate MAX_POINTER_COUNT None))
    \<and> (\<forall>u\<in>set us. slot_ok 1 u)"
  by (rule pointers_mirrored) (simp_all add: op_ok_def sources_def is_predefined_pointer_def)

text \<open>
  The mapping is a bijection between the sources it says the client holds and a part of the client's
  entries; \<open>use\<close> returns the entry the source has, if it has one, and otherwise gives it an unused entry or that
  of one other source, all others keeping theirs; \<open>insert\<close> takes the entry from the source only.
\<close>

theorem mapping_use_insert:
  assumes "mapping_ok m" "s < mapping_size m" "0 < im_max_entries m"
  shows "inj_on (mapping_lookup m) {s. mapping_lookup m s \<noteq> None}
    \<and> (\<exists>d m'. mapping_use s m = Inr ((d, mapping_lookup m s \<noteq> None), m') \<and> mapping_ok m' \<and> d < im_max_entries m
      \<and> mapping_lookup m' = (\<lambda>s'. if s' = s then Some d else if mapping_lookup m s' = Some d then None else mapping_lookup m s')
      \<and> (mapping_lookup m s \<noteq> None \<longrightarrow> mapping_lookup m s = Some d))
    \<and> (\<exists>m'. mapping_insert s m = Inr m' \<and> mapping_ok m' \<and> mapping_lookup m' = (mapping_lookup m)(s := None))"
proof (intro conjI)
  show "inj_on (mapping_lookup m) {s. mapping_lookup m s \<noteq> None}"
    using mapping_lookup_inj [OF assms(1)] by (auto simp: inj_on_def)
  obtain d m' where "mapping_use s m = Inr ((d, mapping_lookup m s \<noteq> None), m')" "mapping_ok m'" "d < im_max_entries m"
    "mapping_lookup m' s = Some d" "\<forall>d'. mapping_lookup m s = Some d' \<longrightarrow> d' = d"
    "\<forall>s'. s' \<noteq> s \<longrightarrow> mapping_lookup m' s' = (if mapping_lookup m s' = Some d then None else mapping_lookup m s')"
    using mapping_use_law [OF assms] by blast
  then show "\<exists>d m'. mapping_use s m = Inr ((d, mapping_lookup m s \<noteq> None), m') \<and> mapping_ok m' \<and> d < im_max_entries m
      \<and> mapping_lookup m' = (\<lambda>s'. if s' = s then Some d else if mapping_lookup m s' = Some d then None else mapping_lookup m s')
      \<and> (mapping_lookup m s \<noteq> None \<longrightarrow> mapping_lookup m s = Some d)"
    by (intro exI [of _ d] exI [of _ m']) (auto simp: fun_eq_iff)
  show "\<exists>m'. mapping_insert s m = Inr m' \<and> mapping_ok m' \<and> mapping_lookup m' = (mapping_lookup m)(s := None)"
    using mapping_insert_law [OF assms(1,2)] by blast
qed

lemma sample_mapping_ok:
  "mapping_ok \<lparr>src_to_dst = [1, not_fount, 0], dst_to_src = [2, 0, not_fount], im_stamps = [5, 6, 0],
    im_max_entries = 2, im_entries = 2, im_stamp = 6\<rparr>"
  by (auto simp: mapping_ok_def less_Suc_eq numeral_3_eq_3 nth_Cons')

theorem mapping_use_insert_witness:
  "let m = \<lparr>src_to_dst = [1, not_fount, 0], dst_to_src = [2, 0, not_fount], im_stamps = [5, 6, 0],
    im_max_entries = 2, im_entries = 2, im_stamp = 6\<rparr> in
   \<exists>d m'. mapping_use 1 m = Inr ((d, mapping_lookup m 1 \<noteq> None), m') \<and> mapping_ok m' \<and> d < 2"
  using mapping_use_insert [OF sample_mapping_ok, of 1] by (auto simp: Let_def mapping_size_def)

text \<open>
  Neither of two numbers that come from outside is checked: a cached pointer update of the target with
  an index from 25 on violates the assertion of \<open>CachePointerIndex\<close> (36 and more end the process
  in \<open>use\<close> even without it), and a client that announces no entries breaks the first pointer sent to it.
\<close>

theorem pointer_numbers_unchecked:
  "process_cached_pointer_pdu predef (InStream c (36 # 0 # r)) pc = Inl UB \<and> pointer_use 36 pc = Inl UB
   \<and> (\<exists>pc0. mk_pointer_cache 0 = Inr pc0 \<and> new_pointer 0 p pc0 = Inl UB)"
proof (intro conjI)
  show "process_cached_pointer_pdu predef (InStream c (36 # 0 # r)) pc = Inl UB"
    by (simp add: process_cached_pointer_pdu_def mk_pointer_index_def)
  show "pointer_use 36 pc = Inl UB" by (simp add: pointer_use_def)
  show "\<exists>pc0. mk_pointer_cache 0 = Inr pc0 \<and> new_pointer 0 p pc0 = Inl UB"
    by (simp add: mk_pointer_cache_def mk_mapping_def new_pointer_def insert_and_use_def pointer_insert_def
        pointer_check_def mapping_insert_def mapping_use_def mapping_slot_def Let_def)
qed

end
