(* ===== verification/Bitmaps.thy ===== *)
theory Bitmaps
  imports Order_Common
begin

text \<open>
  Bitmaps: \<open>DataBitmap\<close> (\<open>utils/bitmap_private_data.hpp\<close>), the constructors of \<open>Bitmap\<close> from
  uncompressed data and from a bitmap of another depth (\<open>utils/bitmap.cpp\<close>), and the colour
  conversions they use (\<open>utils/colors.hpp\<close>, \<open>utils/pixel_conversion.hpp\<close>). The hash function
  \<open>SslSha1\<close> is a wrapper of an external library: it is the argument \<open>sha\<close> of the definitions.
\<close>

subsection \<open>Colour depths\<close>

definition normalized_bpp :: "u8 \<Rightarrow> bool" where
  "normalized_bpp bpp \<longleftrightarrow> bpp = 8 \<or> bpp = 15 \<or> bpp = 16 \<or> bpp = 24 \<or> bpp = 32"

definition nb_bytes_per_pixel :: "u8 \<Rightarrow> nat" where
  "nb_bytes_per_pixel bpp = (unat bpp + 7) div 8"

definition align4 :: "u16 \<Rightarrow> u16" where
  "align4 v = (v + 3) AND NOT 3"

definition swap_rb :: "color \<Rightarrow> color" where
  "swap_rb c = BGRColor (color_red c) (color_green c) (color_blue c)"

definition classic_332 :: "color list" where
  "classic_332 = map (\<lambda>i. let r = of_nat (i div 32); g = of_nat (i div 4 mod 8); b = of_nat (i mod 4) in
       push_bit 16 (push_bit 5 r OR push_bit 2 r OR drop_bit 1 r)
       OR push_bit 8 (push_bit 5 g OR push_bit 2 g OR drop_bit 1 g)
       OR (push_bit 6 b OR push_bit 4 b OR push_bit 2 b OR b)) [0..<256]"

definition decode_color8 :: "color list \<Rightarrow> color \<Rightarrow> color" where
  "decode_color8 palette c = palette ! unat (ucast c :: u8)"

definition decode_color15 :: "color \<Rightarrow> color" where
  "decode_color15 c = BGRColor
     (ucast ((push_bit 3 c AND 0xf8) OR (drop_bit 2 c AND 0x7)))
     (ucast ((drop_bit 2 c AND 0xf8) OR (drop_bit 7 c AND 0x7)))
     (ucast ((drop_bit 7 c AND 0xf8) OR (drop_bit 12 c AND 0x7)))"

definition decode_color16 :: "color \<Rightarrow> color" where
  "decode_color16 c = BGRColor
     (ucast ((push_bit 3 c AND 0xf8) OR (drop_bit 2 c AND 0x7)))
     (ucast ((drop_bit 3 c AND 0xfc) OR (drop_bit 9 c AND 0x3)))
     (ucast ((drop_bit 8 c AND 0xf8) OR (drop_bit 13 c AND 0x7)))"

text \<open>The encoders of 8, 15 and 16 bits take a \<open>BGRasRGBColor\<close>, which reads red as blue.\<close>

definition encode_color8 :: "color \<Rightarrow> color" where
  "encode_color8 c = (let u = swap_rb c in
     (drop_bit 16 u AND 0xE0) OR (drop_bit 11 u AND 0x1C) OR (drop_bit 6 u AND 0x03))"

definition encode_color15 :: "color \<Rightarrow> color" where
  "encode_color15 c = (let r = ucast (color_blue c) :: u32; g = ucast (color_green c); b = ucast (color_red c) in
     drop_bit 3 r OR (push_bit 2 g AND 0x03E0) OR (push_bit 7 b AND 0x7C00))"

definition encode_color16 :: "color \<Rightarrow> color" where
  "encode_color16 c = (let r = ucast (color_blue c) :: u32; g = ucast (color_green c); b = ucast (color_red c) in
     drop_bit 3 r OR (push_bit 3 g AND 0x07E0) OR (push_bit 8 b AND 0xF800))"

definition decode_pixel :: "u8 \<Rightarrow> color list \<Rightarrow> color \<Rightarrow> color" where
  "decode_pixel bpp palette c =
     (if bpp = 8 then decode_color8 palette c else if bpp = 15 then decode_color15 c
      else if bpp = 16 then decode_color16 c else c)"

definition encode_pixel :: "u8 \<Rightarrow> color \<Rightarrow> color" where
  "encode_pixel bpp c =
     (if bpp = 8 then encode_color8 c else if bpp = 15 then encode_color15 c
      else if bpp = 16 then encode_color16 c else c)"

text \<open>\<open>buf2col_*\<close> and \<open>col2buf_*\<close> for pixels of 1 to 4 bytes.\<close>

definition buf2col :: "nat \<Rightarrow> u8 list \<Rightarrow> color" where
  "buf2col nb p =
     (if nb = 1 then ucast (p ! 0)
      else if nb = 2 then ucast (p ! 0) OR push_bit 8 (ucast (p ! 1))
      else ucast (p ! 0) OR push_bit 8 (ucast (p ! 1)) OR push_bit 16 (ucast (p ! 2)))"

definition col2buf :: "nat \<Rightarrow> color \<Rightarrow> u8 list" where
  "col2buf nb c =
     (if nb = 1 then [color_red c]
      else if nb = 2 then [color_red c, color_green c]
      else if nb = 3 then [color_red c, color_green c, color_blue c]
      else [color_red c, color_green c, color_blue c, 0xff])"

text \<open>One pixel of \<open>bpp2bpp\<close>: red and blue change places between the depths below and above 24.\<close>

definition low_depth :: "u8 \<Rightarrow> bool" where
  "low_depth bpp \<longleftrightarrow> bpp = 8 \<or> bpp = 15 \<or> bpp = 16"

definition convert_pixel :: "u8 \<Rightarrow> color list \<Rightarrow> u8 \<Rightarrow> u8 list \<Rightarrow> u8 list" where
  "convert_pixel from_bpp palette out_bpp p =
     (let pixel = decode_pixel from_bpp palette (buf2col (nb_bytes_per_pixel from_bpp) p);
          pixel = (if low_depth out_bpp \<noteq> low_depth from_bpp then swap_rb pixel else pixel)
      in col2buf (nb_bytes_per_pixel out_bpp) (encode_pixel out_bpp pixel))"

subsection \<open>Bitmaps\<close>

text \<open>
  \<open>bm_cx\<close> is \<open>cx_\<close>, a multiple of 4. The palette exists for 8 bits per pixel only and is empty otherwise.
  A line has \<open>bm_cx * nb_bytes_per_pixel\<close> bytes and \<open>bm_data\<close> is the \<open>cy\<close> lines, bottom first.
\<close>

record bitmap =
  bm_bpp :: u8
  bm_cx :: u16
  bm_cy :: u16
  bm_palette :: "color list"
  bm_data :: "u8 list"

definition line_size :: "bitmap \<Rightarrow> nat" where
  "line_size b = unat (bm_cx b) * nb_bytes_per_pixel (bm_bpp b)"

definition bmp_size :: "bitmap \<Rightarrow> nat" where
  "bmp_size b = line_size b * unat (bm_cy b)"

definition bitmap_ok :: "bitmap \<Rightarrow> bool" where
  "bitmap_ok b \<longleftrightarrow> normalized_bpp (bm_bpp b) \<and> length (bm_data b) = bmp_size b \<and> bm_cx b AND 3 = 0
     \<and> length (bm_palette b) = (if bm_bpp b = 8 then 256 else 0)"

text \<open>The bytes \<open>copy_sha1\<close> hashes: the palette of an 8-bit bitmap, depth and size, the lines.\<close>

definition sha1_input :: "bitmap \<Rightarrow> u8 list" where
  "sha1_input b =
     (if bm_bpp b = 8 then concat (map bytes_uint32_le (bm_palette b)) else [])
     @ bytes_uint8 (bm_bpp b) @ bytes_uint16_le (bm_cx b) @ bytes_uint16_le (bm_cy b)
     @ take (unat (bm_cy b) * line_size b) (bm_data b)"

definition compute_sha1 :: "(u8 list \<Rightarrow> u8 list) \<Rightarrow> bitmap \<Rightarrow> u8 list" where
  "compute_sha1 sha b = sha (sha1_input b)"

text \<open>
  The bitmap of uncompressed data: \<open>cy\<close> lines of \<open>cx\<close> pixels, each padded to a multiple of four. The number
  of bytes given is not compared with the number read: reading further than \<open>bytes\<close> is \<open>UB\<close>, and
  so is a width whose alignment wraps around.
\<close>

definition raw_bitmap :: "u8 \<Rightarrow> color list \<Rightarrow> u16 \<Rightarrow> u16 \<Rightarrow> u8 list \<Rightarrow> bitmap res" where
  "raw_bitmap bpp palette cx cy bytes = assertR (normalized_bpp bpp)
     (let data_width = unat cx * nb_bytes_per_pixel bpp;
          b = \<lparr>bm_bpp = bpp, bm_cx = align4 cx, bm_cy = cy,
               bm_palette = (if bpp = 8 then palette else []), bm_data = []\<rparr>
      in assertR (data_width \<le> line_size b \<and> data_width * unat cy \<le> length bytes)
        (Inr (b\<lparr>bm_data := concat (map (\<lambda>i. take data_width (drop (i * data_width) bytes)
            @ replicate (line_size b - data_width) 0) [0..<unat cy])\<rparr>)))"

text \<open>The bitmap in another depth; the widths are multiples of four, so the lines have no padding.\<close>

definition convert_bitmap :: "u8 \<Rightarrow> bitmap \<Rightarrow> bitmap res" where
  "convert_bitmap out_bpp b =
     (if out_bpp = bm_bpp b then Inr b
      else assertR (normalized_bpp out_bpp \<and> normalized_bpp (bm_bpp b))
        (let nb = nb_bytes_per_pixel (bm_bpp b) in
         Inr \<lparr>bm_bpp = out_bpp, bm_cx = bm_cx b, bm_cy = bm_cy b,
              bm_palette = (if out_bpp = 8 then classic_332 else []),
              bm_data = concat (map (\<lambda>i. convert_pixel (bm_bpp b) (bm_palette b) out_bpp (take nb (drop (i * nb) (bm_data b))))
                [0..<unat (bm_cx b) * unat (bm_cy b)])\<rparr>))"

subsection \<open>Rows of equal length\<close>

lemma concat_chunks:
  "length xs = n * k \<Longrightarrow> concat (map (\<lambda>i. take k (drop (i * k) xs)) [0..<n]) = xs"
proof (induction n arbitrary: xs)
  case (Suc n)
  have "concat (map (\<lambda>i. take k (drop (i * k) xs)) [0..<Suc n])
      = take k xs @ concat (map (\<lambda>i. take k (drop (i * k) (drop k xs))) [0..<n])"
    by (simp add: upt_conv_Cons map_Suc_upt [symmetric] o_def add.commute del: upt_Suc)
  with Suc.IH [of "drop k xs"] Suc.prems show ?case by simp
qed simp

lemma nth_chunk:
  assumes "\<forall>i<n. length (f i) = k" "i < n"
  shows "take k (drop (i * k) (concat (map f [0..<n]) @ r)) = f i"
  using assms
proof (induction n arbitrary: i f)
  case (Suc n)
  have c: "concat (map f [0..<Suc n]) = f 0 @ concat (map (f \<circ> Suc) [0..<n])"
    by (simp add: upt_conv_Cons map_Suc_upt [symmetric] del: upt_Suc)
  show ?case
  proof (cases i)
    case 0
    with c Suc.prems(1) show ?thesis by simp
  next
    case (Suc j)
    have "take k (drop (i * k) (concat (map f [0..<Suc n]) @ r))
        = take k (drop (j * k) (concat (map (f \<circ> Suc) [0..<n]) @ r))"
      unfolding c using Suc Suc.prems(1) by simp
    also have "\<dots> = f i"
      using Suc.IH [of "f \<circ> Suc" j] Suc.prems Suc by (simp only: o_def) simp
    finally show ?thesis .
  qed
qed simp

lemma length_chunks: "\<forall>i<n. length (f i) = k \<Longrightarrow> length (concat (map f [0..<n])) = n * k"
  by (induction n) simp_all

lemma align4_aligned:
  fixes v :: u16
  assumes "v AND 3 = 0"
  shows "align4 v = v"
proof -
  have b: "\<not> bit v 0" "\<not> bit v 1"
    using arg_cong [OF assms, of "\<lambda>w. bit w 0"] arg_cong [OF assms, of "\<lambda>w. bit w 1"] by (simp_all add: bit_simps)
  have three: "(3 :: u16) = mask 2" by (simp add: mask_eq_exp_minus_1)
  have "v AND 3 = 0 \<Longrightarrow> v + 3 = v OR 3" by (simp add: disjunctive_add_eq_or)
  with assms have "align4 v = (v OR 3) AND NOT 3" by (simp add: align4_def)
  also have "\<dots> = v"
    using b unfolding three by (intro bit_word_eqI) (auto simp: bit_simps less_Suc_eq numeral_2_eq_2)
  finally show ?thesis .
qed

lemma raw_bitmap_data:
  assumes "bitmap_ok b" and "bm_bpp b = 8 \<longrightarrow> palette = bm_palette b"
  shows "raw_bitmap (bm_bpp b) palette (bm_cx b) (bm_cy b) (bm_data b @ r) = Inr b"
proof -
  let ?k = "unat (bm_cx b) * nb_bytes_per_pixel (bm_bpp b)"
  have len: "length (bm_data b) = unat (bm_cy b) * ?k"
    using assms(1) by (simp add: bitmap_ok_def bmp_size_def line_size_def mult.commute)
  have ls: "line_size (b\<lparr>bm_palette := pal, bm_data := []\<rparr>) = ?k" for pal by (simp add: line_size_def)
  have row: "take ?k (drop (i * ?k) (bm_data b @ r)) = take ?k (drop (i * ?k) (bm_data b))" if "i < unat (bm_cy b)" for i
  proof -
    have "Suc i * ?k \<le> unat (bm_cy b) * ?k" using that by (intro mult_le_mono1) simp
    then show ?thesis by (simp add: len)
  qed
  have "concat (map (\<lambda>i. take ?k (drop (i * ?k) (bm_data b @ r)) @ replicate (?k - ?k) 0) [0..<unat (bm_cy b)]) = bm_data b"
    using row by (subst concat_chunks [OF len, symmetric], intro arg_cong [of _ _ concat] map_cong refl)
      (simp del: take_append drop_append)
  moreover have "bm_palette b = (if bm_bpp b = 8 then palette else [])"
    using assms by (auto simp: bitmap_ok_def)
  ultimately show ?thesis
    using assms(1) len by (cases b) (simp add: raw_bitmap_def bitmap_ok_def align4_aligned line_size_def Let_def mult.commute)
qed

subsection \<open>Converting there and back\<close>

lemma upt_32: "[0..<32] = [0, 1, 2, 3, 4, 5, 6, 7, 8, 9, 10, 11, 12, 13, 14, 15,
   16, 17, 18, 19, 20, 21, 22, 23, 24, 25, 26, 27, 28, 29, 30, 31]"
  by (simp add: upt_conv_Cons)

lemma all_bits_32:
  fixes v w :: u32
  assumes "list_all (\<lambda>n. bit v n = bit w n) [0..<32]"
  shows "v = w"
  using assms by (intro bit_word_eqI) (auto simp: list_all_iff)

lemma color_channels_BGRColor [simp]:
  "color_red (BGRColor b g r) = r" "color_green (BGRColor b g r) = g" "color_blue (BGRColor b g r) = b"
  by (rule bit_word_eqI; auto simp: BGRColor_def color_red_def color_green_def color_blue_def bit_simps dest: bit_imp_le_length)+

lemma encode_decode_16:
  assumes "drop_bit 16 c = 0"
  shows "encode_color16 (decode_color16 c) = c"
proof (rule all_bits_32)
  have "\<not> bit c (n + 16)" for n
    using arg_cong [OF assms, of "\<lambda>w. bit w n"] by (simp add: bit_simps add.commute)
  then have hi: "\<not> bit c n" if "16 \<le> n" for n using that by (metis le_add_diff_inverse2)
  show "list_all (\<lambda>n. bit (encode_color16 (decode_color16 c)) n = bit c n) [0..<32]"
    by (simp add: upt_32 encode_color16_def decode_color16_def Let_def bit_simps hi)
qed

lemma encode_decode_15:
  assumes "drop_bit 15 c = 0"
  shows "encode_color15 (decode_color15 c) = c"
proof (rule all_bits_32)
  have "\<not> bit c (n + 15)" for n
    using arg_cong [OF assms, of "\<lambda>w. bit w n"] by (simp add: bit_simps add.commute)
  then have hi: "\<not> bit c n" if "15 \<le> n" for n using that by (metis le_add_diff_inverse2)
  show "list_all (\<lambda>n. bit (encode_color15 (decode_color15 c)) n = bit c n) [0..<32]"
    by (simp add: upt_32 encode_color15_def decode_color15_def Let_def bit_simps hi)
qed


lemma swap_rb_BGRColor [simp]: "swap_rb (BGRColor b g r) = BGRColor r g b"
  by (simp add: swap_rb_def)

lemma buf2col_col2buf:
  assumes "nb = 3 \<or> nb = 4"
  shows "buf2col nb (col2buf nb (BGRColor b g r)) = BGRColor b g r"
proof -
  have "buf2col nb (col2buf nb c) = BGRColor (color_blue c) (color_green c) (color_red c)" for c
    using assms by (auto simp: buf2col_def col2buf_def BGRColor_def or.assoc or.commute or.left_commute)
  then show ?thesis by simp
qed

lemma convert_pixel_back:
  assumes bpp: "bpp = 15 \<or> bpp = 16" and out: "out = 24 \<or> out = 32"
    and p: "length p = 2" "bpp = 15 \<Longrightarrow> \<not> bit (p ! 1) 7"
  shows "convert_pixel out pal' bpp (convert_pixel bpp pal out p) = p"
    "length (convert_pixel bpp pal out p) = nb_bytes_per_pixel out"
proof -
  obtain x y where xy: "p = [x, y]" using p(1) by (auto simp: length_Suc_conv numeral_2_eq_2)
  define c :: color where "c = ucast x OR push_bit 8 (ucast y)"
  have c16: "drop_bit 16 c = 0"
    by (rule bit_word_eqI) (auto simp: c_def bit_simps dest: bit_imp_le_length)
  have c15: "drop_bit 15 c = 0" if "\<not> bit y 7"
  proof (rule bit_word_eqI)
    show "bit (drop_bit 15 c) n = bit 0 n" for n
      using that by (cases n) (auto simp: c_def bit_simps dest: bit_imp_le_length)
  qed
  have bytes: "col2buf 2 c = p"
  proof -
    have "color_red c = x" "color_green c = y"
      by (rule bit_word_eqI; auto simp: c_def color_red_def color_green_def bit_simps dest: bit_imp_le_length)+
    then show ?thesis by (simp add: col2buf_def xy)
  qed
  have low: "low_depth bpp" "\<not> low_depth out" "nb_bytes_per_pixel bpp = 2"
    "nb_bytes_per_pixel out = 3 \<or> nb_bytes_per_pixel out = 4"
    using bpp out by (auto simp: low_depth_def nb_bytes_per_pixel_def)
  have c: "buf2col 2 p = c" by (simp add: buf2col_def xy c_def)
  obtain b g r where d: "decode_pixel bpp pal c = BGRColor b g r"
    using bpp by (auto simp: decode_pixel_def decode_color15_def decode_color16_def)
  have e: "encode_pixel bpp (BGRColor b g r) = c"
    using bpp d p(2) encode_decode_16 [OF c16] encode_decode_15 [OF c15]
    by (auto simp: decode_pixel_def encode_pixel_def xy)
  have same: "decode_pixel out pal' x = x" "encode_pixel out x = x" for x
    using out by (auto simp: decode_pixel_def encode_pixel_def)
  have "convert_pixel bpp pal out p = col2buf (nb_bytes_per_pixel out) (BGRColor r g b)"
    using low by (simp add: convert_pixel_def c d same Let_def)
  moreover have "convert_pixel out pal' bpp (col2buf (nb_bytes_per_pixel out) (BGRColor r g b)) = p"
    using low by (simp add: convert_pixel_def same buf2col_col2buf [OF low(4)] e bytes Let_def)
  moreover have "length (col2buf (nb_bytes_per_pixel out) (BGRColor r g b)) = nb_bytes_per_pixel out"
    using low(4) by (auto simp: col2buf_def)
  ultimately show "convert_pixel out pal' bpp (convert_pixel bpp pal out p) = p"
    "length (convert_pixel bpp pal out p) = nb_bytes_per_pixel out" by simp_all
qed

subsection \<open>Properties\<close>

text \<open>
  A bitmap of 15 or 16 bits per pixel that is converted to 24 or 32 bits and back is the same bitmap,
  whatever the pixels (with the unused bit of 15-bit pixels clear), and the converted one is well-formed.
\<close>

theorem depth_round_trip:
  assumes ok: "bitmap_ok b" and bpp: "bm_bpp b = 15 \<or> bm_bpp b = 16" and out: "out = 24 \<or> out = 32"
    and top: "bm_bpp b = 15 \<longrightarrow> (\<forall>i < unat (bm_cx b) * unat (bm_cy b). \<not> bit (bm_data b ! (2 * i + 1)) 7)"
  shows "\<exists>b'. convert_bitmap out b = Inr b' \<and> bitmap_ok b' \<and> convert_bitmap (bm_bpp b) b' = Inr b"
proof -
  let ?n = "unat (bm_cx b) * unat (bm_cy b)"
  let ?px = "\<lambda>i. take 2 (drop (i * 2) (bm_data b))"
  let ?cv = "\<lambda>i. convert_pixel (bm_bpp b) (bm_palette b) out (?px i)"
  let ?b = "\<lparr>bm_bpp = out, bm_cx = bm_cx b, bm_cy = bm_cy b, bm_palette = [], bm_data = concat (map ?cv [0..<?n])\<rparr>"
  have nb: "nb_bytes_per_pixel (bm_bpp b) = 2" "normalized_bpp (bm_bpp b)" "normalized_bpp out"
    and ne: "out \<noteq> bm_bpp b" "bm_bpp b \<noteq> 8" "out \<noteq> 8"
    using bpp out by (auto simp: nb_bytes_per_pixel_def normalized_bpp_def)
  have len: "length (bm_data b) = ?n * 2"
    using ok by (simp add: bitmap_ok_def bmp_size_def line_size_def nb(1) ac_simps)
  have px: "length (?px i) = 2" "bm_bpp b = 15 \<Longrightarrow> \<not> bit (?px i ! 1) 7" if "i < ?n" for i
    using that len top by (auto simp: nth_append ac_simps)
  have cv: "length (?cv i) = nb_bytes_per_pixel out" "convert_pixel out [] (bm_bpp b) (?cv i) = ?px i" if "i < ?n" for i
    using convert_pixel_back [OF bpp out px [OF that]] by simp_all
  have there: "convert_bitmap out b = Inr ?b"
    using ne nb by (simp add: convert_bitmap_def)
  have "length (bm_data ?b) = bmp_size ?b"
    using length_chunks [of ?n ?cv "nb_bytes_per_pixel out"] cv(1) by (simp add: bmp_size_def line_size_def ac_simps)
  then have ok': "bitmap_ok ?b" using ok nb ne by (simp add: bitmap_ok_def)
  have "concat (map (\<lambda>i. convert_pixel out [] (bm_bpp b)
      (take (nb_bytes_per_pixel out) (drop (i * nb_bytes_per_pixel out) (bm_data ?b)))) [0..<?n])
      = concat (map ?px [0..<?n])"
    using nth_chunk [of ?n ?cv "nb_bytes_per_pixel out" _ "[]"] cv
    by (intro arg_cong [of _ _ concat] map_cong refl) simp
  also have "\<dots> = bm_data b" by (rule concat_chunks [OF len])
  finally have "convert_bitmap (bm_bpp b) ?b = Inr b"
    using ok ne nb by (cases b) (simp add: convert_bitmap_def bitmap_ok_def)
  with there ok' show ?thesis by blast
qed

definition sample_bitmap16 :: bitmap where
  "sample_bitmap16 = \<lparr>bm_bpp = 16, bm_cx = 4, bm_cy = 1, bm_palette = [],
     bm_data = [0x1F, 0xF8, 0xE0, 0x07, 0x34, 0x12, 0xFF, 0xFF]\<rparr>"

theorem depth_round_trip_witness:
  "\<exists>b'. convert_bitmap 24 sample_bitmap16 = Inr b' \<and> bitmap_ok b'
     \<and> convert_bitmap (bm_bpp sample_bitmap16) b' = Inr sample_bitmap16"
  by (rule depth_round_trip)
    (simp_all add: sample_bitmap16_def bitmap_ok_def normalized_bpp_def bmp_size_def line_size_def nb_bytes_per_pixel_def)

end
