(* ===== verification/Bmp_Cache.thy ===== *)
theory Bmp_Cache
  imports Bitmaps
begin

text \<open>
  The cache of bitmaps of each end of a drawing link, \<open>BmpCache\<close> (\<open>core/RDP/caches/bmpcache.hpp\<close>): the
  end that sends (\<open>Front\<close>, \<open>Recorder\<close>) looks bitmaps up by their hash and chooses the entry to replace,
  the end that receives (\<open>Mod_rdp\<close>) stores them where it is told.
\<close>

subsection \<open>Elements and ranges of elements\<close>

text \<open>
  \<open>cache_element\<close> and \<open>cache_lite_element\<close> (the waiting list). An element is valid when its bitmap is.
  The stamps are copies of a \<open>uint32_t\<close> counter.
\<close>

record cache_element =
  ce_bmp :: "bitmap option"
  ce_stamp :: u32
  ce_sig :: "u8 list"
  ce_sha1 :: "u8 list"
  ce_cached :: bool

record cache_lite_element =
  le_stamp :: u32
  le_sha1 :: "u8 list"
  le_valid :: bool

definition mk_cache_element :: cache_element where
  "mk_cache_element = \<lparr>ce_bmp = None, ce_stamp = 0, ce_sig = replicate 8 0, ce_sha1 = replicate 20 0, ce_cached = False\<rparr>"

definition mk_cache_lite_element :: cache_lite_element where
  "mk_cache_lite_element = \<lparr>le_stamp = 0, le_sha1 = replicate 20 0, le_valid = False\<rparr>"

definition ce_reset :: "cache_element \<Rightarrow> cache_element" where
  "ce_reset e = e\<lparr>ce_stamp := 0, ce_bmp := None, ce_cached := False\<rparr>"

definition le_reset :: "cache_lite_element \<Rightarrow> cache_lite_element" where
  "le_reset e = e\<lparr>le_stamp := 0, le_valid := False\<rparr>"

text \<open>
  \<open>Cache<T>\<close>: the elements of a range, the set \<open>sorted_elements\<close> of references to some of them, here their
  indices (the set compares the hashes of the elements referred to, so it holds at most one of each
  hash), and the two options. The template argument is the function that reads an element's hash.
\<close>

record 'e cache =
  ca_elems :: "'e list"
  ca_sorted :: "nat list"
  ca_bmp_size :: nat
  ca_persistent :: bool

definition get_cache_index :: "('e \<Rightarrow> u8 list) \<Rightarrow> u8 list \<Rightarrow> 'e cache \<Rightarrow> nat option" where
  "get_cache_index sha1_of key c = find (\<lambda>i. sha1_of (ca_elems c ! i) = key) (ca_sorted c)"

definition cache_remove :: "('e \<Rightarrow> u8 list) \<Rightarrow> u8 list \<Rightarrow> 'e cache \<Rightarrow> 'e cache" where
  "cache_remove sha1_of key c = c\<lparr>ca_sorted := filter (\<lambda>i. sha1_of (ca_elems c ! i) \<noteq> key) (ca_sorted c)\<rparr>"

definition cache_add :: "('e \<Rightarrow> u8 list) \<Rightarrow> nat \<Rightarrow> 'e cache \<Rightarrow> 'e cache" where
  "cache_add sha1_of i c =
     (if get_cache_index sha1_of (sha1_of (ca_elems c ! i)) c = None then c\<lparr>ca_sorted := i # ca_sorted c\<rparr> else c)"

definition get_old_index :: "('e \<Rightarrow> u32) \<Rightarrow> nat \<Rightarrow> 'e cache \<Rightarrow> nat" where
  "get_old_index stamp_of entries_max c = oldest (map stamp_of (take entries_max (ca_elems c)))"

definition cache_clear :: "('e \<Rightarrow> 'e) \<Rightarrow> 'e cache \<Rightarrow> 'e cache" where
  "cache_clear reset c = c\<lparr>ca_sorted := [], ca_elems := map reset (ca_elems c)\<rparr>"

subsection \<open>BmpCache\<close>

datatype cache_owner = Front | Mod_rdp | Recorder

record bmp_cache =
  bc_owner :: cache_owner
  bc_bpp :: u8
  bc_number :: nat
  bc_use_waiting_list :: bool
  bc_caches :: "cache_element cache list"
  bc_waiting :: "cache_lite_element cache"
  bc_waiting_bitmap :: "bitmap option"
  bc_stamp :: u32

abbreviation MAXIMUM_NUMBER_OF_CACHES :: nat where "MAXIMUM_NUMBER_OF_CACHES \<equiv> 5"
abbreviation MAXIMUM_NUMBER_OF_CACHE_ENTRIES :: nat where "MAXIMUM_NUMBER_OF_CACHE_ENTRIES \<equiv> 8192"
abbreviation (input) IN_WAIT_LIST :: u8 where "IN_WAIT_LIST \<equiv> 0x80"
abbreviation BITMAPCACHE_WAITING_LIST_INDEX :: nat where "BITMAPCACHE_WAITING_LIST_INDEX \<equiv> 32767"

text \<open>\<open>CacheOption\<close>: entries, size of the largest bitmap, persistence.\<close>

type_synonym cache_option = "u16 \<times> u16 \<times> bool"

definition mk_cache :: "cache_option \<Rightarrow> cache_element cache" where
  "mk_cache co = (case co of (entries, max_size, persistent) \<Rightarrow>
     \<lparr>ca_elems = replicate (unat entries) mk_cache_element, ca_sorted = [], ca_bmp_size = unat max_size,
      ca_persistent = persistent\<rparr>)"

definition number_of_caches :: "cache_option list \<Rightarrow> nat" where
  "number_of_caches opts = length (takeWhile (\<lambda>(entries, max_size, persistent). entries \<noteq> 0) opts)"

definition mk_bmp_cache :: "cache_owner \<Rightarrow> u8 \<Rightarrow> nat \<Rightarrow> bool \<Rightarrow> cache_option list \<Rightarrow> bmp_cache res" where
  "mk_bmp_cache owner bpp number use_waiting_list opts =
     assertR (length opts = MAXIMUM_NUMBER_OF_CACHES \<and> number = number_of_caches opts)
       (Inr \<lparr>bc_owner = owner, bc_bpp = bpp, bc_number = number, bc_use_waiting_list = use_waiting_list,
             bc_caches = map mk_cache opts,
             bc_waiting = \<lparr>ca_elems = replicate (if use_waiting_list then MAXIMUM_NUMBER_OF_CACHE_ENTRIES else 0) mk_cache_lite_element,
               ca_sorted = [], ca_bmp_size = 0, ca_persistent = False\<rparr>,
             bc_waiting_bitmap = None, bc_stamp = 0\<rparr>)"

text \<open>\<open>reset\<close> clears the caches, not the waiting list.\<close>

definition bmp_reset :: "bmp_cache \<Rightarrow> bmp_cache" where
  "bmp_reset bc = bc\<lparr>bc_stamp := 0, bc_caches := map (cache_clear ce_reset) (bc_caches bc)\<rparr>"

text \<open>
  The update of an element common to \<open>put\<close> and \<open>cache_bitmap\<close>: out of the set if it is valid, given a
  bitmap and its hash and the next stamp, into the set.
\<close>

definition store_bitmap :: "u8 list \<Rightarrow> bitmap \<Rightarrow> u8 list \<Rightarrow> u32 \<Rightarrow> nat \<Rightarrow> cache_element cache \<Rightarrow> cache_element cache" where
  "store_bitmap sha1 bmp sig stamp idx r =
     (let e = ca_elems r ! idx;
          r = (if ce_bmp e \<noteq> None then cache_remove ce_sha1 (ce_sha1 e) r else r);
          e = e\<lparr>ce_bmp := Some bmp, ce_sha1 := sha1, ce_stamp := stamp, ce_cached := True, ce_sig := sig\<rparr>
      in cache_add ce_sha1 idx (r\<lparr>ca_elems := (ca_elems r)[idx := e]\<rparr>))"

definition bmp_put :: "(u8 list \<Rightarrow> u8 list) \<Rightarrow> u8 \<Rightarrow> u16 \<Rightarrow> bitmap \<Rightarrow> u32 \<Rightarrow> u32 \<Rightarrow> bmp_cache \<Rightarrow> bmp_cache res" where
  "bmp_put sha cid idx bmp key1 key2 bc =
     assertR (\<not> has cid IN_WAIT_LIST \<and> unat cid < MAXIMUM_NUMBER_OF_CACHES)
       (let r = bc_caches bc ! unat cid;
            i = (if unat idx = BITMAPCACHE_WAITING_LIST_INDEX then length (ca_elems r) - 1 else unat idx)
        in assertR (i < length (ca_elems r))
          (let stamp = bc_stamp bc + 1;
               sig = (if ca_persistent r then bytes_uint32_le key1 @ bytes_uint32_le key2 else ce_sig (ca_elems r ! i))
           in Inr (bc\<lparr>bc_stamp := stamp,
                bc_caches := (bc_caches bc)[unat cid := store_bitmap (compute_sha1 sha bmp) bmp sig stamp i r]\<rparr>)))"

definition bmp_get :: "u8 \<Rightarrow> u16 \<Rightarrow> bmp_cache \<Rightarrow> bitmap option res" where
  "bmp_get cid idx bc =
     (if has cid IN_WAIT_LIST \<or> unat cid = MAXIMUM_NUMBER_OF_CACHES
      then assertR (bc_owner bc \<noteq> Mod_rdp \<and> bc_waiting_bitmap bc \<noteq> None) (Inr (bc_waiting_bitmap bc))
      else assertR (unat cid < MAXIMUM_NUMBER_OF_CACHES)
        (let r = bc_caches bc ! unat cid;
             at_last = unat idx = BITMAPCACHE_WAITING_LIST_INDEX;
             i = (if at_last then length (ca_elems r) - 1 else unat idx)
         in assertR ((at_last \<longrightarrow> bc_owner bc \<noteq> Front) \<and> i < length (ca_elems r)) (Inr (ce_bmp (ca_elems r ! i)))))"

definition bmp_is_cached :: "u8 \<Rightarrow> u16 \<Rightarrow> bmp_cache \<Rightarrow> bool res" where
  "bmp_is_cached cid idx bc =
     assertR (bc_owner bc = Recorder \<and> \<not> has cid IN_WAIT_LIST \<and> unat cid < MAXIMUM_NUMBER_OF_CACHES
         \<and> unat idx < length (ca_elems (bc_caches bc ! unat cid)))
       (Inr (ce_cached (ca_elems (bc_caches bc ! unat cid) ! unat idx)))"

definition bmp_set_cached :: "u8 \<Rightarrow> u16 \<Rightarrow> bool \<Rightarrow> bmp_cache \<Rightarrow> bmp_cache res" where
  "bmp_set_cached cid idx b bc =
     assertR (bc_owner bc = Recorder \<and> \<not> has cid IN_WAIT_LIST \<and> unat cid < MAXIMUM_NUMBER_OF_CACHES
         \<and> unat idx < length (ca_elems (bc_caches bc ! unat cid)))
       (let r = bc_caches bc ! unat cid in
        Inr (bc\<lparr>bc_caches := (bc_caches bc)[unat cid :=
          r\<lparr>ca_elems := (ca_elems r)[unat idx := (ca_elems r ! unat idx)\<lparr>ce_cached := b\<rparr>]\<rparr>]\<rparr>))"

definition is_cache_persistent :: "u8 \<Rightarrow> bmp_cache \<Rightarrow> bool res" where
  "is_cache_persistent cid bc =
     (if unat cid < MAXIMUM_NUMBER_OF_CACHES then Inr (ca_persistent (bc_caches bc ! unat cid))
      else assertR (unat cid = MAXIMUM_NUMBER_OF_CACHES) (Inr True))"

definition has_cache_persistent :: "bmp_cache \<Rightarrow> bool" where
  "has_cache_persistent bc \<longleftrightarrow> list_ex ca_persistent (take (bc_number bc) (bc_caches bc))"

subsection \<open>Looking a bitmap up, and making room for it\<close>

text \<open>
  The result is the \<open>uint32_t\<close> of the code: 0 for found or 1 for added, the cache with the flag of the
  waiting list, the index. A bitmap no cache can hold is an \<open>assert(0)\<close> followed by an exception; the
  model has the exception. The check for duplicates of debug builds is left out.
\<close>

abbreviation (input) FOUND_IN_CACHE :: u32 where "FOUND_IN_CACHE \<equiv> 0"
abbreviation (input) ADDED_TO_CACHE :: u32 where "ADDED_TO_CACHE \<equiv> 1"

definition cache_result :: "u32 \<Rightarrow> u8 \<Rightarrow> nat \<Rightarrow> u32" where
  "cache_result kind cid idx = push_bit 24 kind OR push_bit 16 (ucast cid) OR of_nat idx"

definition cache_for :: "nat \<Rightarrow> bmp_cache \<Rightarrow> nat option" where
  "cache_for sz bc = find (\<lambda>cid. sz \<le> ca_bmp_size (bc_caches bc ! cid)) [0..<bc_number bc]"

definition touch :: "nat \<Rightarrow> nat \<Rightarrow> bmp_cache \<Rightarrow> bmp_cache" where
  "touch cid i bc =
     (let stamp = bc_stamp bc + 1; r = bc_caches bc ! cid in
      bc\<lparr>bc_stamp := stamp,
         bc_caches := (bc_caches bc)[cid := r\<lparr>ca_elems := (ca_elems r)[i := (ca_elems r ! i)\<lparr>ce_stamp := stamp\<rparr>]\<rparr>]\<rparr>)"

definition add_real :: "u8 list \<Rightarrow> bitmap \<Rightarrow> nat \<Rightarrow> nat \<Rightarrow> bmp_cache \<Rightarrow> (u32 \<times> bmp_cache) res" where
  "add_real sha1 bmp cid i bc =
     assertR (i < length (ca_elems (bc_caches bc ! cid)))
       (let stamp = bc_stamp bc + 1 in
        Inr (cache_result ADDED_TO_CACHE (of_nat cid) i,
          bc\<lparr>bc_stamp := stamp,
             bc_caches := (bc_caches bc)[cid := store_bitmap sha1 bmp (take 8 sha1) stamp i (bc_caches bc ! cid)]\<rparr>))"

definition add_waiting :: "u8 list \<Rightarrow> bitmap \<Rightarrow> nat \<Rightarrow> bmp_cache \<Rightarrow> (u32 \<times> bmp_cache) res" where
  "add_waiting sha1 bmp cid bc =
     (let w = bc_waiting bc; i = get_old_index le_stamp (length (ca_elems w)) w in
      assertR (i < length (ca_elems w))
        (let e = ca_elems w ! i;
             stamp = bc_stamp bc + 1;
             w = (if le_valid e then cache_remove le_sha1 (le_sha1 e) w else w);
             e = e\<lparr>le_sha1 := sha1, le_valid := True, le_stamp := stamp\<rparr>;
             w = cache_add le_sha1 i (w\<lparr>ca_elems := (ca_elems w)[i := e]\<rparr>)
         in Inr (cache_result ADDED_TO_CACHE (of_nat cid OR IN_WAIT_LIST) i,
              bc\<lparr>bc_waiting := w, bc_waiting_bitmap := Some bmp, bc_stamp := stamp\<rparr>)))"

definition leave_waiting :: "u8 list \<Rightarrow> nat \<Rightarrow> bmp_cache \<Rightarrow> bmp_cache" where
  "leave_waiting sha1 j bc =
     (let w = cache_remove le_sha1 sha1 (bc_waiting bc) in
      bc\<lparr>bc_waiting := w\<lparr>ca_elems := (ca_elems w)[j := le_reset (ca_elems w ! j)]\<rparr>\<rparr>)"

definition cache_bitmap :: "(u8 list \<Rightarrow> u8 list) \<Rightarrow> bitmap \<Rightarrow> bmp_cache \<Rightarrow> (u32 \<times> bmp_cache) res" where
  "cache_bitmap sha oldbmp bc = assertR (bc_owner bc \<noteq> Mod_rdp)
     (bindR (convert_bitmap (bc_bpp bc) oldbmp) (\<lambda>bmp.
      case cache_for (bmp_size bmp) bc of
        None \<Rightarrow> Inl ERR_BITMAP_CACHE_TOO_BIG
      | Some cid \<Rightarrow>
          (let cache = bc_caches bc ! cid; sha1 = compute_sha1 sha bmp in
           case get_cache_index ce_sha1 sha1 cache of
             Some i \<Rightarrow> Inr (cache_result FOUND_IN_CACHE (of_nat cid) i, touch cid i bc)
           | None \<Rightarrow>
               (let oldest_cidx = get_old_index ce_stamp
                      (length (ca_elems cache) - (if bc_use_waiting_list bc then 1 else 0)) cache in
                if ca_persistent cache \<and> bc_use_waiting_list bc
                then (case get_cache_index le_sha1 sha1 (bc_waiting bc) of
                        None \<Rightarrow> add_waiting sha1 bmp cid bc
                      | Some j \<Rightarrow> add_real sha1 bmp cid oldest_cidx (leave_waiting sha1 j bc))
                else add_real sha1 bmp cid oldest_cidx bc))))"

subsection \<open>The invariant of a sending cache\<close>

text \<open>
  The set refers to exactly the valid elements, each with the hash of its bitmap and no two with the same,
  and all of them below \<open>lim\<close>: the last element is left to the waiting list when there is one.
\<close>

definition cache_wf :: "(u8 list \<Rightarrow> u8 list) \<Rightarrow> nat \<Rightarrow> cache_element cache \<Rightarrow> bool" where
  "cache_wf sha lim c \<longleftrightarrow> set (ca_sorted c) = {i. i < length (ca_elems c) \<and> ce_bmp (ca_elems c ! i) \<noteq> None}
     \<and> (\<forall>i\<in>set (ca_sorted c). i < lim \<and> ce_sha1 (ca_elems c ! i) = compute_sha1 sha (the (ce_bmp (ca_elems c ! i))))
     \<and> inj_on (\<lambda>i. ce_sha1 (ca_elems c ! i)) (set (ca_sorted c)) \<and> lim \<le> length (ca_elems c)"

definition waiting_wf :: "cache_lite_element cache \<Rightarrow> bool" where
  "waiting_wf w \<longleftrightarrow> (\<forall>i\<in>set (ca_sorted w). i < length (ca_elems w)) \<and> 0 < length (ca_elems w)"

definition real_entries :: "nat \<Rightarrow> bmp_cache \<Rightarrow> nat" where
  "real_entries cid bc = length (ca_elems (bc_caches bc ! cid)) - (if bc_use_waiting_list bc then 1 else 0)"

definition bmp_ok :: "(u8 list \<Rightarrow> u8 list) \<Rightarrow> bmp_cache \<Rightarrow> bool" where
  "bmp_ok sha bc \<longleftrightarrow> length (bc_caches bc) = MAXIMUM_NUMBER_OF_CACHES \<and> bc_number bc \<le> MAXIMUM_NUMBER_OF_CACHES
     \<and> (\<forall>cid < bc_number bc. cache_wf sha (real_entries cid bc) (bc_caches bc ! cid) \<and> 0 < real_entries cid bc
          \<and> length (ca_elems (bc_caches bc ! cid)) \<le> BITMAPCACHE_WAITING_LIST_INDEX)
     \<and> (bc_use_waiting_list bc \<longrightarrow> waiting_wf (bc_waiting bc) \<and> length (ca_elems (bc_waiting bc)) \<le> BITMAPCACHE_WAITING_LIST_INDEX)"

lemma bmp_okD:
  assumes "bmp_ok sha bc" "cid < bc_number bc"
  shows "length (bc_caches bc) = MAXIMUM_NUMBER_OF_CACHES" "cid < MAXIMUM_NUMBER_OF_CACHES"
    "cache_wf sha (real_entries cid bc) (bc_caches bc ! cid)"
    "0 < real_entries cid bc" "length (ca_elems (bc_caches bc ! cid)) \<le> BITMAPCACHE_WAITING_LIST_INDEX"
    "real_entries cid bc \<le> length (ca_elems (bc_caches bc ! cid))"
  using assms by (auto simp: bmp_ok_def real_entries_def)

lemma get_cache_index_Some:
  "get_cache_index sha1_of key c = Some i \<Longrightarrow> i \<in> set (ca_sorted c) \<and> sha1_of (ca_elems c ! i) = key"
  by (auto simp: get_cache_index_def find_Some_iff)

lemma get_cache_index_None:
  "get_cache_index sha1_of key c = None \<longleftrightarrow> (\<forall>i\<in>set (ca_sorted c). sha1_of (ca_elems c ! i) \<noteq> key)"
  by (auto simp: get_cache_index_def find_None_iff)

lemma get_old_index_less:
  assumes "0 < n" "n \<le> length (ca_elems c)"
  shows "get_old_index stamp_of n c < n"
  using oldest_least(1) [of "map stamp_of (take n (ca_elems c))"] assms
  by (cases "ca_elems c") (auto simp: get_old_index_def)

lemma store_bitmap_elems:
  "ca_elems (store_bitmap sha1 bmp sig stamp i r) = (ca_elems r)[i := (ca_elems r ! i)
     \<lparr>ce_bmp := Some bmp, ce_sha1 := sha1, ce_stamp := stamp, ce_cached := True, ce_sig := sig\<rparr>]"
  by (simp add: store_bitmap_def Let_def cache_add_def cache_remove_def)

lemma store_bitmap_options [simp]:
  "ca_bmp_size (store_bitmap sha1 bmp sig stamp i r) = ca_bmp_size r"
  "ca_persistent (store_bitmap sha1 bmp sig stamp i r) = ca_persistent r"
  "length (ca_elems (store_bitmap sha1 bmp sig stamp i r)) = length (ca_elems r)"
  by (simp_all add: store_bitmap_def Let_def cache_add_def cache_remove_def)

lemma store_bitmap_sorted:
  assumes wf: "cache_wf sha lim c" and i: "i < lim"
    and new: "get_cache_index ce_sha1 (compute_sha1 sha bmp) c = None"
  shows "set (ca_sorted (store_bitmap (compute_sha1 sha bmp) bmp sig stamp i c)) = insert i (set (ca_sorted c))"
proof -
  let ?h = "\<lambda>i. ce_sha1 (ca_elems c ! i)"
  let ?e = "ca_elems c ! i"
  let ?c = "if ce_bmp ?e \<noteq> None then cache_remove ce_sha1 (ce_sha1 ?e) c else c"
  have len: "i < length (ca_elems c)" using wf i by (simp add: cache_wf_def)
  have rest: "set (ca_sorted ?c) = set (ca_sorted c) - {i}"
  proof (cases "ce_bmp ?e = None")
    case True
    with wf show ?thesis by (auto simp: cache_wf_def)
  next
    case False
    with wf len have "i \<in> set (ca_sorted c)" by (simp add: cache_wf_def)
    with wf have "?h j = ?h i \<longleftrightarrow> j = i" if "j \<in> set (ca_sorted c)" for j
      using that by (auto simp: cache_wf_def inj_on_def)
    with False show ?thesis by (auto simp: cache_remove_def)
  qed
  have "\<forall>j\<in>set (ca_sorted c) - {i}. ?h j \<noteq> compute_sha1 sha bmp"
    using new by (auto simp: get_cache_index_None)
  then have fresh: "get_cache_index ce_sha1 (compute_sha1 sha bmp) (?c\<lparr>ca_elems := (ca_elems ?c)[i := e]\<rparr>) = None" for e
    unfolding get_cache_index_None using rest by (auto simp: cache_remove_def)
  show ?thesis
    using fresh rest len
    by (auto simp: store_bitmap_def Let_def cache_add_def [of ce_sha1 i] cache_remove_def)
qed

lemma store_bitmap_wf:
  assumes wf: "cache_wf sha lim c" and i: "i < lim"
    and new: "get_cache_index ce_sha1 (compute_sha1 sha bmp) c = None"
  shows "cache_wf sha lim (store_bitmap (compute_sha1 sha bmp) bmp sig stamp i c)"
proof -
  have len: "i < length (ca_elems c)" using wf i by (simp add: cache_wf_def)
  have new': "\<forall>j\<in>set (ca_sorted c). ce_sha1 (ca_elems c ! j) \<noteq> compute_sha1 sha bmp"
    using new by (simp add: get_cache_index_None)
  show ?thesis
    unfolding cache_wf_def store_bitmap_sorted [OF assms] store_bitmap_elems
    using wf i len new'
    by (auto simp: cache_wf_def nth_list_update inj_on_def)
qed

subsection \<open>Reading the result\<close>

definition result_kind :: "u32 \<Rightarrow> u32" where "result_kind res = drop_bit 24 res"
definition result_waiting :: "u32 \<Rightarrow> bool" where "result_waiting res \<longleftrightarrow> has (drop_bit 16 res) (ucast IN_WAIT_LIST)"
definition result_id :: "u32 \<Rightarrow> u8" where "result_id res = ucast (drop_bit 16 res AND 0x7)"
definition result_idx :: "u32 \<Rightarrow> u16" where "result_idx res = ucast res"

lemma drop_cache_result:
  assumes "i < 65536"
  shows "drop_bit 24 (cache_result kind cid i) = take_bit 8 kind"
    "drop_bit 16 (cache_result kind cid i) = push_bit 8 (take_bit 8 kind) OR ucast cid"
    "ucast (cache_result kind cid i) = (of_nat i :: u16)"
proof -
  have i: "(of_nat i :: u32) = ucast (of_nat i :: u16)"
    using assms by (simp add: word_unat_eq_iff unsigned_of_nat unsigned_ucast_eq take_bit_nat_eq_self)
  show "drop_bit 24 (cache_result kind cid i) = take_bit 8 kind"
    "drop_bit 16 (cache_result kind cid i) = push_bit 8 (take_bit 8 kind) OR ucast cid"
    "ucast (cache_result kind cid i) = (of_nat i :: u16)"
    unfolding cache_result_def i
    by (rule bit_word_eqI; auto simp: bit_simps dest: bit_imp_le_length)+
qed

lemma result_fields:
  assumes "i < 65536" "k < 5" "kind = 0 \<or> kind = 1"
  shows "result_kind (cache_result kind (of_nat k) i) = kind" "\<not> result_waiting (cache_result kind (of_nat k) i)"
    "result_id (cache_result kind (of_nat k) i) = of_nat k" "result_idx (cache_result kind (of_nat k) i) = of_nat i"
    "result_kind (cache_result kind (of_nat k OR IN_WAIT_LIST) i) = kind"
    "result_waiting (cache_result kind (of_nat k OR IN_WAIT_LIST) i)"
    "result_id (cache_result kind (of_nat k OR IN_WAIT_LIST) i) = of_nat k"
    "result_idx (cache_result kind (of_nat k OR IN_WAIT_LIST) i) = of_nat i"
proof -
  have "k = 0 \<or> k = 1 \<or> k = 2 \<or> k = 3 \<or> k = 4" using assms(2) by arith
  then show "result_kind (cache_result kind (of_nat k) i) = kind" "\<not> result_waiting (cache_result kind (of_nat k) i)"
    "result_id (cache_result kind (of_nat k) i) = of_nat k" "result_idx (cache_result kind (of_nat k) i) = of_nat i"
    "result_kind (cache_result kind (of_nat k OR IN_WAIT_LIST) i) = kind"
    "result_waiting (cache_result kind (of_nat k OR IN_WAIT_LIST) i)"
    "result_id (cache_result kind (of_nat k OR IN_WAIT_LIST) i) = of_nat k"
    "result_idx (cache_result kind (of_nat k OR IN_WAIT_LIST) i) = of_nat i"
    using assms(3) unfolding result_kind_def result_waiting_def result_id_def result_idx_def drop_cache_result [OF assms(1)]
    by (elim disjE; simp add: has_def)+
qed

subsection \<open>What \<open>cache_bitmap\<close> does\<close>

text \<open>The element of an entry, and the bitmap a result names.\<close>

definition elem_at :: "nat \<Rightarrow> nat \<Rightarrow> bmp_cache \<Rightarrow> cache_element" where
  "elem_at cid i bc = ca_elems (bc_caches bc ! cid) ! i"

definition in_set :: "nat \<Rightarrow> bmp_cache \<Rightarrow> nat set" where
  "in_set cid bc = set (ca_sorted (bc_caches bc ! cid))"

lemma cache_for_Some:
  "cache_for sz bc = Some cid \<Longrightarrow> cid < bc_number bc \<and> sz \<le> ca_bmp_size (bc_caches bc ! cid)"
  by (auto simp: cache_for_def find_Some_iff)

lemma bmp_ok_update:
  assumes ok: "bmp_ok sha bc" and wf: "cache_wf sha (real_entries cid bc) c"
    and len: "length (ca_elems c) = length (ca_elems (bc_caches bc ! cid))"
  shows "bmp_ok sha (bc\<lparr>bc_stamp := stamp, bc_caches := (bc_caches bc)[cid := c]\<rparr>)" (is "bmp_ok sha ?bc")
proof -
  have nth: "bc_caches ?bc ! k = (if k = cid \<and> cid < length (bc_caches bc) then c else bc_caches bc ! k)" for k
    by (cases "k = cid"; cases "cid < length (bc_caches bc)") (auto simp: not_less list_update_beyond)
  have re: "real_entries k ?bc = real_entries k bc" for k
    unfolding real_entries_def nth using len by simp
  show ?thesis
    unfolding bmp_ok_def re nth using ok wf len by (simp add: bmp_ok_def)
qed

lemma touch_wf:
  assumes "cache_wf sha lim c"
  shows "cache_wf sha lim (c\<lparr>ca_elems := (ca_elems c)[i := (ca_elems c ! i)\<lparr>ce_stamp := t\<rparr>]\<rparr>)"
proof (cases "i < length (ca_elems c)")
  case True
  have "ce_bmp ((ca_elems c)[i := (ca_elems c ! i)\<lparr>ce_stamp := t\<rparr>] ! j) = ce_bmp (ca_elems c ! j)"
    "ce_sha1 ((ca_elems c)[i := (ca_elems c ! i)\<lparr>ce_stamp := t\<rparr>] ! j) = ce_sha1 (ca_elems c ! j)" for j
    using True by (simp_all add: nth_list_update)
  with assms show ?thesis unfolding cache_wf_def by auto
next
  case False
  then have "c\<lparr>ca_elems := (ca_elems c)[i := (ca_elems c ! i)\<lparr>ce_stamp := t\<rparr>]\<rparr> = c" by (simp add: not_less list_update_beyond)
  with assms show ?thesis by (simp only:)
qed

lemma touch_ok: "bmp_ok sha bc \<Longrightarrow> cid < bc_number bc \<Longrightarrow> bmp_ok sha (touch cid i bc)"
  unfolding touch_def Let_def by (rule bmp_ok_update) (simp_all add: touch_wf bmp_okD(3))

lemma add_real_ok:
  assumes ok: "bmp_ok sha bc" and cid: "cid < bc_number bc" and i: "i < real_entries cid bc"
    and new: "get_cache_index ce_sha1 (compute_sha1 sha bmp) (bc_caches bc ! cid) = None"
  obtains bc' where "add_real (compute_sha1 sha bmp) bmp cid i bc = Inr (cache_result ADDED_TO_CACHE (of_nat cid) i, bc')"
    "bmp_ok sha bc'" "bc_number bc' = bc_number bc" "bc_owner bc' = bc_owner bc" "bc_bpp bc' = bc_bpp bc"
    "\<And>k. real_entries k bc' = real_entries k bc"
    "\<And>k. length (ca_elems (bc_caches bc' ! k)) = length (ca_elems (bc_caches bc ! k))"
    "ce_bmp (elem_at cid i bc') = Some bmp" "ce_cached (elem_at cid i bc')"
    "in_set cid bc' = insert i (in_set cid bc)" "\<And>k. k \<noteq> cid \<Longrightarrow> in_set k bc' = in_set k bc"
    "\<And>k j. k \<noteq> cid \<or> j \<noteq> i \<Longrightarrow> elem_at k j bc' = elem_at k j bc"
proof -
  note D = bmp_okD [OF ok cid]
  have len: "i < length (ca_elems (bc_caches bc ! cid))" using i D(6) by simp
  let ?c = "store_bitmap (compute_sha1 sha bmp) bmp (take 8 (compute_sha1 sha bmp)) (bc_stamp bc + 1) i (bc_caches bc ! cid)"
  let ?bc = "bc\<lparr>bc_stamp := bc_stamp bc + 1, bc_caches := (bc_caches bc)[cid := ?c]\<rparr>"
  have c5: "cid < length (bc_caches bc)" using D(1,2) by simp
  have nth: "bc_caches ?bc ! k = (if k = cid then ?c else bc_caches bc ! k)" for k
    using c5 by simp
  show ?thesis
  proof (rule that [of ?bc])
    show "add_real (compute_sha1 sha bmp) bmp cid i bc = Inr (cache_result ADDED_TO_CACHE (of_nat cid) i, ?bc)"
      using len by (simp add: add_real_def Let_def)
    show "bmp_ok sha ?bc"
      by (rule bmp_ok_update [OF ok store_bitmap_wf [OF D(3) i new]]) simp
    show "in_set cid ?bc = insert i (in_set cid bc)"
      using store_bitmap_sorted [OF D(3) i new] nth by (simp add: in_set_def)
  qed (use nth len in \<open>auto simp: real_entries_def elem_at_def in_set_def store_bitmap_elems\<close>)
qed

lemma waiting_put_wf:
  assumes "waiting_wf w" "i < length (ca_elems w)"
  shows "waiting_wf (cache_add le_sha1 i ((if b then cache_remove le_sha1 k w else w)
    \<lparr>ca_elems := (ca_elems (if b then cache_remove le_sha1 k w else w))[i := e]\<rparr>))"
  using assms by (auto simp: waiting_wf_def cache_add_def cache_remove_def)

lemma bmp_ok_waiting:
  assumes "bmp_ok sha bc" "waiting_wf w" "length (ca_elems w) = length (ca_elems (bc_waiting bc))"
  shows "bmp_ok sha (bc\<lparr>bc_waiting := w, bc_waiting_bitmap := b, bc_stamp := t\<rparr>)"
    "bmp_ok sha (bc\<lparr>bc_waiting := w\<rparr>)"
  using assms by (auto simp: bmp_ok_def real_entries_def)

lemma add_waiting_ok:
  assumes ok: "bmp_ok sha bc" and wl: "bc_use_waiting_list bc"
  obtains i bc' where "add_waiting sha1 bmp cid bc = Inr (cache_result ADDED_TO_CACHE (of_nat cid OR IN_WAIT_LIST) i, bc')"
    "i < BITMAPCACHE_WAITING_LIST_INDEX" "bmp_ok sha bc'" "bc_waiting_bitmap bc' = Some bmp"
    "bc_caches bc' = bc_caches bc" "bc_number bc' = bc_number bc" "bc_owner bc' = bc_owner bc" "bc_bpp bc' = bc_bpp bc"
    "bc_use_waiting_list bc'"
proof -
  let ?w = "bc_waiting bc"
  have wf: "waiting_wf ?w" "length (ca_elems ?w) \<le> BITMAPCACHE_WAITING_LIST_INDEX"
    using ok wl by (simp_all add: bmp_ok_def)
  have i: "get_old_index le_stamp (length (ca_elems ?w)) ?w < length (ca_elems ?w)"
    using wf by (intro get_old_index_less) (auto simp: waiting_wf_def)
  let ?i = "get_old_index le_stamp (length (ca_elems ?w)) ?w"
  let ?r = "if le_valid (ca_elems ?w ! ?i) then cache_remove le_sha1 (le_sha1 (ca_elems ?w ! ?i)) ?w else ?w"
  let ?e = "(ca_elems ?w ! ?i)\<lparr>le_sha1 := sha1, le_valid := True, le_stamp := bc_stamp bc + 1\<rparr>"
  let ?w' = "cache_add le_sha1 ?i (?r\<lparr>ca_elems := (ca_elems ?r)[?i := ?e]\<rparr>)"
  let ?bc = "bc\<lparr>bc_waiting := ?w', bc_waiting_bitmap := Some bmp, bc_stamp := bc_stamp bc + 1\<rparr>"
  have "length (ca_elems ?w') = length (ca_elems ?w)" by (simp add: cache_add_def cache_remove_def)
  with bmp_ok_waiting(1) [OF ok waiting_put_wf [OF wf(1) i]] have "bmp_ok sha ?bc" by blast
  moreover have "add_waiting sha1 bmp cid bc = Inr (cache_result ADDED_TO_CACHE (of_nat cid OR IN_WAIT_LIST) ?i, ?bc)"
    using i by (simp add: add_waiting_def Let_def)
  ultimately show ?thesis using i wf(2) wl by (intro that [of ?i ?bc]) simp_all
qed

lemma leave_waiting_ok:
  assumes "bmp_ok sha bc" "bc_use_waiting_list bc"
  shows "bmp_ok sha (leave_waiting sha1 j bc)"
  using assms by (auto simp: leave_waiting_def Let_def cache_remove_def bmp_ok_def real_entries_def waiting_wf_def)

lemma leave_waiting_same [simp]:
  "bc_caches (leave_waiting sha1 j bc) = bc_caches bc" "bc_number (leave_waiting sha1 j bc) = bc_number bc"
  "bc_owner (leave_waiting sha1 j bc) = bc_owner bc" "bc_bpp (leave_waiting sha1 j bc) = bc_bpp bc"
  "bc_use_waiting_list (leave_waiting sha1 j bc) = bc_use_waiting_list bc"
  by (simp_all add: leave_waiting_def Let_def)

text \<open>What stays the same of a cache whatever is put in it.\<close>

definition same_shape :: "bmp_cache \<Rightarrow> bmp_cache \<Rightarrow> bool" where
  "same_shape bc bc' \<longleftrightarrow> bc_number bc' = bc_number bc \<and> bc_owner bc' = bc_owner bc \<and> bc_bpp bc' = bc_bpp bc
     \<and> bc_use_waiting_list bc' = bc_use_waiting_list bc \<and> length (bc_caches bc') = length (bc_caches bc)
     \<and> (\<forall>k. real_entries k bc' = real_entries k bc
          \<and> length (ca_elems (bc_caches bc' ! k)) = length (ca_elems (bc_caches bc ! k))
          \<and> ca_bmp_size (bc_caches bc' ! k) = ca_bmp_size (bc_caches bc ! k)
          \<and> ca_persistent (bc_caches bc' ! k) = ca_persistent (bc_caches bc ! k))"

lemma same_shape_refl [simp]: "same_shape bc bc"
  by (simp add: same_shape_def)

lemma same_shape_trans: "same_shape a b \<Longrightarrow> same_shape b c \<Longrightarrow> same_shape a c"
  by (simp add: same_shape_def)

lemma same_shape_caches:
  "bc_caches bc' = bc_caches bc \<Longrightarrow> bc_number bc' = bc_number bc \<Longrightarrow> bc_owner bc' = bc_owner bc \<Longrightarrow> bc_bpp bc' = bc_bpp bc
    \<Longrightarrow> bc_use_waiting_list bc' = bc_use_waiting_list bc \<Longrightarrow> same_shape bc bc'"
  by (simp add: same_shape_def real_entries_def)

lemma nth_update_cases:
  "xs[i := x] ! k = (if k = i \<and> i < length xs then x else xs ! k)"
  by (cases "k = i"; cases "i < length xs") (auto simp: not_less list_update_beyond)

lemma same_shape_update:
  assumes "length (ca_elems c) = length (ca_elems (bc_caches bc ! cid))"
    "ca_bmp_size c = ca_bmp_size (bc_caches bc ! cid)" "ca_persistent c = ca_persistent (bc_caches bc ! cid)"
  shows "same_shape bc (bc\<lparr>bc_stamp := t, bc_caches := (bc_caches bc)[cid := c]\<rparr>)"
  using assms by (simp add: same_shape_def real_entries_def nth_update_cases)

text \<open>
  The three things \<open>cache_bitmap\<close> does with a bitmap it can hold: find it, add it to an entry below the
  one reserved for the waiting list, or add it to the waiting list.
\<close>

lemma cache_bitmap_run:
  assumes own: "bc_owner bc \<noteq> Mod_rdp" and conv: "convert_bitmap (bc_bpp bc) oldbmp = Inr bmp"
    and for_it: "cache_for (bmp_size bmp) bc = Some cid"
  shows "cache_bitmap sha oldbmp bc =
      (case get_cache_index ce_sha1 (compute_sha1 sha bmp) (bc_caches bc ! cid) of
         Some i \<Rightarrow> Inr (cache_result FOUND_IN_CACHE (of_nat cid) i, touch cid i bc)
       | None \<Rightarrow> (if ca_persistent (bc_caches bc ! cid) \<and> bc_use_waiting_list bc
           then (case get_cache_index le_sha1 (compute_sha1 sha bmp) (bc_waiting bc) of
                   None \<Rightarrow> add_waiting (compute_sha1 sha bmp) bmp cid bc
                 | Some j \<Rightarrow> add_real (compute_sha1 sha bmp) bmp cid (get_old_index ce_stamp (real_entries cid bc) (bc_caches bc ! cid))
                     (leave_waiting (compute_sha1 sha bmp) j bc))
           else add_real (compute_sha1 sha bmp) bmp cid (get_old_index ce_stamp (real_entries cid bc) (bc_caches bc ! cid)) bc))"
  unfolding cache_bitmap_def conv Let_def real_entries_def using own for_it by (simp only: assertR_simps bindR_simps option.case simp_thms)

lemma cache_bitmap_cases:
  assumes ok: "bmp_ok sha bc" and own: "bc_owner bc \<noteq> Mod_rdp" and conv: "convert_bitmap (bc_bpp bc) oldbmp = Inr bmp"
    and for_it: "cache_for (bmp_size bmp) bc = Some cid"
  obtains
    (found) i where "cache_bitmap sha oldbmp bc = Inr (cache_result FOUND_IN_CACHE (of_nat cid) i, touch cid i bc)"
      "i \<in> in_set cid bc" "ce_sha1 (elem_at cid i bc) = compute_sha1 sha bmp"
  | (added) i bc' where "cache_bitmap sha oldbmp bc = Inr (cache_result ADDED_TO_CACHE (of_nat cid) i, bc')"
      "i < real_entries cid bc" "bmp_ok sha bc'" "same_shape bc bc'"
      "ce_bmp (elem_at cid i bc') = Some bmp" "ce_cached (elem_at cid i bc')"
      "in_set cid bc' = insert i (in_set cid bc)" "\<And>k. k \<noteq> cid \<Longrightarrow> in_set k bc' = in_set k bc"
      "\<And>k j. k \<noteq> cid \<or> j \<noteq> i \<Longrightarrow> elem_at k j bc' = elem_at k j bc"
      "\<forall>j\<in>in_set cid bc. ce_sha1 (elem_at cid j bc) \<noteq> compute_sha1 sha bmp"
      "i = get_old_index ce_stamp (real_entries cid bc) (bc_caches bc ! cid)"
  | (waiting) i bc' where "cache_bitmap sha oldbmp bc = Inr (cache_result ADDED_TO_CACHE (of_nat cid OR IN_WAIT_LIST) i, bc')"
      "i < BITMAPCACHE_WAITING_LIST_INDEX" "bmp_ok sha bc'" "same_shape bc bc'" "bc_caches bc' = bc_caches bc"
      "bc_waiting_bitmap bc' = Some bmp" "bc_use_waiting_list bc" "ca_persistent (bc_caches bc ! cid)"
proof -
  let ?c = "bc_caches bc ! cid" and ?h = "compute_sha1 sha bmp"
  let ?old = "get_old_index ce_stamp (real_entries cid bc) ?c"
  from cache_for_Some [OF for_it] have cid: "cid < bc_number bc" by simp
  note D = bmp_okD [OF ok cid]
  have old: "?old < real_entries cid bc" by (rule get_old_index_less [OF D(4,6)])
  note run = cache_bitmap_run [OF own conv for_it, of sha]
  have real: thesis
    if r: "cache_bitmap sha oldbmp bc = add_real ?h bmp cid ?old b" and b: "bmp_ok sha b" "same_shape bc b" "bc_caches b = bc_caches bc"
      and new: "get_cache_index ce_sha1 ?h ?c = None" for b
  proof -
    have n: "cid < bc_number b" "?old < real_entries cid b" "get_cache_index ce_sha1 ?h (bc_caches b ! cid) = None"
      using b(2,3) cid old new by (simp_all add: same_shape_def)
    obtain bc' where a: "add_real ?h bmp cid ?old b = Inr (cache_result ADDED_TO_CACHE (of_nat cid) ?old, bc')"
      "bmp_ok sha bc'" "ce_bmp (elem_at cid ?old bc') = Some bmp" "ce_cached (elem_at cid ?old bc')"
      "in_set cid bc' = insert ?old (in_set cid b)" "\<And>k. k \<noteq> cid \<Longrightarrow> in_set k bc' = in_set k b"
      "\<And>k j. k \<noteq> cid \<or> j \<noteq> ?old \<Longrightarrow> elem_at k j bc' = elem_at k j b"
      by (rule add_real_ok [OF b(1) n]) (rule that; assumption)
    have shape: "same_shape b bc'"
      using a(1) by (auto simp: add_real_def Let_def assertR_eq_Inr intro!: same_shape_update)
    have fresh: "\<forall>j\<in>in_set cid bc. ce_sha1 (elem_at cid j bc) \<noteq> ?h"
      using new by (simp add: get_cache_index_None in_set_def elem_at_def)
    have same: "in_set k b = in_set k bc" "elem_at k j b = elem_at k j bc" for k j
      using b(3) by (simp_all add: in_set_def elem_at_def)
    show thesis
    proof (rule added [of ?old bc'])
      show "elem_at k j bc' = elem_at k j bc" if "k \<noteq> cid \<or> j \<noteq> ?old" for k j
        using a(7) [OF that] same by simp
    qed (use a(1-6) old r same_shape_trans [OF b(2) shape] fresh same in simp_all)
  qed
  show thesis
  proof (cases "get_cache_index ce_sha1 ?h ?c")
    case (Some i)
    from get_cache_index_Some [OF Some] have "i \<in> in_set cid bc" "ce_sha1 (elem_at cid i bc) = ?h"
      unfolding in_set_def elem_at_def by blast+
    with run Some show thesis by (intro found) simp_all
  next
    case None
    show thesis
    proof (cases "ca_persistent ?c \<and> bc_use_waiting_list bc")
      case False
      with None run have "cache_bitmap sha oldbmp bc = add_real ?h bmp cid ?old bc"
        by (simp only: option.case if_False)
      from real [OF this ok same_shape_refl refl None] show thesis .
    next
      case True
      show thesis
      proof (cases "get_cache_index le_sha1 ?h (bc_waiting bc)")
        case w: None
        from True None w run have "cache_bitmap sha oldbmp bc = add_waiting ?h bmp cid bc" by simp
        moreover obtain i bc' where "add_waiting ?h bmp cid bc = Inr (cache_result ADDED_TO_CACHE (of_nat cid OR IN_WAIT_LIST) i, bc')"
          "i < BITMAPCACHE_WAITING_LIST_INDEX" "bmp_ok sha bc'" "bc_waiting_bitmap bc' = Some bmp"
          "bc_caches bc' = bc_caches bc" "bc_number bc' = bc_number bc" "bc_owner bc' = bc_owner bc" "bc_bpp bc' = bc_bpp bc"
          "bc_use_waiting_list bc'"
          using add_waiting_ok [OF ok, of ?h bmp cid] True by blast
        ultimately show thesis using True by (intro waiting) (auto intro: same_shape_caches)
      next
        case (Some j)
        from True None Some run have "cache_bitmap sha oldbmp bc = add_real ?h bmp cid ?old (leave_waiting ?h j bc)" by simp
        from real [OF this leave_waiting_ok [OF ok] _ leave_waiting_same(1) None] True show thesis
          by (simp add: same_shape_caches)
      qed
    qed
  qed
qed

subsection \<open>New caches\<close>

lemma mk_bmp_cache_ok:
  assumes mk: "mk_bmp_cache owner bpp number wl opts = Inr bc"
    and sizes: "\<forall>k < number. (if wl then 1 else 0) < unat (fst (opts ! k)) \<and> unat (fst (opts ! k)) \<le> BITMAPCACHE_WAITING_LIST_INDEX"
  shows "bmp_ok sha bc" "bc_owner bc = owner" "bc_bpp bc = bpp" "bc_number bc = number" "bc_use_waiting_list bc = wl"
    "length (bc_caches bc) = MAXIMUM_NUMBER_OF_CACHES" "\<And>k. k < 5 \<Longrightarrow> bc_caches bc ! k = mk_cache (opts ! k)"
    "number \<le> 5" "ca_sorted (bc_waiting bc) = []"
proof -
  have opts: "length opts = 5" "number = number_of_caches opts" using mk by (simp_all add: mk_bmp_cache_def assertR_eq_Inr)
  have n: "number \<le> 5" unfolding opts using length_takeWhile_le [of _ opts] opts(1) by (simp add: number_of_caches_def)
  show "bc_owner bc = owner" "bc_bpp bc = bpp" "bc_number bc = number" "bc_use_waiting_list bc = wl"
    "length (bc_caches bc) = MAXIMUM_NUMBER_OF_CACHES" "ca_sorted (bc_waiting bc) = []" "number \<le> 5"
    using mk opts(1) n by (auto simp: mk_bmp_cache_def assertR_eq_Inr)
  show nth: "\<And>k. k < 5 \<Longrightarrow> bc_caches bc ! k = mk_cache (opts ! k)"
    using mk by (auto simp: mk_bmp_cache_def assertR_eq_Inr)
  have wf: "cache_wf sha lim (mk_cache co)" "length (ca_elems (mk_cache co)) = unat (fst co)"
    if "lim \<le> unat (fst co)" for lim co
    using that by (auto simp: mk_cache_def cache_wf_def mk_cache_element_def split: prod.splits)
  have len: "length (ca_elems (mk_cache co)) = unat (fst co)" for co
    by (simp add: mk_cache_def split: prod.splits)
  have w: "waiting_wf (bc_waiting bc)" "length (ca_elems (bc_waiting bc)) \<le> BITMAPCACHE_WAITING_LIST_INDEX" if wl
    using mk that by (auto simp: mk_bmp_cache_def assertR_eq_Inr waiting_wf_def)
  have "cache_wf sha (real_entries k bc) (bc_caches bc ! k) \<and> 0 < real_entries k bc
      \<and> length (ca_elems (bc_caches bc ! k)) \<le> BITMAPCACHE_WAITING_LIST_INDEX" if k: "k < number" for k
  proof -
    have "bc_caches bc ! k = mk_cache (opts ! k)" using nth k n by simp
    moreover have "real_entries k bc = unat (fst (opts ! k)) - (if wl then 1 else 0)"
      using mk calculation len by (auto simp: real_entries_def mk_bmp_cache_def assertR_eq_Inr)
    ultimately show ?thesis using sizes k wf len by simp
  qed
  then show "bmp_ok sha bc"
    using mk n w opts(1) by (auto simp: bmp_ok_def mk_bmp_cache_def assertR_eq_Inr)
qed

text \<open>Three caches of two entries, the largest persistent, and four pixels for them.\<close>

definition sample_options :: "cache_option list" where
  "sample_options = [(2, 4, False), (2, 8, True), (2, 16, True), (0, 0, False), (0, 0, False)]"

definition sample_cache :: "cache_owner \<Rightarrow> bool \<Rightarrow> bmp_cache" where
  "sample_cache owner wl = (case mk_bmp_cache owner 16 3 wl sample_options of Inr bc \<Rightarrow> bc)"

definition sample_sha :: "u8 list \<Rightarrow> u8 list" where
  "sample_sha d = take 20 (rev d @ replicate 20 0)"

lemma sample_cache_ok:
  shows "bmp_ok sha (sample_cache owner wl)" "bc_owner (sample_cache owner wl) = owner" "bc_bpp (sample_cache owner wl) = 16"
    "bc_number (sample_cache owner wl) = 3" "bc_use_waiting_list (sample_cache owner wl) = wl"
    "length (bc_caches (sample_cache owner wl)) = MAXIMUM_NUMBER_OF_CACHES"
    "\<And>k. k < 5 \<Longrightarrow> bc_caches (sample_cache owner wl) ! k = mk_cache (sample_options ! k)"
    "ca_sorted (bc_waiting (sample_cache owner wl)) = []"
proof -
  obtain bc where bc: "mk_bmp_cache owner 16 3 wl sample_options = Inr bc" "sample_cache owner wl = bc"
    by (simp add: sample_cache_def mk_bmp_cache_def number_of_caches_def sample_options_def)
  have sizes: "\<forall>k < 3. (if wl then 1 else 0) < unat (fst (sample_options ! k)) \<and> unat (fst (sample_options ! k)) \<le> BITMAPCACHE_WAITING_LIST_INDEX"
    by (auto simp: sample_options_def less_Suc_eq numeral_3_eq_3)
  show "bmp_ok sha (sample_cache owner wl)" "bc_owner (sample_cache owner wl) = owner" "bc_bpp (sample_cache owner wl) = 16"
    "bc_number (sample_cache owner wl) = 3" "bc_use_waiting_list (sample_cache owner wl) = wl"
    "length (bc_caches (sample_cache owner wl)) = MAXIMUM_NUMBER_OF_CACHES"
    "\<And>k. k < 5 \<Longrightarrow> bc_caches (sample_cache owner wl) ! k = mk_cache (sample_options ! k)"
    "ca_sorted (bc_waiting (sample_cache owner wl)) = []"
    unfolding bc(2) using mk_bmp_cache_ok [OF bc(1) sizes] by blast+
qed

lemma sample_bitmap_in_cache:
  "convert_bitmap (bc_bpp (sample_cache owner wl)) sample_bitmap16 = Inr sample_bitmap16"
  "cache_for (bmp_size sample_bitmap16) (sample_cache owner wl) = Some 1"
  "get_cache_index ce_sha1 h (bc_caches (sample_cache owner wl) ! 1) = None"
  "ca_persistent (bc_caches (sample_cache owner wl) ! 1)"
proof -
  have "bmp_size sample_bitmap16 = 8" by (simp add: sample_bitmap16_def bmp_size_def line_size_def nb_bytes_per_pixel_def)
  then show "cache_for (bmp_size sample_bitmap16) (sample_cache owner wl) = Some 1"
    by (simp add: cache_for_def sample_cache_ok upt_rec mk_cache_def sample_options_def)
qed (simp_all add: sample_cache_ok convert_bitmap_def sample_bitmap16_def mk_cache_def sample_options_def get_cache_index_def)

subsection \<open>Properties\<close>

lemma get_cache_index_unique:
  assumes "cache_wf sha lim c" "i \<in> set (ca_sorted c)" "ce_sha1 (ca_elems c ! i) = key"
  shows "get_cache_index ce_sha1 key c = Some i"
proof -
  obtain j where j: "get_cache_index ce_sha1 key c = Some j"
    using assms(2,3) get_cache_index_None [of ce_sha1 key c] by (cases "get_cache_index ce_sha1 key c") auto
  with get_cache_index_Some [OF j] assms show ?thesis by (auto simp: cache_wf_def inj_on_def)
qed

lemma get_old_index_oldest:
  assumes "0 < n" "n \<le> length (ca_elems c)" "j < n"
  shows "stamp_of (ca_elems c ! get_old_index stamp_of n c) \<le> stamp_of (ca_elems c ! j)"
proof -
  let ?s = "map stamp_of (take n (ca_elems c))"
  have "?s ! j \<in> set ?s" using assms by (intro nth_mem) simp
  moreover have "?s \<noteq> []" using assms by (cases "ca_elems c") auto
  ultimately have "?s ! oldest ?s \<le> ?s ! j" using oldest_least(2) by blast
  then show ?thesis using assms get_old_index_less [OF assms(1,2), of stamp_of] by (simp add: get_old_index_def)
qed

text \<open>
  When a bitmap is added to a cache, it takes the entry whose stamp is the smallest of those not
  reserved for the waiting list, with the next stamp; every other entry of every cache is left as it was.
\<close>

theorem oldest_entry_replaced:
  assumes "bmp_ok sha bc" "bc_owner bc \<noteq> Mod_rdp" "convert_bitmap (bc_bpp bc) oldbmp = Inr bmp"
    and "cache_for (bmp_size bmp) bc = Some cid"
    and "cache_bitmap sha oldbmp bc = Inr (res, bc')" "result_kind res = ADDED_TO_CACHE" "\<not> result_waiting res"
  shows "unat (result_id res) = cid \<and> unat (result_idx res) < real_entries cid bc
    \<and> (\<forall>j < real_entries cid bc. ce_stamp (elem_at cid (unat (result_idx res)) bc) \<le> ce_stamp (elem_at cid j bc))
    \<and> ce_bmp (elem_at cid (unat (result_idx res)) bc') = Some bmp
    \<and> (\<forall>k j. k \<noteq> cid \<or> j \<noteq> unat (result_idx res) \<longrightarrow> elem_at k j bc' = elem_at k j bc)"
proof -
  have cid: "cid < bc_number bc" "cid < 5" using cache_for_Some [OF assms(4)] bmp_okD(2) [OF assms(1)] by simp_all
  note D = bmp_okD [OF assms(1) cid(1)]
  have small: "unat (of_nat cid :: u8) = cid" "i < 65536 \<Longrightarrow> unat (of_nat i :: u16) = i" for i
    using cid by (simp_all add: unat_of_nat take_bit_nat_eq_self)
  show ?thesis
  proof (cases rule: cache_bitmap_cases [OF assms(1-4), case_names found added waiting])
    case (found i)
    have "i < 65536" using found(2) D(3,5) by (auto simp: in_set_def cache_wf_def)
    with found assms(5,6) result_fields [of i cid 0] cid show ?thesis by simp
  next
    case (waiting i b)
    with assms(5,7) result_fields [of i cid 1] cid show ?thesis by simp
  next
    case (added i b)
    have i: "i < 65536" using added(2) D(5,6) by simp
    have "\<forall>j < real_entries cid bc. ce_stamp (elem_at cid i bc) \<le> ce_stamp (elem_at cid j bc)"
      unfolding added(11) elem_at_def using get_old_index_oldest [OF D(4,6)] by blast
    with added assms(5) result_fields [OF i cid(2), of 1] small i show ?thesis by auto
  qed
qed

theorem oldest_entry_replaced_witness:
  "\<exists>res bc'. cache_bitmap sample_sha sample_bitmap16 (sample_cache Front False) = Inr (res, bc')
    \<and> unat (result_id res) = 1 \<and> unat (result_idx res) < 2 \<and> ce_bmp (elem_at 1 (unat (result_idx res)) bc') = Some sample_bitmap16"
proof -
  let ?bc = "sample_cache Front False"
  have re: "real_entries 1 ?bc = 2" by (simp add: real_entries_def sample_cache_ok mk_cache_def sample_options_def)
  have own: "bc_owner ?bc \<noteq> Mod_rdp" by (simp add: sample_cache_ok)
  show ?thesis
  proof (cases rule: cache_bitmap_cases [OF sample_cache_ok(1) own sample_bitmap_in_cache(1,2), of sample_sha, case_names found added waiting])
    case (found i)
    then show ?thesis by (simp add: in_set_def sample_cache_ok mk_cache_def sample_options_def)
  next
    case (waiting i b)
    then show ?thesis by (simp add: sample_cache_ok)
  next
    case (added i b)
    have i: "i < 65536" using added(2) re by simp
    show ?thesis
      using oldest_entry_replaced [OF sample_cache_ok(1) own sample_bitmap_in_cache(1,2) added(1)]
        result_fields [OF i, of 1 1] re added(1) by auto
  qed
qed

lemma cache_add_found:
  assumes "f (ca_elems c ! i) = h"
  shows "\<exists>j. get_cache_index f h (cache_add f i c) = Some j"
  using assms get_cache_index_None [of f h "cache_add f i c"]
  by (cases "get_cache_index f h c") (auto simp: cache_add_def get_cache_index_def)

lemma add_waiting_found:
  assumes wf: "waiting_wf (bc_waiting bc)" and run: "add_waiting h bmp cid bc = Inr (res, bc')"
  shows "\<exists>i. get_cache_index le_sha1 h (bc_waiting bc') = Some i"
proof -
  let ?w = "bc_waiting bc"
  let ?i = "get_old_index le_stamp (length (ca_elems ?w)) ?w"
  have i: "?i < length (ca_elems ?w)"
    using wf by (intro get_old_index_less) (auto simp: waiting_wf_def)
  obtain v where "bc_waiting bc' = cache_add le_sha1 ?i v" "le_sha1 (ca_elems v ! ?i) = h"
    using run i by (auto simp: add_waiting_def Let_def cache_remove_def assertR_eq_Inr)
  then show ?thesis using cache_add_found by metis
qed

lemma add_real_found:
  assumes ok: "bmp_ok sha bc" and own: "bc_owner bc \<noteq> Mod_rdp" and conv: "convert_bitmap (bc_bpp bc) oldbmp = Inr bmp"
    and for_it: "cache_for (bmp_size bmp) bc = Some cid" and i: "i < real_entries cid bc"
    and new: "get_cache_index ce_sha1 (compute_sha1 sha bmp) (bc_caches bc ! cid) = None"
  obtains bc' where "add_real (compute_sha1 sha bmp) bmp cid i bc = Inr (cache_result ADDED_TO_CACHE (of_nat cid) i, bc')"
    "cache_bitmap sha oldbmp bc' = Inr (cache_result FOUND_IN_CACHE (of_nat cid) i, touch cid i bc')"
proof -
  have cid: "cid < bc_number bc" using cache_for_Some [OF for_it] by simp
  obtain bc' where a: "add_real (compute_sha1 sha bmp) bmp cid i bc = Inr (cache_result ADDED_TO_CACHE (of_nat cid) i, bc')"
    "bmp_ok sha bc'" "bc_number bc' = bc_number bc" "ce_bmp (elem_at cid i bc') = Some bmp" "in_set cid bc' = insert i (in_set cid bc)"
    by (rule add_real_ok [OF ok cid i new]) (rule that; assumption)
  have shape: "same_shape bc bc'"
    using a(1) by (auto simp: add_real_def Let_def assertR_eq_Inr intro!: same_shape_update)
  have cid': "cid < bc_number bc'" using cid a(3) by simp
  have wf: "cache_wf sha (real_entries cid bc') (bc_caches bc' ! cid)" by (rule bmp_okD(3) [OF a(2) cid'])
  have "get_cache_index ce_sha1 (compute_sha1 sha bmp) (bc_caches bc' ! cid) = Some i"
    by (rule get_cache_index_unique [OF wf]) (use wf a(4,5) in \<open>auto simp: in_set_def elem_at_def cache_wf_def\<close>)
  moreover have "cache_for (bmp_size bmp) bc' = Some cid" "bc_owner bc' \<noteq> Mod_rdp" "convert_bitmap (bc_bpp bc') oldbmp = Inr bmp"
    using shape for_it own conv by (simp_all add: same_shape_def cache_for_def)
  ultimately show ?thesis using a(1) cache_bitmap_run by (intro that [of bc']) simp_all
qed

text \<open>
  C30. A bitmap that goes to a persistent cache with a waiting list and is in neither of them is put on the
  waiting list the first time it is drawn, moves to an entry of the cache the second time, and is found
  there the third.
\<close>

theorem waiting_list_protocol:
  assumes ok: "bmp_ok sha bc" and own: "bc_owner bc \<noteq> Mod_rdp" and conv: "convert_bitmap (bc_bpp bc) oldbmp = Inr bmp"
    and for_it: "cache_for (bmp_size bmp) bc = Some cid"
    and wl: "bc_use_waiting_list bc" "ca_persistent (bc_caches bc ! cid)"
    and new: "get_cache_index ce_sha1 (compute_sha1 sha bmp) (bc_caches bc ! cid) = None"
      "get_cache_index le_sha1 (compute_sha1 sha bmp) (bc_waiting bc) = None"
  shows "\<exists>i j bc1 bc2. cache_bitmap sha oldbmp bc = Inr (cache_result ADDED_TO_CACHE (of_nat cid OR IN_WAIT_LIST) i, bc1)
    \<and> cache_bitmap sha oldbmp bc1 = Inr (cache_result ADDED_TO_CACHE (of_nat cid) j, bc2)
    \<and> cache_bitmap sha oldbmp bc2 = Inr (cache_result FOUND_IN_CACHE (of_nat cid) j, touch cid j bc2)"
proof -
  let ?h = "compute_sha1 sha bmp"
  have cid: "cid < bc_number bc" using cache_for_Some [OF for_it] by simp
  obtain i bc1 where w: "add_waiting ?h bmp cid bc = Inr (cache_result ADDED_TO_CACHE (of_nat cid OR IN_WAIT_LIST) i, bc1)"
    "bmp_ok sha bc1" "bc_caches bc1 = bc_caches bc" "bc_number bc1 = bc_number bc" "bc_owner bc1 = bc_owner bc"
    "bc_bpp bc1 = bc_bpp bc" "bc_use_waiting_list bc1"
    by (rule add_waiting_ok [OF ok wl(1)]) (rule that; assumption)
  have first: "cache_bitmap sha oldbmp bc = Inr (cache_result ADDED_TO_CACHE (of_nat cid OR IN_WAIT_LIST) i, bc1)"
    using cache_bitmap_run [OF own conv for_it] wl new w(1) by simp
  have "waiting_wf (bc_waiting bc)" using ok wl(1) by (simp add: bmp_ok_def)
  then obtain j where j: "get_cache_index le_sha1 ?h (bc_waiting bc1) = Some j"
    using add_waiting_found [OF _ w(1)] by blast
  have same: "bc_owner bc1 \<noteq> Mod_rdp" "convert_bitmap (bc_bpp bc1) oldbmp = Inr bmp" "cache_for (bmp_size bmp) bc1 = Some cid"
    using w own conv for_it by (simp_all add: cache_for_def)
  let ?old = "get_old_index ce_stamp (real_entries cid bc1) (bc_caches bc1 ! cid)"
  let ?l = "leave_waiting ?h j bc1"
  have re: "real_entries cid ?l = real_entries cid bc1" by (simp add: real_entries_def)
  have old: "?old < real_entries cid ?l"
    unfolding re using bmp_okD(4,6) [OF w(2)] cid w(4) by (intro get_old_index_less) simp_all
  have second: "cache_bitmap sha oldbmp bc1 = add_real ?h bmp cid ?old ?l"
    using cache_bitmap_run [OF same] new(1) wl w(3,7) j by simp
  obtain bc2 where "add_real ?h bmp cid ?old ?l = Inr (cache_result ADDED_TO_CACHE (of_nat cid) ?old, bc2)"
    "cache_bitmap sha oldbmp bc2 = Inr (cache_result FOUND_IN_CACHE (of_nat cid) ?old, touch cid ?old bc2)"
    by (rule add_real_found [OF leave_waiting_ok [OF w(2,7)], where oldbmp = oldbmp and bmp = bmp and cid = cid and i = ?old])
      (use same old new(1) w(3) in \<open>simp_all add: cache_for_def\<close>)
  with first second show ?thesis by auto
qed

theorem waiting_list_protocol_witness:
  "\<exists>i j bc1 bc2. cache_bitmap sample_sha sample_bitmap16 (sample_cache Front True)
      = Inr (cache_result ADDED_TO_CACHE (of_nat 1 OR IN_WAIT_LIST) i, bc1)
    \<and> cache_bitmap sample_sha sample_bitmap16 bc1 = Inr (cache_result ADDED_TO_CACHE (of_nat 1) j, bc2)
    \<and> cache_bitmap sample_sha sample_bitmap16 bc2 = Inr (cache_result FOUND_IN_CACHE (of_nat 1) j, touch 1 j bc2)"
  by (rule waiting_list_protocol [OF sample_cache_ok(1) _ sample_bitmap_in_cache(1,2)])
    (simp_all add: sample_cache_ok(2,5,8) sample_bitmap_in_cache(3,4) [simplified] get_cache_index_def [of le_sha1])

end
