(* ===== verification/Bmp_Link.thy ===== *)
theory Bmp_Link
  imports Bmp_Cache
begin

text \<open>
  The two bitmap caches of a drawing link: the part of \<open>RDPSerializer::draw_memblt\<close> that decides which
  bitmap order goes before a \<open>MemBlt\<close> and which entry the \<open>MemBlt\<close> names (\<open>core/RDP/RDPSerializer.hpp\<close>), and
  what \<open>rdp_orders\<close> does with the two orders (\<open>mod/rdp/rdp_orders.hpp\<close>).
\<close>

subsection \<open>Sending\<close>

text \<open>The fields of an \<open>RDPBmpCache\<close> order; on the wire \<open>do_not_cache\<close> makes the index the one of the waiting list.\<close>

record bmp_order =
  bo_id :: u8
  bo_idx :: u16
  bo_bmp :: bitmap
  bo_persistent :: bool
  bo_do_not_cache :: bool

definition wire_idx :: "bmp_order \<Rightarrow> u16" where
  "wire_idx ord = (if bo_do_not_cache ord then of_nat BITMAPCACHE_WAITING_LIST_INDEX else bo_idx ord)"

definition emit_bmp_cache :: "u8 \<Rightarrow> u16 \<Rightarrow> bool \<Rightarrow> bmp_cache \<Rightarrow> bmp_order option res" where
  "emit_bmp_cache cache_id cache_idx in_wait_list bc =
     bindR (if in_wait_list then bmp_get (of_nat MAXIMUM_NUMBER_OF_CACHES) cache_idx bc else bmp_get cache_id cache_idx bc)
       (\<lambda>b. case b of
          None \<Rightarrow> Inr None
        | Some bmp \<Rightarrow> bindR (is_cache_persistent cache_id bc) (\<lambda>p.
            Inr (Some \<lparr>bo_id = cache_id, bo_idx = cache_idx, bo_bmp = bmp, bo_persistent = p, bo_do_not_cache = in_wait_list\<rparr>)))"

text \<open>The bitmap order to send, if any, and the identifier and index of the \<open>MemBlt\<close>.\<close>

definition draw_bitmap ::
  "(u8 list \<Rightarrow> u8 list) \<Rightarrow> bitmap \<Rightarrow> bmp_cache \<Rightarrow> ((bmp_order option \<times> u8 \<times> u16) \<times> bmp_cache) res" where
  "draw_bitmap sha oldbmp bc =
     bindR (cache_bitmap sha oldbmp bc) (\<lambda>(res, bc).
     let in_wait_list = result_waiting res; cache_id = result_id res; cache_idx = result_idx res;
         named = (cache_id, if in_wait_list then of_nat BITMAPCACHE_WAITING_LIST_INDEX else cache_idx) in
     if result_kind res = ADDED_TO_CACHE
     then bindR (emit_bmp_cache cache_id cache_idx in_wait_list bc) (\<lambda>ord. Inr ((ord, named), bc))
     else if bc_owner bc = Recorder
     then bindR (bmp_is_cached cache_id cache_idx bc) (\<lambda>c.
          if c then Inr ((None, named), bc)
          else bindR (emit_bmp_cache cache_id cache_idx in_wait_list bc) (\<lambda>ord.
               bindR (bmp_set_cached cache_id cache_idx True bc) (\<lambda>bc. Inr ((ord, named), bc))))
     else Inr ((None, named), bc))"

subsection \<open>Receiving\<close>

text \<open>
  \<open>process_bmpcache\<close> after the order is read, and the bitmap the \<open>MEMBLT\<close> case of \<open>process_orders\<close> draws with.
  The keys are the first eight bytes of the hash, when they are sent.
\<close>

definition process_bmpcache ::
  "(u8 list \<Rightarrow> u8 list) \<Rightarrow> bmp_order \<Rightarrow> u32 \<Rightarrow> u32 \<Rightarrow> bmp_cache \<Rightarrow> bmp_cache res" where
  "process_bmpcache sha ord key1 key2 bc = bmp_put sha (bo_id ord) (wire_idx ord) (bo_bmp ord) key1 key2 bc"

definition memblt_bitmap :: "u8 \<Rightarrow> u16 \<Rightarrow> bmp_cache \<Rightarrow> bitmap option res" where
  "memblt_bitmap cache_id cache_idx bc = bmp_get (cache_id AND 0x3) cache_idx bc"

definition sig_32 :: "nat \<Rightarrow> u8 list \<Rightarrow> u32" where
  "sig_32 n sig = ucast (sig ! (4 * n)) OR push_bit 8 (ucast (sig ! (4 * n + 1)))
     OR push_bit 16 (ucast (sig ! (4 * n + 2))) OR push_bit 24 (ucast (sig ! (4 * n + 3)))"

definition bmp_key :: "(u8 list \<Rightarrow> u8 list) \<Rightarrow> nat \<Rightarrow> bmp_order \<Rightarrow> u32" where
  "bmp_key sha n ord = (if bo_persistent ord then sig_32 n (compute_sha1 sha (bo_bmp ord)) else 0)"

fun receive_bitmap ::
  "(u8 list \<Rightarrow> u8 list) \<Rightarrow> bmp_order option \<times> u8 \<times> u16 \<Rightarrow> bmp_cache \<Rightarrow> (bitmap option \<times> bmp_cache) res" where
  "receive_bitmap sha (None, cid, idx) bc = bindR (memblt_bitmap cid idx bc) (\<lambda>b. Inr (b, bc))"
| "receive_bitmap sha (Some ord, cid, idx) bc =
     bindR (process_bmpcache sha ord (bmp_key sha 0 ord) (bmp_key sha 1 ord) bc) (\<lambda>bc. bindR (memblt_bitmap cid idx bc) (\<lambda>b. Inr (b, bc)))"

text \<open>A sequence of bitmaps drawn on one end, and what the other end draws with.\<close>

fun send_bitmaps ::
  "(u8 list \<Rightarrow> u8 list) \<Rightarrow> bitmap list \<Rightarrow> bmp_cache \<Rightarrow> ((bmp_order option \<times> u8 \<times> u16) list \<times> bmp_cache) res" where
  "send_bitmaps sha [] bc = Inr ([], bc)"
| "send_bitmaps sha (b # bs) bc =
     bindR (draw_bitmap sha b bc) (\<lambda>(m, bc). bindR (send_bitmaps sha bs bc) (\<lambda>(ms, bc). Inr (m # ms, bc)))"

fun receive_bitmaps ::
  "(u8 list \<Rightarrow> u8 list) \<Rightarrow> (bmp_order option \<times> u8 \<times> u16) list \<Rightarrow> bmp_cache \<Rightarrow> (bitmap option list \<times> bmp_cache) res" where
  "receive_bitmaps sha [] bc = Inr ([], bc)"
| "receive_bitmaps sha (m # ms) bc =
     bindR (receive_bitmap sha m bc) (\<lambda>(b, bc). bindR (receive_bitmaps sha ms bc) (\<lambda>(bs, bc). Inr (b # bs, bc)))"

subsection \<open>Mirrored caches\<close>

text \<open>
  \<open>r\<close> has the shape of \<open>s\<close> and holds the bitmap of every entry \<open>s\<close> counts on: those of its set marked as
  cached, which are all of them unless \<open>s\<close> is a recorder.
\<close>

definition mirror :: "bmp_cache \<Rightarrow> bmp_cache \<Rightarrow> bool" where
  "mirror s r \<longleftrightarrow> length (bc_caches r) = MAXIMUM_NUMBER_OF_CACHES \<and> bc_owner r \<noteq> Front \<and> bc_owner s \<noteq> Mod_rdp \<and> bc_number s \<le> 4
     \<and> (\<forall>k < bc_number s. length (ca_elems (bc_caches r ! k)) = length (ca_elems (bc_caches s ! k))
          \<and> (\<forall>i\<in>in_set k s. (bc_owner s \<noteq> Recorder \<longrightarrow> ce_cached (elem_at k i s))
               \<and> (ce_cached (elem_at k i s) \<longrightarrow> ce_bmp (elem_at k i r) = ce_bmp (elem_at k i s))))"

lemma small_id [simp]:
  fixes k :: nat
  assumes "k < 5"
  shows "unat (of_nat k :: u8) = k" "\<not> has (of_nat k :: u8) IN_WAIT_LIST"
proof -
  have "k = 0 \<or> k = 1 \<or> k = 2 \<or> k = 3 \<or> k = 4" using assms by arith
  then show "unat (of_nat k :: u8) = k" "\<not> has (of_nat k :: u8) IN_WAIT_LIST"
    by (elim disjE; simp add: has_def)+
qed

lemma small_id_mask [simp]:
  fixes k :: nat
  assumes "k < 4"
  shows "(of_nat k :: u8) AND 0x3 = of_nat k"
proof -
  have "k = 0 \<or> k = 1 \<or> k = 2 \<or> k = 3" using assms by arith
  then show ?thesis by (elim disjE) simp_all
qed

lemma small_idx [simp]: "i < BITMAPCACHE_WAITING_LIST_INDEX \<Longrightarrow> unat (of_nat i :: u16) = i"
  by (simp add: unat_of_nat take_bit_nat_eq_self)

lemma waiting_idx [simp]: "unat (of_nat BITMAPCACHE_WAITING_LIST_INDEX :: u16) = BITMAPCACHE_WAITING_LIST_INDEX"
  by simp

text \<open>What a \<open>put\<close> leaves behind.\<close>

lemma bmp_put_at:
  assumes k: "k < 5" and len: "length (bc_caches r) = MAXIMUM_NUMBER_OF_CACHES" and i: "i < length (ca_elems (bc_caches r ! k))"
    and idx: "(if unat idx = BITMAPCACHE_WAITING_LIST_INDEX then length (ca_elems (bc_caches r ! k)) - 1 else unat idx) = i"
  obtains r' where "bmp_put sha (of_nat k) idx bmp key1 key2 r = Inr r'" "bc_owner r' = bc_owner r"
    "length (bc_caches r') = MAXIMUM_NUMBER_OF_CACHES"
    "\<And>j. length (ca_elems (bc_caches r' ! j)) = length (ca_elems (bc_caches r ! j))"
    "ce_bmp (elem_at k i r') = Some bmp" "\<And>j n. j \<noteq> k \<or> n \<noteq> i \<Longrightarrow> elem_at j n r' = elem_at j n r"
proof -
  let ?c = "store_bitmap (compute_sha1 sha bmp) bmp
      (if ca_persistent (bc_caches r ! k) then bytes_uint32_le key1 @ bytes_uint32_le key2 else ce_sig (ca_elems (bc_caches r ! k) ! i))
      (bc_stamp r + 1) i (bc_caches r ! k)"
  let ?r = "r\<lparr>bc_stamp := bc_stamp r + 1, bc_caches := (bc_caches r)[k := ?c]\<rparr>"
  have "bmp_put sha (of_nat k) idx bmp key1 key2 r = Inr ?r"
    using k i unfolding bmp_put_def Let_def small_id(1) [OF k] idx by simp
  then show ?thesis
    using k len i by (intro that [of ?r]) (auto simp: nth_update_cases elem_at_def store_bitmap_elems)
qed

subsection \<open>One bitmap\<close>

text \<open>The bitmaps a cache looks up, and what an order of the sender looks like on the wire.\<close>

definition held :: "bitmap \<Rightarrow> bmp_cache \<Rightarrow> bool" where
  "held b bc \<longleftrightarrow> (\<exists>k < bc_number bc. \<exists>i\<in>in_set k bc. ce_bmp (elem_at k i bc) = Some b)"

definition carries :: "bitmap \<Rightarrow> bmp_order option \<times> u8 \<times> u16 \<Rightarrow> bool" where
  "carries b m \<longleftrightarrow> (case fst m of None \<Rightarrow> True
     | Some ord \<Rightarrow> bo_bmp ord = b \<and> unat (bo_id ord) < 8 \<and> wire_idx ord < 0x8000)"

lemma carries_None [simp]: "carries b (None, p)"
  by (simp add: carries_def)

lemma carries_order:
  "k < 5 \<Longrightarrow> i < BITMAPCACHE_WAITING_LIST_INDEX \<Longrightarrow>
    carries b (Some \<lparr>bo_id = of_nat k, bo_idx = of_nat i, bo_bmp = b, bo_persistent = p, bo_do_not_cache = d\<rparr>, q)"
  by (simp add: carries_def wire_idx_def word_less_nat_alt)

lemma held_same:
  assumes "same_shape s s'" "\<And>k. in_set k s' = in_set k s" "\<And>k i. ce_bmp (elem_at k i s') = ce_bmp (elem_at k i s)"
  shows "held b s' = held b s"
  using assms by (simp add: held_def same_shape_def)

text \<open>What an entry of the sender gives the receiver: an order for it, or nothing when it is mirrored.\<close>

lemma elem_bmp_get:
  assumes "k < 5" "i < BITMAPCACHE_WAITING_LIST_INDEX" "i < length (ca_elems (bc_caches bc ! k))"
  shows "bmp_get (of_nat k) (of_nat i) bc = Inr (ce_bmp (elem_at k i bc))"
  using assms by (simp add: bmp_get_def elem_at_def Let_def)

lemma mirror_same:
  assumes "mirror s r" "same_shape s s'" "\<And>k. in_set k s' = in_set k s" "\<And>k i. ce_bmp (elem_at k i s') = ce_bmp (elem_at k i s)"
    "\<And>k i. ce_cached (elem_at k i s') = ce_cached (elem_at k i s)"
  shows "mirror s' r"
  using assms by (simp add: mirror_def same_shape_def)

lemma touch_at:
  assumes "bmp_ok sha bc" "cid < bc_number bc"
  shows "in_set k (touch cid i bc) = in_set k bc" "ce_bmp (elem_at k j (touch cid i bc)) = ce_bmp (elem_at k j bc)"
    "ce_cached (elem_at k j (touch cid i bc)) = ce_cached (elem_at k j bc)" "same_shape bc (touch cid i bc)"
    "ce_sha1 (elem_at k j (touch cid i bc)) = ce_sha1 (elem_at k j bc)"
  by (simp_all add: touch_def Let_def in_set_def elem_at_def nth_update_cases same_shape_update)

lemma in_setD:
  assumes "bmp_ok sha bc" "k < bc_number bc" "i \<in> in_set k bc"
  obtains b where "ce_bmp (elem_at k i bc) = Some b" "ce_sha1 (elem_at k i bc) = compute_sha1 sha b"
    "i < real_entries k bc" "i < length (ca_elems (bc_caches bc ! k))"
  using bmp_okD(3) [OF assms(1,2)] assms(3)
  by (auto simp: cache_wf_def in_set_def elem_at_def)

lemma real_entries_bound:
  assumes "bmp_ok sha bc" "k < bc_number bc" "i < real_entries k bc"
  shows "i < BITMAPCACHE_WAITING_LIST_INDEX" "i < length (ca_elems (bc_caches bc ! k))"
  using bmp_okD(5,6) [OF assms(1,2)] assms(3) by simp_all

text \<open>An order for entry \<open>i\<close> of cache \<open>k\<close> of the sender, received, then used by the \<open>MemBlt\<close> that names the entry.\<close>

lemma order_received:
  assumes m: "length (bc_caches r) = MAXIMUM_NUMBER_OF_CACHES" and k: "k < 4"
    and i: "i < BITMAPCACHE_WAITING_LIST_INDEX" "i < length (ca_elems (bc_caches r ! k))"
    and ord: "bo_id ord = of_nat k" "bo_idx ord = of_nat i" "bo_bmp ord = b" "\<not> bo_do_not_cache ord"
  obtains r' where "receive_bitmap sha (Some ord, of_nat k, of_nat i) r = Inr (Some b, r')" "bc_owner r' = bc_owner r"
    "length (bc_caches r') = MAXIMUM_NUMBER_OF_CACHES"
    "\<And>j. length (ca_elems (bc_caches r' ! j)) = length (ca_elems (bc_caches r ! j))"
    "ce_bmp (elem_at k i r') = Some b" "\<And>j n. j \<noteq> k \<or> n \<noteq> i \<Longrightarrow> elem_at j n r' = elem_at j n r"
proof -
  have k5: "k < 5" using k by simp
  obtain r' where r': "bmp_put sha (of_nat k) (of_nat i) b (bmp_key sha 0 ord) (bmp_key sha 1 ord) r = Inr r'" "bc_owner r' = bc_owner r"
    "length (bc_caches r') = MAXIMUM_NUMBER_OF_CACHES"
    "\<And>j. length (ca_elems (bc_caches r' ! j)) = length (ca_elems (bc_caches r ! j))"
    "ce_bmp (elem_at k i r') = Some b" "\<And>j n. j \<noteq> k \<or> n \<noteq> i \<Longrightarrow> elem_at j n r' = elem_at j n r"
    by (rule bmp_put_at [OF k5 m i(2), of "of_nat i" sha b "bmp_key sha 0 ord" "bmp_key sha 1 ord"]) (use i in auto)
  have "process_bmpcache sha ord (bmp_key sha 0 ord) (bmp_key sha 1 ord) r = Inr r'"
    using r'(1) ord by (simp add: process_bmpcache_def wire_idx_def)
  moreover have "memblt_bitmap (of_nat k) (of_nat i) r' = Inr (Some b)"
    using elem_bmp_get [of k i r'] k i r'(4,5) by (simp add: memblt_bitmap_def)
  ultimately show ?thesis using r'(2-6) by (intro that [of r']) auto
qed

definition with_cached :: "nat \<Rightarrow> nat \<Rightarrow> bmp_cache \<Rightarrow> bmp_cache" where
  "with_cached k i bc = bc\<lparr>bc_caches := (bc_caches bc)[k := (bc_caches bc ! k)
     \<lparr>ca_elems := (ca_elems (bc_caches bc ! k))[i := (ca_elems (bc_caches bc ! k) ! i)\<lparr>ce_cached := True\<rparr>]\<rparr>]\<rparr>"

lemma cache_wf_same:
  assumes "length (ca_elems d) = length (ca_elems c)" "ca_sorted d = ca_sorted c"
    "\<And>j. ce_bmp (ca_elems d ! j) = ce_bmp (ca_elems c ! j)" "\<And>j. ce_sha1 (ca_elems d ! j) = ce_sha1 (ca_elems c ! j)"
  shows "cache_wf sha lim d = cache_wf sha lim c"
  using assms by (simp add: cache_wf_def)

lemma with_cached_at:
  assumes "bmp_ok sha bc" "k < bc_number bc" "i < length (ca_elems (bc_caches bc ! k))"
  shows "in_set n (with_cached k i bc) = in_set n bc" "ce_bmp (elem_at n j (with_cached k i bc)) = ce_bmp (elem_at n j bc)"
    "ce_cached (elem_at n j (with_cached k i bc)) = (n = k \<and> j = i \<or> ce_cached (elem_at n j bc))"
    "same_shape bc (with_cached k i bc)" "bmp_ok sha (with_cached k i bc)"
proof -
  have k: "k < length (bc_caches bc)" using bmp_okD(1,2) [OF assms(1,2)] by simp
  show "in_set n (with_cached k i bc) = in_set n bc" "ce_bmp (elem_at n j (with_cached k i bc)) = ce_bmp (elem_at n j bc)"
    "ce_cached (elem_at n j (with_cached k i bc)) = (n = k \<and> j = i \<or> ce_cached (elem_at n j bc))"
    using k assms(3) by (auto simp: with_cached_def in_set_def elem_at_def nth_update_cases)
  show "same_shape bc (with_cached k i bc)"
    by (simp add: with_cached_def same_shape_def real_entries_def nth_update_cases)
  have re: "real_entries n (with_cached k i bc) = real_entries n bc" for n
    by (simp add: with_cached_def real_entries_def nth_update_cases)
  have wf: "cache_wf sha lim (bc_caches (with_cached k i bc) ! n) = cache_wf sha lim (bc_caches bc ! n)" for lim n
    by (rule cache_wf_same) (auto simp: with_cached_def nth_update_cases)
  have lens: "length (ca_elems (bc_caches (with_cached k i bc) ! n)) = length (ca_elems (bc_caches bc ! n))" for n
    by (simp add: with_cached_def nth_update_cases)
  show "bmp_ok sha (with_cached k i bc)"
    using assms(1) unfolding bmp_ok_def re wf lens by (simp add: with_cached_def)
qed

lemma mirror_other:
  assumes m: "mirror s r" and shape: "same_shape s s'" and r: "bc_owner r' = bc_owner r" "length (bc_caches r') = MAXIMUM_NUMBER_OF_CACHES"
    "\<And>j. length (ca_elems (bc_caches r' ! j)) = length (ca_elems (bc_caches r ! j))"
    and at: "ce_bmp (elem_at k i s') = Some b" "ce_bmp (elem_at k i r') = Some b" "ce_cached (elem_at k i s')"
    and others: "\<And>n j. n \<noteq> k \<or> j \<noteq> i \<Longrightarrow> elem_at n j r' = elem_at n j r"
    "\<And>n j. n \<noteq> k \<or> j \<noteq> i \<Longrightarrow> ce_bmp (elem_at n j s') = ce_bmp (elem_at n j s) \<and> ce_cached (elem_at n j s') = ce_cached (elem_at n j s)"
    and sets: "\<And>n. in_set n s' \<subseteq> (if n = k then insert i (in_set n s) else in_set n s)"
  shows "mirror s' r'"
proof -
  have "(bc_owner s' \<noteq> Recorder \<longrightarrow> ce_cached (elem_at n j s')) \<and> (ce_cached (elem_at n j s') \<longrightarrow> ce_bmp (elem_at n j r') = ce_bmp (elem_at n j s'))"
    if n: "n < bc_number s'" "j \<in> in_set n s'" for n j
  proof (cases "n = k \<and> j = i")
    case True
    with at show ?thesis by simp
  next
    case False
    with n(2) sets [of n] have "j \<in> in_set n s" by (auto split: if_splits)
    with m shape n(1) others(1) [of n j] others(2) [of n j] False show ?thesis
      by (auto simp: mirror_def same_shape_def)
  qed
  with m shape r show ?thesis by (simp add: mirror_def same_shape_def)
qed

lemma mirror_cacheD:
  assumes "mirror s r" "k < bc_number s"
  shows "length (bc_caches r) = MAXIMUM_NUMBER_OF_CACHES" "bc_owner r \<noteq> Front" "bc_owner s \<noteq> Mod_rdp" "k < 4"
    "length (ca_elems (bc_caches r ! k)) = length (ca_elems (bc_caches s ! k))"
    "i \<in> in_set k s \<Longrightarrow> bc_owner s \<noteq> Recorder \<Longrightarrow> ce_cached (elem_at k i s)"
    "i \<in> in_set k s \<Longrightarrow> ce_cached (elem_at k i s) \<Longrightarrow> ce_bmp (elem_at k i r) = ce_bmp (elem_at k i s)"
  using assms by (auto simp: mirror_def)

lemma is_persistent_small: "k < 5 \<Longrightarrow> is_cache_persistent (of_nat k) bc = Inr (ca_persistent (bc_caches bc ! k))"
  by (simp add: is_cache_persistent_def)

lemma draw_found:
  assumes ok: "bmp_ok sha s" and m: "mirror s r" and k: "k < bc_number s" and i: "i \<in> in_set k s"
    and run: "cache_bitmap sha old s = Inr (cache_result FOUND_IN_CACHE (of_nat k) i, touch k i s)"
    and b: "ce_bmp (elem_at k i s) = Some b"
  obtains msg s' r' where "draw_bitmap sha old s = Inr (msg, s')" "receive_bitmap sha msg r = Inr (Some b, r')"
    "bmp_ok sha s'" "mirror s' r'" "same_shape s s'" "carries b msg" "\<And>x. held x s' \<Longrightarrow> held x s"
proof -
  note M = mirror_cacheD [OF m k]
  let ?t = "touch k i s"
  note T = touch_at [OF ok k, where i = i]
  have tok: "bmp_ok sha ?t" by (rule touch_ok [OF ok k])
  have tm: "mirror ?t r" by (rule mirror_same [OF m T(4) T(1) T(2,3)])
  have tk: "k < bc_number ?t" "bc_owner ?t = bc_owner s" using k T(4) by (simp_all add: same_shape_def)
  obtain lens: "i < BITMAPCACHE_WAITING_LIST_INDEX" "i < length (ca_elems (bc_caches s ! k))"
    using in_setD [OF ok k i] real_entries_bound [OF ok k] by metis
  have len_t: "i < length (ca_elems (bc_caches ?t ! k))" using lens(2) T(4) by (simp add: same_shape_def)
  have len_r: "i < length (ca_elems (bc_caches r ! k))" using lens(2) M(5) by simp
  have i16: "i < 65536" and k5: "k < 5" using lens M(4) by simp_all
  note F = result_fields [OF i16 k5, of 0, simplified]
  have bt: "ce_bmp (elem_at k i ?t) = Some b" using T(2) b by simp
  show ?thesis
  proof (cases "ce_cached (elem_at k i s)")
    case True
    have "draw_bitmap sha old s = Inr ((None, of_nat k, of_nat i), ?t)"
      using run F True lens len_t k5 tk T(3)
      by (simp add: draw_bitmap_def Let_def bmp_is_cached_def elem_at_def)
    moreover have "receive_bitmap sha (None, of_nat k, of_nat i) r = Inr (Some b, r)"
      using elem_bmp_get [OF k5 lens(1) len_r] M(4) M(7) [OF i True] b by (simp add: memblt_bitmap_def)
    ultimately show ?thesis using that tok tm T(4) held_same [OF T(4,1,2)] carries_None by blast
  next
    case False
    with M(6) [OF i] have rec: "bc_owner s = Recorder" by blast
    let ?w = "with_cached k i ?t"
    note W = with_cached_at [OF tok tk(1) len_t]
    define ord where "ord = \<lparr>bo_id = of_nat k :: u8, bo_idx = of_nat i, bo_bmp = b,
      bo_persistent = ca_persistent (bc_caches ?t ! k), bo_do_not_cache = False\<rparr>"
    have "bmp_set_cached (of_nat k) (of_nat i) True ?t = Inr ?w"
      using rec tk lens len_t k5 by (simp add: bmp_set_cached_def with_cached_def Let_def)
    moreover have "bmp_is_cached (of_nat k) (of_nat i) ?t = Inr False"
      using rec tk lens len_t k5 False T(3) by (simp add: bmp_is_cached_def elem_at_def)
    moreover have "emit_bmp_cache (of_nat k) (of_nat i) False ?t = Inr (Some ord)"
      using elem_bmp_get [OF k5 lens(1) len_t] bt is_persistent_small [OF k5] by (simp add: emit_bmp_cache_def ord_def)
    ultimately have d: "draw_bitmap sha old s = Inr ((Some ord, of_nat k, of_nat i), ?w)"
      using run F rec tk by (simp add: draw_bitmap_def Let_def)
    obtain r' where r': "receive_bitmap sha (Some ord, of_nat k, of_nat i) r = Inr (Some b, r')" "bc_owner r' = bc_owner r"
      "length (bc_caches r') = MAXIMUM_NUMBER_OF_CACHES"
      "\<And>j. length (ca_elems (bc_caches r' ! j)) = length (ca_elems (bc_caches r ! j))"
      "ce_bmp (elem_at k i r') = Some b" "\<And>j n. j \<noteq> k \<or> n \<noteq> i \<Longrightarrow> elem_at j n r' = elem_at j n r"
      by (rule order_received [OF M(1,4) lens(1) len_r, of ord b sha]) (simp_all add: ord_def)
    have "mirror ?w r'"
      by (rule mirror_other [OF tm W(4) r'(2,3,4), of k i b])
        (use r'(5,6) W bt in \<open>auto split: if_splits\<close>)
    moreover have "carries b (Some ord, of_nat k, of_nat i)" unfolding ord_def by (rule carries_order [OF k5 lens(1)])
    moreover have "held x ?w = held x s" for x
      using held_same [OF W(4,1,2), of x] held_same [OF T(4,1,2), of x] by simp
    ultimately show ?thesis using d r'(1) W(5) same_shape_trans [OF T(4) W(4)] that by blast
  qed
qed

lemma draw_added:
  assumes ok: "bmp_ok sha s" and m: "mirror s r" and k: "k < bc_number s" and i: "i < real_entries k s"
    and run: "cache_bitmap sha old s = Inr (cache_result ADDED_TO_CACHE (of_nat k) i, s')"
    and ok': "bmp_ok sha s'" and shape: "same_shape s s'"
    and b: "ce_bmp (elem_at k i s') = Some b" "ce_cached (elem_at k i s')"
    and sets: "in_set k s' = insert i (in_set k s)" "\<And>n. n \<noteq> k \<Longrightarrow> in_set n s' = in_set n s"
    and others: "\<And>n j. n \<noteq> k \<or> j \<noteq> i \<Longrightarrow> elem_at n j s' = elem_at n j s"
  obtains msg r' where "draw_bitmap sha old s = Inr (msg, s')" "receive_bitmap sha msg r = Inr (Some b, r')" "mirror s' r'"
    "carries b msg" "\<And>x. held x s' \<Longrightarrow> x = b \<or> held x s"
proof -
  note M = mirror_cacheD [OF m k]
  note lens = real_entries_bound [OF ok k i]
  have len': "i < length (ca_elems (bc_caches s' ! k))" using lens(2) shape by (simp add: same_shape_def)
  have len_r: "i < length (ca_elems (bc_caches r ! k))" using lens(2) M(5) by simp
  have i16: "i < 65536" and k5: "k < 5" using lens M(4) by simp_all
  note F = result_fields [OF i16 k5, of 1, simplified]
  define ord where "ord = \<lparr>bo_id = of_nat k :: u8, bo_idx = of_nat i, bo_bmp = b,
    bo_persistent = ca_persistent (bc_caches s' ! k), bo_do_not_cache = False\<rparr>"
  have "emit_bmp_cache (of_nat k) (of_nat i) False s' = Inr (Some ord)"
    using elem_bmp_get [OF k5 lens(1) len'] b is_persistent_small [OF k5] by (simp add: emit_bmp_cache_def ord_def)
  then have d: "draw_bitmap sha old s = Inr ((Some ord, of_nat k, of_nat i), s')"
    using run F by (simp add: draw_bitmap_def Let_def)
  obtain r' where r': "receive_bitmap sha (Some ord, of_nat k, of_nat i) r = Inr (Some b, r')" "bc_owner r' = bc_owner r"
    "length (bc_caches r') = MAXIMUM_NUMBER_OF_CACHES"
    "\<And>j. length (ca_elems (bc_caches r' ! j)) = length (ca_elems (bc_caches r ! j))"
    "ce_bmp (elem_at k i r') = Some b" "\<And>j n. j \<noteq> k \<or> n \<noteq> i \<Longrightarrow> elem_at j n r' = elem_at j n r"
    by (rule order_received [OF M(1,4) lens(1) len_r, of ord b sha]) (simp_all add: ord_def)
  have "mirror s' r'"
    by (rule mirror_other [OF m shape r'(2,3,4) b(1) r'(5) b(2) r'(6)]) (use others sets in auto)
  moreover have "carries b (Some ord, of_nat k, of_nat i)" unfolding ord_def by (rule carries_order [OF k5 lens(1)])
  moreover have "x = b \<or> held x s" if "held x s'" for x
  proof -
    from that obtain n j where n: "n < bc_number s'" "j \<in> in_set n s'" "ce_bmp (elem_at n j s') = Some x" by (auto simp: held_def)
    show ?thesis
    proof (cases "n = k \<and> j = i")
      case True
      with n(3) b(1) show ?thesis by simp
    next
      case False
      then have "elem_at n j s' = elem_at n j s" by (intro others) auto
      moreover have "j \<in> in_set n s" using n(2) sets False by (cases "n = k") auto
      ultimately show ?thesis using n(1,3) shape by (auto simp: held_def same_shape_def)
    qed
  qed
  ultimately show ?thesis using d r'(1) that by blast
qed

text \<open>The bitmap of the waiting list goes to the last entry of the receiver, which the sender does not use.\<close>

lemma draw_waiting:
  assumes ok: "bmp_ok sha s" and m: "mirror s r" and k: "k < bc_number s" and i: "i < BITMAPCACHE_WAITING_LIST_INDEX"
    and run: "cache_bitmap sha old s = Inr (cache_result ADDED_TO_CACHE (of_nat k OR IN_WAIT_LIST) i, s')"
    and shape: "same_shape s s'" and caches: "bc_caches s' = bc_caches s"
    and b: "bc_waiting_bitmap s' = Some b" and wl: "bc_use_waiting_list s"
  obtains msg r' where "draw_bitmap sha old s = Inr (msg, s')" "receive_bitmap sha msg r = Inr (Some b, r')" "mirror s' r'"
    "carries b msg" "\<And>x. held x s' \<Longrightarrow> held x s"
proof -
  note M = mirror_cacheD [OF m k]
  let ?n = "length (ca_elems (bc_caches r ! k))"
  have i16: "i < 65536" and k5: "k < 5" using i M(4) by simp_all
  note F = result_fields [OF i16 k5, of 1, simplified]
  have real: "0 < real_entries k s" "real_entries k s = ?n - 1" using bmp_okD(4) [OF ok k] M(5) wl by (simp_all add: real_entries_def)
  have own: "bc_owner s' \<noteq> Mod_rdp" using M(3) shape by (simp add: same_shape_def)
  define ord where "ord = \<lparr>bo_id = of_nat k :: u8, bo_idx = of_nat i, bo_bmp = b,
    bo_persistent = ca_persistent (bc_caches s' ! k), bo_do_not_cache = True\<rparr>"
  have "emit_bmp_cache (of_nat k) (of_nat i) True s' = Inr (Some ord)"
    using b own is_persistent_small [OF k5] by (simp add: emit_bmp_cache_def ord_def bmp_get_def)
  then have d: "draw_bitmap sha old s = Inr ((Some ord, of_nat k, of_nat BITMAPCACHE_WAITING_LIST_INDEX), s')"
    using run F by (simp add: draw_bitmap_def Let_def)
  have last: "?n - 1 < ?n" using real by linarith
  obtain r' where r': "bmp_put sha (of_nat k) (of_nat BITMAPCACHE_WAITING_LIST_INDEX) b (bmp_key sha 0 ord) (bmp_key sha 1 ord) r = Inr r'"
    "bc_owner r' = bc_owner r" "length (bc_caches r') = MAXIMUM_NUMBER_OF_CACHES"
    "\<And>j. length (ca_elems (bc_caches r' ! j)) = length (ca_elems (bc_caches r ! j))"
    "ce_bmp (elem_at k (?n - 1) r') = Some b" "\<And>j n. j \<noteq> k \<or> n \<noteq> ?n - 1 \<Longrightarrow> elem_at j n r' = elem_at j n r"
    by (rule bmp_put_at [OF k5 M(1) last, of "of_nat BITMAPCACHE_WAITING_LIST_INDEX" sha b "bmp_key sha 0 ord" "bmp_key sha 1 ord"]) auto
  have p: "process_bmpcache sha ord (bmp_key sha 0 ord) (bmp_key sha 1 ord) r = Inr r'"
    using r'(1) by (simp add: process_bmpcache_def wire_idx_def ord_def)
  have "memblt_bitmap (of_nat k) (of_nat BITMAPCACHE_WAITING_LIST_INDEX) r' = Inr (Some b)"
    using M(2,4) r'(2,4,5) last k5 by (simp add: memblt_bitmap_def bmp_get_def elem_at_def)
  with p have rcv: "receive_bitmap sha (Some ord, of_nat k, of_nat BITMAPCACHE_WAITING_LIST_INDEX) r = Inr (Some b, r')" by simp
  have "mirror s' r'"
    unfolding mirror_def
  proof (intro conjI allI impI ballI)
    fix n j assume n: "n < bc_number s'" and j: "j \<in> in_set n s'"
    have n': "n < bc_number s" "j \<in> in_set n s" using n j shape caches by (simp_all add: same_shape_def in_set_def)
    have "j < real_entries n s" using in_setD [OF ok n'] by blast
    then have "n \<noteq> k \<or> j \<noteq> ?n - 1" using real by auto
    then have e: "elem_at n j r' = elem_at n j r" by (rule r'(6))
    have same: "elem_at n j s' = elem_at n j s" using caches by (simp add: elem_at_def)
    show "ce_cached (elem_at n j s')" if "bc_owner s' \<noteq> Recorder"
      using mirror_cacheD(6) [OF m n'] that shape same by (simp add: same_shape_def)
    show "ce_bmp (elem_at n j r') = ce_bmp (elem_at n j s')" if "ce_cached (elem_at n j s')"
      using mirror_cacheD(7) [OF m n'] that same e by simp
  qed (use m shape r' caches in \<open>auto simp: mirror_def same_shape_def\<close>)
  moreover have "carries b (Some ord, of_nat k, of_nat BITMAPCACHE_WAITING_LIST_INDEX)"
    unfolding ord_def by (rule carries_order [OF k5 i])
  moreover have "held x s' = held x s" for x
    by (rule held_same [OF shape]) (simp_all add: in_set_def elem_at_def caches)
  ultimately show ?thesis using d rcv that by blast
qed

text \<open>One bitmap, in whatever of the three ways.\<close>

lemma draw_bitmap_mirrored:
  assumes ok: "bmp_ok sha s" and m: "mirror s r" and conv: "convert_bitmap (bc_bpp s) old = Inr bmp"
    and for_it: "cache_for (bmp_size bmp) s = Some k"
  obtains msg s' b r' where "draw_bitmap sha old s = Inr (msg, s')" "receive_bitmap sha msg r = Inr (Some b, r')"
    "compute_sha1 sha b = compute_sha1 sha bmp" "bmp_ok sha s'" "mirror s' r'" "same_shape s s'"
    "carries b msg" "b = bmp \<or> held b s" "\<And>x. held x s' \<Longrightarrow> x = bmp \<or> held x s"
proof -
  have own: "bc_owner s \<noteq> Mod_rdp" using m by (simp add: mirror_def)
  have k: "k < bc_number s" using cache_for_Some [OF for_it] by simp
  show ?thesis
  proof (cases rule: cache_bitmap_cases [OF ok own conv for_it, case_names found added waiting])
    case (found i)
    obtain b where b: "ce_bmp (elem_at k i s) = Some b" "ce_sha1 (elem_at k i s) = compute_sha1 sha b"
      using in_setD [OF ok k found(2)] by blast
    have hb: "held b s" using k found(2) b(1) by (auto simp: held_def)
    have sh: "compute_sha1 sha b = compute_sha1 sha bmp" using b(2) found(3) by simp
    show ?thesis
      by (rule draw_found [OF ok m k found(2) found(1) b(1)]) (rule that [of _ _ b], (assumption | use hb sh in blast)+)
  next
    case (added i s')
    show ?thesis
      by (rule draw_added [OF ok m k added(2) added(1) added(3-6) added(7) added(8) added(9)])
        (assumption | rule that [of _ _ bmp] | use added(3,4) in simp)+
  next
    case (waiting i s')
    show ?thesis
      by (rule draw_waiting [OF ok m k waiting(2) waiting(1) waiting(4,5,6,7)]) (rule that [of _ _ bmp], (assumption | use waiting(3,4) in blast)+)
  qed
qed

lemma cache_for_shape: "same_shape s s' \<Longrightarrow> cache_for n s' = cache_for n s"
  by (simp add: cache_for_def same_shape_def)

text \<open>
  Whatever bitmaps are drawn: neither end fails, and each message carries a bitmap of the hash of the one drawn, which is one
  that was drawn or that the cache held before.
\<close>

lemma bitmaps_mirrored:
  assumes "bmp_ok sha s" "mirror s r"
    and "list_all2 (\<lambda>old bmp. convert_bitmap (bc_bpp s) old = Inr bmp \<and> cache_for (bmp_size bmp) s \<noteq> None) olds bmps"
  shows "\<exists>ms s' bs r'. send_bitmaps sha olds s = Inr (ms, s') \<and> receive_bitmaps sha ms r = Inr (map Some bs, r')
    \<and> map (compute_sha1 sha) bs = map (compute_sha1 sha) bmps \<and> bmp_ok sha s' \<and> mirror s' r'
    \<and> list_all2 carries bs ms \<and> (\<forall>b\<in>set bs. b \<in> set bmps \<or> held b s)"
  using assms
proof (induction bmps arbitrary: olds s r)
  case Nil
  then show ?case by (intro exI [of _ "[]"] exI [of _ s] exI [of _ r]) simp
next
  case (Cons bmp bmps)
  then obtain old olds' k where olds: "olds = old # olds'" and k: "cache_for (bmp_size bmp) s = Some k"
    and conv: "convert_bitmap (bc_bpp s) old = Inr bmp"
    and later: "list_all2 (\<lambda>old bmp. convert_bitmap (bc_bpp s) old = Inr bmp \<and> cache_for (bmp_size bmp) s \<noteq> None) olds' bmps"
    by (auto simp: list_all2_Cons2)
  obtain msg s' b r' where step: "draw_bitmap sha old s = Inr (msg, s')" "receive_bitmap sha msg r = Inr (Some b, r')"
    "compute_sha1 sha b = compute_sha1 sha bmp" "bmp_ok sha s'" "mirror s' r'" "same_shape s s'"
    "carries b msg" "b = bmp \<or> held b s" "\<And>x. held x s' \<Longrightarrow> x = bmp \<or> held x s"
    by (rule draw_bitmap_mirrored [OF Cons.prems(1,2) conv k]) blast
  have "list_all2 (\<lambda>old bmp. convert_bitmap (bc_bpp s') old = Inr bmp \<and> cache_for (bmp_size bmp) s' \<noteq> None) olds' bmps"
    using later cache_for_shape [OF step(6)] step(6) by (simp add: same_shape_def)
  from Cons.IH [OF step(4,5) this] obtain ms s'' bs r'' where
    rest: "send_bitmaps sha olds' s' = Inr (ms, s'')" "receive_bitmaps sha ms r' = Inr (map Some bs, r'')"
    "map (compute_sha1 sha) bs = map (compute_sha1 sha) bmps" "bmp_ok sha s''" "mirror s'' r''"
    "list_all2 carries bs ms" "\<forall>b\<in>set bs. b \<in> set bmps \<or> held b s'"
    by blast
  have "\<forall>x\<in>set (b # bs). x \<in> set (bmp # bmps) \<or> held x s" using step(8,9) rest(7) by auto
  then show ?case
    unfolding olds
    using step(1-7) rest(1-6) by (intro exI [of _ "msg # ms"] exI [of _ s''] exI [of _ "b # bs"] exI [of _ r'']) simp
qed

text \<open>
  Whatever bitmaps are drawn, in whatever order: as long as each has a depth the caches can convert and a size
  one of them holds, neither end fails, and the receiver draws each of them with a bitmap of the same hash
  as the one drawn, whether the cache found it, replaced an old entry by it or kept it on the waiting
  list. The two caches stay mirrored.
\<close>

theorem drawn_bitmaps_mirrored:
  assumes "bmp_ok sha s" "mirror s r"
    and "list_all2 (\<lambda>old bmp. convert_bitmap (bc_bpp s) old = Inr bmp \<and> cache_for (bmp_size bmp) s \<noteq> None) olds bmps"
  shows "\<exists>ms s' bs r'. send_bitmaps sha olds s = Inr (ms, s') \<and> receive_bitmaps sha ms r = Inr (map Some bs, r')
    \<and> map (compute_sha1 sha) bs = map (compute_sha1 sha) bmps \<and> bmp_ok sha s' \<and> mirror s' r'"
  using bitmaps_mirrored [OF assms] by blast

text \<open>
  The cache a \<open>Front\<close> or a \<open>Recorder\<close> starts with and the one a \<open>mod_rdp\<close> makes from the same options are
  well-formed and mirrored, provided no cache is empty, none has more than 32767 entries and there are at
  most four; with a waiting list, each needs the entry reserved for it and one more.
\<close>

theorem new_caches_mirrored:
  assumes mk: "mk_bmp_cache owner bpp number wl opts = Inr s" "mk_bmp_cache Mod_rdp bpp' number wl' opts = Inr r"
    and own: "owner \<noteq> Mod_rdp" and number: "number \<le> 4"
    and sizes: "\<forall>k < number. (if wl then 1 else 0) < unat (fst (opts ! k)) \<and> unat (fst (opts ! k)) \<le> BITMAPCACHE_WAITING_LIST_INDEX"
  shows "bmp_ok sha s \<and> mirror s r"
proof -
  note S = mk_bmp_cache_ok [OF mk(1) sizes]
  have "bc_owner r = Mod_rdp" "bc_caches r = bc_caches s" "length (bc_caches r) = 5"
    using mk by (auto simp: mk_bmp_cache_def assertR_eq_Inr)
  moreover have "in_set k s = {}" if "k < number" for k
    using S(7) that number by (simp add: in_set_def mk_cache_def split: prod.splits)
  ultimately show ?thesis using S(1-6) own number by (simp add: mirror_def)
qed

theorem new_caches_mirrored_witness:
  "bmp_ok sample_sha (sample_cache Recorder True) \<and> mirror (sample_cache Recorder True) (sample_cache Mod_rdp False)"
proof -
  obtain s r where mk: "mk_bmp_cache Recorder 16 3 True sample_options = Inr s" "mk_bmp_cache Mod_rdp 16 3 False sample_options = Inr r"
    by (simp add: mk_bmp_cache_def number_of_caches_def sample_options_def)
  have sizes: "\<forall>k < 3. (if True then 1 else 0) < unat (fst (sample_options ! k)) \<and> unat (fst (sample_options ! k)) \<le> BITMAPCACHE_WAITING_LIST_INDEX"
    by (auto simp: sample_options_def less_Suc_eq numeral_3_eq_3)
  have "s = sample_cache Recorder True" "r = sample_cache Mod_rdp False" using mk by (simp_all add: sample_cache_def)
  with new_caches_mirrored [OF mk _ _ sizes] show ?thesis by simp
qed

lemma sample_caches_mirrored: "mirror (sample_cache Recorder True) (sample_cache Mod_rdp False)"
  by (simp add: mirror_def sample_cache_ok in_set_def mk_cache_def sample_options_def less_Suc_eq numeral_3_eq_3)

theorem drawn_bitmaps_mirrored_witness:
  "\<exists>ms s' bs r'. send_bitmaps sample_sha [sample_bitmap16, sample_bitmap16, sample_bitmap16] (sample_cache Recorder True) = Inr (ms, s')
    \<and> receive_bitmaps sample_sha ms (sample_cache Mod_rdp False) = Inr (map Some bs, r')
    \<and> map (compute_sha1 sample_sha) bs = map (compute_sha1 sample_sha) [sample_bitmap16, sample_bitmap16, sample_bitmap16]
    \<and> bmp_ok sample_sha s' \<and> mirror s' r'"
  by (rule drawn_bitmaps_mirrored [OF sample_cache_ok(1) sample_caches_mirrored])
    (simp add: sample_bitmap_in_cache [simplified])

end
