(* ===== verification/Rle.thy ===== *)
theory Rle
  imports Bitmaps
begin

text \<open>
  The interleaved run-length encoding of bitmaps: \<open>compress_\<close> and \<open>decompress_\<close> of \<open>RLEDecompressorImpl\<close>
  and their callers \<open>rle_compress\<close>, \<open>rle_decompress\<close> (\<open>utils/rle.cpp\<close>).

  The code moves the pointers \<open>p\<close>, \<open>out\<close> through the image by whole pixels of \<open>Bpp\<close> bytes; here an image is
  the list of its pixels, \<open>p\<close> an index and \<open>out\<close> the list of the pixels written, and \<open>line_size\<close> is counted in
  pixels. The encoded bytes are lists of bytes, and \<open>input\<close> is what is left of them.
\<close>

subsection \<open>Pixels as bytes\<close>

text \<open>\<open>out_bytes_le\<close> and \<open>in_uint32_from_nb_bytes_le\<close>.\<close>

definition pixel_bytes :: "nat \<Rightarrow> u32 \<Rightarrow> u8 list" where
  "pixel_bytes nb v = map (\<lambda>b. ucast (drop_bit (8 * b) v)) [0..<nb]"

fun pixel_of :: "u8 list \<Rightarrow> u32" where
  "pixel_of [] = 0"
| "pixel_of (b # bs) = ucast b OR push_bit 8 (pixel_of bs)"

definition next_byte :: "u8 list \<Rightarrow> (u8 \<times> u8 list) res" where
  "next_byte input = (case input of [] \<Rightarrow> Inl UB | b # bs \<Rightarrow> Inr (b, bs))"

definition next_pixel :: "nat \<Rightarrow> u8 list \<Rightarrow> (u32 \<times> u8 list) res" where
  "next_pixel nb input = assertR (nb \<le> length input) (Inr (pixel_of (take nb input), drop nb input))"

text \<open>The pixel one line before position \<open>p\<close> of \<open>img\<close>, black on the first line.\<close>

definition pixel_above :: "nat \<Rightarrow> u32 list \<Rightarrow> nat \<Rightarrow> u32" where
  "pixel_above w img p = (if p < w then 0 else img ! (p - w))"

subsection \<open>Decompression\<close>

abbreviation (input) FILL :: nat where "FILL \<equiv> 0"
abbreviation (input) MIX :: nat where "MIX \<equiv> 1"
abbreviation (input) FOM :: nat where "FOM \<equiv> 2"
abbreviation (input) COLOR :: nat where "COLOR \<equiv> 3"
abbreviation (input) COPY :: nat where "COPY \<equiv> 4"
abbreviation (input) MIX_SET :: nat where "MIX_SET \<equiv> 6"
abbreviation (input) FOM_SET :: nat where "FOM_SET \<equiv> 7"
abbreviation (input) BICOLOR :: nat where "BICOLOR \<equiv> 8"
abbreviation (input) SPECIAL_FGBG_1 :: nat where "SPECIAL_FGBG_1 \<equiv> 9"
abbreviation (input) SPECIAL_FGBG_2 :: nat where "SPECIAL_FGBG_2 \<equiv> 10"
abbreviation (input) WHITE :: nat where "WHITE \<equiv> 13"
abbreviation (input) BLACK :: nat where "BLACK \<equiv> 14"

text \<open>
  The image to fill: bytes per pixel, \<open>dst_cx\<close>, \<open>src_cx\<close>, its number of pixels (\<open>pmax - pmin\<close>), and whether
  the caller asks for the number of bytes used (\<open>RM18446_adjusted_size\<close> is not null). The state is the local
  variables that outlive an order.
\<close>

record rle_image =
  ri_nb :: nat
  ri_dst_cx :: u16
  ri_src_cx :: u16
  ri_len :: nat
  ri_adjust :: bool

record rle_state =
  rs_input :: "u8 list"
  rs_out :: "u32 list"
  rs_x :: u16
  rs_color1 :: u32
  rs_color2 :: u32
  rs_mix :: u32
  rs_mask :: u32
  rs_fom_mask :: u32
  rs_bicolor :: bool
  rs_last :: nat

text \<open>The operator and its count; the counts with two bytes allow the operator 5, whose pixels are an error.\<close>

definition read_code :: "u8 list \<Rightarrow> ((nat \<times> nat) \<times> u8 list) res" where
  "read_code input = bindR (next_byte input) (\<lambda>(code, input).
     let h = unat (drop_bit 4 code); low = unat (code AND 0xf);
         short = (\<lambda>opcode count base scale. if count \<noteq> 0 then Inr ((opcode, count * scale), input)
                   else bindR (next_byte input) (\<lambda>(b, input). Inr ((opcode, unat b + base), input))) in
     if h = 0xf then
       (if code = 0xFD then Inr ((WHITE, 1), input)
        else if code = 0xFE then Inr ((BLACK, 1), input)
        else if code = 0xFA then Inr ((SPECIAL_FGBG_2, 8), input)
        else if code = 0xF9 then Inr ((SPECIAL_FGBG_1, 8), input)
        else assertR (low \<noteq> 11 \<and> low \<noteq> 12 \<and> low \<noteq> 15)
          (bindR (next_byte input) (\<lambda>(b0, input). bindR (next_byte input) (\<lambda>(b1, input).
             let count = unat b0 + 256 * unat b1 in
             Inr ((low, if code = 0xF8 then count + count else count), input)))))
     else if h = 0xe then
       (if low \<noteq> 0 then Inr ((BICOLOR, low + low), input)
        else bindR (next_byte input) (\<lambda>(b, input). Inr ((BICOLOR, (unat b + 16) + (unat b + 16)), input)))
     else if h = 0xd then short FOM_SET low 1 8
     else if h = 5 \<or> h = 4 then short FOM (unat (code AND 0x1F)) 1 8
     else if h = 0xc then short MIX_SET low 16 1
     else (let opcode = unat (drop_bit 5 code) in
       bindR (short opcode (unat (code AND 0x1f)) 32 1) (\<lambda>r. assertR (opcode < 5) (Inr r))))"

definition read_data :: "nat \<Rightarrow> nat \<Rightarrow> rle_state \<Rightarrow> rle_state res" where
  "read_data nb opcode s =
     (if opcode = FOM then bindR (next_byte (rs_input s)) (\<lambda>(b, input).
        Inr (s\<lparr>rs_mask := 1, rs_fom_mask := ucast b, rs_input := input\<rparr>))
      else if opcode = SPECIAL_FGBG_1 then Inr (s\<lparr>rs_mask := 1, rs_fom_mask := 3\<rparr>)
      else if opcode = SPECIAL_FGBG_2 then Inr (s\<lparr>rs_mask := 1, rs_fom_mask := 5\<rparr>)
      else if opcode = BICOLOR then bindR (next_pixel nb (rs_input s)) (\<lambda>(c1, input). bindR (next_pixel nb input) (\<lambda>(c2, input).
        Inr (s\<lparr>rs_bicolor := False, rs_color1 := c1, rs_color2 := c2, rs_input := input\<rparr>)))
      else if opcode = COLOR then bindR (next_pixel nb (rs_input s)) (\<lambda>(c2, input).
        Inr (s\<lparr>rs_color2 := c2, rs_input := input\<rparr>))
      else if opcode = MIX_SET then bindR (next_pixel nb (rs_input s)) (\<lambda>(m, input).
        Inr (s\<lparr>rs_mix := m, rs_input := input\<rparr>))
      else if opcode = FOM_SET then bindR (next_pixel nb (rs_input s)) (\<lambda>(m, input). bindR (next_byte input) (\<lambda>(b, input).
        Inr (s\<lparr>rs_mix := m, rs_mask := 1, rs_fom_mask := ucast b, rs_input := input\<rparr>)))
      else Inr s)"

text \<open>One pixel written, and the padding after the last of a line.\<close>

definition put_pixel :: "rle_image \<Rightarrow> u32 \<Rightarrow> rle_state \<Rightarrow> rle_state res" where
  "put_pixel c v s =
     (if ri_len c \<le> length (rs_out s) then Inl UB_WRITE
      else let out = rs_out s @ [take_bit (8 * ri_nb c) v]; x = rs_x s + 1; pad = unat (ri_dst_cx c) - unat (ri_src_cx c) in
        if x = ri_src_cx c
        then (if ri_len c < length out + pad then Inl UB_WRITE
              else Inr (s\<lparr>rs_out := out @ replicate pad 0, rs_x := 0\<rparr>))
        else Inr (s\<lparr>rs_out := out, rs_x := x\<rparr>))"

definition yprev :: "rle_image \<Rightarrow> rle_state \<Rightarrow> u32" where
  "yprev c s = pixel_above (unat (ri_dst_cx c)) (rs_out s) (length (rs_out s))"

text \<open>The pixel of the switch in the output loop, before \<open>count--\<close>.\<close>

definition body_pixel :: "rle_image \<Rightarrow> nat \<Rightarrow> rle_state \<Rightarrow> (u32 \<times> rle_state) res" where
  "body_pixel c opcode s =
     (let special = (\<lambda>s. Inr (if has (rs_mask s) (rs_fom_mask s) then yprev c s XOR rs_mix s else yprev c s,
            s\<lparr>rs_mask := push_bit 1 (rs_mask s)\<rparr>)) in
      if opcode = FILL then Inr (yprev c s, s)
      else if opcode = MIX_SET \<or> opcode = MIX then Inr (yprev c s XOR rs_mix s, s)
      else if opcode = FOM_SET \<or> opcode = FOM then
        (if rs_mask s = 0x100
         then bindR (next_byte (rs_input s)) (\<lambda>(b, input). special (s\<lparr>rs_mask := 1, rs_fom_mask := ucast b, rs_input := input\<rparr>))
         else special s)
      else if opcode = SPECIAL_FGBG_1 \<or> opcode = SPECIAL_FGBG_2 then special s
      else if opcode = COLOR then Inr (rs_color2 s, s)
      else if opcode = COPY then bindR (next_pixel (ri_nb c) (rs_input s)) (\<lambda>(v, input). Inr (v, s\<lparr>rs_input := input\<rparr>))
      else if opcode = BICOLOR then
        (if rs_bicolor s then Inr (rs_color2 s, s\<lparr>rs_bicolor := False\<rparr>) else Inr (rs_color1 s, s\<lparr>rs_bicolor := True\<rparr>))
      else if opcode = WHITE then Inr (0xFFFFFFFF, s)
      else if opcode = BLACK then Inr (0, s)
      else Inl UB)"

text \<open>
  The output loop. The left result is the early return of a run that starts at the end of the image;
  \<open>started\<close> is \<open>RM18446_processing_in_progress\<close>.
\<close>

fun run_body :: "rle_image \<Rightarrow> nat \<Rightarrow> nat \<Rightarrow> bool \<Rightarrow> rle_state \<Rightarrow> (rle_state + rle_state) res" where
  "run_body c opcode 0 started s = Inr (Inr s)"
| "run_body c opcode (Suc count) started s =
     (if ri_len c \<le> length (rs_out s)
      then (if ri_adjust c \<and> \<not> started \<and> length (rs_out s) = ri_len c then Inr (Inl s)
            else Inl ERR_BITMAP_DECOMPRESSED_DATA_TOO_LARGE)
      else bindR (body_pixel c opcode s) (\<lambda>(v, s). bindR (put_pixel c v s) (\<lambda>s. run_body c opcode count True s)))"

text \<open>
  The one pixel of foreground between two background runs that do not meet at the end of the first line;
  \<open>count\<close> is unsigned.
\<close>

definition magic_mix :: "rle_image \<Rightarrow> nat \<Rightarrow> nat \<Rightarrow> rle_state \<Rightarrow> (nat \<times> rle_state) res" where
  "magic_mix c opcode count s =
     (if opcode = FILL \<and> opcode = rs_last s \<and> length (rs_out s) \<noteq> unat (ri_dst_cx c)
      then bindR (put_pixel c (yprev c s XOR rs_mix s) s) (\<lambda>s.
        Inr (if count = 0 then 0xFFFFFFFF else count - 1, s))
      else Inr (count, s))"

text \<open>
  One turn of the outer loop: either the result, the pixels and the adjusted size, or the next state.
  \<open>len\<close> is the number of bytes given (\<open>size\<close>), so \<open>len - length input\<close> of them are used.
\<close>

definition run_order :: "rle_image \<Rightarrow> nat \<Rightarrow> rle_state \<Rightarrow> ((u32 list \<times> nat) + rle_state) res" where
  "run_order c len s =
     bindR (read_code (rs_input s)) (\<lambda>((opcode, count), input).
     bindR (read_data (ri_nb c) opcode (s\<lparr>rs_input := input\<rparr>)) (\<lambda>s1.
     bindR (magic_mix c opcode count s1) (\<lambda>(count, s2).
     bindR (run_body c opcode count False (s2\<lparr>rs_last := opcode\<rparr>)) (\<lambda>r. case r of
       Inl s3 \<Rightarrow> Inr (Inl (rs_out s3, len - length (rs_input s)))
     | Inr s3 \<Rightarrow> Inr (if length (rs_out s3) = ri_len c
         then Inl (rs_out s3, if ri_adjust c then len - length (rs_input s3) else 0)
         else Inr s3)))))"

lemma next_byte_eq_Inr: "next_byte input = Inr (b, rest) \<longleftrightarrow> input = b # rest"
  by (auto simp: next_byte_def split: list.splits)

lemma next_pixel_eq_Inr: "next_pixel nb input = Inr (v, rest) \<longleftrightarrow> nb \<le> length input \<and> v = pixel_of (take nb input) \<and> rest = drop nb input"
  by (auto simp: next_pixel_def assertR_eq_Inr)

text \<open>Every turn of the loop reads the operator at least, so the loop ends.\<close>

text \<open>\<open>leaves n m\<close>: whatever \<open>m\<close> reads, it leaves at most \<open>n\<close> bytes.\<close>

definition leaves :: "nat \<Rightarrow> ('a \<times> u8 list) res \<Rightarrow> bool" where
  "leaves n m \<longleftrightarrow> (\<forall>a rest. m = Inr (a, rest) \<longrightarrow> length rest \<le> n)"

lemma leaves_intros:
  "length rest \<le> n \<Longrightarrow> leaves n (Inr (a, rest))" "leaves n (Inl e)"
  "(b \<Longrightarrow> leaves n m) \<Longrightarrow> (\<not> b \<Longrightarrow> leaves n m') \<Longrightarrow> leaves n (if b then m else m')"
  "leaves n m \<Longrightarrow> leaves n (assertR b m)" "leaves n m \<Longrightarrow> leaves n (bindR m (\<lambda>r. assertR (P r) (Inr r)))"
  by (auto simp: leaves_def assertR_eq_Inr bindR_eq_Inr)

lemma leaves_next_byte:
  "(\<And>b rest. length rest < length input \<Longrightarrow> leaves n (f b rest)) \<Longrightarrow> leaves n (bindR (next_byte input) (\<lambda>(b, rest). f b rest))"
  by (cases input) (auto simp: leaves_def next_byte_def)

lemma read_code_shorter:
  assumes "read_code input = Inr (oc, rest)"
  shows "length rest < length input"
proof -
  have "leaves (length input - 1) (read_code input)"
    unfolding read_code_def Let_def by (intro leaves_intros leaves_next_byte) simp_all
  moreover from assms have "input \<noteq> []" by (auto simp: read_code_def next_byte_def)
  ultimately show ?thesis using assms by (cases input) (auto simp: leaves_def)
qed

lemma drop_eq_ConsD: "drop n xs = x # ys \<Longrightarrow> length ys < length xs"
proof -
  assume "drop n xs = x # ys"
  then have "length xs - n = Suc (length ys)" by (metis length_Cons length_drop)
  then show ?thesis by linarith
qed

lemma read_data_shorter: "read_data nb opcode s = Inr s' \<Longrightarrow> length (rs_input s') \<le> length (rs_input s)"
  by (auto simp: read_data_def bindR_eq_Inr next_byte_eq_Inr next_pixel_eq_Inr split: if_splits dest: drop_eq_ConsD)

lemma put_pixel_input: "put_pixel c v s = Inr s' \<Longrightarrow> rs_input s' = rs_input s"
  by (auto simp: put_pixel_def Let_def split: if_splits)

lemma body_pixel_shorter: "body_pixel c opcode s = Inr (v, s') \<Longrightarrow> length (rs_input s') \<le> length (rs_input s)"
  by (auto simp: body_pixel_def Let_def bindR_eq_Inr next_byte_eq_Inr next_pixel_eq_Inr split: if_splits)

lemma run_body_shorter: "run_body c opcode count started s = Inr (Inr s') \<Longrightarrow> length (rs_input s') \<le> length (rs_input s)"
proof (induction c opcode count started s rule: run_body.induct)
  case (2 c opcode count started s)
  from "2.prems" obtain v s1 s2 where "body_pixel c opcode s = Inr (v, s1)" "put_pixel c v s1 = Inr s2"
    "run_body c opcode count True s2 = Inr (Inr s')"
    by (auto simp: bindR_eq_Inr split: if_splits)
  then show ?case
    using "2.IH" [of "(v, s1)" v s1 s2] "2.prems" body_pixel_shorter [of c opcode s v s1] put_pixel_input [of c v s1 s2]
    by (auto split: if_splits)
qed simp

lemma magic_mix_input: "magic_mix c opcode count s = Inr (count', s') \<Longrightarrow> rs_input s' = rs_input s"
  by (auto simp: magic_mix_def bindR_eq_Inr dest: put_pixel_input split: if_splits)

lemma run_order_shorter:
  assumes "run_order c len s = Inr (Inr s')"
  shows "length (rs_input s') < length (rs_input s)"
proof -
  obtain opcode count input s1 count' s2 r where run: "read_code (rs_input s) = Inr ((opcode, count), input)"
    "read_data (ri_nb c) opcode (s\<lparr>rs_input := input\<rparr>) = Inr s1" "magic_mix c opcode count s1 = Inr (count', s2)"
    "run_body c opcode count' False (s2\<lparr>rs_last := opcode\<rparr>) = Inr r"
    and r: "(case r of Inl s3 \<Rightarrow> Inr (Inl (rs_out s3, len - length (rs_input s)))
     | Inr s3 \<Rightarrow> Inr (if length (rs_out s3) = ri_len c
         then Inl (rs_out s3, if ri_adjust c then len - length (rs_input s3) else 0)
         else Inr s3)) = (Inr (Inr s') :: ((u32 list \<times> nat) + rle_state) res)"
    using assms by (auto simp: run_order_def bindR_eq_Inr)
  from r have "r = Inr s'" by (auto split: sum.splits if_splits)
  note run = run(1-3) run(4) [unfolded this]
  from read_code_shorter [OF run(1)] read_data_shorter [OF run(2)] magic_mix_input [OF run(3)] run_body_shorter [OF run(4)]
  show ?thesis by simp
qed

function run_orders :: "rle_image \<Rightarrow> nat \<Rightarrow> rle_state \<Rightarrow> (u32 list \<times> nat) res" where
  "run_orders c len s =
     (if rs_input s = [] then Inr (rs_out s, if ri_adjust c \<and> length (rs_out s) = ri_len c then len else 0)
      else bindR (run_order c len s) (\<lambda>r. case r of Inl result \<Rightarrow> Inr result | Inr s' \<Rightarrow> run_orders c len s'))"
  by pat_completeness auto
termination
  by (relation "measure (\<lambda>(c, len, s). length (rs_input s))") (auto simp: run_order_shorter)

declare run_orders.simps [simp del]

definition rle_start :: "u8 list \<Rightarrow> rle_state" where
  "rle_start input = \<lparr>rs_input = input, rs_out = [], rs_x = 0, rs_color1 = 0, rs_color2 = 0, rs_mix = 0xFFFFFFFF,
     rs_mask = 0, rs_fom_mask = 0, rs_bicolor = False, rs_last = 0xFF\<rparr>"

text \<open>The template argument for a depth; a depth of 32 is treated as 24, which the pixel view does not cover.\<close>

definition rle_nb :: "u8 \<Rightarrow> nat" where
  "rle_nb bpp = (if bpp = 8 then 1 else if bpp = 15 \<or> bpp = 16 then 2 else 3)"

definition rle_decompress :: "u8 \<Rightarrow> u16 \<Rightarrow> u16 \<Rightarrow> u16 \<Rightarrow> bool \<Rightarrow> u8 list \<Rightarrow> (u32 list \<times> nat) res" where
  "rle_decompress bpp cx cy src_cx adjust input =
     run_orders \<lparr>ri_nb = rle_nb bpp, ri_dst_cx = cx, ri_src_cx = src_cx, ri_len = unat cx * unat cy, ri_adjust = adjust\<rparr>
       (length input) (rle_start input)"

subsection \<open>Compression\<close>

datatype rle_flag = FLAG_NONE | FLAG_FILL | FLAG_MIX | FLAG_FOM | FLAG_MIX_SET | FLAG_FOM_SET | FLAG_COLOR | FLAG_BICOLOR

text \<open>The counters: how many pixels from \<open>p\<close>, before \<open>pmax\<close>, a run covers.\<close>

definition get_color_count :: "u32 list \<Rightarrow> nat \<Rightarrow> nat \<Rightarrow> u32 \<Rightarrow> nat" where
  "get_color_count img pmax p color = length (takeWhile (\<lambda>i. img ! i = color) [p..<pmax])"

function get_bicolor_count :: "u32 list \<Rightarrow> nat \<Rightarrow> nat \<Rightarrow> u32 \<Rightarrow> u32 \<Rightarrow> nat" where
  "get_bicolor_count img pmax p color1 color2 =
     (if p < pmax \<and> color1 = img ! p \<and> p + 1 < pmax \<and> color2 = img ! (p + 1)
      then 2 + get_bicolor_count img pmax (p + 2) color1 color2 else 0)"
  by pat_completeness auto
termination
  by (relation "measure (\<lambda>(img, pmax, p, c1, c2). pmax - p)") auto

declare get_bicolor_count.simps [simp del]

definition get_fill_count :: "nat \<Rightarrow> u32 list \<Rightarrow> nat \<Rightarrow> nat \<Rightarrow> nat" where
  "get_fill_count w img pmax p = length (takeWhile (\<lambda>i. pixel_above w img i = img ! i) [p..<pmax])"

definition get_mix_count :: "nat \<Rightarrow> u32 list \<Rightarrow> nat \<Rightarrow> nat \<Rightarrow> u32 \<Rightarrow> nat" where
  "get_mix_count w img pmax p foreground =
     length (takeWhile (\<lambda>i. pixel_above w img i XOR foreground XOR img ! i = 0) [p..<pmax])"

text \<open>Runs of fewer than nine pixels, of background and foreground in turn; a longer run ends the sequence.\<close>

definition fom_run :: "nat \<Rightarrow> u32 list \<Rightarrow> nat \<Rightarrow> nat \<Rightarrow> u32 \<Rightarrow> bool \<Rightarrow> nat" where
  "fom_run w img pmax p foreground fill =
     length (takeWhile (\<lambda>i. pixel_above w img i XOR img ! i XOR (if fill then 0 else foreground) = 0) [p..<min pmax (p + 9)])"

lemma fom_run_le: "fom_run w img pmax p foreground fill \<le> min pmax (p + 9) - p"
proof -
  have "length (takeWhile P [p..<min pmax (p + 9)]) \<le> length [p..<min pmax (p + 9)]" for P by (rule length_takeWhile_le)
  then show ?thesis by (simp only: fom_run_def length_upt)
qed

function get_fom_count :: "nat \<Rightarrow> u32 list \<Rightarrow> nat \<Rightarrow> nat \<Rightarrow> u32 \<Rightarrow> bool \<Rightarrow> nat" where
  "get_fom_count w img pmax p foreground fill =
     (let count = fom_run w img pmax p foreground fill in
      if count \<ge> 9 \<or> count = 0 then 0 else count + get_fom_count w img pmax (p + count) foreground (\<not> fill))"
  by pat_completeness auto
termination
proof (relation "measure (\<lambda>(w, img, pmax, p, fg, fill). pmax - p)")
  fix w :: nat and img :: "u32 list" and pmax p :: nat and foreground :: u32 and fill :: bool and x
  assume "x = fom_run w img pmax p foreground fill" "\<not> (9 \<le> x \<or> x = 0)"
  with fom_run_le [of w img pmax p foreground fill]
  show "((w, img, pmax, p + x, foreground, \<not> fill), (w, img, pmax, p, foreground, fill))
      \<in> measure (\<lambda>(w, img, pmax, p, fg, fill). pmax - p)" by auto
qed simp

declare get_fom_count.simps [simp del]

text \<open>One bit for each pixel that differs from the one above, eight to a byte from the low bit up.\<close>

fun mask_byte :: "bool list \<Rightarrow> u8" where
  "mask_byte [] = 0"
| "mask_byte (b # bs) = (if b then 1 else 0) OR push_bit 1 (mask_byte bs)"

function mask_bytes :: "bool list \<Rightarrow> u8 list" where
  "mask_bytes bits = (if bits = [] then [] else mask_byte (take 8 bits) # mask_bytes (drop 8 bits))"
  by pat_completeness auto
termination
  by (relation "measure length") auto

declare mask_bytes.simps [simp del]

definition get_fom_masks :: "nat \<Rightarrow> u32 list \<Rightarrow> nat \<Rightarrow> nat \<Rightarrow> u8 list" where
  "get_fom_masks w img p count = mask_bytes (map (\<lambda>i. img ! i \<noteq> pixel_above w img i) [p..<p + count])"

text \<open>The count, the foreground and the flags; the foreground is a reference parameter that keeps its value in a background run.\<close>

definition get_fom_count_set :: "nat \<Rightarrow> u32 list \<Rightarrow> nat \<Rightarrow> nat \<Rightarrow> u32 \<Rightarrow> nat \<times> u32 \<times> rle_flag" where
  "get_fom_count_set w img pmax p foreground =
     (let fill_count = get_fill_count w img pmax p in
      if fill_count \<noteq> 0
      then (let fom_count = (if fill_count < 8 then get_fom_count w img pmax (p + fill_count) foreground False else 0) in
            if fom_count \<noteq> 0 then (fill_count + fom_count, foreground, FLAG_FOM) else (fill_count, foreground, FLAG_FILL))
      else if p < pmax
      then (let foreground = pixel_above w img p XOR img ! p;
                mix_count = 1 + get_mix_count w img pmax (p + 1) foreground;
                fom_count = (if mix_count < 8 then get_fom_count w img pmax (p + mix_count) foreground True else 0) in
            if fom_count \<noteq> 0 then (mix_count + fom_count, foreground, FLAG_FOM) else (mix_count, foreground, FLAG_MIX))
      else (0, foreground, FLAG_NONE))"

text \<open>The orders.\<close>

definition out_count :: "nat \<Rightarrow> u8 \<Rightarrow> u8 list" where
  "out_count n m =
     (if n < 32 then [push_bit 5 m OR of_nat n]
      else if n < 256 + 32 then [push_bit 5 m, of_nat (n - 32)]
      else (0xf0 OR m) # bytes_uint16_le (of_nat n))"

definition out_mix_count_set :: "nat \<Rightarrow> nat \<Rightarrow> u32 \<Rightarrow> u8 list" where
  "out_mix_count_set nb n new_foreground =
     (if n < 16 then [0xc0 OR of_nat n]
      else if n < 256 + 16 then [0xc0, of_nat (n - 16)]
      else 0xf6 # bytes_uint16_le (of_nat n)) @ pixel_bytes nb new_foreground"

definition out_fom_sequence :: "nat \<Rightarrow> u8 list \<Rightarrow> u8 list" where
  "out_fom_sequence n masks =
     (if n < 256 then (if n mod 8 \<noteq> 0 then [0x40, of_nat (n - 1)] else [0x40 OR of_nat (n div 8)])
      else 0xf2 # bytes_uint16_le (of_nat n)) @ masks"

definition out_fom_sequence_set :: "nat \<Rightarrow> nat \<Rightarrow> u32 \<Rightarrow> u8 list \<Rightarrow> u8 list" where
  "out_fom_sequence_set nb n foreground masks =
     (if n < 256 then (if (of_nat n :: u8) AND 0x87 \<noteq> 0 then [0xD0, of_nat (n - 1)] else [0xD0 OR of_nat (n div 8)])
      else 0xf7 # bytes_uint16_le (of_nat n)) @ pixel_bytes nb foreground @ masks"

definition out_color_sequence :: "nat \<Rightarrow> nat \<Rightarrow> u32 \<Rightarrow> u8 list" where
  "out_color_sequence nb n color = out_count n 3 @ pixel_bytes nb color"

definition out_copy_sequence :: "nat \<Rightarrow> u32 list \<Rightarrow> u8 list" where
  "out_copy_sequence nb ps = out_count (length ps) 4 @ concat (map (pixel_bytes nb) ps)"

definition out_bicolor_sequence :: "nat \<Rightarrow> nat \<Rightarrow> u32 \<Rightarrow> u32 \<Rightarrow> u8 list" where
  "out_bicolor_sequence nb n color1 color2 =
     (if n div 2 < 16 then [0xe0 OR of_nat (n div 2)]
      else if n div 2 < 256 + 16 then [0xe0, of_nat (n div 2 - 16)]
      else 0xf8 # bytes_uint16_le (of_nat (n div 2))) @ pixel_bytes nb color1 @ pixel_bytes nb color2"

text \<open>The variables of \<open>compress_\<close> that outlive a turn of its loop.\<close>

record rle_encoder =
  re_p :: nat
  re_foreground :: u32
  re_new_foreground :: u32
  re_copy :: nat

text \<open>The choice of the order for position \<open>p\<close> with its count, and the foreground the counters propose.\<close>

definition choose_order :: "nat \<Rightarrow> nat \<Rightarrow> u32 list \<Rightarrow> nat \<Rightarrow> rle_encoder \<Rightarrow> rle_flag \<times> nat \<times> u32" where
  "choose_order nb w img pmax e =
     (let p = re_p e; (fom_count, new_foreground, flags) = get_fom_count_set w img pmax p (re_new_foreground e);
          color_count = (if p + 1 < pmax \<and> img ! p = img ! (p + 1) then get_color_count img pmax p (img ! p) else 0);
          bicolor_count = (if p + 1 < pmax \<and> img ! p \<noteq> img ! (p + 1)
            then get_bicolor_count img pmax p (img ! p) (img ! (p + 1)) else 0);
          set = re_foreground e \<noteq> new_foreground;
          copy_header = (if re_copy e = 0 then 1 else 0);
          fom_cost = 1 + (if set then nb else 0) + (if flags = FLAG_FOM then (fom_count + 7) div 8 else 0) in
      if (fom_count \<ge> color_count \<or> color_count = 0) \<and> (fom_count \<ge> bicolor_count \<or> bicolor_count < 4)
         \<and> fom_cost < copy_header + fom_count * nb
      then (case flags of
              FLAG_FOM \<Rightarrow> (if set then FLAG_FOM_SET else FLAG_FOM,
                 if (fom_count + 7) div 8 > 512 then 4096 else fom_count, new_foreground)
            | FLAG_MIX \<Rightarrow> (if set then FLAG_MIX_SET else FLAG_MIX, fom_count, new_foreground)
            | _ \<Rightarrow> (flags, fom_count, new_foreground))
      else if 1 + nb < copy_header + color_count * nb \<and> color_count > 0 then (FLAG_COLOR, color_count, new_foreground)
      else if 1 + 2 * nb < copy_header + bicolor_count * nb \<and> bicolor_count > 0 then (FLAG_BICOLOR, bicolor_count, new_foreground)
      else (FLAG_NONE, 1, new_foreground))"

definition out_order :: "nat \<Rightarrow> nat \<Rightarrow> u32 list \<Rightarrow> nat \<Rightarrow> rle_flag \<Rightarrow> nat \<Rightarrow> u32 \<Rightarrow> u8 list" where
  "out_order nb w img p flags count new_foreground =
     (case flags of
        FLAG_BICOLOR \<Rightarrow> out_bicolor_sequence nb count (img ! p) (img ! (p + 1))
      | FLAG_COLOR \<Rightarrow> out_color_sequence nb count (img ! p)
      | FLAG_FOM_SET \<Rightarrow> out_fom_sequence_set nb count new_foreground (get_fom_masks w img p count)
      | FLAG_MIX_SET \<Rightarrow> out_mix_count_set nb count new_foreground
      | FLAG_FOM \<Rightarrow> out_fom_sequence count (get_fom_masks w img p count)
      | FLAG_MIX \<Rightarrow> out_count count 1
      | FLAG_FILL \<Rightarrow> out_count count 0
      | FLAG_NONE \<Rightarrow> [])"

definition flush_copy :: "nat \<Rightarrow> u32 list \<Rightarrow> rle_encoder \<Rightarrow> u8 list" where
  "flush_copy nb img e =
     (if re_copy e > 0 then out_copy_sequence nb (take (re_copy e) (drop (re_p e - re_copy e) img)) else [])"

definition compress_step :: "nat \<Rightarrow> nat \<Rightarrow> u32 list \<Rightarrow> nat \<Rightarrow> rle_encoder \<Rightarrow> u8 list \<times> rle_encoder" where
  "compress_step nb w img pmax e =
     (case choose_order nb w img pmax e of (flags, count, new_foreground) \<Rightarrow>
      if flags = FLAG_NONE
      then ([], e\<lparr>re_copy := re_copy e + 1, re_new_foreground := new_foreground, re_p := re_p e + 1\<rparr>)
      else (flush_copy nb img e @ out_order nb w img (re_p e) flags count new_foreground,
        e\<lparr>re_copy := 0, re_new_foreground := new_foreground,
          re_foreground := (if flags = FLAG_FOM_SET \<or> flags = FLAG_MIX_SET then new_foreground else re_foreground e),
          re_p := re_p e + count\<rparr>))"

text \<open>What a choice promises: the run lies within the part, and its pixels are what the order says.\<close>

lemma takeWhile_upt:
  assumes "n = length (takeWhile P [p..<q])"
  shows "n \<le> q - p" "p \<le> i \<Longrightarrow> i < p + n \<Longrightarrow> P i" "p + n < q \<Longrightarrow> \<not> P (p + n)"
proof -
  show le: "n \<le> q - p" using length_takeWhile_le [of P "[p..<q]"] assms by simp
  show "P i" if "p \<le> i" "i < p + n"
  proof -
    have "takeWhile P [p..<q] ! (i - p) = i"
      using that le assms by (simp add: takeWhile_nth)
    moreover have "takeWhile P [p..<q] ! (i - p) \<in> set (takeWhile P [p..<q])"
      using that assms by (intro nth_mem) linarith
    ultimately show ?thesis by (metis set_takeWhileD)
  qed
  show "\<not> P (p + n)" if "p + n < q"
    using nth_length_takeWhile [of P "[p..<q]"] that assms by simp
qed

lemma get_bicolor_count_spec:
  "p + get_bicolor_count img pmax p c1 c2 \<le> max p pmax \<and> even (get_bicolor_count img pmax p c1 c2)
    \<and> (\<forall>i < get_bicolor_count img pmax p c1 c2. img ! (p + i) = (if even i then c1 else c2))"
proof (induction img pmax p c1 c2 rule: get_bicolor_count.induct)
  case (1 img pmax p c1 c2)
  show ?case
  proof (cases "p < pmax \<and> c1 = img ! p \<and> p + 1 < pmax \<and> c2 = img ! (p + 1)")
    case True
    let ?n = "get_bicolor_count img pmax (p + 2) c1 c2"
    from 1 [OF True] have IH: "p + 2 + ?n \<le> max (p + 2) pmax" "even ?n" "\<And>i. i < ?n \<Longrightarrow> img ! (p + 2 + i) = (if even i then c1 else c2)"
      by blast+
    have n: "get_bicolor_count img pmax p c1 c2 = 2 + ?n" using True by (subst get_bicolor_count.simps) simp
    have "img ! (p + i) = (if even i then c1 else c2)" if "i < 2 + ?n" for i
    proof (cases "i < 2")
      case i: True
      then have "i = 0 \<or> i = 1" by linarith
      then show ?thesis using True by auto
    next
      case False
      then have "i - 2 < ?n" "p + 2 + (i - 2) = p + i" "even (i - 2) = even i" using that by auto
      with IH(3) [of "i - 2"] show ?thesis by (simp only:)
    qed
    with n IH(1,2) True show ?thesis by auto
  next
    case False
    then have "get_bicolor_count img pmax p c1 c2 = 0" by (subst get_bicolor_count.simps) (simp only: if_False)
    then show ?thesis by simp
  qed
qed

lemma xor_cancel:
  fixes a b c :: "'a::len word"
  assumes "a XOR b XOR c = 0"
  shows "b = a XOR c"
proof -
  have "b = (a XOR a) XOR b XOR (c XOR c)" by (simp only: xor_self_eq xor.left_neutral xor.right_neutral)
  also have "\<dots> = a XOR (a XOR b XOR c) XOR c" by (simp only: xor.assoc)
  finally show ?thesis by (simp only: assms xor.left_neutral)
qed

lemma get_fom_count_spec:
  "p + get_fom_count w img pmax p fg fill \<le> max p pmax
    \<and> (\<forall>i. p \<le> i \<and> i < p + get_fom_count w img pmax p fg fill \<longrightarrow>
         img ! i = pixel_above w img i \<or> img ! i = pixel_above w img i XOR fg)"
proof (induction w img pmax p fg fill rule: get_fom_count.induct)
  case (1 w img pmax p fg fill)
  let ?c = "fom_run w img pmax p fg fill"
  show ?case
  proof (cases "?c \<ge> 9 \<or> ?c = 0")
    case True
    then have "get_fom_count w img pmax p fg fill = 0" by (subst get_fom_count.simps) (simp add: Let_def)
    then show ?thesis by auto
  next
    case False
    let ?n = "get_fom_count w img pmax (p + ?c) fg (\<not> fill)"
    have n: "get_fom_count w img pmax p fg fill = ?c + ?n" using False by (subst get_fom_count.simps) (simp add: Let_def)
    have IH: "p + ?c + ?n \<le> max (p + ?c) pmax" "\<And>i. p + ?c \<le> i \<Longrightarrow> i < p + ?c + ?n \<Longrightarrow>
        img ! i = pixel_above w img i \<or> img ! i = pixel_above w img i XOR fg"
      using 1 [OF refl False] by blast+
    note R = takeWhile_upt [OF fom_run_def [of w img pmax p fg fill]]
    have "img ! i = pixel_above w img i \<or> img ! i = pixel_above w img i XOR fg" if "p \<le> i" "i < p + ?c + ?n" for i
    proof (cases "i < p + ?c")
      case True
      have "img ! i = pixel_above w img i XOR (if fill then 0 else fg)" by (rule xor_cancel) (rule R(2) [OF that(1) True])
      then show ?thesis by (simp split: if_splits)
    qed (use IH(2) that in auto)
    with n IH(1) fom_run_le [of w img pmax p fg fill] show ?thesis by (auto simp: add.assoc)
  qed
qed

definition run_ok :: "nat \<Rightarrow> u32 list \<Rightarrow> nat \<Rightarrow> rle_flag \<Rightarrow> nat \<Rightarrow> nat \<Rightarrow> u32 \<Rightarrow> bool" where
  "run_ok w img pmax flags p n fg \<longleftrightarrow> 0 < n \<and> p + n \<le> pmax \<and>
     (case flags of
        FLAG_FILL \<Rightarrow> (\<forall>i\<in>{p..<p + n}. img ! i = pixel_above w img i) \<and> (p + n < pmax \<longrightarrow> img ! (p + n) \<noteq> pixel_above w img (p + n))
      | FLAG_MIX \<Rightarrow> (\<forall>i\<in>{p..<p + n}. img ! i = pixel_above w img i XOR fg)
      | FLAG_MIX_SET \<Rightarrow> (\<forall>i\<in>{p..<p + n}. img ! i = pixel_above w img i XOR fg)
      | FLAG_FOM \<Rightarrow> (\<forall>i\<in>{p..<p + n}. img ! i = pixel_above w img i \<or> img ! i = pixel_above w img i XOR fg)
      | FLAG_FOM_SET \<Rightarrow> (\<forall>i\<in>{p..<p + n}. img ! i = pixel_above w img i \<or> img ! i = pixel_above w img i XOR fg)
      | FLAG_COLOR \<Rightarrow> (\<forall>i\<in>{p..<p + n}. img ! i = img ! p)
      | FLAG_BICOLOR \<Rightarrow> even n \<and> (\<forall>i<n. img ! (p + i) = (if even i then img ! p else img ! (p + 1)))
      | FLAG_NONE \<Rightarrow> n = 1)"

lemma get_fom_count_set_ok:
  assumes p: "p < pmax" and g: "get_fom_count_set w img pmax p fg0 = (n, fg, flags)"
  shows "run_ok w img pmax flags p n fg" "flags = FLAG_FILL \<or> flags = FLAG_MIX \<or> flags = FLAG_FOM"
proof -
  note F = takeWhile_upt [OF get_fill_count_def [of w img pmax p]]
  let ?f = "get_fill_count w img pmax p"
  define fg1 where "fg1 = pixel_above w img p XOR img ! p"
  let ?m = "1 + get_mix_count w img pmax (p + 1) fg1"
  note M = takeWhile_upt [OF get_mix_count_def [of w img pmax "p + 1" fg1]]
  note C1 = get_fom_count_spec [of "p + ?f" w img pmax fg0 False]
  note C2 = get_fom_count_spec [of "p + ?m" w img pmax fg1 True]
  have fill: "img ! i = pixel_above w img i" if "p \<le> i" "i < p + ?f" for i using F(2) [OF that] by simp
  have mix: "img ! i = pixel_above w img i XOR fg1" if "p \<le> i" "i < p + ?m" for i
  proof (cases "i = p")
    case False
    then have "pixel_above w img i XOR fg1 XOR img ! i = 0" using M(2) [of i] that by simp
    then show ?thesis using xor_cancel [of "pixel_above w img i" "img ! i" fg1] by (simp add: xor.commute)
  qed (simp add: xor.assoc [symmetric] fg1_def)
  have bounds: "p + ?f \<le> pmax" "p + ?m \<le> pmax" using F(1) M(1) p by linarith+
  have both: "run_ok w img pmax flags p n fg \<and> (flags = FLAG_FILL \<or> flags = FLAG_MIX \<or> flags = FLAG_FOM)"
  proof (cases "?f = 0")
    case False
    define c where "c = (if ?f < 8 then get_fom_count w img pmax (p + ?f) fg0 False else 0)"
    have g': "(if c \<noteq> 0 then (?f + c, fg0, FLAG_FOM) else (?f, fg0, FLAG_FILL)) = (n, fg, flags)"
      using g by (simp only: get_fom_count_set_def Let_def c_def if_P [OF False])
    have c: "p + ?f + c \<le> pmax" "\<And>i. p + ?f \<le> i \<Longrightarrow> i < p + ?f + c \<Longrightarrow> img ! i = pixel_above w img i \<or> img ! i = pixel_above w img i XOR fg0"
      using C1 bounds(1) by (auto simp: c_def split: if_splits)
    have all: "img ! i = pixel_above w img i \<or> img ! i = pixel_above w img i XOR fg0" if "p \<le> i" "i < p + ?f + c" for i
      using fill [of i] c(2) [of i] that by (cases "i < p + ?f") auto
    show ?thesis
    proof (cases "c = 0")
      case True
      with g' have "n = ?f" "flags = FLAG_FILL" by simp_all
      with fill F(3) False bounds(1) show ?thesis by (auto simp: run_ok_def)
    next
      case c0: False
      with g' have "n = ?f + c" "flags = FLAG_FOM" "fg = fg0" by simp_all
      with all c(1) False show ?thesis by (simp add: run_ok_def add.assoc)
    qed
  next
    case True
    define c where "c = (if ?m < 8 then get_fom_count w img pmax (p + ?m) fg1 True else 0)"
    have g': "(if c \<noteq> 0 then (?m + c, fg1, FLAG_FOM) else (?m, fg1, FLAG_MIX)) = (n, fg, flags)"
      using g True by (simp only: get_fom_count_set_def Let_def c_def if_P [OF p] simp_thms if_False fg1_def)
    have c: "p + ?m + c \<le> pmax" "\<And>i. p + ?m \<le> i \<Longrightarrow> i < p + ?m + c \<Longrightarrow> img ! i = pixel_above w img i \<or> img ! i = pixel_above w img i XOR fg1"
      using C2 bounds(2) by (auto simp: c_def split: if_splits)
    have all: "img ! i = pixel_above w img i \<or> img ! i = pixel_above w img i XOR fg1" if "p \<le> i" "i < p + ?m + c" for i
      using mix [of i] c(2) [of i] that by (cases "i < p + ?m") auto
    show ?thesis
    proof (cases "c = 0")
      case True
      with g' have "n = ?m" "flags = FLAG_MIX" "fg = fg1" by auto
      moreover have "run_ok w img pmax FLAG_MIX p ?m fg1"
        unfolding run_ok_def rle_flag.case using mix bounds(2) by (intro conjI ballI) (simp_all only: atLeastLessThan_iff add_gr_0 zero_less_one simp_thms)
      ultimately show ?thesis by blast
    next
      case False
      with g' have "n = ?m + c" "flags = FLAG_FOM" "fg = fg1" by auto
      with all c(1) show ?thesis by (simp add: run_ok_def add.assoc)
    qed
  qed
  then show "run_ok w img pmax flags p n fg" "flags = FLAG_FILL \<or> flags = FLAG_MIX \<or> flags = FLAG_FOM" by blast+
qed

text \<open>The foreground an order is drawn with: the one it sets, or the current one.\<close>

definition order_foreground :: "rle_flag \<Rightarrow> rle_encoder \<Rightarrow> u32 \<Rightarrow> u32" where
  "order_foreground flags e fg = (if flags = FLAG_FOM_SET \<or> flags = FLAG_MIX_SET then fg else re_foreground e)"

lemma choose_order_ok:
  assumes p: "re_p e < pmax" and c: "choose_order nb w img pmax e = (flags, n, fg)"
  shows "run_ok w img pmax flags (re_p e) n (order_foreground flags e fg)" "flags = FLAG_FOM \<or> flags = FLAG_FOM_SET \<Longrightarrow> n \<le> 4096"
proof -
  let ?p = "re_p e"
  obtain fom new f where g: "get_fom_count_set w img pmax ?p (re_new_foreground e) = (fom, new, f)" by (rule prod_cases3)
  define cc where "cc = (if ?p + 1 < pmax \<and> img ! ?p = img ! (?p + 1) then get_color_count img pmax ?p (img ! ?p) else 0)"
  define bc where "bc = (if ?p + 1 < pmax \<and> img ! ?p \<noteq> img ! (?p + 1) then get_bicolor_count img pmax ?p (img ! ?p) (img ! (?p + 1)) else 0)"
  note G = get_fom_count_set_ok [OF p g]
  have color: "run_ok w img pmax FLAG_COLOR ?p cc x" if "0 < cc" for x
  proof -
    from that have cc: "cc = get_color_count img pmax ?p (img ! ?p)" by (simp add: cc_def split: if_splits)
    note T = takeWhile_upt [OF cc [unfolded get_color_count_def]]
    have "?p + cc \<le> pmax" using T(1) p by linarith
    moreover have "\<forall>i\<in>{?p..<?p + cc}. img ! i = img ! ?p" using T(2) by (intro ballI) (simp only: atLeastLessThan_iff)
    ultimately show ?thesis using that by (simp only: run_ok_def rle_flag.case)
  qed
  have bicolor: "run_ok w img pmax FLAG_BICOLOR ?p bc x" if "0 < bc" for x
  proof -
    from that have bc: "bc = get_bicolor_count img pmax ?p (img ! ?p) (img ! (?p + 1))" by (simp add: bc_def split: if_splits)
    note B = get_bicolor_count_spec [of ?p img pmax "img ! ?p" "img ! (?p + 1)", folded bc]
    have "?p + bc \<le> pmax" using B p by linarith
    with B that show ?thesis by (simp only: run_ok_def rle_flag.case) blast
  qed
  have none: "run_ok w img pmax FLAG_NONE ?p 1 x" for x using p by (simp add: run_ok_def)
  let ?set = "re_foreground e \<noteq> new"
  let ?fom = "(fom \<ge> cc \<or> cc = 0) \<and> (fom \<ge> bc \<or> bc < 4) \<and> 1 + (if ?set then nb else 0)
      + (if f = FLAG_FOM then (fom + 7) div 8 else 0) < (if re_copy e = 0 then 1 else 0) + fom * nb"
  have c': "(if ?fom then (case f of
              FLAG_FOM \<Rightarrow> (if ?set then FLAG_FOM_SET else FLAG_FOM, if (fom + 7) div 8 > 512 then 4096 else fom, new)
            | FLAG_MIX \<Rightarrow> (if ?set then FLAG_MIX_SET else FLAG_MIX, fom, new)
            | _ \<Rightarrow> (f, fom, new))
      else if 1 + nb < (if re_copy e = 0 then 1 else 0) + cc * nb \<and> cc > 0 then (FLAG_COLOR, cc, new)
      else if 1 + 2 * nb < (if re_copy e = 0 then 1 else 0) + bc * nb \<and> bc > 0 then (FLAG_BICOLOR, bc, new)
      else (FLAG_NONE, 1, new)) = (flags, n, fg)"
    using c unfolding choose_order_def Let_def g prod.case cc_def [symmetric] bc_def [symmetric] by (simp only: conj_assoc)
  have "run_ok w img pmax flags ?p n (order_foreground flags e fg) \<and> (flags = FLAG_FOM \<or> flags = FLAG_FOM_SET \<longrightarrow> n \<le> 4096)"
  proof (cases ?fom)
    case True
    have c'': "(case f of
              FLAG_FOM \<Rightarrow> (if ?set then FLAG_FOM_SET else FLAG_FOM, if (fom + 7) div 8 > 512 then 4096 else fom, new)
            | FLAG_MIX \<Rightarrow> (if ?set then FLAG_MIX_SET else FLAG_MIX, fom, new)
            | _ \<Rightarrow> (f, fom, new)) = (flags, n, fg)" using c' unfolding if_P [OF True] .
    from G(2) show ?thesis
    proof (elim disjE)
      assume f: "f = FLAG_FOM"
      then have "n \<le> fom" "n \<le> 4096" "0 < fom \<Longrightarrow> 0 < n" "fg = new" "flags = (if ?set then FLAG_FOM_SET else FLAG_FOM)"
        using c'' by (auto split: if_splits)
      with G(1) f show ?thesis by (auto simp: run_ok_def order_foreground_def)
    qed (use c'' G(1) in \<open>auto simp: run_ok_def order_foreground_def split: if_splits\<close>)
  next
    case False
    have "(if 1 + nb < (if re_copy e = 0 then 1 else 0) + cc * nb \<and> cc > 0 then (FLAG_COLOR, cc, new)
      else if 1 + 2 * nb < (if re_copy e = 0 then 1 else 0) + bc * nb \<and> bc > 0 then (FLAG_BICOLOR, bc, new)
      else (FLAG_NONE, 1, new)) = (flags, n, fg)"
      using c' unfolding if_not_P [OF False] .
    with color bicolor none show ?thesis by (metis prod.inject rle_flag.distinct)
  qed
  then show "run_ok w img pmax flags (re_p e) n (order_foreground flags e fg)" "flags = FLAG_FOM \<or> flags = FLAG_FOM_SET \<Longrightarrow> n \<le> 4096"
    by blast+
qed

lemma compress_step_advances:
  assumes "re_p e < pmax" "compress_step nb w img pmax e = (bs, e')"
  shows "re_p e < re_p e'" "re_p e' \<le> pmax"
proof -
  obtain flags n fg where c: "choose_order nb w img pmax e = (flags, n, fg)" by (rule prod_cases3)
  with choose_order_ok(1) [OF assms(1) c] assms(2) assms(1) show "re_p e < re_p e'" "re_p e' \<le> pmax"
    by (auto simp: compress_step_def run_ok_def split: if_splits)
qed

lemma compress_step_measure:
  assumes "re_p e < pmax" "(bs, e') = compress_step nb w img pmax e"
  shows "pmax - re_p e' < pmax - re_p e"
  by (rule diff_less_mono2 [OF compress_step_advances(1) [OF assms(1) assms(2) [symmetric]] assms(1)])

function compress_part :: "nat \<Rightarrow> nat \<Rightarrow> u32 list \<Rightarrow> nat \<Rightarrow> rle_encoder \<Rightarrow> u8 list \<times> rle_encoder" where
  "compress_part nb w img pmax e =
     (if re_p e < pmax
      then (case compress_step nb w img pmax e of (bs, e') \<Rightarrow> (case compress_part nb w img pmax e' of (cs, e'') \<Rightarrow> (bs @ cs, e'')))
      else (flush_copy nb img e, e\<lparr>re_copy := 0\<rparr>))"
  by pat_completeness auto
termination
  by (relation "measure (\<lambda>(nb, w, img, pmax, e). pmax - re_p e)") (simp_all only: wf_measure in_measure prod.case compress_step_measure)

declare compress_part.simps [simp del]

text \<open>
  The first line, then the rest. \<open>align4\<close> takes a number of 16 bits. The width of a bitmap is a multiple of 4 (every constructor
  but the one for PNG images aligns it), so the first part ends with a pixel; for other widths the code's first part may end within
  one, which a count of pixels does not cover.
\<close>

definition rle_compress :: "u8 \<Rightarrow> u16 \<Rightarrow> u32 list \<Rightarrow> u8 list" where
  "rle_compress bpp cx img =
     (let nb = rle_nb bpp; w = unat cx; foreground = take_bit (8 * nb) (- 1);
          e = \<lparr>re_p = 0, re_foreground = foreground, re_new_foreground = foreground, re_copy = 0\<rparr>;
          line = unat (align4 (of_nat (w * nb))) div nb in
      case compress_part nb w img line e of (bs, e) \<Rightarrow>
      (case compress_part nb w img (length img) e of (cs, e) \<Rightarrow> bs @ cs))"

end
