(* ===== verification/Planes.thy ===== *)
theory Planes
  imports Rle
begin

text \<open>
  The planar encoding of 24- and 32-bit bitmaps in sessions of 32 bits (\<open>utils/rle.cpp\<close>): \<open>rle_compress60\<close>,
  \<open>rle_decompress60\<close> and the run-length encoding of one colour plane. A plane is the list of its bytes, and the
  memory the decoder takes from the allocator an argument.
\<close>

subsection \<open>Lines as differences\<close>

text \<open>The difference of a byte with the one above, the sign in the low bit.\<close>

definition delta_of :: "u8 \<Rightarrow> u8 \<Rightarrow> u8" where
  "delta_of v up =
     (let delta = v - up in
      if 0 \<le> sint delta then push_bit 1 delta else push_bit 1 (NOT delta + 1) - 1)"

definition of_delta :: "u8 \<Rightarrow> u8" where
  "of_delta delta = (if delta mod 2 = 0 then drop_bit 1 delta else 255 - drop_bit 1 (delta - 1))"

text \<open>The encoder goes from the last line to the second, so it compares with lines it has not replaced.\<close>

definition to_deltas :: "nat \<Rightarrow> nat \<Rightarrow> u8 list \<Rightarrow> u8 list" where
  "to_deltas w cy plane =
     foldl (\<lambda>plane p. plane[p := delta_of (plane ! p) (plane ! (p - w))]) plane
       (concat (map (\<lambda>y. [y * w..<y * w + w]) (rev [1..<cy])))"

definition from_deltas :: "nat \<Rightarrow> nat \<Rightarrow> nat \<Rightarrow> u8 list \<Rightarrow> u8 list" where
  "from_deltas src_cx src_cy cx plane =
     foldl (\<lambda>plane p. plane[p := plane ! (p - cx) + of_delta (plane ! p)]) plane
       (concat (map (\<lambda>y. [y * cx..<y * cx + src_cx]) [1..<src_cy]))"

subsection \<open>Decompression\<close>

text \<open>\<open>cRawBytes\<close> and \<open>nRunLength\<close> of a control byte.\<close>

definition run_lengths :: "u8 \<Rightarrow> nat \<times> nat" where
  "run_lengths code =
     (let run = unat (code AND 0x0F); raw = unat (drop_bit 4 (code AND 0xF0)) in
      if run = 1 then (0, 16 + raw)
      else if run = 2 then (if raw = 15 then (0, 47) else (0, 32 + raw))
      else (raw, run))"

text \<open>
  The runs of a plane until \<open>size\<close> bytes are written. \<open>size\<close> is unsigned: after a run that is longer the loop
  goes on behind the plane, which is the error here. \<open>line_size\<close> wraps as in the code.
\<close>

function plane_runs :: "u16 \<Rightarrow> u16 \<Rightarrow> nat \<Rightarrow> u8 list \<Rightarrow> u8 list \<Rightarrow> (u8 list \<times> u8 list) res" where
  "plane_runs src_cx line_left left out data =
     (if left = 0 then Inr (out, data)
      else bindR (next_byte data) (\<lambda>(code, data).
        (case run_lengths code of (raw, run) \<Rightarrow>
           assertR (raw \<le> length data)
             (if left < raw + run then Inl UB_WRITE
              else let line = line_left - of_nat raw; line' = line - of_nat run; out' = out @ take raw data in
                plane_runs src_cx (if line' = 0 then src_cx else line') (left - (raw + run))
                  (out' @ (if run = 0 then [] else replicate run (if line = src_cx then 0 else last out'))) (drop raw data)))))"
  by pat_completeness auto
termination
  by (relation "measure (\<lambda>(src_cx, line_left, left, out, data). length data)")
    (auto simp: next_byte_def split: list.splits)

declare plane_runs.simps [simp del]

definition decompress_color_plane :: "u16 \<Rightarrow> u16 \<Rightarrow> u16 \<Rightarrow> u8 list \<Rightarrow> u8 list \<Rightarrow> (u8 list \<times> u8 list) res" where
  "decompress_color_plane src_cx src_cy cx plane data =
     bindR (plane_runs src_cx src_cx (unat src_cx * unat src_cy) [] data) (\<lambda>(out, data).
       Inr (from_deltas (unat src_cx) (unat src_cy) (unat cx) (out @ drop (length out) plane), data))"

fun copy_lines :: "nat \<Rightarrow> nat \<Rightarrow> nat \<Rightarrow> nat \<Rightarrow> u8 list \<Rightarrow> u8 list \<Rightarrow> (u8 list \<times> u8 list) res" where
  "copy_lines w cx start 0 plane data = Inr (plane, data)"
| "copy_lines w cx start (Suc n) plane data =
     assertR (w \<le> length data)
       (copy_lines w cx (start + cx) n (take start plane @ take w data @ drop (start + w) plane) (drop w data))"

definition in_copy_color_plan :: "u16 \<Rightarrow> u16 \<Rightarrow> u16 \<Rightarrow> u8 list \<Rightarrow> u8 list \<Rightarrow> (u8 list \<times> u8 list) res" where
  "in_copy_color_plan src_cx src_cy cx plane data = copy_lines (unat src_cx) (unat cx) 0 (unat src_cy) plane data"

definition plane_color :: "nat \<Rightarrow> u8 list \<Rightarrow> u8 list \<Rightarrow> u8 list \<Rightarrow> nat \<Rightarrow> u32" where
  "plane_color nb red green blue i =
     take_bit (8 * nb) (0xFF000000 OR push_bit 16 (ucast (red ! i)) OR push_bit 8 (ucast (green ! i)) OR ucast (blue ! i))"

text \<open>No image is the early return for the compression options the code does not know.\<close>

definition rle_decompress60 ::
  "nat \<Rightarrow> u16 \<Rightarrow> u16 \<Rightarrow> u16 \<Rightarrow> u16 \<Rightarrow> u8 list \<Rightarrow> u8 list \<Rightarrow> u8 list \<Rightarrow> u8 list \<Rightarrow> u32 list option res" where
  "rle_decompress60 nb cx cy src_cx src_cy red green blue data =
     bindR (next_byte data) (\<lambda>(format_header, data).
     if format_header AND 0x07 \<noteq> 0 \<or> has format_header 0x08 then Inr None
     else
       let rle = has format_header 0x10; no_alpha_plane = has format_header 0x20;
           color_plane = (if rle then decompress_color_plane src_cx src_cy cx else in_copy_color_plan src_cx src_cy cx);
           skip = unat src_cx * unat src_cy in
       bindR (if no_alpha_plane then Inr (red, data)
              else if rle then color_plane red data
              else assertR (skip \<le> length data) (Inr (red, drop skip data))) (\<lambda>(red, data).
       bindR (color_plane red data) (\<lambda>(red, data).
       bindR (color_plane green data) (\<lambda>(green, data).
       bindR (color_plane blue data) (\<lambda>(blue, data).
       assertR (length data = (if rle then 0 else 1))
         (Inr (Some (map (plane_color nb red green blue) [0..<unat cx * unat cy]))))))))"

subsection \<open>Compression\<close>

fun run_from :: "nat \<Rightarrow> u8 list \<Rightarrow> nat \<times> nat" where
  "run_from raw [] = (0, raw)"
| "run_from raw (b # data) =
     (let run = length (takeWhile (\<lambda>v. v = b) data) in
      if run \<ge> 3 then (run, raw + 1) else run_from (raw + 1 + run) (drop run data))"

text \<open>The run length and the raw bytes before it.\<close>

definition get_run :: "u8 list \<Rightarrow> u8 \<Rightarrow> nat \<times> nat" where
  "get_run data last_raw =
     (case run_from 0 data of (run, raw) \<Rightarrow>
        if raw = 1 \<and> run \<noteq> 0 \<and> hd data = last_raw then (run + 1, 0) else (run, raw))"

text \<open>The control bytes of a run, and what is left of the line.\<close>

function out_run :: "nat \<Rightarrow> nat \<Rightarrow> u8 list \<Rightarrow> u8 list \<times> u8 list" where
  "out_run run raw xpos =
     (if (run = 0 \<and> raw = 0) \<or> (0 < run \<and> run < 3) then ([], xpos)
      else if raw = 0 then
        (if run > 47 then (case out_run (run - 47) 0 (drop 47 xpos) of (bs, rest) \<Rightarrow> ((push_bit 4 15 OR 2) # bs, rest))
         else if run > 31 then ([push_bit 4 (of_nat (run - 32)) OR 2], drop run xpos)
         else if run > 15 then ([push_bit 4 (of_nat (run - 16)) OR 1], drop run xpos)
         else ([of_nat run], drop run xpos))
      else if raw > 15 then
        (case out_run run (raw - 15) (drop 15 xpos) of (bs, rest) \<Rightarrow> (push_bit 4 15 # take 15 xpos @ bs, rest))
      else if run > 15 then
        (case out_run (run - 15) 0 (drop (raw + 15) xpos) of (bs, rest) \<Rightarrow>
           ((push_bit 4 (of_nat raw) OR 15) # take raw xpos @ bs, rest))
      else ((push_bit 4 (of_nat raw) OR of_nat run) # take raw xpos, drop (raw + run) xpos))"
  by pat_completeness auto
termination
  by (relation "measure (\<lambda>(run, raw, xpos). run + raw)") auto

declare out_run.simps [simp del]

text \<open>What \<open>get_run\<close> finds: raw bytes, then a run of the byte before it.\<close>

definition run_ok60 :: "nat \<Rightarrow> nat \<Rightarrow> u8 list \<Rightarrow> u8 \<Rightarrow> bool" where
  "run_ok60 run raw data before \<longleftrightarrow> raw + run \<le> length data \<and>
     (\<forall>i<run. data ! (raw + i) = (if raw = 0 then before else data ! (raw - 1)))"

lemma takeWhile_eq_replicate: "takeWhile (\<lambda>v. v = b) data = replicate (length (takeWhile (\<lambda>v. v = b) data)) b"
  by (induction data) auto

lemma run_from_spec:
  "run_from n data = (run, raw) \<Longrightarrow> n \<le> raw \<and> run_ok60 run (raw - n) data before \<and> (run = 0 \<or> 3 \<le> run) \<and> (data \<noteq> [] \<longrightarrow> n < raw)"
proof (induction n data arbitrary: before rule: run_from.induct)
  case (2 n b data)
  define k where "k = length (takeWhile (\<lambda>v. v = b) data)"
  have le: "k \<le> length data" by (simp add: k_def length_takeWhile_le)
  have nth: "data ! i = b" if "i < k" for i
    using that takeWhile_nth [of i "\<lambda>v. v = b" data] takeWhile_eq_replicate [of b data] by (simp add: k_def) (metis nth_replicate)
  show ?case
  proof (cases "k \<ge> 3")
    case True
    with "2.prems" have "run = k" "raw = n + 1" by (simp_all add: k_def Let_def)
    with True le nth show ?thesis by (simp add: run_ok60_def)
  next
    case False
    with "2.prems" have r: "run_from (n + 1 + k) (drop k data) = (run, raw)" by (simp add: k_def Let_def)
    with "2.IH" [of k "(if k = 0 then b else data ! (k - 1))"] False
    have IH: "n + 1 + k \<le> raw" "run_ok60 run (raw - (n + 1 + k)) (drop k data) (if k = 0 then b else data ! (k - 1))" "run = 0 \<or> 3 \<le> run"
      unfolding k_def by blast+
    then have "run_ok60 run (raw - n) (b # data) before"
      using le by (auto simp: run_ok60_def nth_Cons' add.assoc)
    with IH show ?thesis by simp
  qed
qed (simp add: run_ok60_def)

lemma get_run_spec:
  assumes "get_run data before = (run, raw)"
  shows "run_ok60 run raw data before" "run = 0 \<or> 3 \<le> run" "data \<noteq> [] \<Longrightarrow> 0 < raw + run"
proof -
  obtain r w where rw: "run_from 0 data = (r, w)" by (rule prod.exhaust)
  note S = run_from_spec [OF rw, of before]
  have "run_ok60 run raw data before \<and> (run = 0 \<or> 3 \<le> run) \<and> (data \<noteq> [] \<longrightarrow> 0 < raw + run)"
  proof (cases "w = 1 \<and> r \<noteq> 0 \<and> hd data = before")
    case True
    with assms rw have r: "run = r + 1" "raw = 0" by (simp_all add: get_run_def)
    have len: "1 + r \<le> length data" using S True by (auto simp: run_ok60_def)
    then have "data ! 0 = before" using True by (cases data) auto
    moreover have "data ! Suc i = data ! 0" if "i < r" for i using S True that by (simp add: run_ok60_def)
    ultimately have "data ! i = before" if "i < r + 1" for i using that by (cases i) simp_all
    with r S len True show ?thesis by (auto simp: run_ok60_def)
  next
    case False
    with assms rw have "run = r" "raw = w" by (auto simp: get_run_def split: if_splits)
    with S show ?thesis by simp
  qed
  then show "run_ok60 run raw data before" "run = 0 \<or> 3 \<le> run" "data \<noteq> [] \<Longrightarrow> 0 < raw + run" by blast+
qed

text \<open>The control bytes are read back.\<close>

lemma run_lengths_out:
  "run_lengths (push_bit 4 15 OR 2) = (0, 47)" "run_lengths (push_bit 4 15) = (15, 0)"
  "n < 16 \<Longrightarrow> run_lengths (push_bit 4 (of_nat n) OR 2) = (0, 32 + n)"
  "n < 16 \<Longrightarrow> run_lengths (push_bit 4 (of_nat n) OR 1) = (0, 16 + n)"
  "n < 16 \<Longrightarrow> m < 16 \<Longrightarrow> m \<noteq> 1 \<Longrightarrow> m \<noteq> 2 \<Longrightarrow> run_lengths (push_bit 4 (of_nat n) OR of_nat m) = (n, m)"
  "m < 16 \<Longrightarrow> m \<noteq> 1 \<Longrightarrow> m \<noteq> 2 \<Longrightarrow> run_lengths (of_nat m) = (0, m)"
proof -
  have all: "list_all (\<lambda>n. run_lengths (push_bit 4 (of_nat n) OR 2) = (0, 32 + n) \<and> run_lengths (push_bit 4 (of_nat n) OR 1) = (0, 16 + n)
      \<and> list_all (\<lambda>m. m = 1 \<or> m = 2 \<or> run_lengths (push_bit 4 (of_nat n) OR of_nat m) = (n, m)) [0..<16]) [0..<16]"
    by code_simp
  show "run_lengths (push_bit 4 15 OR 2) = (0, 47)" "run_lengths (push_bit 4 15) = (15, 0)" by code_simp+
  have *: "run_lengths (push_bit 4 (of_nat n) OR 2) = (0, 32 + n)" "run_lengths (push_bit 4 (of_nat n) OR 1) = (0, 16 + n)"
    "\<forall>m\<in>{0..<16}. m = 1 \<or> m = 2 \<or> run_lengths (push_bit 4 (of_nat n) OR of_nat m) = (n, m)" if "n < 16" for n
  proof -
    from that have "n \<in> {0..<16}" by simp
    from bspec [OF all [unfolded list_all_iff set_upt] this]
    show "run_lengths (push_bit 4 (of_nat n) OR 2) = (0, 32 + n)" "run_lengths (push_bit 4 (of_nat n) OR 1) = (0, 16 + n)"
      "\<forall>m\<in>{0..<16}. m = 1 \<or> m = 2 \<or> run_lengths (push_bit 4 (of_nat n) OR of_nat m) = (n, m)" by blast+
  qed
  from * show "n < 16 \<Longrightarrow> run_lengths (push_bit 4 (of_nat n) OR 2) = (0, 32 + n)"
    "n < 16 \<Longrightarrow> run_lengths (push_bit 4 (of_nat n) OR 1) = (0, 16 + n)" by blast+
  have m: "run_lengths (push_bit 4 (of_nat n) OR of_nat m) = (n, m)" if "n < 16" "m < 16" "m \<noteq> 1" "m \<noteq> 2" for n m
    using bspec [OF *(3) [OF that(1)], of m] that by simp
  from m show "n < 16 \<Longrightarrow> m < 16 \<Longrightarrow> m \<noteq> 1 \<Longrightarrow> m \<noteq> 2 \<Longrightarrow> run_lengths (push_bit 4 (of_nat n) OR of_nat m) = (n, m)" .
  from m [of 0 m] show "m < 16 \<Longrightarrow> m \<noteq> 1 \<Longrightarrow> m \<noteq> 2 \<Longrightarrow> run_lengths (of_nat m) = (0, m)" by simp
qed


text \<open>The decoder at a place of a line: what the rest of the line leaves in \<open>line_size\<close>.\<close>

definition line_at :: "u16 \<Rightarrow> u8 list \<Rightarrow> u16" where
  "line_at w rest = (if rest = [] then w else of_nat (length rest))"

definition byte_before :: "u16 \<Rightarrow> u8 list \<Rightarrow> u8 list \<Rightarrow> u8" where
  "byte_before w out rest = (if length rest = unat w then 0 else last out)"

lemma unat_of_nat_16: "n \<le> unat w \<Longrightarrow> unat (of_nat n :: u16) = n" for w :: u16
proof -
  assume n: "n \<le> unat w"
  have "unat w < 2 ^ LENGTH(16)" by (rule unsigned_less)
  with n show ?thesis by (simp add: unsigned_of_nat take_bit_nat_eq_self)
qed

lemma of_nat_eq_iff_16: "n \<le> unat w \<Longrightarrow> (of_nat n :: u16) = w \<longleftrightarrow> n = unat w" for w :: u16
  using unat_of_nat_16 [of n w] by auto

lemma last_append_take: "0 < k \<Longrightarrow> k \<le> length rest \<Longrightarrow> last (out @ take k rest) = rest ! (k - 1)"
proof -
  assume k: "0 < k" "k \<le> length rest"
  then have "take k rest \<noteq> []" by auto
  with k show ?thesis by (simp add: last_conv_nth [of "take k rest"])
qed

lemma piece_decoded:
  assumes code: "run_lengths code = (raw, run)" and len: "0 < raw + run" "length rest \<le> unat w" "length rest \<le> n"
    and run: "run_ok60 run raw rest (byte_before w out rest)"
  shows "plane_runs w (line_at w rest) n out (code # take raw rest @ tail)
    = plane_runs w (line_at w (drop (raw + run) rest)) (n - (raw + run)) (out @ take (raw + run) rest) tail"
proof -
  have le: "raw + run \<le> length rest" using run by (simp add: run_ok60_def)
  with len(1) have n: "n \<noteq> 0" "\<not> n < raw + run" "rest \<noteq> []" using len(3) by auto
  let ?l = "line_at w rest - of_nat raw"
  have l: "?l = of_nat (length rest - raw)" using le n by (simp add: line_at_def of_nat_diff)
  have l': "?l - of_nat run = of_nat (length rest - (raw + run))" using le n by (simp add: l of_nat_diff)
  have zero: "(of_nat k :: u16) = 0 \<longleftrightarrow> k = 0" if "k \<le> unat w" for k
    using unat_of_nat_16 [OF that] by auto
  have next1: "(if ?l - of_nat run = 0 then w else ?l - of_nat run) = line_at w (drop (raw + run) rest)"
    unfolding l' using zero [of "length rest - (raw + run)"] len(2) by (simp add: line_at_def)
  have written: "take raw rest @ (if run = 0 then [] else replicate run (if ?l = w then 0 else last (out @ take raw rest))) = take (raw + run) rest"
  proof (cases "run = 0")
    case False
    have at: "?l = w \<longleftrightarrow> length rest - raw = unat w" unfolding l using len(2) by (intro of_nat_eq_iff_16) simp
    have "(if ?l = w then 0 else last (out @ take raw rest)) = (if raw = 0 then byte_before w out rest else rest ! (raw - 1))"
    proof (cases "raw = 0")
      case True
      with at show ?thesis by (simp add: byte_before_def)
    next
      case raw: False
      with le False len have "length rest - raw \<noteq> unat w" by linarith
      moreover have "last (out @ take raw rest) = rest ! (raw - 1)" using raw le by (intro last_append_take) simp_all
      ultimately show ?thesis using at raw by simp
    qed
    with run le have "replicate run (if ?l = w then 0 else last (out @ take raw rest)) = take run (drop raw rest)"
      by (intro nth_equalityI) (auto simp: run_ok60_def)
    with False show ?thesis by (simp add: take_add)
  qed simp
  have "plane_runs w (line_at w rest) n out (code # take raw rest @ tail)
    = plane_runs w (if ?l - of_nat run = 0 then w else ?l - of_nat run) (n - (raw + run))
        ((out @ take raw rest) @ (if run = 0 then [] else replicate run (if ?l = w then 0 else last (out @ take raw rest)))) tail"
  proof -
    have "raw \<le> length rest" using le by simp
    then have "raw \<le> length (take raw rest @ tail)" "take raw (take raw rest @ tail) = take raw rest" "drop raw (take raw rest @ tail) = tail"
      by simp_all
    with code n le show ?thesis by (subst plane_runs.simps) (simp add: next_byte_def Let_def del: take_append drop_append split del: if_split cong: if_cong)
  qed
  then show ?thesis unfolding next1 append_assoc written .
qed

lemma run_ok60_cut: "run_ok60 run raw rest b \<Longrightarrow> k \<le> run \<Longrightarrow> run_ok60 k raw rest b"
  by (auto simp: run_ok60_def)

lemma byte_before_drop:
  assumes "0 < k" "k \<le> length rest" "length rest \<le> unat w"
  shows "byte_before w (out @ take k rest) (drop k rest) = rest ! (k - 1)"
proof -
  have "length rest - k \<noteq> unat w" using assms by linarith
  with assms show ?thesis by (simp add: byte_before_def last_append_take)
qed

lemma run_ok60_drop_raw:
  assumes "run_ok60 run raw rest b" "0 < k" "k \<le> raw" "length rest \<le> unat w"
  shows "run_ok60 run (raw - k) (drop k rest) (byte_before w (out @ take k rest) (drop k rest))"
  using assms by (auto simp: run_ok60_def byte_before_drop)

lemma run_ok60_drop_run:
  assumes "run_ok60 run raw rest b" "0 < k" "k \<le> run" "length rest \<le> unat w"
  shows "run_ok60 (run - k) 0 (drop (raw + k) rest) (byte_before w (out @ take (raw + k) rest) (drop (raw + k) rest))"
proof -
  have "rest ! (raw + i) = rest ! (raw + k - 1)" if "i < run" for i
  proof -
    have "k - 1 < run" "raw + k - 1 = raw + (k - 1)" using assms by auto
    with assms(1) that show ?thesis by (simp add: run_ok60_def)
  qed
  moreover have "raw + k \<le> length rest" "run - k \<le> length rest - (raw + k)" using assms by (auto simp: run_ok60_def)
  ultimately show ?thesis using assms by (simp add: run_ok60_def byte_before_drop add.assoc)
qed


text \<open>A sequence of control bytes: the decoder writes the bytes of the line they stand for.\<close>

definition decoded_to :: "u16 \<Rightarrow> nat \<Rightarrow> u8 list \<Rightarrow> u8 list \<Rightarrow> u8 list \<Rightarrow> u8 list \<Rightarrow> bool" where
  "decoded_to w n out rest bs rest' \<longleftrightarrow> (\<exists>k\<le>length rest. rest' = drop k rest \<and>
     (\<forall>tail. plane_runs w (line_at w rest) n out (bs @ tail) = plane_runs w (line_at w rest') (n - k) (out @ take k rest) tail))"

lemma decoded_to_Nil: "decoded_to w n out rest [] rest"
  by (auto simp: decoded_to_def intro!: exI [of _ 0])

lemma decoded_to_step:
  assumes piece: "run_lengths code = (raw, run)" "0 < raw + run" "length rest \<le> unat w" "length rest \<le> n"
      "run_ok60 run raw rest (byte_before w out rest)"
    and more: "decoded_to w (n - (raw + run)) (out @ take (raw + run) rest) (drop (raw + run) rest) bs rest'"
  shows "decoded_to w n out rest (code # take raw rest @ bs) rest'"
proof -
  obtain k where k: "k \<le> length (drop (raw + run) rest)" "rest' = drop k (drop (raw + run) rest)"
    "\<And>tail. plane_runs w (line_at w (drop (raw + run) rest)) (n - (raw + run)) (out @ take (raw + run) rest) (bs @ tail)
      = plane_runs w (line_at w rest') (n - (raw + run) - k) ((out @ take (raw + run) rest) @ take k (drop (raw + run) rest)) tail"
    using more unfolding decoded_to_def by blast
  have le: "raw + run \<le> length rest" using piece(5) by (simp add: run_ok60_def)
  show ?thesis
    unfolding decoded_to_def
  proof (intro exI [of _ "raw + run + k"] conjI allI)
    fix tail
    have "take (raw + run) rest @ take k (drop (raw + run) rest) = take (raw + run + k) rest" by (rule take_add [symmetric])
    then show "plane_runs w (line_at w rest) n out ((code # take raw rest @ bs) @ tail)
        = plane_runs w (line_at w rest') (n - (raw + run + k)) (out @ take (raw + run + k) rest) tail"
      using piece_decoded [OF piece, of "bs @ tail"] k(3) [of tail] by (simp add: add.assoc)
  qed (use k(1,2) le in \<open>auto simp: add.commute add.left_commute\<close>)
qed

lemma decoded_to_last:
  assumes "run_lengths code = (raw, run)" "0 < raw + run" "length rest \<le> unat w" "length rest \<le> n"
      "run_ok60 run raw rest (byte_before w out rest)"
  shows "decoded_to w n out rest (code # take raw rest) (drop (raw + run) rest)"
  using decoded_to_step [OF assms decoded_to_Nil] by simp

lemma out_run_decoded:
  assumes "out_run run raw rest = (bs, rest')" "length rest \<le> unat w" "length rest \<le> n" "run_ok60 run raw rest (byte_before w out rest)"
  shows "decoded_to w n out rest bs rest'"
  using assms
proof (induction run raw rest arbitrary: bs n out rest' rule: out_run.induct)
  case (1 run raw rest)
  note w = "1.prems"(2) and n = "1.prems"(3) and ok = "1.prems"(4)
  note step = decoded_to_step [OF _ _ w n] and end_step = decoded_to_last [OF _ _ w n]
  have out: "out_run run raw rest = (bs, rest')" by (rule "1.prems"(1))
  show ?case
  proof (cases "(run = 0 \<and> raw = 0) \<or> (0 < run \<and> run < 3)")
    case True
    with out show ?thesis by (subst (asm) out_run.simps) (auto simp: decoded_to_Nil)
  next
    case go: False
    note out' = out [unfolded out_run.simps [of run raw rest] if_not_P [OF go]]
    show ?thesis
    proof (cases "raw = 0")
      case True
      note out2 = out' [unfolded if_P [OF True]]
      consider "47 < run" | "31 < run" "run \<le> 47" | "15 < run" "run \<le> 31" | "run \<le> 15" by linarith
      then show ?thesis
      proof cases
        case 1
        obtain bs' r' where rec: "out_run (run - 47) 0 (drop 47 rest) = (bs', r')" by (rule prod.exhaust)
        with out2 1 have bs: "bs = (push_bit 4 15 OR 2) # bs'" "r' = rest'" by simp_all
        have "decoded_to w (n - 47) (out @ take 47 rest) (drop 47 rest) bs' r'"
          using w n run_ok60_drop_run [OF ok _ _ w, of 47] True 1 by (intro "1.IH"(1) [OF go True 1 rec]) auto
        then have "decoded_to w n out rest ((push_bit 4 15 OR 2) # take 0 rest @ bs') r'"
          using ok True 1 by (intro step [OF run_lengths_out(1)]) (auto intro: run_ok60_cut)
        with bs show ?thesis by simp
      next
        case 2
        then have "run_lengths (push_bit 4 (of_nat (run - 32)) OR 2) = (0, run)" using run_lengths_out(3) [of "run - 32"] by simp
        from end_step [OF this] 2 ok True have "decoded_to w n out rest ((push_bit 4 (of_nat (run - 32)) OR 2) # take 0 rest) (drop run rest)" by simp
        with out2 2 show ?thesis by simp
      next
        case 3
        then have "run_lengths (push_bit 4 (of_nat (run - 16)) OR 1) = (0, run)" using run_lengths_out(4) [of "run - 16"] by simp
        from end_step [OF this] 3 ok True have "decoded_to w n out rest ((push_bit 4 (of_nat (run - 16)) OR 1) # take 0 rest) (drop run rest)" by simp
        with out2 3 show ?thesis by simp
      next
        case 4
        then have "run_lengths (of_nat run) = (0, run)" using go True by (intro run_lengths_out(6)) auto
        from end_step [OF this] 4 ok True go have "decoded_to w n out rest (of_nat run # take 0 rest) (drop run rest)" by simp
        with out2 4 show ?thesis by simp
      qed
    next
      case raw: False
      note out2 = out' [unfolded if_not_P [OF raw]]
      consider "15 < raw" | "raw \<le> 15" "15 < run" | "raw \<le> 15" "run \<le> 15" by linarith
      then show ?thesis
      proof cases
        case 1
        obtain bs' r' where rec: "out_run run (raw - 15) (drop 15 rest) = (bs', r')" by (rule prod.exhaust)
        with out2 1 have bs: "bs = push_bit 4 15 # take 15 rest @ bs'" "r' = rest'" by simp_all
        have ok0: "run_ok60 0 15 rest (byte_before w out rest)" using ok 1 by (auto simp: run_ok60_def)
        have "decoded_to w (n - 15) (out @ take 15 rest) (drop 15 rest) bs' r'"
          using w n run_ok60_drop_raw [OF ok _ _ w, of 15] 1 by (intro "1.IH"(2) [OF go raw 1 rec]) auto
        then have "decoded_to w n out rest (push_bit 4 15 # take 15 rest @ bs') r'"
          using ok0 by (intro step [OF run_lengths_out(2)]) auto
        with bs show ?thesis by simp
      next
        case 2
        then have no: "\<not> 15 < raw" by simp
        obtain bs' r' where rec: "out_run (run - 15) 0 (drop (raw + 15) rest) = (bs', r')" by (rule prod.exhaust)
        with out2 2 have bs: "bs = (push_bit 4 (of_nat raw) OR 15) # take raw rest @ bs'" "r' = rest'" by simp_all
        have code: "run_lengths (push_bit 4 (of_nat raw) OR 15) = (raw, 15)" using run_lengths_out(5) [of raw 15] 2 by simp
        have "decoded_to w (n - (raw + 15)) (out @ take (raw + 15) rest) (drop (raw + 15) rest) bs' r'"
          using w n run_ok60_drop_run [OF ok _ _ w, of 15] 2 by (intro "1.IH"(3) [OF go raw no 2(2) rec]) auto
        then have "decoded_to w n out rest ((push_bit 4 (of_nat raw) OR 15) # take raw rest @ bs') r'"
          using run_ok60_cut [OF ok, of 15] 2 by (intro step [OF code]) auto
        with bs show ?thesis by simp
      next
        case 3
        then have code: "run_lengths (push_bit 4 (of_nat raw) OR of_nat run) = (raw, run)" using go raw by (intro run_lengths_out(5)) auto
        from end_step [OF code _ ok] raw
        have "decoded_to w n out rest ((push_bit 4 (of_nat raw) OR of_nat run) # take raw rest) (drop (raw + run) rest)" by simp
        with out2 3 show ?thesis by simp
      qed
    qed
  qed
qed


lemma out_run_drops: "out_run run raw xs = (bs, rest) \<Longrightarrow> \<exists>k. rest = drop k xs \<and> (0 < k \<or> (run = 0 \<and> raw = 0) \<or> (0 < run \<and> run < 3))"
proof (induction run raw xs arbitrary: bs rest rule: out_run.induct)
  case (1 run raw xs)
  show ?case
  proof (cases "(run = 0 \<and> raw = 0) \<or> (0 < run \<and> run < 3)")
    case True
    with "1.prems" show ?thesis by (subst (asm) out_run.simps) (auto intro!: exI [of _ 0])
  next
    case go: False
    have cut: "\<exists>k. r = drop k xs \<and> 0 < k" if "\<exists>k. r = drop k (drop j xs) \<and> Q k" "0 < j" for j r and Q :: "nat \<Rightarrow> bool"
    proof -
      from that obtain k where "r = drop (k + j) xs" by auto
      with that(2) show ?thesis by (intro exI [of _ "k + j"]) simp
    qed
    note out = "1.prems" [unfolded out_run.simps [of run raw xs] if_not_P [OF go]]
    show ?thesis
    proof (cases "raw = 0")
      case True
      show ?thesis
      proof (cases "47 < run")
        case big: True
        with out True obtain bs' where "out_run (run - 47) 0 (drop 47 xs) = (bs', rest)" by (auto split: prod.splits)
        from cut [OF "1.IH"(1) [OF go True big this]] show ?thesis by auto
      next
        case False
        with out True have "rest = drop run xs" by (auto split: if_splits)
        with go True show ?thesis by auto
      qed
    next
      case raw: False
      consider "15 < raw" | "\<not> 15 < raw" "15 < run" | "\<not> 15 < raw" "\<not> 15 < run" by blast
      then show ?thesis
      proof cases
        case 1
        with out raw obtain bs' where "out_run run (raw - 15) (drop 15 xs) = (bs', rest)" by (auto split: prod.splits)
        from cut [OF "1.IH"(2) [OF go raw 1 this]] show ?thesis by auto
      next
        case 2
        with out raw obtain bs' where "out_run (run - 15) 0 (drop (raw + 15) xs) = (bs', rest)" by (auto split: prod.splits)
        from cut [OF "1.IH"(3) [OF go raw 2 this]] show ?thesis by auto
      next
        case 3
        with out raw have "rest = drop (raw + run) xs" by simp
        with raw show ?thesis by auto
      qed
    qed
  qed
qed

lemma out_run_shorter:
  assumes "get_run xs before = (run, raw)" "out_run run raw xs = (bs, rest)" "xs \<noteq> []"
  shows "length rest < length xs"
proof -
  from get_run_spec(2,3) [OF assms(1)] assms(3) have "run = 0 \<or> 3 \<le> run" "0 < raw + run" by blast+
  with out_run_drops [OF assms(2)] assms(3) show ?thesis by auto
qed

text \<open>One line: \<open>last_raw\<close> is the byte before \<open>xpos\<close>, and 0 at the start.\<close>

function compress_line :: "u8 \<Rightarrow> u8 list \<Rightarrow> u8 list" where
  "compress_line last_raw xpos =
     (if xpos = [] then []
      else case get_run xpos last_raw of (run, raw) \<Rightarrow>
        (case out_run run raw xpos of (bs, rest) \<Rightarrow>
           bs @ compress_line (xpos ! (length xpos - length rest - 1)) rest))"
  by pat_completeness auto
termination
  by (relation "measure (\<lambda>(last_raw, xpos). length xpos)") (simp, simp, metis out_run_shorter)

declare compress_line.simps [simp del]

definition compress_color_plane :: "nat \<Rightarrow> nat \<Rightarrow> u8 list \<Rightarrow> u8 list" where
  "compress_color_plane cx cy color_plane =
     (let plane = to_deltas cx cy color_plane in
      concat (map (\<lambda>y. compress_line 0 (take cx (drop (y * cx) plane))) [0..<cy]))"

definition rle_compress60 :: "u16 \<Rightarrow> u16 \<Rightarrow> u32 list \<Rightarrow> u8 list" where
  "rle_compress60 cx cy img =
     (let plane = (\<lambda>n. compress_color_plane (unat cx) (unat cy) (map (\<lambda>pixel. ucast (drop_bit n pixel AND 0xFF)) img)) in
      (push_bit 5 1 OR push_bit 4 1) # plane 16 @ plane 8 @ plane 0)"

subsection \<open>The decoder inverts the encoder\<close>

lemma compress_line_decoded:
  assumes "length xs \<le> unat w" "length xs \<le> n" "xs \<noteq> [] \<Longrightarrow> before = byte_before w out xs"
  shows "plane_runs w (line_at w xs) n out (compress_line before xs @ tail) = plane_runs w w (n - length xs) (out @ xs) tail"
  using assms
proof (induction before xs arbitrary: n out rule: compress_line.induct)
  case (1 before xs)
  show ?case
  proof (cases "xs = []")
    case True
    then show ?thesis by (simp add: compress_line.simps line_at_def)
  next
    case False
    obtain run raw bs rest where r: "get_run xs before = (run, raw)" "out_run run raw xs = (bs, rest)" by (metis prod.exhaust)
    have "decoded_to w n out xs bs rest"
      using get_run_spec(1) [OF r(1)] "1.prems" False by (intro out_run_decoded [OF r(2)]) simp_all
    then obtain k where k: "k \<le> length xs" "rest = drop k xs"
      "\<And>tail. plane_runs w (line_at w xs) n out (bs @ tail) = plane_runs w (line_at w rest) (n - k) (out @ take k xs) tail"
      unfolding decoded_to_def by blast
    have k0: "0 < k" using out_run_shorter [OF r False] k(2) by (cases k) auto
    let ?b = "xs ! (length xs - length rest - 1)"
    have "?b = xs ! (k - 1)" using k by simp
    then have "?b = byte_before w (out @ take k xs) rest" using byte_before_drop [OF k0 k(1) "1.prems"(1)] k(2) by simp
    then have "plane_runs w (line_at w rest) (n - k) (out @ take k xs) (compress_line ?b rest @ tail)
        = plane_runs w w (n - k - length rest) ((out @ take k xs) @ rest) tail"
      using "1.prems"(1,2) k(1,2) by (intro "1.IH" [OF False r(1) [symmetric] r(2) [symmetric]]) auto
    moreover have "compress_line before xs = bs @ compress_line ?b rest"
      using False r by (subst compress_line.simps) simp
    moreover have "n - k - length rest = n - length xs" "(out @ take k xs) @ rest = out @ xs" using k(1,2) by simp_all
    ultimately show ?thesis using k(3) by simp
  qed
qed


lemma all_bytes: "(\<And>n. n < 256 \<Longrightarrow> P (of_nat n)) \<Longrightarrow> P b" for b :: u8
proof -
  assume "\<And>n. n < 256 \<Longrightarrow> P (of_nat n)"
  moreover have "unat b < 2 ^ LENGTH(8)" by (rule unsigned_less)
  ultimately have "P (of_nat (unat b))" by (elim meta_allE [of _ "unat b"]) simp
  then show ?thesis by simp
qed

lemma of_delta_delta_of: "up + of_delta (delta_of v up) = v"
proof -
  have all: "list_all (\<lambda>n. of_delta (let delta = of_nat n in if 0 \<le> sint delta then push_bit 1 delta else push_bit 1 (NOT delta + 1) - 1) = of_nat n) [0..<256]"
    by code_simp
  have "of_delta (let delta = d in if 0 \<le> sint delta then push_bit 1 delta else push_bit 1 (NOT delta + 1) - 1) = d" for d
  proof (rule all_bytes)
    fix n :: nat assume "n < 256"
    then have "n \<in> {0..<256}" by simp
    from bspec [OF all [unfolded list_all_iff set_upt] this]
    show "of_delta (let delta = of_nat n in if 0 \<le> sint delta then push_bit 1 delta else push_bit 1 (NOT delta + 1) - 1) = of_nat n" .
  qed
  from this [of "v - up"] show ?thesis by (simp add: delta_of_def)
qed

lemma foldl_update:
  assumes "distinct ps" "\<And>p. p \<in> set ps \<Longrightarrow> p - w \<notin> set ps" "\<And>p. p \<in> set ps \<Longrightarrow> p < length xs"
  shows "length (foldl (\<lambda>xs p. xs[p := f (xs ! p) (xs ! (p - w))]) xs ps) = length xs"
    "i < length xs \<Longrightarrow> foldl (\<lambda>xs p. xs[p := f (xs ! p) (xs ! (p - w))]) xs ps ! i = (if i \<in> set ps then f (xs ! i) (xs ! (i - w)) else xs ! i)"
proof -
  have "length (foldl (\<lambda>xs p. xs[p := f (xs ! p) (xs ! (p - w))]) xs ps) = length xs
    \<and> (\<forall>i<length xs. foldl (\<lambda>xs p. xs[p := f (xs ! p) (xs ! (p - w))]) xs ps ! i = (if i \<in> set ps then f (xs ! i) (xs ! (i - w)) else xs ! i))"
    using assms
  proof (induction ps arbitrary: xs)
    case (Cons p ps)
    let ?xs = "xs[p := f (xs ! p) (xs ! (p - w))]"
    have "length (foldl (\<lambda>xs p. xs[p := f (xs ! p) (xs ! (p - w))]) ?xs ps) = length ?xs
      \<and> (\<forall>i<length ?xs. foldl (\<lambda>xs p. xs[p := f (xs ! p) (xs ! (p - w))]) ?xs ps ! i = (if i \<in> set ps then f (?xs ! i) (?xs ! (i - w)) else ?xs ! i))"
      by (rule Cons.IH) (use Cons.prems in auto)
    moreover have "i - w \<noteq> p" "i \<noteq> p" if "i \<in> set ps" for i using Cons.prems(1) Cons.prems(2) [of i] that by auto
    ultimately show ?case using Cons.prems(1,3) by (auto simp: nth_list_update)
  qed simp
  then show "length (foldl (\<lambda>xs p. xs[p := f (xs ! p) (xs ! (p - w))]) xs ps) = length xs"
    "i < length xs \<Longrightarrow> foldl (\<lambda>xs p. xs[p := f (xs ! p) (xs ! (p - w))]) xs ps ! i = (if i \<in> set ps then f (xs ! i) (xs ! (i - w)) else xs ! i)"
    by blast+
qed

lemma to_deltas_nth:
  "cy * w \<le> length plane \<Longrightarrow> length (to_deltas w cy plane) = length plane \<and>
     (\<forall>i<length plane. to_deltas w cy plane ! i = (if w \<le> i \<and> i < cy * w then delta_of (plane ! i) (plane ! (i - w)) else plane ! i))"
proof (induction cy arbitrary: plane)
  case (Suc n)
  show ?case
  proof (cases "n = 0")
    case False
    let ?row = "foldl (\<lambda>plane p. plane[p := delta_of (plane ! p) (plane ! (p - w))]) plane [n * w..<n * w + w]"
    have split: "to_deltas w (Suc n) plane = to_deltas w n ?row" using False by (simp add: to_deltas_def)
    have w: "w \<le> n * w" using False by simp
    have row: "length ?row = length plane" "\<And>i. i < length plane \<Longrightarrow> ?row ! i = (if i \<in> set [n * w..<n * w + w] then delta_of (plane ! i) (plane ! (i - w)) else plane ! i)"
    proof -
      have "p - w \<notin> set [n * w..<n * w + w]" "p < length plane" if "p \<in> set [n * w..<n * w + w]" for p
        using that w Suc.prems by (simp_all only: set_upt atLeastLessThan_iff mult_Suc) linarith+
      note fold = foldl_update [OF distinct_upt this]
      from fold(1) show "length ?row = length plane" .
      from fold(2) show "?row ! i = (if i \<in> set [n * w..<n * w + w] then delta_of (plane ! i) (plane ! (i - w)) else plane ! i)" if "i < length plane" for i
        using that by blast
    qed
    have IH: "length (to_deltas w n ?row) = length ?row" "\<And>i. i < length ?row \<Longrightarrow>
        to_deltas w n ?row ! i = (if w \<le> i \<and> i < n * w then delta_of (?row ! i) (?row ! (i - w)) else ?row ! i)"
      using Suc.IH [of ?row] Suc.prems row(1) by auto
    have "to_deltas w n ?row ! i = (if w \<le> i \<and> i < Suc n * w then delta_of (plane ! i) (plane ! (i - w)) else plane ! i)" if i: "i < length plane" for i
    proof (cases "i < n * w")
      case True
      then have below: "i - w < n * w" by linarith
      have "i \<notin> set [n * w..<n * w + w]" "i - w \<notin> set [n * w..<n * w + w]"
        using True below by (simp_all only: set_upt atLeastLessThan_iff) linarith+
      with i have "?row ! i = plane ! i" "?row ! (i - w) = plane ! (i - w)" using row(2) by (simp_all only: if_False less_imp_diff_less)
      with True i row(1) IH(2) [of i] show ?thesis by simp
    next
      case False
      then have "to_deltas w n ?row ! i = ?row ! i" using i row(1) IH(2) [of i] by simp
      moreover have "w \<le> i" using False w by linarith
      ultimately have "to_deltas w n ?row ! i = ?row ! i" "w \<le> i" by blast+
      with False row(2) [OF i] show ?thesis by (simp add: add.commute [of w])
    qed
    with IH(1) row(1) show ?thesis unfolding split by simp
  qed (auto simp: to_deltas_def)
qed (simp add: to_deltas_def)

lemma rows_upt: "0 < cy \<Longrightarrow> concat (map (\<lambda>y. [y * w..<y * w + w]) [1..<cy]) = [w..<cy * w]"
proof (induction cy)
  case (Suc n)
  then show ?case using upt_add_eq_append [of w "n * w" w] by (cases "n = 0") (simp_all add: add.commute)
qed simp

lemma from_to_deltas:
  assumes "length plane = cy * w" "0 < cy"
  shows "from_deltas w cy w (to_deltas w cy plane) = plane"
proof -
  let ?g = "\<lambda>plane p. plane[p := plane ! (p - w) + of_delta (plane ! p)]"
  let ?d = "to_deltas w cy plane"
  note D = to_deltas_nth [of cy w plane, unfolded assms(1), OF le_refl]
  have "length (foldl ?g ?d [w..<m]) = cy * w \<and> (\<forall>i<cy * w. foldl ?g ?d [w..<m] ! i = (if i < m then plane ! i else ?d ! i))"
    if "w \<le> m" "m \<le> cy * w" for m
    using that
  proof (induction rule: dec_induct)
    case base
    then show ?case using D by auto
  next
    case (step m)
    then have IH: "length (foldl ?g ?d [w..<m]) = cy * w" "\<And>i. i < cy * w \<Longrightarrow> foldl ?g ?d [w..<m] ! i = (if i < m then plane ! i else ?d ! i)"
      by auto
    have "plane ! (m - w) + of_delta (?d ! m) = plane ! m" if "0 < w" using D step that by (simp add: of_delta_delta_of)
    then show ?case using step IH by (cases "w = 0") (auto simp: nth_list_update less_Suc_eq)
  qed
  from this [of "cy * w"] assms have "length (foldl ?g ?d [w..<cy * w]) = cy * w" "\<And>i. i < cy * w \<Longrightarrow> foldl ?g ?d [w..<cy * w] ! i = plane ! i"
    by auto
  then show ?thesis
    unfolding from_deltas_def rows_upt [OF assms(2)] by (intro nth_equalityI) (simp_all add: assms(1))
qed


lemma plane_lines_decoded:
  assumes "length plane = cy * unat w" "k \<le> cy"
  shows "plane_runs w w (cy * unat w) [] (concat (map (\<lambda>y. compress_line 0 (take (unat w) (drop (y * unat w) plane))) [0..<k]) @ tail)
    = plane_runs w w (cy * unat w - k * unat w) (take (k * unat w) plane) tail"
  using assms(2)
proof (induction k arbitrary: tail)
  case (Suc k)
  let ?line = "take (unat w) (drop (k * unat w) plane)"
  have "Suc k * unat w \<le> cy * unat w" using Suc.prems by (rule mult_le_mono1)
  then have len: "length ?line = unat w" "unat w \<le> cy * unat w - k * unat w" using assms(1) by simp_all
  then have at: "line_at w ?line = w" by (simp add: line_at_def)
  have "plane_runs w (line_at w ?line) (cy * unat w - k * unat w) (take (k * unat w) plane) (compress_line 0 ?line @ tail)
      = plane_runs w w (cy * unat w - k * unat w - length ?line) (take (k * unat w) plane @ ?line) tail"
    by (rule compress_line_decoded) (simp_all add: len byte_before_def del: length_take)
  moreover have "take (k * unat w) plane @ ?line = take (Suc k * unat w) plane" using take_add [of "k * unat w" "unat w" plane] by (simp only: mult_Suc add.commute)
  ultimately show ?case using Suc.IH [of "compress_line 0 ?line @ tail"] Suc.prems len at by (simp add: add.commute)
qed simp

lemma color_plane_decoded:
  assumes "length plane = unat cy * unat cx" "length mem = unat cy * unat cx" "0 < unat cy"
  shows "decompress_color_plane cx cy cx mem (compress_color_plane (unat cx) (unat cy) plane @ tail) = Inr (plane, tail)"
proof -
  let ?d = "to_deltas (unat cx) (unat cy) plane"
  have d: "length ?d = unat cy * unat cx" using to_deltas_nth [of "unat cy" "unat cx" plane] assms(1) by simp
  have "plane_runs cx cx (unat cy * unat cx) [] (compress_color_plane (unat cx) (unat cy) plane @ tail) = Inr (?d, tail)"
    using plane_lines_decoded [OF d le_refl, of tail] d by (simp add: compress_color_plane_def Let_def plane_runs.simps [of cx cx 0])
  then show ?thesis
    using from_to_deltas [OF assms(1,3)] d assms(2) by (simp add: decompress_color_plane_def mult.commute)
qed


subsection \<open>Properties\<close>

lemma plane_color_pixel:
  assumes "nb = 3 \<or> nb = 4" "i < length img" "take_bit (8 * nb) (img ! i) = img ! i"
  shows "plane_color nb (map (\<lambda>v. ucast (drop_bit 16 v AND 0xFF)) img) (map (\<lambda>v. ucast (drop_bit 8 v AND 0xFF)) img)
    (map (\<lambda>v. ucast (v AND 0xFF)) img) i = take_bit (8 * nb) (0xFF000000 OR img ! i)"
proof (rule all_bits_32)
  let ?v = "img ! i"
  have v: "bit ?v n \<Longrightarrow> n < 8 * nb" for n
    using arg_cong [OF assms(3), of "\<lambda>w. bit w n"] by (simp add: bit_simps)
  show "list_all (\<lambda>n. bit (plane_color nb (map (\<lambda>v. ucast (drop_bit 16 v AND 0xFF)) img) (map (\<lambda>v. ucast (drop_bit 8 v AND 0xFF)) img)
    (map (\<lambda>v. ucast (v AND 0xFF)) img) i) n = bit (take_bit (8 * nb) (0xFF000000 OR ?v)) n) [0..<32]"
    using assms(1,2) by (elim disjE) (simp_all add: upt_32 plane_color_def bit_simps)
qed

lemma planes_decoded:
  assumes "nb = 3 \<or> nb = 4" "0 < unat cy" "length img = unat cx * unat cy" "\<forall>v\<in>set img. take_bit (8 * nb) v = v"
    and "length red = unat cx * unat cy" "length green = unat cx * unat cy" "length blue = unat cx * unat cy"
  shows "rle_decompress60 nb cx cy cx cy red green blue (rle_compress60 cx cy img)
    = Inr (Some (map (\<lambda>v. take_bit (8 * nb) (0xFF000000 OR v)) img))"
proof -
  let ?p = "\<lambda>n. map (\<lambda>v. ucast (drop_bit n v AND 0xFF)) img :: u8 list"
  have len: "length (?p n) = unat cy * unat cx" for n using assms(3) by (simp add: mult.commute)
  have mem: "length red = unat cy * unat cx" "length green = unat cy * unat cx" "length blue = unat cy * unat cx"
    using assms(5-7) by (simp_all add: mult.commute)
  note dec = color_plane_decoded [OF len _ assms(2)]
  have "rle_decompress60 nb cx cy cx cy red green blue (rle_compress60 cx cy img)
    = Inr (Some (map (plane_color nb (?p 16) (?p 8) (?p 0)) [0..<unat cx * unat cy]))"
    using dec [OF mem(1), of 16] dec [OF mem(2), of 8] dec [OF mem(3), of 0 "[]"]
    by (simp add: rle_decompress60_def rle_compress60_def Let_def next_byte_def has_def)
  moreover have "map (plane_color nb (?p 16) (?p 8) (?p 0)) [0..<unat cx * unat cy] = map (\<lambda>v. take_bit (8 * nb) (0xFF000000 OR v)) img"
    using plane_color_pixel [OF assms(1)] assms(3,4) by (intro nth_equalityI) simp_all
  ultimately show ?thesis by simp
qed

text \<open>
  C34. The planar decoder gives back every image of 24 or 32 bits the planar encoder encodes, whatever the memory
  for its planes held; a pixel of 32 bits comes back opaque.
\<close>

theorem planar_round_trip:
  assumes "nb = 3 \<or> nb = 4" "0 < unat cy" "length img = unat cx * unat cy" "\<forall>v\<in>set img. take_bit (8 * nb) v = v"
    and "length red = unat cx * unat cy" "length green = unat cx * unat cy" "length blue = unat cx * unat cy"
  shows "rle_decompress60 nb cx cy cx cy red green blue (rle_compress60 cx cy img)
    = Inr (Some (map (\<lambda>v. take_bit (8 * nb) (0xFF000000 OR v)) img))"
  using assms by (rule planes_decoded)


lemma planar_round_trip_witness:
  "rle_decompress60 4 4 2 4 2 (replicate 8 9) (replicate 8 9) (replicate 8 9)
      (rle_compress60 4 2 [1, 1, 1, 1, 1, 0x10203, 0x10203, 5])
    = Inr (Some (map (\<lambda>v. take_bit 32 (0xFF000000 OR v)) [1, 1, 1, 1, 1, 0x10203, 0x10203, 5]))"
  using planar_round_trip [of 4 2 "[1, 1, 1, 1, 1, 0x10203, 0x10203, 5]" 4 "replicate 8 9" "replicate 8 9" "replicate 8 9"] by simp

text \<open>
  A run of a colour plane is not compared with what is left of the plane: six bytes from the server have the
  decoder write behind a plane of four pixels.
\<close>

theorem planar_run_overruns:
  "rle_decompress60 4 4 1 4 1 [0, 0, 0, 0] [0, 0, 0, 0] [0, 0, 0, 0] [0x30, 0xF2, 0xF2] = Inl UB_WRITE"
  by code_simp

text \<open>
  The lines of a bitmap narrower than its image are written one after the other, but read back at the distance
  of the image's lines: a bitmap of 1 x 2 equal pixels in an image 4 pixels wide is not decoded.
\<close>

theorem planar_narrow_lines_lost:
  "rle_decompress60 3 4 2 1 2 [0, 0, 0, 0, 9, 0, 0, 0] [0, 0, 0, 0, 9, 0, 0, 0] [0, 0, 0, 0, 9, 0, 0, 0]
      (rle_compress60 1 2 [0x010101, 0x020202])
   = Inr (Some [0x010101, 0x020202, 0, 0, 0xFCFCFC, 0, 0, 0])"
  by code_simp

end
