(* ===== verification/Rle_Round_Trip.thy ===== *)
theory Rle_Round_Trip
  imports Rle
begin

text \<open>
  What \<open>rle_compress\<close> writes, \<open>rle_decompress\<close> reads back: the headers of the orders, then the pixels of one
  order, then the loops of both ends.
\<close>

subsection \<open>Headers\<close>

lemma unat_byte: "n < 256 \<Longrightarrow> unat (of_nat n :: u8) = n"
  by (simp add: unat_of_nat take_bit_nat_eq_self)

lemma uint16_le_count:
  assumes "n < 65536"
  obtains b0 b1 where "bytes_uint16_le (of_nat n) = [b0, b1]" "unat b0 + 256 * unat b1 = n"
proof -
  have "unat (ucast (of_nat n :: u16) :: u8) = n mod 256"
    using assms by (simp add: unsigned_ucast_eq unsigned_of_nat take_bit_nat_eq_self take_bit_eq_mod)
  moreover have "unat (ucast (drop_bit 8 (of_nat n :: u16)) :: u8) = take_bit 8 (drop_bit 8 n)"
    using assms by (simp add: unsigned_ucast_eq unsigned_drop_bit_eq unsigned_of_nat take_bit_nat_eq_self)
  moreover have "take_bit 8 (drop_bit 8 n) = n div 256"
    using assms by (simp add: drop_bit_eq_div take_bit_eq_mod)
  ultimately have "unat (ucast (of_nat n :: u16) :: u8) + 256 * unat (ucast (drop_bit 8 (of_nat n :: u16)) :: u8) = n"
    by (simp only:) simp
  with bytes_uint16_le_def [of "of_nat n"] show ?thesis by (rule that)
qed

lemma below_16: "0 < n \<Longrightarrow> n < 16 \<Longrightarrow> n \<in> set [1, 2, 3, 4, 5, 6, 7, 8, 9, 10, 11, 12, 13, 14, 15 :: nat]"
  by simp arith

lemma below_32: "0 < n \<Longrightarrow> n < 32 \<Longrightarrow> n \<in> set [1, 2, 3, 4, 5, 6, 7, 8, 9, 10, 11, 12, 13, 14, 15, 16,
    17, 18, 19, 20, 21, 22, 23, 24, 25, 26, 27, 28, 29, 30, 31 :: nat]"
  by simp arith

lemma small_cases:
  assumes "n \<in> set ns" "list_all P ns"
  shows "P n"
  using assms by (simp add: list_all_iff)

lemma read_code_short:
  "0 < n \<Longrightarrow> n < 32 \<Longrightarrow> read_code (of_nat n # rest) = Inr ((FILL, n), rest)"
  "0 < n \<Longrightarrow> n < 32 \<Longrightarrow> read_code ((0x20 OR of_nat n) # rest) = Inr ((MIX, n), rest)"
  "0 < n \<Longrightarrow> n < 32 \<Longrightarrow> read_code ((0x60 OR of_nat n) # rest) = Inr ((COLOR, n), rest)"
  "0 < n \<Longrightarrow> n < 32 \<Longrightarrow> read_code ((0x80 OR of_nat n) # rest) = Inr ((COPY, n), rest)"
  "0 < n \<Longrightarrow> n < 32 \<Longrightarrow> read_code ((0x40 OR of_nat n) # rest) = Inr ((FOM, 8 * n), rest)"
  by (rule small_cases [OF below_32], assumption, assumption, simp add: read_code_def next_byte_def)+

lemma read_code_short_set:
  "0 < n \<Longrightarrow> n < 16 \<Longrightarrow> read_code ((0xc0 OR of_nat n) # rest) = Inr ((MIX_SET, n), rest)"
  "0 < n \<Longrightarrow> n < 16 \<Longrightarrow> read_code ((0xd0 OR of_nat n) # rest) = Inr ((FOM_SET, 8 * n), rest)"
  "0 < n \<Longrightarrow> n < 16 \<Longrightarrow> read_code ((0xe0 OR of_nat n) # rest) = Inr ((BICOLOR, 2 * n), rest)"
  by (rule small_cases [OF below_16], assumption, assumption, simp add: read_code_def next_byte_def)+

lemma read_code_long:
  "read_code (0 # b # rest) = Inr ((FILL, unat b + 32), rest)"
  "read_code (0x20 # b # rest) = Inr ((MIX, unat b + 32), rest)"
  "read_code (0x60 # b # rest) = Inr ((COLOR, unat b + 32), rest)"
  "read_code (0x80 # b # rest) = Inr ((COPY, unat b + 32), rest)"
  "read_code (0x40 # b # rest) = Inr ((FOM, unat b + 1), rest)"
  "read_code (0xc0 # b # rest) = Inr ((MIX_SET, unat b + 16), rest)"
  "read_code (0xd0 # b # rest) = Inr ((FOM_SET, unat b + 1), rest)"
  "read_code (0xe0 # b # rest) = Inr ((BICOLOR, 2 * (unat b + 16)), rest)"
  by (simp_all add: read_code_def next_byte_def)

lemma read_code_mega:
  "read_code (0xf0 # b0 # b1 # rest) = Inr ((FILL, unat b0 + 256 * unat b1), rest)"
  "read_code (0xf1 # b0 # b1 # rest) = Inr ((MIX, unat b0 + 256 * unat b1), rest)"
  "read_code (0xf2 # b0 # b1 # rest) = Inr ((FOM, unat b0 + 256 * unat b1), rest)"
  "read_code (0xf3 # b0 # b1 # rest) = Inr ((COLOR, unat b0 + 256 * unat b1), rest)"
  "read_code (0xf4 # b0 # b1 # rest) = Inr ((COPY, unat b0 + 256 * unat b1), rest)"
  "read_code (0xf6 # b0 # b1 # rest) = Inr ((MIX_SET, unat b0 + 256 * unat b1), rest)"
  "read_code (0xf7 # b0 # b1 # rest) = Inr ((FOM_SET, unat b0 + 256 * unat b1), rest)"
  "read_code (0xf8 # b0 # b1 # rest) = Inr ((BICOLOR, 2 * (unat b0 + 256 * unat b1)), rest)"
  by (simp_all add: read_code_def next_byte_def)

lemma read_code_mega_count:
  assumes "n < 65536"
  shows "read_code (0xf0 # bytes_uint16_le (of_nat n) @ rest) = Inr ((FILL, n), rest)"
    "read_code (0xf1 # bytes_uint16_le (of_nat n) @ rest) = Inr ((MIX, n), rest)"
    "read_code (0xf2 # bytes_uint16_le (of_nat n) @ rest) = Inr ((FOM, n), rest)"
    "read_code (0xf3 # bytes_uint16_le (of_nat n) @ rest) = Inr ((COLOR, n), rest)"
    "read_code (0xf4 # bytes_uint16_le (of_nat n) @ rest) = Inr ((COPY, n), rest)"
    "read_code (0xf6 # bytes_uint16_le (of_nat n) @ rest) = Inr ((MIX_SET, n), rest)"
    "read_code (0xf7 # bytes_uint16_le (of_nat n) @ rest) = Inr ((FOM_SET, n), rest)"
    "read_code (0xf8 # bytes_uint16_le (of_nat n) @ rest) = Inr ((BICOLOR, 2 * n), rest)"
  by (rule uint16_le_count [OF assms]; simp only: read_code_mega append_Cons append_Nil)+

lemmas read_code_simps = read_code_short read_code_short_set read_code_long read_code_mega_count

lemma read_out_count:
  assumes "0 < n" "n < 65536" "(m, opcode) \<in> {(0, FILL), (1, MIX), (3, COLOR), (4, COPY)}"
  shows "read_code (out_count n m @ rest) = Inr ((opcode, n), rest)"
  using assms by (elim insertE; clarsimp simp: out_count_def read_code_simps unat_byte simp del: of_nat_diff)

lemma read_mix_count_set:
  "0 < n \<Longrightarrow> n < 65536 \<Longrightarrow> read_code (out_mix_count_set nb n fg @ rest) = Inr ((MIX_SET, n), pixel_bytes nb fg @ rest)"
  by (simp add: out_mix_count_set_def read_code_simps unat_byte del: of_nat_diff)

lemma read_fom_count:
  "0 < n \<Longrightarrow> n < 65536 \<Longrightarrow> read_code (out_fom_sequence n masks @ rest) = Inr ((FOM, n), masks @ rest)"
  by (auto simp: out_fom_sequence_def read_code_simps unat_byte simp del: of_nat_diff)

lemma fom_set_test:
  assumes "n < 256" "(of_nat n :: u8) AND 0x87 = 0"
  shows "n mod 8 = 0" "n < 128"
proof -
  have b: "\<not> bit (of_nat n :: u8) k" if "k = 0 \<or> k = 1 \<or> k = 2 \<or> k = 7" for k
    using arg_cong [OF assms(2), of "\<lambda>w. bit w k"] that by (auto simp: bit_simps)
  have bits: "\<not> bit n 0" "\<not> bit n 1" "\<not> bit n 2" "\<not> bit n 7"
    using b [of 0] b [of 1] b [of 2] b [of 7] bit_unsigned_iff [of "of_nat n :: u8", where ?'a = nat] unat_byte [OF assms(1)] by simp_all
  then have e: "even n" "even (n div 2)" "even (n div 4)" "even (n div 128)" by (simp_all add: bit_iff_odd)
  have "n div 4 = (n div 2) div 2" by (simp add: div_mult2_eq [symmetric])
  with e(1-3) obtain k where "n = 8 * k" by (auto elim!: evenE)
  then show "n mod 8 = 0" by simp
  have "n div 128 < 2" using assms(1) by simp
  with e(4) have "n div 128 = 0" by (auto elim!: evenE)
  then show "n < 128" by simp
qed

lemma read_fom_count_set:
  assumes "0 < n" "n < 65536"
  shows "read_code (out_fom_sequence_set nb n fg masks @ rest) = Inr ((FOM_SET, n), pixel_bytes nb fg @ masks @ rest)"
proof (cases "n < 256 \<and> (of_nat n :: u8) AND 0x87 = 0")
  case True
  with fom_set_test [of n] have n: "n mod 8 = 0" "n < 128" by simp_all
  with assms(1) have "0 < n div 8" "n div 8 < 16" "8 * (n div 8) = n" by auto
  with True show ?thesis by (simp add: out_fom_sequence_set_def read_code_short_set)
next
  case False
  with assms show ?thesis by (auto simp: out_fom_sequence_set_def read_code_simps unat_byte simp del: of_nat_diff)
qed

lemma read_bicolor_count:
  assumes "0 < n" "n < 65536" "even n"
  shows "read_code (out_bicolor_sequence nb n c1 c2 @ rest) = Inr ((BICOLOR, n), pixel_bytes nb c1 @ pixel_bytes nb c2 @ rest)"
  using assms by (auto simp: out_bicolor_sequence_def read_code_simps unat_byte elim!: evenE simp del: of_nat_diff)

subsection \<open>Pixels and masks\<close>

lemma length_pixel_bytes [simp]: "length (pixel_bytes nb v) = nb"
  by (simp add: pixel_bytes_def)

lemma pixel_of_bytes:
  assumes "nb = 1 \<or> nb = 2 \<or> nb = 3"
  shows "pixel_of (pixel_bytes nb v) = take_bit (8 * nb) v"
proof -
  have upt: "[0..<2] = [0, 1 :: nat]" "[0..<3] = [0, 1, 2 :: nat]" by (simp_all add: upt_rec)
  show ?thesis
  proof (rule bit_word_eqI)
    fix n assume "n < LENGTH(32)"
    then have "n < 32" by simp
    then show "bit (pixel_of (pixel_bytes nb v)) n = bit (take_bit (8 * nb) v) n"
      using assms by (cases rule: case_le_4_bytes) (auto simp: pixel_bytes_def upt bit_simps)
  qed
qed

lemma next_pixel_bytes:
  assumes "nb = 1 \<or> nb = 2 \<or> nb = 3"
  shows "next_pixel nb (pixel_bytes nb v @ rest) = Inr (take_bit (8 * nb) v, rest)"
  using pixel_of_bytes [OF assms] by (simp add: next_pixel_def)

lemma bit_mask_byte:
  "length bs \<le> 8 \<Longrightarrow> bit (mask_byte bs) k \<longleftrightarrow> k < length bs \<and> bs ! k"
proof (induction bs arbitrary: k)
  case (Cons b bs)
  have "bit (mask_byte (b # bs)) k \<longleftrightarrow> (k = 0 \<and> b) \<or> (0 < k \<and> k < 8 \<and> bit (mask_byte bs) (k - 1))"
    by (simp only: mask_byte.simps bit_or_iff bit_push_bit_iff) (cases k; simp add: bit_1_iff possible_bit_word)
  moreover have "bit (mask_byte bs) (k - 1) \<longleftrightarrow> k - 1 < length bs \<and> bs ! (k - 1)" using Cons by simp
  ultimately have "bit (mask_byte (b # bs)) k \<longleftrightarrow> (k = 0 \<and> b) \<or> (0 < k \<and> k < 8 \<and> k - 1 < length bs \<and> bs ! (k - 1))" by (simp only:)
  also have "\<dots> \<longleftrightarrow> k < length (b # bs) \<and> (b # bs) ! k" using Cons.prems by (cases k) auto
  finally show ?case .
qed simp

lemma ceil_8: "0 < n \<Longrightarrow> Suc ((n - 8 + 7) div 8) = (n + 7) div (8 :: nat)"
proof (cases n)
  case (Suc m)
  then have "(n + 7) div 8 = Suc (m div 8)" using div_add_self2 [of 8 m] by (simp add: add.commute)
  moreover have "(n - 8 + 7) div 8 = m div 8" using Suc by (cases "m < 7") auto
  ultimately show ?thesis by simp
qed simp

lemma mask_bytes_nth:
  "length (mask_bytes bits) = (length bits + 7) div 8"
  "8 * i < length bits \<Longrightarrow> mask_bytes bits ! i = mask_byte (take 8 (drop (8 * i) bits))"
proof (induction bits arbitrary: i rule: mask_bytes.induct)
  case (1 bits)
  {
    case 1
    show ?case
    proof (cases "bits = []")
      case False
      with "1.IH"(1) [OF False] show ?thesis by (subst mask_bytes.simps) (auto simp: Suc_leI div_add_self2 intro: ceil_8)
    qed (simp add: mask_bytes.simps)
  next
    case 2
    then have ne: "bits \<noteq> []" by auto
    show ?case
    proof (cases i)
      case 0
      with ne show ?thesis by (subst mask_bytes.simps) simp
    next
      case (Suc k)
      with 2 have "8 * k < length (drop 8 bits)" by simp
      from "1.IH"(2) [OF ne this] Suc ne show ?thesis by (subst mask_bytes.simps) (simp add: add.commute)
    qed
  }
qed

lemma mask_bytes_bit:
  assumes "j < length bits"
  shows "j div 8 < length (mask_bytes bits)" "bit (mask_bytes bits ! (j div 8)) (j mod 8) = bits ! j"
proof -
  show "j div 8 < length (mask_bytes bits)" using assms by (simp add: mask_bytes_nth(1))
  have "8 * (j div 8) + j mod 8 = j" "8 * (j div 8) < length bits" using assms by auto
  then have "j mod 8 < length bits - 8 * (j div 8)" using assms by linarith
  with \<open>8 * (j div 8) + j mod 8 = j\<close> \<open>8 * (j div 8) < length bits\<close>
  show "bit (mask_bytes bits ! (j div 8)) (j mod 8) = bits ! j"
    using assms by (simp add: mask_bytes_nth(2) bit_mask_byte)
qed

subsection \<open>The pixels of an order\<close>

text \<open>The decoder's image is the encoder's, without padding; \<open>written c img q s\<close> has the first \<open>q\<close> pixels out.\<close>

definition image_for :: "rle_image \<Rightarrow> u32 list \<Rightarrow> bool" where
  "image_for c img \<longleftrightarrow> (ri_nb c = 1 \<or> ri_nb c = 2 \<or> ri_nb c = 3) \<and> ri_src_cx c = ri_dst_cx c \<and> 0 < unat (ri_dst_cx c)
     \<and> ri_len c = length img \<and> length img < 65536 \<and> (\<forall>v\<in>set img. take_bit (8 * ri_nb c) v = v)"

definition written :: "rle_image \<Rightarrow> u32 list \<Rightarrow> nat \<Rightarrow> rle_state \<Rightarrow> rle_state" where
  "written c img q s = s\<lparr>rs_out := take q img, rs_x := of_nat (q mod unat (ri_dst_cx c))\<rparr>"

lemma written_simps [simp]:
  "rs_input (written c img q s) = rs_input s" "rs_out (written c img q s) = take q img" "rs_mix (written c img q s) = rs_mix s"
  "rs_color1 (written c img q s) = rs_color1 s" "rs_color2 (written c img q s) = rs_color2 s" "rs_mask (written c img q s) = rs_mask s"
  "rs_fom_mask (written c img q s) = rs_fom_mask s" "rs_bicolor (written c img q s) = rs_bicolor s" "rs_last (written c img q s) = rs_last s"
  "written c img q (written c img p s) = written c img q s"
  by (simp_all add: written_def)

lemma written_updates:
  "(written c img q s)\<lparr>rs_input := i\<rparr> = written c img q (s\<lparr>rs_input := i\<rparr>)"
  "(written c img q s)\<lparr>rs_mask := m\<rparr> = written c img q (s\<lparr>rs_mask := m\<rparr>)"
  "(written c img q s)\<lparr>rs_bicolor := b\<rparr> = written c img q (s\<lparr>rs_bicolor := b\<rparr>)"
  "(written c img q s)\<lparr>rs_last := l\<rparr> = written c img q (s\<lparr>rs_last := l\<rparr>)"
  "(written c img q s)\<lparr>rs_mask := m, rs_fom_mask := f, rs_input := i\<rparr> = written c img q (s\<lparr>rs_mask := m, rs_fom_mask := f, rs_input := i\<rparr>)"
  by (simp_all add: written_def)

lemma put_pixel_written:
  assumes c: "image_for c img" and q: "q < length img" and v: "take_bit (8 * ri_nb c) v = img ! q"
  shows "put_pixel c v (written c img q s) = Inr (written c img (q + 1) s)"
proof -
  let ?w = "unat (ri_dst_cx c)"
  have w: "0 < ?w" "?w < 65536" using c unsigned_less [of "ri_dst_cx c"] by (simp_all add: image_for_def)
  then have r: "q mod ?w < ?w" by simp
  then have small: "q mod ?w + 1 < 65536" using w(2) by linarith
  have x: "unat (of_nat (q mod ?w) + 1 :: u16) = (q mod ?w + 1) mod 65536"
    by (simp add: unat_word_ariths unsigned_of_nat take_bit_eq_mod mod_simps)
  have last: "(of_nat (q mod ?w) + 1 = ri_dst_cx c) = (q mod ?w + 1 = ?w)"
    unfolding word_unat_eq_iff x using small by simp
  have out: "take q img @ [img ! q] = take (q + 1) img" using q by (simp add: take_Suc_conv_app_nth)
  have next_x: "(q + 1) mod ?w = (if q mod ?w + 1 = ?w then 0 else q mod ?w + 1)" using mod_Suc [of q ?w] by simp
  show ?thesis
    using c q v last out next_x by (simp add: put_pixel_def written_def image_for_def Let_def)
qed

lemma yprev_written:
  assumes "image_for c img" "q < length img"
  shows "yprev c (written c img q s) = pixel_above (unat (ri_dst_cx c)) img q"
  using assms by (simp add: yprev_def pixel_above_def image_for_def)

lemma run_body_written:
  assumes c: "image_for c img" and n: "q + n \<le> length img"
    and step: "\<And>j. j < n \<Longrightarrow> \<exists>v. body_pixel c opcode (written c img (q + j) (st j)) = Inr (v, written c img (q + j) (st (j + 1)))
        \<and> take_bit (8 * ri_nb c) v = img ! (q + j)"
  shows "run_body c opcode n started (written c img q (st 0)) = Inr (Inr (written c img (q + n) (st n)))"
proof -
  have "run_body c opcode m started (written c img (q + j) (st j)) = Inr (Inr (written c img (q + n) (st n)))"
    if "j + m = n" for j m started
    using that
  proof (induction m arbitrary: j started)
    case (Suc m)
    then have j: "j < n" "q + j < length img" using n by simp_all
    obtain v where v: "body_pixel c opcode (written c img (q + j) (st j)) = Inr (v, written c img (q + j) (st (j + 1)))"
      "take_bit (8 * ri_nb c) v = img ! (q + j)" using step [OF j(1)] by blast
    have "put_pixel c v (written c img (q + j) (st (j + 1))) = Inr (written c img (q + (j + 1)) (st (j + 1)))"
      using put_pixel_written [OF c j(2) v(2)] by (simp add: add.assoc)
    with v(1) j c Suc.IH [of "j + 1" True] Suc.prems show ?case by (simp add: image_for_def)
  qed simp
  from this [of 0 n] show ?thesis by simp
qed

lemma read_data_written:
  assumes "read_data nb opcode (written c img q s) = Inr s1"
  shows "s1 = written c img q s1" "rs_last s1 = rs_last s"
  using assms by (auto simp: read_data_def bindR_eq_Inr written_def split: if_splits)

lemma run_order_written:
  assumes c: "image_for c img" and n: "0 < n" "q + n \<le> length img" and s: "s = written c img q s"
    and code: "read_code (rs_input s) = Inr ((opcode, n), input)" and data: "read_data (ri_nb c) opcode (s\<lparr>rs_input := input\<rparr>) = Inr s1"
    and magic: "opcode = FILL \<Longrightarrow> rs_last s = FILL \<Longrightarrow> q = unat (ri_dst_cx c)"
    and st: "st 0 = s1\<lparr>rs_last := opcode\<rparr>"
    and step: "\<And>j. j < n \<Longrightarrow> \<exists>v. body_pixel c opcode (written c img (q + j) (st j)) = Inr (v, written c img (q + j) (st (j + 1)))
        \<and> take_bit (8 * ri_nb c) v = img ! (q + j)"
  shows "run_order c len s = Inr (if q + n = length img
      then Inl (img, if ri_adjust c then len - length (rs_input (st n)) else 0) else Inr (written c img (q + n) (st n)))"
proof -
  have "s\<lparr>rs_input := input\<rparr> = written c img q (s\<lparr>rs_input := input\<rparr>)" using s by (metis written_updates(1))
  then have w: "s1 = written c img q s1" "rs_last s1 = rs_last s"
    using read_data_written [of "ri_nb c" opcode c img q "s\<lparr>rs_input := input\<rparr>" s1] data by simp_all
  have q: "length (rs_out s1) = q" using n by (subst w(1)) simp
  have m: "magic_mix c opcode n s1 = Inr (n, s1)" using magic q w(2) by (auto simp: magic_mix_def)
  have "s1\<lparr>rs_last := opcode\<rparr> = written c img q (st 0)" unfolding st using w(1) by (metis written_updates(4))
  then have b: "run_body c opcode n False (s1\<lparr>rs_last := opcode\<rparr>) = Inr (Inr (written c img (q + n) (st n)))"
    using run_body_written [OF c n(2) step, where started = False] by simp
  have "(length (take (q + n) img) = ri_len c) = (q + n = length img)" "q + n = length img \<Longrightarrow> take (q + n) img = img"
    using c n by (auto simp: image_for_def)
  then show ?thesis
    by (simp add: run_order_def code data m b)
qed

subsection \<open>Orders\<close>

text \<open>
  The two ends agree: the decoder has the first \<open>q\<close> pixels, its foreground is \<open>fg\<close> as far as pixels show it,
  and \<open>rest\<close> is what it has to read.
\<close>

definition agree :: "rle_image \<Rightarrow> u32 list \<Rightarrow> nat \<Rightarrow> u32 \<Rightarrow> u8 list \<Rightarrow> rle_state \<Rightarrow> bool" where
  "agree c img q fg rest s \<longleftrightarrow> s = written c img q s \<and> rs_input s = rest
     \<and> take_bit (8 * ri_nb c) (rs_mix s) = take_bit (8 * ri_nb c) fg"

lemma image_for_pixel: "image_for c img \<Longrightarrow> i < length img \<Longrightarrow> take_bit (8 * ri_nb c) (img ! i) = img ! i"
  by (simp add: image_for_def)

lemma image_for_above:
  assumes "image_for c img" "i < length img"
  shows "take_bit (8 * ri_nb c) (pixel_above w img i) = pixel_above w img i"
  using image_for_pixel [OF assms(1), of "i - w"] assms(2) by (simp add: pixel_above_def)

lemma mixed_pixel:
  assumes "image_for c img" "i < length img" "take_bit (8 * ri_nb c) m = take_bit (8 * ri_nb c) fg"
    and "img ! i = pixel_above w img i XOR fg"
  shows "take_bit (8 * ri_nb c) (pixel_above w img i XOR m) = img ! i"
proof -
  have "take_bit (8 * ri_nb c) (pixel_above w img i XOR m) = take_bit (8 * ri_nb c) (pixel_above w img i XOR fg)"
    using assms(3) by simp
  also have "\<dots> = img ! i" using image_for_pixel [OF assms(1,2)] assms(4) by simp
  finally show ?thesis .
qed

text \<open>The state after the masks of \<open>j\<close> pixels: byte \<open>(j - 1) div 8\<close> is in use.\<close>

definition mask_state :: "u8 list \<Rightarrow> u8 list \<Rightarrow> rle_state \<Rightarrow> nat \<Rightarrow> rle_state" where
  "mask_state masks rest s j = (let b = (j - 1) div 8 in
     s\<lparr>rs_mask := push_bit (j - 8 * b) 1, rs_fom_mask := ucast (masks ! b), rs_input := drop (b + 1) masks @ rest\<rparr>)"

lemma has_push_bit:
  fixes w :: u8
  assumes "m < 8"
  shows "has (push_bit m 1 :: u32) (ucast w) \<longleftrightarrow> bit w m"
proof -
  have "has (push_bit m 1 :: u32) (ucast w) \<longleftrightarrow> bit (ucast w :: u32) m"
    by (simp only: has_def bit_iff_and_push_bit_not_eq_0 and.commute)
  with assms show ?thesis by (simp add: bit_simps)
qed

lemma push_bit_not_256:
  assumes "m < 8"
  shows "(push_bit m 1 :: u32) \<noteq> 0x100"
proof -
  have "m = 0 \<or> m = 1 \<or> m = 2 \<or> m = 3 \<or> m = 4 \<or> m = 5 \<or> m = 6 \<or> m = 7" using assms by arith
  then show ?thesis by (elim disjE) simp_all
qed

lemma special_pixel:
  fixes B :: u8
  assumes op: "opcode = FOM \<or> opcode = FOM_SET" and m: "m < 8"
  shows "body_pixel c opcode (written c img q (s\<lparr>rs_mask := push_bit m 1, rs_fom_mask := ucast B, rs_input := i\<rparr>))
    = Inr (if bit B m then yprev c (written c img q s) XOR rs_mix s else yprev c (written c img q s),
        written c img q (s\<lparr>rs_mask := push_bit (m + 1) 1, rs_fom_mask := ucast B, rs_input := i\<rparr>))"
proof -
  let ?s = "written c img q (s\<lparr>rs_mask := push_bit m 1, rs_fom_mask := ucast B, rs_input := i\<rparr>)"
  have f: "rs_mask ?s = push_bit m 1" "rs_fom_mask ?s = ucast B" "rs_mix ?s = rs_mix s" "yprev c ?s = yprev c (written c img q s)"
    by (simp_all add: written_def yprev_def)
  have p: "(push_bit 1 (push_bit m 1) :: u32) = push_bit (m + 1) 1" by (simp only: push_bit_push_bit add.commute)
  have upd: "?s\<lparr>rs_mask := push_bit (m + 1) 1\<rparr> = written c img q (s\<lparr>rs_mask := push_bit (m + 1) 1, rs_fom_mask := ucast B, rs_input := i\<rparr>)"
    by (simp add: written_def)
  have "(opcode = FILL) = False" "(opcode = MIX_SET) = False" "(opcode = MIX) = False" "(opcode = FOM_SET \<or> opcode = FOM) = True"
    using op by auto
  then show ?thesis
    by (simp only: body_pixel_def Let_def f push_bit_not_256 [OF m] has_push_bit [OF m] p upd if_False if_True simp_thms)
qed

lemma reload_pixel:
  assumes op: "opcode = FOM \<or> opcode = FOM_SET" and s: "rs_mask s = 0x100" "rs_input s = b # rest"
  shows "body_pixel c opcode s = body_pixel c opcode (s\<lparr>rs_mask := 1, rs_fom_mask := ucast b, rs_input := rest\<rparr>)"
proof -
  have o: "(opcode = FILL) = False" "(opcode = MIX_SET) = False" "(opcode = MIX) = False" "(opcode = FOM_SET \<or> opcode = FOM) = True"
    using op by auto
  have "rs_mask (s\<lparr>rs_mask := 1, rs_fom_mask := ucast b, rs_input := rest\<rparr>) \<noteq> 0x100" by simp
  then show ?thesis
    by (simp only: body_pixel_def Let_def next_byte_def s o list.case bindR_simps prod.case if_True if_False simp_thms)
qed

lemma reload_pixel_written:
  assumes "opcode = FOM \<or> opcode = FOM_SET" "rs_mask s = 0x100" "rs_input s = b # rest"
  shows "body_pixel c opcode (written c img q s)
    = body_pixel c opcode (written c img q (s\<lparr>rs_mask := 1, rs_fom_mask := ucast b, rs_input := rest\<rparr>))"
  unfolding written_updates(5) [symmetric] by (rule reload_pixel [OF assms(1)]) (simp_all add: assms)

lemma div_pred_8: "\<not> (0 < j \<and> j mod 8 = 0) \<Longrightarrow> (j - 1) div 8 = j div (8 :: nat)"
  by (cases j) (auto simp: div_Suc mod_Suc)

lemma div_pred_8_mult: "0 < k \<Longrightarrow> (8 * k - 1) div 8 = k - (1 :: nat)"
  by (cases k) simp_all

lemma mask_step:
  assumes j: "j < length bits" and masks: "masks = mask_bytes bits" and op: "opcode = FOM \<or> opcode = FOM_SET"
  shows "body_pixel c opcode (written c img q (mask_state masks rest s j))
    = Inr (if bits ! j then yprev c (written c img q s) XOR rs_mix s else yprev c (written c img q s),
           written c img q (mask_state masks rest s (j + 1)))"
proof -
  let ?b = "(j - 1) div 8"
  have shift: "j - 8 * (j div 8) = j mod 8" "j + 1 - 8 * (j div 8) = j mod 8 + 1"
    using mult_div_mod_eq [of 8 j] by linarith+
  note M = mask_bytes_bit [OF j, folded masks]
  have special: "body_pixel c opcode (written c img q (s\<lparr>rs_mask := push_bit (j mod 8) 1, rs_fom_mask := ucast (masks ! (j div 8)), rs_input := i\<rparr>))
      = Inr (if bits ! j then yprev c (written c img q s) XOR rs_mix s else yprev c (written c img q s),
           written c img q (s\<lparr>rs_mask := push_bit (j mod 8 + 1) 1, rs_fom_mask := ucast (masks ! (j div 8)), rs_input := i\<rparr>))" for i
    using special_pixel [OF op, where m = "j mod 8" and B = "masks ! (j div 8)" and i = i] M(2) by (simp only: mod_less_divisor zero_less_numeral)
  have next_state: "mask_state masks rest s (j + 1)
      = s\<lparr>rs_mask := push_bit (j mod 8 + 1) 1, rs_fom_mask := ucast (masks ! (j div 8)), rs_input := drop (j div 8 + 1) masks @ rest\<rparr>"
    using shift(2) by (simp only: mask_state_def Let_def diff_add_inverse2)
  show ?thesis
  proof (cases "0 < j \<and> j mod 8 = 0")
    case False
    then have "?b = j div 8" by (rule div_pred_8)
    then have "mask_state masks rest s j = s\<lparr>rs_mask := push_bit (j mod 8) 1, rs_fom_mask := ucast (masks ! (j div 8)),
        rs_input := drop (j div 8 + 1) masks @ rest\<rparr>"
      by (simp only: mask_state_def Let_def shift)
    with special next_state show ?thesis by (simp only:)
  next
    case True
    then obtain k where k: "j = 8 * k" "0 < k" by auto
    then have "?b = k - 1" by (simp only: div_pred_8_mult)
    with k have b: "?b + 1 = j div 8" "j - 8 * ?b = 8" by simp_all
    have byte: "drop (j div 8) masks @ rest = masks ! (j div 8) # drop (j div 8 + 1) masks @ rest"
      using Cons_nth_drop_Suc [OF M(1)] by simp
    have zero: "j mod 8 = 0" using True by simp
    let ?m = "s\<lparr>rs_mask := 0x100, rs_fom_mask := ucast (masks ! ?b), rs_input := drop (j div 8) masks @ rest\<rparr>"
    have "mask_state masks rest s j = ?m" using b by (simp add: mask_state_def Let_def)
    moreover have "body_pixel c opcode (written c img q ?m) =
      body_pixel c opcode (written c img q (s\<lparr>rs_mask := push_bit (j mod 8) 1, rs_fom_mask := ucast (masks ! (j div 8)),
        rs_input := drop (j div 8 + 1) masks @ rest\<rparr>))"
      unfolding zero
      by (rule trans [OF reload_pixel_written [OF op, where b = "masks ! (j div 8)" and rest = "drop (j div 8 + 1) masks @ rest"]])
        (simp_all add: byte)
    ultimately show ?thesis using special next_state by (simp only:)
  qed
qed

text \<open>The operator of an order, and the state of the decoder after it has read the order's data.\<close>

definition received :: "rle_image \<Rightarrow> nat \<Rightarrow> u32 list \<Rightarrow> nat \<Rightarrow> u32 \<Rightarrow> u8 list \<Rightarrow> bool \<Rightarrow> rle_state \<Rightarrow> bool" where
  "received c len img q fg rest fill s \<longleftrightarrow>
     (\<exists>s'. run_order c len s = Inr (if q = length img then Inl (img, if ri_adjust c then len - length rest else 0) else Inr s')
        \<and> agree c img q fg rest s' \<and> (rs_last s' = FILL \<longleftrightarrow> fill))"

lemma run_received:
  assumes c: "image_for c img" and n: "0 < n" "q + n \<le> length img" and s: "s = written c img q s"
    and code: "read_code (rs_input s) = Inr ((opcode, n), input)" and data: "read_data (ri_nb c) opcode (s\<lparr>rs_input := input\<rparr>) = Inr s1"
    and magic: "opcode = FILL \<Longrightarrow> rs_last s = FILL \<Longrightarrow> q = unat (ri_dst_cx c)"
    and st: "st 0 = s1\<lparr>rs_last := opcode\<rparr>" "rs_input (st n) = rest" "take_bit (8 * ri_nb c) (rs_mix (st n)) = take_bit (8 * ri_nb c) fg"
      "rs_last (st n) = opcode"
    and step: "\<And>j. j < n \<Longrightarrow> \<exists>v. body_pixel c opcode (written c img (q + j) (st j)) = Inr (v, written c img (q + j) (st (j + 1)))
        \<and> take_bit (8 * ri_nb c) v = img ! (q + j)"
  shows "received c len img (q + n) fg rest (opcode = FILL) s"
  using run_order_written [OF c n s code data magic st(1) step, of len] st(2-4)
  unfolding received_def by (intro exI [of _ "written c img (q + n) (st n)"]) (simp add: agree_def)

text \<open>An order whose pixels leave the state as it is.\<close>

lemma run_received_same:
  assumes c: "image_for c img" and n: "0 < n" "q + n \<le> length img" and a: "agree c img q fg input s"
    and code: "read_code input = Inr ((opcode, n), input')" and data: "read_data (ri_nb c) opcode (s\<lparr>rs_input := input'\<rparr>) = Inr t"
    and magic: "opcode = FILL \<Longrightarrow> rs_last s = FILL \<Longrightarrow> q = unat (ri_dst_cx c)"
    and t: "rs_input t = rest" "take_bit (8 * ri_nb c) (rs_mix t) = take_bit (8 * ri_nb c) fg'"
    and step: "\<And>i. q \<le> i \<Longrightarrow> i < q + n \<Longrightarrow> \<exists>v. body_pixel c opcode (written c img i (t\<lparr>rs_last := opcode\<rparr>)) = Inr (v, written c img i (t\<lparr>rs_last := opcode\<rparr>))
        \<and> take_bit (8 * ri_nb c) v = img ! i"
  shows "received c len img (q + n) fg' rest (opcode = FILL) s"
  using a code t step
  by (intro run_received [OF c n _ _ data magic, of "\<lambda>j. t\<lparr>rs_last := opcode\<rparr>"]) (simp_all add: agree_def)

lemma image_for_bounds:
  assumes "image_for c img" "q + n \<le> length img"
  shows "n < 65536" "ri_nb c = 1 \<or> ri_nb c = 2 \<or> ri_nb c = 3"
  using assms by (auto simp: image_for_def)

lemma fill_received:
  assumes c: "image_for c img" and a: "agree c img q fg (out_count n 0 @ rest) s" and n: "0 < n" "q + n \<le> length img"
    and run: "\<forall>i\<in>{q..<q + n}. img ! i = pixel_above (unat (ri_dst_cx c)) img i"
    and magic: "rs_last s = FILL \<Longrightarrow> q = unat (ri_dst_cx c)"
  shows "received c len img (q + n) fg rest True s"
proof -
  note B = image_for_bounds [OF c n(2)]
  have "received c len img (q + n) fg rest (FILL = FILL) s"
    by (rule run_received_same [OF c n a read_out_count [OF n(1) B(1)], where t = "s\<lparr>rs_input := rest\<rparr>"])
      (use a run n magic image_for_above [OF c] in \<open>auto simp: read_data_def agree_def body_pixel_def yprev_written [OF c]\<close>)
  then show ?thesis by simp
qed

lemma mix_received:
  assumes c: "image_for c img" and a: "agree c img q fg (out_count n 1 @ rest) s" and n: "0 < n" "q + n \<le> length img"
    and run: "\<forall>i\<in>{q..<q + n}. img ! i = pixel_above (unat (ri_dst_cx c)) img i XOR fg"
  shows "received c len img (q + n) fg rest False s"
proof -
  note B = image_for_bounds [OF c n(2)]
  have "received c len img (q + n) fg rest (MIX = FILL) s"
    by (rule run_received_same [OF c n a read_out_count [OF n(1) B(1)], where t = "s\<lparr>rs_input := rest\<rparr>"])
      (use a run n mixed_pixel [OF c] in \<open>auto simp: read_data_def agree_def body_pixel_def yprev_written [OF c] simp del: take_bit_xor\<close>)
  then show ?thesis by simp
qed

lemma mix_set_received:
  assumes c: "image_for c img" and a: "agree c img q fg (out_mix_count_set (ri_nb c) n new @ rest) s" and n: "0 < n" "q + n \<le> length img"
    and run: "\<forall>i\<in>{q..<q + n}. img ! i = pixel_above (unat (ri_dst_cx c)) img i XOR new"
  shows "received c len img (q + n) new rest False s"
proof -
  note B = image_for_bounds [OF c n(2)]
  have "received c len img (q + n) new rest (MIX_SET = FILL) s"
    by (rule run_received_same [OF c n a read_mix_count_set [OF n(1) B(1)],
          where t = "s\<lparr>rs_input := rest, rs_mix := take_bit (8 * ri_nb c) new\<rparr>"])
      (use run n mixed_pixel [OF c] in \<open>auto simp: read_data_def next_pixel_bytes [OF B(2)] body_pixel_def yprev_written [OF c] simp del: take_bit_xor\<close>)
  then show ?thesis by simp
qed

lemma color_received:
  assumes c: "image_for c img" and a: "agree c img q fg (out_color_sequence (ri_nb c) n color @ rest) s" and n: "0 < n" "q + n \<le> length img"
    and run: "\<forall>i\<in>{q..<q + n}. img ! i = color"
  shows "received c len img (q + n) fg rest False s"
proof -
  note B = image_for_bounds [OF c n(2)]
  have code: "read_code (out_color_sequence (ri_nb c) n color @ rest) = Inr ((COLOR, n), pixel_bytes (ri_nb c) color @ rest)"
    using read_out_count [OF n(1) B(1), of 3 COLOR] by (simp add: out_color_sequence_def)
  have px: "take_bit (8 * ri_nb c) color = color" using image_for_pixel [OF c, of q] run n by auto
  have "received c len img (q + n) fg rest (COLOR = FILL) s"
    by (rule run_received_same [OF c n a code,
          where t = "s\<lparr>rs_input := rest, rs_color2 := take_bit (8 * ri_nb c) color\<rparr>"])
      (use a run n px in \<open>auto simp: agree_def read_data_def next_pixel_bytes [OF B(2)] body_pixel_def\<close>)
  then show ?thesis by simp
qed

lemma copy_received:
  assumes c: "image_for c img" and n: "0 < n" "q + n \<le> length img"
    and a: "agree c img q fg (out_copy_sequence (ri_nb c) (take n (drop q img)) @ rest) s"
  shows "received c len img (q + n) fg rest False s"
proof -
  note B = image_for_bounds [OF c n(2)]
  let ?ps = "take n (drop q img)" and ?t = "s\<lparr>rs_last := COPY\<rparr>"
  let ?in = "\<lambda>j. concat (map (pixel_bytes (ri_nb c)) (drop j ?ps)) @ rest"
  have code: "read_code (out_copy_sequence (ri_nb c) ?ps @ rest) = Inr ((COPY, n), ?in 0)"
    using read_out_count [OF n(1) B(1), of 4 COPY] n by (simp add: out_copy_sequence_def)
  have pixel: "?in j = pixel_bytes (ri_nb c) (img ! (q + j)) @ ?in (j + 1)" if "j < n" for j
  proof -
    have "drop j ?ps = img ! (q + j) # drop (j + 1) ?ps" using Cons_nth_drop_Suc [of j ?ps] that n by simp
    then show ?thesis by simp
  qed
  have "received c len img (q + n) fg rest (COPY = FILL) s"
  proof (rule run_received [OF c n, where opcode = COPY and st = "\<lambda>j. ?t\<lparr>rs_input := ?in j\<rparr>"])
    show "\<exists>v. body_pixel c COPY (written c img (q + j) (?t\<lparr>rs_input := ?in j\<rparr>)) = Inr (v, written c img (q + j) (?t\<lparr>rs_input := ?in (j + 1)\<rparr>))
        \<and> take_bit (8 * ri_nb c) v = img ! (q + j)" if "j < n" for j
      unfolding pixel [OF that] using that n image_for_pixel [OF c]
      by (simp add: body_pixel_def next_pixel_bytes [OF B(2)] written_updates)
    show "?t\<lparr>rs_input := ?in 0\<rparr> = s\<lparr>rs_input := ?in 0, rs_last := COPY\<rparr>" by (cases s) simp
  qed (use a code n in \<open>simp_all add: agree_def read_data_def\<close>)
  then show ?thesis by simp
qed

lemma bicolor_received:
  assumes c: "image_for c img" and n: "0 < n" "q + n \<le> length img" "even n"
    and a: "agree c img q fg (out_bicolor_sequence (ri_nb c) n (img ! q) (img ! (q + 1)) @ rest) s"
    and run: "\<forall>i<n. img ! (q + i) = (if even i then img ! q else img ! (q + 1))"
  shows "received c len img (q + n) fg rest False s"
proof -
  note B = image_for_bounds [OF c n(2)]
  have n2: "q + 1 < length img" "q < length img" using n by (auto elim!: evenE)
  have px: "take_bit (8 * ri_nb c) (img ! q) = img ! q" "take_bit (8 * ri_nb c) (img ! (q + 1)) = img ! (q + 1)"
    using n2 image_for_pixel [OF c] by blast+
  let ?st = "\<lambda>j. s\<lparr>rs_input := rest, rs_color1 := img ! q, rs_color2 := img ! (q + 1), rs_last := BICOLOR, rs_bicolor := odd j\<rparr>"
  have st0: "?st 0 = s\<lparr>rs_input := rest, rs_color1 := img ! q, rs_color2 := img ! (q + 1), rs_bicolor := False, rs_last := BICOLOR\<rparr>" by (cases s) simp
  have "received c len img (q + n) fg rest (BICOLOR = FILL) s"
  proof (rule run_received [OF c n(1,2), where opcode = BICOLOR and st = ?st])
    show "\<exists>v. body_pixel c BICOLOR (written c img (q + j) (?st j)) = Inr (v, written c img (q + j) (?st (j + 1)))
        \<and> take_bit (8 * ri_nb c) v = img ! (q + j)" if "j < n" for j
      using run that px by (auto simp: body_pixel_def written_updates)
    show "read_data (ri_nb c) BICOLOR (s\<lparr>rs_input := pixel_bytes (ri_nb c) (img ! q) @ pixel_bytes (ri_nb c) (img ! (q + 1)) @ rest\<rparr>)
        = Inr (s\<lparr>rs_input := rest, rs_color1 := img ! q, rs_color2 := img ! (q + 1), rs_bicolor := False\<rparr>)"
      using px by (cases s) (simp add: read_data_def next_pixel_bytes [OF B(2)])
    show "?st 0 = s\<lparr>rs_input := rest, rs_color1 := img ! q, rs_color2 := img ! (q + 1), rs_bicolor := False\<rparr>\<lparr>rs_last := BICOLOR\<rparr>"
      by (rule st0)
  qed (use a read_bicolor_count [OF n(1) B(1) n(3)] n in \<open>simp_all add: agree_def\<close>)
  then show ?thesis by simp
qed

text \<open>The masks of the two forms of a foreground and background sequence.\<close>

lemma fom_body:
  assumes c: "image_for c img" and n: "0 < n" "q + n \<le> length img" and j: "j < n"
    and masks: "masks = get_fom_masks (unat (ri_dst_cx c)) img q n" and op: "opcode = FOM \<or> opcode = FOM_SET"
    and mix: "take_bit (8 * ri_nb c) (rs_mix s) = take_bit (8 * ri_nb c) fg"
    and run: "\<forall>i\<in>{q..<q + n}. img ! i = pixel_above (unat (ri_dst_cx c)) img i \<or> img ! i = pixel_above (unat (ri_dst_cx c)) img i XOR fg"
  shows "\<exists>v. body_pixel c opcode (written c img (q + j) (mask_state masks rest s j)) = Inr (v, written c img (q + j) (mask_state masks rest s (j + 1)))
        \<and> take_bit (8 * ri_nb c) v = img ! (q + j)"
proof -
  let ?above = "pixel_above (unat (ri_dst_cx c)) img (q + j)"
  let ?bits = "map (\<lambda>i. img ! i \<noteq> pixel_above (unat (ri_dst_cx c)) img i) [q..<q + n]"
  have jb: "j < length ?bits" and qj: "q + j < length img" using j n by simp_all
  have b: "?bits ! j = (img ! (q + j) \<noteq> ?above)" using j by simp
  have step: "body_pixel c opcode (written c img (q + j) (mask_state masks rest s j))
    = Inr (if ?bits ! j then ?above XOR rs_mix s else ?above, written c img (q + j) (mask_state masks rest s (j + 1)))"
    using mask_step [OF jb masks [unfolded get_fom_masks_def] op] yprev_written [OF c qj] by simp
  have "take_bit (8 * ri_nb c) (if ?bits ! j then ?above XOR rs_mix s else ?above) = img ! (q + j)"
  proof (cases "?bits ! j")
    case True
    with run j b have "img ! (q + j) = ?above XOR fg" by auto
    with True mixed_pixel [OF c qj mix] show ?thesis by (simp only: if_True)
  next
    case False
    with b image_for_above [OF c qj] show ?thesis by (simp only: if_False simp_thms)
  qed
  with step show ?thesis by blast
qed

lemma fom_masks_shape:
  assumes "0 < n"
  shows "length (get_fom_masks w img q n) = (n - 1) div 8 + 1"
proof -
  have "length (get_fom_masks w img q n) = (n + 7) div 8" by (simp add: get_fom_masks_def mask_bytes_nth(1))
  moreover have "n + 7 = (n - 1) + 8" using assms by simp
  ultimately show ?thesis by (simp only: div_add_self2 zero_neq_numeral)
qed

lemma mask_state_ends:
  assumes n: "0 < n" and masks: "masks = get_fom_masks w img q n"
  shows "mask_state masks rest s 0 = s\<lparr>rs_mask := 1, rs_fom_mask := ucast (hd masks), rs_input := tl masks @ rest\<rparr>"
    "rs_input (mask_state masks rest s n) = rest" "masks = hd masks # tl masks"
proof -
  have "length masks = (n - 1) div 8 + 1" unfolding masks by (rule fom_masks_shape [OF n])
  then show "rs_input (mask_state masks rest s n) = rest" "masks = hd masks # tl masks"
    by (simp_all add: mask_state_def Let_def) (cases masks, simp_all)
  then have "masks ! 0 = hd masks" by (metis nth_Cons_0)
  then show "mask_state masks rest s 0 = s\<lparr>rs_mask := 1, rs_fom_mask := ucast (hd masks), rs_input := tl masks @ rest\<rparr>"
    by (simp add: mask_state_def drop_Suc)
qed

lemma mask_state_simps [simp]:
  "rs_mix (mask_state masks rest s j) = rs_mix s" "rs_last (mask_state masks rest s j) = rs_last s"
  by (simp_all add: mask_state_def Let_def)

lemma fom_received:
  assumes c: "image_for c img" and n: "0 < n" "q + n \<le> length img"
    and a: "agree c img q fg (out_fom_sequence n (get_fom_masks (unat (ri_dst_cx c)) img q n) @ rest) s"
    and run: "\<forall>i\<in>{q..<q + n}. img ! i = pixel_above (unat (ri_dst_cx c)) img i \<or> img ! i = pixel_above (unat (ri_dst_cx c)) img i XOR fg"
  shows "received c len img (q + n) fg rest False s"
proof -
  note B = image_for_bounds [OF c n(2)]
  define masks where "masks = get_fom_masks (unat (ri_dst_cx c)) img q n"
  note E = mask_state_ends [OF n(1) masks_def]
  let ?t = "s\<lparr>rs_last := FOM\<rparr>"
  have mix: "take_bit (8 * ri_nb c) (rs_mix ?t) = take_bit (8 * ri_nb c) fg" using a by (simp add: agree_def)
  have "received c len img (q + n) fg rest (FOM = FILL) s"
  proof (rule run_received [OF c n, where opcode = FOM and st = "mask_state masks rest ?t"])
    show "\<exists>v. body_pixel c FOM (written c img (q + j) (mask_state masks rest ?t j)) = Inr (v, written c img (q + j) (mask_state masks rest ?t (j + 1)))
        \<and> take_bit (8 * ri_nb c) v = img ! (q + j)" if "j < n" for j
      by (rule fom_body [OF c n that masks_def _ mix run]) simp
    show "read_data (ri_nb c) FOM (s\<lparr>rs_input := masks @ rest\<rparr>)
        = Inr (s\<lparr>rs_mask := 1, rs_fom_mask := ucast (hd masks), rs_input := tl masks @ rest\<rparr>)"
      by (subst E(3)) (cases s, simp add: read_data_def next_byte_def)
    show "mask_state masks rest ?t 0 = s\<lparr>rs_mask := 1, rs_fom_mask := ucast (hd masks), rs_input := tl masks @ rest\<rparr>\<lparr>rs_last := FOM\<rparr>"
      unfolding E(1) by (cases s) simp
  qed (use a read_fom_count [OF n(1) B(1)] E(2) in \<open>simp_all add: agree_def masks_def\<close>)
  then show ?thesis by simp
qed

lemma fom_set_received:
  assumes c: "image_for c img" and n: "0 < n" "q + n \<le> length img"
    and a: "agree c img q fg (out_fom_sequence_set (ri_nb c) n new (get_fom_masks (unat (ri_dst_cx c)) img q n) @ rest) s"
    and run: "\<forall>i\<in>{q..<q + n}. img ! i = pixel_above (unat (ri_dst_cx c)) img i \<or> img ! i = pixel_above (unat (ri_dst_cx c)) img i XOR new"
  shows "received c len img (q + n) new rest False s"
proof -
  note B = image_for_bounds [OF c n(2)]
  define masks where "masks = get_fom_masks (unat (ri_dst_cx c)) img q n"
  note E = mask_state_ends [OF n(1) masks_def]
  let ?t = "s\<lparr>rs_mix := take_bit (8 * ri_nb c) new, rs_last := FOM_SET\<rparr>"
  have mix: "take_bit (8 * ri_nb c) (rs_mix ?t) = take_bit (8 * ri_nb c) new" by simp
  have "received c len img (q + n) new rest (FOM_SET = FILL) s"
  proof (rule run_received [OF c n, where opcode = FOM_SET and st = "mask_state masks rest ?t"])
    show "\<exists>v. body_pixel c FOM_SET (written c img (q + j) (mask_state masks rest ?t j)) = Inr (v, written c img (q + j) (mask_state masks rest ?t (j + 1)))
        \<and> take_bit (8 * ri_nb c) v = img ! (q + j)" if "j < n" for j
      by (rule fom_body [OF c n that masks_def _ mix run]) simp
    show "read_data (ri_nb c) FOM_SET (s\<lparr>rs_input := pixel_bytes (ri_nb c) new @ masks @ rest\<rparr>)
        = Inr (s\<lparr>rs_mix := take_bit (8 * ri_nb c) new, rs_mask := 1, rs_fom_mask := ucast (hd masks), rs_input := tl masks @ rest\<rparr>)"
      by (subst E(3)) (cases s, simp add: read_data_def next_byte_def next_pixel_bytes [OF B(2)])
    show "mask_state masks rest ?t 0 = s\<lparr>rs_mix := take_bit (8 * ri_nb c) new, rs_mask := 1, rs_fom_mask := ucast (hd masks), rs_input := tl masks @ rest\<rparr>\<lparr>rs_last := FOM_SET\<rparr>"
      unfolding E(1) by (cases s) simp
  qed (use a read_fom_count_set [OF n(1) B(1)] E(2) in \<open>simp_all add: agree_def masks_def\<close>)
  then show ?thesis by simp
qed

text \<open>Whatever order the encoder chooses.\<close>

lemma code_received:
  assumes c: "image_for c img" and run: "run_ok (unat (ri_dst_cx c)) img pmax flags q n (if flags = FLAG_FOM_SET \<or> flags = FLAG_MIX_SET then new else fg)"
    and pmax: "pmax \<le> length img" and flags: "flags \<noteq> FLAG_NONE"
    and a: "agree c img q fg (out_order (ri_nb c) (unat (ri_dst_cx c)) img q flags n new @ rest) s"
    and magic: "flags = FLAG_FILL \<Longrightarrow> rs_last s = FILL \<Longrightarrow> q = unat (ri_dst_cx c)"
  shows "received c len img (q + n) (if flags = FLAG_FOM_SET \<or> flags = FLAG_MIX_SET then new else fg) rest (flags = FLAG_FILL) s"
proof -
  have n: "0 < n" "q + n \<le> length img" using run pmax by (simp_all add: run_ok_def)
  note R = run [unfolded run_ok_def] and A = a [unfolded out_order_def]
  show ?thesis
  proof (cases flags)
    case FLAG_NONE
    with flags show ?thesis by simp
  next
    case FLAG_FILL
    with fill_received [OF c _ n] R A magic show ?thesis by simp
  next
    case FLAG_MIX
    with mix_received [OF c _ n] R A show ?thesis by simp
  next
    case FLAG_FOM
    with fom_received [OF c n] R A show ?thesis by simp
  next
    case FLAG_MIX_SET
    with mix_set_received [OF c _ n] R A show ?thesis by simp
  next
    case FLAG_FOM_SET
    with fom_set_received [OF c n] R A show ?thesis by simp
  next
    case FLAG_COLOR
    then have "\<forall>i\<in>{q..<q + n}. img ! i = img ! q" "agree c img q fg (out_color_sequence (ri_nb c) n (img ! q) @ rest) s"
      using R [unfolded FLAG_COLOR rle_flag.case] A [unfolded FLAG_COLOR rle_flag.case] by blast+
    from color_received [OF c this(2) n this(1)] FLAG_COLOR show ?thesis by (simp only: rle_flag.distinct simp_thms if_False)
  next
    case FLAG_BICOLOR
    then have "even n" "\<forall>i<n. img ! (q + i) = (if even i then img ! q else img ! (q + 1))"
      "agree c img q fg (out_bicolor_sequence (ri_nb c) n (img ! q) (img ! (q + 1)) @ rest) s"
      using R [unfolded FLAG_BICOLOR rle_flag.case] A [unfolded FLAG_BICOLOR rle_flag.case] by blast+
    from bicolor_received [OF c n this(1,3,2)] FLAG_BICOLOR show ?thesis by (simp only: rle_flag.distinct simp_thms if_False)
  qed
qed

subsection \<open>The loops\<close>

lemma received_run:
  assumes "received c len img q fg rest fill s" "rs_input s \<noteq> []"
  obtains s' where "run_orders c len s = (if q = length img then Inr (img, if ri_adjust c then len - length rest else 0) else run_orders c len s')"
    "agree c img q fg rest s'" "rs_last s' = FILL \<longleftrightarrow> fill"
proof -
  obtain s' where s': "run_order c len s = Inr (if q = length img then Inl (img, if ri_adjust c then len - length rest else 0) else Inr s')"
    "agree c img q fg rest s'" "rs_last s' = FILL \<longleftrightarrow> fill"
    using assms(1) by (auto simp: received_def)
  have "run_orders c len s = (if q = length img then Inr (img, if ri_adjust c then len - length rest else 0) else run_orders c len s')"
    using s'(1) assms(2) by (subst run_orders.simps) simp
  from this s'(2,3) show ?thesis by (rule that)
qed

text \<open>
  \<open>follows\<close>: the decoder has all the pixels but those the encoder has yet to copy, and if its last order was a
  background run with nothing to copy since, the next one is not (or it starts the second line).
\<close>

definition follows :: "rle_image \<Rightarrow> u32 list \<Rightarrow> nat \<Rightarrow> rle_encoder \<Rightarrow> u8 list \<Rightarrow> rle_state \<Rightarrow> bool" where
  "follows c img pmax e bs s \<longleftrightarrow> agree c img (re_p e - re_copy e) (re_foreground e) bs s \<and> re_copy e \<le> re_p e \<and> re_p e \<le> pmax
     \<and> (rs_last s = FILL \<and> re_copy e = 0 \<and> re_p e < pmax \<longrightarrow>
          re_p e = unat (ri_dst_cx c) \<or> img ! re_p e \<noteq> pixel_above (unat (ri_dst_cx c)) img (re_p e))"

text \<open>What a part leads to: the result, when it is the end of the image, or the state for the next part.\<close>

definition part_done :: "rle_image \<Rightarrow> nat \<Rightarrow> u32 list \<Rightarrow> nat \<Rightarrow> u32 \<Rightarrow> u8 list \<Rightarrow> rle_state \<Rightarrow> bool" where
  "part_done c len img pmax fg rest s \<longleftrightarrow>
     (\<exists>s'. run_orders c len s = (if pmax = length img then Inr (img, if ri_adjust c then len - length rest else 0) else run_orders c len s')
        \<and> agree c img pmax fg rest s')"

lemma flush_received:
  assumes c: "image_for c img" and f: "follows c img pmax e (flush_copy (ri_nb c) img e @ rest) s" and pmax: "pmax \<le> length img"
    and copy: "0 < re_copy e"
  shows "received c len img (re_p e) (re_foreground e) rest False s" "rs_input s \<noteq> []"
proof -
  let ?q = "re_p e - re_copy e"
  have q: "?q + re_copy e = re_p e" "?q + re_copy e \<le> length img" using f pmax by (auto simp: follows_def)
  have a: "agree c img ?q (re_foreground e) (out_copy_sequence (ri_nb c) (take (re_copy e) (drop ?q img)) @ rest) s"
    using f copy by (simp add: follows_def flush_copy_def)
  from copy_received [OF c copy q(2) a, of len] q(1) show "received c len img (re_p e) (re_foreground e) rest False s" by simp
  from a show "rs_input s \<noteq> []" by (auto simp: agree_def out_copy_sequence_def out_count_def)
qed

lemma out_order_not_empty: "flags \<noteq> FLAG_NONE \<Longrightarrow> out_order nb w img p flags n new \<noteq> []"
  by (cases flags) (simp_all add: out_order_def out_count_def out_mix_count_set_def out_fom_sequence_def
      out_fom_sequence_set_def out_color_sequence_def out_bicolor_sequence_def)

text \<open>The copy and the order of one turn of the encoder.\<close>

lemma step_received:
  assumes c: "image_for c img" and p: "re_p e < pmax" and pmax: "pmax \<le> length img"
    and ch: "choose_order (ri_nb c) (unat (ri_dst_cx c)) img pmax e = (flags, n, new)" and flags: "flags \<noteq> FLAG_NONE"
    and f: "follows c img pmax e (flush_copy (ri_nb c) img e @ out_order (ri_nb c) (unat (ri_dst_cx c)) img (re_p e) flags n new @ rest) s"
  obtains s' where "run_orders c len s = (if re_p e + n = length img then Inr (img, if ri_adjust c then len - length rest else 0)
      else run_orders c len s')"
    "agree c img (re_p e + n) (order_foreground flags e new) rest s'" "rs_last s' = FILL \<longleftrightarrow> flags = FLAG_FILL"
proof -
  let ?ord = "out_order (ri_nb c) (unat (ri_dst_cx c)) img (re_p e) flags n new @ rest"
  have ok: "run_ok (unat (ri_dst_cx c)) img pmax flags (re_p e) n (if flags = FLAG_FOM_SET \<or> flags = FLAG_MIX_SET then new else re_foreground e)"
    using choose_order_ok(1) [OF p ch] by (simp add: order_foreground_def)
  obtain s1 where s1: "run_orders c len s = run_orders c len s1" "agree c img (re_p e) (re_foreground e) ?ord s1"
    "flags = FLAG_FILL \<Longrightarrow> rs_last s1 = FILL \<Longrightarrow> re_p e = unat (ri_dst_cx c)"
  proof (cases "re_copy e = 0")
    case True
    have "img ! re_p e = pixel_above (unat (ri_dst_cx c)) img (re_p e)" if "flags = FLAG_FILL"
      using ok that by (simp add: run_ok_def)
    with f True p show ?thesis by (intro that [of s]) (auto simp: follows_def flush_copy_def)
  next
    case False
    then have copy: "0 < re_copy e" by simp
    note F = flush_received(1) [OF c f pmax copy, of len] flush_received(2) [OF c f pmax copy]
    obtain s1 where "run_orders c len s = (if re_p e = length img then Inr (img, if ri_adjust c then len - length ?ord else 0) else run_orders c len s1)"
      "agree c img (re_p e) (re_foreground e) ?ord s1" "rs_last s1 = FILL \<longleftrightarrow> False"
      by (rule received_run [OF F])
    with p pmax show ?thesis by (intro that [of s1]) auto
  qed
  have "rs_input s1 \<noteq> []" using s1(2) out_order_not_empty [OF flags] by (simp add: agree_def)
  note O = code_received [OF c ok pmax flags s1(2,3), of len, folded order_foreground_def]
  obtain s' where "run_orders c len s1 = (if re_p e + n = length img then Inr (img, if ri_adjust c then len - length rest else 0) else run_orders c len s')"
    "agree c img (re_p e + n) (order_foreground flags e new) rest s'" "rs_last s' = FILL \<longleftrightarrow> flags = FLAG_FILL"
    by (rule received_run [OF O \<open>rs_input s1 \<noteq> []\<close>])
  from this(1) [folded s1(1)] this(2,3) show ?thesis by (rule that)
qed

lemma part_received:
  assumes c: "image_for c img" and pmax: "pmax \<le> length img"
    and f: "follows c img pmax e (fst (compress_part (ri_nb c) (unat (ri_dst_cx c)) img pmax e) @ rest) s"
    and left: "re_p e - re_copy e < pmax \<or> pmax < length img"
  shows "part_done c len img pmax (re_foreground (snd (compress_part (ri_nb c) (unat (ri_dst_cx c)) img pmax e))) rest s
    \<and> re_copy (snd (compress_part (ri_nb c) (unat (ri_dst_cx c)) img pmax e)) = 0
    \<and> re_p (snd (compress_part (ri_nb c) (unat (ri_dst_cx c)) img pmax e)) = pmax"
  using f left
proof (induction "pmax - re_p e" arbitrary: e s rule: less_induct)
  case less
  let ?w = "unat (ri_dst_cx c)"
  let ?part = "compress_part (ri_nb c) ?w img pmax"
  show ?case
  proof (cases "re_p e < pmax")
    case False
    then have run: "?part e = (flush_copy (ri_nb c) img e, e\<lparr>re_copy := 0\<rparr>)" by (subst compress_part.simps) simp
    have p: "re_p e = pmax" using False less.prems(1) by (simp add: follows_def)
    have f: "follows c img pmax e (flush_copy (ri_nb c) img e @ rest) s" using less.prems(1) run by simp
    show ?thesis
    proof (cases "re_copy e = 0")
      case True
      with less.prems(2) p have "pmax < length img" by simp
      with f True p show ?thesis unfolding run part_done_def by (auto simp: follows_def flush_copy_def)
    next
      case False
      then have copy: "0 < re_copy e" by simp
      obtain s' where "run_orders c len s = (if re_p e = length img then Inr (img, if ri_adjust c then len - length rest else 0) else run_orders c len s')"
        "agree c img (re_p e) (re_foreground e) rest s'"
        by (rule received_run [OF flush_received [OF c f pmax copy]])
      with p show ?thesis unfolding run part_done_def by auto
    qed
  next
    case p: True
    obtain flags n new where ch: "choose_order (ri_nb c) ?w img pmax e = (flags, n, new)" by (rule prod_cases3)
    note ok = choose_order_ok(1) [OF p ch]
    obtain bs e' where step: "compress_step (ri_nb c) ?w img pmax e = (bs, e')" by (rule prod.exhaust)
    have run: "fst (?part e) = bs @ fst (?part e')" "snd (?part e) = snd (?part e')"
      using p step by (subst compress_part.simps; simp add: case_prod_beta)+
    have smaller: "pmax - re_p e' < pmax - re_p e" by (rule compress_step_measure [OF p step [symmetric]])
    show ?thesis
    proof (cases "flags = FLAG_NONE")
      case True
      then have e': "bs = []" "e' = e\<lparr>re_copy := re_copy e + 1, re_new_foreground := new, re_p := re_p e + 1\<rparr>"
        using step ch by (simp_all add: compress_step_def)
      have "follows c img pmax e' (fst (?part e') @ rest) s" "re_p e' - re_copy e' < pmax \<or> pmax < length img"
        using less.prems p run(1) e' by (auto simp: follows_def)
      from less.hyps [OF smaller this] show ?thesis unfolding run(2) .
    next
      case False
      then have bs: "bs = flush_copy (ri_nb c) img e @ out_order (ri_nb c) ?w img (re_p e) flags n new"
        and e': "re_copy e' = 0" "re_p e' = re_p e + n" "re_foreground e' = order_foreground flags e new"
        using step ch by (auto simp: compress_step_def order_foreground_def)
      have "follows c img pmax e (flush_copy (ri_nb c) img e @ out_order (ri_nb c) ?w img (re_p e) flags n new @ fst (?part e') @ rest) s"
        using less.prems(1) unfolding run(1) bs by simp
      then obtain s' where s': "run_orders c len s = (if re_p e + n = length img then Inr (img, if ri_adjust c then len - length (fst (?part e') @ rest) else 0)
          else run_orders c len s')"
        "agree c img (re_p e + n) (order_foreground flags e new) (fst (?part e') @ rest) s'" "rs_last s' = FILL \<longleftrightarrow> flags = FLAG_FILL"
        by (rule step_received [OF c p pmax ch False])
      have le: "re_p e + n \<le> pmax" using ok by (simp add: run_ok_def)
      show ?thesis
      proof (cases "re_p e + n = length img")
        case True
        with le pmax have "re_p e' = pmax" "pmax = length img" using e' by simp_all
        moreover from this have "?part e' = (flush_copy (ri_nb c) img e', e'\<lparr>re_copy := 0\<rparr>)" by (subst compress_part.simps) simp
        moreover have "flush_copy (ri_nb c) img e' = []" using e' by (simp add: flush_copy_def)
        ultimately show ?thesis using s' e' True unfolding run(2) part_done_def by auto
      next
        case more: False
        have "follows c img pmax e' (fst (?part e') @ rest) s'"
          using s'(2,3) e' le ok by (auto simp: follows_def run_ok_def)
        moreover have "re_p e' - re_copy e' < pmax \<or> pmax < length img" using more e' le pmax by auto
        ultimately have "part_done c len img pmax (re_foreground (snd (?part e'))) rest s' \<and> re_copy (snd (?part e')) = 0 \<and> re_p (snd (?part e')) = pmax"
          by (rule less.hyps [OF smaller])
        with s'(1) more show ?thesis unfolding run(2) part_done_def by simp
      qed
    qed
  qed
qed

subsection \<open>Properties\<close>

lemma and_3: "n AND 3 = n mod 4" for n :: nat
  using take_bit_eq_mask [of 2 n] by (simp add: take_bit_eq_mod mask_eq_exp_minus_1)

lemma first_line:
  assumes "unat cx mod 4 = 0" "unat cx * nb < 65536" "nb = 1 \<or> nb = 2 \<or> nb = 3"
  shows "unat (align4 (of_nat (unat cx * nb))) div nb = unat cx"
proof -
  have u: "unat (of_nat (unat cx * nb) :: u16) = unat cx * nb"
    using assms(2) by (simp only: unsigned_of_nat take_bit_nat_eq_self) (simp add: take_bit_nat_eq_self)
  have "unat ((of_nat (unat cx * nb) :: u16) AND 3) = (unat cx * nb) mod 4"
    by (simp only: unsigned_and_eq u) (simp add: and_3)
  also have "\<dots> = 0" using assms(1) by auto
  finally have "(of_nat (unat cx * nb) :: u16) AND 3 = 0" by (simp only: unat_eq_0)
  then have "align4 (of_nat (unat cx * nb)) = of_nat (unat cx * nb)" by (rule align4_aligned)
  with u assms(3) show ?thesis by auto
qed

lemma foreground_mask: "take_bit (8 * rle_nb bpp) (4294967295 :: u32) = mask (8 * rle_nb bpp)"
  by (simp add: rle_nb_def mask_eq_exp_minus_1)

lemma rle_decoded:
  assumes bpp: "bpp = 8 \<or> bpp = 15 \<or> bpp = 16 \<or> bpp = 24"
    and cx: "0 < unat cx" "unat cx mod 4 = 0" "unat cx * rle_nb bpp < 65536"
    and img: "0 < unat cy" "length img = unat cx * unat cy" "length img < 65536" "\<forall>v\<in>set img. take_bit (8 * rle_nb bpp) v = v"
  shows "rle_decompress bpp cx cy cx adjust (rle_compress bpp cx img)
    = Inr (img, if adjust then length (rle_compress bpp cx img) else 0)"
proof -
  let ?w = "unat cx"
  define c where "c = \<lparr>ri_nb = rle_nb bpp, ri_dst_cx = cx, ri_src_cx = cx, ri_len = ?w * unat cy, ri_adjust = adjust\<rparr>"
  have nb: "rle_nb bpp = 1 \<or> rle_nb bpp = 2 \<or> rle_nb bpp = 3" by (simp add: rle_nb_def)
  have c: "image_for c img" using nb cx img by (simp add: image_for_def c_def)
  have f: "ri_nb c = rle_nb bpp" "ri_dst_cx c = cx" "ri_adjust c = adjust" by (simp_all add: c_def)
  have line: "?w \<le> length img" using img(1,2) cx(1) by simp
  define fg :: u32 where "fg = take_bit (8 * rle_nb bpp) (- 1)"
  define e where "e = \<lparr>re_p = 0, re_foreground = fg, re_new_foreground = fg, re_copy = 0\<rparr>"
  obtain bs e1 where p1: "compress_part (rle_nb bpp) ?w img ?w e = (bs, e1)" by (rule prod.exhaust)
  obtain cs e2 where p2: "compress_part (rle_nb bpp) ?w img (length img) e1 = (cs, e2)" by (rule prod.exhaust)
  have code: "rle_compress bpp cx img = bs @ cs"
    using p1 p2 first_line [OF cx(2,3) nb] by (simp add: rle_compress_def Let_def e_def fg_def)
  define len where "len = length (bs @ cs)"
  have start: "follows c img ?w e (bs @ cs) (rle_start (bs @ cs))"
    by (simp add: follows_def agree_def e_def fg_def rle_start_def written_def f foreground_mask)
  have P1: "part_done c len img ?w (re_foreground e1) cs (rle_start (bs @ cs))" "re_copy e1 = 0" "re_p e1 = ?w"
    using part_received [OF c, of ?w e cs "rle_start (bs @ cs)" len] start line p1 f cx(1) by (simp_all add: e_def)
  then obtain s1 where s1: "run_orders c len (rle_start (bs @ cs)) = (if ?w = length img then Inr (img, if adjust then len - length cs else 0) else run_orders c len s1)"
    "agree c img ?w (re_foreground e1) cs s1" unfolding part_done_def f by blast
  have result: "run_orders c len (rle_start (bs @ cs)) = Inr (img, if adjust then len else 0)"
  proof (cases "?w = length img")
    case True
    then have "cs = []" using p2 P1(2,3) by (subst (asm) compress_part.simps) (simp add: flush_copy_def)
    with s1(1) True show ?thesis by simp
  next
    case False
    with line have "?w < length img" by simp
    moreover have "follows c img (length img) e1 (cs @ []) s1"
      using s1(2) P1(2,3) line by (simp add: follows_def f)
    ultimately have "part_done c len img (length img) (re_foreground e2) [] s1"
      using part_received [OF c, of "length img" e1 "[]" s1 len] p2 f P1(2,3) by simp
    with s1(1) False show ?thesis by (auto simp: part_done_def f)
  qed
  then show ?thesis
    unfolding code by (simp add: rle_decompress_def c_def len_def)
qed

text \<open>
  C31. An image that \<open>rle_compress\<close> encodes is the image \<open>rle_decompress\<close> decodes, every byte of the code being
  used, for all depths but 32 and any image of fewer than 65536 pixels whose lines are aligned and
  shorter than 65536 bytes, whatever runs of background, foreground, masks and colours the encoder finds.
\<close>

theorem rle_round_trip:
  assumes bpp: "bpp = 8 \<or> bpp = 15 \<or> bpp = 16 \<or> bpp = 24"
    and cx: "0 < unat cx" "unat cx mod 4 = 0" "unat cx * rle_nb bpp < 65536"
    and img: "0 < unat cy" "length img = unat cx * unat cy" "length img < 65536" "\<forall>v\<in>set img. take_bit (8 * rle_nb bpp) v = v"
  shows "rle_decompress bpp cx cy cx adjust (rle_compress bpp cx img)
    = Inr (img, if adjust then length (rle_compress bpp cx img) else 0)"
  using assms by (rule rle_decoded)

lemma rle_round_trip_witness:
  "rle_decompress 16 4 2 4 True (rle_compress 16 4 [0, 0, 0xFFFF, 0, 7, 7, 7, 9])
    = Inr ([0, 0, 0xFFFF, 0, 7, 7, 7, 9], length (rle_compress 16 4 [0, 0, 0xFFFF, 0, 7, 7, 7, 9]))"
  using rle_round_trip [of 16 4 2 "[0, 0, 0xFFFF, 0, 7, 7, 7, 9]" True]
  by (simp add: rle_nb_def take_bit_eq_mask mask_eq_exp_minus_1)

end
