(* ===== verification/Bmp_Orders.thy ===== *)
theory Bmp_Orders
  imports Bmp_Link Planes Rle_Round_Trip Order_Common
begin

text \<open>
  The bitmap cache orders on the wire: \<open>RDPBmpCache\<close> in its four forms
  (\<open>core/RDP/orders/RDPOrdersSecondaryBmpCache.hpp\<close>), the coding of a bitmap they carry (\<open>Bitmap::compress\<close> and the
  constructor from coded data, \<open>utils/bitmap.cpp\<close>), the choice of the form in
  \<open>RDPSerializer::emit_bmp_cache\<close> and the secondary orders in \<open>rdp_orders\<close>.

  A \<open>Bitmap\<close> keeps the coded form it was once given or that was once computed: the \<open>memo\<close> here, empty
  when there is none. \<open>alloc n\<close> is what the allocator leaves in a block of \<open>n\<close> bytes.
\<close>

subsection \<open>A bitmap and its code\<close>

definition bitmap_pixels :: "nat \<Rightarrow> bitmap \<Rightarrow> u32 list" where
  "bitmap_pixels nb b = map (\<lambda>i. pixel_of (take nb (drop (i * nb) (bm_data b)))) [0..<unat (bm_cx b) * unat (bm_cy b)]"

definition planar_depth :: "u8 \<Rightarrow> u8 \<Rightarrow> bool" where
  "planar_depth session bpp \<longleftrightarrow> session = 32 \<and> (bpp = 24 \<or> bpp = 32)"

text \<open>
  The bytes written and the memo afterwards. The bytes of 32-bit pixels as 24-bit pixels, in a session of another
  depth, are not covered.
\<close>

definition compress :: "u8 \<Rightarrow> bitmap \<Rightarrow> u8 list \<Rightarrow> (u8 list \<times> u8 list) res" where
  "compress session b memo =
     (if memo \<noteq> [] then Inr (memo, memo)
      else if planar_depth session (bm_bpp b)
      then let bs = rle_compress60 (bm_cx b) (bm_cy b) (bitmap_pixels (nb_bytes_per_pixel (bm_bpp b)) b) in Inr (bs, bs)
      else if bm_bpp b = 32 then Inl NOT_MODELLED
      else let bs = rle_compress (bm_bpp b) (bm_cx b) (bitmap_pixels (rle_nb (bm_bpp b)) b) in Inr (bs, bs))"

text \<open>
  The constructor for coded data. What the decoder leaves out keeps the bytes of the block; the planes of the planar
  code lie in one block. Lines wider than the image, which only a wrap of the width gives, are written outside.
\<close>

definition coded_bitmap ::
  "(nat \<Rightarrow> u8 list) \<Rightarrow> u8 \<Rightarrow> u8 \<Rightarrow> color list \<Rightarrow> u16 \<Rightarrow> u16 \<Rightarrow> u8 list \<Rightarrow> bitmap res" where
  "coded_bitmap alloc session bpp palette cx cy bytes = assertR (normalized_bpp bpp)
     (let b = \<lparr>bm_bpp = bpp, bm_cx = align4 cx, bm_cy = cy, bm_palette = (if bpp = 8 then palette else []), bm_data = []\<rparr>;
          dest = alloc (bmp_size b);
          fill = (\<lambda>nb img. let ds = concat (map (pixel_bytes nb) img) in b\<lparr>bm_data := ds @ drop (length ds) dest\<rparr>)
      in if planar_depth session bpp
         then let n = unat (bm_cx b) * unat cy; m = alloc (3 * n); nb = nb_bytes_per_pixel bpp in
           if bm_cx b < cx then Inl UB_WRITE
           else bindR (rle_decompress60 nb (bm_cx b) cy cx cy (take n m) (take n (drop n m)) (drop (2 * n) m) bytes)
             (\<lambda>img. Inr (case img of None \<Rightarrow> b\<lparr>bm_data := dest\<rparr> | Some img \<Rightarrow> fill nb img))
         else if bpp = 32 then Inl NOT_MODELLED
         else bindR (rle_decompress bpp (bm_cx b) cy cx False bytes) (\<lambda>(img, _). Inr (fill (rle_nb bpp) img)))"

subsection \<open>Writing an order\<close>

abbreviation (input) TS_CACHE_BITMAP_UNCOMPRESSED :: u8 where "TS_CACHE_BITMAP_UNCOMPRESSED \<equiv> 0"
abbreviation (input) TS_CACHE_BITMAP_COMPRESSED :: u8 where "TS_CACHE_BITMAP_COMPRESSED \<equiv> 2"
abbreviation (input) TS_CACHE_BITMAP_UNCOMPRESSED_REV2 :: u8 where "TS_CACHE_BITMAP_UNCOMPRESSED_REV2 \<equiv> 4"
abbreviation (input) TS_CACHE_BITMAP_COMPRESSED_REV2 :: u8 where "TS_CACHE_BITMAP_COMPRESSED_REV2 \<equiv> 5"

definition NO_BITMAP_COMPRESSION_HDR :: u16 where "NO_BITMAP_COMPRESSION_HDR = 0x0400"
definition CBR2_HEIGHT_SAME_AS_WIDTH :: u16 where "CBR2_HEIGHT_SAME_AS_WIDTH = 0x01"
definition CBR2_PERSISTENT_KEY_PRESENT :: u16 where "CBR2_PERSISTENT_KEY_PRESENT = 0x02"
definition CBR2_NO_BITMAP_COMPRESSION_HDR :: u16 where "CBR2_NO_BITMAP_COMPRESSION_HDR = 0x08"
definition CBR2_DO_NOT_CACHE :: u16 where "CBR2_DO_NOT_CACHE = 0x10"

definition raw_data :: "bitmap \<Rightarrow> u8 list" where
  "raw_data b = take (bmp_size b) (bm_data b)"

text \<open>
  The fields before the data of the two revisions. The lengths the code fills in afterwards are written at once: \<open>sz\<close> is the
  number of bytes after the type, for the header it is less 7.
\<close>

definition secondary_header_bytes :: "nat \<Rightarrow> u16 \<Rightarrow> u8 \<Rightarrow> u8 list" where
  "secondary_header_bytes sz flags type =
     bytes_uint8 (STANDARD OR SECONDARY) @ bytes_uint16_le (of_nat sz - 7) @ bytes_uint16_le flags @ bytes_uint8 type"

definition v1_fields :: "bmp_order \<Rightarrow> nat \<Rightarrow> u8 list" where
  "v1_fields ord sz =
     bytes_uint8 (bo_id ord) @ [0] @ bytes_uint8 (ucast (bm_cx (bo_bmp ord))) @ bytes_uint8 (ucast (bm_cy (bo_bmp ord)))
     @ bytes_uint8 (bm_bpp (bo_bmp ord)) @ bytes_uint16_le (of_nat sz) @ bytes_uint16_le (bo_idx ord)"

definition compression_header :: "bitmap \<Rightarrow> nat \<Rightarrow> u8 list" where
  "compression_header b bufsize =
     [0, 0] @ bytes_uint16_le (of_nat bufsize) @ bytes_uint16_le (of_nat (bmp_size b div unat (bm_cy b)))
     @ bytes_uint16_le (of_nat (bmp_size b))"

definition emit_v1_compressed :: "u8 \<Rightarrow> bool \<Rightarrow> bmp_order \<Rightarrow> u8 list \<Rightarrow> u8 list res" where
  "emit_v1_compressed session use_compact_packets ord memo = assertR (use_compact_packets \<or> bm_cy (bo_bmp ord) \<noteq> 0)
     (bindR (compress session (bo_bmp ord) memo) (\<lambda>(data, _).
      let rest = (if use_compact_packets then [] else compression_header (bo_bmp ord) (length data)) @ data in
      Inr (secondary_header_bytes (9 + length rest) (if use_compact_packets then NO_BITMAP_COMPRESSION_HDR else 8) TS_CACHE_BITMAP_COMPRESSED
        @ v1_fields ord (length rest) @ rest)))"

definition emit_raw_v1 :: "bmp_order \<Rightarrow> u8 list res" where
  "emit_raw_v1 ord = assertR (bm_cx (bo_bmp ord) = align4 (bm_cx (bo_bmp ord)))
     (Inr (secondary_header_bytes (9 + bmp_size (bo_bmp ord)) 8 TS_CACHE_BITMAP_UNCOMPRESSED
        @ v1_fields ord (bmp_size (bo_bmp ord)) @ raw_data (bo_bmp ord)))"

text \<open>The length of 14 bits is meant to go into the two-byte form of the four-byte encoding.\<close>

definition key_bytes :: "(u8 list \<Rightarrow> u8 list) \<Rightarrow> bmp_order \<Rightarrow> u8 list" where
  "key_bytes sha ord =
     (if bo_persistent ord
      then bytes_uint32_le (sig_32 0 (compute_sha1 sha (bo_bmp ord))) @ bytes_uint32_le (sig_32 1 (compute_sha1 sha (bo_bmp ord)))
      else [])"

definition v2_fields :: "(u8 list \<Rightarrow> u8 list) \<Rightarrow> bmp_order \<Rightarrow> nat \<Rightarrow> u8 list" where
  "v2_fields sha ord sz =
     key_bytes sha ord @ bytes_2BUE (bm_cx (bo_bmp ord)) @ bytes_2BUE (bm_cy (bo_bmp ord)) @ bytes_uint16_be (of_nat sz OR 0x4000)
     @ bytes_2BUE (wire_idx ord)"

definition v2_flags :: "bmp_order \<Rightarrow> u16 \<Rightarrow> u16" where
  "v2_flags ord flags =
     (push_bit 7 (flags OR (if bo_persistent ord then CBR2_PERSISTENT_KEY_PRESENT else 0)
        OR (if bo_do_not_cache ord then CBR2_DO_NOT_CACHE else 0)) AND 0xFF80)
     OR (push_bit 3 (of_nat (nb_bytes_per_pixel (bm_bpp (bo_bmp ord)) + 2)) AND 0x78) OR (ucast (bo_id ord) AND 7)"

definition emit_v2_compressed :: "(u8 list \<Rightarrow> u8 list) \<Rightarrow> u8 \<Rightarrow> bmp_order \<Rightarrow> u8 list \<Rightarrow> u8 list res" where
  "emit_v2_compressed sha session ord memo =
     bindR (compress session (bo_bmp ord) memo) (\<lambda>(data, _).
     let fields = v2_fields sha ord (length data) in
     Inr (secondary_header_bytes (length fields + length data) (v2_flags ord CBR2_NO_BITMAP_COMPRESSION_HDR) TS_CACHE_BITMAP_COMPRESSED_REV2
       @ fields @ data))"

definition emit_raw_v2 :: "(u8 list \<Rightarrow> u8 list) \<Rightarrow> bmp_order \<Rightarrow> u8 list" where
  "emit_raw_v2 sha ord =
     (let fields = v2_fields sha ord (bmp_size (bo_bmp ord)) in
      secondary_header_bytes (length fields + bmp_size (bo_bmp ord)) (v2_flags ord 0) TS_CACHE_BITMAP_UNCOMPRESSED_REV2
        @ fields @ raw_data (bo_bmp ord))"

definition emit :: "(u8 list \<Rightarrow> u8 list) \<Rightarrow> u8 \<Rightarrow> nat \<Rightarrow> bool \<Rightarrow> bool \<Rightarrow> bmp_order \<Rightarrow> u8 list \<Rightarrow> u8 list res" where
  "emit sha session version use_bitmap_comp use_compact_packets ord memo =
     (if version \<le> 1
      then (if use_bitmap_comp then emit_v1_compressed session use_compact_packets ord memo else emit_raw_v1 ord)
      else (if use_bitmap_comp then emit_v2_compressed sha session ord memo else Inr (emit_raw_v2 sha ord)))"

text \<open>
  \<open>RDPSerializer::emit_bmp_cache\<close> from the order on: the code is used when it is shorter than the bitmap. It is made in
  a buffer of 65535 bytes and stays with the bitmap. The result is the bytes and the number of bytes reserved for them.
\<close>

definition emit_order ::
  "(u8 list \<Rightarrow> u8 list) \<Rightarrow> u8 \<Rightarrow> nat \<Rightarrow> bool \<Rightarrow> bool \<Rightarrow> bmp_order \<Rightarrow> u8 list \<Rightarrow> (u8 list \<times> nat) res" where
  "emit_order sha session version use_bitmap_comp use_compact_packets ord memo =
     bindR (if use_bitmap_comp \<and> memo = []
            then bindR (compress session (bo_bmp ord) memo) (\<lambda>(bs, memo). assertR (length bs \<le> 65535) (Inr memo))
            else Inr memo) (\<lambda>memo.
     bindR (emit sha session version (use_bitmap_comp \<and> length memo < bmp_size (bo_bmp ord)) use_compact_packets ord memo) (\<lambda>bs.
     Inr (bs, bmp_size (bo_bmp ord) + 32)))"

subsection \<open>Reading an order\<close>

text \<open>The fields \<open>receive\<close> sets, and the code that stays with a bitmap made from it.\<close>

record bmp_received =
  br_id :: u8
  br_idx :: u16
  br_bmp :: bitmap
  br_memo :: "u8 list"
  br_key1 :: u32
  br_key2 :: u32

definition cbr2_bpp_to_bpp :: "u8 \<Rightarrow> u16 \<Rightarrow> u8 res" where
  "cbr2_bpp_to_bpp session cbr2_bpp =
     (if cbr2_bpp = 3 then Inr 8
      else if cbr2_bpp = 4 then Inr (if session = 15 then 15 else 16)
      else if cbr2_bpp = 5 then Inr 24
      else if cbr2_bpp = 6 then Inr 32
      else Inl ERR_RDP_PROTOCOL)"

text \<open>The constructor for raw data reads as far as it needs, whatever length the order gives: its data goes on behind it.\<close>

definition receive_raw_v1 :: "color list \<Rightarrow> instream \<Rightarrow> (bmp_received \<times> instream) res" where
  "receive_raw_v1 palette s =
     bindR (in_uint8 s) (\<lambda>(cid, s). bindR (in_skip_bytes 1 s) (\<lambda>(_, s).
     bindR (in_uint8 s) (\<lambda>(width, s). bindR (in_uint8 s) (\<lambda>(height, s). bindR (in_uint8 s) (\<lambda>(bpp, s).
     bindR (in_uint16_le s) (\<lambda>(bufsize, s). bindR (in_uint16_le s) (\<lambda>(idx, s).
     bindR (in_skip_bytes (unat bufsize) s) (\<lambda>(_, s').
     bindR (raw_bitmap bpp palette (ucast width) (ucast height) (remaining_bytes s)) (\<lambda>b.
     Inr (\<lparr>br_id = cid, br_idx = idx, br_bmp = b, br_memo = [], br_key1 = 0, br_key2 = 0\<rparr>, s'))))))))))"

definition receive_compressed_v1 ::
  "(nat \<Rightarrow> u8 list) \<Rightarrow> u8 \<Rightarrow> color list \<Rightarrow> u16 \<Rightarrow> instream \<Rightarrow> (bmp_received \<times> instream) res" where
  "receive_compressed_v1 alloc session palette flags s =
     bindR (in_uint8 s) (\<lambda>(cid, s). bindR (in_uint8 s) (\<lambda>(_, s).
     bindR (in_uint8 s) (\<lambda>(width, s). bindR (in_uint8 s) (\<lambda>(height, s). bindR (in_uint8 s) (\<lambda>(bpp, s).
     bindR (in_uint16_le s) (\<lambda>(bufsize, s). bindR (in_uint16_le s) (\<lambda>(idx, s).
     bindR (if has flags NO_BITMAP_COMPRESSION_HDR
            then bindR (in_skip_bytes (unat bufsize) s) (\<lambda>(data, s). Inr (data, True, s))
            else bindR (in_uint16_le s) (\<lambda>(_, s). bindR (in_uint16_le s) (\<lambda>(size, s).
              bindR (in_uint16_le s) (\<lambda>(_, s). bindR (in_uint16_le s) (\<lambda>(_, s).
              bindR (in_skip_bytes (unat size) s) (\<lambda>(data, s). Inr (data, height \<noteq> 0, s))))))) (\<lambda>(data, row_size_defined, s).
     bindR (coded_bitmap alloc session bpp palette (ucast width) (ucast height) data) (\<lambda>b. assertR row_size_defined
     (Inr (\<lparr>br_id = cid, br_idx = idx, br_bmp = b, br_memo = data, br_key1 = 0, br_key2 = 0\<rparr>, s)))))))))))"

definition receive_keys :: "u16 \<Rightarrow> instream \<Rightarrow> (u32 \<times> u32 \<times> instream) res" where
  "receive_keys cbr2_flags s =
     (if has cbr2_flags CBR2_PERSISTENT_KEY_PRESENT
      then bindR (in_uint32_le s) (\<lambda>(k1, s). bindR (in_uint32_le s) (\<lambda>(k2, s). Inr (k1, k2, s)))
      else Inr (0, 0, s))"

definition receive_v2_data ::
  "(nat \<Rightarrow> u8 list) \<Rightarrow> u8 \<Rightarrow> color list \<Rightarrow> bool \<Rightarrow> u16 \<Rightarrow> u8 \<Rightarrow> u16 \<Rightarrow> u16 \<Rightarrow> u32 \<Rightarrow> instream \<Rightarrow> (bitmap \<times> u8 list \<times> instream) res" where
  "receive_v2_data alloc session palette compressed cbr2_flags bpp width height len s =
     (if \<not> compressed
      then bindR (in_skip_bytes (unat len) s) (\<lambda>(_, s').
           bindR (raw_bitmap bpp palette width height (remaining_bytes s)) (\<lambda>b. Inr (b, [], s')))
      else if has cbr2_flags CBR2_NO_BITMAP_COMPRESSION_HDR
      then bindR (in_skip_bytes (unat len) s) (\<lambda>(data, s).
           bindR (coded_bitmap alloc session bpp palette width height data) (\<lambda>b. Inr (b, data, s)))
      else bindR (in_skip_bytes 2 s) (\<lambda>(_, s). bindR (in_uint16_le s) (\<lambda>(sz, s).
           bindR (in_uint16_le s) (\<lambda>(_, s). bindR (in_uint16_le s) (\<lambda>(_, s).
           bindR (in_skip_bytes (unat sz) s) (\<lambda>(data, s).
           bindR (coded_bitmap alloc session bpp palette width height data) (\<lambda>b.
           assertR (height \<noteq> 0) (Inr (b, data, s)))))))))"

definition receive_v2_fields ::
  "(nat \<Rightarrow> u8 list) \<Rightarrow> u8 \<Rightarrow> color list \<Rightarrow> bool \<Rightarrow> u8 \<Rightarrow> u16 \<Rightarrow> u8 \<Rightarrow> instream \<Rightarrow> (bmp_received \<times> instream) res" where
  "receive_v2_fields alloc session palette compressed cid cbr2_flags bpp s =
     bindR (receive_keys cbr2_flags s) (\<lambda>(key1, key2, s).
     bindR (in_2BUE s) (\<lambda>(width, s).
     bindR (if has cbr2_flags CBR2_HEIGHT_SAME_AS_WIDTH then Inr (width, s) else in_2BUE s) (\<lambda>(height, s).
     bindR (in_4BUE s) (\<lambda>(len, s).
     bindR (in_2BUE s) (\<lambda>(idx, s).
     bindR (receive_v2_data alloc session palette compressed cbr2_flags bpp width height len s) (\<lambda>(b, memo, s).
     Inr (\<lparr>br_id = cid, br_idx = idx, br_bmp = b, br_memo = memo, br_key1 = key1, br_key2 = key2\<rparr>, s)))))))"

text \<open>\<open>receive_raw_v2\<close> and \<open>receive_compressed_v2\<close>, which differ in what they do with the data.\<close>

definition receive_v2 ::
  "(nat \<Rightarrow> u8 list) \<Rightarrow> u8 \<Rightarrow> color list \<Rightarrow> bool \<Rightarrow> u16 \<Rightarrow> instream \<Rightarrow> (bmp_received \<times> instream) res" where
  "receive_v2 alloc session palette compressed flags s =
     bindR (cbr2_bpp_to_bpp session (drop_bit 3 (flags AND 0x0078)))
       (\<lambda>bpp. receive_v2_fields alloc session palette compressed (ucast (flags AND 0x0007))
          (ucast (ucast (drop_bit 7 (flags AND 0xFF80)) :: u8)) bpp s)"

text \<open>The other types the caller does not pass on; they leave the order of the constructor, which has no bitmap.\<close>

definition receive_bmp_order ::
  "(nat \<Rightarrow> u8 list) \<Rightarrow> u8 \<Rightarrow> color list \<Rightarrow> secondary_header \<Rightarrow> instream \<Rightarrow> (bmp_received \<times> instream) res" where
  "receive_bmp_order alloc session palette h s =
     (if stype h = TS_CACHE_BITMAP_UNCOMPRESSED then receive_raw_v1 palette s
      else if stype h = TS_CACHE_BITMAP_COMPRESSED then receive_compressed_v1 alloc session palette (sflags h) s
      else if stype h = TS_CACHE_BITMAP_UNCOMPRESSED_REV2 then receive_v2 alloc session palette False (sflags h) s
      else if stype h = TS_CACHE_BITMAP_COMPRESSED_REV2 then receive_v2 alloc session palette True (sflags h) s
      else Inl UB)"

end
