(* ===== verification/Glyphs.thy ===== *)
theory Glyphs
  imports Order_Common Bitmaps
begin

text \<open>
  The glyphs of text: \<open>GlyphCache\<close> (\<open>core/RDP/caches/glyphcache.hpp\<close>) with the glyphs it holds (\<open>RDPFontChar\<close>,
  \<open>core/font.hpp\<close>), the secondary orders that carry a glyph or a colour table (\<open>RDPOrdersSecondaryGlyphCache.hpp\<close>,
  \<open>RDPOrdersSecondaryColorCache.hpp\<close>), what \<open>rdp_orders\<close> makes of them, and the loop of \<open>RDPSerializer::draw\<close> that
  renumbers the glyphs of a \<open>GlyphIndex\<close> order.
\<close>

subsection \<open>Glyphs\<close>

abbreviation (input) NUMBER_OF_GLYPH_CACHES :: nat where "NUMBER_OF_GLYPH_CACHES \<equiv> 10"
abbreviation (input) NUMBER_OF_GLYPH_CACHE_ENTRIES :: nat where "NUMBER_OF_GLYPH_CACHE_ENTRIES \<equiv> 254"

record glyph =
  gl_offsetx :: i16
  gl_offsety :: i16
  gl_incby :: i16
  gl_width :: u16
  gl_height :: u16
  gl_data :: "u8 list"

text \<open>\<open>nbbytes\<close> returns a \<open>uint8_t\<close>, \<open>align4\<close> takes a \<open>uint16_t\<close>.\<close>

definition nbbytes :: "u16 \<Rightarrow> u8" where
  "nbbytes v = of_nat ((unat v + 7) div 8)"

definition glyph_datasize :: "u16 \<Rightarrow> u16 \<Rightarrow> u16" where
  "glyph_datasize width height = align4 (ucast (nbbytes width) * height)"

definition font_item_equal :: "glyph \<Rightarrow> glyph \<Rightarrow> bool" where
  "font_item_equal g h \<longleftrightarrow> gl_offsetx g = gl_offsetx h \<and> gl_offsety g = gl_offsety h
     \<and> gl_width g = gl_width h \<and> gl_height g = gl_height h
     \<and> (let n = unat (glyph_datasize (gl_width h) (gl_height h)) in take n (gl_data g) = take n (gl_data h))"

subsection \<open>The cache\<close>

text \<open>An item without data is \<open>None\<close>. The stamps are counted without the limit of an \<open>int\<close>.\<close>

record glyph_slot =
  gs_item :: "glyph option"
  gs_stamp :: int
  gs_cached :: bool

record glyph_cache =
  gc_stamp :: int
  gc_entries :: "u8 list"
  gc_glyphs :: "glyph_slot list list"

definition empty_slot :: glyph_slot where
  "empty_slot = \<lparr>gs_item = None, gs_stamp = 0, gs_cached = False\<rparr>"

definition mk_glyph_cache :: "u8 list \<Rightarrow> glyph_cache" where
  "mk_glyph_cache entries = \<lparr>gc_stamp = 0, gc_entries = entries,
     gc_glyphs = replicate NUMBER_OF_GLYPH_CACHES (replicate NUMBER_OF_GLYPH_CACHE_ENTRIES empty_slot)\<rparr>"

definition glyph_reset :: "glyph_cache \<Rightarrow> glyph_cache" where
  "glyph_reset gc = mk_glyph_cache (gc_entries gc)"

definition slot_at :: "nat \<Rightarrow> nat \<Rightarrow> glyph_cache \<Rightarrow> glyph_slot" where
  "slot_at cid i gc = gc_glyphs gc ! cid ! i"

definition set_slot :: "nat \<Rightarrow> nat \<Rightarrow> glyph_slot \<Rightarrow> glyph_cache \<Rightarrow> glyph_cache" where
  "set_slot cid i s gc = gc\<lparr>gc_glyphs := (gc_glyphs gc)[cid := (gc_glyphs gc ! cid)[i := s]]\<rparr>"

text \<open>
  The search of \<open>priv_add_glyph\<close> over the \<open>n\<close> entries from \<open>i\<close> on: the entry with the glyph, or the first of the oldest.
\<close>

fun search_glyph :: "glyph \<Rightarrow> glyph_slot list \<Rightarrow> nat \<Rightarrow> nat \<Rightarrow> int \<Rightarrow> nat \<Rightarrow> (nat + nat) res" where
  "search_glyph g row i 0 old ci = Inr (Inr ci)"
| "search_glyph g row i (Suc n) old ci = assertR (i < length row)
     (if (case gs_item (row ! i) of None \<Rightarrow> False | Some h \<Rightarrow> font_item_equal h g) then Inr (Inl i)
      else if gs_stamp (row ! i) < old then search_glyph g row (Suc i) n (gs_stamp (row ! i)) i
      else search_glyph g row (Suc i) n old ci)"

text \<open>Whether the glyph was added, and its index.\<close>

definition add_glyph :: "glyph \<Rightarrow> u8 \<Rightarrow> glyph_cache \<Rightarrow> ((bool \<times> nat) \<times> glyph_cache) res" where
  "add_glyph g cacheid gc = assertR (unat cacheid < NUMBER_OF_GLYPH_CACHES)
     (let gc = gc\<lparr>gc_stamp := gc_stamp gc + 1\<rparr>; cid = unat cacheid in
      bindR (search_glyph g (gc_glyphs gc ! cid) 0 (unat (gc_entries gc ! cid)) 0x7fffffff 0) (\<lambda>r. case r of
        Inl i \<Rightarrow> Inr ((False, i), set_slot cid i ((slot_at cid i gc)\<lparr>gs_stamp := gc_stamp gc\<rparr>) gc)
      | Inr ci \<Rightarrow> Inr ((True, ci), set_slot cid ci \<lparr>gs_item = Some g, gs_stamp = gc_stamp gc, gs_cached = True\<rparr> gc)))"

text \<open>Neither the cache nor the index is compared with the size of the array.\<close>

definition set_glyph :: "glyph \<Rightarrow> nat \<Rightarrow> nat \<Rightarrow> glyph_cache \<Rightarrow> glyph_cache res" where
  "set_glyph g cid i gc =
     (if NUMBER_OF_GLYPH_CACHES \<le> cid \<or> NUMBER_OF_GLYPH_CACHE_ENTRIES \<le> i then Inl UB_WRITE
      else Inr (set_slot cid i ((slot_at cid i gc)\<lparr>gs_item := Some g, gs_stamp := gc_stamp gc + 1\<rparr>) (gc\<lparr>gc_stamp := gc_stamp gc + 1\<rparr>)))"

definition glyph_is_cached :: "nat \<Rightarrow> nat \<Rightarrow> glyph_cache \<Rightarrow> bool res" where
  "glyph_is_cached cid i gc = assertR (cid < NUMBER_OF_GLYPH_CACHES \<and> i < NUMBER_OF_GLYPH_CACHE_ENTRIES) (Inr (gs_cached (slot_at cid i gc)))"

definition glyph_set_cached :: "nat \<Rightarrow> nat \<Rightarrow> bool \<Rightarrow> glyph_cache \<Rightarrow> glyph_cache res" where
  "glyph_set_cached cid i cached gc =
     (if NUMBER_OF_GLYPH_CACHES \<le> cid \<or> NUMBER_OF_GLYPH_CACHE_ENTRIES \<le> i then Inl UB_WRITE
      else Inr (set_slot cid i ((slot_at cid i gc)\<lparr>gs_cached := cached\<rparr>) gc))"

subsection \<open>The order that carries a glyph\<close>

definition total_order_size :: "glyph \<Rightarrow> u16" where
  "total_order_size g = 18 + glyph_datasize (gl_width g) (gl_height g)"

definition emit_glyph_order :: "u8 \<Rightarrow> u16 \<Rightarrow> glyph \<Rightarrow> u8 list" where
  "emit_glyph_order cacheId cacheIndex g =
     (let sz = glyph_datasize (gl_width g) (gl_height g) in
      bytes_uint8 (STANDARD OR SECONDARY) @ bytes_uint16_le ((sz + 12) - 7) @ bytes_uint16_le 8 @ bytes_uint8 3
      @ bytes_uint8 cacheId @ bytes_uint8 1 @ bytes_uint16_le cacheIndex @ bytes_uint16_le (gl_offsetx g)
      @ bytes_uint16_le (gl_offsety g) @ bytes_uint16_le (gl_width g) @ bytes_uint16_le (gl_height g)
      @ take (unat sz) (gl_data g))"

text \<open>\<open>process_glyphcache\<close> and \<open>server_add_char\<close>.\<close>

fun receive_glyphs :: "u8 \<Rightarrow> nat \<Rightarrow> instream \<Rightarrow> glyph_cache \<Rightarrow> (glyph_cache \<times> instream) res" where
  "receive_glyphs cacheId 0 s gc = Inr (gc, s)"
| "receive_glyphs cacheId (Suc n) s gc =
     bindR (in_uint16_le s) (\<lambda>(cacheIndex, s). bindR (in_sint16_le s) (\<lambda>(offset, s). bindR (in_sint16_le s) (\<lambda>(baseline, s).
     bindR (in_uint16_le s) (\<lambda>(width, s). bindR (in_uint16_le s) (\<lambda>(height, s).
     bindR (in_skip_bytes ((unat height * unat (nbbytes width) + 3) div 4 * 4) s) (\<lambda>(data, s).
     let g = \<lparr>gl_offsetx = offset, gl_offsety = baseline, gl_incby = 0, gl_width = width, gl_height = height,
           gl_data = take (unat (glyph_datasize width height)) data\<rparr> in
     bindR (set_glyph g (unat cacheId) (unat cacheIndex) gc) (\<lambda>gc. receive_glyphs cacheId n s gc)))))))"

definition process_glyphcache :: "instream \<Rightarrow> glyph_cache \<Rightarrow> (glyph_cache \<times> instream) res" where
  "process_glyphcache s gc =
     bindR (in_uint8 s) (\<lambda>(cacheId, s). bindR (in_uint8 s) (\<lambda>(nglyphs, s). receive_glyphs cacheId (unat nglyphs) s gc))"

subsection \<open>The order that carries a colour table\<close>

record color_table =
  ct_palette :: "color list"
  ct_cacheIndex :: u8

definition emit_color_table :: "color_table \<Rightarrow> u8 list" where
  "emit_color_table ct =
     bytes_uint8 (STANDARD OR SECONDARY) @ bytes_uint16_le (1027 - 7) @ bytes_uint16_le 0 @ bytes_uint8 1
     @ bytes_uint8 (ct_cacheIndex ct) @ bytes_uint16_le 256
     @ concat (map (\<lambda>c. bytes_uint8 (color_red c) @ bytes_uint8 (color_green c) @ bytes_uint8 (color_blue c) @ bytes_uint8 0) (ct_palette ct))"

fun receive_colors :: "nat \<Rightarrow> nat \<Rightarrow> instream \<Rightarrow> color list \<Rightarrow> (color list \<times> instream) res" where
  "receive_colors i 0 s palette = Inr (palette, s)"
| "receive_colors i (Suc n) s palette =
     bindR (in_uint8 s) (\<lambda>(r, s). bindR (in_uint8 s) (\<lambda>(g, s). bindR (in_uint8 s) (\<lambda>(b, s). bindR (in_skip_bytes 1 s) (\<lambda>(_, s).
       if length palette \<le> i then Inl UB_WRITE
       else receive_colors (Suc i) n s (palette[i := BGRColor b g r])))))"

definition receive_color_table :: "instream \<Rightarrow> (color_table \<times> instream) res" where
  "receive_color_table s =
     bindR (in_uint8 s) (\<lambda>(cacheIndex, s). assertR (cacheIndex < 6)
       (bindR (in_uint16_le s) (\<lambda>(numberColors, s).
        bindR (receive_colors 0 (unat numberColors) s classic_332) (\<lambda>(palette, s).
        Inr (\<lparr>ct_palette = palette, ct_cacheIndex = cacheIndex\<rparr>, s)))))"

end
