(* ===== verification/Secondary.thy ===== *)
theory Secondary
  imports Bmp_Orders Glyphs
begin

text \<open>
  The secondary orders an update may hold, as \<open>rdp_orders::process_orders\<close> handles them (\<open>mod/rdp/rdp_orders.hpp\<close>): bitmaps go into
  the bitmap cache, glyphs into the glyph cache, colour tables to the drawing; whatever the handler has read, the stream goes on
  where the header says the next order begins.
\<close>

subsection \<open>The handler\<close>

record drawing_caches =
  dc_bitmaps :: bmp_cache
  dc_glyphs :: glyph_cache
  dc_tables :: "color_table list"

definition process_bmp_order ::
  "(nat \<Rightarrow> u8 list) \<Rightarrow> u8 \<Rightarrow> color list \<Rightarrow> (u8 list \<Rightarrow> u8 list) \<Rightarrow> secondary_header \<Rightarrow> instream \<Rightarrow> bmp_cache \<Rightarrow> (bmp_cache \<times> instream) res" where
  "process_bmp_order alloc session palette sha h s bc =
     bindR (receive_bmp_order alloc session palette h s) (\<lambda>(got, s).
     bindR (bmp_put sha (br_id got) (br_idx got) (br_bmp got) (br_key1 got) (br_key2 got) bc) (\<lambda>bc. Inr (bc, s)))"

definition process_secondary ::
  "(nat \<Rightarrow> u8 list) \<Rightarrow> u8 \<Rightarrow> color list \<Rightarrow> (u8 list \<Rightarrow> u8 list) \<Rightarrow> instream \<Rightarrow> drawing_caches \<Rightarrow> (drawing_caches \<times> instream) res" where
  "process_secondary alloc session palette sha s dc =
     bindR (receive_secondary_header s) (\<lambda>(h, s).
     let next_order = get_offset s + unat (order_data_length h) in
     bindR (if stype h \<in> {0, 2, 4, 5}
            then bindR (process_bmp_order alloc session palette sha h s (dc_bitmaps dc)) (\<lambda>(bc, s). Inr (dc\<lparr>dc_bitmaps := bc\<rparr>, s))
            else if stype h = 1
            then bindR (receive_color_table s) (\<lambda>(ct, s). Inr (dc\<lparr>dc_tables := dc_tables dc @ [ct]\<rparr>, s))
            else if stype h = 3
            then bindR (process_glyphcache s (dc_glyphs dc)) (\<lambda>(gc, s). Inr (dc\<lparr>dc_glyphs := gc\<rparr>, s))
            else Inr (dc, s)) (\<lambda>(dc, s).
     assertR (get_offset s \<le> next_order)
       (bindR (in_skip_bytes (next_order - get_offset s) s) (\<lambda>(_, s). Inr (dc, s)))))"

text \<open>Orders one after the other, each with its control byte, as a batch of secondary orders has them.\<close>

fun process_secondaries ::
  "(nat \<Rightarrow> u8 list) \<Rightarrow> u8 \<Rightarrow> color list \<Rightarrow> (u8 list \<Rightarrow> u8 list) \<Rightarrow> nat \<Rightarrow> instream \<Rightarrow> drawing_caches \<Rightarrow> (drawing_caches \<times> instream) res" where
  "process_secondaries alloc session palette sha 0 s dc = Inr (dc, s)"
| "process_secondaries alloc session palette sha (Suc n) s dc =
     bindR (in_uint8 s) (\<lambda>(control, s).
     if control AND (STANDARD OR SECONDARY) \<noteq> STANDARD OR SECONDARY then Inl NOT_MODELLED
     else bindR (process_secondary alloc session palette sha s dc) (\<lambda>(dc, s). process_secondaries alloc session palette sha n s dc))"

end
