(* ===== verification/Glyph_Text.thy ===== *)
theory Glyph_Text
  imports Secondary Orders
begin

text \<open>
  The glyphs of a text: the loop of \<open>RDPSerializer::draw\<close> for \<open>GlyphIndex\<close> orders (\<open>core/RDP/RDPSerializer.hpp\<close>) that gives the
  module's glyphs the numbers of its own cache and sends those the other end lacks, and the lemmas on slots, the search of the
  cache and the reading of a glyph order.
\<close>

subsection \<open>Renumbering the glyphs of a text\<close>

text \<open>
  \<open>RDPSerializer::emit_glyph_cache\<close>, with the number of bytes reserved for the order, and what a glyph of the module becomes: its number in the
  serializer's cache, and the order that goes before the text when the other end does not have it. \<open>recorder\<close> is the
  owner of the bitmap cache being a recorder.
\<close>

definition emit_glyph_cache :: "u8 \<Rightarrow> u8 \<Rightarrow> glyph_cache \<Rightarrow> (u8 list \<times> u16) res" where
  "emit_glyph_cache cacheId cacheIndex gc =
     assertR (unat cacheId < NUMBER_OF_GLYPH_CACHES \<and> unat cacheIndex < NUMBER_OF_GLYPH_CACHE_ENTRIES)
       (case gs_item (slot_at (unat cacheId) (unat cacheIndex) gc) of
          None \<Rightarrow> Inl UB
        | Some fc \<Rightarrow> Inr (emit_glyph_order cacheId (ucast cacheIndex) fc, total_order_size fc))"

definition use_glyph :: "bool \<Rightarrow> u8 \<Rightarrow> glyph \<Rightarrow> glyph_cache \<Rightarrow> ((u8 \<times> (u8 list \<times> u16) list) \<times> glyph_cache) res" where
  "use_glyph recorder cache_id fc gc =
     bindR (add_glyph fc cache_id gc) (\<lambda>((added, cacheIndex), gc).
     let idx = of_nat cacheIndex :: u8 in
     if added then bindR (emit_glyph_cache cache_id idx gc) (\<lambda>order. Inr ((idx, [order]), gc))
     else if recorder
     then bindR (glyph_is_cached (unat cache_id) cacheIndex gc) (\<lambda>cached.
          if cached then Inr ((idx, []), gc)
          else bindR (emit_glyph_cache cache_id idx gc) (\<lambda>order.
               bindR (glyph_set_cached (unat cache_id) cacheIndex True gc) (\<lambda>gc. Inr ((idx, [order]), gc))))
     else Inr ((idx, []), gc))"

text \<open>
  The loop of \<open>draw(RDPGlyphIndex ...)\<close>: the array of 256 bytes, the index \<open>i\<close>, an \<open>uint8_t\<close>, the cache and the orders written.
  A module's glyph that is missing fails the \<open>assert\<close>, as does a read behind the array.
\<close>

record text_state =
  tx_data :: "u8 list"
  tx_i :: u8
  tx_cache :: glyph_cache
  tx_orders :: "(u8 list \<times> u16) list"

definition has_delta_byte :: "GlyphIndex \<Rightarrow> bool" where
  "has_delta_byte cmd \<longleftrightarrow> g_ui_charinc cmd = 0 \<and> \<not> has (g_fl_accel cmd) 0x20"

definition get_delta :: "u8 list \<Rightarrow> u8 \<Rightarrow> u8 res" where
  "get_delta data i = (if data ! unat i = 0x80 then assertR (unat (i + 1) < 255) (Inr (i + 3)) else Inr (i + 1))"

definition text_turn :: "bool \<Rightarrow> bool \<Rightarrow> u8 \<Rightarrow> u8 \<Rightarrow> glyph_cache \<Rightarrow> text_state \<Rightarrow> text_state res" where
  "text_turn recorder delta cache_id data_len gly_cache t =
     (let i = tx_i t; op = tx_data t ! unat i in
      if op \<le> 0xFD
      then assertR (unat cache_id < NUMBER_OF_GLYPH_CACHES)
        (case gs_item (slot_at (unat cache_id) (unat op) gly_cache) of
           None \<Rightarrow> Inl UB
         | Some fc \<Rightarrow>
             bindR (use_glyph recorder cache_id fc (tx_cache t)) (\<lambda>((idx, orders), gc).
             let data = (tx_data t)[unat i := idx] in
             bindR (if delta then get_delta data (i + 1) else Inr (i + 1)) (\<lambda>i.
             Inr \<lparr>tx_data = data, tx_i = i, tx_cache = gc, tx_orders = tx_orders t @ orders\<rparr>)))
      else if op = 0xFE
      then bindR (if delta then get_delta (tx_data t) (i + 2) else Inr (i + 2)) (\<lambda>i. Inr (t\<lparr>tx_i := i\<rparr>))
      else assertR (i + 3 = data_len) (Inr (t\<lparr>tx_i := i + 3\<rparr>)))"

text \<open>The number of turns is bounded by the fuel; \<open>None\<close> is a loop that is still running.\<close>

fun text_loop :: "nat \<Rightarrow> bool \<Rightarrow> bool \<Rightarrow> u8 \<Rightarrow> u8 \<Rightarrow> glyph_cache \<Rightarrow> text_state \<Rightarrow> text_state res option" where
  "text_loop 0 recorder delta cache_id data_len gly_cache t = None"
| "text_loop (Suc n) recorder delta cache_id data_len gly_cache t =
     (if tx_i t < data_len
      then (case text_turn recorder delta cache_id data_len gly_cache t of
              Inl e \<Rightarrow> Some (Inl e)
            | Inr t \<Rightarrow> text_loop n recorder delta cache_id data_len gly_cache t)
      else Some (Inr t))"

text \<open>The copy of the order has zeros behind its data.\<close>

definition text_start :: "GlyphIndex \<Rightarrow> glyph_cache \<Rightarrow> text_state" where
  "text_start cmd gc = (let n = unat (g_data_len cmd) in
     \<lparr>tx_data = take n (g_data cmd) @ replicate (256 - n) 0, tx_i = 0, tx_cache = gc, tx_orders = []\<rparr>)"

definition draw_text :: "nat \<Rightarrow> bool \<Rightarrow> GlyphIndex \<Rightarrow> glyph_cache \<Rightarrow> glyph_cache \<Rightarrow> (GlyphIndex \<times> glyph_cache \<times> (u8 list \<times> u16) list) res option" where
  "draw_text fuel recorder cmd gly_cache gc =
     map_option (\<lambda>r. bindR r (\<lambda>t. Inr (cmd\<lparr>g_data := tx_data t\<rparr>, tx_cache t, tx_orders t)))
       (text_loop fuel recorder (has_delta_byte cmd) (g_cache_id cmd) (g_data_len cmd) gly_cache (text_start cmd gc))"

subsection \<open>What the data of a text look like\<close>

text \<open>
  A glyph or a stored fragment, each with its distance from the last when the order has such distances, and last
  perhaps the storing of the fragment.
\<close>

datatype text_entry = Glyph u8 "u8 list" | Use u8 "u8 list" | Add u8 u8

fun entry_bytes :: "text_entry \<Rightarrow> u8 list" where
  "entry_bytes (Glyph op d) = op # d"
| "entry_bytes (Use fragment d) = 0xFE # fragment # d"
| "entry_bytes (Add fragment sz) = [0xFF, fragment, sz]"

definition delta_ok :: "bool \<Rightarrow> u8 list \<Rightarrow> bool" where
  "delta_ok delta d \<longleftrightarrow> (if delta then (length d = 1 \<and> hd d \<noteq> 0x80) \<or> (length d = 3 \<and> hd d = 0x80) else d = [])"

fun entry_ok :: "bool \<Rightarrow> text_entry \<Rightarrow> bool" where
  "entry_ok delta (Glyph op d) \<longleftrightarrow> op \<le> 0xFD \<and> delta_ok delta d"
| "entry_ok delta (Use fragment d) \<longleftrightarrow> delta_ok delta d"
| "entry_ok delta (Add fragment sz) \<longleftrightarrow> True"

fun is_add :: "text_entry \<Rightarrow> bool" where
  "is_add (Add _ _) \<longleftrightarrow> True"
| "is_add _ \<longleftrightarrow> False"

definition entries_ok :: "bool \<Rightarrow> text_entry list \<Rightarrow> bool" where
  "entries_ok delta es \<longleftrightarrow> list_all (entry_ok delta) es \<and> list_all (\<lambda>e. \<not> is_add e) (butlast es)"

text \<open>The glyphs of the module a text uses, in order.\<close>

fun entry_glyphs :: "text_entry \<Rightarrow> u8 list" where
  "entry_glyphs (Glyph op d) = [op]"
| "entry_glyphs _ = []"

subsection \<open>A glyph order is read back\<close>

lemma font_item_equal_refl [simp]: "font_item_equal g g"
  by (simp add: font_item_equal_def)

lemma font_item_equal_sym: "font_item_equal g h \<Longrightarrow> font_item_equal h g"
  by (auto simp: font_item_equal_def Let_def)

lemma font_item_equal_trans: "font_item_equal f g \<Longrightarrow> font_item_equal g h \<Longrightarrow> font_item_equal f h"
  by (auto simp: font_item_equal_def Let_def)

text \<open>A glyph whose data are as long as its dimensions say, in an order of 16-bit length.\<close>

definition glyph_ok :: "glyph \<Rightarrow> bool" where
  "glyph_ok g \<longleftrightarrow> length (gl_data g) = (unat (gl_height g) * unat (nbbytes (gl_width g)) + 3) div 4 * 4 \<and> length (gl_data g) < 65518"

lemma align4_nat: "unat v + 3 < 65536 \<Longrightarrow> unat (align4 v) = (unat v + 3) div 4 * 4" for v :: u16
proof -
  assume v: "unat v + 3 < 65536"
  have u: "unat (v + 3) = unat v + 3" using v by (simp add: unat_word_ariths)
  have three: "(3 :: u16) = mask 2" by (simp add: mask_eq_exp_minus_1)
  have "align4 v = push_bit 2 (drop_bit 2 (v + 3))"
    unfolding align4_def three by (rule bit_word_eqI) (auto simp: bit_and_iff bit_not_iff bit_mask_iff bit_push_bit_iff bit_drop_bit_eq not_less dest!: le_Suc_ex [of 2])
  then have "unat (align4 v) = unat (push_bit 2 (drop_bit 2 (v + 3)))" by (rule arg_cong)
  also have "\<dots> = take_bit 16 (push_bit 2 (drop_bit 2 (unat v + 3)))"
    using v by (simp only: unsigned_push_bit_eq unsigned_drop_bit_eq u) (simp add: take_bit_nat_eq_self)
  also have "\<dots> = (unat v + 3) div 4 * 4"
    by (subst take_bit_nat_eq_self) (use v in \<open>simp_all add: drop_bit_eq_div push_bit_eq_mult\<close>)
  finally show ?thesis .
qed

lemma glyph_datasize_ok:
  assumes "glyph_ok g"
  shows "unat (glyph_datasize (gl_width g) (gl_height g)) = length (gl_data g)"
proof -
  let ?n = "unat (gl_height g) * unat (nbbytes (gl_width g))"
  have n: "?n < 65518" using assms unfolding glyph_ok_def by linarith
  have "unat (ucast (nbbytes (gl_width g)) :: u16) = unat (nbbytes (gl_width g))"
    using unsigned_less [of "nbbytes (gl_width g)", where 'a = nat] by (simp add: unsigned_ucast_eq take_bit_nat_eq_self)
  moreover have "?n mod 65536 = ?n" by (rule mod_less) (use n in linarith)
  ultimately have "unat (ucast (nbbytes (gl_width g)) * gl_height g :: u16) = ?n"
    by (simp add: unat_word_ariths mult.commute)
  with align4_nat [of "ucast (nbbytes (gl_width g)) * gl_height g"] n assms show ?thesis
    by (simp add: glyph_datasize_def glyph_ok_def)
qed

definition glyph_received :: "u8 \<Rightarrow> u16 \<Rightarrow> glyph \<Rightarrow> glyph_cache \<Rightarrow> glyph_cache res" where
  "glyph_received cacheId cacheIndex g gc = set_glyph (g\<lparr>gl_incby := 0\<rparr>) (unat cacheId) (unat cacheIndex) gc"

lemma glyph_order_read:
  assumes "glyph_ok g"
  shows "\<exists>bs. emit_glyph_order cid idx g = 3 # bs \<and> length (3 # bs) = unat (total_order_size g)
    \<and> (\<forall>alloc session palette sha c r dc. process_secondary alloc session palette sha (InStream c (bs @ r)) dc
      = bindR (glyph_received cid idx g (dc_glyphs dc)) (\<lambda>gc. Inr (dc\<lparr>dc_glyphs := gc\<rparr>, InStream (c @ bs) r)))"
proof -
  let ?sz = "glyph_datasize (gl_width g) (gl_height g)"
  note sz = glyph_datasize_ok [OF assms]
  have lt: "length (gl_data g) < 65518" using assms by (simp add: glyph_ok_def)
  define hd where "hd = bytes_uint16_le ((?sz + 12) - 7) @ bytes_uint16_le 8 @ bytes_uint8 3"
  define bd where "bd = bytes_uint8 cid @ bytes_uint8 1 @ bytes_uint16_le idx @ bytes_uint16_le (gl_offsetx g)
      @ bytes_uint16_le (gl_offsety g) @ bytes_uint16_le (gl_width g) @ bytes_uint16_le (gl_height g) @ gl_data g"
  have bs: "emit_glyph_order cid idx g = 3 # (hd @ bd)"
    by (simp add: emit_glyph_order_def hd_def bd_def Let_def bytes_uint8_def sz)
  have len: "length hd = 5" "length bd = length (gl_data g) + 12"
    by (simp_all add: hd_def bd_def bytes_uint16_le_def bytes_uint8_def)
  have md: "(12 + length (gl_data g)) mod 65536 = length (gl_data g) + 12" "(18 + length (gl_data g)) mod 65536 = length (gl_data g) + 18"
    using mod_less [of "12 + length (gl_data g)" 65536] mod_less [of "18 + length (gl_data g)" 65536] lt by simp_all
  have "unat (?sz + 12) = length (gl_data g) + 12" "unat (18 + ?sz) = length (gl_data g) + 18"
    using sz md unat_word_ariths(1) [of ?sz 12] unat_word_ariths(1) [of 18 ?sz] by (simp_all add: add.commute [of 12])
  note u = this
  let ?h = "\<lparr>order_length = (?sz + 12) - 7, sflags = 8, stype = 3\<rparr>"
  have odl: "unat (order_data_length ?h) = length bd"
    using u(1) len(2) by (simp add: order_data_length_def add.commute [of 12])
  have rh: "receive_secondary_header (InStream c (hd @ bd @ r)) = Inr (?h, InStream (c @ hd) (bd @ r))" for c r
    by (simp add: receive_secondary_header_def hd_def read_fields)
  have rg: "process_glyphcache (InStream c (bd @ r)) gc = bindR (glyph_received cid idx g gc) (\<lambda>gc. Inr (gc, InStream (c @ bd) r))" for c r gc
  proof -
    have skip: "in_skip_bytes ((unat (gl_height g) * unat (nbbytes (gl_width g)) + 3) div 4 * 4) (InStream c (gl_data g @ r))
      = Inr (gl_data g, InStream (c @ gl_data g) r)" for c r
      using assms by (intro skip_data) (simp add: glyph_ok_def)
    have g: "\<lparr>gl_offsetx = gl_offsetx g, gl_offsety = gl_offsety g, gl_incby = 0, gl_width = gl_width g, gl_height = gl_height g,
        gl_data = gl_data g\<rparr> = g\<lparr>gl_incby := 0\<rparr>" by (cases g) simp
    show ?thesis
      unfolding process_glyphcache_def bd_def append_assoc
      by (cases "set_glyph (g\<lparr>gl_incby := 0\<rparr>) (unat cid) (unat idx) gc")
        (simp_all add: read_fields One_nat_def skip Let_def sz glyph_received_def g)
  qed
  have "process_secondary alloc session palette sha (InStream c ((hd @ bd) @ r)) dc
      = bindR (glyph_received cid idx g (dc_glyphs dc)) (\<lambda>gc. Inr (dc\<lparr>dc_glyphs := gc\<rparr>, InStream (c @ hd @ bd) r))" for alloc session palette sha c r dc
  proof -
    have off: "get_offset (InStream (c @ hd @ bd) r) = get_offset (InStream (c @ hd) (bd @ r)) + length bd"
      by (simp add: get_offset_def)
    show ?thesis
      unfolding process_secondary_def append_assoc rh bindR_simps prod.case Let_def rg bindR_assoc odl
      by (simp add: off in_skip_bytes_def in_check_rem_def bindR_assoc)
  qed
  then show ?thesis using bs u(2) len by (intro exI [of _ "hd @ bd"]) (simp add: total_order_size_def)
qed

subsection \<open>Slots\<close>

definition glyphs_shaped :: "glyph_cache \<Rightarrow> bool" where
  "glyphs_shaped gc \<longleftrightarrow> length (gc_glyphs gc) = 10 \<and> list_all (\<lambda>row. length row = 254) (gc_glyphs gc)"

lemma shaped_row: "glyphs_shaped gc \<Longrightarrow> c < 10 \<Longrightarrow> length (gc_glyphs gc ! c) = 254"
  by (simp add: glyphs_shaped_def list_all_length)

lemma glyphs_shaped_set [simp]: "glyphs_shaped gc \<Longrightarrow> glyphs_shaped (set_slot c i s gc)"
  by (cases "c < 10") (auto simp: glyphs_shaped_def set_slot_def list_all_length nth_list_update)

lemma glyphs_shaped_stamp [simp]: "glyphs_shaped (gc\<lparr>gc_stamp := n\<rparr>) = glyphs_shaped gc"
  by (simp add: glyphs_shaped_def)

lemma slot_at_stamp [simp]: "slot_at c i (gc\<lparr>gc_stamp := n\<rparr>) = slot_at c i gc"
  by (simp add: slot_at_def)

lemma slot_at_set:
  "glyphs_shaped gc \<Longrightarrow> c < 10 \<Longrightarrow> i < 254 \<Longrightarrow>
    slot_at c' i' (set_slot c i s gc) = (if c' = c \<and> i' = i then s else slot_at c' i' gc)"
  by (simp add: slot_at_def set_slot_def shaped_row glyphs_shaped_def nth_list_update)

lemma set_slot_fields [simp]:
  "gc_stamp (set_slot c i s gc) = gc_stamp gc" "gc_entries (set_slot c i s gc) = gc_entries gc"
  by (simp_all add: set_slot_def)

text \<open>
  A cache with its rows: never more entries than a row has, stamps no later than the cache's own, and glyphs that an order can carry.
\<close>

definition glyph_cache_ok :: "glyph_cache \<Rightarrow> bool" where
  "glyph_cache_ok gc \<longleftrightarrow> glyphs_shaped gc \<and> list_all (\<lambda>n. n \<le> 254) (gc_entries gc) \<and> length (gc_entries gc) = 10
     \<and> list_all (list_all (\<lambda>s. gs_stamp s \<le> gc_stamp gc \<and> (case gs_item s of None \<Rightarrow> True | Some g \<Rightarrow> glyph_ok g))) (gc_glyphs gc)"

lemma cache_ok_slot:
  assumes "glyph_cache_ok gc" "c < 10" "i < 254"
  shows "gs_stamp (slot_at c i gc) \<le> gc_stamp gc" "gs_item (slot_at c i gc) = Some g \<Longrightarrow> glyph_ok g"
proof -
  have "gc_glyphs gc ! c \<in> set (gc_glyphs gc)" "slot_at c i gc \<in> set (gc_glyphs gc ! c)"
    using assms shaped_row [of gc c] by (simp_all add: glyph_cache_ok_def glyphs_shaped_def slot_at_def)
  then show "gs_stamp (slot_at c i gc) \<le> gc_stamp gc" "gs_item (slot_at c i gc) = Some g \<Longrightarrow> glyph_ok g"
    using assms by (fastforce simp: glyph_cache_ok_def list_all_iff)+
qed

lemma cache_ok_entries: "glyph_cache_ok gc \<Longrightarrow> c < 10 \<Longrightarrow> unat (gc_entries gc ! c) \<le> 254"
  by (auto simp: glyph_cache_ok_def list_all_length word_le_nat_alt dest!: spec [of _ c])

lemma list_all_update: "list_all P xs \<Longrightarrow> P x \<Longrightarrow> list_all P (xs[i := x])"
  by (auto simp: list_all_iff dest!: subsetD [OF set_update_subset_insert])

lemma cache_ok_set:
  assumes "glyph_cache_ok gc" "gc_stamp gc \<le> n" "gs_stamp s \<le> n" "case gs_item s of None \<Rightarrow> True | Some g \<Rightarrow> glyph_ok g"
  shows "glyph_cache_ok (set_slot c i s (gc\<lparr>gc_stamp := n\<rparr>))"
proof -
  let ?P = "\<lambda>n s. gs_stamp s \<le> n \<and> (case gs_item s of None \<Rightarrow> True | Some g \<Rightarrow> glyph_ok g)"
  have mono: "list_all (list_all (?P n)) rows" if "list_all (list_all (?P (gc_stamp gc))) rows" for rows
    using that assms(2) by (fastforce simp: list_all_iff)
  have rows: "list_all (list_all (?P n)) (gc_glyphs gc)" using assms(1) by (intro mono) (simp add: glyph_cache_ok_def)
  have "list_all (list_all (?P n)) ((gc_glyphs gc)[c := (gc_glyphs gc ! c)[i := s]])"
  proof (cases "c < length (gc_glyphs gc)")
    case True
    with rows have "list_all (?P n) (gc_glyphs gc ! c)" by (simp add: list_all_length)
    with rows assms(3,4) show ?thesis by (intro list_all_update) simp_all
  qed (use rows in \<open>simp add: list_update_beyond\<close>)
  with assms(1) show ?thesis by (simp add: glyph_cache_ok_def) (simp add: set_slot_def)
qed

lemma cache_ok_set_same:
  assumes "glyph_cache_ok gc" "gs_stamp s \<le> gc_stamp gc" "case gs_item s of None \<Rightarrow> True | Some g \<Rightarrow> glyph_ok g"
  shows "glyph_cache_ok (set_slot c i s gc)"
  using cache_ok_set [of gc "gc_stamp gc" s c i] assms by simp

subsection \<open>The search\<close>

lemma search_glyph_total:
  "i + n \<le> length row \<Longrightarrow> search_glyph g row i n old ci \<noteq> Inl e"
  by (induction g row i n old ci rule: search_glyph.induct) (auto simp: assertR_def split: option.splits)

lemma search_glyph_found:
  "search_glyph g row i n old ci = Inr (Inl j) \<Longrightarrow>
    i \<le> j \<and> j < i + n \<and> (\<exists>h. gs_item (row ! j) = Some h \<and> font_item_equal h g)"
  by (induction g row i n old ci rule: search_glyph.induct) (force simp: assertR_def split: option.splits if_splits)+

lemma search_glyph_oldest:
  "search_glyph g row i n old ci = Inr (Inr j) \<Longrightarrow>
    (\<forall>k. i \<le> k \<and> k < i + n \<longrightarrow> old \<le> gs_stamp (row ! k)) \<and> j = ci
    \<or> i \<le> j \<and> j < i + n \<and> gs_stamp (row ! j) < old \<and> (\<forall>k. i \<le> k \<and> k < i + n \<longrightarrow> gs_stamp (row ! j) \<le> gs_stamp (row ! k))"
proof (induction g row i n old ci rule: search_glyph.induct)
  case (1 g row i old ci)
  then show ?case by auto
next
  case (2 g row i n old ci)
  have range: "i \<le> k \<and> k < i + Suc n \<longleftrightarrow> k = i \<or> (Suc i \<le> k \<and> k < Suc i + n)" for k by auto
  let ?new = "if gs_stamp (row ! i) < old then gs_stamp (row ! i) else old"
  let ?ci = "if gs_stamp (row ! i) < old then i else ci"
  have step: "search_glyph g row (Suc i) n ?new ?ci = Inr (Inr j)"
    and no: "\<not> (case gs_item (row ! i) of None \<Rightarrow> False | Some h \<Rightarrow> font_item_equal h g)"
    and len: "i < length row"
    using 2(3) by (auto simp: assertR_def split: if_splits)
  show ?case
  proof (cases "gs_stamp (row ! i) < old")
    case True
    with 2(1) [OF no True] step show ?thesis unfolding range by force
  next
    case False
    with 2(2) [OF no False] step show ?thesis unfolding range by force
  qed
qed

subsection \<open>Orders that put a glyph into the other end's cache\<close>

definition glyphs_taken :: "(u8 list \<times> u16) list \<Rightarrow> glyph_cache \<Rightarrow> glyph_cache \<Rightarrow> bool" where
  "glyphs_taken orders R R' \<longleftrightarrow> (\<forall>alloc session palette sha c r dc. dc_glyphs dc = R \<longrightarrow>
     process_secondaries alloc session palette sha (length orders) (InStream c (concat (map fst orders) @ r)) dc
       = Inr (dc\<lparr>dc_glyphs := R'\<rparr>, InStream (c @ concat (map fst orders)) r))"

lemma glyphs_taken_Nil [simp]: "glyphs_taken [] R R"
  by (simp add: glyphs_taken_def)

lemma process_secondaries_append:
  "process_secondaries alloc session palette sha (m + n) s dc
   = bindR (process_secondaries alloc session palette sha m s dc) (\<lambda>(dc, s). process_secondaries alloc session palette sha n s dc)"
  by (induction m arbitrary: s dc) (auto simp: bindR_def split: sum.splits)

lemma glyphs_taken_append:
  assumes "glyphs_taken as R R'" "glyphs_taken bs R' R''"
  shows "glyphs_taken (as @ bs) R R''"
  unfolding glyphs_taken_def
proof (intro allI impI)
  fix alloc session palette sha c r and dc :: drawing_caches
  assume dc: "dc_glyphs dc = R"
  let ?a = "concat (map fst as)" and ?b = "concat (map fst bs)"
  have "process_secondaries alloc session palette sha (length as) (InStream c (?a @ ?b @ r)) dc
      = Inr (dc\<lparr>dc_glyphs := R'\<rparr>, InStream (c @ ?a) (?b @ r))"
    using assms(1) dc unfolding glyphs_taken_def by blast
  moreover have "process_secondaries alloc session palette sha (length bs) (InStream (c @ ?a) (?b @ r)) (dc\<lparr>dc_glyphs := R'\<rparr>)
      = Inr (dc\<lparr>dc_glyphs := R'\<rparr>\<lparr>dc_glyphs := R''\<rparr>, InStream ((c @ ?a) @ ?b) r)"
    using assms(2) [unfolded glyphs_taken_def, rule_format, of "dc\<lparr>dc_glyphs := R'\<rparr>"] by simp
  ultimately show "process_secondaries alloc session palette sha (length (as @ bs)) (InStream c (concat (map fst (as @ bs)) @ r)) dc
      = Inr (dc\<lparr>dc_glyphs := R''\<rparr>, InStream (c @ concat (map fst (as @ bs))) r)"
    by (simp add: process_secondaries_append)
qed

lemma unat_index: "i < 254 \<Longrightarrow> unat (of_nat i :: u8) = i"
  by (simp add: unat_of_nat take_bit_nat_eq_self)

text \<open>The glyph an index of a cache names, and the two ends having the same for every index the sender counts on.\<close>

definition counted_on :: "bool \<Rightarrow> glyph_slot \<Rightarrow> bool" where
  "counted_on recorder s \<longleftrightarrow> gs_item s \<noteq> None \<and> (recorder \<longrightarrow> gs_cached s)"

definition same_glyph :: "glyph_slot \<Rightarrow> glyph_slot \<Rightarrow> bool" where
  "same_glyph s r = (case (gs_item s, gs_item r) of (Some g, Some h) \<Rightarrow> font_item_equal h g | _ \<Rightarrow> False)"

definition glyphs_mirrored :: "bool \<Rightarrow> glyph_cache \<Rightarrow> glyph_cache \<Rightarrow> bool" where
  "glyphs_mirrored recorder S R \<longleftrightarrow>
     (\<forall>c < 10. \<forall>i < 254. counted_on recorder (slot_at c i S) \<longrightarrow> same_glyph (slot_at c i S) (slot_at c i R))"

lemma glyph_taken:
  assumes "glyph_ok g" "unat cid < 10" "i < 254" "glyphs_shaped R"
  obtains R' where "glyphs_taken [(emit_glyph_order cid (ucast (of_nat i :: u8)) g, total_order_size g)] R R'" "glyphs_shaped R'"
    "length (emit_glyph_order cid (ucast (of_nat i :: u8)) g) = unat (total_order_size g)"
    "gs_item (slot_at (unat cid) i R') = Some (g\<lparr>gl_incby := 0\<rparr>)"
    "\<And>c' j. (c', j) \<noteq> (unat cid, i) \<Longrightarrow> slot_at c' j R' = slot_at c' j R"
proof -
  let ?idx = "ucast (of_nat i :: u8) :: u16"
  have idx: "unat ?idx = i" using assms(3) by (simp add: unsigned_ucast_eq take_bit_nat_eq_self unat_index)
  obtain bs where bs: "emit_glyph_order cid ?idx g = 3 # bs" "length (3 # bs) = unat (total_order_size g)"
    and read: "\<forall>alloc session palette sha c r dc. process_secondary alloc session palette sha (InStream c (bs @ r)) dc
      = bindR (glyph_received cid ?idx g (dc_glyphs dc)) (\<lambda>gc. Inr (dc\<lparr>dc_glyphs := gc\<rparr>, InStream (c @ bs) r))"
    using glyph_order_read [OF assms(1), of cid ?idx] by (elim exE conjE) (rule that)
  define R' where "R' = set_slot (unat cid) i ((slot_at (unat cid) i R)\<lparr>gs_item := Some (g\<lparr>gl_incby := 0\<rparr>), gs_stamp := gc_stamp R + 1\<rparr>)
      (R\<lparr>gc_stamp := gc_stamp R + 1\<rparr>)"
  have "glyph_received cid ?idx g R = Inr R'"
    using assms(2,3) by (simp add: glyph_received_def set_glyph_def idx R'_def)
  then have "glyphs_taken [(emit_glyph_order cid ?idx g, total_order_size g)] R R'"
    unfolding glyphs_taken_def bs(1) by (simp add: read One_nat_def)
  then show ?thesis
    using assms bs by (intro that [of R']) (auto simp: R'_def slot_at_set)
qed

end
