(* ===== verification/Bmp_Orders_Read.thy ===== *)
theory Bmp_Orders_Read
  imports Bmp_Orders
begin

text \<open>
  What the serializer writes for a bitmap order is read back: the code of a bitmap decodes to it, the fields of both revisions
  are codecs, and an order of the wire (\<open>is_order_of\<close>) gives the receiver what the sender put in.
\<close>

subsection \<open>A bitmap comes back from its code\<close>

lemma upt_4: "[0..<1] = [0 :: nat]" "[0..<2] = [0, 1 :: nat]" "[0..<3] = [0, 1, 2 :: nat]" "[0..<4] = [0, 1, 2, 3 :: nat]"
  by (simp_all add: upt_rec)

lemma length_4_cases:
  assumes "length bs = nb" "nb \<in> {1, 2, 3, 4}"
  obtains a where "bs = [a]" "nb = 1" | a b where "bs = [a, b]" "nb = 2" | a b c where "bs = [a, b, c]" "nb = 3"
    | a b c d where "bs = [a, b, c, d]" "nb = 4"
  using assms by (auto simp: length_Suc_conv numeral_eq_Suc)

lemma bit_byte_above: "\<not> bit w (8 + n)" "\<not> bit w (16 + n)" "\<not> bit w (24 + n)" for w :: u8
  by (auto dest: bit_imp_le_length)

lemma bit_pixel_of: "bit (pixel_of bs) n \<Longrightarrow> n < 8 * length bs"
proof (induction bs arbitrary: n)
  case (Cons b bs)
  then have "bit b n \<or> (8 \<le> n \<and> bit (pixel_of bs) (n - 8))" by (auto simp: bit_simps)
  then show ?case using Cons.IH [of "n - 8"] bit_imp_le_length [of b n] by auto
qed simp

lemma pixel_bytes_of:
  assumes "length bs = nb" "nb \<in> {1, 2, 3, 4}"
  shows "pixel_bytes nb (pixel_of bs) = bs" "take_bit (8 * nb) (pixel_of bs) = pixel_of bs"
proof -
  show "pixel_bytes nb (pixel_of bs) = bs"
    using assms by (cases rule: length_4_cases)
      (auto simp: pixel_bytes_def upt_4 bit_simps bit_byte_above intro!: bit_word_eqI)
  show "take_bit (8 * nb) (pixel_of bs) = pixel_of bs"
    using bit_pixel_of [of bs] assms(1) by (intro bit_word_eqI) (auto simp: bit_simps)
qed

lemma nb_cases: "nb_bytes_per_pixel bpp \<in> {1, 2, 3, 4}" if "normalized_bpp bpp"
  using that by (auto simp: normalized_bpp_def nb_bytes_per_pixel_def)

lemma bitmap_pixels_ok:
  assumes "bitmap_ok b" "nb = nb_bytes_per_pixel (bm_bpp b)"
  shows "concat (map (pixel_bytes nb) (bitmap_pixels nb b)) = bm_data b" "\<forall>v\<in>set (bitmap_pixels nb b). take_bit (8 * nb) v = v"
    "length (bitmap_pixels nb b) = unat (bm_cx b) * unat (bm_cy b)"
proof -
  let ?n = "unat (bm_cx b) * unat (bm_cy b)"
  have nb: "nb \<in> {1, 2, 3, 4}" using nb_cases assms by (simp add: bitmap_ok_def)
  have len: "length (bm_data b) = ?n * nb"
    using assms by (simp add: bitmap_ok_def bmp_size_def line_size_def ac_simps)
  have px: "length (take nb (drop (i * nb) (bm_data b))) = nb" if "i < ?n" for i
  proof -
    have "Suc i * nb \<le> ?n * nb" using that by (intro mult_le_mono1) simp
    then show ?thesis by (simp add: len)
  qed
  note P = pixel_bytes_of [OF px nb]
  have "concat (map (pixel_bytes nb) (bitmap_pixels nb b)) = concat (map (\<lambda>i. take nb (drop (i * nb) (bm_data b))) [0..<?n])"
    unfolding bitmap_pixels_def map_map o_def using P(1) by (intro arg_cong [of _ _ concat] map_cong refl) simp
  also have "\<dots> = bm_data b" by (rule concat_chunks [OF len])
  finally show "concat (map (pixel_bytes nb) (bitmap_pixels nb b)) = bm_data b" .
  show "\<forall>v\<in>set (bitmap_pixels nb b). take_bit (8 * nb) v = v"
    using P(2) by (auto simp: bitmap_pixels_def)
  show "length (bitmap_pixels nb b) = ?n" by (simp add: bitmap_pixels_def)
qed

text \<open>
  The bitmaps whose code gives them back: of some size, below 65536 bytes, in a depth the session knows, and opaque
  where the code has no alpha.
\<close>

definition opaque :: "bitmap \<Rightarrow> bool" where
  "opaque b \<longleftrightarrow> (bm_bpp b = 32 \<longrightarrow> list_all (\<lambda>v. 0xFF000000 OR v = v) (bitmap_pixels 4 b))"

definition codable :: "u8 \<Rightarrow> bitmap \<Rightarrow> bool" where
  "codable session b \<longleftrightarrow> bitmap_ok b \<and> 0 < bmp_size b \<and> bmp_size b < 65536 \<and> (bm_bpp b = 32 \<longrightarrow> session = 32) \<and> opaque b"

lemma aligned_mod: "v AND 3 = 0 \<Longrightarrow> unat v mod 4 = 0" for v :: u16
proof -
  assume "v AND 3 = 0"
  then have "unat (v AND 3) = 0" by simp
  moreover have "unat (v AND 3) = unat v mod 4"
    by (simp add: unsigned_and_eq and_3)
  ultimately show ?thesis by simp
qed

lemma compressed_bitmap_decoded:
  assumes ok: "codable session b" and pal: "bm_bpp b = 8 \<Longrightarrow> palette = bm_palette b" and alloc: "\<And>n. length (alloc n) = n"
  obtains bs where "compress session b [] = Inr (bs, bs)"
    "coded_bitmap alloc session (bm_bpp b) palette (bm_cx b) (bm_cy b) bs = Inr b"
proof -
  let ?nb = "nb_bytes_per_pixel (bm_bpp b)"
  have b: "bitmap_ok b" "0 < bmp_size b" "bmp_size b < 65536" "bm_bpp b = 32 \<Longrightarrow> session = 32" "opaque b"
    using ok by (simp_all add: codable_def)
  have n: "normalized_bpp (bm_bpp b)" "bm_cx b AND 3 = 0" using b(1) by (simp_all add: bitmap_ok_def)
  have al: "align4 (bm_cx b) = bm_cx b" using n(2) by (rule align4_aligned)
  have dim: "0 < unat (bm_cx b)" "0 < unat (bm_cy b)" "unat (bm_cx b) * ?nb < 65536" "unat (bm_cx b) * unat (bm_cy b) < 65536"
  proof -
    have nb1: "1 \<le> ?nb" using nb_cases [OF n(1)] by auto
    show pos: "0 < unat (bm_cx b)" "0 < unat (bm_cy b)" using b(2) by (auto simp: bmp_size_def line_size_def)
    have "unat (bm_cx b) * ?nb * 1 \<le> unat (bm_cx b) * ?nb * unat (bm_cy b)" by (intro mult_le_mono2) (use pos(2) in \<open>simp only: Suc_le_eq One_nat_def\<close>)
    then show "unat (bm_cx b) * ?nb < 65536" using b(3) unfolding bmp_size_def line_size_def by linarith
    have "unat (bm_cx b) * unat (bm_cy b) * 1 \<le> unat (bm_cx b) * unat (bm_cy b) * ?nb" by (intro mult_le_mono2 nb1)
    also have "\<dots> = bmp_size b" by (simp only: bmp_size_def line_size_def ac_simps)
    finally show "unat (bm_cx b) * unat (bm_cy b) < 65536" using b(3) by linarith
  qed
  note P = bitmap_pixels_ok [OF b(1) refl]
  have hdr: "\<lparr>bm_bpp = bm_bpp b, bm_cx = bm_cx b, bm_cy = bm_cy b, bm_palette = (if bm_bpp b = 8 then palette else []), bm_data = bm_data b\<rparr> = b"
    using b(1) pal by (cases b) (auto simp: bitmap_ok_def)
  have tail: "drop (length (bm_data b)) (alloc (bmp_size \<lparr>bm_bpp = bm_bpp b, bm_cx = bm_cx b, bm_cy = bm_cy b, bm_palette = q, bm_data = []\<rparr>)) = []" for q
    using b(1) alloc by (simp add: bitmap_ok_def bmp_size_def line_size_def)
  show ?thesis
  proof (cases "planar_depth session (bm_bpp b)")
    case True
    let ?img = "bitmap_pixels ?nb b"
    let ?n = "unat (bm_cx b) * unat (bm_cy b)"
    have nb: "?nb = 3 \<or> ?nb = 4" using True by (auto simp: planar_depth_def nb_bytes_per_pixel_def)
    have same: "map (\<lambda>v. take_bit (8 * ?nb) (0xFF000000 OR v)) ?img = ?img"
    proof (rule map_idI)
      fix v assume v: "v \<in> set ?img"
      have "take_bit (8 * ?nb) (0xFF000000 OR v) = take_bit (8 * ?nb) 0xFF000000 OR take_bit (8 * ?nb) v" by (simp add: take_bit_or)
      also have "\<dots> = v"
      proof (cases "bm_bpp b = 32")
        case True
        then show ?thesis using b(5) v P(2) by (auto simp: opaque_def list_all_iff nb_bytes_per_pixel_def take_bit_eq_mask mask_eq_exp_minus_1)
      next
        case False
        then have "?nb = 3" using \<open>planar_depth session (bm_bpp b)\<close> by (simp add: planar_depth_def nb_bytes_per_pixel_def)
        then show ?thesis using P(2) v by (simp add: take_bit_eq_mask mask_eq_exp_minus_1)
      qed
      finally show "take_bit (8 * ?nb) (0xFF000000 OR v) = v" .
    qed
    have planes: "rle_decompress60 ?nb (bm_cx b) (bm_cy b) (bm_cx b) (bm_cy b) (take ?n (alloc (3 * ?n))) (take ?n (drop ?n (alloc (3 * ?n))))
        (drop (2 * ?n) (alloc (3 * ?n))) (rle_compress60 (bm_cx b) (bm_cy b) ?img) = Inr (Some ?img)"
      using planes_decoded [OF nb dim(2) P(3) P(2), of "take ?n (alloc (3 * ?n))" "take ?n (drop ?n (alloc (3 * ?n)))" "drop (2 * ?n) (alloc (3 * ?n))"]
      unfolding same by (simp add: alloc)
    show ?thesis
    proof (rule that)
      show "compress session b [] = Inr (rle_compress60 (bm_cx b) (bm_cy b) ?img, rle_compress60 (bm_cx b) (bm_cy b) ?img)"
        using True by (simp add: compress_def Let_def)
      show "coded_bitmap alloc session (bm_bpp b) palette (bm_cx b) (bm_cy b) (rle_compress60 (bm_cx b) (bm_cy b) ?img) = Inr b"
        unfolding coded_bitmap_def Let_def al using True n(1) planes by (simp add: P(1) tail hdr)
    qed
  next
    case False
    have bpp: "bm_bpp b = 8 \<or> bm_bpp b = 15 \<or> bm_bpp b = 16 \<or> bm_bpp b = 24" and ne: "bm_bpp b \<noteq> 32"
      using n(1) False b(4) by (auto simp: normalized_bpp_def planar_depth_def)
    then have nb: "rle_nb (bm_bpp b) = ?nb" by (auto simp: rle_nb_def nb_bytes_per_pixel_def)
    let ?img = "bitmap_pixels ?nb b"
    have code: "rle_decompress (bm_bpp b) (bm_cx b) (bm_cy b) (bm_cx b) False (rle_compress (bm_bpp b) (bm_cx b) ?img) = Inr (?img, 0)"
      using rle_decoded [OF bpp dim(1) aligned_mod [OF n(2)] _ dim(2) P(3), of False] dim(3,4) P(2,3) nb by simp
    show ?thesis
    proof (rule that)
      show "compress session b [] = Inr (rle_compress (bm_bpp b) (bm_cx b) ?img, rle_compress (bm_bpp b) (bm_cx b) ?img)"
        using False ne nb by (simp add: compress_def Let_def)
      show "coded_bitmap alloc session (bm_bpp b) palette (bm_cx b) (bm_cy b) (rle_compress (bm_bpp b) (bm_cx b) ?img) = Inr b"
        unfolding coded_bitmap_def Let_def al nb using False ne n(1) code by (simp add: P(1) tail hdr)
    qed
  qed
qed

subsection \<open>The length of 14 bits\<close>

lemma dec_4BUE_two_bytes:
  fixes w :: u16
  assumes "bit w 14" "\<not> bit w 15"
  shows "in_4BUE (InStream c (bytes_uint16_be w @ r)) = Inr (ucast (take_bit 14 w), InStream (c @ bytes_uint16_be w) r)"
proof -
  let ?b = "ucast (drop_bit 8 w) :: u8"
  define len where "len = (ucast ?b :: u32)"
  have c: "(0xC0 :: u32) = push_bit 6 (mask 2)" "(0x3F :: u32) = mask 6" by (simp_all add: mask_eq_exp_minus_1)
  have forty: "bit (0x40 :: u32) n \<longleftrightarrow> n = 6" for n using bit_exp_iff [of 6 n, where 'a = u32] by auto
  have bits: "bit len n \<longleftrightarrow> n < 8 \<and> bit w (n + 8)" for n by (auto simp: len_def bit_simps add.commute)
  have top: "len AND 0xC0 = 0x40"
  proof (rule bit_word_eqI)
    fix n assume "n < LENGTH(32)"
    have "bit len n \<and> 6 \<le> n \<and> n < 8 \<longleftrightarrow> n = 6" using assms bits [of 6] bits [of 7]
      by (auto simp: le_less_Suc_eq numeral_eq_Suc less_Suc_eq)
    then show "bit (len AND 0xC0) n \<longleftrightarrow> bit (0x40 :: u32) n" unfolding c forty by (auto simp: bit_simps)
  qed
  have "push_bit 8 (len AND 0x3F) + ucast (ucast w :: u8) = push_bit 8 (len AND 0x3F) OR (ucast (ucast w :: u8) :: u32)"
    by (rule disjunctive_add) (auto simp: bit_simps)
  also have "\<dots> = ucast (take_bit 14 w)"
    unfolding c by (rule bit_word_eqI) (auto simp: bit_simps bits)
  finally show ?thesis
    using top by (simp add: in_4BUE_def bytes_uint16_be_def Let_def flip: len_def)
qed

lemma in_4BUE_advances: "in_4BUE s = Inr (v, s') \<Longrightarrow> advances s s'"
  by (auto simp: in_4BUE_def Let_def bindR_eq_Inr split: if_splits dest!: in_uint8_advances intro: advances_trans)

definition bytes_14 :: "u32 \<Rightarrow> u8 list" where
  "bytes_14 v = bytes_uint16_be (ucast v OR 0x4000)"

interpretation fourteen_bits: codec in_4BUE bytes_14 "\<lambda>v. v < 0x4000"
proof unfold_locales
  fix v :: u32 and c r assume v: "v < 0x4000"
  have b: "n < 14" if "bit v n" for n using bit_below [of v n 14] that v by simp
  have four: "bit (0x4000 :: u16) n \<longleftrightarrow> n = 14" for n using bit_exp_iff [of 14 n, where 'a = u16] by auto
  define w where "w = (ucast v OR 0x4000 :: u16)"
  have "bit w 14" "\<not> bit w 15" using b [of 15] by (auto simp: w_def bit_simps four)
  moreover have "ucast (take_bit 14 w) = v"
  proof (rule bit_word_eqI)
    fix n assume "n < LENGTH(32)"
    show "bit (ucast (take_bit 14 w) :: u32) n \<longleftrightarrow> bit v n"
      using b [of n] by (auto simp: w_def bit_simps four)
  qed
  ultimately show "in_4BUE (InStream c (bytes_14 v @ r)) = Inr (v, InStream (c @ bytes_14 v) r)"
    using dec_4BUE_two_bytes [of w c r] by (simp add: bytes_14_def w_def)
qed (rule in_4BUE_advances)

lemma bytes_14_of_nat: "bytes_uint16_be (of_nat n OR 0x4000) = bytes_14 (of_nat n)"
proof -
  have "ucast (of_nat n :: u32) = (of_nat n :: u16)" by (rule bit_word_eqI) (simp add: bit_simps)
  then show ?thesis by (simp add: bytes_14_def)
qed

subsection \<open>The flags of the second revision\<close>

lemma v2_flags_read:
  assumes id: "unat (bo_id ord) < 8" and bpp: "normalized_bpp (bm_bpp (bo_bmp ord))" and f: "flags = 0 \<or> flags = CBR2_NO_BITMAP_COMPRESSION_HDR"
    and w: "w = v2_flags ord flags" and c: "cf = (ucast (ucast (drop_bit 7 (w AND 0xFF80)) :: u8) :: u16)"
  shows "ucast (w AND 0x0007) = bo_id ord" "drop_bit 3 (w AND 0x0078) = of_nat (nb_bytes_per_pixel (bm_bpp (bo_bmp ord)) + 2)"
    "has cf CBR2_PERSISTENT_KEY_PRESENT \<longleftrightarrow> bo_persistent ord" "\<not> has cf CBR2_HEIGHT_SAME_AS_WIDTH"
    "has cf CBR2_NO_BITMAP_COMPRESSION_HDR \<longleftrightarrow> flags \<noteq> 0"
proof -
  define X where "X = (flags OR (if bo_persistent ord then CBR2_PERSISTENT_KEY_PRESENT else 0) OR (if bo_do_not_cache ord then CBR2_DO_NOT_CACHE else 0))"
  define Y where "Y = (of_nat (nb_bytes_per_pixel (bm_bpp (bo_bmp ord)) + 2) :: u16)"
  have m: "(0xFF80 :: u16) = push_bit 7 (mask 9)" "(0x78 :: u16) = push_bit 3 (mask 4)" "(7 :: u16) = mask 3" by (simp_all add: mask_eq_exp_minus_1)
  have w': "w = (push_bit 7 X AND push_bit 7 (mask 9)) OR (push_bit 3 Y AND push_bit 3 (mask 4)) OR (ucast (bo_id ord) AND mask 3)"
    unfolding w v2_flags_def X_def Y_def m ..
  have "w AND mask 3 = ucast (bo_id ord) AND mask 3" unfolding w' by (rule bit_word_eqI) (auto simp: bit_simps)
  moreover have "bit (bo_id ord) n \<Longrightarrow> n < 3" for n
    using bit_below [of "bo_id ord" n 3] id by (simp add: word_less_nat_alt)
  ultimately show "ucast (w AND 0x0007) = bo_id ord"
    unfolding m by (simp only:) (rule bit_word_eqI, auto simp: bit_simps)
  have "drop_bit 3 (w AND 0x0078) = Y AND mask 4"
    unfolding m w' by (rule bit_word_eqI) (auto simp: bit_simps)
  also have "\<dots> = Y" using nb_cases [OF bpp] by (auto simp: Y_def mask_eq_exp_minus_1)
  finally show "drop_bit 3 (w AND 0x0078) = of_nat (nb_bytes_per_pixel (bm_bpp (bo_bmp ord)) + 2)" by (simp add: Y_def)
  have "drop_bit 7 (w AND 0xFF80) = X AND mask 9"
    unfolding m w' by (rule bit_word_eqI) (auto simp: bit_simps)
  then have cf: "cf = ucast (ucast (X AND mask 9) :: u8)" using c by simp
  note defs = X_def CBR2_PERSISTENT_KEY_PRESENT_def CBR2_DO_NOT_CACHE_def CBR2_NO_BITMAP_COMPRESSION_HDR_def CBR2_HEIGHT_SAME_AS_WIDTH_def
    has_def mask_eq_exp_minus_1
  show "has cf CBR2_PERSISTENT_KEY_PRESENT \<longleftrightarrow> bo_persistent ord" "\<not> has cf CBR2_HEIGHT_SAME_AS_WIDTH"
    "has cf CBR2_NO_BITMAP_COMPRESSION_HDR \<longleftrightarrow> flags \<noteq> 0"
    using f unfolding cf defs by (cases "bo_persistent ord"; cases "bo_do_not_cache ord"; elim disjE; simp)+
qed

subsection \<open>An order is read back\<close>

lemma raw_data_eq: "bitmap_ok b \<Longrightarrow> raw_data b = bm_data b" "bitmap_ok b \<Longrightarrow> length (bm_data b) = bmp_size b"
  by (simp_all add: raw_data_def bitmap_ok_def)

lemma small_dimension: "unat w < 256 \<Longrightarrow> ucast (ucast w :: u8) = w" for w :: u16
  by (simp add: word_unat_eq_iff unsigned_ucast_eq unsigned_take_bit_eq take_bit_nat_eq_self)

lemma small_length: "n < 65536 \<Longrightarrow> unat (of_nat n :: u16) = n"
  by (simp add: unat_of_nat take_bit_nat_eq_self)

definition v1_received :: "bmp_order \<Rightarrow> u8 list \<Rightarrow> bmp_received" where
  "v1_received ord memo = \<lparr>br_id = bo_id ord, br_idx = bo_idx ord, br_bmp = bo_bmp ord, br_memo = memo, br_key1 = 0, br_key2 = 0\<rparr>"

lemma raw_v1_read:
  assumes "bitmap_ok (bo_bmp ord)" "bmp_size (bo_bmp ord) < 65536" "unat (bm_cx (bo_bmp ord)) < 256" "unat (bm_cy (bo_bmp ord)) < 256"
    and "bm_bpp (bo_bmp ord) = 8 \<longrightarrow> palette = bm_palette (bo_bmp ord)"
  shows "receive_raw_v1 palette (InStream c (v1_fields ord (bmp_size (bo_bmp ord)) @ raw_data (bo_bmp ord) @ r))
    = Inr (v1_received ord [], InStream (c @ v1_fields ord (bmp_size (bo_bmp ord)) @ raw_data (bo_bmp ord)) r)"
  using assms raw_bitmap_data [OF assms(1,5), of r]
  by (simp add: receive_raw_v1_def v1_fields_def read_fields small_dimension small_length raw_data_eq skip_data v1_received_def)

lemma compressed_v1_read:
  assumes "bitmap_ok (bo_bmp ord)" "length data + 8 < 65536" "unat (bm_cx (bo_bmp ord)) < 256" "unat (bm_cy (bo_bmp ord)) < 256" "bm_cy (bo_bmp ord) \<noteq> 0"
    and coded: "coded_bitmap alloc session (bm_bpp (bo_bmp ord)) palette (bm_cx (bo_bmp ord)) (bm_cy (bo_bmp ord)) data = Inr (bo_bmp ord)"
    and rest: "rest = (if compact then [] else compression_header (bo_bmp ord) (length data)) @ data"
  shows "receive_compressed_v1 alloc session palette (if compact then NO_BITMAP_COMPRESSION_HDR else 8)
      (InStream c (v1_fields ord (length rest) @ rest @ r))
    = Inr (v1_received ord data, InStream (c @ v1_fields ord (length rest) @ rest) r)"
proof -
  have flags: "has NO_BITMAP_COMPRESSION_HDR NO_BITMAP_COMPRESSION_HDR" "\<not> has 8 NO_BITMAP_COMPRESSION_HDR"
    by (simp_all add: NO_BITMAP_COMPRESSION_HDR_def has_def)
  have cy: "ucast (bm_cy (bo_bmp ord)) \<noteq> (0 :: u8)" using assms(4,5) small_dimension [OF assms(4)] by auto
  have len: "unat (of_nat (length data) :: u16) = length data" using assms(2) by (intro small_length) simp
  have pad: "in_uint16_le (InStream c (0 # 0 # r)) = Inr (0, InStream (c @ [0, 0]) r)" for c r by simp
  show ?thesis
  proof (cases compact)
    case True
    then show ?thesis
      using flags coded assms(2-4) unfolding rest
      by (simp add: receive_compressed_v1_def v1_fields_def read_fields small_dimension len skip_data v1_received_def)
  next
    case False
    then show ?thesis
      using flags coded cy assms(3,4) unfolding rest
      by (simp add: receive_compressed_v1_def v1_fields_def compression_header_def read_fields pad small_dimension len skip_data v1_received_def)
  qed
qed

definition v2_received :: "(u8 list \<Rightarrow> u8 list) \<Rightarrow> bmp_order \<Rightarrow> u8 list \<Rightarrow> bmp_received" where
  "v2_received sha ord memo = \<lparr>br_id = bo_id ord, br_idx = wire_idx ord, br_bmp = bo_bmp ord, br_memo = memo,
     br_key1 = bmp_key sha 0 ord, br_key2 = bmp_key sha 1 ord\<rparr>"

lemma read_keys:
  assumes "has cf CBR2_PERSISTENT_KEY_PRESENT \<longleftrightarrow> bo_persistent ord"
  shows "receive_keys cf (InStream c (key_bytes sha ord @ r)) = Inr (bmp_key sha 0 ord, bmp_key sha 1 ord, InStream (c @ key_bytes sha ord) r)"
  using assms by (simp add: receive_keys_def key_bytes_def read_fields bmp_key_def)

lemma cbr2_bpp:
  assumes "normalized_bpp bpp" "nb_bytes_per_pixel bpp = 2 \<longrightarrow> (bpp = 15 \<longleftrightarrow> session = 15)"
  shows "cbr2_bpp_to_bpp session (of_nat (nb_bytes_per_pixel bpp + 2)) = Inr bpp"
  using assms by (auto simp: cbr2_bpp_to_bpp_def normalized_bpp_def nb_bytes_per_pixel_def)

lemma v2_fields_read:
  assumes id: "unat (bo_id ord) < 8" and bmp: "normalized_bpp (bm_bpp (bo_bmp ord))" "bm_cx (bo_bmp ord) < 0x8000" "bm_cy (bo_bmp ord) < 0x8000"
    and idx: "wire_idx ord < 0x8000" and n: "n < 0x4000"
    and bpp: "nb_bytes_per_pixel (bm_bpp (bo_bmp ord)) = 2 \<longrightarrow> (bm_bpp (bo_bmp ord) = 15 \<longleftrightarrow> session = 15)"
    and flags: "flags = 0 \<or> flags = CBR2_NO_BITMAP_COMPRESSION_HDR"
  obtains cf where "has cf CBR2_NO_BITMAP_COMPRESSION_HDR \<longleftrightarrow> flags \<noteq> 0"
    "receive_v2 alloc session palette compressed (v2_flags ord flags) (InStream c (v2_fields sha ord n @ r))
      = bindR (receive_v2_data alloc session palette compressed cf (bm_bpp (bo_bmp ord)) (bm_cx (bo_bmp ord)) (bm_cy (bo_bmp ord)) (of_nat n)
          (InStream (c @ v2_fields sha ord n) r)) (\<lambda>(b, memo, s).
        Inr (\<lparr>br_id = bo_id ord, br_idx = wire_idx ord, br_bmp = b, br_memo = memo, br_key1 = bmp_key sha 0 ord, br_key2 = bmp_key sha 1 ord\<rparr>, s))"
proof -
  note F = v2_flags_read [OF id bmp(1) flags refl refl]
  let ?cf = "ucast (ucast (drop_bit 7 (v2_flags ord flags AND 0xFF80)) :: u8) :: u16"
  have n': "(of_nat n :: u32) < 0x4000" using n by (simp add: word_less_nat_alt unat_of_nat take_bit_nat_eq_self)
  note R = read_keys [OF F(3), where sha = sha] two_byte_unsigned.rd_enc [OF bmp(2)] two_byte_unsigned.rd_enc [OF bmp(3)]
    two_byte_unsigned.rd_enc [OF idx] fourteen_bits.rd_enc [OF n']
  have "receive_v2 alloc session palette compressed (v2_flags ord flags) (InStream c (v2_fields sha ord n @ r))
      = receive_v2_fields alloc session palette compressed (bo_id ord) ?cf (bm_bpp (bo_bmp ord)) (InStream c (v2_fields sha ord n @ r))"
    unfolding receive_v2_def F(1,2) cbr2_bpp [OF bmp(1) bpp] bindR_simps ..
  also have "\<dots> = bindR (receive_v2_data alloc session palette compressed ?cf (bm_bpp (bo_bmp ord)) (bm_cx (bo_bmp ord)) (bm_cy (bo_bmp ord)) (of_nat n)
          (InStream (c @ v2_fields sha ord n) r)) (\<lambda>(b, memo, s).
        Inr (\<lparr>br_id = bo_id ord, br_idx = wire_idx ord, br_bmp = b, br_memo = memo, br_key1 = bmp_key sha 0 ord, br_key2 = bmp_key sha 1 ord\<rparr>, s))"
    unfolding receive_v2_fields_def v2_fields_def bytes_14_of_nat append_assoc R bindR_simps prod.case
    by (simp only: F(4) if_False bindR_simps prod.case R append_assoc)
  finally show ?thesis using F(5) by (rule that [rotated])
qed

lemma v2_data_read:
  assumes "length data < 0x4000"
  shows "has cf CBR2_NO_BITMAP_COMPRESSION_HDR \<Longrightarrow> coded_bitmap alloc session bpp palette cx cy data = Inr b \<Longrightarrow>
      receive_v2_data alloc session palette True cf bpp cx cy (of_nat (length data)) (InStream c (data @ r)) = Inr (b, data, InStream (c @ data) r)"
    "raw_bitmap bpp palette cx cy (data @ r) = Inr b \<Longrightarrow>
      receive_v2_data alloc session palette False cf bpp cx cy (of_nat (length data)) (InStream c (data @ r)) = Inr (b, [], InStream (c @ data) r)"
proof -
  have "unat (of_nat (length data) :: u32) = length data"
    using assms by (simp add: unat_of_nat take_bit_nat_eq_self)
  then show "has cf CBR2_NO_BITMAP_COMPRESSION_HDR \<Longrightarrow> coded_bitmap alloc session bpp palette cx cy data = Inr b \<Longrightarrow>
      receive_v2_data alloc session palette True cf bpp cx cy (of_nat (length data)) (InStream c (data @ r)) = Inr (b, data, InStream (c @ data) r)"
    "raw_bitmap bpp palette cx cy (data @ r) = Inr b \<Longrightarrow>
      receive_v2_data alloc session palette False cf bpp cx cy (of_nat (length data)) (InStream c (data @ r)) = Inr (b, [], InStream (c @ data) r)"
    by (simp_all add: receive_v2_data_def skip_data)
qed

subsection \<open>An order the serializer writes is read back\<close>

definition code_fits :: "u8 \<Rightarrow> bitmap \<Rightarrow> bool" where
  "code_fits session b = (case compress session b [] of Inl _ \<Rightarrow> False | Inr (bs, _) \<Rightarrow> length bs \<le> 65535)"

text \<open>What a bitmap and an order must be for each revision: dimensions of a byte or of 15 bits, and a length of 16 or 14 bits.\<close>

definition travels :: "u8 \<Rightarrow> color list \<Rightarrow> nat \<Rightarrow> bitmap \<Rightarrow> bool" where
  "travels session palette version b \<longleftrightarrow> codable session b \<and> code_fits session b \<and> (bm_bpp b = 8 \<longrightarrow> palette = bm_palette b)
     \<and> (if version \<le> 1
        then unat (bm_cx b) < 256 \<and> unat (bm_cy b) < 256 \<and> bmp_size b < 65519
        else bm_cx b < 0x8000 \<and> bm_cy b < 0x8000 \<and> bmp_size b < 0x4000
          \<and> (nb_bytes_per_pixel (bm_bpp b) = 2 \<longrightarrow> (bm_bpp b = 15 \<longleftrightarrow> session = 15)))"

definition order_ok :: "u8 \<Rightarrow> color list \<Rightarrow> nat \<Rightarrow> bmp_order \<Rightarrow> bool" where
  "order_ok session palette version ord \<longleftrightarrow> travels session palette version (bo_bmp ord)
     \<and> (if version \<le> 1 then \<not> bo_persistent ord \<and> \<not> bo_do_not_cache ord else unat (bo_id ord) < 8 \<and> wire_idx ord < 0x8000)"

definition memo_ok :: "(nat \<Rightarrow> u8 list) \<Rightarrow> u8 \<Rightarrow> color list \<Rightarrow> bitmap \<Rightarrow> u8 list \<Rightarrow> bool" where
  "memo_ok alloc session palette b memo \<longleftrightarrow>
     memo = [] \<or> coded_bitmap alloc session (bm_bpp b) palette (bm_cx b) (bm_cy b) memo = Inr b"

lemma secondary_header_read:
  assumes "n < 65536"
  obtains h where "stype h = type" "sflags h = flags" "unat (order_data_length h) = n"
    "secondary_header_bytes n flags type = 3 # tl (secondary_header_bytes n flags type)" "length (secondary_header_bytes n flags type) = 6"
    "\<And>c r. receive_secondary_header (InStream c (tl (secondary_header_bytes n flags type) @ r))
      = Inr (h, InStream (c @ tl (secondary_header_bytes n flags type)) r)"
proof (rule that [of "\<lparr>order_length = of_nat n - 7, sflags = flags, stype = type\<rparr>"])
  have "order_data_length \<lparr>order_length = of_nat n - 7, sflags = flags, stype = type\<rparr> = of_nat n"
    by (simp add: order_data_length_def)
  then show "unat (order_data_length \<lparr>order_length = of_nat n - 7, sflags = flags, stype = type\<rparr>) = n"
    using assms by (simp only: small_length)
qed (simp_all add: secondary_header_bytes_def bytes_uint8_def bytes_uint16_le_def receive_secondary_header_def word16_of_bytes)

text \<open>\<open>bs\<close> is a secondary order with the control byte left out: its header, and data \<open>receive\<close> reads to the end.\<close>

definition is_order_of ::
  "(nat \<Rightarrow> u8 list) \<Rightarrow> u8 \<Rightarrow> color list \<Rightarrow> bmp_received \<Rightarrow> u8 list \<Rightarrow> bool" where
  "is_order_of alloc session palette got bs \<longleftrightarrow>
     (\<forall>c r. \<exists>h data. receive_secondary_header (InStream c (bs @ r)) = Inr (h, InStream (c @ take 5 bs) (data @ r))
        \<and> stype h \<in> {0, 2, 4, 5} \<and> unat (order_data_length h) = length data \<and> bs = take 5 bs @ data
        \<and> receive_bmp_order alloc session palette h (InStream (c @ take 5 bs) (data @ r)) = Inr (got, InStream (c @ bs) r))"

lemma is_order_ofI:
  assumes bs: "bs = tl (secondary_header_bytes (length data) flags type) @ data" and n: "length data < 65536" and t: "type \<in> {0, 2, 4, 5}"
    and rd: "\<And>h c r. stype h = type \<Longrightarrow> sflags h = flags \<Longrightarrow> receive_bmp_order alloc session palette h (InStream c (data @ r)) = Inr (got, InStream (c @ data) r)"
  shows "is_order_of alloc session palette got bs"
proof -
  obtain h where h: "stype h = type" "sflags h = flags" "unat (order_data_length h) = length data"
    "length (secondary_header_bytes (length data) flags type) = 6"
    "\<And>c r. receive_secondary_header (InStream c (tl (secondary_header_bytes (length data) flags type) @ r))
      = Inr (h, InStream (c @ tl (secondary_header_bytes (length data) flags type)) r)"
    using secondary_header_read [OF n] by metis
  have five: "take 5 bs = tl (secondary_header_bytes (length data) flags type)" using h(4) by (simp add: bs)
  show ?thesis
    unfolding is_order_of_def five using h t rd [OF h(1,2)] bs by (intro allI exI [of _ h] exI [of _ data]) simp
qed

lemma length_v1_fields [simp]: "length (v1_fields ord n) = 9"
  by (simp add: v1_fields_def bytes_uint8_def bytes_uint16_le_def)

lemma length_compression_header [simp]: "length (compression_header b n) = 8"
  by (simp add: compression_header_def bytes_uint16_le_def)

lemma length_v2_fields: "length (v2_fields sha ord n) \<le> 16"
  by (simp add: v2_fields_def key_bytes_def bytes_2BUE_def bytes_uint8_def bytes_uint16_be_def bytes_uint32_le_def)

lemma v1_received_eq:
  "\<not> bo_persistent ord \<Longrightarrow> \<not> bo_do_not_cache ord \<Longrightarrow> v1_received ord m = v2_received sha ord m"
  by (simp add: v1_received_def v2_received_def wire_idx_def bmp_key_def)

lemma emitted_v1:
  assumes bmp: "bitmap_ok (bo_bmp ord)" "unat (bm_cx (bo_bmp ord)) < 256" "unat (bm_cy (bo_bmp ord)) < 256" "bm_cy (bo_bmp ord) \<noteq> 0"
    and pal: "bm_bpp (bo_bmp ord) = 8 \<longrightarrow> palette = bm_palette (bo_bmp ord)"
    and sz: "bmp_size (bo_bmp ord) < 65519"
    and code: "coded \<Longrightarrow> coded_bitmap alloc session (bm_bpp (bo_bmp ord)) palette (bm_cx (bo_bmp ord)) (bm_cy (bo_bmp ord)) m = Inr (bo_bmp ord)"
      "coded \<Longrightarrow> compress session (bo_bmp ord) m = Inr (m, m)" "coded \<Longrightarrow> length m < bmp_size (bo_bmp ord)" and v: "version \<le> 1"
  obtains bs m' where "emit sha session version coded compact ord m = Inr (3 # bs)" "length bs < bmp_size (bo_bmp ord) + 32"
    "is_order_of alloc session palette (v1_received ord m') bs" "m' = [] \<or> m' = m"
proof (cases coded)
  case True
  let ?rest = "(if compact then [] else compression_header (bo_bmp ord) (length m)) @ m"
  let ?f = "if compact then NO_BITMAP_COMPRESSION_HDR else 8"
  let ?data = "v1_fields ord (length ?rest) @ ?rest"
  let ?bs = "tl (secondary_header_bytes (length ?data) ?f 2) @ ?data"
  have n: "length ?rest \<le> length m + 8" "length ?data < 65536" "length m + 8 < 65536" using code(3) [OF True] sz by simp_all
  obtain h6: "secondary_header_bytes (length ?data) ?f 2 = 3 # tl (secondary_header_bytes (length ?data) ?f 2)"
    "length (secondary_header_bytes (length ?data) ?f 2) = 6"
    using secondary_header_read [OF n(2)] by metis
  have "emit sha session version coded compact ord m = Inr (secondary_header_bytes (length ?data) ?f 2 @ ?data)"
    using True v bmp(4) code(2) [OF True] by (simp add: emit_def emit_v1_compressed_def Let_def)
  also have "\<dots> = Inr (3 # ?bs)" by (subst h6(1)) simp
  finally have e: "emit sha session version coded compact ord m = Inr (3 # ?bs)" .
  have "is_order_of alloc session palette (v1_received ord m) ?bs"
  proof (rule is_order_ofI [OF refl n(2)])
    fix h :: secondary_header and c r assume "stype h = 2" "sflags h = ?f"
    then show "receive_bmp_order alloc session palette h (InStream c (?data @ r)) = Inr (v1_received ord m, InStream (c @ ?data) r)"
      using compressed_v1_read [OF bmp(1) n(3) bmp(2-4) code(1) [OF True] refl, of compact c r]
      by (simp only: receive_bmp_order_def append_assoc) simp
  qed simp
  moreover have "length ?bs < bmp_size (bo_bmp ord) + 32" using h6(2) n(1) code(3) [OF True] by simp
  ultimately show ?thesis using e that by blast
next
  case False
  let ?b = "bo_bmp ord"
  let ?data = "v1_fields ord (bmp_size ?b) @ raw_data ?b"
  let ?bs = "tl (secondary_header_bytes (length ?data) 8 0) @ ?data"
  have len: "length (raw_data ?b) = bmp_size ?b" using raw_data_eq [OF bmp(1)] by simp
  have n: "length ?data < 65536" "bmp_size ?b < 65536" using sz len by simp_all
  obtain h6: "secondary_header_bytes (length ?data) 8 0 = 3 # tl (secondary_header_bytes (length ?data) 8 0)"
    "length (secondary_header_bytes (length ?data) 8 0) = 6"
    using secondary_header_read [OF n(1)] by metis
  have "emit sha session version coded compact ord m = Inr (secondary_header_bytes (length ?data) 8 0 @ ?data)"
    using False v bmp(1) len by (simp add: emit_def emit_raw_v1_def align4_aligned bitmap_ok_def)
  also have "\<dots> = Inr (3 # ?bs)" by (subst h6(1)) simp
  finally have e: "emit sha session version coded compact ord m = Inr (3 # ?bs)" .
  have "is_order_of alloc session palette (v1_received ord []) ?bs"
  proof (rule is_order_ofI [OF refl n(1)])
    fix h :: secondary_header and c r assume "stype h = 0" "sflags h = 8"
    then show "receive_bmp_order alloc session palette h (InStream c (?data @ r)) = Inr (v1_received ord [], InStream (c @ ?data) r)"
      using raw_v1_read [OF bmp(1) n(2) bmp(2,3) pal, of c r]
      by (simp only: receive_bmp_order_def append_assoc) simp
  qed simp
  moreover have "length ?bs < bmp_size ?b + 32" using h6(2) len by simp
  ultimately show ?thesis using e that by blast
qed

lemma emitted_v2:
  assumes id: "unat (bo_id ord) < 8" and bmp: "bitmap_ok (bo_bmp ord)" "bm_cx (bo_bmp ord) < 0x8000" "bm_cy (bo_bmp ord) < 0x8000"
    and idx: "wire_idx ord < 0x8000" and sz: "bmp_size (bo_bmp ord) < 0x4000"
    and bpp: "nb_bytes_per_pixel (bm_bpp (bo_bmp ord)) = 2 \<longrightarrow> (bm_bpp (bo_bmp ord) = 15 \<longleftrightarrow> session = 15)"
    and pal: "bm_bpp (bo_bmp ord) = 8 \<longrightarrow> palette = bm_palette (bo_bmp ord)"
    and code: "coded \<Longrightarrow> coded_bitmap alloc session (bm_bpp (bo_bmp ord)) palette (bm_cx (bo_bmp ord)) (bm_cy (bo_bmp ord)) m = Inr (bo_bmp ord)"
      "coded \<Longrightarrow> compress session (bo_bmp ord) m = Inr (m, m)" "coded \<Longrightarrow> length m < bmp_size (bo_bmp ord)" and v: "\<not> version \<le> 1"
  obtains bs m' where "emit sha session version coded compact ord m = Inr (3 # bs)" "length bs < bmp_size (bo_bmp ord) + 32"
    "is_order_of alloc session palette (v2_received sha ord m') bs" "m' = [] \<or> m' = m"
proof -
  let ?b = "bo_bmp ord"
  let ?d = "if coded then m else raw_data ?b"
  let ?m' = "if coded then m else []"
  let ?f = "if coded then CBR2_NO_BITMAP_COMPRESSION_HDR else 0"
  let ?t = "if coded then 5 else 4"
  let ?data = "v2_fields sha ord (length ?d) @ ?d"
  let ?bs = "tl (secondary_header_bytes (length ?data) (v2_flags ord ?f) ?t) @ ?data"
  have len: "length (raw_data ?b) = bmp_size ?b" using raw_data_eq [OF bmp(1)] by simp
  have d: "length ?d \<le> bmp_size ?b" "length ?d < 0x4000" using len code(3) sz by (auto split: if_splits)
  have n: "length ?data \<le> bmp_size ?b + 16" "length ?data < 65536"
    using length_v2_fields [of sha ord "length ?d"] d unfolding length_append by linarith+
  obtain h6: "secondary_header_bytes (length ?data) (v2_flags ord ?f) ?t = 3 # tl (secondary_header_bytes (length ?data) (v2_flags ord ?f) ?t)"
    "length (secondary_header_bytes (length ?data) (v2_flags ord ?f) ?t) = 6"
    using secondary_header_read [OF n(2)] by metis
  have "emit sha session version coded compact ord m = Inr (secondary_header_bytes (length ?data) (v2_flags ord ?f) ?t @ ?data)"
    using v code(2) len by (simp add: emit_def emit_v2_compressed_def emit_raw_v2_def Let_def)
  also have "\<dots> = Inr (3 # ?bs)" by (subst h6(1)) simp
  finally have e: "emit sha session version coded compact ord m = Inr (3 # ?bs)" .
  have norm: "normalized_bpp (bm_bpp ?b)" using bmp(1) by (simp add: bitmap_ok_def)
  have f: "?f = 0 \<or> ?f = CBR2_NO_BITMAP_COMPRESSION_HDR" by simp
  have "is_order_of alloc session palette (v2_received sha ord ?m') ?bs"
  proof (rule is_order_ofI [OF refl n(2)])
    fix h :: secondary_header and c r assume h: "stype h = ?t" "sflags h = v2_flags ord ?f"
    have "receive_v2 alloc session palette coded (v2_flags ord ?f) (InStream c (?data @ r)) = Inr (v2_received sha ord ?m', InStream (c @ ?data) r)"
    proof (rule v2_fields_read [OF id norm bmp(2,3) idx d(2) bpp f, where alloc = alloc and palette = palette and compressed = coded and sha = sha and c = c and r = "?d @ r"])
      fix cf
      assume cf: "has cf CBR2_NO_BITMAP_COMPRESSION_HDR \<longleftrightarrow> ?f \<noteq> 0"
        and rd: "receive_v2 alloc session palette coded (v2_flags ord ?f) (InStream c (v2_fields sha ord (length ?d) @ ?d @ r))
      = bindR (receive_v2_data alloc session palette coded cf (bm_bpp ?b) (bm_cx ?b) (bm_cy ?b) (of_nat (length ?d))
          (InStream (c @ v2_fields sha ord (length ?d)) (?d @ r))) (\<lambda>(b, memo, s).
        Inr (\<lparr>br_id = bo_id ord, br_idx = wire_idx ord, br_bmp = b, br_memo = memo, br_key1 = bmp_key sha 0 ord, br_key2 = bmp_key sha 1 ord\<rparr>, s))"
      have "receive_v2_data alloc session palette coded cf (bm_bpp ?b) (bm_cx ?b) (bm_cy ?b) (of_nat (length ?d))
          (InStream (c @ v2_fields sha ord (length ?d)) (?d @ r)) = Inr (?b, ?m', InStream ((c @ v2_fields sha ord (length ?d)) @ ?d) r)"
      proof (cases coded)
        case True
        then have "has cf CBR2_NO_BITMAP_COMPRESSION_HDR" using cf by (simp add: CBR2_NO_BITMAP_COMPRESSION_HDR_def)
        from v2_data_read(1) [OF d(2) this] code(1) [OF True] True show ?thesis by simp
      next
        case False
        have "raw_bitmap (bm_bpp ?b) palette (bm_cx ?b) (bm_cy ?b) (?d @ r) = Inr ?b"
          using raw_bitmap_data [OF bmp(1) pal, of r] raw_data_eq [OF bmp(1)] False by simp
        from v2_data_read(2) [OF d(2) this] False show ?thesis by simp
      qed
      then show ?thesis unfolding append_assoc rd by (simp add: v2_received_def)
    qed
    then show "receive_bmp_order alloc session palette h (InStream c (?data @ r)) = Inr (v2_received sha ord ?m', InStream (c @ ?data) r)"
      using h by (simp add: receive_bmp_order_def split: if_splits)
  qed simp
  moreover have "length ?bs < bmp_size ?b + 32" using h6(2) n(1) by simp
  ultimately show ?thesis using e by (intro that [of ?bs ?m']) simp_all
qed

lemma codableD:
  assumes "codable session b"
  shows "bitmap_ok b" "bm_cy b \<noteq> 0"
proof -
  show "bitmap_ok b" using assms by (simp add: codable_def)
  show "bm_cy b \<noteq> 0"
  proof
    assume "bm_cy b = 0"
    then show False using assms by (simp add: codable_def bmp_size_def)
  qed
qed

lemma order_emitted:
  assumes ok: "order_ok session palette version ord" and memo: "memo_ok alloc session palette (bo_bmp ord) memo" and alloc: "\<And>n. length (alloc n) = n"
  obtains bs m where "emit_order sha session version use_comp compact ord memo = Inr (3 # bs, bmp_size (bo_bmp ord) + 32)"
    "length (3 # bs) \<le> bmp_size (bo_bmp ord) + 32" "is_order_of alloc session palette (v2_received sha ord m) bs"
    "memo_ok alloc session palette (bo_bmp ord) m"
proof -
  let ?b = "bo_bmp ord"
  have c: "codable session ?b" and pal: "bm_bpp ?b = 8 \<longrightarrow> palette = bm_palette ?b" and fits: "code_fits session ?b"
    using ok by (simp_all add: order_ok_def travels_def)
  note B = codableD [OF c]
  obtain code where code: "compress session ?b [] = Inr (code, code)"
    "coded_bitmap alloc session (bm_bpp ?b) palette (bm_cx ?b) (bm_cy ?b) code = Inr ?b"
    by (rule compressed_bitmap_decoded [OF c _ alloc, of palette]) (use pal in auto)
  have short: "length code \<le> 65535" using fits code(1) by (simp add: code_fits_def)
  define m where "m = (if use_comp \<and> memo = [] then code else memo)"
  have m: "coded_bitmap alloc session (bm_bpp ?b) palette (bm_cx ?b) (bm_cy ?b) m = Inr ?b" "compress session ?b m = Inr (m, m)" if use_comp
  proof -
    show "coded_bitmap alloc session (bm_bpp ?b) palette (bm_cx ?b) (bm_cy ?b) m = Inr ?b"
      using that memo code(2) by (auto simp: m_def memo_ok_def)
    show "compress session ?b m = Inr (m, m)"
    proof (cases "m = []")
      case True
      then have "code = []" using that by (auto simp: m_def split: if_splits)
      then show ?thesis using code(1) True by simp
    qed (simp add: compress_def)
  qed
  let ?coded = "use_comp \<and> length m < bmp_size ?b"
  have first: "(if use_comp \<and> memo = []
            then bindR (compress session ?b memo) (\<lambda>(bs, memo). assertR (length bs \<le> 65535) (Inr memo)) else Inr memo) = Inr m"
    using code(1) short by (simp add: m_def)
  obtain bs m' where e: "emit sha session version ?coded compact ord m = Inr (3 # bs)" "length bs < bmp_size ?b + 32"
    "is_order_of alloc session palette (v2_received sha ord m') bs" "m' = [] \<or> m' = m"
  proof (cases "version \<le> 1")
    case True
    then have v1: "unat (bm_cx ?b) < 256" "unat (bm_cy ?b) < 256" "bmp_size ?b < 65519" "\<not> bo_persistent ord" "\<not> bo_do_not_cache ord"
      using ok by (simp_all add: order_ok_def travels_def)
    show ?thesis
      by (rule emitted_v1 [OF B(1) v1(1,2) B(2) pal v1(3) _ _ _ True, where coded = ?coded and alloc = alloc and session = session and sha = sha and m = m and compact = compact])
        (use m that v1_received_eq [OF v1(4,5)] in \<open>(blast | metis)+\<close>)
  next
    case False
    then have v2: "unat (bo_id ord) < 8" "bm_cx ?b < 0x8000" "bm_cy ?b < 0x8000" "wire_idx ord < 0x8000" "bmp_size ?b < 0x4000"
      "nb_bytes_per_pixel (bm_bpp ?b) = 2 \<longrightarrow> (bm_bpp ?b = 15 \<longleftrightarrow> session = 15)"
      using ok by (simp_all add: order_ok_def travels_def)
    show ?thesis
      by (rule emitted_v2 [OF v2(1) B(1) v2(2-6) pal _ _ _ False, where coded = ?coded and alloc = alloc and m = m and sha = sha and compact = compact])
        (use m that in \<open>(blast | metis)+\<close>)
  qed
  have "emit_order sha session version use_comp compact ord memo = Inr (3 # bs, bmp_size ?b + 32)"
    unfolding emit_order_def first bindR_simps e(1) prod.case ..
  moreover have "memo_ok alloc session palette ?b m'"
    using e(4) m(1) memo by (cases use_comp) (auto simp: memo_ok_def m_def)
  ultimately show ?thesis using e(2,3) by (intro that) simp_all
qed

end
