(* ===== verification/Rle_Safety.thy ===== *)
theory Rle_Safety
  imports Rle_Round_Trip
begin

text \<open>
  What the run-length decoder promises for any input: it writes only inside the image, it takes at most one turn
  for each byte, and it does not check that the bytes it reads are there.
\<close>

subsection \<open>Where the decoder writes\<close>

definition line_ok :: "rle_image \<Rightarrow> rle_state \<Rightarrow> bool" where
  "line_ok c s \<longleftrightarrow> (\<exists>y. length (rs_out s) = y * unat (ri_dst_cx c) + unat (rs_x s)) \<and> rs_x s < ri_src_cx c"

definition rle_image_ok :: "rle_image \<Rightarrow> nat \<Rightarrow> bool" where
  "rle_image_ok c cy \<longleftrightarrow> ri_src_cx c \<le> ri_dst_cx c \<and> ri_len c = unat (ri_dst_cx c) * cy"

definition writes_inside :: "rle_image \<Rightarrow> nat \<Rightarrow> rle_state \<Rightarrow> bool" where
  "writes_inside c cy s \<longleftrightarrow> line_ok c s \<and> length (rs_out s) \<le> ri_len c"

text \<open>What a step may do: fail, but not with a write outside the image, or keep what it promises.\<close>

definition no_overflow :: "('a \<Rightarrow> bool) \<Rightarrow> 'a res \<Rightarrow> bool" where
  "no_overflow P m \<longleftrightarrow> (case m of Inl e \<Rightarrow> e \<noteq> UB_WRITE | Inr a \<Rightarrow> P a)"

lemma no_overflow_simps [simp]: "no_overflow P (Inl e) \<longleftrightarrow> e \<noteq> UB_WRITE" "no_overflow P (Inr a) \<longleftrightarrow> P a"
  by (simp_all add: no_overflow_def)

lemma no_overflow_bind:
  "no_overflow P m \<Longrightarrow> (\<And>a. P a \<Longrightarrow> no_overflow Q (f a)) \<Longrightarrow> no_overflow Q (bindR m f)"
  by (cases m) (simp_all add: bindR_def)

lemma no_overflow_mono: "no_overflow P m \<Longrightarrow> (\<And>a. P a \<Longrightarrow> Q a) \<Longrightarrow> no_overflow Q m"
  by (cases m) simp_all

lemma no_overflow_assert [simp]: "no_overflow P (assertR b m) \<longleftrightarrow> (b \<longrightarrow> no_overflow P m)"
  by (simp add: assertR_def)

lemma no_overflow_next: "no_overflow (\<lambda>_. True) (next_byte input)" "no_overflow (\<lambda>_. True) (next_pixel nb input)"
  by (simp_all add: next_byte_def next_pixel_def split: list.splits)

lemma put_pixel_inside:
  assumes c: "rle_image_ok c cy" and s: "line_ok c s" "length (rs_out s) < ri_len c"
  shows "no_overflow (writes_inside c cy) (put_pixel c v s)"
proof -
  obtain y where y: "length (rs_out s) = y * unat (ri_dst_cx c) + unat (rs_x s)" and x: "rs_x s < ri_src_cx c"
    using s(1) by (auto simp: line_ok_def)
  have le: "unat (ri_src_cx c) \<le> unat (ri_dst_cx c)" and len: "ri_len c = unat (ri_dst_cx c) * cy"
    using c by (simp_all add: rle_image_ok_def word_le_nat_alt)
  have "rs_x s \<noteq> - 1" using x word_order.extremum_strict by metis
  then have "rs_x s + 1 \<noteq> 0" by (simp add: eq_neg_iff_add_eq_0)
  then have x1: "unat (rs_x s + 1) = unat (rs_x s) + 1" using unatSuc [of "rs_x s"] by (simp add: add.commute)
  have "y < cy"
  proof (rule ccontr)
    assume "\<not> y < cy"
    then have "cy * unat (ri_dst_cx c) \<le> y * unat (ri_dst_cx c)" by (intro mult_le_mono1) simp
    with s(2) y len show False by (simp add: mult.commute)
  qed
  then have line: "(y + 1) * unat (ri_dst_cx c) \<le> ri_len c" using len by (metis Suc_eq_plus1 Suc_leI mult.commute mult_le_mono1)
  show ?thesis
  proof (cases "rs_x s + 1 = ri_src_cx c")
    case True
    with x1 have src: "unat (ri_src_cx c) = unat (rs_x s) + 1" by metis
    with y le have total: "length (rs_out s) + 1 + (unat (ri_dst_cx c) - unat (ri_src_cx c)) = (y + 1) * unat (ri_dst_cx c)" by simp
    moreover have "0 < ri_src_cx c" using x by (rule le_less_trans [OF word_zero_le])
    ultimately show ?thesis
      using True s(2) line by (auto simp: put_pixel_def Let_def writes_inside_def line_ok_def intro: exI [of _ "y + 1"])
  next
    case False
    have "rs_x s + 1 \<le> ri_src_cx c" using x by (rule inc_le)
    with False have "rs_x s + 1 < ri_src_cx c" by simp
    with False s(2) x1 y show ?thesis by (auto simp: put_pixel_def Let_def writes_inside_def line_ok_def intro: exI [of _ y])
  qed
qed

lemma read_code_no_overflow: "no_overflow (\<lambda>_. True) (read_code input)"
proof -
  have next1: "no_overflow Q (bindR (next_byte i) (\<lambda>(b, rest). f b rest))" if "\<And>b rest. no_overflow Q (f b rest)" for Q i and f :: "u8 \<Rightarrow> u8 list \<Rightarrow> 'x res"
    by (rule no_overflow_bind [OF no_overflow_next(1)]) (use that in auto)
  have bind: "no_overflow (\<lambda>_. True) (bindR m (\<lambda>r. assertR (P r) (Inr r)))" if "no_overflow (\<lambda>_. True) m" for P and m :: "'y res"
    by (rule no_overflow_bind [OF that]) simp
  show ?thesis
    unfolding read_code_def Let_def
    by (simp add: next1 bind)
qed

definition same_place :: "rle_state \<Rightarrow> rle_state \<Rightarrow> bool" where
  "same_place s s' \<longleftrightarrow> rs_out s' = rs_out s \<and> rs_x s' = rs_x s \<and> rs_last s' = rs_last s"

lemma read_data_keeps: "no_overflow (same_place s) (read_data nb opcode s)"
  by (cases "rs_input s") (auto simp: same_place_def read_data_def next_byte_def next_pixel_def assertR_def bindR_def split: list.splits)

lemma body_pixel_keeps: "no_overflow (\<lambda>(v, s'). same_place s s') (body_pixel c opcode s)"
  by (cases "rs_input s") (auto simp: same_place_def body_pixel_def Let_def next_byte_def next_pixel_def assertR_def bindR_def)

lemma run_body_inside:
  assumes c: "rle_image_ok c cy"
  shows "writes_inside c cy s \<Longrightarrow> no_overflow (\<lambda>r. case r of Inl s' \<Rightarrow> writes_inside c cy s' | Inr s' \<Rightarrow> writes_inside c cy s') (run_body c opcode count started s)"
proof (induction count arbitrary: started s)
  case (Suc count)
  show ?case
  proof (cases "ri_len c \<le> length (rs_out s)")
    case False
    have "no_overflow (\<lambda>r. case r of Inl s' \<Rightarrow> writes_inside c cy s' | Inr s' \<Rightarrow> writes_inside c cy s')
        (bindR (body_pixel c opcode s) (\<lambda>(v, s). bindR (put_pixel c v s) (\<lambda>s. run_body c opcode count True s)))"
    proof (rule no_overflow_bind [OF body_pixel_keeps], clarify)
      fix v s1 assume "same_place s s1"
      with Suc.prems False have "line_ok c s1" "length (rs_out s1) < ri_len c" by (auto simp: writes_inside_def line_ok_def same_place_def)
      from put_pixel_inside [OF c this] Suc.IH
      show "no_overflow (\<lambda>r. case r of Inl s' \<Rightarrow> writes_inside c cy s' | Inr s' \<Rightarrow> writes_inside c cy s')
        (bindR (put_pixel c v s1) (\<lambda>s. run_body c opcode count True s))" by (rule no_overflow_bind)
    qed
    with False show ?thesis by simp
  qed (use Suc.prems in simp)
qed simp

text \<open>At the top of the loop the image is not full, but for the empty image before its first order.\<close>

definition loop_ok :: "rle_image \<Rightarrow> nat \<Rightarrow> rle_state \<Rightarrow> bool" where
  "loop_ok c cy s \<longleftrightarrow> writes_inside c cy s \<and> (rs_last s = FILL \<longrightarrow> length (rs_out s) < ri_len c)"

lemma magic_mix_inside:
  assumes c: "rle_image_ok c cy" and s: "loop_ok c cy s"
  shows "no_overflow (\<lambda>(n, s'). writes_inside c cy s') (magic_mix c opcode count s)"
proof (cases "opcode = FILL \<and> opcode = rs_last s \<and> length (rs_out s) \<noteq> unat (ri_dst_cx c)")
  case True
  with s have "line_ok c s" "length (rs_out s) < ri_len c" by (auto simp: loop_ok_def writes_inside_def)
  from put_pixel_inside [OF c this] show ?thesis
    unfolding magic_mix_def if_P [OF True] by (rule no_overflow_bind) simp
next
  case False
  with s show ?thesis unfolding magic_mix_def if_not_P [OF False] by (simp add: loop_ok_def)
qed

lemma run_order_inside:
  assumes c: "rle_image_ok c cy" and s: "loop_ok c cy s"
  shows "no_overflow (\<lambda>r. case r of Inl (out, n) \<Rightarrow> length out \<le> ri_len c \<and> n \<le> len | Inr s' \<Rightarrow> loop_ok c cy s') (run_order c len s)"
  unfolding run_order_def
proof (rule no_overflow_bind [OF read_code_no_overflow], clarify, rule no_overflow_bind [OF read_data_keeps],
    rule no_overflow_bind [where P = "\<lambda>(n, s'). writes_inside c cy s'"])
  fix opcode count input s1
  assume "same_place (s\<lparr>rs_input := input\<rparr>) s1"
  with s have "loop_ok c cy s1" by (simp add: same_place_def loop_ok_def writes_inside_def line_ok_def)
  then show "no_overflow (\<lambda>(n, s'). writes_inside c cy s') (magic_mix c opcode count s1)" by (rule magic_mix_inside [OF c])
next
  fix opcode and p :: "nat \<times> rle_state"
  assume p: "case p of (n, s') \<Rightarrow> writes_inside c cy s'"
  obtain count s2 where s2: "p = (count, s2)" by (rule prod.exhaust)
  with p have w: "writes_inside c cy (s2\<lparr>rs_last := opcode\<rparr>)" by (simp add: writes_inside_def line_ok_def)
  show "no_overflow (\<lambda>r. case r of Inl (out, n) \<Rightarrow> length out \<le> ri_len c \<and> n \<le> len | Inr s' \<Rightarrow> loop_ok c cy s') (case p of (count, s2) \<Rightarrow>
     bindR (run_body c opcode count False (s2\<lparr>rs_last := opcode\<rparr>)) (\<lambda>r. case r of
       Inl s3 \<Rightarrow> Inr (Inl (rs_out s3, len - length (rs_input s)))
     | Inr s3 \<Rightarrow> Inr (if length (rs_out s3) = ri_len c
         then Inl (rs_out s3, if ri_adjust c then len - length (rs_input s3) else 0)
         else Inr s3)))"
    unfolding s2 prod.case
    by (rule no_overflow_bind [OF run_body_inside [OF c w]]) (auto simp: loop_ok_def writes_inside_def split: sum.splits)
qed

lemma run_orders_inside:
  shows "rle_image_ok c cy \<Longrightarrow> loop_ok c cy s \<Longrightarrow> no_overflow (\<lambda>(out, n). length out \<le> ri_len c \<and> n \<le> len) (run_orders c len s)"
proof (induction c len s rule: run_orders.induct)
  case (1 c len s)
  show ?case
  proof (cases "rs_input s = []")
    case True
    with "1.prems" show ?thesis by (subst run_orders.simps) (simp add: loop_ok_def writes_inside_def)
  next
    case False
    have "no_overflow (\<lambda>(out, n). length out \<le> ri_len c \<and> n \<le> len)
        (bindR (run_order c len s) (\<lambda>r. case r of Inl result \<Rightarrow> Inr result | Inr s' \<Rightarrow> run_orders c len s'))"
    proof (cases "run_order c len s")
      case (Inl e)
      with run_order_inside [OF "1.prems", of len] show ?thesis by simp
    next
      case (Inr r)
      with run_order_inside [OF "1.prems", of len] "1.IH" [OF False Inr] "1.prems"(1) show ?thesis by (cases r) auto
    qed
    with False show ?thesis by (subst run_orders.simps) simp
  qed
qed

text \<open>
  C32. The decoder writes only inside the image, whatever bytes it is given: an image wide enough for the lines
  of the bitmap is never written past its end, and the result has no more pixels than the image.
\<close>

theorem rle_decompress_writes_inside:
  assumes "0 < src_cx" "src_cx \<le> cx"
  shows "case rle_decompress bpp cx cy src_cx adjust input of
      Inl e \<Rightarrow> e \<noteq> UB_WRITE
    | Inr (out, n) \<Rightarrow> length out \<le> unat cx * unat cy \<and> n \<le> length input"
proof -
  let ?c = "\<lparr>ri_nb = rle_nb bpp, ri_dst_cx = cx, ri_src_cx = src_cx, ri_len = unat cx * unat cy, ri_adjust = adjust\<rparr>"
  have "rle_image_ok ?c (unat cy)" using assms by (simp add: rle_image_ok_def)
  moreover have "loop_ok ?c (unat cy) (rle_start input)"
    using assms by (simp add: loop_ok_def writes_inside_def line_ok_def rle_start_def)
  ultimately show ?thesis
    using run_orders_inside [of ?c "unat cy" "rle_start input" "length input"]
    by (auto simp: rle_decompress_def no_overflow_def split: sum.splits)
qed

lemma rle_decompress_writes_inside_witness:
  "case rle_decompress 8 4 1 2 True [0x65, 7, 0xFD] of
      Inl e \<Rightarrow> e \<noteq> UB_WRITE
    | Inr (out, n) \<Rightarrow> length out \<le> 4 \<and> n \<le> 3"
  using rle_decompress_writes_inside [where src_cx = 2 and cx = 4 and bpp = 8 and cy = 1 and adjust = True and input = "[0x65, 7, 0xFD]"] by (auto split: sum.splits)

subsection \<open>What the decoder reads\<close>

lemma run_body_copy_short:
  assumes "ri_src_cx c = ri_dst_cx c"
  shows "rle_image_ok c cy \<Longrightarrow> writes_inside c cy s \<Longrightarrow> length (rs_out s) + count \<le> ri_len c \<Longrightarrow> length (rs_input s) < count * ri_nb c
    \<Longrightarrow> run_body c COPY count started s = Inl UB"
proof (induction count arbitrary: started s)
  case (Suc count)
  have line: "line_ok c s" "length (rs_out s) < ri_len c" using Suc.prems by (simp_all add: writes_inside_def)
  show ?case
  proof (cases "ri_nb c \<le> length (rs_input s)")
    case False
    with line(2) show ?thesis by (simp add: body_pixel_def Let_def next_pixel_def)
  next
    case True
    define s1 where "s1 = s\<lparr>rs_input := drop (ri_nb c) (rs_input s)\<rparr>"
    let ?v = "pixel_of (take (ri_nb c) (rs_input s))"
    have body: "body_pixel c COPY s = Inr (?v, s1)" using True by (simp add: body_pixel_def Let_def next_pixel_def s1_def)
    have s1: "line_ok c s1" "length (rs_out s1) < ri_len c" using line by (simp_all add: s1_def line_ok_def)
    then obtain s2 where put: "put_pixel c ?v s1 = Inr s2"
      using assms by (cases "put_pixel c ?v s1") (auto simp: put_pixel_def Let_def split: if_splits)
    with put_pixel_inside [OF Suc.prems(1) s1, of ?v] have "writes_inside c cy s2" by simp
    moreover have "length (rs_out s2) = Suc (length (rs_out s))" "rs_input s2 = drop (ri_nb c) (rs_input s)"
      using put assms by (auto simp: put_pixel_def Let_def s1_def split: if_splits)
    ultimately have "run_body c COPY count True s2 = Inl UB" using Suc.prems True by (intro Suc.IH) auto
    with body put line(2) show ?thesis by simp
  qed
qed simp

text \<open>
  C33. The decoder does not look for the end of its input: a copy order with fewer bytes than its pixels take
  is not refused, it is read past the end of the data.
\<close>

theorem rle_copy_reads_past_end:
  assumes "0 < cx" "0 < n" "n < 32" "n \<le> unat cx * unat cy" "length bytes < n * rle_nb bpp"
  shows "rle_decompress bpp cx cy cx adjust ((0x80 OR of_nat n) # bytes) = Inl UB"
proof -
  let ?code = "0x80 OR of_nat n :: u8"
  let ?c = "\<lparr>ri_nb = rle_nb bpp, ri_dst_cx = cx, ri_src_cx = cx, ri_len = unat cx * unat cy, ri_adjust = adjust\<rparr>"
  let ?s = "rle_start (?code # bytes)"
  have code: "read_code (?code # bytes) = Inr ((COPY, n), bytes)" using read_code_short assms(2,3) by simp
  have c: "rle_image_ok ?c (unat cy)" by (simp add: rle_image_ok_def)
  have "run_body ?c COPY n False (?s\<lparr>rs_input := bytes, rs_last := COPY\<rparr>) = Inl UB"
    using assms by (intro run_body_copy_short [OF _ c]) (simp_all add: rle_start_def writes_inside_def line_ok_def)
  then have "run_order ?c (length (?code # bytes)) ?s = Inl UB"
    using code by (simp add: run_order_def read_data_def magic_mix_def rle_start_def)
  then show ?thesis by (simp add: rle_decompress_def run_orders.simps rle_start_def)
qed

lemma rle_copy_reads_past_end_witness: "rle_decompress 8 4 4 4 False [0x81] = Inl UB"
  using rle_copy_reads_past_end [of 4 1 4 "[]" 8 False] by (simp add: rle_nb_def)

subsection \<open>What is written stays\<close>

definition extends :: "u32 list \<Rightarrow> u32 list \<Rightarrow> bool" where
  "extends out out' \<longleftrightarrow> (\<exists>t. out' = out @ t)"

lemma extends_refl [simp]: "extends out out"
  by (simp add: extends_def)

lemma extends_trans: "extends a b \<Longrightarrow> extends b c \<Longrightarrow> extends a c"
  by (auto simp: extends_def)

lemma put_pixel_extends: "put_pixel c v s = Inr s' \<Longrightarrow> extends (rs_out s @ [take_bit (8 * ri_nb c) v]) (rs_out s')"
  by (auto simp: put_pixel_def Let_def extends_def split: if_splits)

lemma put_pixel_extends_old: "put_pixel c v s = Inr s' \<Longrightarrow> extends (rs_out s) (rs_out s')"
  using put_pixel_extends [of c v s s'] by (auto simp: extends_def)

lemma body_pixel_out: "body_pixel c opcode s = Inr (v, s') \<Longrightarrow> rs_out s' = rs_out s"
  using body_pixel_keeps [of s c opcode] by (simp add: same_place_def)

lemma run_body_extends:
  "run_body c opcode count started s = Inr r \<Longrightarrow> extends (rs_out s) (rs_out (case r of Inl s' \<Rightarrow> s' | Inr s' \<Rightarrow> s'))"
proof (induction count arbitrary: started s)
  case (Suc count)
  show ?case
  proof (cases "ri_len c \<le> length (rs_out s)")
    case False
    with Suc.prems obtain v s1 s2 where b: "body_pixel c opcode s = Inr (v, s1)" "put_pixel c v s1 = Inr s2"
      "run_body c opcode count True s2 = Inr r"
      by (auto simp: bindR_eq_Inr)
    from put_pixel_extends_old [OF b(2)] body_pixel_out [OF b(1)] Suc.IH [OF b(3)] show ?thesis by (metis extends_trans)
  qed (use Suc.prems in \<open>auto split: if_splits\<close>)
qed auto

lemma run_order_extends:
  assumes "run_order c len s = Inr r"
  shows "extends (rs_out s) (case r of Inl (out, n) \<Rightarrow> out | Inr s' \<Rightarrow> rs_out s')"
proof -
  obtain opcode count input s1 count' s2 q where run: "read_code (rs_input s) = Inr ((opcode, count), input)"
    "read_data (ri_nb c) opcode (s\<lparr>rs_input := input\<rparr>) = Inr s1" "magic_mix c opcode count s1 = Inr (count', s2)"
    "run_body c opcode count' False (s2\<lparr>rs_last := opcode\<rparr>) = Inr q"
    and r: "(case q of Inl s3 \<Rightarrow> Inr (Inl (rs_out s3, len - length (rs_input s)))
     | Inr s3 \<Rightarrow> Inr (if length (rs_out s3) = ri_len c
         then Inl (rs_out s3, if ri_adjust c then len - length (rs_input s3) else 0)
         else Inr s3)) = (Inr r :: ((u32 list \<times> nat) + rle_state) res)"
    using assms by (auto simp: run_order_def bindR_eq_Inr)
  have "extends (rs_out s1) (rs_out s2)"
    using run(3) by (auto simp: magic_mix_def bindR_eq_Inr dest: put_pixel_extends_old split: if_splits)
  moreover have "rs_out s1 = rs_out s" using read_data_keeps [of "s\<lparr>rs_input := input\<rparr>" "ri_nb c" opcode] run(2) by (simp add: same_place_def)
  ultimately have "extends (rs_out s) (rs_out s2)" by simp
  with run_body_extends [OF run(4)] have "extends (rs_out s) (rs_out (case q of Inl s' \<Rightarrow> s' | Inr s' \<Rightarrow> s'))"
    using extends_trans by simp
  with r show ?thesis by (auto split: sum.splits if_splits)
qed

lemma run_orders_extends: "run_orders c len s = Inr (out, n) \<Longrightarrow> extends (rs_out s) out"
proof (induction c len s rule: run_orders.induct)
  case (1 c len s)
  show ?case
  proof (cases "rs_input s = []")
    case True
    with 1(2) show ?thesis by (subst (asm) run_orders.simps) simp
  next
    case False
    with 1(2) obtain r where r: "run_order c len s = Inr r" "(case r of Inl result \<Rightarrow> Inr result | Inr s' \<Rightarrow> run_orders c len s') = Inr (out, n)"
      by (subst (asm) run_orders.simps) (auto simp: bindR_eq_Inr)
    from run_order_extends [OF r(1)] show ?thesis
      using r(2) 1(1) [OF False r(1)] extends_trans by (cases r) auto
  qed
qed

text \<open>A code that starts with 0x30 starts with a run of foreground: the first pixel is white, if there is one.\<close>

lemma starts_white:
  assumes "rle_decompress bpp cx cy src_cx False (0x30 # input) = Inr (out, n)"
  shows "\<exists>t. out = mask (8 * rle_nb bpp) # t"
proof -
  let ?c = "\<lparr>ri_nb = rle_nb bpp, ri_dst_cx = cx, ri_src_cx = src_cx, ri_len = unat cx * unat cy, ri_adjust = False\<rparr>"
  let ?s = "(rle_start (0x30 # input))\<lparr>rs_input := input, rs_last := MIX\<rparr>"
  have code: "read_code (0x30 # input) = Inr ((MIX, 16), input)" by (simp add: read_code_def next_byte_def Let_def)
  let ?rest = "\<lambda>r. case r of Inl result \<Rightarrow> Inr result | Inr s' \<Rightarrow> run_orders ?c (length (0x30 # input)) s'"
  have ne: "rs_input (rle_start (0x30 # input)) \<noteq> []" by (simp add: rle_start_def)
  have "bindR (run_order ?c (length (0x30 # input)) (rle_start (0x30 # input))) ?rest = Inr (out, n)"
    using assms unfolding rle_decompress_def run_orders.simps [of ?c _ "rle_start (0x30 # input)"] if_not_P [OF ne] .
  then obtain r where r: "run_order ?c (length (0x30 # input)) (rle_start (0x30 # input)) = Inr r" "?rest r = Inr (out, n)"
    unfolding bindR_eq_Inr by blast
  let ?fin = "\<lambda>q. (case q of Inl s3 \<Rightarrow> Inr (Inl (rs_out s3, 0))
    | Inr s3 \<Rightarrow> Inr (if length (rs_out s3) = unat cx * unat cy then Inl (rs_out s3, 0) else Inr s3)) :: ((u32 list \<times> nat) + rle_state) res"
  have "run_order ?c (length (0x30 # input)) (rle_start (0x30 # input)) = bindR (run_body ?c MIX 16 False ?s) ?fin"
    using code by (simp add: run_order_def read_data_def magic_mix_def rle_start_def del: run_body.simps cong: if_cong sum.case_cong)
  from this [symmetric] have "bindR (run_body ?c MIX 16 False ?s) ?fin = Inr r" unfolding r(1) .
  then obtain q where q: "run_body ?c MIX 16 False ?s = Inr q" "?fin q = Inr r" unfolding bindR_eq_Inr by blast
  have run: "run_body ?c MIX (Suc 15) False ?s = Inr q" using q(1) by (simp del: run_body.simps)
  then have "0 < unat cx" unfolding run_body.simps by (cases "unat cx = 0") (simp_all add: rle_start_def del: run_body.simps)
  then have body: "body_pixel ?c MIX ?s = Inr (0xFFFFFFFF, ?s)" by (simp add: body_pixel_def yprev_def pixel_above_def rle_start_def)
  from run have "bindR (put_pixel ?c 0xFFFFFFFF ?s) (\<lambda>s. run_body ?c MIX 15 True s) = Inr q"
    unfolding run_body.simps body by (simp del: run_body.simps split: if_splits)
  then obtain s2 where s2: "put_pixel ?c 0xFFFFFFFF ?s = Inr s2" "run_body ?c MIX 15 True s2 = Inr q" unfolding bindR_eq_Inr by blast
  have w: "take_bit (8 * rle_nb bpp) (0xFFFFFFFF :: u32) = mask (8 * rle_nb bpp)"
    by (simp add: rle_nb_def mask_eq_exp_minus_1)
  have "extends [mask (8 * rle_nb bpp)] (rs_out s2)" using put_pixel_extends [OF s2(1)] w by (simp add: rle_start_def)
  then have e: "extends [mask (8 * rle_nb bpp)] (rs_out (case q of Inl s' \<Rightarrow> s' | Inr s' \<Rightarrow> s'))"
    using run_body_extends [OF s2(2)] extends_trans by blast
  have "extends [mask (8 * rle_nb bpp)] out"
    using e q(2) r(2) run_orders_extends extends_trans by (auto split: sum.splits if_splits)
  then show ?thesis by (simp add: extends_def)
qed

subsection \<open>How often it turns\<close>

definition decoder_turn :: "rle_image \<Rightarrow> nat \<Rightarrow> rle_state \<Rightarrow> rle_state \<Rightarrow> bool" where
  "decoder_turn c len s s' \<longleftrightarrow> rs_input s \<noteq> [] \<and> run_order c len s = Inr (Inr s')"

text \<open>
  The decoder's loop takes at most one turn for each byte of its input: after \<open>n\<close> turns at least \<open>n\<close> bytes
  are used.
\<close>

theorem decoder_turns_bounded:
  assumes "(decoder_turn c len ^^ n) s s'"
  shows "n + length (rs_input s') \<le> length (rs_input s)"
  using assms
proof (induction n arbitrary: s')
  case (Suc n)
  then obtain s1 where "(decoder_turn c len ^^ n) s s1" "decoder_turn c len s1 s'" by auto
  moreover from this have "length (rs_input s') < length (rs_input s1)" using run_order_shorter by (auto simp: decoder_turn_def)
  ultimately show ?case using Suc.IH [of s1] by linarith
qed simp

lemma decoder_turns_bounded_witness:
  "1 + length (rs_input ((rle_start [0xFD, 0xFD])\<lparr>rs_input := [0xFD], rs_out := [0xFF], rs_x := 1, rs_last := WHITE\<rparr>))
    \<le> length (rs_input (rle_start [0xFD, 0xFD]))"
proof (rule decoder_turns_bounded)
  let ?c = "\<lparr>ri_nb = 1, ri_dst_cx = 4, ri_src_cx = 4, ri_len = 8, ri_adjust = False\<rparr>"
  show "(decoder_turn ?c 2 ^^ 1) (rle_start [0xFD, 0xFD])
      ((rle_start [0xFD, 0xFD])\<lparr>rs_input := [0xFD], rs_out := [0xFF], rs_x := 1, rs_last := WHITE\<rparr>)"
    by (simp add: eq_OO decoder_turn_def rle_start_def run_order_def read_code_def next_byte_def read_data_def magic_mix_def
        body_pixel_def put_pixel_def Let_def take_bit_eq_mask mask_eq_exp_minus_1)
qed

end
