(* ===== verification/Bmp_Bytes.thy ===== *)
theory Bmp_Bytes
  imports Bmp_Orders_Read Secondary Rle_Safety
begin

text \<open>
  The bitmaps of a link over bytes: the messages of \<open>Bmp_Link\<close> written as secondary orders and read by the handler of
  \<open>Secondary\<close>.
\<close>

subsection \<open>The link over bytes\<close>

text \<open>A message of the sender as bytes: the bitmap order, if any, and what the \<open>MemBlt\<close> after it names. \<open>memo\<close> is the code kept with the bitmap.\<close>

fun message_bytes ::
  "(u8 list \<Rightarrow> u8 list) \<Rightarrow> u8 \<Rightarrow> nat \<Rightarrow> bool \<Rightarrow> bool \<Rightarrow> u8 list \<Rightarrow> bmp_order option \<times> u8 \<times> u16 \<Rightarrow> (u8 list option \<times> u8 \<times> u16) res" where
  "message_bytes sha session version use_comp compact memo (None, named) = Inr (None, named)"
| "message_bytes sha session version use_comp compact memo (Some ord, named) =
     bindR (emit_order sha session version use_comp compact ord memo) (\<lambda>(bs, _). Inr (Some bs, named))"

fun messages_bytes ::
  "(u8 list \<Rightarrow> u8 list) \<Rightarrow> u8 \<Rightarrow> nat \<Rightarrow> bool \<Rightarrow> bool \<Rightarrow> u8 list list \<Rightarrow> (bmp_order option \<times> u8 \<times> u16) list \<Rightarrow> (u8 list option \<times> u8 \<times> u16) list res" where
  "messages_bytes sha session version use_comp compact (memo # memos) (m # ms) =
     bindR (message_bytes sha session version use_comp compact memo m) (\<lambda>x.
     bindR (messages_bytes sha session version use_comp compact memos ms) (\<lambda>xs. Inr (x # xs)))"
| "messages_bytes sha session version use_comp compact memos ms = Inr []"

text \<open>The other end: a secondary order is processed, then the \<open>MemBlt\<close> takes its bitmap from the cache.\<close>

fun receive_bytes ::
  "(nat \<Rightarrow> u8 list) \<Rightarrow> u8 \<Rightarrow> color list \<Rightarrow> (u8 list \<Rightarrow> u8 list) \<Rightarrow> (u8 list option \<times> u8 \<times> u16) list \<Rightarrow> drawing_caches
    \<Rightarrow> (bitmap option list \<times> drawing_caches) res" where
  "receive_bytes alloc session palette sha [] dc = Inr ([], dc)"
| "receive_bytes alloc session palette sha ((m, cid, idx) # ms) dc =
     bindR (case m of None \<Rightarrow> Inr dc
        | Some bs \<Rightarrow> bindR (process_secondaries alloc session palette sha 1 (instream_of bs) dc) (\<lambda>(dc, _). Inr dc)) (\<lambda>dc.
     bindR (memblt_bitmap cid idx (dc_bitmaps dc)) (\<lambda>b.
     bindR (receive_bytes alloc session palette sha ms dc) (\<lambda>(bs, dc). Inr (b # bs, dc))))"

lemma secondary_of_order:
  assumes "is_order_of alloc session palette got bs"
  shows "process_secondary alloc session palette sha (InStream c (bs @ r)) dc
    = bindR (bmp_put sha (br_id got) (br_idx got) (br_bmp got) (br_key1 got) (br_key2 got) (dc_bitmaps dc))
        (\<lambda>bc. Inr (dc\<lparr>dc_bitmaps := bc\<rparr>, InStream (c @ bs) r))"
proof -
  obtain h data where h: "receive_secondary_header (InStream c (bs @ r)) = Inr (h, InStream (c @ take 5 bs) (data @ r))"
    "stype h \<in> {0, 2, 4, 5}" "unat (order_data_length h) = length data" "bs = take 5 bs @ data"
    "receive_bmp_order alloc session palette h (InStream (c @ take 5 bs) (data @ r)) = Inr (got, InStream (c @ bs) r)"
    using assms unfolding is_order_of_def by blast
  have off: "get_offset (InStream (c @ bs) r) = get_offset (InStream (c @ take 5 bs) (data @ r)) + length data"
    using arg_cong [OF h(4), of length] by (simp add: get_offset_def)
  show ?thesis
    unfolding process_secondary_def h(1) bindR_simps prod.case Let_def if_P [OF h(2)] process_bmp_order_def h(5) bindR_assoc h(3)
    by (rule arg_cong [of _ _ "bindR _"]) (simp add: off in_skip_bytes_def in_check_rem_def)
qed

lemma secondaries_of_order:
  assumes "is_order_of alloc session palette got bs"
  shows "process_secondaries alloc session palette sha 1 (instream_of (3 # bs)) dc
    = bindR (bmp_put sha (br_id got) (br_idx got) (br_bmp got) (br_key1 got) (br_key2 got) (dc_bitmaps dc))
        (\<lambda>bc. Inr (dc\<lparr>dc_bitmaps := bc\<rparr>, InStream (3 # bs) []))"
  using secondary_of_order [OF assms, of sha "[3]" "[]" dc]
  by (simp add: instream_of_def bindR_assoc One_nat_def)

lemma message_received:
  assumes m: "carries b m" and ok: "\<And>ord. fst m = Some ord \<Longrightarrow> order_ok session palette version ord"
    and memo: "memo_ok alloc session palette b memo" and alloc: "\<And>n. length (alloc n) = n"
    and rcv: "receive_bitmap sha m (dc_bitmaps dc) = Inr (x, r')"
  obtains bytes where "message_bytes sha session version use_comp compact memo m = Inr bytes"
    "receive_bytes alloc session palette sha (bytes # ms) dc
      = bindR (receive_bytes alloc session palette sha ms (dc\<lparr>dc_bitmaps := r'\<rparr>)) (\<lambda>(bs, dc). Inr (x # bs, dc))"
proof (cases m)
  case (fields mo cid idx)
  show ?thesis
  proof (cases mo)
    case None
    then have "memblt_bitmap cid idx (dc_bitmaps dc) = Inr x" "r' = dc_bitmaps dc" using rcv fields by (auto simp: bindR_eq_Inr)
    then show ?thesis using fields None by (intro that [of "(None, cid, idx)"]) simp_all
  next
    case (Some ord)
    have b: "bo_bmp ord = b" using m fields Some by (simp add: carries_def)
    obtain bs m' where e: "emit_order sha session version use_comp compact ord memo = Inr (3 # bs, bmp_size (bo_bmp ord) + 32)"
      "is_order_of alloc session palette (v2_received sha ord m') bs"
      using order_emitted [OF ok [of ord] memo [folded b] alloc] fields Some by (metis fst_conv)
    obtain r1 where r1: "process_bmpcache sha ord (bmp_key sha 0 ord) (bmp_key sha 1 ord) (dc_bitmaps dc) = Inr r1"
      "memblt_bitmap cid idx r1 = Inr x" "r' = r1"
      using rcv fields Some by (auto simp: bindR_eq_Inr)
    have "process_secondaries alloc session palette sha 1 (instream_of (3 # bs)) dc = Inr (dc\<lparr>dc_bitmaps := r1\<rparr>, InStream (3 # bs) [])"
      using r1(1) unfolding secondaries_of_order [OF e(2)] by (simp add: v2_received_def process_bmpcache_def)
    then have "receive_bytes alloc session palette sha ((Some (3 # bs), cid, idx) # ms) dc
      = bindR (receive_bytes alloc session palette sha ms (dc\<lparr>dc_bitmaps := r'\<rparr>)) (\<lambda>(bs, dc). Inr (x # bs, dc))"
      using r1(2,3) by simp
    moreover have "message_bytes sha session version use_comp compact memo m = Inr (Some (3 # bs), cid, idx)"
      using fields Some e(1) by simp
    ultimately show ?thesis by (rule that [rotated])
  qed
qed

lemma messages_received:
  assumes "list_all2 carries bs ms" "\<forall>ord named. (Some ord, named) \<in> set ms \<longrightarrow> order_ok session palette version ord"
    and "list_all2 (memo_ok alloc session palette) bs memos" and alloc: "\<And>n. length (alloc n) = n"
    and "receive_bitmaps sha ms (dc_bitmaps dc) = Inr (map Some bs, r')"
  shows "\<exists>xs. messages_bytes sha session version use_comp compact memos ms = Inr xs
    \<and> receive_bytes alloc session palette sha xs dc = Inr (map Some bs, dc\<lparr>dc_bitmaps := r'\<rparr>)"
  using assms(1-3,5)
proof (induction ms arbitrary: bs memos dc rule: list.induct)
  case Nil
  then show ?case by simp
next
  case (Cons m ms)
  from Cons.prems(1,3) obtain b bs' memo memos' where l: "bs = b # bs'" "memos = memo # memos'" "carries b m" "list_all2 carries bs' ms"
    "memo_ok alloc session palette b memo" "list_all2 (memo_ok alloc session palette) bs' memos'"
    by (auto simp: list_all2_Cons2 list_all2_Cons1)
  from Cons.prems(4) l(1) obtain r1 where r1: "receive_bitmap sha m (dc_bitmaps dc) = Inr (Some b, r1)"
    "receive_bitmaps sha ms r1 = Inr (map Some bs', r')"
    by (auto simp: bindR_eq_Inr)
  have okm: "\<And>ord. fst m = Some ord \<Longrightarrow> order_ok session palette version ord"
    using Cons.prems(2) by (metis list.set_intros(1) prod.collapse)
  have okms: "\<forall>ord named. (Some ord, named) \<in> set ms \<longrightarrow> order_ok session palette version ord" using Cons.prems(2) by auto
  let ?dc = "dc\<lparr>dc_bitmaps := r1\<rparr>"
  from Cons.IH [OF l(4) okms l(6), of ?dc] r1(2) obtain xs where
    xs: "messages_bytes sha session version use_comp compact memos' ms = Inr xs"
      "receive_bytes alloc session palette sha xs ?dc = Inr (map Some bs', ?dc\<lparr>dc_bitmaps := r'\<rparr>)" by auto
  obtain x where x: "message_bytes sha session version use_comp compact memo m = Inr x"
    "receive_bytes alloc session palette sha (x # xs) dc
      = bindR (receive_bytes alloc session palette sha xs ?dc) (\<lambda>(bs, dc). Inr (Some b # bs, dc))"
    by (rule message_received [OF l(3) okm l(5) alloc r1(1)])
  show ?case unfolding l(1,2) using x xs by (intro exI [of _ "x # xs"]) simp
qed

subsection \<open>Properties\<close>

text \<open>
  C38. What \<open>emit_bmp_cache\<close> writes for an order its revision can carry (\<open>order_ok\<close>: in a depth of the session with its palette, opaque if
  32-bit, below 16384 bytes in the second revision), raw or coded, with a code made now or a kept one that decodes to the bitmap in this
  session (\<open>memo_ok\<close>; \<open>planar_code_reused\<close> shows one that does not), fits the bytes reserved for it, and the receiver reads from
  it exactly the cache, the index, the bitmap and the keys of the order.
\<close>

theorem bitmap_order_round_trip:
  assumes "order_ok session palette version ord" "memo_ok alloc session palette (bo_bmp ord) memo" "\<And>n. length (alloc n) = n"
  shows "\<exists>bs. emit_order sha session version use_comp compact ord memo = Inr (3 # bs, bmp_size (bo_bmp ord) + 32)
    \<and> length (3 # bs) \<le> bmp_size (bo_bmp ord) + 32
    \<and> (\<forall>c r dc. process_secondary alloc session palette sha (InStream c (bs @ r)) dc
        = bindR (process_bmpcache sha ord (bmp_key sha 0 ord) (bmp_key sha 1 ord) (dc_bitmaps dc))
            (\<lambda>bc. Inr (dc\<lparr>dc_bitmaps := bc\<rparr>, InStream (c @ bs) r)))"
proof (rule order_emitted [OF assms, of sha use_comp compact])
  fix bs m
  assume e: "emit_order sha session version use_comp compact ord memo = Inr (3 # bs, bmp_size (bo_bmp ord) + 32)"
    "length (3 # bs) \<le> bmp_size (bo_bmp ord) + 32" "is_order_of alloc session palette (v2_received sha ord m) bs"
  show ?thesis
    using e(1,2) secondary_of_order [OF e(3), where sha = sha]
    by (intro exI [of _ bs]) (simp add: v2_received_def process_bmpcache_def)
qed

text \<open>
  C8. Bitmaps that the second revision can carry (\<open>travels\<close>: below 16384 bytes, in a depth of the session with its palette, opaque if
  32-bit), drawn in whatever order, sent as its bitmap orders, raw or coded, with codes made now or kept ones that decode to their bitmap
  in this session (\<open>memo_ok\<close>): the receiver that reads the bytes draws each with a bitmap of its hash, and the caches stay mirrored.
\<close>

theorem bitmaps_travel:
  assumes ok: "bmp_ok sha s" "mirror s (dc_bitmaps dc)"
    and drawn: "list_all2 (\<lambda>old bmp. convert_bitmap (bc_bpp s) old = Inr bmp \<and> cache_for (bmp_size bmp) s \<noteq> None) olds bmps"
    and wire: "2 \<le> version" "\<forall>b. b \<in> set bmps \<or> held b s \<longrightarrow> travels session palette version b" "\<And>n. length (alloc n) = n"
  shows "\<exists>ms s' bs r'. send_bitmaps sha olds s = Inr (ms, s') \<and> map (compute_sha1 sha) bs = map (compute_sha1 sha) bmps
    \<and> (\<forall>memos. list_all2 (memo_ok alloc session palette) bs memos \<longrightarrow>
        (\<exists>xs. messages_bytes sha session version use_comp compact memos ms = Inr xs
          \<and> receive_bytes alloc session palette sha xs dc = Inr (map Some bs, dc\<lparr>dc_bitmaps := r'\<rparr>)))
    \<and> bmp_ok sha s' \<and> mirror s' r'"
proof -
  obtain ms s' bs r' where m: "send_bitmaps sha olds s = Inr (ms, s')" "receive_bitmaps sha ms (dc_bitmaps dc) = Inr (map Some bs, r')"
    "map (compute_sha1 sha) bs = map (compute_sha1 sha) bmps" "bmp_ok sha s'" "mirror s' r'" "list_all2 carries bs ms"
    "\<forall>b\<in>set bs. b \<in> set bmps \<or> held b s"
    using bitmaps_mirrored [OF ok drawn] by blast
  have "order_ok session palette version ord" if asm: "(Some ord, named) \<in> set ms" for ord named
  proof -
    obtain i where i: "i < length ms" "ms ! i = (Some ord, named)" using asm unfolding in_set_conv_nth by blast
    have "carries (bs ! i) (Some ord, named)" "bs ! i \<in> set bs"
      using list_all2_nthD2 [OF m(6) i(1)] list_all2_lengthD [OF m(6)] i by auto
    then show ?thesis using wire(1,2) m(7) by (auto simp: carries_def order_ok_def)
  qed
  then show ?thesis
    using messages_received [OF m(6) _ _ wire(3) m(2)] m(1,3,4,5) by blast
qed

definition sample_alloc :: "nat \<Rightarrow> u8 list" where
  "sample_alloc n = replicate n 0"

lemma sample_bitmap16_travels: "travels 16 [] 2 sample_bitmap16"
proof -
  have p: "bitmap_pixels (rle_nb 16) sample_bitmap16 = [0xF81F, 0x7E0, 0x1234, 0xFFFF]" by code_simp
  have l: "length (rle_compress 16 4 [0xF81F, 0x7E0, 0x1234, 0xFFFF]) = 8" by code_simp
  have "bm_bpp sample_bitmap16 = 16" "bm_cx sample_bitmap16 = 4" by (simp_all add: sample_bitmap16_def)
  then have "code_fits 16 sample_bitmap16" using p l by (simp add: code_fits_def compress_def planar_depth_def Let_def)
  then show ?thesis
    by (simp add: travels_def codable_def opaque_def sample_bitmap16_def bitmap_ok_def normalized_bpp_def bmp_size_def line_size_def nb_bytes_per_pixel_def)
qed

lemma bitmap_order_round_trip_witness:
  "\<exists>bs. emit_order id 16 2 True True \<lparr>bo_id = 1, bo_idx = 200, bo_bmp = sample_bitmap16, bo_persistent = True, bo_do_not_cache = False\<rparr> []
      = Inr (3 # bs, bmp_size (bo_bmp \<lparr>bo_id = 1, bo_idx = 200, bo_bmp = sample_bitmap16, bo_persistent = True, bo_do_not_cache = False\<rparr>) + 32)"
  using bitmap_order_round_trip [of 16 "[]" 2 "\<lparr>bo_id = 1, bo_idx = 200, bo_bmp = sample_bitmap16, bo_persistent = True, bo_do_not_cache = False\<rparr>"
      sample_alloc "[]" id True True] sample_bitmap16_travels
  by (auto simp: order_ok_def memo_ok_def wire_idx_def sample_alloc_def)

lemma bitmaps_travel_witness:
  "\<exists>ms s' bs r'. send_bitmaps sample_sha [sample_bitmap16, sample_bitmap16] (sample_cache Recorder True) = Inr (ms, s')
    \<and> map (compute_sha1 sample_sha) bs = map (compute_sha1 sample_sha) [sample_bitmap16, sample_bitmap16]
    \<and> (\<forall>memos. list_all2 (memo_ok sample_alloc 16 []) bs memos \<longrightarrow>
        (\<exists>xs. messages_bytes sample_sha 16 2 True True memos ms = Inr xs
          \<and> receive_bytes sample_alloc 16 [] sample_sha xs \<lparr>dc_bitmaps = sample_cache Mod_rdp False, dc_glyphs = mk_glyph_cache [], dc_tables = []\<rparr>
            = Inr (map Some bs, \<lparr>dc_bitmaps = r', dc_glyphs = mk_glyph_cache [], dc_tables = []\<rparr>)))
    \<and> bmp_ok sample_sha s' \<and> mirror s' r'"
proof -
  have "in_set k (sample_cache Recorder True) = {}" if "k < 3" for k
    using that by (auto simp: sample_cache_ok in_set_def mk_cache_def sample_options_def less_Suc_eq numeral_3_eq_3)
  then have "\<not> held b (sample_cache Recorder True)" for b by (simp add: held_def sample_cache_ok)
  then show ?thesis
    using bitmaps_travel [where sha = sample_sha and s = "sample_cache Recorder True" and version = 2 and session = 16 and palette = "[]"
          and dc = "\<lparr>dc_bitmaps = sample_cache Mod_rdp False, dc_glyphs = mk_glyph_cache [], dc_tables = []\<rparr>"
          and olds = "[sample_bitmap16, sample_bitmap16]" and bmps = "[sample_bitmap16, sample_bitmap16]"
          and alloc = sample_alloc and use_comp = True and compact = True]
      sample_cache_ok(1) sample_caches_mirrored sample_bitmap16_travels sample_bitmap_in_cache
    by (simp add: sample_alloc_def)
qed

text \<open>
  C35. The length of a bitmap of 16384 to 32767 bytes is lost in its 14 bits: what the receiver reads is 16384 less, so 0 for a tile
  of 64 x 64 pixels of 32 bits.
\<close>

theorem length_of_large_bitmap_lost:
  assumes "0x4000 \<le> n" "n < 0x8000"
  shows "\<exists>pre len post. v2_fields sha ord n = pre @ len @ post \<and> length len = 2
    \<and> in_4BUE (InStream pre (len @ post)) = Inr (of_nat (n - 0x4000), InStream (pre @ len) post)"
proof -
  define w where "w = (of_nat n OR 0x4000 :: u16)"
  have n: "uint (of_nat n :: u16) = int n" using assms by (simp add: unsigned_of_nat take_bit_nat_eq_self)
  have u: "unat (of_nat n :: u16) = n" using assms by (intro small_length) simp
  have four: "bit (0x4000 :: u16) k \<longleftrightarrow> k = 14" for k using bit_exp_iff [of 14 k, where 'a = u16] by auto
  have b15: "\<not> bit (of_nat n :: u16) k" if "15 \<le> k" for k
    using bit_below [of "of_nat n :: u16" k 15] that assms u by (auto simp: word_less_nat_alt)
  have b14: "bit (of_nat n :: u16) 14"
    using bit_top [of "of_nat n :: u16" 14] assms n by simp
  have w: "w = of_nat n" unfolding w_def by (rule bit_word_eqI) (use b14 in \<open>auto simp only: bit_or_iff four\<close>)
  have "bit w 14" "\<not> bit w 15" using b14 b15 w by auto
  note rd = dec_4BUE_two_bytes [OF this]
  have up: "unat (ucast x :: u32) = unat x" for x :: u16
    using unsigned_less [of x, where 'a = nat] by (simp add: unsigned_ucast_eq take_bit_nat_eq_self)
  have "unat (ucast (take_bit 14 w) :: u32) = n mod 2 ^ 14"
    unfolding w up unsigned_take_bit_eq u by (simp only: take_bit_eq_mod)
  also have "\<dots> = n - 0x4000" using assms by (simp add: mod_if)
  also have "\<dots> = unat (of_nat (n - 0x4000) :: u32)"
  proof -
    have "unat (of_nat k :: u32) = k" if "k < 0x4000" for k using that by (simp add: unat_of_nat take_bit_nat_eq_self)
    from this [of "n - 0x4000"] show ?thesis using assms by linarith
  qed
  finally have "ucast (take_bit 14 w) = (of_nat (n - 0x4000) :: u32)" by (simp only: word_unat_eq_iff)
  then show ?thesis
    using rd unfolding w_def
    by (intro exI [of _ "key_bytes sha ord @ bytes_2BUE (bm_cx (bo_bmp ord)) @ bytes_2BUE (bm_cy (bo_bmp ord))"]
        exI [of _ "bytes_uint16_be (of_nat n OR 0x4000)"] exI [of _ "bytes_2BUE (wire_idx ord)"])
      (simp add: v2_fields_def bytes_uint16_be_def)
qed

lemma length_of_large_bitmap_lost_witness:
  "\<exists>pre len post. v2_fields id \<lparr>bo_id = 1, bo_idx = 200, bo_bmp = sample_bitmap16, bo_persistent = False, bo_do_not_cache = False\<rparr> 0x4000
      = pre @ len @ post \<and> length len = 2
    \<and> in_4BUE (InStream pre (len @ post)) = Inr (0, InStream (pre @ len) post)"
  using length_of_large_bitmap_lost [where n = "0x4000" and sha = id and
      ord = "\<lparr>bo_id = 1, bo_idx = 200, bo_bmp = sample_bitmap16, bo_persistent = False, bo_do_not_cache = False\<rparr>"] by simp





text \<open>The encoder's codes are of this kind.\<close>

lemma encoder_code:
  assumes "compress 32 b [] = Inr (code, code')" "bm_bpp b = 24"
  shows "\<exists>planes. code = 0x30 # planes"
  using assms by (auto simp: compress_def planar_depth_def rle_compress60_def Let_def)


end
