(* ===== verification/Glyph_Link.thy ===== *)
theory Glyph_Link
  imports Glyph_Text Bmp_Bytes
begin

text \<open>
  The glyph caches of the two ends of a link: one glyph, one turn of the text loop and the whole loop, for which the stamps tell the entries
  a text has used (\<open>used_since\<close>), so that none of them is replaced before the text is sent; then the properties of glyphs and
  colour tables.
\<close>

subsection \<open>One glyph\<close>

text \<open>The two ends: the sender's cache in order, the receiver's with its rows, and the glyphs the same.\<close>

definition glyph_ends :: "bool \<Rightarrow> glyph_cache \<Rightarrow> glyph_cache \<Rightarrow> bool" where
  "glyph_ends recorder S R \<longleftrightarrow> glyph_cache_ok S \<and> glyphs_shaped R \<and> glyphs_mirrored recorder S R"

lemma mirrored_set:
  assumes "glyphs_mirrored recorder S R" "glyphs_shaped S" "glyphs_shaped S'" "c < 10" "i < 254"
    and "\<And>c' j. (c', j) \<noteq> (c, i) \<Longrightarrow> slot_at c' j S' = slot_at c' j S"
    and "\<And>c' j. (c', j) \<noteq> (c, i) \<Longrightarrow> slot_at c' j R' = slot_at c' j R"
    and "counted_on recorder (slot_at c i S') \<Longrightarrow> same_glyph (slot_at c i S') (slot_at c i R')"
  shows "glyphs_mirrored recorder S' R'"
  unfolding glyphs_mirrored_def
proof (intro allI impI)
  fix c' j
  assume l: "c' < 10" "j < 254" "counted_on recorder (slot_at c' j S')"
  show "same_glyph (slot_at c' j S') (slot_at c' j R')"
  proof (cases "(c', j) = (c, i)")
    case True
    with assms(8) l(3) show ?thesis by simp
  next
    case False
    with assms(1,6,7) l show ?thesis by (simp add: glyphs_mirrored_def)
  qed
qed

lemma add_glyph_cases:
  assumes ok: "glyph_cache_ok S" and cid: "unat cid < 10" and g: "glyph_ok g" and entries: "0 < unat (gc_entries S ! unat cid)"
    and stamp: "gc_stamp S < 0x7fffffff"
  obtains added i s S' where "add_glyph g cid S = Inr ((added, i), S')" "i < unat (gc_entries S ! unat cid)" "i < 254"
    "glyph_cache_ok S'" "gc_stamp S' = gc_stamp S + 1" "gc_entries S' = gc_entries S"
    "S' = set_slot (unat cid) i s (S\<lparr>gc_stamp := gc_stamp S + 1\<rparr>)" "gs_stamp s = gc_stamp S + 1"
    "if added then gs_item s = Some g \<and> gs_cached s \<and> (\<forall>j < unat (gc_entries S ! unat cid). gs_stamp (slot_at (unat cid) i S) \<le> gs_stamp (slot_at (unat cid) j S))
     else (\<exists>h. gs_item s = Some h \<and> gs_item (slot_at (unat cid) i S) = Some h \<and> font_item_equal h g) \<and> gs_cached s = gs_cached (slot_at (unat cid) i S)"
proof -
  let ?c = "unat cid" and ?n = "unat (gc_entries S ! unat cid)" and ?S = "S\<lparr>gc_stamp := gc_stamp S + 1\<rparr>"
  let ?row = "gc_glyphs S ! ?c"
  have sh: "glyphs_shaped S" using ok by (simp add: glyph_cache_ok_def)
  have n: "?n \<le> 254" by (rule cache_ok_entries [OF ok cid])
  then have len: "0 + ?n \<le> length ?row" using shaped_row [OF sh cid] by simp
  have slot: "?row ! j = slot_at ?c j S" for j by (simp add: slot_at_def)
  obtain r where r: "search_glyph g ?row 0 ?n 0x7fffffff 0 = Inr r"
    using search_glyph_total [OF len] by (cases "search_glyph g ?row 0 ?n 0x7fffffff 0") auto
  show ?thesis
  proof (cases r)
    case (Inl i)
    with search_glyph_found [of g ?row 0 ?n "0x7fffffff" 0 i] r n obtain h where
      i: "i < ?n" "gs_item (slot_at ?c i S) = Some h" "font_item_equal h g" by (auto simp: slot)
    let ?s = "(slot_at ?c i S)\<lparr>gs_stamp := gc_stamp S + 1\<rparr>"
    have "add_glyph g cid S = Inr ((False, i), set_slot ?c i ?s ?S)"
      using cid r Inl by (simp add: add_glyph_def Let_def)
    moreover have "glyph_cache_ok (set_slot ?c i ?s ?S)"
      using cache_ok_slot(2) [OF ok cid _ i(2)] i n by (intro cache_ok_set [OF ok]) simp_all
    ultimately show ?thesis using i n by (intro that [of False i _ ?s]) simp_all
  next
    case (Inr i)
    have st: "gs_stamp (slot_at ?c j S) < 0x7fffffff" if "j < ?n" for j
      using cache_ok_slot(1) [OF ok cid, of j] that n stamp by linarith
    from search_glyph_oldest [of g ?row 0 ?n "0x7fffffff" 0 i] r Inr st entries
    have i: "i < ?n" "\<forall>j < ?n. gs_stamp (slot_at ?c i S) \<le> gs_stamp (slot_at ?c j S)"
      by (auto simp: slot) (metis not_less)+
    let ?s = "\<lparr>gs_item = Some g, gs_stamp = gc_stamp S + 1, gs_cached = True\<rparr>"
    have "add_glyph g cid S = Inr ((True, i), set_slot ?c i ?s ?S)"
      using cid r Inr by (simp add: add_glyph_def Let_def)
    moreover have "glyph_cache_ok (set_slot ?c i ?s ?S)"
      using g by (intro cache_ok_set [OF ok]) auto
    ultimately show ?thesis using i n by (intro that [of True i _ ?s]) simp_all
  qed
qed

text \<open>
  What becomes of a glyph: afterwards both ends have it under the number given, which is the number of an entry; it is the
  youngest; nothing else has changed, and a glyph that had to go was the oldest.
\<close>

lemma use_glyph_mirrored:
  assumes ends: "glyph_ends recorder S R" and cid: "unat cid < 10" and g: "glyph_ok g"
    and entries: "0 < unat (gc_entries S ! unat cid)" and stamp: "gc_stamp S < 0x7fffffff"
  obtains i orders S' R' where "use_glyph recorder cid g S = Inr ((of_nat i, orders), S')"
    "i < unat (gc_entries S ! unat cid)" "i < 254" "glyph_ends recorder S' R'" "glyphs_taken orders R R'"
    "gc_stamp S' = gc_stamp S + 1" "gc_entries S' = gc_entries S"
    "\<And>j. j \<noteq> i \<Longrightarrow> slot_at (unat cid) j S' = slot_at (unat cid) j S" "gs_stamp (slot_at (unat cid) i S') = gc_stamp S + 1"
    "counted_on recorder (slot_at (unat cid) i S')"
    "\<exists>h. gs_item (slot_at (unat cid) i S') = Some h \<and> font_item_equal h g"
    "gs_item (slot_at (unat cid) i S') = gs_item (slot_at (unat cid) i S)
      \<or> (\<forall>j < unat (gc_entries S ! unat cid). gs_stamp (slot_at (unat cid) i S) \<le> gs_stamp (slot_at (unat cid) j S))"
    "\<forall>(bs, n) \<in> set orders. length bs = unat n"
proof -
  let ?c = "unat cid" and ?n = "unat (gc_entries S ! unat cid)"
  have ok: "glyph_cache_ok S" "glyphs_shaped S" and R: "glyphs_shaped R" "glyphs_mirrored recorder S R"
    using ends by (simp_all add: glyph_ends_def glyph_cache_ok_def)
  obtain added i s S1 where a: "add_glyph g cid S = Inr ((added, i), S1)" "i < ?n" "i < 254" "glyph_cache_ok S1"
    "gc_stamp S1 = gc_stamp S + 1" "gc_entries S1 = gc_entries S" "S1 = set_slot ?c i s (S\<lparr>gc_stamp := gc_stamp S + 1\<rparr>)"
    "gs_stamp s = gc_stamp S + 1"
    "if added then gs_item s = Some g \<and> gs_cached s \<and> (\<forall>j < ?n. gs_stamp (slot_at ?c i S) \<le> gs_stamp (slot_at ?c j S))
     else (\<exists>h. gs_item s = Some h \<and> gs_item (slot_at ?c i S) = Some h \<and> font_item_equal h g) \<and> gs_cached s = gs_cached (slot_at ?c i S)"
    by (rule add_glyph_cases [OF ok(1) cid g entries stamp])
  have at: "slot_at c' j S1 = (if c' = ?c \<and> j = i then s else slot_at c' j S)" for c' j
    unfolding a(7) using ok(2) cid a(3) by (simp add: slot_at_set)
  have idx: "unat (of_nat i :: u8) = i" using a(3) by (rule unat_index)
  obtain h where h: "gs_item s = Some h" "font_item_equal h g" using a(9) by (auto split: if_splits)
  have "glyph_ok h" using cache_ok_slot(2) [OF a(4) cid a(3)] h(1) at by simp
  then obtain R1 where r: "glyphs_taken [(emit_glyph_order cid (ucast (of_nat i :: u8)) h, total_order_size h)] R R1" "glyphs_shaped R1"
    "length (emit_glyph_order cid (ucast (of_nat i :: u8)) h) = unat (total_order_size h)"
    "gs_item (slot_at ?c i R1) = Some (h\<lparr>gl_incby := 0\<rparr>)" "\<And>c' j. (c', j) \<noteq> (?c, i) \<Longrightarrow> slot_at c' j R1 = slot_at c' j R"
    by (rule glyph_taken [OF _ cid a(3) R(1)]) blast
  have e: "emit_glyph_cache cid (of_nat i) S1 = Inr (emit_glyph_order cid (ucast (of_nat i :: u8)) h, total_order_size h)"
    if "slot_at ?c i S1 = s" for S1
    using cid a(3) h(1) that by (simp add: emit_glyph_cache_def idx)
  have same: "same_glyph t (slot_at ?c i R1)" if "gs_item t = Some h" for t
    using that r(4) by (simp add: same_glyph_def font_item_equal_def)
  note sh1 = a(4) [unfolded glyph_cache_ok_def, THEN conjunct1]
  have m1: "glyph_ends recorder S1 R1"
    unfolding glyph_ends_def using a(4) r(2) same [of s] h(1)
    by (auto intro!: mirrored_set [OF R(2) ok(2) sh1 cid a(3) _ r(5)] simp: at split: if_splits)
  show ?thesis
  proof (cases "added \<or> \<not> recorder \<or> gs_cached s")
    case True
    show ?thesis
    proof (cases added)
      case True
      with a(1) e [of S1] at have "use_glyph recorder cid g S = Inr ((of_nat i, [(emit_glyph_order cid (ucast (of_nat i :: u8)) h, total_order_size h)]), S1)"
        by (simp add: use_glyph_def Let_def)
      with True a m1 r h at show ?thesis by (intro that [of i "[(emit_glyph_order cid (ucast (of_nat i :: u8)) h, total_order_size h)]" S1 R1]) (simp_all add: counted_on_def)
    next
      case False
      with True a(1,3) cid at have "use_glyph recorder cid g S = Inr ((of_nat i, []), S1)"
        by (auto simp: use_glyph_def Let_def glyph_is_cached_def)
      moreover have "same_glyph s (slot_at ?c i R)" 
        using False True a(9) h(1) R(2) [unfolded glyphs_mirrored_def, rule_format, OF cid a(3)]
        by (auto simp: same_glyph_def counted_on_def)
      then have "glyph_ends recorder S1 R"
        unfolding glyph_ends_def using a(4) R(1) by (auto intro!: mirrored_set [OF R(2) ok(2) sh1 cid a(3)] simp: at split: if_splits)
      ultimately show ?thesis using False True a h at by (intro that [of i "[]" S1 R]) (auto simp: counted_on_def)
    qed
  next
    case False
    let ?S = "set_slot ?c i (s\<lparr>gs_cached := True\<rparr>) S1"
    have at2: "slot_at c' j ?S = (if c' = ?c \<and> j = i then s\<lparr>gs_cached := True\<rparr> else slot_at c' j S1)" for c' j
      using sh1 cid a(3) by (simp add: slot_at_set)
    have "use_glyph recorder cid g S = Inr ((of_nat i, [(emit_glyph_order cid (ucast (of_nat i :: u8)) h, total_order_size h)]), ?S)"
      using False a(1,3) e [of S1] at cid by (simp add: use_glyph_def Let_def glyph_is_cached_def glyph_set_cached_def)
    moreover have "glyph_cache_ok ?S" using a(5,8) \<open>glyph_ok h\<close> h(1) by (intro cache_ok_set_same [OF a(4)]) simp_all
    then have "glyph_ends recorder ?S R1"
      unfolding glyph_ends_def using r(2) same [of "s\<lparr>gs_cached := True\<rparr>"] h(1) sh1
      by (auto intro!: mirrored_set [OF R(2) ok(2) _ cid a(3) _ r(5)] simp: at at2 split: if_splits)
    ultimately show ?thesis using False a r h at at2 by (intro that [of i "[(emit_glyph_order cid (ucast (of_nat i :: u8)) h, total_order_size h)]" ?S R1]) (simp_all add: counted_on_def)
  qed
qed

subsection \<open>One turn of the loop\<close>

lemma unat_add_below: "unat i + n \<le> 255 \<Longrightarrow> unat (i + of_nat n) = unat i + n" for i :: u8
  by (simp add: unat_word_ariths unat_of_nat take_bit_nat_eq_self)

lemma delta_step:
  assumes "delta_ok delta d" "data = p @ d @ r" "length p = unat k" "unat k + length d \<le> 255"
  obtains k' where "(if delta then get_delta data k else Inr k) = Inr k'" "unat k' = unat k + length d"
proof (cases delta)
  case False
  with assms show ?thesis by (intro that [of k]) (simp_all add: delta_ok_def)
next
  case True
  show ?thesis
  proof (cases "hd d = 0x80")
    case asm: True
    with \<open>delta\<close> assms(1) have l: "length d = 3" "d \<noteq> []" by (auto simp: delta_ok_def)
    then have "data ! unat k = 0x80" using asm assms(2,3) by (cases d) (simp_all add: nth_append)
    moreover have "unat (k + 1) = unat k + 1" "unat (k + 3) = unat k + 3"
      using unat_add_below [of k 1] unat_add_below [of k 3] assms(4) l by simp_all
    ultimately show ?thesis using \<open>delta\<close> assms(4) l by (intro that [of "k + 3"]) (simp_all add: get_delta_def)
  next
    case asm: False
    with \<open>delta\<close> assms(1) have l: "length d = 1" "d \<noteq> []" by (auto simp: delta_ok_def)
    then have "data ! unat k \<noteq> 0x80" using asm assms(2,3) by (cases d) (simp_all add: nth_append)
    moreover have "unat (k + 1) = unat k + 1" using unat_add_below [of k 1] assms(4) l by simp
    ultimately show ?thesis using \<open>delta\<close> l by (intro that [of "k + 1"]) (simp_all add: get_delta_def)
  qed
qed

text \<open>What the entries of a text name: the glyph of the module, and afterwards the same one in the sender's cache.\<close>

fun named_as :: "bool \<Rightarrow> nat \<Rightarrow> glyph_cache \<Rightarrow> glyph_cache \<Rightarrow> text_entry \<Rightarrow> text_entry \<Rightarrow> bool" where
  "named_as recorder c M S (Glyph op d) (Glyph op' d') \<longleftrightarrow> d = d' \<and> unat op' < unat (gc_entries S ! c)
     \<and> same_glyph (slot_at c (unat op) M) (slot_at c (unat op') S) \<and> counted_on recorder (slot_at c (unat op') S)"
| "named_as recorder c M S e e' \<longleftrightarrow> e = e'"

lemma glyph_turn:
  assumes t: "tx_data t = pre @ (op # d) @ rest" "length pre = unat (tx_i t)" "unat (tx_i t) + length (op # d) \<le> 255"
    and e: "op \<le> 0xFD" "delta_ok delta d" and cid: "unat cid < 10" and fc: "gs_item (slot_at (unat cid) (unat op) M) = Some fc"
    and u: "use_glyph recorder cid fc (tx_cache t) = Inr ((idx, orders), S')"
  obtains k where "text_turn recorder delta cid data_len M t = Inr \<lparr>tx_data = pre @ (idx # d) @ rest, tx_i = k, tx_cache = S', tx_orders = tx_orders t @ orders\<rparr>"
    "unat k = unat (tx_i t) + length (op # d)"
proof -
  let ?data = "pre @ (idx # d) @ rest"
  have i: "unat (tx_i t + 1) = unat (tx_i t) + 1" using unat_add_below [of "tx_i t" 1] t(3) by simp
  have "tx_data t ! unat (tx_i t) = op" "(tx_data t)[unat (tx_i t) := idx] = ?data"
    unfolding t(1) t(2) [symmetric] by (simp_all add: nth_append)
  moreover obtain k where "(if delta then get_delta ?data (tx_i t + 1) else Inr (tx_i t + 1)) = Inr k" "unat k = unat (tx_i t + 1) + length d"
    by (rule delta_step [OF e(2), of ?data "pre @ [idx]" rest "tx_i t + 1"]) (use i t(2,3) in simp_all)
  ultimately show ?thesis
    using e(1) cid fc u i by (intro that [of k]) (simp_all add: text_turn_def Let_def split: if_splits)
qed

lemma use_turn:
  assumes t: "tx_data t = pre @ (0xFE # f # d) @ rest" "length pre = unat (tx_i t)" "unat (tx_i t) + length (0xFE # f # d) \<le> 255"
    and e: "delta_ok delta d"
  obtains k where "text_turn recorder delta cid data_len M t = Inr (t\<lparr>tx_i := k\<rparr>)" "unat k = unat (tx_i t) + length (0xFE # f # d)"
proof -
  have i: "unat (tx_i t + 2) = unat (tx_i t) + 2" using unat_add_below [of "tx_i t" 2] t(3) by simp
  have "tx_data t ! unat (tx_i t) = 0xFE" unfolding t(1) t(2) [symmetric] by (simp add: nth_append)
  moreover obtain k where "(if delta then get_delta (tx_data t) (tx_i t + 2) else Inr (tx_i t + 2)) = Inr k" "unat k = unat (tx_i t + 2) + length d"
    by (rule delta_step [OF e, of "tx_data t" "pre @ [0xFE, f]" rest "tx_i t + 2"]) (use i t in simp_all)
  ultimately show ?thesis using i by (intro that [of k]) (simp_all add: text_turn_def Let_def split: if_splits)
qed

lemma add_turn:
  assumes t: "tx_data t = pre @ [0xFF, f, sz] @ rest" "length pre = unat (tx_i t)" "unat (tx_i t) + 3 = unat data_len"
  shows "text_turn recorder delta cid data_len M t = Inr (t\<lparr>tx_i := data_len\<rparr>)"
proof -
  have "unat (tx_i t) + 3 \<le> 255" using t(3) unsigned_less [of data_len, where 'a = nat] by simp
  then have "unat (tx_i t + 3) = unat data_len" using unat_add_below [of "tx_i t" 3] t(3) by simp
  then have "tx_i t + 3 = data_len" by (simp only: word_unat_eq_iff)
  moreover have "tx_data t ! unat (tx_i t) = 0xFF" unfolding t(1) t(2) [symmetric] by (simp add: nth_append)
  ultimately show ?thesis by (simp add: text_turn_def Let_def)
qed

subsection \<open>The loop\<close>

text \<open>The entries used since a stamp, and entries that stay as they are.\<close>

definition used_since :: "nat \<Rightarrow> int \<Rightarrow> glyph_cache \<Rightarrow> nat set" where
  "used_since c s0 S = {j. j < unat (gc_entries S ! c) \<and> s0 < gs_stamp (slot_at c j S)}"

definition kept :: "bool \<Rightarrow> nat \<Rightarrow> nat set \<Rightarrow> glyph_cache \<Rightarrow> glyph_cache \<Rightarrow> bool" where
  "kept recorder c U S S' \<longleftrightarrow> gc_entries S' = gc_entries S \<and> (\<forall>j\<in>U. gs_item (slot_at c j S') = gs_item (slot_at c j S)
     \<and> (counted_on recorder (slot_at c j S) \<longrightarrow> counted_on recorder (slot_at c j S')))"

lemma kept_refl [simp]: "kept recorder c U S S"
  by (simp add: kept_def)

lemma kept_trans: "kept recorder c U S S' \<Longrightarrow> kept recorder c V S' S'' \<Longrightarrow> U \<subseteq> V \<Longrightarrow> kept recorder c U S S''"
  by (auto simp: kept_def)

lemma finite_used [simp]: "finite (used_since c s0 S)"
  by (simp add: used_since_def)

lemma named_kept:
  assumes "named_as recorder c M S (Glyph op d) (Glyph op' d')" "unat op' \<in> U" "kept recorder c U S S'"
  shows "named_as recorder c M S' (Glyph op d) (Glyph op' d')"
  using assms by (auto simp: kept_def same_glyph_def)

lemma full_used:
  assumes "\<forall>j < unat (gc_entries S ! c). s0 < gs_stamp (slot_at c j S)"
  shows "card (used_since c s0 S) = unat (gc_entries S ! c)"
proof -
  have "used_since c s0 S = {..<unat (gc_entries S ! c)}" using assms by (auto simp: used_since_def)
  then show ?thesis by simp
qed

lemma use_glyph_used:
  assumes "glyph_ends recorder S R" "unat cid < 10" "glyph_ok g" "gc_stamp S < 0x7fffffff" "s0 \<le> gc_stamp S"
    and room: "card (used_since (unat cid) s0 S) < unat (gc_entries S ! unat cid)"
  obtains i orders S' R' where "use_glyph recorder cid g S = Inr ((of_nat i, orders), S')" "glyph_ends recorder S' R'" "glyphs_taken orders R R'"
    "gc_stamp S' = gc_stamp S + 1" "gc_entries S' = gc_entries S" "used_since (unat cid) s0 S' = insert i (used_since (unat cid) s0 S)"
    "kept recorder (unat cid) (used_since (unat cid) s0 S) S S'" "i < 254" "i < unat (gc_entries S ! unat cid)"
    "counted_on recorder (slot_at (unat cid) i S')" "\<exists>h. gs_item (slot_at (unat cid) i S') = Some h \<and> font_item_equal h g"
    "\<forall>(bs, n) \<in> set orders. length bs = unat n"
proof -
  let ?c = "unat cid"
  have n: "0 < unat (gc_entries S ! ?c)" using room by simp
  obtain i orders S' R' where u: "use_glyph recorder cid g S = Inr ((of_nat i, orders), S')"
    "i < unat (gc_entries S ! ?c)" "i < 254" "glyph_ends recorder S' R'" "glyphs_taken orders R R'"
    "gc_stamp S' = gc_stamp S + 1" "gc_entries S' = gc_entries S"
    "\<And>j. j \<noteq> i \<Longrightarrow> slot_at ?c j S' = slot_at ?c j S" "gs_stamp (slot_at ?c i S') = gc_stamp S + 1"
    "counted_on recorder (slot_at ?c i S')" "\<exists>h. gs_item (slot_at ?c i S') = Some h \<and> font_item_equal h g"
    "gs_item (slot_at ?c i S') = gs_item (slot_at ?c i S)
      \<or> (\<forall>j < unat (gc_entries S ! ?c). gs_stamp (slot_at ?c i S) \<le> gs_stamp (slot_at ?c j S))"
    "\<forall>(bs, n) \<in> set orders. length bs = unat n"
    by (rule use_glyph_mirrored [OF assms(1-3) n assms(4)]) blast
  have "used_since ?c s0 S' = insert i (used_since ?c s0 S)"
  proof -
    have "s0 < gs_stamp (slot_at ?c j S') \<longleftrightarrow> j = i \<or> s0 < gs_stamp (slot_at ?c j S)" for j
      using u(8) [of j] u(9) assms(5) by (cases "j = i") simp_all
    then show ?thesis using u(2,7) by (auto simp: used_since_def)
  qed
  moreover have "gs_item (slot_at ?c i S') = gs_item (slot_at ?c i S)" if asm: "i \<in> used_since ?c s0 S"
  proof (rule ccontr)
    assume "\<not> ?thesis"
    with u(12) have "\<forall>j < unat (gc_entries S ! ?c). gs_stamp (slot_at ?c i S) \<le> gs_stamp (slot_at ?c j S)" by blast
    with asm have "\<forall>j < unat (gc_entries S ! ?c). s0 < gs_stamp (slot_at ?c j S)" by (fastforce simp: used_since_def)
    from full_used [OF this] room show False by simp
  qed
  then have "kept recorder ?c (used_since ?c s0 S) S S'" using u(7,8,10) unfolding kept_def by metis
  ultimately show ?thesis using u by (intro that [of i orders S' R'])
qed

lemma entries_ok_Cons: "entries_ok delta (e # es) \<longleftrightarrow> entry_ok delta e \<and> entries_ok delta es \<and> (es \<noteq> [] \<longrightarrow> \<not> is_add e)"
  by (auto simp: entries_ok_def)

definition text_shown :: "bool \<Rightarrow> nat \<Rightarrow> glyph_cache \<Rightarrow> text_state \<Rightarrow> glyph_cache \<Rightarrow> u8 list \<Rightarrow> text_entry list \<Rightarrow> u8 list \<Rightarrow> int \<Rightarrow> text_state \<Rightarrow> bool" where
  "text_shown recorder c M t R pre es post s0 t' \<longleftrightarrow> (\<exists>es' R' os.
     tx_data t' = pre @ concat (map entry_bytes es') @ post
     \<and> list_all2 (named_as recorder c M (tx_cache t')) es es' \<and> glyph_ends recorder (tx_cache t') R'
     \<and> tx_orders t' = tx_orders t @ os \<and> glyphs_taken os R R' \<and> (\<forall>(bs, n) \<in> set os. length bs = unat n)
     \<and> kept recorder c (used_since c s0 (tx_cache t)) (tx_cache t) (tx_cache t'))"

lemma text_shown_Cons:
  assumes "text_shown recorder c M t1 R1 (pre @ entry_bytes e') es post s0 t'"
    and "tx_orders t1 = tx_orders t @ os" "glyphs_taken os R R1" "\<forall>(bs, n) \<in> set os. length bs = unat n"
    and "kept recorder c (used_since c s0 (tx_cache t)) (tx_cache t) (tx_cache t1)"
    and "used_since c s0 (tx_cache t) \<subseteq> used_since c s0 (tx_cache t1)"
    and "\<And>S. kept recorder c (used_since c s0 (tx_cache t1)) (tx_cache t1) S \<Longrightarrow> named_as recorder c M S e e'"
  shows "text_shown recorder c M t R pre (e # es) post s0 t'"
proof -
  obtain es' R' os' where s: "tx_data t' = (pre @ entry_bytes e') @ concat (map entry_bytes es') @ post"
    "list_all2 (named_as recorder c M (tx_cache t')) es es'" "glyph_ends recorder (tx_cache t') R'"
    "tx_orders t' = tx_orders t1 @ os'" "glyphs_taken os' R1 R'" "\<forall>(bs, n) \<in> set os'. length bs = unat n"
    "kept recorder c (used_since c s0 (tx_cache t1)) (tx_cache t1) (tx_cache t')"
    using assms(1) unfolding text_shown_def by (elim exE conjE) (rule that)
  show ?thesis
    unfolding text_shown_def
    by (rule exI [of _ "e' # es'"], rule exI [of _ R'], rule exI [of _ "os @ os'"])
      (use s assms(2,4) glyphs_taken_append [OF assms(3) s(5)] kept_trans [OF assms(5) s(7) assms(6)] assms(7) [OF s(7)] in auto)
qed

lemma text_shown_Nil:
  "glyph_ends recorder (tx_cache t) R \<Longrightarrow> tx_data t = pre @ post \<Longrightarrow> text_shown recorder c M t R pre [] post s0 t"
  unfolding text_shown_def by (rule exI [of _ "[]"], rule exI [of _ R], rule exI [of _ "[]"]) simp

lemma text_loop_mirrored:
  assumes "entries_ok delta es" "tx_data t = pre @ concat (map entry_bytes es) @ post" "length pre = unat (tx_i t)"
    "unat (tx_i t) + length (concat (map entry_bytes es)) = unat data_len" "unat cid < 10"
    "\<forall>op \<in> set (concat (map entry_glyphs es)). \<exists>g. gs_item (slot_at (unat cid) (unat op) M) = Some g \<and> glyph_ok g"
    "glyph_ends recorder (tx_cache t) R" "gc_stamp (tx_cache t) + int (length (concat (map entry_glyphs es))) \<le> 0x7fffffff"
    "s0 \<le> gc_stamp (tx_cache t)" "length es < fuel"
    "card (used_since (unat cid) s0 (tx_cache t)) + length (concat (map entry_glyphs es)) \<le> unat (gc_entries (tx_cache t) ! unat cid)"
  shows "\<exists>t'. text_loop fuel recorder delta cid data_len M t = Some (Inr t') \<and> text_shown recorder (unat cid) M t R pre es post s0 t'"
  using assms
proof (induction es arbitrary: pre t R fuel)
  case Nil
  then have "\<not> tx_i t < data_len" by (simp add: word_less_nat_alt)
  with Nil show ?case by (cases fuel) (simp_all add: text_shown_Nil)
next
  case (Cons e es)
  let ?c = "unat cid"
  obtain n where fuel: "fuel = Suc n" "length es < n" using Cons.prems(10) by (cases fuel) auto
  have le: "unat (tx_i t) + length (entry_bytes e) \<le> 255" "tx_i t < data_len"
    using Cons.prems(4) unsigned_less [of data_len, where 'a = nat] by (cases e; simp add: word_less_nat_alt)+
  have data: "tx_data t = pre @ entry_bytes e @ (concat (map entry_bytes es) @ post)" using Cons.prems(2) by simp
  have ok: "entry_ok delta e" "entries_ok delta es" "es \<noteq> [] \<longrightarrow> \<not> is_add e" using Cons.prems(1) by (simp_all add: entries_ok_Cons)
  have go: "\<exists>t'. text_loop fuel recorder delta cid data_len M t = Some (Inr t') \<and> text_shown recorder ?c M t R pre (e # es) post s0 t'"
    if turn: "text_turn recorder delta cid data_len M t = Inr t1" "tx_data t1 = pre @ entry_bytes e' @ (concat (map entry_bytes es) @ post)"
        "length (entry_bytes e') = length (entry_bytes e)" "unat (tx_i t1) = unat (tx_i t) + length (entry_bytes e)"
      and ends: "glyph_ends recorder (tx_cache t1) R1" "gc_stamp (tx_cache t1) + int (length (concat (map entry_glyphs es))) \<le> 0x7fffffff"
        "s0 \<le> gc_stamp (tx_cache t1)" "gc_entries (tx_cache t1) = gc_entries (tx_cache t)"
        "card (used_since ?c s0 (tx_cache t1)) + length (concat (map entry_glyphs es)) \<le> unat (gc_entries (tx_cache t) ! ?c)"
      and rest: "tx_orders t1 = tx_orders t @ os" "glyphs_taken os R R1" "\<forall>(bs, n) \<in> set os. length bs = unat n"
        "kept recorder ?c (used_since ?c s0 (tx_cache t)) (tx_cache t) (tx_cache t1)"
        "used_since ?c s0 (tx_cache t) \<subseteq> used_since ?c s0 (tx_cache t1)"
        "\<And>S. kept recorder ?c (used_since ?c s0 (tx_cache t1)) (tx_cache t1) S \<Longrightarrow> named_as recorder ?c M S e e'"
    for t1 e' R1 os
  proof -
    have "\<exists>t'. text_loop n recorder delta cid data_len M t1 = Some (Inr t') \<and> text_shown recorder ?c M t1 R1 (pre @ entry_bytes e') es post s0 t'"
      by (rule Cons.IH) (use Cons.prems turn ends fuel ok in auto)
    with turn(1) le(2) fuel(1) text_shown_Cons [OF _ rest] show ?thesis by auto
  qed
  show ?case
  proof (cases e)
    case (Glyph op d)
    obtain fc where fc: "gs_item (slot_at ?c (unat op) M) = Some fc" "glyph_ok fc" using Cons.prems(6) Glyph by auto
    have st: "gc_stamp (tx_cache t) < 0x7fffffff" and room: "card (used_since ?c s0 (tx_cache t)) < unat (gc_entries (tx_cache t) ! ?c)"
      using Cons.prems(8,11) Glyph by simp_all
    obtain i os S' R1 where u: "use_glyph recorder cid fc (tx_cache t) = Inr ((of_nat i, os), S')" "glyph_ends recorder S' R1" "glyphs_taken os R R1"
      "gc_stamp S' = gc_stamp (tx_cache t) + 1" "gc_entries S' = gc_entries (tx_cache t)"
      "used_since ?c s0 S' = insert i (used_since ?c s0 (tx_cache t))"
      "kept recorder ?c (used_since ?c s0 (tx_cache t)) (tx_cache t) S'" "i < 254" "i < unat (gc_entries (tx_cache t) ! ?c)"
      "counted_on recorder (slot_at ?c i S')" "\<exists>h. gs_item (slot_at ?c i S') = Some h \<and> font_item_equal h fc"
      "\<forall>(bs, n) \<in> set os. length bs = unat n"
      by (rule use_glyph_used [OF Cons.prems(7,5) fc(2) st Cons.prems(9) room])
    have i: "unat (of_nat i :: u8) = i" by (rule unat_index [OF u(8)])
    obtain k where k: "text_turn recorder delta cid data_len M t
        = Inr \<lparr>tx_data = pre @ (of_nat i # d) @ (concat (map entry_bytes es) @ post), tx_i = k, tx_cache = S', tx_orders = tx_orders t @ os\<rparr>"
      "unat k = unat (tx_i t) + length (op # d)"
      by (rule glyph_turn [OF _ Cons.prems(3) _ _ _ Cons.prems(5) fc(1) u(1)]) (use data le ok Glyph in auto)
    have nm: "named_as recorder ?c M S' (Glyph op d) (Glyph (of_nat i) d)"
      using u(5,9,10,11) fc(1) i by (auto simp: same_glyph_def)
    have card: "card (used_since ?c s0 S') \<le> card (used_since ?c s0 (tx_cache t)) + 1"
      unfolding u(6) by (simp add: card_insert_if)
    have "named_as recorder ?c M S (Glyph op d) (Glyph (of_nat i) d)" if "kept recorder ?c (used_since ?c s0 S') S' S" for S
      by (rule named_kept [OF nm _ that]) (simp add: u(6) i)
    then show ?thesis
      by (intro go [OF k(1), of "Glyph (of_nat i) d" R1 os])
        (use u k Glyph card Cons.prems(8,9,11) in \<open>auto simp del: named_as.simps\<close>)
  next
    case (Use f d)
    obtain k where k: "text_turn recorder delta cid data_len M t = Inr (t\<lparr>tx_i := k\<rparr>)" "unat k = unat (tx_i t) + length (0xFE # f # d)"
      by (rule use_turn [OF _ Cons.prems(3)]) (use data le ok Use in auto)
    show ?thesis
      by (rule go [OF k(1), of "Use f d" R "[]"]) (use k data Use Cons.prems in auto)
  next
    case (Add f sz)
    then have "es = []" using ok(3) by (cases es) auto
    with Add Cons.prems(4) data have k: "text_turn recorder delta cid data_len M t = Inr (t\<lparr>tx_i := data_len\<rparr>)"
      by (intro add_turn [OF _ Cons.prems(3)]) auto
    show ?thesis
      by (rule go [OF k, of "Add f sz" R "[]"]) (use data Add Cons.prems \<open>es = []\<close> in auto)
  qed
qed

subsection \<open>The text of an order\<close>

text \<open>The entries of a text before and after: the glyph of the module, and the same glyph in the other end's cache.\<close>

fun shown_as :: "nat \<Rightarrow> glyph_cache \<Rightarrow> glyph_cache \<Rightarrow> text_entry \<Rightarrow> text_entry \<Rightarrow> bool" where
  "shown_as c M R (Glyph op d) (Glyph op' d') \<longleftrightarrow> d = d' \<and> same_glyph (slot_at c (unat op) M) (slot_at c (unat op') R)"
| "shown_as c M R e e' \<longleftrightarrow> e = e'"

lemma same_glyph_trans: "same_glyph s t \<Longrightarrow> same_glyph t r \<Longrightarrow> same_glyph s r"
  by (auto simp: same_glyph_def split: option.splits intro: font_item_equal_trans)

lemma named_shown:
  assumes "named_as recorder c M S e e'" "glyph_ends recorder S R" "c < 10"
  shows "shown_as c M R e e'"
proof (cases "\<exists>op d op' d'. e = Glyph op d \<and> e' = Glyph op' d'")
  case True
  then obtain op d op' d' where e: "e = Glyph op d" "e' = Glyph op' d'" by blast
  with assms have n: "unat op' < unat (gc_entries S ! c)" "same_glyph (slot_at c (unat op) M) (slot_at c (unat op') S)"
    "counted_on recorder (slot_at c (unat op') S)" "d = d'" by auto
  then have "unat op' < 254" using cache_ok_entries [of S c] assms(2,3) by (simp add: glyph_ends_def)
  then have "same_glyph (slot_at c (unat op') S) (slot_at c (unat op') R)"
    using assms(2,3) n(3) by (simp add: glyph_ends_def glyphs_mirrored_def)
  with n show ?thesis unfolding e by (auto intro: same_glyph_trans)
next
  case False
  with assms(1) show ?thesis by (cases e; cases e') auto
qed

lemma used_none:
  assumes "glyph_cache_ok S" "c < 10"
  shows "used_since c (gc_stamp S) S = {}"
proof -
  have "gs_stamp (slot_at c j S) \<le> gc_stamp S" if "j < unat (gc_entries S ! c)" for j
    using that cache_ok_entries [OF assms] by (intro cache_ok_slot(1) [OF assms]) simp
  then show ?thesis by (fastforce simp: used_since_def)
qed

lemma text_drawn:
  assumes "glyph_ends recorder S R" "entries_ok (has_delta_byte cmd) es" "unat (g_cache_id cmd) < 10"
    and data: "take (unat (g_data_len cmd)) (g_data cmd) = concat (map entry_bytes es)" "unat (g_data_len cmd) \<le> length (g_data cmd)"
    and "\<forall>op \<in> set (concat (map entry_glyphs es)). \<exists>g. gs_item (slot_at (unat (g_cache_id cmd)) (unat op) M) = Some g \<and> glyph_ok g"
    and "gc_stamp S + int (length (concat (map entry_glyphs es))) \<le> 0x7fffffff"
    and "length (concat (map entry_glyphs es)) \<le> unat (gc_entries S ! unat (g_cache_id cmd))"
    and fuel: "length es < fuel"
  shows "\<exists>es' S' R' orders. draw_text fuel recorder cmd M S
      = Some (Inr (cmd\<lparr>g_data := concat (map entry_bytes es') @ replicate (256 - unat (g_data_len cmd)) 0\<rparr>, S', orders))
    \<and> list_all2 (shown_as (unat (g_cache_id cmd)) M R') es es' \<and> glyphs_taken orders R R' \<and> glyph_ends recorder S' R'
    \<and> (\<forall>(bs, n) \<in> set orders. length bs = unat n)"
proof -
  let ?t = "text_start cmd S" and ?c = "unat (g_cache_id cmd)" and ?post = "replicate (256 - unat (g_data_len cmd)) (0 :: u8)"
  have len: "unat (g_data_len cmd) = length (concat (map entry_bytes es))" using arg_cong [OF data(1), of length] data(2) by simp
  have "\<exists>t'. text_loop fuel recorder (has_delta_byte cmd) (g_cache_id cmd) (g_data_len cmd) M ?t = Some (Inr t')
      \<and> text_shown recorder ?c M ?t R [] es ?post (gc_stamp S) t'"
    by (rule text_loop_mirrored)
      (use assms len used_none [of S ?c] in \<open>auto simp: text_start_def Let_def glyph_ends_def\<close>)
  then obtain t' es' R' os where t: "text_loop fuel recorder (has_delta_byte cmd) (g_cache_id cmd) (g_data_len cmd) M ?t = Some (Inr t')"
    "tx_data t' = concat (map entry_bytes es') @ ?post" "list_all2 (named_as recorder ?c M (tx_cache t')) es es'"
    "glyph_ends recorder (tx_cache t') R'" "tx_orders t' = os" "glyphs_taken os R R'" "\<forall>(bs, n) \<in> set os. length bs = unat n"
    unfolding text_shown_def by (auto simp: text_start_def Let_def)
  have "list_all2 (shown_as ?c M R') es es'"
    using t(3) named_shown [OF _ t(4) assms(3)] by (rule list_all2_mono)
  with t show ?thesis
    by (intro exI [of _ es'] exI [of _ "tx_cache t'"] exI [of _ R'] exI [of _ os]) (simp add: draw_text_def)
qed

subsection \<open>Properties\<close>

text \<open>
  C9. However a text uses the glyphs of the module, with distances and stored fragments between them: the serializer's loop ends, the
  orders it writes take the bytes reserved for them and are read by the other end, and there every new number names the glyph
  the module meant, while the two caches stay mirrored; provided the text has no more glyphs than the cache has entries.
\<close>

theorem glyphs_of_text_mirrored:
  assumes "glyph_ends recorder S (dc_glyphs dc)" "entries_ok (has_delta_byte cmd) es" "unat (g_cache_id cmd) < 10"
    and "take (unat (g_data_len cmd)) (g_data cmd) = concat (map entry_bytes es)" "unat (g_data_len cmd) \<le> length (g_data cmd)"
    and "\<forall>op \<in> set (concat (map entry_glyphs es)). \<exists>g. gs_item (slot_at (unat (g_cache_id cmd)) (unat op) M) = Some g \<and> glyph_ok g"
    and "gc_stamp S + int (length (concat (map entry_glyphs es))) \<le> 0x7fffffff"
    and "length (concat (map entry_glyphs es)) \<le> unat (gc_entries S ! unat (g_cache_id cmd))"
    and "length es < fuel"
  shows "\<exists>es' S' R' orders. draw_text fuel recorder cmd M S
      = Some (Inr (cmd\<lparr>g_data := concat (map entry_bytes es') @ replicate (256 - unat (g_data_len cmd)) 0\<rparr>, S', orders))
    \<and> list_all2 (shown_as (unat (g_cache_id cmd)) M R') es es' \<and> glyph_ends recorder S' R'
    \<and> (\<forall>(bs, n) \<in> set orders. length bs = unat n)
    \<and> process_secondaries alloc session palette sha (length orders) (InStream c (concat (map fst orders) @ r)) dc
        = Inr (dc\<lparr>dc_glyphs := R'\<rparr>, InStream (c @ concat (map fst orders)) r)"
proof -
  obtain es' S' R' orders where t: "draw_text fuel recorder cmd M S
      = Some (Inr (cmd\<lparr>g_data := concat (map entry_bytes es') @ replicate (256 - unat (g_data_len cmd)) 0\<rparr>, S', orders))"
    "list_all2 (shown_as (unat (g_cache_id cmd)) M R') es es'" "glyphs_taken orders (dc_glyphs dc) R'" "glyph_ends recorder S' R'"
    "\<forall>(bs, n) \<in> set orders. length bs = unat n"
    using text_drawn [OF assms] by (elim exE conjE) (rule that)
  then show ?thesis
    using t(3) [unfolded glyphs_taken_def, rule_format, OF refl, where alloc = alloc and session = session and palette = palette and sha = sha and c = c and r = r]
    by (intro exI [of _ es'] exI [of _ S'] exI [of _ R'] exI [of _ orders]) (rule conjI, assumption)+
qed

text \<open>
  C36. A glyph order is read back: the glyph, without its advance, is in the slot the order names and every other slot is as it was; for a
  cache or an index the array does not have, the handler writes outside of the array, since neither is checked.
\<close>

theorem glyph_order_received:
  assumes "glyph_ok g" "glyphs_shaped (dc_glyphs dc)"
  shows "\<exists>bs. emit_glyph_order cid idx g = 3 # bs \<and> length (3 # bs) = unat (total_order_size g)
    \<and> (if unat cid < 10 \<and> unat idx < 254
       then \<exists>gc. process_secondary alloc session palette sha (InStream c (bs @ r)) dc = Inr (dc\<lparr>dc_glyphs := gc\<rparr>, InStream (c @ bs) r)
         \<and> gs_item (slot_at (unat cid) (unat idx) gc) = Some (g\<lparr>gl_incby := 0\<rparr>)
         \<and> (\<forall>c' j. (c', j) \<noteq> (unat cid, unat idx) \<longrightarrow> slot_at c' j gc = slot_at c' j (dc_glyphs dc))
       else process_secondary alloc session palette sha (InStream c (bs @ r)) dc = Inl UB_WRITE)"
    (is "\<exists>bs. _ \<and> _ \<and> ?received bs")
proof -
  obtain bs where bs: "emit_glyph_order cid idx g = 3 # bs" "length (3 # bs) = unat (total_order_size g)"
    and read: "\<forall>alloc session palette sha c r dc. process_secondary alloc session palette sha (InStream c (bs @ r)) dc
      = bindR (glyph_received cid idx g (dc_glyphs dc)) (\<lambda>gc. Inr (dc\<lparr>dc_glyphs := gc\<rparr>, InStream (c @ bs) r))"
    using glyph_order_read [OF assms(1), of cid idx] by (elim exE conjE) (rule that)
  have "?received bs"
  proof (cases "unat cid < 10 \<and> unat idx < 254")
    case True
    then obtain gc where gc: "glyph_received cid idx g (dc_glyphs dc) = Inr gc"
      "gc = set_slot (unat cid) (unat idx) ((slot_at (unat cid) (unat idx) (dc_glyphs dc))\<lparr>gs_item := Some (g\<lparr>gl_incby := 0\<rparr>),
          gs_stamp := gc_stamp (dc_glyphs dc) + 1\<rparr>) ((dc_glyphs dc)\<lparr>gc_stamp := gc_stamp (dc_glyphs dc) + 1\<rparr>)"
      by (simp add: glyph_received_def set_glyph_def)
    show ?thesis
      using True gc(1) slot_at_set [of "(dc_glyphs dc)\<lparr>gc_stamp := gc_stamp (dc_glyphs dc) + 1\<rparr>" "unat cid" "unat idx"] assms(2)
      by (auto simp: read gc(2))
  next
    case False
    then show ?thesis by (auto simp: read glyph_received_def set_glyph_def)
  qed
  with bs show ?thesis by blast
qed

definition color_quads :: "color list \<Rightarrow> u8 list" where
  "color_quads cs = concat (map (\<lambda>c. bytes_uint8 (color_red c) @ bytes_uint8 (color_green c) @ bytes_uint8 (color_blue c) @ bytes_uint8 0) cs)"

lemma colors_read:
  assumes "list_all color_ok cs" "i + length cs \<le> length palette"
  shows "receive_colors i (length cs) (InStream c (color_quads cs @ r)) palette
    = Inr (take i palette @ cs @ drop (i + length cs) palette, InStream (c @ color_quads cs) r)"
  using assms
proof (induction cs arbitrary: i c palette)
  case (Cons x cs)
  then have x: "BGRColor (color_blue x) (color_green x) (color_red x) = x" by (simp add: BGRColor_id)
  have "receive_colors i (length (x # cs)) (InStream c (color_quads (x # cs) @ r)) palette
      = receive_colors (Suc i) (length cs) (InStream (c @ color_quads [x]) (color_quads cs @ r)) (palette[i := x])"
    using Cons.prems(2) x by (simp add: color_quads_def bytes_uint8_def One_nat_def)
  also have "\<dots> = Inr (take (Suc i) (palette[i := x]) @ cs @ drop (Suc i + length cs) (palette[i := x]), InStream ((c @ color_quads [x]) @ color_quads cs) r)"
    using Cons.prems by (intro Cons.IH) auto
  also have "take (Suc i) (palette[i := x]) @ cs @ drop (Suc i + length cs) (palette[i := x]) = take i palette @ (x # cs) @ drop (i + length (x # cs)) palette"
    using Cons.prems(2) by (simp add: take_Suc_conv_app_nth)
  finally show ?case by (simp add: color_quads_def)
qed (simp add: color_quads_def)

text \<open>
  C40. A colour table is read back as it was written: the entry it is for, and the 256 colours.
\<close>

theorem color_table_round_trip:
  assumes "length (ct_palette ct) = 256" "list_all color_ok (ct_palette ct)" "ct_cacheIndex ct < 6"
  shows "\<exists>bs. emit_color_table ct = 3 # bs \<and> process_secondary alloc session palette sha (InStream c (bs @ r)) dc
    = Inr (dc\<lparr>dc_tables := dc_tables dc @ [ct]\<rparr>, InStream (c @ bs) r)"
proof -
  define hd where "hd = bytes_uint16_le (1027 - 7) @ bytes_uint16_le 0 @ bytes_uint8 1"
  define bd where "bd = bytes_uint8 (ct_cacheIndex ct) @ bytes_uint16_le 256 @ color_quads (ct_palette ct)"
  have "emit_color_table ct = 3 # (hd @ bd)"
    by (simp add: emit_color_table_def hd_def bd_def bytes_uint8_def color_quads_def)
  moreover have "process_secondary alloc session palette sha (InStream c ((hd @ bd) @ r)) dc
    = Inr (dc\<lparr>dc_tables := dc_tables dc @ [ct]\<rparr>, InStream (c @ hd @ bd) r)"
  proof -
    let ?h = "\<lparr>order_length = 1027 - 7, sflags = 0, stype = 1\<rparr>"
    have "length (color_quads cs) = 4 * length cs" for cs
      by (induction cs) (simp_all add: color_quads_def bytes_uint8_def)
    then have len: "length bd = 1027" using assms(1) by (simp add: bd_def bytes_uint8_def bytes_uint16_le_def)
    have rh: "receive_secondary_header (InStream c (hd @ bd @ r)) = Inr (?h, InStream (c @ hd) (bd @ r))"
      by (simp add: receive_secondary_header_def hd_def read_fields)
    have "receive_color_table (InStream c (bd @ r)) = Inr (ct, InStream (c @ bd) r)" for c r
      using assms(3) colors_read [OF assms(2), of 0 classic_332] assms(1)
      by (simp add: receive_color_table_def bd_def read_fields classic_332_def)
    note rt = this
    have off: "get_offset (InStream (c @ hd @ bd) r) = get_offset (InStream (c @ hd) (bd @ r)) + length bd"
      by (simp add: get_offset_def)
    show ?thesis
      unfolding process_secondary_def append_assoc rh bindR_simps prod.case Let_def
      by (simp add: rt off len order_data_length_def in_skip_bytes_def in_check_rem_def get_offset_def)
  qed
  ultimately show ?thesis by (intro exI [of _ "hd @ bd"]) simp
qed

subsection \<open>Where it goes wrong\<close>

text \<open>A glyph of 8 x 4 pixels, a cache that has it as its first, and a text of 127 times this glyph, each 5 pixels behind the last, and its start once more.\<close>

definition sample_glyph :: glyph where
  "sample_glyph = \<lparr>gl_offsetx = 0, gl_offsety = -4, gl_incby = 9, gl_width = 8, gl_height = 4, gl_data = [1, 2, 3, 4]\<rparr>"

definition sample_glyphs :: glyph_cache where
  "sample_glyphs = set_slot 0 0 \<lparr>gs_item = Some sample_glyph, gs_stamp = 0, gs_cached = True\<rparr> (mk_glyph_cache (replicate 10 254))"

definition sample_text :: "u8 \<Rightarrow> u8 list \<Rightarrow> i16 \<Rightarrow> GlyphIndex" where
  "sample_text n data charinc = \<lparr>g_cache_id = 0, g_fl_accel = 0, g_ui_charinc = charinc, g_f_op_redundant = 0, g_back_color = 0, g_fore_color = 0,
     g_bk = \<lparr>rx = 0, ry = 0, rcx = 0, rcy = 0\<rparr>, g_op = \<lparr>rx = 0, ry = 0, rcx = 0, rcy = 0\<rparr>,
     g_brush = \<lparr>org_x = 0, org_y = 0, bstyle = 0, bhatch = 0, extra = replicate 7 0\<rparr>,
     g_glyph_x = 0, g_glyph_y = 0, g_data_len = n, g_data = data\<rparr>"

definition endless_text :: GlyphIndex where
  "endless_text = sample_text 255 (concat (replicate 127 [0, 5]) @ [0]) 0"

lemma shaped_mk [simp]: "glyphs_shaped (mk_glyph_cache entries)"
  by (simp add: glyphs_shaped_def mk_glyph_cache_def list_all_iff)

lemma slot_mk: "c < 10 \<Longrightarrow> i < 254 \<Longrightarrow> slot_at c i (mk_glyph_cache entries) = empty_slot"
  by (simp add: slot_at_def mk_glyph_cache_def)

lemma sample_slot: "gs_item (slot_at 0 0 sample_glyphs) = Some sample_glyph"
  by (simp add: sample_glyphs_def slot_at_set)

text \<open>A text cache whose first glyph is the one meant stays such a cache, and the glyph keeps its number.\<close>

definition first_glyph :: "glyph_cache \<Rightarrow> bool" where
  "first_glyph gc \<longleftrightarrow> glyphs_shaped gc \<and> gs_item (slot_at 0 0 gc) = Some sample_glyph \<and> 0 < unat (gc_entries gc ! 0)"

lemma first_glyph_used:
  assumes "first_glyph gc"
  obtains gc' where "use_glyph False 0 sample_glyph gc = Inr ((0, []), gc')" "first_glyph gc'"
proof -
  obtain n where n: "unat (gc_entries gc ! 0) = Suc n" using assms by (cases "unat (gc_entries gc ! 0)") (simp_all add: first_glyph_def)
  have row: "length (gc_glyphs gc ! 0) = 254" "gs_item (gc_glyphs gc ! 0 ! 0) = Some sample_glyph"
    using assms shaped_row [of gc 0] by (simp_all add: first_glyph_def slot_at_def)
  let ?gc = "gc\<lparr>gc_stamp := gc_stamp gc + 1\<rparr>"
  let ?gc' = "set_slot 0 0 ((slot_at 0 0 ?gc)\<lparr>gs_stamp := gc_stamp gc + 1\<rparr>) ?gc"
  have "add_glyph sample_glyph 0 gc = Inr ((False, 0), ?gc')"
    using n row by (simp add: add_glyph_def Let_def)
  then have "use_glyph False 0 sample_glyph gc = Inr ((0, []), ?gc')" by (simp add: use_glyph_def Let_def)
  moreover have "first_glyph ?gc'" using assms n by (simp add: first_glyph_def slot_at_set)
  ultimately show ?thesis by (rule that)
qed

definition endless_data :: "u8 list" where
  "endless_data = concat (replicate 127 [0, 5]) @ [0, 0]"

lemma endless_data_at:
  assumes "even k" "k < 256"
  shows "endless_data ! k = 0" "endless_data ! (k + 1) \<noteq> 0x80" "length endless_data = 256"
proof -
  have "list_all (\<lambda>k. endless_data ! (2 * k) = 0 \<and> endless_data ! (2 * k + 1) \<noteq> 0x80) [0..<128]" by code_simp
  then show "endless_data ! k = 0" "endless_data ! (k + 1) \<noteq> 0x80"
    using assms by (auto simp: list_all_iff elim!: evenE)
  show "length endless_data = 256" by code_simp
qed

lemma endless_turn:
  assumes "first_glyph (tx_cache t)" "tx_data t = endless_data" "even (unat (tx_i t))"
  obtains t' where "text_turn False True 0 255 sample_glyphs t = Inr t'" "first_glyph (tx_cache t')" "tx_data t' = endless_data" "even (unat (tx_i t'))"
proof -
  let ?i = "tx_i t"
  have lt: "unat ?i < 256" using unsigned_less [of ?i, where 'a = nat] by simp
  then have i1: "unat (?i + 1) = unat ?i + 1" using unat_add_below [of ?i 1] assms(3) by (cases "unat ?i = 255") auto
  note at = endless_data_at [OF assms(3) lt]
  obtain gc where gc: "use_glyph False 0 sample_glyph (tx_cache t) = Inr ((0, []), gc)" "first_glyph gc"
    by (rule first_glyph_used [OF assms(1)])
  have "endless_data[unat ?i := 0] = endless_data" using at(1) by (metis list_update_id)
  then have "text_turn False True 0 255 sample_glyphs t
      = Inr \<lparr>tx_data = endless_data, tx_i = ?i + 1 + 1, tx_cache = gc, tx_orders = tx_orders t\<rparr>"
    using at i1 gc(1) assms(2) sample_slot by (simp add: text_turn_def Let_def get_delta_def)
  moreover have "even (unat (?i + 1 + 1))"
  proof -
    have "unat (?i + 2) = (unat ?i + 2) mod 256" by (simp add: unat_word_ariths)
    then show ?thesis using assms(3) by (simp add: dvd_mod_iff add.assoc)
  qed
  ultimately show ?thesis
    using gc(2) by (intro that [of "\<lparr>tx_data = endless_data, tx_i = ?i + 1 + 1, tx_cache = gc, tx_orders = tx_orders t\<rparr>"]) simp_all
qed

lemma endless_loop:
  "first_glyph (tx_cache t) \<Longrightarrow> tx_data t = endless_data \<Longrightarrow> even (unat (tx_i t)) \<Longrightarrow>
    text_loop fuel False True 0 255 sample_glyphs t = None"
proof (induction fuel arbitrary: t)
  case (Suc n)
  have "unat (tx_i t) \<noteq> 255" using Suc.prems(3) by auto
  then have "tx_i t < 255" using unsigned_less [of "tx_i t", where 'a = nat] by (simp add: word_less_nat_alt)
  moreover obtain t' where "text_turn False True 0 255 sample_glyphs t = Inr t'" "first_glyph (tx_cache t')" "tx_data t' = endless_data"
    "even (unat (tx_i t'))" by (rule endless_turn [OF Suc.prems])
  ultimately show ?case using Suc.IH [of t'] by simp
qed simp

text \<open>
  C22. A text of 255 bytes whose last glyph has no distance behind it: the index, a byte, wraps to the beginning, and the loop goes on
  for ever, whatever the number of turns.
\<close>

theorem text_never_ends:
  "draw_text fuel False endless_text sample_glyphs sample_glyphs = None"
proof -
  have "first_glyph sample_glyphs"
    unfolding first_glyph_def by (intro conjI sample_slot) (simp_all add: sample_glyphs_def, simp add: mk_glyph_cache_def)
  moreover have "tx_data (text_start endless_text sample_glyphs) = endless_data"
    by code_simp
  ultimately have "text_loop fuel False True 0 255 sample_glyphs (text_start endless_text sample_glyphs) = None"
    by (intro endless_loop) (simp_all add: text_start_def Let_def)
  then show ?thesis by (simp add: draw_text_def has_delta_byte_def has_def endless_text_def sample_text_def)
qed

lemma search_glyph_absent:
  assumes "\<forall>j. i \<le> j \<and> j < length row \<longrightarrow> (case gs_item (row ! j) of None \<Rightarrow> True | Some h \<Rightarrow> \<not> font_item_equal h g)"
    and "i \<le> length row" "length row < i + n"
  shows "search_glyph g row i n old ci = Inl UB"
  using assms
proof (induction g row i n old ci rule: search_glyph.induct)
  case (2 g row i n old ci)
  then show ?case by (cases "i < length row") (auto split: option.splits)
qed simp

text \<open>
  C39. A cache with 255 entries, a number the client is free to announce, has one more than its array: a glyph that is not in it is looked
  for behind the end of the array.
\<close>

theorem glyph_looked_for_behind_array:
  assumes "unat cid < 10" "glyphs_shaped gc" "254 < unat (gc_entries gc ! unat cid)"
    and "\<forall>j < 254. case gs_item (slot_at (unat cid) j gc) of None \<Rightarrow> True | Some h \<Rightarrow> \<not> font_item_equal h g"
  shows "add_glyph g cid gc = Inl UB"
proof -
  have len: "length (gc_glyphs gc ! unat cid) = 254" by (rule shaped_row [OF assms(2,1)])
  have "search_glyph g (gc_glyphs gc ! unat cid) 0 (unat (gc_entries gc ! unat cid)) 0x7fffffff 0 = Inl UB"
    by (rule search_glyph_absent) (use len assms(3,4) in \<open>simp_all add: slot_at_def\<close>)
  then show ?thesis using assms(1) by (simp add: add_glyph_def Let_def)
qed

lemma glyph_looked_for_behind_array_witness:
  "add_glyph sample_glyph 0 (mk_glyph_cache (replicate 10 255)) = Inl UB"
  by (rule glyph_looked_for_behind_array) (simp_all add: slot_mk empty_slot_def, simp add: mk_glyph_cache_def)

lemma empty_caches: "glyph_ends False (mk_glyph_cache (replicate 10 254)) (mk_glyph_cache [])"
  unfolding glyph_ends_def
proof (intro conjI shaped_mk)
  show "glyph_cache_ok (mk_glyph_cache (replicate 10 254))"
    unfolding glyph_cache_ok_def by (intro conjI shaped_mk) (simp_all add: mk_glyph_cache_def list_all_iff empty_slot_def)
  show "glyphs_mirrored False (mk_glyph_cache (replicate 10 254)) (mk_glyph_cache [])"
    by (simp add: glyphs_mirrored_def slot_mk empty_slot_def counted_on_def)
qed

lemma sample_glyph_ok: "glyph_ok sample_glyph"
  by (simp add: glyph_ok_def sample_glyph_def nbbytes_def)

lemma glyphs_of_text_mirrored_witness:
  "\<exists>es' S' R' orders. draw_text 3 False (sample_text 2 [0, 0] 8) sample_glyphs (mk_glyph_cache (replicate 10 254))
      = Some (Inr ((sample_text 2 [0, 0] 8)\<lparr>g_data := concat (map entry_bytes es') @ replicate 254 0\<rparr>, S', orders))
    \<and> list_all2 (shown_as 0 sample_glyphs R') [Glyph 0 [], Glyph 0 []] es' \<and> glyph_ends False S' R'"
proof -
  let ?dc = "\<lparr>dc_bitmaps = sample_cache Mod_rdp False, dc_glyphs = mk_glyph_cache [], dc_tables = []\<rparr>"
  have "\<exists>es' S' R' orders. draw_text 3 False (sample_text 2 [0, 0] 8) sample_glyphs (mk_glyph_cache (replicate 10 254))
      = Some (Inr ((sample_text 2 [0, 0] 8)\<lparr>g_data := concat (map entry_bytes es') @ replicate (256 - unat (g_data_len (sample_text 2 [0, 0] 8))) 0\<rparr>, S', orders))
    \<and> list_all2 (shown_as (unat (g_cache_id (sample_text 2 [0, 0] 8))) sample_glyphs R') [Glyph 0 [], Glyph 0 []] es' \<and> glyph_ends False S' R'
    \<and> (\<forall>(bs, n) \<in> set orders. length bs = unat n)
    \<and> process_secondaries sample_alloc 16 [] id (length orders) (InStream [] (concat (map fst orders) @ [])) ?dc
        = Inr (?dc\<lparr>dc_glyphs := R'\<rparr>, InStream ([] @ concat (map fst orders)) [])"
    by (rule glyphs_of_text_mirrored)
      (use empty_caches sample_glyph_ok sample_slot in
        \<open>simp_all add: sample_text_def mk_glyph_cache_def entries_ok_def has_delta_byte_def delta_ok_def\<close>)
  then show ?thesis by (auto simp: sample_text_def)
qed

lemma glyph_order_received_witness:
  "\<exists>bs gc. emit_glyph_order 0 7 sample_glyph = 3 # bs
    \<and> process_secondary sample_alloc 16 [] id (InStream [] (bs @ [])) \<lparr>dc_bitmaps = sample_cache Mod_rdp False, dc_glyphs = mk_glyph_cache [], dc_tables = []\<rparr>
      = Inr (\<lparr>dc_bitmaps = sample_cache Mod_rdp False, dc_glyphs = gc, dc_tables = []\<rparr>, InStream ([] @ bs) [])"
  using glyph_order_received [OF sample_glyph_ok, of
      "\<lparr>dc_bitmaps = sample_cache Mod_rdp False, dc_glyphs = mk_glyph_cache [], dc_tables = []\<rparr>" 0 7 sample_alloc 16 "[]" id "[]" "[]"]
  by auto

lemma color_table_round_trip_witness:
  "\<exists>bs. emit_color_table \<lparr>ct_palette = replicate 256 0xFF8000, ct_cacheIndex = 5\<rparr> = 3 # bs"
proof -
  have "color_ok 0xFF8000" by code_simp
  then show ?thesis
    using color_table_round_trip [of "\<lparr>ct_palette = replicate 256 0xFF8000, ct_cacheIndex = 5\<rparr>" sample_alloc 16 "[]" id "[]" "[]"] by (auto simp: list_all_iff)
qed

end
