(* ===== verification/X224.thy ===== *)
theory X224
  imports Streams
begin

text \<open>
  The X.224 packets of the connection: \<open>Tpkt_Recv\<close> and the receive and send classes of connection request,
  connection confirm, disconnect request, error and data (\<open>core/RDP/x224.hpp\<close>). A receive class is the function
  from the stream of one packet to its fields; a send class gives the bytes it writes.
\<close>

abbreviation (input) TPKT_HEADER_LEN :: nat where "TPKT_HEADER_LEN \<equiv> 4"
abbreviation (input) EOT_EOT :: u8 where "EOT_EOT \<equiv> 0x80"
abbreviation (input) RDP_NEG_NONE :: u8 where "RDP_NEG_NONE \<equiv> 0"
abbreviation (input) RDP_NEG_REQ :: u8 where "RDP_NEG_REQ \<equiv> 1"
abbreviation (input) RDP_NEG_RSP :: u8 where "RDP_NEG_RSP \<equiv> 2"
abbreviation (input) RDP_NEG_FAILURE :: u8 where "RDP_NEG_FAILURE \<equiv> 3"
abbreviation (input) CORRELATION_INFO_PRESENT :: u8 where "CORRELATION_INFO_PRESENT \<equiv> 0x08"
abbreviation (input) RESTRICTED_ADMIN_MODE_REQUIRED :: u8 where "RESTRICTED_ADMIN_MODE_REQUIRED \<equiv> 0x01"
abbreviation (input) PROTOCOL_RDP :: u32 where "PROTOCOL_RDP \<equiv> 0"
abbreviation (input) PROTOCOL_TLS :: u32 where "PROTOCOL_TLS \<equiv> 1"
abbreviation (input) PROTOCOL_HYBRID :: u32 where "PROTOCOL_HYBRID \<equiv> 2"
abbreviation (input) SSL_REQUIRED_BY_SERVER :: u32 where "SSL_REQUIRED_BY_SERVER \<equiv> 1"
abbreviation (input) SSL_NOT_ALLOWED_BY_SERVER :: u32 where "SSL_NOT_ALLOWED_BY_SERVER \<equiv> 2"
abbreviation (input) SSL_CERT_NOT_ON_SERVER :: u32 where "SSL_CERT_NOT_ON_SERVER \<equiv> 3"
abbreviation (input) HYBRID_REQUIRED_BY_SERVER :: u32 where "HYBRID_REQUIRED_BY_SERVER \<equiv> 5"

abbreviation (input) CR_TPDU_code :: u8 where "CR_TPDU_code \<equiv> 0xE0"
abbreviation (input) CC_TPDU_code :: u8 where "CC_TPDU_code \<equiv> 0xD0"
abbreviation (input) DR_TPDU_code :: u8 where "DR_TPDU_code \<equiv> 0x80"
abbreviation (input) DT_TPDU_code :: u8 where "DT_TPDU_code \<equiv> 0xF0"
abbreviation (input) ER_TPDU_code :: u8 where "ER_TPDU_code \<equiv> 0x70"

subsection \<open>Headers\<close>

record tpkt =
  tpkt_version :: u8
  tpkt_len :: u16

text \<open>The number of bytes is narrowed to 16 bits.\<close>

definition Tpkt_Recv :: "instream \<Rightarrow> (tpkt \<times> instream) res" where
  "Tpkt_Recv s =
     (let len = of_nat (in_remain s) :: u16 in
      if len < 4 then Inl ERR_X224
      else bindR (in_uint8 s) (\<lambda>(version, s). bindR (in_skip_bytes 1 s) (\<lambda>(_, s). bindR (in_uint16_be s) (\<lambda>(n, s).
        if len < n then Inl ERR_X224 else Inr (\<lparr>tpkt_version = version, tpkt_len = n\<rparr>, s)))))"

text \<open>The header of seven bytes that connection requests, confirms and disconnect requests share.\<close>

record tpdu_header =
  th_LI :: u8
  th_code :: u8
  th_dst_ref :: u16
  th_src_ref :: u16
  th_option :: u8

definition tpdu_header_recv :: "u8 \<Rightarrow> instream \<Rightarrow> (tpdu_header \<times> instream) res" where
  "tpdu_header_recv expected s =
     (if \<not> in_check_rem s 7 then Inl ERR_X224
      else bindR (in_uint8 s) (\<lambda>(LI, s). bindR (in_uint8 s) (\<lambda>(code, s).
        if code \<noteq> expected then Inl ERR_X224
        else bindR (in_uint16_le s) (\<lambda>(dst, s). bindR (in_uint16_le s) (\<lambda>(src, s). bindR (in_uint8 s) (\<lambda>(opt, s).
          Inr (\<lparr>th_LI = LI, th_code = code, th_dst_ref = dst, th_src_ref = src, th_option = opt\<rparr>, s)))))))"

definition end_of_header :: "u8 \<Rightarrow> nat" where
  "end_of_header LI = TPKT_HEADER_LEN + unat LI + 1"

text \<open>The negotiation request, response or failure: type, flags, length and the protocols or code.\<close>

record rdp_neg =
  rdp_neg_type :: u8
  rdp_neg_flags :: u8
  rdp_neg_length :: u16
  rdp_neg_code :: u32

definition no_rdp_neg :: rdp_neg where
  "no_rdp_neg = \<lparr>rdp_neg_type = 0, rdp_neg_flags = 0, rdp_neg_length = 0, rdp_neg_code = 0\<rparr>"

definition rdp_neg_recv :: "instream \<Rightarrow> (rdp_neg \<times> instream) res" where
  "rdp_neg_recv s =
     bindR (in_uint8 s) (\<lambda>(ty, s). bindR (in_uint8 s) (\<lambda>(flags, s). bindR (in_uint16_le s) (\<lambda>(len, s). bindR (in_uint32_le s) (\<lambda>(code, s).
       Inr (\<lparr>rdp_neg_type = ty, rdp_neg_flags = flags, rdp_neg_length = len, rdp_neg_code = code\<rparr>, s)))))"

definition rdp_neg_send :: "u8 \<Rightarrow> u8 \<Rightarrow> u32 \<Rightarrow> u8 list" where
  "rdp_neg_send ty flags code =
     (if ty \<noteq> 0 then bytes_uint8 ty @ bytes_uint8 flags @ bytes_uint16_le 8 @ bytes_uint32_le code else [])"

definition neg_size :: "u8 \<Rightarrow> nat" where
  "neg_size ty = (if ty \<noteq> 0 then 8 else 0)"

subsection \<open>Connection request\<close>

text \<open>The cookie or token: from byte 11 to the first CR LF within the header.\<close>

fun find_crlf :: "u8 list \<Rightarrow> nat option" where
  "find_crlf (a # b # bs) = (if a = 0x0D \<and> b = 0x0A then Some 1 else map_option Suc (find_crlf (b # bs)))"
| "find_crlf _ = None"

definition CR_Cookie_Recv :: "nat \<Rightarrow> instream \<Rightarrow> (u8 list \<times> instream) res" where
  "CR_Cookie_Recv header_len s =
     (let len = (case find_crlf (drop (get_offset s) (take header_len (get_data s))) of
                   None \<Rightarrow> 0 | Some i \<Rightarrow> get_offset s + i - 11 + 1) in
      bindR (in_skip_bytes len s) (\<lambda>(_, s'). Inr (take len (drop 11 (get_data s)), s')))"

record cr_cinfo =
  ci_type :: u8
  ci_flags :: u8
  ci_length :: u16
  ci_correlationid :: "u8 list"
  ci_reserved :: "u8 list"

definition CR_Cinfo_Recv :: "u8 \<Rightarrow> instream \<Rightarrow> (cr_cinfo \<times> instream) res" where
  "CR_Cinfo_Recv flags s =
     (if has flags CORRELATION_INFO_PRESENT
      then bindR (in_uint8 s) (\<lambda>(ty, s). bindR (in_uint8 s) (\<lambda>(fl, s). bindR (in_uint16_le s) (\<lambda>(len, s).
           bindR (in_skip_bytes 16 s) (\<lambda>(corr, s). bindR (in_skip_bytes 16 s) (\<lambda>(res, s).
           Inr (\<lparr>ci_type = ty, ci_flags = fl, ci_length = len, ci_correlationid = corr, ci_reserved = res\<rparr>, s))))))
      else Inr (\<lparr>ci_type = 0, ci_flags = 0, ci_length = 0, ci_correlationid = replicate 16 0, ci_reserved = replicate 16 0\<rparr>, s))"

record cr_tpdu_data =
  cr_tpkt :: tpkt
  cr_header :: tpdu_header
  cr_header_size :: nat
  cr_cookie :: "u8 list"
  cr_neg :: rdp_neg
  cr_cinfo_data :: cr_cinfo

definition CR_TPDU_Data_Recv :: "instream \<Rightarrow> (cr_tpdu_data \<times> instream) res" where
  "CR_TPDU_Data_Recv s =
     bindR (Tpkt_Recv s) (\<lambda>(tpkt, s). bindR (tpdu_header_recv CR_TPDU_code s) (\<lambda>(header, s).
     let eoh = end_of_header (th_LI header) in
     if length (get_data s) < eoh then Inl ERR_X224
     else bindR (CR_Cookie_Recv eoh s) (\<lambda>(cookie, s).
       bindR (if get_offset s + 8 \<le> eoh
              then bindR (rdp_neg_recv s) (\<lambda>(neg, s). if rdp_neg_type neg \<noteq> RDP_NEG_REQ then Inl ERR_X224 else Inr (neg, s))
              else Inr (no_rdp_neg, s)) (\<lambda>(neg, s).
       bindR (CR_Cinfo_Recv (rdp_neg_flags neg) s) (\<lambda>(cinfo, s).
       if eoh \<noteq> get_offset s then Inl ERR_X224
       else Inr (\<lparr>cr_tpkt = tpkt, cr_header = header, cr_header_size = get_offset s, cr_cookie = cookie,
                 cr_neg = neg, cr_cinfo_data = cinfo\<rparr>, s))))))"

text \<open>\<open>cookie\<close> is the C string without its zero; the length indicator and the length are narrowed to 8 and 16 bits.\<close>

definition CR_TPDU_Send :: "u8 list \<Rightarrow> u8 \<Rightarrow> u8 \<Rightarrow> u32 \<Rightarrow> u8 list" where
  "CR_TPDU_Send cookie ty flags protocols =
     (let len = 11 + length cookie + neg_size ty in
      bytes_uint8 3 @ bytes_uint8 0 @ bytes_uint16_be (of_nat len) @ bytes_uint8 (of_nat (len - 5)) @
      bytes_uint8 CR_TPDU_code @ bytes_uint16_be 0 @ bytes_uint16_be 0 @ bytes_uint8 0 @
      cookie @ rdp_neg_send ty flags protocols)"

subsection \<open>Connection confirm\<close>

record cc_tpdu =
  cc_tpkt :: tpkt
  cc_header :: tpdu_header
  cc_header_size :: nat
  cc_neg :: rdp_neg

definition CC_TPDU_Recv :: "instream \<Rightarrow> (cc_tpdu \<times> instream) res" where
  "CC_TPDU_Recv s =
     bindR (Tpkt_Recv s) (\<lambda>(tpkt, s). bindR (tpdu_header_recv CC_TPDU_code s) (\<lambda>(header, s).
     if length (get_data s) < TPKT_HEADER_LEN + unat (th_LI header) then Inl ERR_X224
     else bindR (if 8 \<le> in_remain s
                 then bindR (rdp_neg_recv s) (\<lambda>(neg, s).
                   if rdp_neg_type neg \<noteq> RDP_NEG_FAILURE \<and> rdp_neg_type neg \<noteq> RDP_NEG_RSP then Inl ERR_X224 else Inr (neg, s))
                 else Inr (no_rdp_neg, s)) (\<lambda>(neg, s).
       if end_of_header (th_LI header) \<noteq> get_offset s then Inl ERR_X224
       else Inr (\<lparr>cc_tpkt = tpkt, cc_header = header, cc_header_size = get_offset s, cc_neg = neg\<rparr>, s))))"

definition CC_TPDU_Send :: "u8 \<Rightarrow> u8 \<Rightarrow> u32 \<Rightarrow> u8 list" where
  "CC_TPDU_Send ty flags code =
     bytes_uint8 3 @ bytes_uint8 0 @ bytes_uint16_be (of_nat (11 + neg_size ty)) @ bytes_uint8 (of_nat (11 + neg_size ty - 5)) @
     bytes_uint8 CC_TPDU_code @ bytes_uint16_be 0 @ bytes_uint16_be 0 @ bytes_uint8 0 @ rdp_neg_send ty flags code"

subsection \<open>Disconnect request and error\<close>

record dr_tpdu =
  dr_tpkt :: tpkt
  dr_header :: tpdu_header

definition DR_TPDU_Recv :: "instream \<Rightarrow> (dr_tpdu \<times> instream) res" where
  "DR_TPDU_Recv s =
     bindR (Tpkt_Recv s) (\<lambda>(tpkt, s). bindR (tpdu_header_recv DR_TPDU_code s) (\<lambda>(header, s).
     if end_of_header (th_LI header) \<noteq> get_offset s then Inl ERR_X224
     else Inr (\<lparr>dr_tpkt = tpkt, dr_header = header\<rparr>, s)))"

definition DR_TPDU_Send :: "u8 \<Rightarrow> u8 list" where
  "DR_TPDU_Send reason =
     bytes_uint8 3 @ bytes_uint8 0 @ bytes_uint16_be 11 @ bytes_uint8 6 @
     bytes_uint8 DR_TPDU_code @ bytes_uint16_be 0 @ bytes_uint16_be 0 @ bytes_uint8 reason"

text \<open>\<open>er_invalid\<close> is \<open>None\<close> where the code leaves the details uninitialised.\<close>

record er_tpdu =
  er_tpkt :: tpkt
  er_LI :: u8
  er_dst_ref :: u16
  er_reject_cause :: u8
  er_invalid :: "u8 list option"

definition ER_TPDU_Recv :: "instream \<Rightarrow> (er_tpdu \<times> instream) res" where
  "ER_TPDU_Recv s =
     bindR (Tpkt_Recv s) (\<lambda>(tpkt, s).
     if \<not> in_check_rem s 5 then Inl ERR_X224
     else bindR (in_uint8 s) (\<lambda>(LI, s). bindR (in_uint8 s) (\<lambda>(code, s).
       if code \<noteq> ER_TPDU_code then Inl ERR_X224
       else bindR (in_uint16_le s) (\<lambda>(dst, s). bindR (in_uint8 s) (\<lambda>(cause, s).
         if length (get_data s) < TPKT_HEADER_LEN + unat LI then Inl ERR_X224
         else bindR (if get_offset s + 2 \<le> end_of_header LI
            then bindR (in_uint8 s) (\<lambda>(var, s).
              if var \<noteq> 0xC1 then Inl ERR_X224
              else bindR (in_uint8 s) (\<lambda>(vl, s).
                if int (unat vl) > int (unat LI) - 6 then Inl ERR_X224
                else if \<not> in_check_rem s (unat vl) then Inl ERR_X224
                else bindR (in_skip_bytes (unat vl) s) (\<lambda>(invalid, s).
                  if int (unat LI) - 6 - int (unat vl) \<noteq> 0 then Inl ERR_X224 else Inr (Some invalid, s))))
            else Inr (None, s)) (\<lambda>(invalid, s).
           if end_of_header LI \<noteq> get_offset s then Inl ERR_X224
           else Inr (\<lparr>er_tpkt = tpkt, er_LI = LI, er_dst_ref = dst, er_reject_cause = cause, er_invalid = invalid\<rparr>, s)))))))"

definition ER_TPDU_Send :: "u8 \<Rightarrow> u8 list \<Rightarrow> u8 list" where
  "ER_TPDU_Send cause invalid =
     bytes_uint8 3 @ bytes_uint8 0 @ bytes_uint16_be (of_nat (11 + length invalid)) @ bytes_uint8 (of_nat (11 + length invalid - 5)) @
     bytes_uint8 ER_TPDU_code @ bytes_uint16_be 0 @ bytes_uint8 cause @ bytes_uint8 0xC1 @ bytes_uint8 (of_nat (length invalid)) @ invalid"

subsection \<open>Data\<close>

record dt_tpdu =
  dt_tpkt :: tpkt
  dt_LI :: u8
  dt_payload :: "u8 list"

definition DT_TPDU_Recv :: "instream \<Rightarrow> (dt_tpdu \<times> instream) res" where
  "DT_TPDU_Recv s =
     bindR (Tpkt_Recv s) (\<lambda>(tpkt, s).
     if \<not> in_check_rem s 3 then Inl ERR_X224
     else bindR (in_uint8 s) (\<lambda>(LI, s). bindR (in_uint8 s) (\<lambda>(code, s).
       if code \<noteq> DT_TPDU_code then Inl ERR_X224
       else bindR (in_uint8 s) (\<lambda>(eot, s).
         if eot \<noteq> EOT_EOT then Inl ERR_X224
         else if end_of_header LI \<noteq> get_offset s then Inl ERR_X224
         else bindR (in_skip_bytes (length (get_data s) - end_of_header LI) s) (\<lambda>(payload, s).
           Inr (\<lparr>dt_tpkt = tpkt, dt_LI = LI, dt_payload = payload\<rparr>, s))))))"

definition DT_TPDU_Send :: "nat \<Rightarrow> u8 list" where
  "DT_TPDU_Send payload_len =
     bytes_uint8 3 @ bytes_uint8 0 @ bytes_uint16_be (of_nat (7 + payload_len)) @ bytes_uint8 2 @
     bytes_uint8 DT_TPDU_code @ bytes_uint8 EOT_EOT"

subsection \<open>Reading back what was sent\<close>

lemmas x224_bytes = bytes_uint8_def bytes_uint16_be_def bytes_uint16_le_def bytes_uint32_le_def

lemma tpkt_sent:
  assumes "length rest + 4 < 65536"
  shows "Tpkt_Recv (InStream [] (3 # 0 # bytes_uint16_be (of_nat (length rest + 4)) @ rest))
    = Inr (\<lparr>tpkt_version = 3, tpkt_len = of_nat (length rest + 4)\<rparr>, InStream (3 # 0 # bytes_uint16_be (of_nat (length rest + 4))) rest)"
proof -
  define len :: u16 where "len = of_nat (length rest + 4)"
  have n: "unat len = length rest + 4"
    using assms by (simp only: len_def unsigned_of_nat) (simp add: take_bit_nat_eq_self)
  then have "\<not> len < 4" by (simp only: word_less_nat_alt) simp
  moreover have "of_nat (in_remain (InStream [] (3 # 0 # bytes_uint16_be len @ rest))) = len"
    by (simp add: in_remain_def bytes_uint16_be_def len_def add.commute)
  ultimately show ?thesis
    unfolding len_def [symmetric] Tpkt_Recv_def Let_def
    by (simp add: in_skip_bytes_def in_check_rem_def bytes_uint16_be_def) (simp add: in_remain_def word16_of_bytes)
qed

lemma tpdu_header_sent:
  "tpdu_header_recv code (InStream c (bytes_uint8 LI @ bytes_uint8 code @ bytes_uint16_be 0 @ bytes_uint16_be 0 @ bytes_uint8 opt @ rest))
    = Inr (\<lparr>th_LI = LI, th_code = code, th_dst_ref = 0, th_src_ref = 0, th_option = opt\<rparr>, InStream (c @ [LI, code, 0, 0, 0, 0, opt]) rest)"
  by (simp add: tpdu_header_recv_def in_check_rem_def in_remain_def x224_bytes)

lemma rdp_neg_sent:
  assumes "ty \<noteq> 0"
  shows "rdp_neg_recv (InStream c (rdp_neg_send ty flags code @ rest))
    = Inr (\<lparr>rdp_neg_type = ty, rdp_neg_flags = flags, rdp_neg_length = 8, rdp_neg_code = code\<rparr>, InStream (c @ rdp_neg_send ty flags code) rest)"
  using assms by (simp add: rdp_neg_recv_def rdp_neg_send_def x224_bytes word32_of_bytes)

lemma length_rdp_neg_send: "length (rdp_neg_send ty flags code) = neg_size ty"
  by (simp add: rdp_neg_send_def neg_size_def x224_bytes)

lemma end_of_header_sent: "n < 256 \<Longrightarrow> end_of_header (of_nat n) = n + 5"
  by (simp add: end_of_header_def unsigned_of_nat take_bit_nat_eq_self)

lemma find_crlf_append: "find_crlf xs = Some n \<Longrightarrow> find_crlf (xs @ ys) = Some n"
  by (induction xs arbitrary: n rule: find_crlf.induct) (auto split: if_splits)

lemma find_crlf_neg:
  assumes "drop_bit 8 protocols = 0" "ty = RDP_NEG_NONE \<or> ty = RDP_NEG_REQ"
  shows "find_crlf (rdp_neg_send ty flags protocols) = None"
proof -
  have "drop_bit (n + 8) protocols = 0" for n using assms by (simp add: drop_bit_drop_bit [symmetric])
  from assms this [of 8] this [of 16] show ?thesis by (auto simp: rdp_neg_send_def x224_bytes)
qed

lemma x224_start:
  "bytes_uint8 3 @ bytes_uint8 0 @ bytes_uint16_be n @ rest = 3 # 0 # bytes_uint16_be n @ rest"
  by (simp add: bytes_uint8_def)

lemma length_x224_bytes [simp]:
  "length (bytes_uint8 b) = 1" "length (bytes_uint16_be n) = 2" "length (bytes_uint16_le n) = 2" "length (bytes_uint32_le m) = 4"
  by (simp_all add: x224_bytes)

lemma request_read_back:
  assumes cookie: "cookie = [] \<or> find_crlf cookie = Some (length cookie - 1)" "length cookie + neg_size ty \<le> 249"
    and neg: "ty = RDP_NEG_NONE \<or> ty = RDP_NEG_REQ" "\<not> has flags CORRELATION_INFO_PRESENT" "drop_bit 8 protocols = 0"
  shows "map_sum id fst (CR_TPDU_Data_Recv (instream_of (CR_TPDU_Send cookie ty flags protocols)))
    = Inr \<lparr>cr_tpkt = \<lparr>tpkt_version = 3, tpkt_len = of_nat (11 + length cookie + neg_size ty)\<rparr>,
           cr_header = \<lparr>th_LI = of_nat (6 + length cookie + neg_size ty), th_code = CR_TPDU_code, th_dst_ref = 0, th_src_ref = 0, th_option = 0\<rparr>,
           cr_header_size = 11 + length cookie + neg_size ty, cr_cookie = cookie,
           cr_neg = (if ty = 0 then no_rdp_neg
             else \<lparr>rdp_neg_type = ty, rdp_neg_flags = flags, rdp_neg_length = 8, rdp_neg_code = protocols\<rparr>),
           cr_cinfo_data = \<lparr>ci_type = 0, ci_flags = 0, ci_length = 0, ci_correlationid = replicate 16 0, ci_reserved = replicate 16 0\<rparr>\<rparr>"
proof -
  define LI where "LI = 6 + length cookie + neg_size ty"
  define neg where "neg = rdp_neg_send ty flags protocols"
  define tail where "tail = cookie @ neg"
  define head where "head = bytes_uint8 (of_nat LI) @ bytes_uint8 CR_TPDU_code @ bytes_uint16_be 0 @ bytes_uint16_be 0 @ bytes_uint8 0"
  define start where "start = 3 # 0 # bytes_uint16_be (of_nat (LI + 5))"
  define c where "c = start @ [of_nat LI, CR_TPDU_code, 0, 0, 0, 0, 0]"
  have lens: "length neg = neg_size ty" "length tail + 6 = LI" "length head = 7" "length c = 11" "length start = 4"
    by (simp_all add: neg_def length_rdp_neg_send tail_def LI_def head_def c_def start_def)
  have LI: "LI < 256" using cookie(2) by (simp add: LI_def)
  have sent: "CR_TPDU_Send cookie ty flags protocols = start @ head @ tail"
    by (simp add: CR_TPDU_Send_def Let_def start_def head_def tail_def neg_def LI_def x224_start bytes_uint8_def add.commute add.left_commute)
  have tp: "Tpkt_Recv (InStream [] (start @ head @ tail)) = Inr (\<lparr>tpkt_version = 3, tpkt_len = of_nat (LI + 5)\<rparr>, InStream start (head @ tail))"
  proof -
    have "length (head @ tail) + 4 = LI + 5" using lens by simp
    from tpkt_sent [of "head @ tail", unfolded this] LI show ?thesis by (simp only: start_def append_Cons)
  qed
  have hd: "tpdu_header_recv CR_TPDU_code (InStream start (head @ tail))
      = Inr (\<lparr>th_LI = of_nat LI, th_code = CR_TPDU_code, th_dst_ref = 0, th_src_ref = 0, th_option = 0\<rparr>, InStream c tail)"
    using tpdu_header_sent [of CR_TPDU_code start "of_nat LI" 0 tail] by (simp add: head_def c_def)
  have eoh: "end_of_header (of_nat LI) = LI + 5" using LI by (rule end_of_header_sent)
  have found: "find_crlf tail = (if cookie = [] then None else Some (length cookie - 1))"
    using cookie(1) find_crlf_append [of cookie "length cookie - 1" neg] find_crlf_neg [OF neg(3,1)] by (auto simp: tail_def neg_def)
  have ck: "CR_Cookie_Recv (LI + 5) (InStream c tail) = Inr (cookie, InStream (c @ cookie) neg)"
    using lens found in_skip_bytes_append [of cookie c neg]
    by (auto simp: CR_Cookie_Recv_def Let_def get_offset_def get_data_def tail_def neg_def [symmetric] in_skip_bytes_def in_check_rem_def in_remain_def)
  have ng: "(if 11 + length cookie + 8 \<le> LI + 5
        then bindR (rdp_neg_recv (InStream (c @ cookie) neg)) (\<lambda>(neg, s). if rdp_neg_type neg \<noteq> RDP_NEG_REQ then Inl ERR_X224 else Inr (neg, s))
        else Inr (no_rdp_neg, InStream (c @ cookie) neg))
     = Inr (if ty = 0 then no_rdp_neg else \<lparr>rdp_neg_type = ty, rdp_neg_flags = flags, rdp_neg_length = 8, rdp_neg_code = protocols\<rparr>,
            InStream (c @ cookie @ neg) [])"
    using neg(1) rdp_neg_sent [of ty "c @ cookie" flags protocols "[]"]
    by (auto simp: LI_def neg_def neg_size_def rdp_neg_send_def)
  have ci: "CR_Cinfo_Recv (rdp_neg_flags (if ty = 0 then no_rdp_neg else \<lparr>rdp_neg_type = ty, rdp_neg_flags = flags, rdp_neg_length = 8, rdp_neg_code = protocols\<rparr>)) s
      = Inr (\<lparr>ci_type = 0, ci_flags = 0, ci_length = 0, ci_correlationid = replicate 16 0, ci_reserved = replicate 16 0\<rparr>, s)" for s
    using neg(2) by (simp add: CR_Cinfo_Recv_def no_rdp_neg_def has_def)
  show ?thesis
    unfolding sent CR_TPDU_Data_Recv_def instream_of_def tp hd bindR_simps prod.case Let_def tpdu_header.simps eoh
    using lens ck ng ci by (simp add: get_data_def get_offset_def LI_def add.commute add.left_commute)
qed

text \<open>
  A connection request is read back as it was sent, if the cookie is a line of at most 241 bytes or empty
  and the correlation flag is not set.
\<close>

theorem connection_request_round_trip:
  assumes cookie: "cookie = [] \<or> find_crlf cookie = Some (length cookie - 1)" "length cookie + neg_size ty \<le> 249"
    and neg: "ty = RDP_NEG_NONE \<or> ty = RDP_NEG_REQ" "\<not> has flags CORRELATION_INFO_PRESENT" "drop_bit 8 protocols = 0"
  shows "map_sum id fst (CR_TPDU_Data_Recv (instream_of (CR_TPDU_Send cookie ty flags protocols)))
    = Inr \<lparr>cr_tpkt = \<lparr>tpkt_version = 3, tpkt_len = of_nat (11 + length cookie + neg_size ty)\<rparr>,
           cr_header = \<lparr>th_LI = of_nat (6 + length cookie + neg_size ty), th_code = CR_TPDU_code, th_dst_ref = 0, th_src_ref = 0, th_option = 0\<rparr>,
           cr_header_size = 11 + length cookie + neg_size ty, cr_cookie = cookie,
           cr_neg = (if ty = 0 then no_rdp_neg
             else \<lparr>rdp_neg_type = ty, rdp_neg_flags = flags, rdp_neg_length = 8, rdp_neg_code = protocols\<rparr>),
           cr_cinfo_data = \<lparr>ci_type = 0, ci_flags = 0, ci_length = 0, ci_correlationid = replicate 16 0, ci_reserved = replicate 16 0\<rparr>\<rparr>"
  by (rule request_read_back [OF assms])

lemma tpkt_sent_len:
  assumes "n = length rest + 4" "n < 65536"
  shows "Tpkt_Recv (InStream [] (3 # 0 # bytes_uint16_be (of_nat n) @ rest))
    = Inr (\<lparr>tpkt_version = 3, tpkt_len = of_nat n\<rparr>, InStream (3 # 0 # bytes_uint16_be (of_nat n)) rest)"
  using tpkt_sent assms by simp

lemma confirm_read_back:
  assumes "ty = RDP_NEG_NONE \<or> ty = RDP_NEG_RSP \<or> ty = RDP_NEG_FAILURE"
  shows "map_sum id (cc_neg \<circ> fst) (CC_TPDU_Recv (instream_of (CC_TPDU_Send ty flags code)))
      = Inr (if ty = 0 then no_rdp_neg else \<lparr>rdp_neg_type = ty, rdp_neg_flags = flags, rdp_neg_length = 8, rdp_neg_code = code\<rparr>)"
proof -
  define LI where "LI = 6 + neg_size ty"
  define neg where "neg = rdp_neg_send ty flags code"
  define head where "head = bytes_uint8 (of_nat LI) @ bytes_uint8 CC_TPDU_code @ bytes_uint16_be 0 @ bytes_uint16_be 0 @ bytes_uint8 0"
  define start where "start = 3 # 0 # bytes_uint16_be (of_nat (LI + 5))"
  define c where "c = start @ [of_nat LI, CC_TPDU_code, 0, 0, 0, 0, 0]"
  have lens: "length neg = neg_size ty" "length head = 7" "length c = 11"
    by (simp_all add: neg_def length_rdp_neg_send head_def c_def start_def)
  have LI: "LI < 256" by (simp add: LI_def neg_size_def)
  have sent: "CC_TPDU_Send ty flags code = start @ head @ neg"
    by (simp add: CC_TPDU_Send_def start_def head_def neg_def LI_def x224_start bytes_uint8_def add.commute)
  have tp: "Tpkt_Recv (InStream [] (start @ head @ neg)) = Inr (\<lparr>tpkt_version = 3, tpkt_len = of_nat (LI + 5)\<rparr>, InStream start (head @ neg))"
    unfolding start_def append_Cons by (rule tpkt_sent_len) (use LI lens in \<open>simp_all add: LI_def\<close>)
  have hd: "tpdu_header_recv CC_TPDU_code (InStream start (head @ neg))
      = Inr (\<lparr>th_LI = of_nat LI, th_code = CC_TPDU_code, th_dst_ref = 0, th_src_ref = 0, th_option = 0\<rparr>, InStream c neg)"
    using tpdu_header_sent [of CC_TPDU_code start "of_nat LI" 0 neg] by (simp add: head_def c_def)
  have eoh: "end_of_header (of_nat LI) = LI + 5" using LI by (rule end_of_header_sent)
  have uLI: "unat (of_nat LI :: u8) = LI" using LI by (simp add: unsigned_of_nat take_bit_nat_eq_self)
  have ng: "(if 8 \<le> in_remain (InStream c neg)
        then bindR (rdp_neg_recv (InStream c neg)) (\<lambda>(neg, s).
          if rdp_neg_type neg \<noteq> RDP_NEG_FAILURE \<and> rdp_neg_type neg \<noteq> RDP_NEG_RSP then Inl ERR_X224 else Inr (neg, s))
        else Inr (no_rdp_neg, InStream c neg))
     = Inr (if ty = 0 then no_rdp_neg else \<lparr>rdp_neg_type = ty, rdp_neg_flags = flags, rdp_neg_length = 8, rdp_neg_code = code\<rparr>,
            InStream (c @ neg) [])"
    using assms lens(1) rdp_neg_sent [of ty c flags code "[]"]
    by (auto simp: neg_def neg_size_def in_remain_def rdp_neg_send_def)
  show ?thesis
    unfolding sent CC_TPDU_Recv_def instream_of_def tp hd bindR_simps prod.case Let_def tpdu_header.simps eoh uLI
    using lens ng by (simp add: get_data_def get_offset_def LI_def add.commute)
qed

lemma disconnect_read_back: "map_sum id (th_option \<circ> dr_header \<circ> fst) (DR_TPDU_Recv (instream_of (DR_TPDU_Send reason))) = Inr reason"
proof -
  let ?rest = "bytes_uint8 6 @ bytes_uint8 DR_TPDU_code @ bytes_uint16_be 0 @ bytes_uint16_be 0 @ bytes_uint8 reason"
  have "Tpkt_Recv (InStream [] (3 # 0 # bytes_uint16_be (of_nat 11) @ ?rest))
      = Inr (\<lparr>tpkt_version = 3, tpkt_len = of_nat 11\<rparr>, InStream (3 # 0 # bytes_uint16_be (of_nat 11)) ?rest)"
    by (rule tpkt_sent_len) simp_all
  with tpdu_header_sent [of DR_TPDU_code "3 # 0 # bytes_uint16_be 11" 6 reason "[]"] show ?thesis
    by (simp add: DR_TPDU_Send_def DR_TPDU_Recv_def instream_of_def x224_start end_of_header_def get_offset_def)
qed

lemma error_read_back:
  assumes "length invalid \<le> 249"
  shows "map_sum id ((\<lambda>er. (er_reject_cause er, er_invalid er)) \<circ> fst) (ER_TPDU_Recv (instream_of (ER_TPDU_Send cause invalid)))
      = Inr (cause, Some invalid)"
proof -
  define l where "l = (of_nat (6 + length invalid) :: u8)"
  define v where "v = (of_nat (length invalid) :: u8)"
  have u: "unat l = 6 + length invalid" "unat v = length invalid"
    using assms unfolding l_def v_def by (simp_all only: unsigned_of_nat) (simp_all add: take_bit_nat_eq_self)
  then have i: "uint l = 6 + int (length invalid)" "uint v = int (length invalid)"
    by (metis of_nat_add of_nat_numeral uint_nat, metis uint_nat)
  define rest where "rest = bytes_uint8 l @ bytes_uint8 ER_TPDU_code @ bytes_uint16_be 0 @ bytes_uint8 cause @
    bytes_uint8 0xC1 @ bytes_uint8 v @ invalid"
  have sent: "ER_TPDU_Send cause invalid = 3 # 0 # bytes_uint16_be (of_nat (11 + length invalid)) @ rest"
    by (simp add: ER_TPDU_Send_def l_def v_def rest_def x224_start)
  have tp: "Tpkt_Recv (InStream [] (3 # 0 # bytes_uint16_be (of_nat (11 + length invalid)) @ rest))
      = Inr (\<lparr>tpkt_version = 3, tpkt_len = of_nat (11 + length invalid)\<rparr>, InStream (3 # 0 # bytes_uint16_be (of_nat (11 + length invalid))) rest)"
    by (rule tpkt_sent_len) (use assms in \<open>simp_all add: rest_def\<close>)
  show ?thesis
    unfolding sent ER_TPDU_Recv_def instream_of_def tp bindR_simps prod.case
    by (simp add: rest_def x224_bytes u i get_offset_def get_data_def end_of_header_def in_check_rem_def in_remain_def in_skip_bytes_def)
qed

lemma data_read_back:
  assumes "length payload \<le> 65528"
  shows "map_sum id (dt_payload \<circ> fst) (DT_TPDU_Recv (instream_of (DT_TPDU_Send (length payload) @ payload))) = Inr payload"
proof -
  define rest where "rest = bytes_uint8 2 @ bytes_uint8 DT_TPDU_code @ bytes_uint8 EOT_EOT @ payload"
  have sent: "DT_TPDU_Send (length payload) @ payload = 3 # 0 # bytes_uint16_be (of_nat (7 + length payload)) @ rest"
    by (simp add: DT_TPDU_Send_def rest_def x224_start)
  have tp: "Tpkt_Recv (InStream [] (3 # 0 # bytes_uint16_be (of_nat (7 + length payload)) @ rest))
      = Inr (\<lparr>tpkt_version = 3, tpkt_len = of_nat (7 + length payload)\<rparr>, InStream (3 # 0 # bytes_uint16_be (of_nat (7 + length payload))) rest)"
    by (rule tpkt_sent_len) (use assms in \<open>simp_all add: rest_def\<close>)
  show ?thesis
    unfolding sent DT_TPDU_Recv_def instream_of_def tp bindR_simps prod.case
    by (simp add: rest_def x224_bytes get_offset_def get_data_def end_of_header_def in_check_rem_def in_remain_def in_skip_bytes_def)
qed

text \<open>
  A connection confirm with a negotiation response, a failure or neither, a disconnect request, an error with
  details and a data packet are read back as they were sent.
\<close>

theorem x224_round_trips:
  assumes "ty = RDP_NEG_NONE \<or> ty = RDP_NEG_RSP \<or> ty = RDP_NEG_FAILURE"
    and "length invalid \<le> 249" "length payload \<le> 65528"
  shows "map_sum id (cc_neg \<circ> fst) (CC_TPDU_Recv (instream_of (CC_TPDU_Send ty flags code)))
      = Inr (if ty = 0 then no_rdp_neg else \<lparr>rdp_neg_type = ty, rdp_neg_flags = flags, rdp_neg_length = 8, rdp_neg_code = code\<rparr>)
    \<and> map_sum id (th_option \<circ> dr_header \<circ> fst) (DR_TPDU_Recv (instream_of (DR_TPDU_Send reason))) = Inr reason
    \<and> map_sum id ((\<lambda>er. (er_reject_cause er, er_invalid er)) \<circ> fst) (ER_TPDU_Recv (instream_of (ER_TPDU_Send cause invalid)))
      = Inr (cause, Some invalid)
    \<and> map_sum id (dt_payload \<circ> fst) (DT_TPDU_Recv (instream_of (DT_TPDU_Send (length payload) @ payload))) = Inr payload"
  using assms by (intro conjI confirm_read_back disconnect_read_back error_read_back data_read_back)

lemma x224_round_trips_witness:
  "map_sum id (cc_neg \<circ> fst) (CC_TPDU_Recv (instream_of (CC_TPDU_Send 2 0 1)))
      = Inr \<lparr>rdp_neg_type = 2, rdp_neg_flags = 0, rdp_neg_length = 8, rdp_neg_code = 1\<rparr>
    \<and> map_sum id (dt_payload \<circ> fst) (DT_TPDU_Recv (instream_of (DT_TPDU_Send (length [7]) @ [7]))) = Inr [7]"
  using x224_round_trips [of 2 "[]" "[7]" 0 1 0 0] by simp

lemma connection_request_round_trip_witness:
  "map_sum id (cr_cookie \<circ> fst) (CR_TPDU_Data_Recv (instream_of (CR_TPDU_Send [65, 0x0D, 0x0A] RDP_NEG_REQ 0 3))) = Inr [65, 0x0D, 0x0A]"
proof -
  have "map_sum id cr_cookie (map_sum id fst (CR_TPDU_Data_Recv (instream_of (CR_TPDU_Send [65, 0x0D, 0x0A] RDP_NEG_REQ 0 3)))) = Inr [65, 0x0D, 0x0A]"
    by (subst connection_request_round_trip) (simp_all add: neg_size_def has_def)
  then show ?thesis by (simp add: sum.map_comp)
qed

text \<open>
  The correlation info of a connection request is read without a check of the bytes left: a request with the
  flag and nothing behind the protocols is read past its end.
\<close>

theorem correlation_info_over_read:
  "CR_TPDU_Data_Recv (instream_of (CR_TPDU_Send [] RDP_NEG_REQ CORRELATION_INFO_PRESENT 3)) = Inl UB"
  by code_simp

text \<open>
  The length indicator is one byte: a request with a cookie of 242 bytes, which a long user name gives, announces
  a header of five bytes and is refused.
\<close>

theorem long_cookie_refused:
  "CR_TPDU_Data_Recv (instream_of (CR_TPDU_Send (replicate 240 65 @ [0x0D, 0x0A]) RDP_NEG_REQ 0 0)) = Inl ERR_X224"
  by code_simp

end
