(* ===== verification/X224_Link.thy ===== *)
theory X224_Link
  imports X224 Tpdu
begin

text \<open>
  X.224 data packets through the packet reader: what one end sends as \<open>DT_TPDU_Send\<close> and payload, the other end
  cuts out of its network stream with \<open>TpduBuffer\<close> and reads with \<open>DT_TPDU_Recv\<close>.
\<close>

definition data_packet :: "u8 list \<Rightarrow> u8 list" where
  "data_packet payload = DT_TPDU_Send (length payload) @ payload"

lemma data_packet_bytes: "data_packet payload = 3 # 0 # bytes_uint16_be (of_nat (7 + length payload)) @ 2 # DT_TPDU_code # EOT_EOT # payload"
  by (simp add: data_packet_def DT_TPDU_Send_def bytes_uint8_def)

lemma data_packet_header:
  assumes "length payload \<le> 65528"
  shows "pdu_len (data_packet payload @ rest) = Inr (Some (of_nat (7 + length payload)))"
    "pdu_kind (data_packet payload @ rest) = Inr DT_TPDU"
    "unat (of_nat (7 + length payload) :: u16) = length (data_packet payload)"
proof -
  define n where "n = (of_nat (7 + length payload) :: u16)"
  have u: "unat n = 7 + length payload"
    using assms unfolding n_def by (simp only: unsigned_of_nat) (simp add: take_bit_nat_eq_self)
  then have "\<not> n < 6" by (simp add: word_less_nat_alt)
  moreover have "push_bit 8 (ucast (ucast (drop_bit 8 n) :: u8)) OR ucast (ucast n :: u8) = n"
    using word16_of_bytes [of n] by (simp add: or.commute)
  ultimately show "pdu_len (data_packet payload @ rest) = Inr (Some (of_nat (7 + length payload)))"
    "pdu_kind (data_packet payload @ rest) = Inr DT_TPDU"
    "unat (of_nat (7 + length payload) :: u16) = length (data_packet payload)"
    unfolding data_packet_bytes n_def [symmetric]
    by (simp_all add: pdu_len_def pdu_kind_def bytes_uint16_be_def u)
qed

lemma frames_data_packets:
  "\<forall>p\<in>set ps. length p \<le> 65528 \<Longrightarrow>
    frames pdu_len pdu_kind (concat (map data_packet ps)) = (map (\<lambda>p. (DT_TPDU, data_packet p)) ps, Inr [])"
proof (induction ps)
  case Nil
  show ?case by (simp add: frames.simps pdu_len_def)
next
  case (Cons p ps)
  note H = data_packet_header [of p]
  have "0 < length (data_packet p)" by (simp add: data_packet_bytes)
  then have "(of_nat (7 + length p) :: u16) \<noteq> 0" using H(3) Cons.prems by (metis list.set_intros(1) less_irrefl unat_0)
  with H Cons show ?case by (simp add: frames.simps [of pdu_len pdu_kind "data_packet p @ concat (map data_packet ps)"])
qed

text \<open>
  C27. Payloads sent as X.224 data packets arrive: however the network cuts the stream, if every read delivers
  something the reader is given exactly these packets, and each is read back as its payload.
\<close>

theorem x224_payloads_delivered:
  assumes "\<forall>p\<in>set ps. length p \<le> 65528" "\<forall>k\<in>set ks. 0 < k" "length (concat (map data_packet ps)) \<le> length ks"
  shows "\<exists>t packets. pump (next_packet PDU) get_type ks (concat (map data_packet ps)) (mk_tpdu x) = (packets, Inr t, [])
    \<and> map fst packets = replicate (length ps) DT_TPDU
    \<and> map (\<lambda>(_, packet). map_sum id (dt_payload \<circ> fst) (DT_TPDU_Recv (instream_of packet))) packets = map Inr ps"
proof -
  let ?net = "concat (map data_packet ps)"
  have nx: "next_packet PDU = extract_packet x224_read_header x224_prepare_data"
    by (rule ext) (simp add: next_packet_def)
  have f0: "frames pdu_len pdu_kind [] = ([], Inr [])" by (simp add: frames.simps pdu_len_def)
  note all = frames_data_packets [OF assms(1)]
  obtain qs r net' where p: "pump (next_packet PDU) get_type ks ?net (mk_tpdu x) = (qs, r, net')" by (rule prod_cases3)
  obtain m where m: "net' = drop m ?net" "qs = fst (frames pdu_len pdu_kind (take m ?net))"
    "x224.ends_as r (snd (frames pdu_len pdu_kind (take m ?net)))" "net' = [] \<or> (\<exists>e. r = Inl e)"
    using x224.pump_frames [OF x224.start_drained f0 p [unfolded nx]] assms(2,3) by auto
  have "snd (frames pdu_len pdu_kind (take m ?net)) \<noteq> Inl e" for e
    using x224.frames_more [of "take m ?net" "drop m ?net"] all by (auto split: prod.splits)
  with m(3) have "r \<noteq> Inl e" for e by (auto simp: x224.ends_as_def split: sum.splits)
  with m(4) have net: "net' = []" by blast
  with m(1) have "take m ?net = ?net" by simp
  with m(2,3) all have q: "qs = map (\<lambda>p. (DT_TPDU, data_packet p)) ps" "\<exists>t. r = Inr t"
    by (auto simp: x224.ends_as_def)
  have "map_sum id (dt_payload \<circ> fst) (DT_TPDU_Recv (instream_of (data_packet p))) = Inr p" if "p \<in> set ps" for p
    unfolding data_packet_def using assms(1) that by (intro data_read_back) blast
  with p net q show ?thesis by (auto simp: comp_def map_replicate_const)
qed

lemma x224_payloads_delivered_witness:
  "\<exists>t packets. pump (next_packet PDU) get_type (replicate 20 3) (concat (map data_packet [[1, 2], [3]])) (mk_tpdu \<lparr>has_fast_path = False, x_type = 0\<rparr>)
      = (packets, Inr t, [])
    \<and> map fst packets = replicate (length [[1, 2], [3 :: u8]]) DT_TPDU
    \<and> map (\<lambda>(_, packet). map_sum id (dt_payload \<circ> fst) (DT_TPDU_Recv (instream_of packet))) packets = map Inr [[1, 2], [3]]"
  by (rule x224_payloads_delivered) (simp_all add: data_packet_bytes bytes_uint16_be_def)

end
