(* ===== verification/Sockets.thy ===== *)
theory Sockets
  imports Prelude
begin

text \<open>
  The connection to the target, \<open>SocketTransport\<close> (\<open>transport/socket_transport.cpp\<close>) with its TLS start
  (\<open>system/linux/system/tls_context.hpp\<close>): what is kept to be written later, and the steps of the TLS handshake
  and of the check of the certificate. The system, OpenSSL and the certificate checker answer the calls; an
  answer is an argument.
\<close>

datatype tls_state = TLS_Uninit | TLS_Want | TLS_Ok | TLS_WaitCertCb
datatype tls_result = TlsOk | TlsFail | TlsWant | TlsWaitExternalEvent
datatype certificate_result = CertWait | CertValid | CertInvalid
datatype ssl_status = SslDone | SslWant | SslError

text \<open>
  What OpenSSL and the certificate checker answer during one call: whether a TLS context could be made, the
  state of \<open>SSL_connect\<close>, the answer of the checker or the exception it throws, whether the certificate has
  a public key.
\<close>

record tls_answer =
  an_start :: bool
  an_ssl :: ssl_status
  an_certificate :: "certificate_result res"
  an_public_key :: bool

text \<open>
  \<open>sk_tls\<close> says whether there is a TLS context, \<open>sk_wire\<close> what was written, each part with whether it went
  through TLS.
\<close>

record socket =
  sk_open :: bool
  sk_tls_state :: tls_state
  sk_tls :: bool
  async_buffers :: "u8 list list"
  sk_wire :: "(bool \<times> u8 list) list"

definition mk_socket :: socket where
  "mk_socket = \<lparr>sk_open = True, sk_tls_state = TLS_Uninit, sk_tls = False, async_buffers = [], sk_wire = []\<rparr>"

subsection \<open>Writing\<close>

definition has_data_to_write :: "socket \<Rightarrow> bool" where
  "has_data_to_write s = (async_buffers s \<noteq> [])"

text \<open>\<open>sent\<close> is what the system takes of the write, \<open>None\<close> for an error.\<close>

definition do_send :: "nat option \<Rightarrow> u8 list \<Rightarrow> socket \<Rightarrow> socket res" where
  "do_send sent bs s =
     (if bs = [] then Inr s
      else if async_buffers s \<noteq> [] then Inr (s\<lparr>async_buffers := async_buffers s @ [bs]\<rparr>)
      else case sent of
        None \<Rightarrow> Inl ERR_TRANSPORT_WRITE_FAILED
      | Some n \<Rightarrow> Inr (s\<lparr>sk_wire := sk_wire s @ [(sk_tls s, take n bs)],
                         async_buffers := if n < length bs then [drop n bs] else []\<rparr>))"

text \<open>The buffers kept, each offered to the system; the parts written and the buffers left.\<close>

fun send_buffers :: "(nat \<Rightarrow> nat option) \<Rightarrow> nat \<Rightarrow> u8 list list \<Rightarrow> (u8 list list \<times> u8 list list) res" where
  "send_buffers sent i [] = Inr ([], [])"
| "send_buffers sent i (b # bs) =
     (case sent i of
        None \<Rightarrow> Inl ERR_TRANSPORT_WRITE_FAILED
      | Some n \<Rightarrow>
          if n = 0 \<and> i = 0 then Inl ERR_TRANSPORT_WRITE_FAILED
          else if n < length b then Inr ([take n b], drop n b # bs)
          else bindR (send_buffers sent (Suc i) bs) (\<lambda>(written, left). Inr (b # written, left)))"

definition send_waiting_data :: "(nat \<Rightarrow> nat option) \<Rightarrow> socket \<Rightarrow> socket res" where
  "send_waiting_data sent s =
     assertR (async_buffers s \<noteq> [])
       (bindR (send_buffers sent 0 (async_buffers s)) (\<lambda>(written, left).
          Inr (s\<lparr>sk_wire := sk_wire s @ map (Pair (sk_tls s)) written, async_buffers := left\<rparr>)))"

subsection \<open>TLS\<close>

definition enable_client_tls_loop :: "tls_answer \<Rightarrow> tls_result" where
  "enable_client_tls_loop a = (case an_ssl a of SslDone \<Rightarrow> TlsOk | SslWant \<Rightarrow> TlsWant | SslError \<Rightarrow> TlsFail)"

definition final_check_certificate :: "tls_answer \<Rightarrow> tls_result" where
  "final_check_certificate a = (if an_public_key a then TlsOk else TlsFail)"

definition certificate_external_validation :: "tls_answer \<Rightarrow> tls_result res" where
  "certificate_external_validation a =
     bindR (an_certificate a) (\<lambda>c. Inr (case c of
       CertWait \<Rightarrow> TlsWaitExternalEvent | CertValid \<Rightarrow> final_check_certificate a | CertInvalid \<Rightarrow> TlsFail))"

definition check_certificate :: "bool \<Rightarrow> tls_answer \<Rightarrow> tls_result res" where
  "check_certificate anon_tls a =
     (if anon_tls then Inr TlsOk
      else bindR (an_certificate a) (\<lambda>c. Inr (case c of
        CertWait \<Rightarrow> TlsWaitExternalEvent | CertValid \<Rightarrow> final_check_certificate a | CertInvalid \<Rightarrow> TlsFail)))"

text \<open>The steps of \<open>enable_client_tls\<close>, before it takes the TLS context back if they failed.\<close>

definition tls_loop :: "bool \<Rightarrow> tls_answer \<Rightarrow> socket \<Rightarrow> (tls_result \<times> socket) res" where
  "tls_loop anon_tls a s =
     (case enable_client_tls_loop a of
        TlsOk \<Rightarrow>
          bindR (check_certificate anon_tls a) (\<lambda>ret. Inr (case ret of
            TlsOk \<Rightarrow> (TlsOk, s\<lparr>sk_tls_state := TLS_Ok\<rparr>)
          | TlsWaitExternalEvent \<Rightarrow> (TlsWaitExternalEvent, s\<lparr>sk_tls_state := TLS_WaitCertCb\<rparr>)
          | _ \<Rightarrow> (TlsFail, s)))
      | ret \<Rightarrow> Inr (ret, s))"

definition tls_process :: "bool \<Rightarrow> tls_answer \<Rightarrow> socket \<Rightarrow> (tls_result \<times> socket) res" where
  "tls_process anon_tls a s =
     (case sk_tls_state s of
        TLS_Uninit \<Rightarrow>
          if has_data_to_write s then Inr (TlsWant, s)
          else let s = s\<lparr>sk_tls := True\<rparr> in
            if \<not> an_start a then Inr (TlsFail, s) else tls_loop anon_tls a (s\<lparr>sk_tls_state := TLS_Want\<rparr>)
      | TLS_Want \<Rightarrow> tls_loop anon_tls a s
      | TLS_Ok \<Rightarrow> Inr (TlsFail, s)
      | TLS_WaitCertCb \<Rightarrow>
          bindR (certificate_external_validation a) (\<lambda>ret.
            if ret = TlsOk then Inr (TlsOk, s\<lparr>sk_tls_state := TLS_Ok\<rparr>) else Inr (TlsFail, s)))"

definition reset_tls :: "socket \<Rightarrow> socket" where
  "reset_tls s = s\<lparr>sk_tls_state := TLS_Uninit, sk_tls := False\<rparr>"

definition socket_enable_client_tls :: "bool \<Rightarrow> tls_answer \<Rightarrow> socket \<Rightarrow> (tls_result \<times> socket) res" where
  "socket_enable_client_tls anon_tls a s =
     bindR (tls_process anon_tls a s) (\<lambda>(ret, s). Inr (ret, if ret = TlsFail then reset_tls s else s))"

subsection \<open>The connection\<close>

text \<open>The buffers not yet written are kept.\<close>

definition disconnect :: "socket \<Rightarrow> socket" where
  "disconnect s = (reset_tls s)\<lparr>sk_open := False\<rparr>"

definition connect :: "bool \<Rightarrow> socket \<Rightarrow> bool \<times> socket" where
  "connect connected s =
     (let s = (if sk_open s then s else s\<lparr>sk_open := connected\<rparr>) in (sk_open s, s))"

subsection \<open>What is sent, in order\<close>

text \<open>The bytes given to the transport: those written, then those kept.\<close>

definition given :: "socket \<Rightarrow> u8 list" where
  "given s = concat (map snd (sk_wire s)) @ concat (async_buffers s)"

lemma given_do_send:
  assumes "do_send sent bs s = Inr s2"
  shows "given s2 = given s @ bs"
  using assms by (auto simp: do_send_def given_def split: if_splits option.splits)

lemma send_buffers_all:
  "send_buffers sent i bs = Inr (written, left) \<Longrightarrow> concat written @ concat left = concat bs"
  by (induction sent i bs arbitrary: written left rule: send_buffers.induct)
    (auto simp: bindR_eq_Inr split: option.splits if_splits)

lemma given_send_waiting_data:
  assumes "send_waiting_data sent s = Inr s2"
  shows "given s2 = given s"
  using assms send_buffers_all
  by (auto simp: send_waiting_data_def given_def bindR_eq_Inr assertR_eq_Inr comp_def)

text \<open>A schedule of sends and of calls of \<open>send_waiting_data\<close>, with the system's answers.\<close>

datatype transfer = Send "nat option" "u8 list" | Flush "nat \<Rightarrow> nat option"

fun transfer_one :: "transfer \<Rightarrow> socket \<Rightarrow> socket res" where
  "transfer_one (Send sent bs) s = do_send sent bs s"
| "transfer_one (Flush sent) s = (if has_data_to_write s then send_waiting_data sent s else Inr s)"

fun transfers :: "transfer list \<Rightarrow> socket \<Rightarrow> socket res" where
  "transfers [] s = Inr s"
| "transfers (x # xs) s = bindR (transfer_one x s) (transfers xs)"

fun payload_of :: "transfer \<Rightarrow> u8 list" where
  "payload_of (Send _ bs) = bs"
| "payload_of (Flush _) = []"

lemma transfers_given: "transfers xs s = Inr s2 \<Longrightarrow> given s2 = given s @ concat (map payload_of xs)"
proof (induction xs arbitrary: s)
  case (Cons x xs)
  then show ?case
    by (cases x) (auto simp: bindR_eq_Inr given_do_send given_send_waiting_data split: if_splits)
qed simp

text \<open>
  C26. Bytes given to the socket transport reach the network in the order they were given, each once, whatever
  part of every write the system takes: what was written and what is kept for later are together what was sent.
\<close>

theorem socket_sends_in_order:
  assumes "transfers xs mk_socket = Inr s"
  shows "concat (map snd (sk_wire s)) @ concat (async_buffers s) = concat (map payload_of xs)"
  using transfers_given [OF assms] by (simp add: given_def mk_socket_def)

lemma socket_sends_in_order_witness:
  "concat (map snd [(False, [1, 2]), (False, [3]), (False, [4])]) @ concat [] = concat (map payload_of
     [Send (Some 2) [1, 2, 3], Send None [4], Flush (\<lambda>_. Some 1)])"
  using socket_sends_in_order [of "[Send (Some 2) [1, 2, 3], Send None [4], Flush (\<lambda>_. Some 1)]"
    "mk_socket\<lparr>sk_wire := [(False, [1, 2]), (False, [3]), (False, [4])]\<rparr>"]
  by (simp add: do_send_def send_waiting_data_def has_data_to_write_def mk_socket_def)

text \<open>What a closed connection did not take is written to the next one.\<close>

lemma unwritten_bytes_cross_connections:
  "bindR (do_send (Some 2) [1, 2, 3, 4] mk_socket) (\<lambda>s. bindR (do_send None [5] (snd (connect True (disconnect s)))) (send_waiting_data (\<lambda>_. Some 9)))
    = Inr (mk_socket\<lparr>sk_wire := [(False, [1, 2]), (False, [3, 4]), (False, [5])]\<rparr>)"
  by code_simp

end
