(* ===== verification/Multi_Sz.thy ===== *)
theory Multi_Sz
  imports Prelude
begin

text \<open>
  Lists of C strings in one array (\<open>utils/sugar/multisz.cpp\<close>), as the passwords of a target are kept: each string
  ends with a zero, the list with an empty string.
\<close>

text \<open>\<open>strlen\<close>: without a zero it reads past the array.\<close>

fun cstr_len :: "u8 list \<Rightarrow> nat res" where
  "cstr_len [] = Inl UB"
| "cstr_len (c # cs) = (if c = 0 then Inr 0 else map_sum id Suc (cstr_len cs))"

lemma cstr_len_append: "0 \<notin> set s \<Longrightarrow> cstr_len (s @ 0 # rest) = Inr (length s)"
  by (induction s) auto

lemma cstr_len_bound: "cstr_len cs = Inr n \<Longrightarrow> n < length cs \<and> cs ! n = 0 \<and> 0 \<notin> set (take n cs)"
proof (induction cs arbitrary: n)
  case (Cons c cs)
  then show ?case by (cases "cstr_len cs") (auto split: if_splits)
qed simp

text \<open>\<open>SOHSeparatedStringsToMultiSZ\<close>: \<open>src\<close> is a C string without its zero, the result the \<open>dest_size\<close> bytes.\<close>

definition SOHSeparatedStringsToMultiSZ :: "nat \<Rightarrow> u8 list \<Rightarrow> u8 list" where
  "SOHSeparatedStringsToMultiSZ dest_size src =
     (let copied = map (\<lambda>c. if c = 1 then 0 else c) (take (dest_size - 2) src)
      in copied @ replicate (dest_size - length copied) 0)"

text \<open>The length of the strings of a list, without the zero at its end.\<close>

function strings_len :: "u8 list \<Rightarrow> nat res" where
  "strings_len p =
     bindR (cstr_len p) (\<lambda>sz_len.
       if sz_len = 0 then Inr 0 else map_sum id (\<lambda>n. Suc sz_len + n) (strings_len (drop (Suc sz_len) p)))"
  by pat_completeness auto
termination
proof (relation "measure length")
  fix p :: "u8 list" and n
  assume "cstr_len p = Inr n" "n \<noteq> 0"
  with cstr_len_bound [of p n] show "(drop (Suc n) p, p) \<in> measure length" by auto
qed simp

declare strings_len.simps [simp del]

definition MultiSZCopy :: "nat \<Rightarrow> u8 list \<Rightarrow> u8 list res" where
  "MultiSZCopy dest_size src =
     bindR (strings_len src) (\<lambda>total_len.
       let n = min (total_len + 1) (dest_size - 2) in
       assertR (n \<le> length src) (Inr (take n src @ replicate (dest_size - n) 0)))"

subsection \<open>The list an array holds\<close>

text \<open>The strings from a position on, up to the first empty one.\<close>

function strings_from :: "u8 list \<Rightarrow> u8 list list" where
  "strings_from p = (let s = takeWhile (\<lambda>c. c \<noteq> 0) p in if s = [] then [] else s # strings_from (drop (Suc (length s)) p))"
  by pat_completeness auto
termination
proof (relation "measure length")
  fix p :: "u8 list" and s
  assume "s = takeWhile (\<lambda>c. c \<noteq> 0) p" "s \<noteq> []"
  then show "(drop (Suc (length s)) p, p) \<in> measure length" by (cases p) auto
qed simp

declare strings_from.simps [simp del]

definition multisz :: "u8 list list \<Rightarrow> u8 list" where
  "multisz ss = concat (map (\<lambda>s. s @ [0]) ss) @ [0]"

abbreviation (input) "is_strings ss \<equiv> \<forall>s\<in>set ss. s \<noteq> [] \<and> 0 \<notin> set s"

lemma multisz_simps: "multisz [] = [0]" "multisz (s # ss) = s @ 0 # multisz ss"
  by (simp_all add: multisz_def)

lemma multisz_append: "multisz (ss @ [s]) = concat (map (\<lambda>s. s @ [0]) ss) @ s @ [0, 0]"
  by (simp add: multisz_def)

lemma strings_len_multisz:
  "is_strings ss \<Longrightarrow> strings_len (multisz ss @ rest) = Inr (length (multisz ss) - 1)"
proof (induction ss)
  case Nil
  show ?case by (simp add: strings_len.simps multisz_simps)
next
  case (Cons s ss)
  then have "strings_len (multisz ss @ rest) = Inr (length (multisz ss) - 1)" by simp
  moreover have "0 < length (multisz ss)" by (simp add: multisz_def)
  ultimately show ?case using Cons.prems
    by (subst strings_len.simps) (simp add: multisz_simps cstr_len_append)
qed

lemma takeWhile_string: "0 \<notin> set s \<Longrightarrow> takeWhile (\<lambda>c. c \<noteq> 0) (s @ 0 # rest) = (s :: u8 list)"
  by (subst takeWhile_append2) auto

lemma strings_from_multisz: "is_strings ss \<Longrightarrow> strings_from (multisz ss @ rest) = ss"
proof (induction ss)
  case Nil
  show ?case by (simp add: strings_from.simps multisz_simps)
next
  case (Cons s ss)
  then show ?case by (subst strings_from.simps) (simp add: multisz_simps takeWhile_string)
qed

lemma multisz_end: "\<exists>x. multisz ss = x @ [0] \<and> (ss \<noteq> [] \<longrightarrow> (\<exists>y. x = y @ [0]))"
  by (cases ss rule: rev_cases) (auto simp: multisz_def)

text \<open>The last two bytes are not copied but zero anyway.\<close>

lemma MultiSZCopy_multisz:
  assumes "is_strings ss" "length (multisz ss) \<le> dest_size" "2 \<le> dest_size"
  shows "MultiSZCopy dest_size (multisz ss @ rest) = Inr (multisz ss @ replicate (dest_size - length (multisz ss)) 0)"
proof -
  let ?len = "length (multisz ss)"
  obtain x where x: "multisz ss = x @ [0]" "ss \<noteq> [] \<Longrightarrow> \<exists>y. x = y @ [0]" using multisz_end by blast
  have "take (min ?len (dest_size - 2)) (multisz ss @ rest) @ replicate (dest_size - min ?len (dest_size - 2)) 0
      = multisz ss @ replicate (dest_size - ?len) 0"
  proof (cases "?len \<le> dest_size - 2")
    case False
    then consider "dest_size = ?len + 1" | "dest_size = ?len" using assms(2) by linarith
    then show ?thesis
    proof cases
      case 1
      with x(1) show ?thesis by (simp add: min_def numeral_2_eq_2)
    next
      case 2
      with x(1) assms(3) have "ss \<noteq> []" by (auto simp: multisz_def)
      with x 2 show ?thesis by (auto simp: min_def numeral_2_eq_2)
    qed
  qed (simp add: min_def)
  moreover have "strings_len (multisz ss @ rest) = Inr (?len - 1)" "0 < ?len" "min ?len (dest_size - 2) \<le> ?len + length rest"
    using strings_len_multisz [OF assms(1)] x(1) by simp_all
  ultimately show ?thesis by (simp add: MultiSZCopy_def Let_def)
qed

text \<open>The pieces of a text between the SOH characters.\<close>

fun soh_split :: "u8 list \<Rightarrow> u8 list list" where
  "soh_split [] = [[]]"
| "soh_split (c # cs) = (if c = 1 then [] # soh_split cs else (c # hd (soh_split cs)) # tl (soh_split cs))"

lemma soh_split_ne [simp]: "soh_split cs \<noteq> []"
  by (cases cs) auto

lemma soh_bytes: "map (\<lambda>c. if c = 1 then 0 else c) cs @ [0, 0] = multisz (soh_split cs)"
proof (induction cs)
  case Nil
  show ?case by (simp add: multisz_def)
next
  case (Cons c cs)
  then show ?case by (cases "soh_split cs") (auto simp: multisz_simps)
qed

lemma soh_split_no_zero: "0 \<notin> set cs \<Longrightarrow> s \<in> set (soh_split cs) \<Longrightarrow> 0 \<notin> set s"
proof (induction cs arbitrary: s)
  case (Cons c cs)
  from Cons.prems Cons.IH show ?case
    by (cases "soh_split cs") (auto split: if_splits)
qed simp

text \<open>The list a text stands for: its pieces up to the first empty one.\<close>

lemma multisz_prefix: "\<exists>rest. multisz ss = multisz (takeWhile (\<lambda>s. s \<noteq> []) ss) @ rest"
proof (induction ss)
  case (Cons s ss)
  then obtain rest where "multisz ss = multisz (takeWhile (\<lambda>s. s \<noteq> []) ss) @ rest" ..
  then show ?case by (cases "s = []") (auto simp: multisz_simps)
qed simp

lemma length_multisz_soh: "length (multisz (soh_split cs)) = length cs + 2"
  using soh_bytes [of cs, symmetric] by simp

lemma soh_array:
  assumes "0 \<notin> set src" "2 \<le> size_of"
  obtains ss where "ss = takeWhile (\<lambda>s. s \<noteq> []) (soh_split (take (size_of - 2) src))" "is_strings ss"
    "MultiSZCopy size_of (SOHSeparatedStringsToMultiSZ size_of src) = Inr (multisz ss @ replicate (size_of - length (multisz ss)) 0)"
proof -
  let ?cs = "take (size_of - 2) src"
  let ?ss = "takeWhile (\<lambda>s. s \<noteq> []) (soh_split ?cs)"
  have "0 \<notin> set ?cs" using assms(1) by (meson in_set_takeD)
  then have ss: "is_strings ?ss" by (auto dest!: set_takeWhileD dest: soh_split_no_zero)
  have m: "length ?cs + 2 \<le> size_of" using assms(2) by simp
  have "SOHSeparatedStringsToMultiSZ size_of src = map (\<lambda>c. if c = 1 then 0 else c) ?cs @ replicate (2 + (size_of - 2 - length ?cs)) 0"
    unfolding SOHSeparatedStringsToMultiSZ_def Let_def length_map
    by (rule arg_cong [where f = "\<lambda>n. _ @ replicate n 0"]) (use m in linarith)
  also have "\<dots> = multisz (soh_split ?cs) @ replicate (size_of - 2 - length ?cs) 0"
    unfolding replicate_add soh_bytes [symmetric] by (simp add: numeral_2_eq_2)
  finally have soh: "SOHSeparatedStringsToMultiSZ size_of src = multisz (soh_split ?cs) @ replicate (size_of - 2 - length ?cs) 0" .
  obtain rest where rest: "multisz (soh_split ?cs) = multisz ?ss @ rest" using multisz_prefix by blast
  have "length (multisz ?ss) \<le> size_of"
    using length_multisz_soh [of ?cs] m unfolding rest by simp
  then show thesis
    using ss assms(2) that [of ?ss] unfolding soh rest append_assoc by (simp add: MultiSZCopy_multisz)
qed

text \<open>
  C20. The passwords that a target's password text (without NUL) stands for, once turned into a list of C strings and copied,
  are its pieces between the SOH characters up to the first empty one, of the first bytes that fit.
\<close>

theorem soh_passwords:
  assumes "0 \<notin> set src" "2 \<le> size_of"
  shows "map_sum id strings_from (MultiSZCopy size_of (SOHSeparatedStringsToMultiSZ size_of src))
    = Inr (takeWhile (\<lambda>s. s \<noteq> []) (soh_split (take (size_of - 2) src)))"
proof (rule soh_array [OF assms])
  fix ss
  assume "ss = takeWhile (\<lambda>s. s \<noteq> []) (soh_split (take (size_of - 2) src))" "is_strings ss"
    "MultiSZCopy size_of (SOHSeparatedStringsToMultiSZ size_of src) = Inr (multisz ss @ replicate (size_of - length (multisz ss)) 0)"
  then show ?thesis using strings_from_multisz by simp
qed

lemma soh_passwords_witness:
  "map_sum id strings_from (MultiSZCopy 8 (SOHSeparatedStringsToMultiSZ 8 [65, 1, 66, 67, 1])) = Inr [[65], [66, 67]]"
  using soh_passwords [of "[65, 1, 66, 67, 1]" 8] by simp

end
