(* ===== verification/Nego.thy ===== *)
theory Nego
  imports X224 Tpdu Sockets Multi_Sz
begin

text \<open>
  The negotiation of the security protocol with the target, \<open>RdpNego\<close> (\<open>core/RDP/nego.cpp\<close>): the request, the
  answer of the server, TLS, CredSSP and the ways back from it. What is outside (OpenSSL, the certificate
  checker, the NTLM and Kerberos clients, the system's sockets) answers the calls: \<open>env\<close> gives the answers to the
  \<open>n\<close>-th call, and the session counts the calls.
\<close>

abbreviation (input) NEGO_Rdp :: u32 where "NEGO_Rdp \<equiv> 1"
abbreviation (input) NEGO_Tls :: u32 where "NEGO_Tls \<equiv> 2"
abbreviation (input) NEGO_Nla :: u32 where "NEGO_Nla \<equiv> 4"

datatype nego_state = Negotiate | SslHybrid | Tls | Credssp | Final
datatype credssp_state = Cont | Err | Finish

text \<open>
  The answers: the bytes the system takes of a write, whether a new connection is made, the message with which the
  NTLM or Kerberos client starts for a password, and what it makes of a message of the server.
\<close>

record answer = tls_answer +
  an_sent :: "nat option"
  an_connect :: bool
  an_ntlm :: "u8 list \<Rightarrow> u8 list res"
  an_kerberos :: "u8 list option \<Rightarrow> u8 list res"
  an_next :: "(credssp_state \<times> u8 list) res"

text \<open>
  Of the identity, what the negotiation itself uses; the rest only goes to the NTLM and Kerberos clients.
  \<open>current_password\<close> is an offset into the array, \<open>None\<close> the null pointer; \<open>n_NTLM\<close> and \<open>n_credsspKerberos\<close> say
  whether there is a client.
\<close>

record nego =
  n_tls :: bool
  n_nla :: bool
  n_nla_ntlm_fallback :: bool
  n_tls_only :: bool
  n_rdp_legacy :: bool
  n_krb :: bool
  n_krb_state :: bool
  n_restricted_admin_mode :: bool
  n_nla_tried :: bool
  n_selected_protocol :: u32
  n_enabled_protocols :: u32
  n_username :: "u8 list"
  n_password :: "u8 list"
  n_current_password :: "nat option"
  n_lb_info :: "u8 list option"
  n_NTLM :: bool
  n_credsspKerberos :: bool
  n_state :: nego_state

record session =
  w_nego :: nego
  w_trans :: socket
  w_buf :: tpdu
  w_calls :: nat

type_synonym env = "nat \<Rightarrow> answer"

definition set_state :: "nego_state \<Rightarrow> session \<Rightarrow> session" where
  "set_state st w = w\<lparr>w_nego := (w_nego w)\<lparr>n_state := st\<rparr>\<rparr>"

subsection \<open>Construction\<close>

definition mk_nego :: "u8 list \<Rightarrow> bool \<Rightarrow> bool \<Rightarrow> bool \<Rightarrow> bool \<Rightarrow> bool \<Rightarrow> bool \<Rightarrow> nego res" where
  "mk_nego username nla krb nla_ntlm tls_only rdp_legacy admin_mode =
     (let enabled = flag rdp_legacy NEGO_Rdp OR flag tls_only NEGO_Tls OR flag nla NEGO_Nla in
      if admin_mode \<and> \<not> has enabled NEGO_Nla then Inl ERR_NEGO_NLA_REQUIRED_BY_RESTRICTED_ADMIN_MODE
      else Inr \<lparr>n_tls = True, n_nla = nla, n_nla_ntlm_fallback = nla_ntlm, n_tls_only = tls_only, n_rdp_legacy = rdp_legacy,
                n_krb = (nla \<and> krb), n_krb_state = (nla \<and> krb), n_restricted_admin_mode = admin_mode, n_nla_tried = False,
                n_selected_protocol = PROTOCOL_RDP, n_enabled_protocols = enabled, n_username = username, n_password = [],
                n_current_password = None, n_lb_info = None, n_NTLM = False, n_credsspKerberos = False, n_state = Negotiate\<rparr>)"

text \<open>\<open>password\<close> is the list of C strings the caller made.\<close>

definition set_identity :: "u8 list \<Rightarrow> nego \<Rightarrow> nego res" where
  "set_identity password n =
     (if n_nla n then bindR (MultiSZCopy 2048 password) (\<lambda>p. Inr (n\<lparr>n_password := p, n_current_password := Some 0\<rparr>))
      else Inr n)"

definition set_lb_info :: "u8 list \<Rightarrow> nat \<Rightarrow> nego \<Rightarrow> nego" where
  "set_lb_info info len n = (if len > 0 then n\<lparr>n_lb_info := Some info\<rparr> else n)"

definition enhanced_rdp_security_is_in_effect :: "nego \<Rightarrow> bool" where
  "enhanced_rdp_security_is_in_effect n = (n_enabled_protocols n \<noteq> NEGO_Rdp)"

subsection \<open>The transport, asked through the session\<close>

definition trans_send :: "env \<Rightarrow> u8 list \<Rightarrow> session \<Rightarrow> session res" where
  "trans_send env bs w =
     bindR (do_send (an_sent (env (w_calls w))) bs (w_trans w)) (\<lambda>s. Inr (w\<lparr>w_trans := s, w_calls := Suc (w_calls w)\<rparr>))"

definition trans_disconnect :: "session \<Rightarrow> session" where
  "trans_disconnect w = w\<lparr>w_trans := disconnect (w_trans w)\<rparr>"

definition trans_connect :: "env \<Rightarrow> session \<Rightarrow> bool \<times> session" where
  "trans_connect env w =
     (let (ok, s) = connect (an_connect (env (w_calls w))) (w_trans w)
      in (ok, w\<lparr>w_trans := s, w_calls := Suc (w_calls w)\<rparr>))"

subsection \<open>The request\<close>

text \<open>\<open>Cookie: mstshash=\<close>, cut to the 255 characters of the array.\<close>

definition cookie :: "u8 list \<Rightarrow> u8 list" where
  "cookie username =
     take 255 ([0x43, 0x6F, 0x6F, 0x6B, 0x69, 0x65, 0x3A, 0x20, 0x6D, 0x73, 0x74, 0x73, 0x68, 0x61, 0x73, 0x68, 0x3D]
       @ takeWhile (\<lambda>c. c \<noteq> 0) username @ [0x0D, 0x0A])"

definition requested_protocols :: "u32 \<Rightarrow> u32" where
  "requested_protocols enabled =
     PROTOCOL_RDP OR (if has enabled NEGO_Nla then PROTOCOL_HYBRID else 0) OR (if has enabled NEGO_Tls then PROTOCOL_TLS else 0)"

definition negotiation_request :: "nego \<Rightarrow> u8 list res" where
  "negotiation_request n =
     bindR (case n_lb_info n of
              None \<Rightarrow> Inr (cookie (n_username n))
            | Some info \<Rightarrow> bindR (cstr_len info) (\<lambda>len. Inr (take len info))) (\<lambda>cookie_or_token.
     if n_enabled_protocols n = 0 then Inl ERR_NEGO_NO_PROTOCOL_ENABLED
     else Inr (CR_TPDU_Send cookie_or_token (if n_tls n \<or> n_nla n then RDP_NEG_REQ else RDP_NEG_NONE)
                 (if n_restricted_admin_mode n then RESTRICTED_ADMIN_MODE_REQUIRED else 0)
                 (requested_protocols (n_enabled_protocols n))))"

definition send_negotiation_request :: "env \<Rightarrow> session \<Rightarrow> session res" where
  "send_negotiation_request env w = bindR (negotiation_request (w_nego w)) (\<lambda>request. trans_send env request w)"

subsection \<open>TLS and CredSSP\<close>

text \<open>\<open>True\<close> when the caller may go on.\<close>

definition nego_enable_client_tls :: "env \<Rightarrow> session \<Rightarrow> (bool \<times> session) res" where
  "nego_enable_client_tls env w =
     bindR (socket_enable_client_tls False (tls_answer.truncate (env (w_calls w))) (w_trans w)) (\<lambda>(ret, s).
       let w = w\<lparr>w_trans := s, w_calls := Suc (w_calls w)\<rparr> in
       Inr (case ret of TlsWaitExternalEvent \<Rightarrow> False | TlsWant \<Rightarrow> False | TlsFail \<Rightarrow> True | TlsOk \<Rightarrow> True, w))"

definition activate_ssl_tls :: "env \<Rightarrow> session \<Rightarrow> (nego_state \<times> session) res" where
  "activate_ssl_tls env w =
     bindR (nego_enable_client_tls env w) (\<lambda>(ok, w). Inr (if ok then Final else Tls, w))"

text \<open>The C string at the password pointer.\<close>

definition current_password_text :: "nego \<Rightarrow> u8 list res" where
  "current_password_text n =
     (case n_current_password n of
        None \<Rightarrow> Inl UB
      | Some p \<Rightarrow> bindR (cstr_len (drop p (n_password n))) (\<lambda>len. Inr (take len (drop p (n_password n)))))"

definition next_password :: "nego \<Rightarrow> nego res" where
  "next_password n =
     bindR (current_password_text n) (\<lambda>text.
       Inr (n\<lparr>n_current_password := map_option (\<lambda>p. p + length text + 1) (n_current_password n)\<rparr>))"

definition has_password :: "nego \<Rightarrow> bool res" where
  "has_password n =
     (case n_current_password n of
        None \<Rightarrow> Inl UB
      | Some p \<Rightarrow> assertR (p < length (n_password n)) (Inr (n_password n ! p \<noteq> 0)))"

definition fallback_to_tls :: "env \<Rightarrow> session \<Rightarrow> (nego_state \<times> session) res" where
  "fallback_to_tls env w =
     (let (connected, w) = trans_connect env (trans_disconnect w) in
      if \<not> connected then Inl ERR_SOCKET_CONNECT_FAILED
      else if n_restricted_admin_mode (w_nego w) then Inl ERR_NEGO_NLA_REQUIRED_BY_RESTRICTED_ADMIN_MODE
      else bindR (next_password (w_nego w)) (\<lambda>n.
        bindR (has_password n) (\<lambda>more.
          if more then
            bindR (send_negotiation_request env (w\<lparr>w_nego := n\<lparr>n_krb_state := n_krb n\<rparr>\<rparr>)) (\<lambda>w. Inr (Negotiate, w))
          else if \<not> n_tls_only n then Inl (if n_krb_state n then ERR_NEGO_KRB_REQUIRED else ERR_NEGO_NLA_REQUIRED)
          else bindR (send_negotiation_request env (w\<lparr>w_nego := n\<lparr>n_enabled_protocols := NEGO_Tls OR NEGO_Rdp\<rparr>\<rparr>)) (\<lambda>w.
            Inr (Negotiate, w)))))"

text \<open>
  The clients read the password when they are made; what is read past the array is not an exception (the outer
  error). An exception of theirs, or of the sending of their first message, is caught (the inner error). The
  Kerberos client sends its first message itself, before it is kept; when it fails, NTLM is asked in a call of its own.
\<close>

definition start_kerberos :: "env \<Rightarrow> session \<Rightarrow> session res res" where
  "start_kerberos env w =
     bindR (if n_current_password (w_nego w) = None then Inr None
            else map_sum id Some (current_password_text (w_nego w))) (\<lambda>password.
       Inr (bindR (an_kerberos (env (w_calls w)) password) (\<lambda>token.
            bindR (trans_send env token w) (\<lambda>w. Inr (w\<lparr>w_nego := (w_nego w)\<lparr>n_credsspKerberos := True\<rparr>\<rparr>)))))"

definition activate_ntlm :: "env \<Rightarrow> session \<Rightarrow> (nego_state \<times> session) res" where
  "activate_ntlm env w =
     bindR (current_password_text (w_nego w)) (\<lambda>password.
       let w = w\<lparr>w_nego := (w_nego w)\<lparr>n_NTLM := True\<rparr>\<rparr> in
       case bindR (an_ntlm (env (w_calls w)) password) (\<lambda>token. trans_send env token w) of
         Inl e \<Rightarrow> fallback_to_tls env w
       | Inr w \<Rightarrow> Inr (Credssp, w))"

definition activate_ssl_hybrid :: "env \<Rightarrow> session \<Rightarrow> (nego_state \<times> session) res" where
  "activate_ssl_hybrid env w =
     bindR (nego_enable_client_tls env w) (\<lambda>(ok, w).
       if \<not> ok then Inr (SslHybrid, w)
       else let w = w\<lparr>w_nego := (w_nego w)\<lparr>n_nla_tried := True\<rparr>\<rparr> in
         if n_krb_state (w_nego w) then
           bindR (start_kerberos env w) (\<lambda>started.
             case started of
               Inr w \<Rightarrow> Inr (Credssp, w)
             | Inl e \<Rightarrow>
                 if \<not> n_nla_ntlm_fallback (w_nego w) then fallback_to_tls env w
                 else activate_ntlm env (w\<lparr>w_calls := Suc (w_calls w), w_nego := (w_nego w)\<lparr>n_krb_state := False\<rparr>\<rparr>))
         else activate_ntlm env w)"

text \<open>A message for the CredSSP client.\<close>

definition recv_credssp :: "env \<Rightarrow> session \<Rightarrow> (nego_state \<times> session) res" where
  "recv_credssp env w =
     assertR (if n_krb_state (w_nego w) then n_credsspKerberos (w_nego w) else n_NTLM (w_nego w))
       (bindR (an_next (env (w_calls w))) (\<lambda>(state, token).
          case state of
            Cont \<Rightarrow> bindR (trans_send env token w) (\<lambda>w. Inr (Credssp, w))
          | Err \<Rightarrow> fallback_to_tls env (w\<lparr>w_calls := Suc (w_calls w)\<rparr>)
          | Finish \<Rightarrow> bindR (trans_send env token w) (\<lambda>w.
              Inr (Final, w\<lparr>w_nego := (if n_krb_state (w_nego w) then (w_nego w)\<lparr>n_credsspKerberos := False\<rparr>
                                     else (w_nego w)\<lparr>n_NTLM := False\<rparr>)\<rparr>))))"

subsection \<open>The answer of the server\<close>

definition recv_connection_confirm :: "env \<Rightarrow> u8 list \<Rightarrow> session \<Rightarrow> (nego_state \<times> session) res" where
  "recv_connection_confirm env packet w =
     bindR (CC_TPDU_Recv (instream_of packet)) (\<lambda>(x224, _).
       let ty = rdp_neg_type (cc_neg x224); code = rdp_neg_code (cc_neg x224); n = w_nego w in
       if ty = RDP_NEG_RSP \<and> code = PROTOCOL_HYBRID then
         activate_ssl_hybrid env (w\<lparr>w_nego := n\<lparr>n_selected_protocol := code\<rparr>\<rparr>)
       else if ty = RDP_NEG_RSP \<and> code = PROTOCOL_TLS then
         (if n_tls_only n then activate_ssl_tls env (w\<lparr>w_nego := n\<lparr>n_selected_protocol := code\<rparr>\<rparr>)
          else Inl ERR_NEGO_SSL_ONLY_FORBIDDEN)
       else if ty = RDP_NEG_RSP \<and> code = PROTOCOL_RDP \<or> ty = RDP_NEG_NONE then
         (if n_rdp_legacy n
          then Inr (Final, w\<lparr>w_nego := n\<lparr>n_enabled_protocols := NEGO_Rdp, n_selected_protocol := PROTOCOL_RDP\<rparr>\<rparr>)
          else Inl ERR_NEGO_RDP_LEGACY_FORBIDDEN)
       else if ty = RDP_NEG_FAILURE \<and> code = HYBRID_REQUIRED_BY_SERVER then
         Inl (if n_nla_tried n then ERR_NLA_AUTHENTICATION_FAILED else ERR_NEGO_HYBRID_REQUIRED_BY_SERVER)
       else if ty = RDP_NEG_FAILURE \<and> code = SSL_REQUIRED_BY_SERVER then Inl ERR_NEGO_SSL_REQUIRED_BY_SERVER
       else if ty = RDP_NEG_FAILURE \<and> (code = SSL_NOT_ALLOWED_BY_SERVER \<or> code = SSL_CERT_NOT_ON_SERVER) then
         (if \<not> n_rdp_legacy n then Inl ERR_NEGO_SSL_REQUIRED
          else let (connected, w) = trans_connect env (trans_disconnect w) in
            if \<not> connected then Inl ERR_SOCKET_CONNECT_FAILED
            else bindR (send_negotiation_request env (w\<lparr>w_nego := n\<lparr>n_enabled_protocols := NEGO_Rdp\<rparr>\<rparr>)) (\<lambda>w. Inr (Negotiate, w)))
       else Inl ERR_NEGO_INCONSISTENT_FLAGS)"

subsection \<open>Incoming data\<close>

text \<open>
  The loop over the packets of the buffer while the state is \<open>st\<close>; each is handled by \<open>recv\<close>, which gives the next state.
  Without fuel left the value is \<open>None\<close>.
\<close>

fun packet_loop :: "nego_state \<Rightarrow> tpdu_type \<Rightarrow> (u8 list \<Rightarrow> session \<Rightarrow> (nego_state \<times> session) res) \<Rightarrow> nat \<Rightarrow> session \<Rightarrow> session res option" where
  "packet_loop st ty recv 0 w = None"
| "packet_loop st ty recv (Suc fuel) w =
     (if n_state (w_nego w) \<noteq> st then Some (Inr w)
      else case next_packet ty (w_buf w) of
        Inl e \<Rightarrow> Some (Inl e)
      | Inr (False, t) \<Rightarrow> Some (Inr (w\<lparr>w_buf := t\<rparr>))
      | Inr (True, t) \<Rightarrow>
          (case bindR (current_pdu_buffer t) (\<lambda>packet. recv packet (w\<lparr>w_buf := t\<rparr>)) of
             Inl e \<Rightarrow> Some (Inl e)
           | Inr (st', w) \<Rightarrow> packet_loop st ty recv fuel (set_state st' w)))"

definition confirm_loop :: "env \<Rightarrow> nat \<Rightarrow> session \<Rightarrow> session res option" where
  "confirm_loop env = packet_loop Negotiate PDU (recv_connection_confirm env)"

definition credssp_loop :: "env \<Rightarrow> nat \<Rightarrow> session \<Rightarrow> session res option" where
  "credssp_loop env = packet_loop Credssp CREDSSP (\<lambda>_. recv_credssp env)"

definition bytes_left :: "session \<Rightarrow> nat" where
  "bytes_left w = length (av (t_buf (w_buf w)))"

text \<open>
  \<open>input\<close> is what the transport delivers when it is read, or the exception it throws. The result is \<open>True\<close> as
  long as the negotiation goes on.
\<close>

definition recv_next_data :: "env \<Rightarrow> u8 list res \<Rightarrow> session \<Rightarrow> (bool \<times> session) res option" where
  "recv_next_data env input w =
     map_option (map_sum id (\<lambda>w. (n_state (w_nego w) \<noteq> Final, w)))
       (case n_state (w_nego w) of
          Negotiate \<Rightarrow>
            (case bindR input (\<lambda>bs. load_data bs (w_buf w)) of
               Inl e \<Rightarrow> Some (Inl e)
             | Inr t \<Rightarrow> (let w = w\<lparr>w_buf := t\<rparr> in confirm_loop env (bytes_left w + 1) w))
        | SslHybrid \<Rightarrow> Some (map_sum id (\<lambda>(st, w). set_state st w) (activate_ssl_hybrid env w))
        | Tls \<Rightarrow> Some (map_sum id (\<lambda>(st, w). set_state st w) (activate_ssl_tls env w))
        | Credssp \<Rightarrow>
            (case input of
               Inl e \<Rightarrow> Some (map_sum id (\<lambda>(st, w). set_state st w) (fallback_to_tls env w))
             | Inr bs \<Rightarrow>
                 (case load_data bs (w_buf w) of
                    Inl e \<Rightarrow> Some (Inl e)
                  | Inr t \<Rightarrow> (let w = w\<lparr>w_buf := t\<rparr> in
                      case credssp_loop env (bytes_left w + 1) w of
                        None \<Rightarrow> None
                      | Some (Inl e) \<Rightarrow> Some (Inl e)
                      | Some (Inr w) \<Rightarrow> confirm_loop env (bytes_left w + 1) w)))
        | Final \<Rightarrow> Some (Inr w))"

subsection \<open>The session\<close>

text \<open>
  The parameters of \<open>RdpNegociation\<close> (\<open>mod/rdp/rdp_negociation.cpp\<close>) that the negotiation uses; the password is
  the text of the configuration, several passwords between SOH characters.
\<close>

record nego_config =
  c_username :: "u8 list"
  c_password :: "u8 list"
  c_nla :: bool
  c_krb :: bool
  c_nla_ntlm :: bool
  c_tls_only :: bool
  c_rdp_legacy :: bool
  c_admin_mode :: bool
  c_lb_info :: "u8 list option"

definition mk_session :: "nego_config \<Rightarrow> x224_extractor \<Rightarrow> session res" where
  "mk_session c x =
     bindR (mk_nego (c_username c) (c_nla c) (c_krb c) (c_nla_ntlm c) (c_tls_only c) (c_rdp_legacy c) (c_admin_mode c)) (\<lambda>n.
     bindR (set_identity (SOHSeparatedStringsToMultiSZ 2048 (c_password c)) n) (\<lambda>n.
       let n = (case c_lb_info c of None \<Rightarrow> n | Some info \<Rightarrow> set_lb_info info (length info) n) in
       Inr \<lparr>w_nego = n, w_trans = mk_socket, w_buf = mk_tpdu x, w_calls = 0\<rparr>))"

definition start_negociation :: "env \<Rightarrow> nego_config \<Rightarrow> x224_extractor \<Rightarrow> session res" where
  "start_negociation env c x = bindR (mk_session c x) (send_negotiation_request env)"

text \<open>
  The sessions that a server, the system and OpenSSL can bring about: data arrive, or the system takes more of what
  is kept to be written.
\<close>

inductive negotiates :: "env \<Rightarrow> nego_config \<Rightarrow> session \<Rightarrow> bool" for env c where
  start: "start_negociation env c x = Inr w \<Longrightarrow> negotiates env c w"
| receive: "negotiates env c w \<Longrightarrow> recv_next_data env input w = Some (Inr (run, w2)) \<Longrightarrow> negotiates env c w2"
| flush: "negotiates env c w \<Longrightarrow> send_waiting_data sent (w_trans w) = Inr s \<Longrightarrow> negotiates env c (w\<lparr>w_trans := s\<rparr>)"

end
