(* ===== verification/Nego_Safety.thy ===== *)
theory Nego_Safety
  imports Nego
begin

text \<open>
  What the negotiation of \<open>Nego\<close> ends with, whatever the server does: the states of the socket and of the clients
  that belong to each state, that it ends securely where the configuration asks for it, and what happens on
  the way back from a failed authentication.
\<close>

subsection \<open>The socket\<close>

definition tls_wf :: "socket \<Rightarrow> bool" where
  "tls_wf s \<longleftrightarrow> (sk_tls s \<longleftrightarrow> sk_tls_state s \<noteq> TLS_Uninit)"

text \<open>A handshake that does not fail, with a certificate that is accepted without waiting (or an exception).\<close>

definition tls_good :: "tls_answer \<Rightarrow> bool" where
  "tls_good a \<longleftrightarrow> an_start a \<and> an_ssl a \<noteq> SslError \<and> an_public_key a
     \<and> an_certificate a \<noteq> Inr CertWait \<and> an_certificate a \<noteq> Inr CertInvalid"

abbreviation (input) "tls_works env \<equiv> \<forall>i. tls_good (tls_answer.truncate (env i))"

text \<open>Before the handshake is done; when TLS works, no external event is waited for.\<close>

definition tls_open :: "env \<Rightarrow> socket \<Rightarrow> bool" where
  "tls_open env s \<longleftrightarrow> sk_tls_state s \<noteq> TLS_Ok \<and> (tls_works env \<longrightarrow> sk_tls_state s \<noteq> TLS_WaitCertCb)"

lemma tls_loop_step:
  assumes "tls_loop False a s = Inr (ret, s2)" "sk_tls_state s = TLS_Want"
  shows "sk_tls s2 = sk_tls s" "sk_tls_state s2 \<noteq> TLS_Uninit" "ret = TlsOk \<longleftrightarrow> sk_tls_state s2 = TLS_Ok"
    and "tls_good a \<Longrightarrow> ret \<noteq> TlsFail \<and> sk_tls_state s2 \<noteq> TLS_WaitCertCb"
  using assms
  by (cases "an_ssl a"; cases "an_certificate a"; cases "projr (an_certificate a)"; cases "an_public_key a";
      auto simp: tls_loop_def enable_client_tls_loop_def check_certificate_def final_check_certificate_def tls_good_def)+

lemma tls_process_step:
  assumes "tls_process False a s = Inr (ret, s2)" "tls_wf s" "sk_tls_state s \<noteq> TLS_Ok"
  shows "ret \<noteq> TlsFail \<longrightarrow> tls_wf s2" "ret = TlsOk \<longleftrightarrow> sk_tls_state s2 = TLS_Ok"
    and "tls_good a \<Longrightarrow> sk_tls_state s \<noteq> TLS_WaitCertCb \<Longrightarrow> ret \<noteq> TlsFail \<and> sk_tls_state s2 \<noteq> TLS_WaitCertCb"
proof -
  have "(ret \<noteq> TlsFail \<longrightarrow> tls_wf s2) \<and> (ret = TlsOk \<longleftrightarrow> sk_tls_state s2 = TLS_Ok)
    \<and> (tls_good a \<and> sk_tls_state s \<noteq> TLS_WaitCertCb \<longrightarrow> ret \<noteq> TlsFail \<and> sk_tls_state s2 \<noteq> TLS_WaitCertCb)"
  proof (cases "sk_tls_state s")
    case TLS_Uninit
    with assms show ?thesis using tls_loop_step [of a "s\<lparr>sk_tls := True, sk_tls_state := TLS_Want\<rparr>" ret s2]
      by (auto simp: tls_process_def tls_wf_def tls_good_def Let_def split: if_splits)
  next
    case TLS_Want
    with assms show ?thesis using tls_loop_step [of a s ret s2] by (auto simp: tls_process_def tls_wf_def)
  next
    case TLS_WaitCertCb
    with assms show ?thesis by (auto simp: tls_process_def tls_wf_def bindR_eq_Inr split: if_splits)
  qed (use assms in simp)
  then show "ret \<noteq> TlsFail \<longrightarrow> tls_wf s2" "ret = TlsOk \<longleftrightarrow> sk_tls_state s2 = TLS_Ok"
    "tls_good a \<Longrightarrow> sk_tls_state s \<noteq> TLS_WaitCertCb \<Longrightarrow> ret \<noteq> TlsFail \<and> sk_tls_state s2 \<noteq> TLS_WaitCertCb" by blast+
qed

lemma tls_step:
  assumes "socket_enable_client_tls False a s = Inr (ret, s2)" "tls_wf s" "sk_tls_state s \<noteq> TLS_Ok"
  shows "tls_wf s2" "ret = TlsOk \<longleftrightarrow> sk_tls_state s2 = TLS_Ok"
    and "tls_good a \<Longrightarrow> sk_tls_state s \<noteq> TLS_WaitCertCb \<Longrightarrow> ret \<noteq> TlsFail \<and> sk_tls_state s2 \<noteq> TLS_WaitCertCb"
proof -
  obtain s1 where s1: "tls_process False a s = Inr (ret, s1)" "s2 = (if ret = TlsFail then reset_tls s1 else s1)"
    using assms(1) by (auto simp: socket_enable_client_tls_def bindR_eq_Inr)
  note step = tls_process_step [OF s1(1) assms(2,3)]
  show "tls_wf s2" "ret = TlsOk \<longleftrightarrow> sk_tls_state s2 = TLS_Ok" using s1(2) step(1,2) by (auto simp: reset_tls_def tls_wf_def)
  show "ret \<noteq> TlsFail \<and> sk_tls_state s2 \<noteq> TLS_WaitCertCb" if "tls_good a" "sk_tls_state s \<noteq> TLS_WaitCertCb"
    using s1(2) step(3) [OF that] by simp
qed

lemma may_go_on:
  "(case ret of TlsWaitExternalEvent \<Rightarrow> False | TlsWant \<Rightarrow> False | TlsFail \<Rightarrow> True | TlsOk \<Rightarrow> True)
    \<longleftrightarrow> ret = TlsOk \<or> ret = TlsFail"
  by (cases ret) simp_all

lemma enable_client_tls_step:
  assumes "nego_enable_client_tls env w = Inr (ok, w2)" "tls_wf (w_trans w)" "tls_open env (w_trans w)"
  shows "w_nego w2 = w_nego w" "w_buf w2 = w_buf w" "tls_wf (w_trans w2)"
    and "\<not> ok \<Longrightarrow> tls_open env (w_trans w2)"
    and "ok \<Longrightarrow> tls_works env \<Longrightarrow> sk_tls_state (w_trans w2) = TLS_Ok"
proof -
  from assms(1) obtain ret s where s: "socket_enable_client_tls False (tls_answer.truncate (env (w_calls w))) (w_trans w) = Inr (ret, s)"
    and w2: "w2 = w\<lparr>w_trans := s, w_calls := Suc (w_calls w)\<rparr>" and ok: "ok \<longleftrightarrow> ret = TlsOk \<or> ret = TlsFail"
    by (auto simp: nego_enable_client_tls_def may_go_on bindR_eq_Inr Let_def)
  from assms(3) have o: "sk_tls_state (w_trans w) \<noteq> TLS_Ok" "tls_works env \<Longrightarrow> sk_tls_state (w_trans w) \<noteq> TLS_WaitCertCb"
    by (auto simp: tls_open_def)
  note step = tls_step [OF s assms(2) o(1)]
  show "w_nego w2 = w_nego w" "w_buf w2 = w_buf w" "tls_wf (w_trans w2)" using w2 step(1) by simp_all
  show "tls_open env (w_trans w2)" if "\<not> ok" using that ok step(2,3) o(2) w2 by (auto simp: tls_open_def)
  show "sk_tls_state (w_trans w2) = TLS_Ok" if "ok" "tls_works env" using that ok step(2,3) o(2) w2 by auto
qed

subsection \<open>The parts of a session that stay\<close>

lemma trans_send_keeps:
  assumes "trans_send env bs w = Inr w2"
  shows "w_nego w2 = w_nego w" "w_buf w2 = w_buf w"
    "sk_tls_state (w_trans w2) = sk_tls_state (w_trans w)" "sk_tls (w_trans w2) = sk_tls (w_trans w)"
  using assms by (auto simp: trans_send_def do_send_def bindR_eq_Inr split: if_splits option.splits)

lemma trans_connect_keeps:
  assumes "trans_connect env w = (ok, w2)"
  shows "w_nego w2 = w_nego w" "w_buf w2 = w_buf w"
    "sk_tls_state (w_trans w2) = sk_tls_state (w_trans w)" "sk_tls (w_trans w2) = sk_tls (w_trans w)"
  using assms by (auto simp: trans_connect_def connect_def Let_def split: if_splits)

lemma send_waiting_data_keeps:
  assumes "send_waiting_data sent s = Inr s2"
  shows "sk_tls_state s2 = sk_tls_state s" "sk_tls s2 = sk_tls s"
  using assms by (auto simp: send_waiting_data_def bindR_eq_Inr assertR_eq_Inr)

text \<open>The places the password pointer can get to in the array.\<close>

inductive password_at :: "u8 list \<Rightarrow> nat \<Rightarrow> bool" for A where
  first: "password_at A 0"
| later: "password_at A p \<Longrightarrow> cstr_len (drop p A) = Inr n \<Longrightarrow> password_at A (p + n + 1)"

lemma cstr_len_take: "cstr_len xs = Inr n \<Longrightarrow> length (take n xs) = n"
  using cstr_len_bound by fastforce

text \<open>What of the configuration stays, and where the password pointer is.\<close>

definition nego_wf :: "nego_config \<Rightarrow> nego \<Rightarrow> bool" where
  "nego_wf c n \<longleftrightarrow> n_tls n \<and> n_nla n = c_nla c \<and> n_krb n = (c_nla c \<and> c_krb c) \<and> n_nla_ntlm_fallback n = c_nla_ntlm c
     \<and> n_tls_only n = c_tls_only c \<and> n_rdp_legacy n = c_rdp_legacy c \<and> n_restricted_admin_mode n = c_admin_mode c
     \<and> (n_krb_state n \<longrightarrow> c_nla c)
     \<and> (if c_nla c then MultiSZCopy 2048 (SOHSeparatedStringsToMultiSZ 2048 (c_password c)) = Inr (n_password n)
          \<and> (\<exists>p. n_current_password n = Some p \<and> password_at (n_password n) p \<and> p < length (n_password n))
        else n_current_password n = None)"

lemma nego_wf_update [simp]:
  "nego_wf c (n\<lparr>n_enabled_protocols := e\<rparr>) = nego_wf c n"
  "nego_wf c (n\<lparr>n_selected_protocol := e\<rparr>) = nego_wf c n"
  "nego_wf c (n\<lparr>n_nla_tried := b\<rparr>) = nego_wf c n"
  "nego_wf c (n\<lparr>n_NTLM := b\<rparr>) = nego_wf c n"
  "nego_wf c (n\<lparr>n_credsspKerberos := b\<rparr>) = nego_wf c n"
  "nego_wf c (n\<lparr>n_state := st\<rparr>) = nego_wf c n"
  by (simp_all add: nego_wf_def)

lemma nego_wf_krb_state:
  "nego_wf c n \<Longrightarrow> nego_wf c (n\<lparr>n_krb_state := False\<rparr>)"
  "nego_wf c n \<Longrightarrow> nego_wf c (n\<lparr>n_krb_state := n_krb n\<rparr>)"
  by (simp_all add: nego_wf_def)

text \<open>What belongs to each state.\<close>

definition credssp_done :: "env \<Rightarrow> bool" where
  "credssp_done env \<longleftrightarrow> (\<exists>i token. an_next (env i) = Inr (Finish, token))"

definition state_wf :: "env \<Rightarrow> nego_config \<Rightarrow> nego_state \<Rightarrow> session \<Rightarrow> bool" where
  "state_wf env c st w \<longleftrightarrow> nego_wf c (w_nego w) \<and> tls_wf (w_trans w) \<and>
     (case st of
        Negotiate \<Rightarrow> sk_tls_state (w_trans w) = TLS_Uninit
      | SslHybrid \<Rightarrow> n_selected_protocol (w_nego w) = PROTOCOL_HYBRID \<and> tls_open env (w_trans w)
      | Tls \<Rightarrow> n_selected_protocol (w_nego w) = PROTOCOL_TLS \<and> c_tls_only c \<and> tls_open env (w_trans w)
      | Credssp \<Rightarrow> n_selected_protocol (w_nego w) = PROTOCOL_HYBRID \<and> c_nla c \<and> n_nla_tried (w_nego w)
          \<and> (if n_krb_state (w_nego w) then n_credsspKerberos (w_nego w) else n_NTLM (w_nego w))
          \<and> (tls_works env \<longrightarrow> sk_tls_state (w_trans w) = TLS_Ok)
      | Final \<Rightarrow>
          n_selected_protocol (w_nego w) = PROTOCOL_HYBRID \<and> c_nla c \<and> credssp_done env
            \<and> (tls_works env \<longrightarrow> sk_tls_state (w_trans w) = TLS_Ok)
          \<or> n_selected_protocol (w_nego w) = PROTOCOL_TLS \<and> c_tls_only c
            \<and> (tls_works env \<longrightarrow> sk_tls_state (w_trans w) = TLS_Ok)
          \<or> n_selected_protocol (w_nego w) = PROTOCOL_RDP \<and> c_rdp_legacy c \<and> n_enabled_protocols (w_nego w) = NEGO_Rdp)"

lemma next_password_moves:
  assumes "next_password n = Inr n2" "nego_wf c n"
  obtains p len where "n_current_password n = Some p" "cstr_len (drop p (n_password n)) = Inr len"
    "n2 = n\<lparr>n_current_password := Some (p + len + 1)\<rparr>" "c_nla c"
proof -
  from assms obtain p len where p: "n_current_password n = Some p" "cstr_len (drop p (n_password n)) = Inr len"
    and n2: "n2 = n\<lparr>n_current_password := Some (p + len + 1)\<rparr>"
    using cstr_len_take by (fastforce simp: next_password_def current_password_text_def bindR_eq_Inr split: option.splits)
  with assms(2) have "c_nla c" by (auto simp: nego_wf_def split: if_splits)
  with p n2 that show thesis by blast
qed

text \<open>The pointer is behind the array only until it is read.\<close>

lemma next_password_wf:
  assumes "next_password n = Inr n2" "has_password n2 = Inr again" "nego_wf c n"
  shows "nego_wf c n2"
proof (rule next_password_moves [OF assms(1,3)])
  fix p len
  assume p: "n_current_password n = Some p" "cstr_len (drop p (n_password n)) = Inr len"
    "n2 = n\<lparr>n_current_password := Some (p + len + 1)\<rparr>" "c_nla c"
  then have "p + len + 1 < length (n_password n)" using assms(2) by (simp add: has_password_def assertR_eq_Inr)
  then show ?thesis using assms(3) p password_at.later [of "n_password n" p len] by (auto simp: nego_wf_def)
qed

lemma send_negotiation_request_keeps:
  assumes "send_negotiation_request env w = Inr w2"
  shows "w_nego w2 = w_nego w" "w_buf w2 = w_buf w"
    "sk_tls_state (w_trans w2) = sk_tls_state (w_trans w)" "sk_tls (w_trans w2) = sk_tls (w_trans w)"
  using assms trans_send_keeps by (auto simp: send_negotiation_request_def bindR_eq_Inr)

text \<open>The way back: whatever the state of the socket was.\<close>

lemma fallback_wf:
  assumes "fallback_to_tls env w = Inr (st, w2)" "nego_wf c (w_nego w)"
  shows "st = Negotiate" "state_wf env c Negotiate w2" "w_buf w2 = w_buf w"
proof -
  obtain ok w1 where w1: "trans_connect env (trans_disconnect w) = (ok, w1)" by fastforce
  note k = trans_connect_keeps [OF w1]
  have k1: "w_nego w1 = w_nego w" by (simp add: k trans_disconnect_def)
  from assms(1) obtain n more w3 where n: "next_password (w_nego w) = Inr n" "has_password n = Inr more" and w3: "send_negotiation_request env w3 = Inr w2"
    "w3 = w1\<lparr>w_nego := n\<lparr>n_krb_state := n_krb n\<rparr>\<rparr> \<or> w3 = w1\<lparr>w_nego := n\<lparr>n_enabled_protocols := NEGO_Tls OR NEGO_Rdp\<rparr>\<rparr>"
    and st: "st = Negotiate"
    unfolding fallback_to_tls_def w1 Let_def prod.case k1 by (auto simp: bindR_eq_Inr split: if_splits)
  have n2: "nego_wf c n" by (rule next_password_wf [OF n assms(2)])
  note s = send_negotiation_request_keeps [OF w3(1)]
  show "st = Negotiate" by (rule st)
  show "w_buf w2 = w_buf w" using w3(2) s k by (auto simp: trans_disconnect_def)
  have "nego_wf c (w_nego w2)" using w3(2) s(1) n2 nego_wf_krb_state by auto
  moreover have "sk_tls_state (w_trans w2) = TLS_Uninit" "\<not> sk_tls (w_trans w2)"
    using w3(2) s(3,4) k(3,4) by (auto simp: trans_disconnect_def disconnect_def reset_tls_def)
  ultimately show "state_wf env c Negotiate w2" by (simp add: state_wf_def tls_wf_def)
qed

lemma activate_ntlm_wf:
  assumes "activate_ntlm env w = Inr (st, w2)" "nego_wf c (w_nego w)" "tls_wf (w_trans w)"
    and "n_selected_protocol (w_nego w) = PROTOCOL_HYBRID" "n_nla_tried (w_nego w)" "\<not> n_krb_state (w_nego w)"
    and "tls_works env \<Longrightarrow> sk_tls_state (w_trans w) = TLS_Ok"
  shows "state_wf env c st w2 \<and> w_buf w2 = w_buf w"
proof -
  let ?w = "w\<lparr>w_nego := (w_nego w)\<lparr>n_NTLM := True\<rparr>\<rparr>"
  from assms(1) obtain pw where pw: "current_password_text (w_nego w) = Inr pw"
    by (auto simp: activate_ntlm_def bindR_eq_Inr)
  with assms(2) have nla: "c_nla c" by (auto simp: current_password_text_def nego_wf_def split: option.splits if_splits)
  let ?started = "bindR (an_ntlm (env (w_calls w)) pw) (\<lambda>token. trans_send env token ?w)"
  have "(case ?started of Inl e \<Rightarrow> fallback_to_tls env ?w | Inr w \<Rightarrow> Inr (Credssp, w)) = Inr (st, w2)"
    using assms(1) by (simp add: activate_ntlm_def pw Let_def)
  then consider (fallback) "fallback_to_tls env ?w = Inr (st, w2)"
    | (started) token where "trans_send env token ?w = Inr w2" "st = Credssp"
    by (cases ?started) (auto simp: bindR_eq_Inr)
  then show ?thesis
  proof cases
    case fallback
    then show ?thesis using fallback_wf [OF fallback, of c] assms(2) by simp
  next
    case started
    note k = trans_send_keeps [OF started(1)]
    show ?thesis using started(2) k assms nla by (auto simp: state_wf_def tls_wf_def)
  qed
qed

lemma activate_ssl_hybrid_wf:
  assumes "activate_ssl_hybrid env w = Inr (st, w2)" "nego_wf c (w_nego w)" "tls_wf (w_trans w)" "tls_open env (w_trans w)"
    and "n_selected_protocol (w_nego w) = PROTOCOL_HYBRID"
  shows "state_wf env c st w2 \<and> w_buf w2 = w_buf w"
proof -
  obtain ok w1 where w1: "nego_enable_client_tls env w = Inr (ok, w1)"
    using assms(1) by (auto simp: activate_ssl_hybrid_def bindR_eq_Inr)
  note e = enable_client_tls_step [OF w1 assms(3,4)]
  show ?thesis
  proof (cases ok)
    case False
    then show ?thesis using assms(1,2,5) e w1 by (auto simp: activate_ssl_hybrid_def state_wf_def)
  next
    case True
    define w3 where "w3 = w1\<lparr>w_nego := (w_nego w1)\<lparr>n_nla_tried := True\<rparr>\<rparr>"
    have w3: "nego_wf c (w_nego w3)" "tls_wf (w_trans w3)" "n_selected_protocol (w_nego w3) = PROTOCOL_HYBRID"
      "n_nla_tried (w_nego w3)" "w_buf w3 = w_buf w" "tls_works env \<Longrightarrow> sk_tls_state (w_trans w3) = TLS_Ok"
      using assms(2,5) e True by (simp_all add: w3_def)
    have h: "(if n_krb_state (w_nego w3) then bindR (start_kerberos env w3) (\<lambda>started. case started of
          Inr w \<Rightarrow> Inr (Credssp, w)
        | Inl e \<Rightarrow> if \<not> n_nla_ntlm_fallback (w_nego w3) then fallback_to_tls env w3
            else activate_ntlm env (w3\<lparr>w_calls := Suc (w_calls w3), w_nego := (w_nego w3)\<lparr>n_krb_state := False\<rparr>\<rparr>))
      else activate_ntlm env w3) = Inr (st, w2)"
      using assms(1) True unfolding activate_ssl_hybrid_def w1 bindR_simps prod.case Let_def w3_def [symmetric]
      by (simp only: simp_thms if_False)
    consider
        (krb) token w4 where "n_krb_state (w_nego w3)" "trans_send env token w3 = Inr w4" "st = Credssp"
          "w2 = w4\<lparr>w_nego := (w_nego w4)\<lparr>n_credsspKerberos := True\<rparr>\<rparr>"
      | (failed) "fallback_to_tls env w3 = Inr (st, w2)"
      | (ntlm) "activate_ntlm env (w3\<lparr>w_calls := Suc (w_calls w3), w_nego := (w_nego w3)\<lparr>n_krb_state := False\<rparr>\<rparr>) = Inr (st, w2)"
      | (plain) "\<not> n_krb_state (w_nego w3)" "activate_ntlm env w3 = Inr (st, w2)"
    proof (cases "n_krb_state (w_nego w3)")
      case True
      with h obtain started where s: "start_kerberos env w3 = Inr started" by (auto simp: bindR_eq_Inr)
      show thesis
      proof (cases started)
        case (Inl e)
        with h s True that(2,3) show thesis by (simp split: if_splits)
      next
        case (Inr w5)
        with s obtain token w4 where "trans_send env token w3 = Inr w4" "w5 = w4\<lparr>w_nego := (w_nego w4)\<lparr>n_credsspKerberos := True\<rparr>\<rparr>"
          by (auto simp: start_kerberos_def bindR_eq_Inr)
        with h s True Inr that(1) show thesis by auto
      qed
    qed (use h that(4) in simp)
    then show ?thesis
    proof cases
      case krb
      note k = trans_send_keeps [OF krb(2)]
      from krb(1) w3(1) have "c_nla c" by (simp add: nego_wf_def)
      then show ?thesis using krb k w3 by (auto simp: state_wf_def tls_wf_def)
    next
      case failed
      then show ?thesis using fallback_wf [OF failed w3(1)] w3(5) by simp
    next
      case ntlm
      then show ?thesis using activate_ntlm_wf [OF ntlm, of c] w3 nego_wf_krb_state(1) by simp
    next
      case plain
      then show ?thesis using activate_ntlm_wf [OF plain(2) w3(1-4) plain(1) w3(6)] w3(5) by simp
    qed
  qed
qed

lemma activate_ssl_tls_wf:
  assumes "activate_ssl_tls env w = Inr (st, w2)" "nego_wf c (w_nego w)" "tls_wf (w_trans w)" "tls_open env (w_trans w)"
    and "n_selected_protocol (w_nego w) = PROTOCOL_TLS" "c_tls_only c"
  shows "state_wf env c st w2 \<and> w_buf w2 = w_buf w"
proof -
  obtain ok where w1: "nego_enable_client_tls env w = Inr (ok, w2)" and st: "st = (if ok then Final else Tls)"
    using assms(1) by (auto simp: activate_ssl_tls_def bindR_eq_Inr)
  note e = enable_client_tls_step [OF w1 assms(3,4)]
  show ?thesis using assms(2,5,6) e st by (auto simp: state_wf_def)
qed

lemma recv_credssp_wf:
  assumes "recv_credssp env w = Inr (st, w2)" "state_wf env c Credssp w"
  shows "state_wf env c st w2 \<and> w_buf w2 = w_buf w"
proof -
  from assms(1) obtain state token where a: "an_next (env (w_calls w)) = Inr (state, token)"
    by (auto simp: recv_credssp_def assertR_eq_Inr bindR_eq_Inr)
  have nego: "nego_wf c (w_nego w)" using assms(2) by (simp add: state_wf_def)
  show ?thesis
  proof (cases state)
    case Cont
    with assms(1) a obtain w1 where w1: "trans_send env token w = Inr w1" "st = Credssp" "w2 = w1"
      by (auto simp: recv_credssp_def assertR_eq_Inr bindR_eq_Inr)
    from trans_send_keeps [OF w1(1)] w1(2,3) assms(2) show ?thesis by (simp add: state_wf_def tls_wf_def)
  next
    case Err
    with assms(1) a have "fallback_to_tls env (w\<lparr>w_calls := Suc (w_calls w)\<rparr>) = Inr (st, w2)"
      by (simp add: recv_credssp_def assertR_eq_Inr)
    from fallback_wf [OF this, of c] nego show ?thesis by simp
  next
    case Finish
    from assms(1) obtain w1 where w1: "trans_send env token w = Inr w1" "st = Final"
      "w2 = w1\<lparr>w_nego := (if n_krb_state (w_nego w1) then (w_nego w1)\<lparr>n_credsspKerberos := False\<rparr> else (w_nego w1)\<lparr>n_NTLM := False\<rparr>)\<rparr>"
      unfolding recv_credssp_def assertR_eq_Inr a bindR_simps prod.case Finish credssp_state.case bindR_eq_Inr
      by (elim conjE exE) simp
    have "credssp_done env" using a Finish by (auto simp: credssp_done_def)
    with trans_send_keeps [OF w1(1)] w1(2-) assms(2) show ?thesis by (auto simp: state_wf_def tls_wf_def)
  qed
qed

lemma recv_connection_confirm_wf:
  assumes "recv_connection_confirm env packet w = Inr (st, w2)" "state_wf env c Negotiate w"
  shows "state_wf env c st w2 \<and> w_buf w2 = w_buf w"
proof -
  have n: "nego_wf c (w_nego w)" "tls_wf (w_trans w)" "tls_open env (w_trans w)"
    using assms(2) by (simp_all add: state_wf_def tls_open_def)
  have leg: "n_rdp_legacy (w_nego w) = c_rdp_legacy c" "n_tls_only (w_nego w) = c_tls_only c" using n(1) by (simp_all add: nego_wf_def)
  from assms(1) consider
      (hybrid) "activate_ssl_hybrid env (w\<lparr>w_nego := (w_nego w)\<lparr>n_selected_protocol := PROTOCOL_HYBRID\<rparr>\<rparr>) = Inr (st, w2)"
    | (tls) "activate_ssl_tls env (w\<lparr>w_nego := (w_nego w)\<lparr>n_selected_protocol := PROTOCOL_TLS\<rparr>\<rparr>) = Inr (st, w2)" "n_tls_only (w_nego w)"
    | (legacy) "n_rdp_legacy (w_nego w)" "st = Final"
        "w2 = w\<lparr>w_nego := (w_nego w)\<lparr>n_enabled_protocols := NEGO_Rdp, n_selected_protocol := PROTOCOL_RDP\<rparr>\<rparr>"
    | (again) ok w1 where "trans_connect env (trans_disconnect w) = (ok, w1)" "st = Negotiate"
        "send_negotiation_request env (w1\<lparr>w_nego := (w_nego w)\<lparr>n_enabled_protocols := NEGO_Rdp\<rparr>\<rparr>) = Inr w2"
    unfolding recv_connection_confirm_def Let_def by (auto simp: bindR_eq_Inr split: if_splits prod.splits)
  then show ?thesis
  proof cases
    case hybrid
    then show ?thesis using activate_ssl_hybrid_wf [OF hybrid, of c] n by simp
  next
    case tls
    then show ?thesis using activate_ssl_tls_wf [OF tls(1), of c] n leg by simp
  next
    case legacy
    then show ?thesis using n leg by (simp add: state_wf_def)
  next
    case again
    note k = trans_connect_keeps [OF again(1)] and s = send_negotiation_request_keeps [OF again(3)]
    show ?thesis using again(2) k s n
      by (simp add: state_wf_def tls_wf_def trans_disconnect_def disconnect_def reset_tls_def)
  qed
qed

subsection \<open>The packet loops\<close>

text \<open>The bytes of the buffer that no packet has taken.\<close>

definition unconsumed :: "tpdu \<Rightarrow> nat" where
  "unconsumed t = length (av (t_buf t)) - (case t_state t of RHeader \<Rightarrow> unat (t_pdu_len t) | RData \<Rightarrow> 0)"

lemma extract_packet_consumes:
  assumes "extract_packet rh pd t = Inr (True, t2)" "current_pdu_buffer t2 = Inr packet"
  shows "unconsumed t2 < unconsumed t"
proof (cases "t_state t")
  case RHeader
  from assms(1) RHeader obtain b where b: "advance (unat (t_pdu_len t)) (t_buf t) = Inr b"
    by (auto simp: extract_packet_def consume_current_packet_def bindR_eq_Inr)
  from assms(1) RHeader obtain n x2 where t2: "t2 = t\<lparr>t_buf := b, t_pdu_len := n, t_x224 := x2\<rparr>"
    by (cases "rh (av b) (t_x224 t)"; cases "fst (projr (rh (av b) (t_x224 t)))")
      (auto simp: extract_packet_def consume_current_packet_def b Let_def bindR_eq_Inr split: if_splits)
  from b have "length (av b) = length (av (t_buf t)) - unat (t_pdu_len t)"
    by (auto simp: advance_def assertR_eq_Inr remaining_def av_def)
  moreover from assms(2) t2 have "n \<noteq> 0" "unat n \<le> length (av b)"
    by (auto simp: current_pdu_buffer_def assertR_eq_Inr remaining_av)
  moreover from this(1) have "0 < unat n" by (simp add: unat_gt_0)
  ultimately show ?thesis using t2 RHeader by (simp add: unconsumed_def)
next
  case RData
  with assms(1) obtain x where t2: "t2 = t\<lparr>t_state := RHeader, t_x224 := x\<rparr>"
    by (auto simp: extract_packet_def bindR_eq_Inr split: if_splits)
  from assms(2) t2 have "t_pdu_len t \<noteq> 0" "unat (t_pdu_len t) \<le> length (av (t_buf t))"
    by (auto simp: current_pdu_buffer_def assertR_eq_Inr remaining_av)
  moreover from this(1) have "0 < unat (t_pdu_len t)" by (simp add: unat_gt_0)
  ultimately show ?thesis using t2 RData by (simp add: unconsumed_def)
qed

lemma next_packet_consumes:
  "next_packet ty t = Inr (True, t2) \<Longrightarrow> current_pdu_buffer t2 = Inr packet \<Longrightarrow> unconsumed t2 < unconsumed t"
  by (cases ty) (auto simp: next_packet_def intro: extract_packet_consumes)

lemma unconsumed_le: "unconsumed (w_buf w) < bytes_left w + 1"
  by (simp add: unconsumed_def bytes_left_def)

text \<open>
  What the handler of the packets of one state owes the loop: it keeps what belongs to each state, and leaves the
  buffer to the loop.
\<close>

locale packet_handler =
  fixes st :: nego_state
    and recv :: "u8 list \<Rightarrow> session \<Rightarrow> (nego_state \<times> session) res"
    and wf :: "nego_state \<Rightarrow> session \<Rightarrow> bool"
  assumes handled: "recv packet w = Inr (st2, w2) \<Longrightarrow> wf st w \<Longrightarrow> wf st2 w2 \<and> w_buf w2 = w_buf w"
    and wf_buf: "wf s (w\<lparr>w_buf := t\<rparr>) = wf s w"
    and wf_state: "wf s (set_state s2 w) = wf s w"
begin

abbreviation well_formed :: "session \<Rightarrow> bool" where
  "well_formed w \<equiv> wf (n_state (w_nego w)) w"

lemma loop_turn:
  assumes "well_formed w" "n_state (w_nego w) = st" "next_packet ty (w_buf w) = Inr (True, t)"
    and "bindR (current_pdu_buffer t) (\<lambda>packet. recv packet (w\<lparr>w_buf := t\<rparr>)) = Inr (st2, w2)"
  shows "well_formed (set_state st2 w2)" "unconsumed (w_buf (set_state st2 w2)) < unconsumed (w_buf w)"
proof -
  from assms(4) obtain packet where p: "current_pdu_buffer t = Inr packet" "recv packet (w\<lparr>w_buf := t\<rparr>) = Inr (st2, w2)"
    by (auto simp: bindR_eq_Inr)
  from handled [OF p(2)] assms(1,2) have "wf st2 w2" "w_buf w2 = t" by (simp_all add: wf_buf)
  then show "well_formed (set_state st2 w2)" "unconsumed (w_buf (set_state st2 w2)) < unconsumed (w_buf w)"
    using next_packet_consumes [OF assms(3) p(1)] wf_state by (simp_all add: set_state_def)
qed

lemma loop_keeps: "packet_loop st ty recv fuel w = Some (Inr w2) \<Longrightarrow> well_formed w \<Longrightarrow> well_formed w2"
proof (induction fuel arbitrary: w)
  case (Suc fuel)
  show ?case
  proof (cases "n_state (w_nego w) = st")
    case True
    with Suc.prems(1) consider (finished) t where "w2 = w\<lparr>w_buf := t\<rparr>"
      | (more) t st2 w3 where "next_packet ty (w_buf w) = Inr (True, t)"
          "bindR (current_pdu_buffer t) (\<lambda>packet. recv packet (w\<lparr>w_buf := t\<rparr>)) = Inr (st2, w3)"
          "packet_loop st ty recv fuel (set_state st2 w3) = Some (Inr w2)"
      by (auto split: sum.splits prod.splits bool.splits)
    then show ?thesis
    proof cases
      case finished
      with Suc.prems(2) show ?thesis by (simp add: wf_buf)
    next
      case more
      then show ?thesis using Suc.IH loop_turn(1) [OF Suc.prems(2) True] by blast
    qed
  qed (use Suc.prems in simp)
qed simp

lemma loop_ends: "well_formed w \<Longrightarrow> unconsumed (w_buf w) < fuel \<Longrightarrow> packet_loop st ty recv fuel w \<noteq> None"
proof (induction fuel arbitrary: w)
  case (Suc fuel)
  note turn = loop_turn [OF Suc.prems(1)]
  have "packet_loop st ty recv fuel (set_state st2 w2) \<noteq> None"
    if "n_state (w_nego w) = st" "next_packet ty (w_buf w) = Inr (True, t)"
      "bindR (current_pdu_buffer t) (\<lambda>packet. recv packet (w\<lparr>w_buf := t\<rparr>)) = Inr (st2, w2)" for t st2 w2
    using turn [OF that] Suc.IH [of "set_state st2 w2"] Suc.prems(2) by simp
  then show ?case by (auto split: sum.splits prod.splits bool.splits)
qed simp

end

declare packet_loop.simps [simp del]

lemma state_wf_buf: "state_wf env c st (w\<lparr>w_buf := t\<rparr>) = state_wf env c st w"
  by (cases st) (simp_all add: state_wf_def)

lemma state_wf_state: "state_wf env c st (set_state st2 w) = state_wf env c st w"
  by (cases st) (simp_all add: state_wf_def set_state_def)

interpretation confirm: packet_handler Negotiate "recv_connection_confirm env" "state_wf env c" for env c
  by unfold_locales (auto simp: state_wf_buf state_wf_state dest: recv_connection_confirm_wf)

interpretation credssp: packet_handler Credssp "\<lambda>_. recv_credssp env" "state_wf env c" for env c
  by unfold_locales (auto simp: state_wf_buf state_wf_state dest: recv_credssp_wf)

abbreviation (input) "session_wf env c w \<equiv> state_wf env c (n_state (w_nego w)) w"

subsection \<open>Sessions\<close>

lemma length_MultiSZCopy: "MultiSZCopy N src = Inr bs \<Longrightarrow> length bs = max N (min N 2)"
  by (auto simp: MultiSZCopy_def Let_def bindR_eq_Inr assertR_eq_Inr)

lemma mk_session_wf:
  assumes "mk_session c x = Inr w"
  shows "state_wf env c Negotiate w" "n_state (w_nego w) = Negotiate" "w_buf w = mk_tpdu x"
proof -
  from assms obtain n n2 where n: "mk_nego (c_username c) (c_nla c) (c_krb c) (c_nla_ntlm c) (c_tls_only c) (c_rdp_legacy c) (c_admin_mode c) = Inr n"
    "set_identity (SOHSeparatedStringsToMultiSZ 2048 (c_password c)) n = Inr n2"
    "w = \<lparr>w_nego = (case c_lb_info c of None \<Rightarrow> n2 | Some info \<Rightarrow> set_lb_info info (length info) n2), w_trans = mk_socket, w_buf = mk_tpdu x, w_calls = 0\<rparr>"
    by (auto simp: mk_session_def Let_def bindR_eq_Inr)
  from n(1,2) have n2: "nego_wf c n2" "n_state n2 = Negotiate"
    by (auto simp: mk_nego_def set_identity_def nego_wf_def Let_def bindR_eq_Inr password_at.first length_MultiSZCopy split: if_splits)
  have "nego_wf c (w_nego w)" "n_state (w_nego w) = Negotiate"
    using n2 n(3) by (auto simp: set_lb_info_def nego_wf_def split: option.splits)
  then show "state_wf env c Negotiate w" "n_state (w_nego w) = Negotiate" "w_buf w = mk_tpdu x"
    using n(3) by (simp_all add: state_wf_def tls_wf_def mk_socket_def)
qed

lemma set_state_wf: "state_wf env c st w \<Longrightarrow> session_wf env c (set_state st w)"
  by (simp add: state_wf_state) (simp add: set_state_def)

lemma map_sum_Inr_eq: "map_sum f g r = Inr y \<longleftrightarrow> (\<exists>a. r = Inr a \<and> y = g a)"
  by (cases r) auto

lemma recv_next_data_wf:
  assumes "recv_next_data env input w = Some (Inr (run, w2))" "session_wf env c w"
  shows "session_wf env c w2 \<and> (run \<longleftrightarrow> n_state (w_nego w2) \<noteq> Final)"
proof -
  have nego: "nego_wf c (w_nego w)" "tls_wf (w_trans w)" using assms(2) by (simp_all add: state_wf_def)
  have run: "run \<longleftrightarrow> n_state (w_nego w2) \<noteq> Final"
    using assms(1) by (auto simp: recv_next_data_def map_sum_Inr_eq)
  show ?thesis
  proof (cases "n_state (w_nego w)")
    case Negotiate
    with assms(1) obtain t where "confirm_loop env (bytes_left (w\<lparr>w_buf := t\<rparr>) + 1) (w\<lparr>w_buf := t\<rparr>) = Some (Inr w2)"
      by (auto simp: recv_next_data_def Let_def map_sum_Inr_eq split: sum.splits)
    then show ?thesis using confirm.loop_keeps [of PDU env _ _ w2 c] assms(2) run by (simp add: confirm_loop_def state_wf_buf)
  next
    case SslHybrid
    with assms obtain st w3 where a: "activate_ssl_hybrid env w = Inr (st, w3)" "w2 = set_state st w3"
      by (auto simp: recv_next_data_def map_sum_Inr_eq)
    from assms(2) SslHybrid have "n_selected_protocol (w_nego w) = PROTOCOL_HYBRID" "tls_open env (w_trans w)"
      by (simp_all add: state_wf_def)
    with activate_ssl_hybrid_wf [OF a(1) nego] show ?thesis using a(2) run set_state_wf by blast
  next
    case Tls
    with assms obtain st w3 where a: "activate_ssl_tls env w = Inr (st, w3)" "w2 = set_state st w3"
      by (auto simp: recv_next_data_def map_sum_Inr_eq)
    from assms(2) Tls have "n_selected_protocol (w_nego w) = PROTOCOL_TLS" "c_tls_only c" "tls_open env (w_trans w)"
      by (simp_all add: state_wf_def)
    with activate_ssl_tls_wf [OF a(1) nego] show ?thesis using a(2) run set_state_wf by blast
  next
    case Credssp
    show ?thesis
    proof (cases input)
      case (Inl e)
      with assms(1) Credssp obtain st w3 where "fallback_to_tls env w = Inr (st, w3)" "w2 = set_state st w3"
        by (auto simp: recv_next_data_def map_sum_Inr_eq)
      then show ?thesis using fallback_wf [of env w st w3 c] nego(1) run set_state_wf by blast
    next
      case (Inr bs)
      with assms(1) Credssp obtain t w3 where
        "credssp_loop env (bytes_left (w\<lparr>w_buf := t\<rparr>) + 1) (w\<lparr>w_buf := t\<rparr>) = Some (Inr w3)"
        "confirm_loop env (bytes_left w3 + 1) w3 = Some (Inr w2)"
        by (auto simp: recv_next_data_def Let_def map_sum_Inr_eq split: sum.splits option.splits)
      then show ?thesis
        using credssp.loop_keeps [of CREDSSP env _ _ w3 c] confirm.loop_keeps [of PDU env _ w3 w2 c] assms(2) run
        by (simp add: confirm_loop_def credssp_loop_def state_wf_buf)
    qed
  next
    case Final
    then show ?thesis using assms run by (simp add: recv_next_data_def)
  qed
qed

lemma negotiates_wf: "negotiates env c w \<Longrightarrow> session_wf env c w"
proof (induction rule: negotiates.induct)
  case (start x w)
  then obtain w0 where w0: "mk_session c x = Inr w0" "send_negotiation_request env w0 = Inr w"
    by (auto simp: start_negociation_def bindR_eq_Inr)
  with mk_session_wf(1) [OF w0(1), where env = env] mk_session_wf(2) [OF w0(1)] send_negotiation_request_keeps [OF w0(2)]
  show ?case by (simp add: state_wf_def tls_wf_def)
next
  case (receive w input run w2)
  then show ?case using recv_next_data_wf by blast
next
  case (flush w sent s)
  note k = send_waiting_data_keeps [OF flush.hyps(2)]
  from flush.IH show ?case
    by (cases "n_state (w_nego w)") (simp_all add: state_wf_def tls_wf_def tls_open_def k)
qed

text \<open>
  C13. Network level authentication is enforced: when neither TLS alone nor legacy encryption is allowed, whatever
  the server does, the negotiation ends only after a CredSSP exchange that was finished; and if TLS works, inside TLS.
\<close>

theorem nla_is_enforced:
  assumes "negotiates env c w" "\<not> c_tls_only c" "\<not> c_rdp_legacy c" "n_state (w_nego w) = Final"
  shows "c_nla c \<and> (\<exists>i token. an_next (env i) = Inr (Finish, token))
    \<and> ((\<forall>i. tls_good (tls_answer.truncate (env i))) \<longrightarrow> sk_tls (w_trans w) \<and> sk_tls_state (w_trans w) = TLS_Ok)"
  using negotiates_wf [OF assms(1)] assms(2-4) by (auto simp: state_wf_def credssp_done_def tls_wf_def)

text \<open>
  C14. As long as TLS works, a negotiation that ends with anything else than legacy encryption ends inside TLS, and
  legacy encryption is only taken where it is allowed.
\<close>

theorem tls_in_effect:
  assumes "negotiates env c w" "\<forall>i. tls_good (tls_answer.truncate (env i))" "n_state (w_nego w) = Final"
  shows "sk_tls (w_trans w) \<and> sk_tls_state (w_trans w) = TLS_Ok
    \<or> c_rdp_legacy c \<and> n_selected_protocol (w_nego w) = PROTOCOL_RDP \<and> \<not> enhanced_rdp_security_is_in_effect (w_nego w)"
  using negotiates_wf [OF assms(1)] assms(2-3)
  by (auto simp: state_wf_def tls_wf_def enhanced_rdp_security_is_in_effect_def)

text \<open>
  C15. Every state a session can be brought to without undefined behaviour is well-formed: the password pointer is in its array (what moves
  it behind, as a server can, reads there at once), and null just when NLA is not configured; there is a TLS context just when the state of
  TLS says so, none while a request is outstanding, and no finished handshake while one is waited for; while CredSSP runs, the client
  in use exists.
\<close>

theorem sessions_well_formed:
  assumes "negotiates env c w"
  shows "(case n_current_password (w_nego w) of
           None \<Rightarrow> \<not> c_nla c | Some p \<Rightarrow> c_nla c \<and> length (n_password (w_nego w)) = 2048 \<and> p < 2048)
    \<and> (sk_tls (w_trans w) \<longleftrightarrow> sk_tls_state (w_trans w) \<noteq> TLS_Uninit)
    \<and> (case n_state (w_nego w) of
         Negotiate \<Rightarrow> \<not> sk_tls (w_trans w)
       | SslHybrid \<Rightarrow> sk_tls_state (w_trans w) \<noteq> TLS_Ok
       | Tls \<Rightarrow> sk_tls_state (w_trans w) \<noteq> TLS_Ok
       | Credssp \<Rightarrow> (if n_krb_state (w_nego w) then n_credsspKerberos (w_nego w) else n_NTLM (w_nego w))
       | Final \<Rightarrow> n_selected_protocol (w_nego w) \<in> {PROTOCOL_RDP, PROTOCOL_TLS, PROTOCOL_HYBRID})"
proof -
  have w: "session_wf env c w" using assms by (rule negotiates_wf)
  then have n: "nego_wf c (w_nego w)" "tls_wf (w_trans w)" by (simp_all add: state_wf_def)
  have p: "case n_current_password (w_nego w) of
      None \<Rightarrow> \<not> c_nla c | Some p \<Rightarrow> c_nla c \<and> length (n_password (w_nego w)) = 2048 \<and> p < 2048"
    using n(1) length_MultiSZCopy [of 2048 _ "n_password (w_nego w)"]
    by (fastforce simp: nego_wf_def split: if_splits)
  from w have "case n_state (w_nego w) of
         Negotiate \<Rightarrow> \<not> sk_tls (w_trans w)
       | SslHybrid \<Rightarrow> sk_tls_state (w_trans w) \<noteq> TLS_Ok
       | Tls \<Rightarrow> sk_tls_state (w_trans w) \<noteq> TLS_Ok
       | Credssp \<Rightarrow> (if n_krb_state (w_nego w) then n_credsspKerberos (w_nego w) else n_NTLM (w_nego w))
       | Final \<Rightarrow> n_selected_protocol (w_nego w) \<in> {PROTOCOL_RDP, PROTOCOL_TLS, PROTOCOL_HYBRID}"
    by (cases "n_state (w_nego w)") (auto simp: state_wf_def tls_wf_def tls_open_def)
  with p n(2) show ?thesis by (simp add: tls_wf_def)
qed

lemma bytes_after_load: "load_data bs t = Inr t2 \<Longrightarrow> unconsumed t2 < Suc (length (av (t_buf t2)))"
  by (simp add: unconsumed_def)

text \<open>
  C16. Handling what arrives ends, in every state a session can be brought to: no loop over the packets of the buffer
  runs for ever.
\<close>

theorem recv_next_data_ends:
  assumes "negotiates env c w"
  shows "recv_next_data env input w \<noteq> None"
proof -
  have w: "session_wf env c w" using assms by (rule negotiates_wf)
  have confirm: "confirm_loop env (bytes_left w2 + 1) w2 \<noteq> None" if "session_wf env c w2" for w2
    unfolding confirm_loop_def using that unconsumed_le by (intro confirm.loop_ends)
  have credssp: "credssp_loop env (bytes_left w2 + 1) w2 \<noteq> None" if "session_wf env c w2" for w2
    unfolding credssp_loop_def using that unconsumed_le by (intro credssp.loop_ends)
  have w2: "session_wf env c w3" if "credssp_loop env n w2 = Some (Inr w3)" "session_wf env c w2" for n w2 w3
    using credssp.loop_keeps that unfolding credssp_loop_def by blast
  have t: "session_wf env c (w\<lparr>w_buf := t\<rparr>)" for t using w by (simp add: state_wf_buf)
  show ?thesis
  proof (cases "n_state (w_nego w)")
    case Negotiate
    show ?thesis using confirm [OF t] by (auto simp: recv_next_data_def Negotiate Let_def split: sum.splits)
  next
    case Credssp
    have "(case credssp_loop env (bytes_left (w\<lparr>w_buf := t\<rparr>) + 1) (w\<lparr>w_buf := t\<rparr>) of None \<Rightarrow> None | Some (Inl e) \<Rightarrow> Some (Inl e)
      | Some (Inr w) \<Rightarrow> confirm_loop env (bytes_left w + 1) w) \<noteq> None" for t
      using credssp [OF t] confirm [OF w2 [OF _ t]] by (auto split: option.splits sum.splits)
    then show ?thesis by (auto simp: recv_next_data_def Credssp Let_def split: sum.splits)
  qed (simp_all add: recv_next_data_def)
qed

end
