(* ===== verification/Nego_Link.thy ===== *)
theory Nego_Link
  imports Nego_Safety
begin

text \<open>
  The negotiation of \<open>Nego\<close> and what it is connected to: the passwords of the configuration, the server that reads
  the request, and sessions run on concrete answers, those where it fails included.
\<close>

subsection \<open>Passwords\<close>

abbreviation (input) "zeros m \<equiv> replicate m (0 :: u8)"

text \<open>At every place of the pointer the array goes on with passwords of the list, or with zeros only.\<close>

lemma password_at_strings:
  assumes "is_strings ps" "password_at (multisz ps @ zeros z) p"
  shows "(\<exists>k\<le>length ps. drop p (multisz ps @ zeros z) = multisz (drop k ps) @ zeros z)
    \<or> (\<exists>m. drop p (multisz ps @ zeros z) = zeros m)"
  using assms(2)
proof (induction rule: password_at.induct)
  case first
  show ?case by (rule disjI1) (rule exI [of _ 0], simp)
next
  case (later p n)
  let ?A = "multisz ps @ zeros z"
  have d: "drop (p + n + 1) ?A = drop (Suc n) (drop p ?A)" by (simp add: add.commute)
  from later.IH show ?case
  proof
    assume "\<exists>k\<le>length ps. drop p ?A = multisz (drop k ps) @ zeros z"
    then obtain k where k: "k \<le> length ps" "drop p ?A = multisz (drop k ps) @ zeros z" by blast
    show ?thesis
    proof (cases "k < length ps")
      case True
      then have s: "drop k ps = ps ! k # drop (Suc k) ps" "0 \<notin> set (ps ! k)" using assms(1) by (auto simp: Cons_nth_drop_Suc)
      with later.hyps(2) k(2) have "n = length (ps ! k)" by (simp add: multisz_simps cstr_len_append)
      with k(2) s(1) have "drop (Suc n) (drop p ?A) = multisz (drop (Suc k) ps) @ zeros z" by (simp add: multisz_simps)
      with d True show ?thesis by (intro disjI1 exI [of _ "Suc k"]) simp
    next
      case False
      with k later.hyps(2) have "n = 0" "drop (Suc n) (drop p ?A) = zeros z" by (auto simp: multisz_simps)
      with d show ?thesis by auto
    qed
  next
    assume "\<exists>m. drop p ?A = zeros m"
    then obtain m where m: "drop p ?A = zeros m" ..
    have "drop (Suc n) (zeros m) = zeros (m - Suc n)" by (rule drop_replicate)
    with d m show ?thesis by metis
  qed
qed

definition configured_passwords :: "nego_config \<Rightarrow> u8 list list" where
  "configured_passwords c = takeWhile (\<lambda>s. s \<noteq> []) (soh_split (take 2046 (c_password c)))"

definition passwords_left :: "nego \<Rightarrow> u8 list list" where
  "passwords_left n = (case n_current_password n of None \<Rightarrow> [] | Some p \<Rightarrow> strings_from (drop p (n_password n)))"

lemma strings_from_zeros: "strings_from (zeros m) = []"
  by (cases m) (simp_all add: strings_from.simps)

text \<open>What is left of the passwords in a reachable state, and what is at the pointer.\<close>

lemma passwords_at:
  assumes "nego_wf c n" "c_nla c" "0 \<notin> set (c_password c)"
  obtains p k z where "n_current_password n = Some p" "is_strings (configured_passwords c)"
      "drop p (n_password n) = multisz (drop k (configured_passwords c)) @ zeros z" "passwords_left n = drop k (configured_passwords c)"
    | p m where "n_current_password n = Some p" "drop p (n_password n) = zeros m" "passwords_left n = []"
proof -
  from assms(1,2) obtain p where p: "n_current_password n = Some p" "password_at (n_password n) p"
    and a: "MultiSZCopy 2048 (SOHSeparatedStringsToMultiSZ 2048 (c_password c)) = Inr (n_password n)"
    by (auto simp: nego_wf_def)
  obtain z where ss: "is_strings (configured_passwords c)" and n: "n_password n = multisz (configured_passwords c) @ zeros z"
    using soh_array [OF assms(3), of 2048] a by (auto simp: configured_passwords_def)
  consider k where "drop p (n_password n) = multisz (drop k (configured_passwords c)) @ zeros z"
    | m where "drop p (n_password n) = zeros m"
    using password_at_strings [OF ss p(2) [unfolded n]] unfolding n by blast
  then show thesis
  proof cases
    case 1
    have "is_strings (drop k (configured_passwords c))" using ss by (meson in_set_dropD)
    with 1 p(1) ss that(1) show thesis by (simp add: passwords_left_def strings_from_multisz)
  next
    case 2
    with p(1) that(2) show thesis by (simp add: passwords_left_def strings_from_zeros)
  qed
qed

text \<open>
  C18. The NTLM and Kerberos clients are only ever given passwords of the configuration, or the empty one: whatever
  the server does, the C string at the password pointer is one of the pieces of the first 2046 bytes of the password text.
\<close>

theorem only_configured_passwords:
  assumes "negotiates env c w" "0 \<notin> set (c_password c)" "current_password_text (w_nego w) = Inr text"
  shows "text = [] \<or> text \<in> set (soh_split (take 2046 (c_password c)))"
proof -
  have wf: "nego_wf c (w_nego w)" using negotiates_wf [OF assms(1)] by (simp add: state_wf_def)
  from assms(3) have "n_current_password (w_nego w) \<noteq> None" by (auto simp: current_password_text_def split: option.splits)
  with wf have nla: "c_nla c" by (auto simp: nego_wf_def split: if_splits)
  from wf nla assms(2) show ?thesis
  proof (cases rule: passwords_at)
    case (1 p k z)
    show ?thesis
    proof (cases "drop k (configured_passwords c)")
      case Nil
      with 1 assms(3) show ?thesis by (simp add: current_password_text_def multisz_simps)
    next
      case (Cons s ss)
      then have s: "s \<in> set (configured_passwords c)" by (metis in_set_dropD list.set_intros(1))
      with 1(2) have "0 \<notin> set s" by blast
      with 1 Cons assms(3) have "text = s" by (simp add: current_password_text_def multisz_simps cstr_len_append)
      with s show ?thesis by (auto simp: configured_passwords_def dest: set_takeWhileD)
    qed
  next
    case (2 p m)
    with assms(3) show ?thesis by (cases m) (simp_all add: current_password_text_def)
  qed
qed

lemma has_password_left: "has_password n = Inr again \<Longrightarrow> again \<longleftrightarrow> passwords_left n \<noteq> []"
proof -
  assume h: "has_password n = Inr again"
  then obtain p where p: "n_current_password n = Some p" "p < length (n_password n)" "again \<longleftrightarrow> n_password n ! p \<noteq> 0"
    by (auto simp: has_password_def assertR_eq_Inr split: option.splits)
  then have "drop p (n_password n) = n_password n ! p # drop (Suc p) (n_password n)" by (simp add: Cons_nth_drop_Suc)
  with p show ?thesis by (simp add: passwords_left_def strings_from.simps [of "n_password n ! p # _"])
qed

lemma next_password_left:
  assumes "next_password n = Inr n2" "nego_wf c n" "0 \<notin> set (c_password c)"
  shows "passwords_left n2 = tl (passwords_left n)"
proof -
  obtain p len where p: "n_current_password n = Some p" "cstr_len (drop p (n_password n)) = Inr len"
    "n2 = n\<lparr>n_current_password := Some (p + len + 1)\<rparr>"
    using assms(1) cstr_len_take
    by (fastforce simp: next_password_def current_password_text_def bindR_eq_Inr split: option.splits)
  have l2: "passwords_left n2 = strings_from (drop (Suc len) (drop p (n_password n)))"
    using p(3) by (simp add: passwords_left_def add.commute)
  have "c_nla c" by (rule next_password_moves [OF assms(1,2)])
  with assms(2) show ?thesis using assms(3)
  proof (cases rule: passwords_at)
    case (1 q k z)
    let ?ps = "drop k (configured_passwords c)"
    have ps: "is_strings ?ps" using 1(2) by (meson in_set_dropD)
    show ?thesis
    proof (cases ?ps)
      case Nil
      with 1 p l2 show ?thesis by (simp add: multisz_simps strings_from_zeros)
    next
      case (Cons s ss)
      with ps have s: "0 \<notin> set s" "is_strings ss" by auto
      with 1 p Cons have "len = length s" by (simp add: multisz_simps cstr_len_append)
      with 1 p l2 Cons s show ?thesis by (simp add: multisz_simps strings_from_multisz)
    qed
  next
    case (2 q m)
    with l2 p(1) have "passwords_left n2 = strings_from (drop (Suc len) (zeros m))" by (simp del: drop_drop)
    with 2(3) show ?thesis by (simp add: drop_replicate strings_from_zeros)
  qed
qed

lemma passwords_left_update [simp]:
  "passwords_left (n\<lparr>n_krb_state := b\<rparr>) = passwords_left n"
  "passwords_left (n\<lparr>n_enabled_protocols := e\<rparr>) = passwords_left n"
  by (cases "n_current_password n"; simp add: passwords_left_def)+

text \<open>
  A failed authentication moves on to the next password of the configuration and asks again with the same
  protocols; after the last one it asks for TLS alone, where that is allowed.
\<close>

theorem fallback_tries_next_password:
  assumes "negotiates env c w" "0 \<notin> set (c_password c)" "fallback_to_tls env w = Inr (st, w2)"
  shows "st = Negotiate \<and> passwords_left (w_nego w2) = tl (passwords_left (w_nego w))
    \<and> (if passwords_left (w_nego w2) \<noteq> []
       then n_enabled_protocols (w_nego w2) = n_enabled_protocols (w_nego w) \<and> n_krb_state (w_nego w2) = (c_nla c \<and> c_krb c)
       else c_tls_only c \<and> requested_protocols (n_enabled_protocols (w_nego w2)) = PROTOCOL_TLS)"
proof -
  have wf: "nego_wf c (w_nego w)" using negotiates_wf [OF assms(1)] by (simp add: state_wf_def)
  obtain ok w1 where w1: "trans_connect env (trans_disconnect w) = (ok, w1)" by fastforce
  have k1: "w_nego w1 = w_nego w" by (simp add: trans_connect_keeps [OF w1] trans_disconnect_def)
  from assms(3) obtain n again where n: "next_password (w_nego w) = Inr n" "has_password n = Inr again" "st = Negotiate"
    and cont: "again \<and> send_negotiation_request env (w1\<lparr>w_nego := n\<lparr>n_krb_state := n_krb n\<rparr>\<rparr>) = Inr w2
      \<or> \<not> again \<and> n_tls_only n \<and> send_negotiation_request env (w1\<lparr>w_nego := n\<lparr>n_enabled_protocols := NEGO_Tls OR NEGO_Rdp\<rparr>\<rparr>) = Inr w2"
    unfolding fallback_to_tls_def w1 Let_def prod.case k1 by (auto simp: bindR_eq_Inr split: if_splits)
  have left: "passwords_left n = tl (passwords_left (w_nego w))" by (rule next_password_left [OF n(1) wf assms(2)])
  have again: "again \<longleftrightarrow> passwords_left n \<noteq> []" by (rule has_password_left [OF n(2)])
  have same: "n_enabled_protocols n = n_enabled_protocols (w_nego w)" "nego_wf c n"
    using n(1) next_password_wf [OF n(1,2) wf] by (auto simp: next_password_def bindR_eq_Inr)
  then have flags: "n_krb n = (c_nla c \<and> c_krb c)" "n_tls_only n = c_tls_only c" by (simp_all add: nego_wf_def)
  have tls: "requested_protocols (NEGO_Tls OR NEGO_Rdp) = PROTOCOL_TLS" by (simp add: requested_protocols_def has_def)
  from cont show ?thesis
  proof
    assume "again \<and> send_negotiation_request env (w1\<lparr>w_nego := n\<lparr>n_krb_state := n_krb n\<rparr>\<rparr>) = Inr w2"
    with send_negotiation_request_keeps(1) [of env _ w2] have "w_nego w2 = n\<lparr>n_krb_state := n_krb n\<rparr>" "again" by auto
    with n(3) left again same flags show ?thesis by simp
  next
    assume "\<not> again \<and> n_tls_only n \<and> send_negotiation_request env (w1\<lparr>w_nego := n\<lparr>n_enabled_protocols := NEGO_Tls OR NEGO_Rdp\<rparr>\<rparr>) = Inr w2"
    with send_negotiation_request_keeps(1) [of env _ w2]
    have "w_nego w2 = n\<lparr>n_enabled_protocols := NEGO_Tls OR NEGO_Rdp\<rparr>" "\<not> again" "n_tls_only n" by auto
    with n(3) left again same flags tls show ?thesis by simp
  qed
qed

subsection \<open>The server reads the request\<close>

lemma find_crlf_end: "0x0D \<notin> set xs \<Longrightarrow> find_crlf (xs @ [0x0D, 0x0A]) = Some (length xs + 1)"
proof (induction xs)
  case (Cons x xs)
  then show ?case by (cases xs) auto
qed simp

lemma cookie_short:
  assumes "length username \<le> 222" "0x0D \<notin> set username" "0 \<notin> set username"
  shows "length (cookie username) = length username + 19" "find_crlf (cookie username) = Some (length (cookie username) - 1)"
proof -
  let ?head = "[0x43, 0x6F, 0x6F, 0x6B, 0x69, 0x65, 0x3A, 0x20, 0x6D, 0x73, 0x74, 0x73, 0x68, 0x61, 0x73, 0x68, 0x3D] :: u8 list"
  have "takeWhile (\<lambda>c. c \<noteq> 0) username = username" using assms(3) by (auto simp: takeWhile_eq_all_conv)
  then have c: "cookie username = (?head @ username) @ [0x0D, 0x0A]" using assms(1) by (simp only: cookie_def) simp
  show "length (cookie username) = length username + 19" unfolding c by simp
  show "find_crlf (cookie username) = Some (length (cookie username) - 1)"
    unfolding c using assms(2) by (subst find_crlf_end) auto
qed

lemma requested_protocols_byte: "drop_bit 8 (requested_protocols e) = 0"
  by (simp add: requested_protocols_def)

text \<open>
  C19. Without a routing token, and with a user name of at most 222 bytes without CR or NUL, a server that reads the request of the
  negotiation with \<open>CR_TPDU_Data_Recv\<close> gets the cookie with the user's name and the protocols that are enabled. (A longer name gives
  a request that is refused, \<open>long_cookie_refused\<close>.)
\<close>

theorem negotiation_request_understood:
  assumes "negotiation_request n = Inr request" "n_lb_info n = None" "n_tls n"
    and "length (n_username n) \<le> 222" "0x0D \<notin> set (n_username n)" "0 \<notin> set (n_username n)"
  shows "map_sum id ((\<lambda>cr. (cr_cookie cr, rdp_neg_code (cr_neg cr))) \<circ> fst) (CR_TPDU_Data_Recv (instream_of request))
    = Inr (cookie (n_username n), requested_protocols (n_enabled_protocols n))"
proof -
  let ?flags = "if n_restricted_admin_mode n then RESTRICTED_ADMIN_MODE_REQUIRED else 0"
  have request: "request = CR_TPDU_Send (cookie (n_username n)) RDP_NEG_REQ ?flags (requested_protocols (n_enabled_protocols n))"
    using assms(1-3) by (auto simp: negotiation_request_def split: if_splits)
  note c = cookie_short [OF assms(4-6)]
  have "\<not> has ?flags CORRELATION_INFO_PRESENT" by (simp add: has_def)
  then have "map_sum id fst (CR_TPDU_Data_Recv (instream_of request))
    = Inr \<lparr>cr_tpkt = \<lparr>tpkt_version = 3, tpkt_len = of_nat (11 + length (cookie (n_username n)) + neg_size RDP_NEG_REQ)\<rparr>,
           cr_header = \<lparr>th_LI = of_nat (6 + length (cookie (n_username n)) + neg_size RDP_NEG_REQ), th_code = CR_TPDU_code, th_dst_ref = 0, th_src_ref = 0, th_option = 0\<rparr>,
           cr_header_size = 11 + length (cookie (n_username n)) + neg_size RDP_NEG_REQ, cr_cookie = cookie (n_username n),
           cr_neg = (if RDP_NEG_REQ = 0 then no_rdp_neg
             else \<lparr>rdp_neg_type = RDP_NEG_REQ, rdp_neg_flags = ?flags, rdp_neg_length = 8, rdp_neg_code = requested_protocols (n_enabled_protocols n)\<rparr>),
           cr_cinfo_data = \<lparr>ci_type = 0, ci_flags = 0, ci_length = 0, ci_correlationid = replicate 16 0, ci_reserved = replicate 16 0\<rparr>\<rparr>"
    unfolding request by (rule request_read_back [rotated 3]) (use c assms(4) in \<open>simp_all add: neg_size_def requested_protocols_byte\<close>)
  then show ?thesis by (cases "CR_TPDU_Data_Recv (instream_of request)") (auto simp: prod.case_eq_if)
qed

subsection \<open>Sessions run\<close>

text \<open>A sequence of reads of the socket.\<close>

fun receives :: "env \<Rightarrow> u8 list res list \<Rightarrow> session \<Rightarrow> session res option" where
  "receives env [] w = Some (Inr w)"
| "receives env (input # inputs) w =
     (case recv_next_data env input w of
        None \<Rightarrow> None | Some (Inl e) \<Rightarrow> Some (Inl e) | Some (Inr (_, w)) \<Rightarrow> receives env inputs w)"

definition run_session :: "env \<Rightarrow> nego_config \<Rightarrow> u8 list res list \<Rightarrow> session res option" where
  "run_session env c inputs =
     (case start_negociation env c \<lparr>has_fast_path = False, x_type = 0\<rparr> of
        Inl e \<Rightarrow> Some (Inl e) | Inr w \<Rightarrow> receives env inputs w)"

lemma receives_negotiates: "receives env inputs w = Some (Inr w2) \<Longrightarrow> negotiates env c w \<Longrightarrow> negotiates env c w2"
proof (induction inputs arbitrary: w)
  case (Cons input inputs)
  then show ?case by (auto split: option.splits sum.splits intro: negotiates.receive)
qed simp

lemma run_session_negotiates: "run_session env c inputs = Some (Inr w) \<Longrightarrow> negotiates env c w"
  using receives_negotiates negotiates.start by (auto simp: run_session_def split: sum.splits)

text \<open>A system that answers every call in the same way, with a client that finishes with the second message, as the one of NTLM does.\<close>

definition steady_env :: "ssl_status \<Rightarrow> certificate_result \<Rightarrow> env" where
  "steady_env ssl certificate = (\<lambda>i. \<lparr>an_start = True, an_ssl = ssl, an_certificate = Inr certificate, an_public_key = True,
     an_sent = Some 2000, an_connect = True, an_ntlm = (\<lambda>_. Inr [1]), an_kerberos = (\<lambda>_. Inr [2]),
     an_next = Inr (if i = 3 then Cont else Finish, [3])\<rparr>)"

definition plain_config :: "bool \<Rightarrow> bool \<Rightarrow> nego_config" where
  "plain_config nla tls_only = \<lparr>c_username = [117], c_password = [112, 1, 113], c_nla = nla, c_krb = False, c_nla_ntlm = False,
     c_tls_only = tls_only, c_rdp_legacy = False, c_admin_mode = False, c_lb_info = None\<rparr>"

definition confirm_of :: "u32 \<Rightarrow> u8 list" where
  "confirm_of protocol = CC_TPDU_Send RDP_NEG_RSP 0 protocol"

lemma confirm_bytes: "confirm_of protocol = [3, 0, 0, 19, 14, 0xD0, 0, 0, 0, 0, 0, 2, 0, 8, 0] @ bytes_uint32_le protocol"
  by (simp add: confirm_of_def CC_TPDU_Send_def rdp_neg_send_def neg_size_def x224_bytes)

lemma confirm_read: "protocol \<in> {PROTOCOL_RDP, PROTOCOL_TLS, PROTOCOL_HYBRID} \<Longrightarrow>
  CC_TPDU_Recv (instream_of (confirm_of protocol)) = Inr
    (\<lparr>cc_tpkt = \<lparr>tpkt_version = 3, tpkt_len = 19\<rparr>, cc_header = \<lparr>th_LI = 14, th_code = 0xD0, th_dst_ref = 0, th_src_ref = 0, th_option = 0\<rparr>,
      cc_header_size = 19, cc_neg = \<lparr>rdp_neg_type = 2, rdp_neg_flags = 0, rdp_neg_length = 8, rdp_neg_code = protocol\<rparr>\<rparr>,
     InStream (confirm_of protocol) [])"
  by (auto simp: CC_TPDU_Recv_def instream_of_def confirm_bytes Tpkt_Recv_def tpdu_header_recv_def rdp_neg_recv_def x224_bytes
    in_remain_def in_check_rem_def in_skip_bytes_def get_data_def get_offset_def end_of_header_def Let_def)

definition confirm_loaded :: "u32 \<Rightarrow> x224_extractor \<Rightarrow> tpdu" where
  "confirm_loaded protocol x = \<lparr>t_state = RHeader, t_x224 = x\<lparr>has_fast_path := False, x_type := CC_TPDU\<rparr>, t_pdu_len = 19,
     t_buf = \<lparr>bf_data = confirm_of protocol, bf_idx = 0\<rparr>\<rparr>"

lemma length_confirm [simp]: "length (confirm_of protocol) = 19"
  by (simp add: confirm_bytes bytes_uint32_le_def)

lemma confirm_nths: "confirm_of protocol ! 0 = 3" "confirm_of protocol ! Suc 0 = 0" "confirm_of protocol ! 2 = 0" "confirm_of protocol ! 3 = 19" "confirm_of protocol ! 5 = 0xD0"
  by (simp_all add: confirm_bytes)

lemma confirm_arrives: "\<exists>t. load_data (confirm_of protocol) (mk_tpdu x) = Inr t \<and> av (t_buf t) = confirm_of protocol
    \<and> next_packet PDU t = Inr (True, confirm_loaded protocol x)"
  by (simp add: load_data_def mk_tpdu_def read_with_def mk_buf64k_def room_def next_packet_def confirm_loaded_def
    extract_packet_def consume_current_packet_def advance_def remaining_def av_def x224_read_header_def x224_prepare_data_def
    confirm_nths has_def)

lemma confirm_current: "current_pdu_buffer (confirm_loaded protocol x) = Inr (confirm_of protocol)"
  by (simp add: confirm_loaded_def current_pdu_buffer_def remaining_def av_def)

text \<open>A session that has not read anything yet is given a whole confirm.\<close>

lemma confirm_received:
  assumes "w_buf w = mk_tpdu x" "n_state (w_nego w) = Negotiate"
  shows "recv_connection_confirm env (confirm_of protocol) (w\<lparr>w_buf := confirm_loaded protocol x\<rparr>) = Inl e \<Longrightarrow>
      recv_next_data env (Inr (confirm_of protocol)) w = Some (Inl e)"
    and "recv_connection_confirm env (confirm_of protocol) (w\<lparr>w_buf := confirm_loaded protocol x\<rparr>) = Inr (st, w2) \<Longrightarrow> st \<noteq> Negotiate \<Longrightarrow>
      recv_next_data env (Inr (confirm_of protocol)) w = Some (Inr (st \<noteq> Final, set_state st w2))"
proof -
  let ?loop = "packet_loop Negotiate PDU (recv_connection_confirm env)"
  obtain t where t: "load_data (confirm_of protocol) (w_buf w) = Inr t"
    "next_packet PDU t = Inr (True, confirm_loaded protocol x)" "av (t_buf t) = confirm_of protocol"
    using confirm_arrives assms(1) by auto
  have n: "bytes_left (w\<lparr>w_buf := t\<rparr>) = Suc 18" using t(3) by (simp add: bytes_left_def)
  note loop = packet_loop.simps(2) [of Negotiate PDU "recv_connection_confirm env" _ "w\<lparr>w_buf := t\<rparr>"]
  show "recv_next_data env (Inr (confirm_of protocol)) w = Some (Inl e)"
    if "recv_connection_confirm env (confirm_of protocol) (w\<lparr>w_buf := confirm_loaded protocol x\<rparr>) = Inl e"
    using that t assms(2) confirm_current by (simp add: recv_next_data_def confirm_loop_def Let_def loop)
  show "recv_next_data env (Inr (confirm_of protocol)) w = Some (Inr (st \<noteq> Final, set_state st w2))"
    if "recv_connection_confirm env (confirm_of protocol) (w\<lparr>w_buf := confirm_loaded protocol x\<rparr>) = Inr (st, w2)" "st \<noteq> Negotiate"
  proof -
    have "?loop (Suc 18) (set_state st w2) = Some (Inr (set_state st w2))"
      using that(2) by (subst packet_loop.simps) (simp add: set_state_def)
    then have "?loop (Suc (Suc 18)) (w\<lparr>w_buf := t\<rparr>) = Some (Inr (set_state st w2))"
      using that t(2) assms(2) confirm_current by (subst loop) simp
    then have "confirm_loop env (bytes_left (w\<lparr>w_buf := t\<rparr>) + 1) (w\<lparr>w_buf := t\<rparr>) = Some (Inr (set_state st w2))"
      unfolding confirm_loop_def n by simp
    with t(1) assms(2) show ?thesis by (simp add: recv_next_data_def Let_def) (simp add: set_state_def)
  qed
qed

text \<open>
  A CredSSP message: its header gives its length, in one of the three forms, and it fits the buffer behind the confirm. Between
  messages the reader is \<open>at_rest\<close>: the buffer has the packet handed out last and nothing behind it.
\<close>

definition credssp_message :: "u8 list \<Rightarrow> bool" where
  "credssp_message m \<longleftrightarrow> 4 \<le> length m \<and> length m \<le> 65516 \<and> credssp_len m = Inr (Some (of_nat (length m)))"

definition at_rest :: "tpdu \<Rightarrow> bool" where
  "at_rest t \<longleftrightarrow> t_state t = RHeader \<and> buf_wf (t_buf t) \<and> unat (t_pdu_len t) = length (av (t_buf t)) \<and> length (av (t_buf t)) \<le> 19"

lemma credssp_arrives:
  assumes "at_rest t" "credssp_message m"
  obtains t1 t2 t3 where "load_data m t = Inr t1" "av (t_buf t1) \<noteq> []" "next_packet CREDSSP t1 = Inr (True, t2)"
    "current_pdu_buffer t2 = Inr m" "next_packet CREDSSP t2 = Inr (False, t3)" "at_rest t3"
proof -
  have m: "4 \<le> length m" "length m \<le> 65516" "credssp_len m = Inr (Some (of_nat (length m)))" using assms(2) by (simp_all add: credssp_message_def)
  have t: "t_state t = RHeader" "buf_wf (t_buf t)" "unat (t_pdu_len t) = length (av (t_buf t))" "length (av (t_buf t)) \<le> 19"
    using assms(1) by (simp_all add: at_rest_def)
  have "length m \<le> room (t_buf t)" using t(4) m(2) room_av [OF t(2)] by simp
  then obtain b1 where b1: "read_with m (t_buf t) = Inr b1" "av b1 = av (t_buf t) @ m" "buf_wf b1" using read_with_ok [OF t(2)] by blast
  obtain b2 where b2: "advance (unat (t_pdu_len t)) b1 = Inr b2" "av b2 = m" "buf_wf b2"
    using advance_ok [OF b1(3), of "unat (t_pdu_len t)"] b1(2) t(3) by auto
  have n: "unat (of_nat (length m) :: u16) = length m" using m(2) by (simp add: unat_of_nat take_bit_nat_eq_self)
  then have n0: "(of_nat (length m) :: u16) \<noteq> 0" using m(1) by (metis unat_0 not_numeral_le_zero)
  obtain b3 where b3: "advance (length m) b2 = Inr b3" "av b3 = []" "buf_wf b3" using advance_ok [OF b2(3), of "length m"] b2(2) by auto
  let ?t2 = "t\<lparr>t_buf := b2, t_pdu_len := of_nat (length m)\<rparr>" and ?t3 = "t\<lparr>t_buf := b3, t_pdu_len := 0\<rparr>"
  have "load_data m t = Inr (t\<lparr>t_buf := b1\<rparr>)" using b1(1) by (simp add: load_data_def)
  moreover have "av (t_buf (t\<lparr>t_buf := b1\<rparr>)) \<noteq> []" using b1(2) m(1) by auto
  moreover have "next_packet CREDSSP (t\<lparr>t_buf := b1\<rparr>) = Inr (True, ?t2)"
    using t(1) b2 m n
    by (simp add: next_packet_def extract_packet_def consume_current_packet_def credssp_header_cases remaining_av credssp_prepare_data_def)
  moreover have "current_pdu_buffer ?t2 = Inr m" using b2(2) n n0 by (simp add: current_pdu_buffer_def remaining_av)
  moreover have "next_packet CREDSSP ?t2 = Inr (False, ?t3)"
    using t(1) b3 n by (simp add: next_packet_def extract_packet_def consume_current_packet_def credssp_read_header_def)
  moreover have "at_rest ?t3" using t(1) b3 by (simp add: at_rest_def)
  ultimately show thesis by (rule that)
qed

text \<open>
  A system where TLS works and no write fails, whatever part of it is taken. The client that is started is the one of Kerberos,
  where it is configured, or the one of NTLM.
\<close>

definition system_works :: "env \<Rightarrow> bool" where
  "system_works env \<longleftrightarrow> (\<forall>i. an_start (env i) \<and> an_ssl (env i) = SslDone \<and> an_certificate (env i) = Inr CertValid \<and> an_public_key (env i)
     \<and> an_sent (env i) \<noteq> None)"

definition client_starts :: "bool \<Rightarrow> answer \<Rightarrow> bool" where
  "client_starts krb a \<longleftrightarrow> (\<forall>pw. if krb then \<exists>token. an_kerberos a (Some pw) = Inr token else \<exists>token. an_ntlm a pw = Inr token)"

lemma system_works_send:
  assumes "system_works env"
  obtains s where "trans_send env bs w = Inr (w\<lparr>w_trans := s, w_calls := Suc (w_calls w)\<rparr>)"
    "sk_tls s = sk_tls (w_trans w)" "sk_tls_state s = sk_tls_state (w_trans w)"
proof -
  obtain n where n: "an_sent (env (w_calls w)) = Some n" using assms by (auto simp: system_works_def)
  have "\<exists>s. do_send (Some n) bs (w_trans w) = Inr s" by (simp add: do_send_def)
  then obtain s where s: "do_send (Some n) bs (w_trans w) = Inr s" ..
  then have "trans_send env bs w = Inr (w\<lparr>w_trans := s, w_calls := Suc (w_calls w)\<rparr>)" using n by (simp add: trans_send_def)
  with trans_send_keeps [OF this] show thesis by (intro that [of s]) simp_all
qed

lemma system_works_tls:
  assumes "system_works env" "sk_tls_state (w_trans w) = TLS_Uninit" "\<not> has_data_to_write (w_trans w)"
  shows "nego_enable_client_tls env w
    = Inr (True, w\<lparr>w_trans := (w_trans w)\<lparr>sk_tls := True, sk_tls_state := TLS_Ok\<rparr>, w_calls := Suc (w_calls w)\<rparr>)"
  using assms
  by (simp add: nego_enable_client_tls_def socket_enable_client_tls_def tls_process_def tls_loop_def enable_client_tls_loop_def
    check_certificate_def final_check_certificate_def system_works_def tls_answer.truncate_def)

lemma current_password_text_update [simp]:
  "current_password_text (n\<lparr>n_nla_tried := b\<rparr>) = current_password_text n"
  "current_password_text (n\<lparr>n_selected_protocol := e\<rparr>) = current_password_text n"
  by (cases "n_current_password n"; simp add: current_password_text_def)+

text \<open>The session between two messages of an exchange that goes on.\<close>

definition in_exchange :: "session \<Rightarrow> bool" where
  "in_exchange w \<longleftrightarrow> n_state (w_nego w) = Credssp \<and> at_rest (w_buf w) \<and> sk_tls_state (w_trans w) = TLS_Ok
     \<and> (if n_krb_state (w_nego w) then n_credsspKerberos (w_nego w) else n_NTLM (w_nego w))"

lemma in_exchange_set [simp]:
  "in_exchange (set_state Credssp w) \<longleftrightarrow> at_rest (w_buf w) \<and> sk_tls_state (w_trans w) = TLS_Ok
     \<and> (if n_krb_state (w_nego w) then n_credsspKerberos (w_nego w) else n_NTLM (w_nego w))"
  by (simp add: in_exchange_def set_state_def)

lemma hybrid_started:
  assumes "system_works env" "client_starts (n_krb_state (w_nego w)) (env (Suc (w_calls w)))" "current_password_text (w_nego w) = Inr pw"
    and "sk_tls_state (w_trans w) = TLS_Uninit" "\<not> has_data_to_write (w_trans w)" "at_rest (w_buf w)"
  obtains w2 where "activate_ssl_hybrid env w = Inr (Credssp, w2)" "in_exchange (set_state Credssp w2)" "w_calls w2 = Suc (Suc (w_calls w))"
proof -
  let ?w1 = "w\<lparr>w_trans := (w_trans w)\<lparr>sk_tls := True, sk_tls_state := TLS_Ok\<rparr>, w_calls := Suc (w_calls w)\<rparr>"
  let ?w2 = "?w1\<lparr>w_nego := (w_nego ?w1)\<lparr>n_nla_tried := True\<rparr>\<rparr>"
  have a: "activate_ssl_hybrid env w = (if n_krb_state (w_nego w)
      then bindR (start_kerberos env ?w2) (\<lambda>started. case started of Inr w \<Rightarrow> Inr (Credssp, w)
        | Inl e \<Rightarrow> if \<not> n_nla_ntlm_fallback (w_nego w) then fallback_to_tls env ?w2
            else activate_ntlm env (?w2\<lparr>w_calls := Suc (w_calls ?w2), w_nego := (w_nego ?w2)\<lparr>n_krb_state := False\<rparr>\<rparr>))
      else activate_ntlm env ?w2)"
    using system_works_tls [OF assms(1,4,5)] by (simp add: activate_ssl_hybrid_def Let_def)
  show thesis
  proof (cases "n_krb_state (w_nego w)")
    case True
    then obtain token where token: "an_kerberos (env (Suc (w_calls w))) (Some pw) = Inr token" using assms(2) by (auto simp: client_starts_def)
    obtain s where s: "trans_send env token ?w2 = Inr (?w2\<lparr>w_trans := s, w_calls := Suc (w_calls ?w2)\<rparr>)" "sk_tls_state s = TLS_Ok"
      by (rule system_works_send [OF assms(1), of token ?w2]) simp
    obtain p where p: "n_current_password (w_nego w) = Some p" using assms(3) by (auto simp: current_password_text_def split: option.splits)
    have "start_kerberos env ?w2 = Inr (Inr (?w2\<lparr>w_trans := s, w_calls := Suc (w_calls ?w2),
        w_nego := (w_nego ?w2)\<lparr>n_credsspKerberos := True\<rparr>\<rparr>))"
      using token s(1) assms(3) p by (simp add: start_kerberos_def)
    then show thesis using a True s(2) assms(6)
      by (intro that [of "?w2\<lparr>w_trans := s, w_calls := Suc (w_calls ?w2), w_nego := (w_nego ?w2)\<lparr>n_credsspKerberos := True\<rparr>\<rparr>"]) simp_all
  next
    case False
    let ?w3 = "?w2\<lparr>w_nego := (w_nego ?w2)\<lparr>n_NTLM := True\<rparr>\<rparr>"
    obtain token where token: "an_ntlm (env (Suc (w_calls w))) pw = Inr token" using assms(2) False by (auto simp: client_starts_def)
    obtain s where s: "trans_send env token ?w3 = Inr (?w3\<lparr>w_trans := s, w_calls := Suc (w_calls ?w3)\<rparr>)" "sk_tls_state s = TLS_Ok"
      by (rule system_works_send [OF assms(1), of token ?w3]) simp
    have "activate_ntlm env ?w2 = Inr (Credssp, ?w3\<lparr>w_trans := s, w_calls := Suc (w_calls ?w3)\<rparr>)"
      using token s(1) assms(3) by (simp add: activate_ntlm_def Let_def)
    then show thesis using a False s(2) assms(6) by (intro that [of "?w3\<lparr>w_trans := s, w_calls := Suc (w_calls ?w3)\<rparr>"]) simp_all
  qed
qed

text \<open>A message for the client: it answers and waits for the next, or has finished.\<close>

lemma message_handled:
  assumes "system_works env" "in_exchange w" "credssp_message m" "an_next (env (w_calls w)) = Inr (st, token)" "st \<noteq> Err"
  obtains w2 where "recv_next_data env (Inr m) w = Some (Inr (st \<noteq> Finish, w2))" "w_calls w2 = Suc (w_calls w)"
    "st = Cont \<Longrightarrow> in_exchange w2" "st = Finish \<Longrightarrow> n_state (w_nego w2) = Final" "sk_tls_state (w_trans w2) = TLS_Ok"
proof -
  have w: "n_state (w_nego w) = Credssp" "at_rest (w_buf w)" "sk_tls_state (w_trans w) = TLS_Ok"
    "if n_krb_state (w_nego w) then n_credsspKerberos (w_nego w) else n_NTLM (w_nego w)"
    using assms(2) by (simp_all add: in_exchange_def)
  obtain t1 t2 t3 where t: "load_data m (w_buf w) = Inr t1" "av (t_buf t1) \<noteq> []" "next_packet CREDSSP t1 = Inr (True, t2)"
    "current_pdu_buffer t2 = Inr m" "next_packet CREDSSP t2 = Inr (False, t3)" "at_rest t3"
    by (rule credssp_arrives [OF w(2) assms(3)])
  let ?w1 = "w\<lparr>w_buf := t1\<rparr>" and ?w2 = "w\<lparr>w_buf := t2\<rparr>"
  obtain s where s: "trans_send env token ?w2 = Inr (?w2\<lparr>w_trans := s, w_calls := Suc (w_calls w)\<rparr>)" "sk_tls_state s = TLS_Ok"
    by (rule system_works_send [OF assms(1), of token ?w2]) (use w(3) in simp)
  obtain k where k: "bytes_left ?w1 = Suc k" using t(2) by (cases "av (t_buf t1)") (simp_all add: bytes_left_def)
  have recv: "recv_next_data env (Inr m) w = map_option (map_sum id (\<lambda>w. (n_state (w_nego w) \<noteq> Final, w)))
      (case credssp_loop env (Suc (Suc k)) ?w1 of None \<Rightarrow> None | Some (Inl e) \<Rightarrow> Some (Inl e)
       | Some (Inr w) \<Rightarrow> confirm_loop env (bytes_left w + 1) w)"
    using t(1) w(1) k by (simp add: recv_next_data_def Let_def)
  have idle: "confirm_loop env (bytes_left w3 + 1) w3 = Some (Inr w3)" if "n_state (w_nego w3) \<noteq> Negotiate" for w3
    using that by (simp add: confirm_loop_def packet_loop.simps)
  show thesis
  proof (cases "st = Finish")
    case True
    let ?n = "if n_krb_state (w_nego w) then (w_nego w)\<lparr>n_credsspKerberos := False\<rparr> else (w_nego w)\<lparr>n_NTLM := False\<rparr>"
    let ?w3 = "set_state Final (?w2\<lparr>w_trans := s, w_calls := Suc (w_calls w), w_nego := ?n\<rparr>)"
    have "recv_credssp env ?w2 = Inr (Final, ?w2\<lparr>w_trans := s, w_calls := Suc (w_calls w), w_nego := ?n\<rparr>)"
      using w(4) assms(4) True s(1) by (simp add: recv_credssp_def)
    then have "credssp_loop env (Suc (Suc k)) ?w1 = Some (Inr ?w3)"
      using t(3,4) w(1) by (simp add: credssp_loop_def packet_loop.simps set_state_def)
    moreover have "n_state (w_nego ?w3) = Final" by (simp add: set_state_def)
    ultimately have "recv_next_data env (Inr m) w = Some (Inr (False, ?w3))" using recv idle [of ?w3] by simp
    then show thesis using True s(2) by (intro that [of ?w3]) (simp_all add: set_state_def)
  next
    case False
    with assms(5) have c: "st = Cont" by (cases st) auto
    let ?w3 = "set_state Credssp (?w2\<lparr>w_trans := s, w_calls := Suc (w_calls w)\<rparr>)"
    have "recv_credssp env ?w2 = Inr (Credssp, ?w2\<lparr>w_trans := s, w_calls := Suc (w_calls w)\<rparr>)"
      using w(4) assms(4) c s(1) by (simp add: recv_credssp_def)
    then have "credssp_loop env (Suc (Suc k)) ?w1 = Some (Inr (?w3\<lparr>w_buf := t3\<rparr>))"
      using t(3-5) w(1) by (simp add: credssp_loop_def packet_loop.simps set_state_def)
    moreover have "n_state (w_nego (?w3\<lparr>w_buf := t3\<rparr>)) = Credssp" by (simp add: set_state_def)
    ultimately have "recv_next_data env (Inr m) w = Some (Inr (True, ?w3\<lparr>w_buf := t3\<rparr>))" using recv idle [of "?w3\<lparr>w_buf := t3\<rparr>"] by simp
    moreover have "in_exchange (?w3\<lparr>w_buf := t3\<rparr>)" using t(6) s(2) w(4) by (simp add: in_exchange_def set_state_def)
    ultimately show thesis using c s(2) by (intro that [of "?w3\<lparr>w_buf := t3\<rparr>"]) (simp_all add: set_state_def)
  qed
qed

lemma first_password:
  assumes "nego_wf c n" "c_nla c" "0 \<notin> set (c_password c)" "n_current_password n = Some 0"
  shows "\<exists>pw. current_password_text n = Inr pw"
  using assms(1-3)
proof (cases rule: passwords_at)
  case (1 p k z)
  have "is_strings (drop k (configured_passwords c))" using 1(2) by (meson in_set_dropD)
  with 1 show ?thesis
    by (cases "drop k (configured_passwords c)") (auto simp: current_password_text_def multisz_simps cstr_len_append)
next
  case (2 p m)
  from assms(1,2) have "length (n_password n) = 2048" using length_MultiSZCopy by (auto simp: nego_wf_def)
  with 2 assms(4) show ?thesis by (cases m) (auto simp: current_password_text_def)
qed

lemma started:
  assumes "start_negociation env c x = Inr w"
  shows "sk_tls_state (w_trans w) = TLS_Uninit" "w_buf w = mk_tpdu x" "w_calls w = 1"
    "n_current_password (w_nego w) = (if c_nla c then Some 0 else None)" "n_krb_state (w_nego w) = (c_nla c \<and> c_krb c)"
    "n_state (w_nego w) = Negotiate" "nego_wf c (w_nego w)"
proof -
  from assms(1) obtain w0 request where w0: "mk_session c x = Inr w0" "trans_send env request w0 = Inr w"
    by (auto simp: start_negociation_def send_negotiation_request_def bindR_eq_Inr)
  note wf = mk_session_wf [OF w0(1)]
  note keeps = trans_send_keeps [OF w0(2)]
  have n0: "w_trans w0 = mk_socket" "w_calls w0 = 0"
    "n_current_password (w_nego w0) = (if c_nla c then Some 0 else None)" "n_krb_state (w_nego w0) = (c_nla c \<and> c_krb c)"
    using w0(1)
    by (auto simp: mk_session_def mk_nego_def set_identity_def set_lb_info_def Let_def bindR_eq_Inr split: if_splits option.splits)
  show "sk_tls_state (w_trans w) = TLS_Uninit" "w_buf w = mk_tpdu x"
    "n_current_password (w_nego w) = (if c_nla c then Some 0 else None)" "n_krb_state (w_nego w) = (c_nla c \<and> c_krb c)"
    "n_state (w_nego w) = Negotiate" "nego_wf c (w_nego w)"
    using keeps n0 wf(1) [where env = env] wf(2,3) by (simp_all add: mk_socket_def state_wf_def)
  show "w_calls w = 1" using w0(2) n0(2) by (auto simp: trans_send_def bindR_eq_Inr)
qed

lemma at_rest_confirm: "at_rest (confirm_loaded protocol x)"
  by (simp add: at_rest_def confirm_loaded_def buf_wf_def av_def)

lemma hybrid_selected:
  assumes "start_negociation env c x = Inr w" "\<not> has_data_to_write (w_trans w)" "system_works env" "client_starts (c_krb c) (env 2)"
    and "c_nla c" "0 \<notin> set (c_password c)"
  obtains w2 where "recv_next_data env (Inr (confirm_of PROTOCOL_HYBRID)) w = Some (Inr (True, w2))" "in_exchange w2" "w_calls w2 = 3"
proof -
  note w = started [OF assms(1)]
  let ?buf = "confirm_loaded PROTOCOL_HYBRID x"
  let ?w1 = "w\<lparr>w_buf := ?buf, w_nego := (w_nego w)\<lparr>n_selected_protocol := PROTOCOL_HYBRID\<rparr>\<rparr>"
  obtain pw where pw: "current_password_text (w_nego w) = Inr pw" using first_password [OF w(7)] assms(5,6) w(4) by auto
  obtain w2 where w2: "activate_ssl_hybrid env ?w1 = Inr (Credssp, w2)" "in_exchange (set_state Credssp w2)" "w_calls w2 = 3"
    by (rule hybrid_started [OF assms(3), of ?w1 pw]) (use assms(2,4,5) w pw at_rest_confirm in \<open>simp_all add: numeral_2_eq_2 numeral_3_eq_3\<close>)
  have "recv_connection_confirm env (confirm_of PROTOCOL_HYBRID) (w\<lparr>w_buf := ?buf\<rparr>) = Inr (Credssp, w2)"
    using w2(1) by (simp add: recv_connection_confirm_def confirm_read Let_def)
  then have "recv_next_data env (Inr (confirm_of PROTOCOL_HYBRID)) w = Some (Inr (True, set_state Credssp w2))"
    using confirm_received(2) [OF w(2,6)] by simp
  then show thesis using w2(2) by (rule that) (use w2(3) in \<open>simp add: set_state_def\<close>)
qed

lemma exchange_completes:
  assumes "system_works env" "ms \<noteq> []" "\<forall>m \<in> set ms. credssp_message m" "in_exchange w"
    and "\<forall>i < length ms. \<exists>token. an_next (env (w_calls w + i)) = Inr (if Suc i = length ms then Finish else Cont, token)"
  shows "(\<exists>w2. receives env (map Inr ms) w = Some (Inr w2) \<and> n_state (w_nego w2) = Final \<and> sk_tls_state (w_trans w2) = TLS_Ok)
    \<and> (\<forall>k < length ms. \<exists>w1. receives env (map Inr (take k ms)) w = Some (Inr w1) \<and> n_state (w_nego w1) = Credssp)"
  using assms(2-5)
proof (induction ms arbitrary: w)
  case (Cons m ms)
  let ?st = "if ms = [] then Finish else Cont"
  obtain token where token: "an_next (env (w_calls w)) = Inr (?st, token)" using Cons.prems(4) by fastforce
  obtain w2 where w2: "recv_next_data env (Inr m) w = Some (Inr (?st \<noteq> Finish, w2))" "w_calls w2 = Suc (w_calls w)"
    "?st = Cont \<Longrightarrow> in_exchange w2" "?st = Finish \<Longrightarrow> n_state (w_nego w2) = Final" "sk_tls_state (w_trans w2) = TLS_Ok"
    by (rule message_handled [OF assms(1) Cons.prems(3) _ token]) (use Cons.prems(2) in auto)
  have w: "n_state (w_nego w) = Credssp" using Cons.prems(3) by (simp add: in_exchange_def)
  show ?case
  proof (cases "ms = []")
    case True
    then show ?thesis using w2 w by simp
  next
    case False
    have "\<forall>i < length ms. \<exists>token. an_next (env (w_calls w2 + i)) = Inr (if Suc i = length ms then Finish else Cont, token)"
      using Cons.prems(4) w2(2) by fastforce
    with Cons.IH [OF False _ w2(3)] Cons.prems(2) False
    have IH: "\<exists>w3. receives env (map Inr ms) w2 = Some (Inr w3) \<and> n_state (w_nego w3) = Final \<and> sk_tls_state (w_trans w3) = TLS_Ok"
      "k < length ms \<Longrightarrow> \<exists>w1. receives env (map Inr (take k ms)) w2 = Some (Inr w1) \<and> n_state (w_nego w1) = Credssp" for k
      by simp_all
    have "\<exists>w1. receives env (map Inr (take k (m # ms))) w = Some (Inr w1) \<and> n_state (w_nego w1) = Credssp" if "k < length (m # ms)" for k
      using that w w2(1) IH(2) [of "k - 1"] by (cases k) simp_all
    then show ?thesis using IH(1) w2(1) by simp
  qed
qed simp

text \<open>
  C17. A server selects CredSSP and answers with messages of whatever length form, each arriving in one read; TLS works, no write fails, the
  request is written, the client of Kerberos or NTLM starts, asks for more after each message but the last and has finished with the last
  (the NTLM client: after the second). Then the negotiation is done after the last message, inside TLS, and not before.
\<close>

theorem nla_completes:
  assumes "start_negociation env c x = Inr w" "\<not> has_data_to_write (w_trans w)" "system_works env" "client_starts (c_krb c) (env 2)"
    and "c_nla c" "0 \<notin> set (c_password c)" "ms \<noteq> []" "\<forall>m \<in> set ms. credssp_message m"
    and "\<forall>i < length ms. \<exists>token. an_next (env (3 + i)) = Inr (if Suc i = length ms then Finish else Cont, token)"
  shows "(\<exists>w2. receives env (map Inr (confirm_of PROTOCOL_HYBRID # ms)) w = Some (Inr w2)
        \<and> n_state (w_nego w2) = Final \<and> sk_tls_state (w_trans w2) = TLS_Ok)
    \<and> (\<forall>k < length ms. \<exists>w1. receives env (map Inr (confirm_of PROTOCOL_HYBRID # take k ms)) w = Some (Inr w1) \<and> n_state (w_nego w1) = Credssp)"
proof -
  obtain w1 where w1: "recv_next_data env (Inr (confirm_of PROTOCOL_HYBRID)) w = Some (Inr (True, w1))" "in_exchange w1" "w_calls w1 = 3"
    by (rule hybrid_selected [OF assms(1-6)])
  show ?thesis using exchange_completes [OF assms(3,7,8) w1(2)] assms(9) w1(1,3) by simp
qed

subsection \<open>Sessions on concrete answers\<close>

lemma plain_passwords:
  "MultiSZCopy 2048 (SOHSeparatedStringsToMultiSZ 2048 [112, 1, 113]) = Inr ([112, 0, 113, 0, 0] @ replicate 2043 0)"
proof (rule soh_array [of "[112, 1, 113]" 2048])
  fix ss
  assume "ss = takeWhile (\<lambda>s. s \<noteq> []) (soh_split (take (2048 - 2) [112, 1, 113]))"
    "MultiSZCopy 2048 (SOHSeparatedStringsToMultiSZ 2048 [112, 1, 113]) = Inr (multisz ss @ replicate (2048 - length (multisz ss)) 0)"
  then show ?thesis by (simp add: multisz_def)
qed simp_all

lemma plain_started:
  obtains w where "start_negociation (steady_env ssl cert) (plain_config True tls_only) x = Inr w"
    "n_password (w_nego w) = [112, 0, 113, 0, 0] @ replicate 2043 0" "n_current_password (w_nego w) = Some 0"
    "n_lb_info (w_nego w) = None" "n_enabled_protocols (w_nego w) = flag tls_only NEGO_Tls OR NEGO_Nla"
proof -
  have flag: "flag tls_only NEGO_Tls OR NEGO_Nla \<noteq> 0" by (cases tls_only) simp_all
  have "\<exists>w. start_negociation (steady_env ssl cert) (plain_config True tls_only) x = Inr w
      \<and> n_password (w_nego w) = [112, 0, 113, 0, 0] @ replicate 2043 0 \<and> n_current_password (w_nego w) = Some 0
      \<and> n_lb_info (w_nego w) = None \<and> n_enabled_protocols (w_nego w) = flag tls_only NEGO_Tls OR NEGO_Nla"
    using flag
    by (simp add: start_negociation_def mk_session_def plain_config_def mk_nego_def set_identity_def plain_passwords
      send_negotiation_request_def negotiation_request_def trans_send_def do_send_def steady_env_def mk_socket_def)
  with that show thesis by blast
qed

lemma plain_works: "system_works (steady_env SslDone CertValid)" "client_starts krb (steady_env SslDone CertValid i)"
  by (simp_all add: system_works_def client_starts_def steady_env_def)

lemma plain_request_written:
  assumes "start_negociation (steady_env ssl cert) (plain_config nla tls_only) x = Inr w"
  shows "\<not> has_data_to_write (w_trans w)"
proof -
  have "length (cookie u) \<le> 255" for u by (simp add: cookie_def)
  then have l: "length (CR_TPDU_Send (cookie u) ty flags protocols) \<le> 300" for u ty flags protocols
    by (simp add: CR_TPDU_Send_def x224_bytes length_rdp_neg_send neg_size_def Let_def order_trans [of _ 255])
  from assms obtain w0 request where w0: "mk_session (plain_config nla tls_only) x = Inr w0" "negotiation_request (w_nego w0) = Inr request"
    "trans_send (steady_env ssl cert) request w0 = Inr w"
    by (auto simp: start_negociation_def send_negotiation_request_def bindR_eq_Inr)
  have n0: "w_trans w0 = mk_socket" "n_lb_info (w_nego w0) = None"
    using w0(1) by (auto simp: mk_session_def mk_nego_def set_identity_def plain_config_def Let_def bindR_eq_Inr split: if_splits)
  have "length request \<le> 300" using w0(2) n0(2) l by (auto simp: negotiation_request_def split: if_splits)
  then show ?thesis
    using w0(3) n0(1) by (auto simp: trans_send_def do_send_def bindR_eq_Inr steady_env_def mk_socket_def has_data_to_write_def split: if_splits)
qed

abbreviation (input) "two_messages \<equiv> [[0x30, 0x81, 1, 0], [0x30, 2, 0, 0]] :: u8 list list"

lemma two_messages_ok: "\<forall>m \<in> set two_messages. credssp_message m"
  by (simp add: credssp_message_def credssp_len_def)

lemma two_answers:
  "\<forall>i < length two_messages. \<exists>token. an_next (steady_env ssl cert (3 + i)) = Inr (if Suc i = length two_messages then Finish else Cont, token)"
  by (auto simp: steady_env_def less_Suc_eq)

lemma nla_completes_witness:
  "\<exists>w w2. start_negociation (steady_env SslDone CertValid) (plain_config True False) \<lparr>has_fast_path = False, x_type = 0\<rparr> = Inr w
    \<and> receives (steady_env SslDone CertValid) (map Inr (confirm_of PROTOCOL_HYBRID # two_messages)) w = Some (Inr w2)
    \<and> n_state (w_nego w2) = Final \<and> sk_tls_state (w_trans w2) = TLS_Ok"
proof (rule plain_started)
  fix w
  assume w: "start_negociation (steady_env SslDone CertValid) (plain_config True False) \<lparr>has_fast_path = False, x_type = 0\<rparr> = Inr w"
  have c: "c_nla (plain_config True False)" "0 \<notin> set (c_password (plain_config True False))" by (simp_all add: plain_config_def)
  from nla_completes [OF w plain_request_written [OF w] plain_works c _ two_messages_ok two_answers] w show ?thesis by blast
qed

lemma plain_nla_run:
  obtains w where "negotiates (steady_env SslDone CertValid) (plain_config True tls_only) w" "n_state (w_nego w) = Final"
proof (rule plain_started)
  let ?env = "steady_env SslDone CertValid" and ?c = "plain_config True tls_only"
  fix w
  assume w: "start_negociation ?env ?c \<lparr>has_fast_path = False, x_type = 0\<rparr> = Inr w"
  have c: "c_nla ?c" "0 \<notin> set (c_password ?c)" by (simp_all add: plain_config_def)
  obtain w1 where w1: "recv_next_data ?env (Inr (confirm_of PROTOCOL_HYBRID)) w = Some (Inr (True, w1))" "in_exchange w1" "w_calls w1 = 3"
    by (rule hybrid_selected [OF w plain_request_written [OF w] plain_works c])
  have "\<exists>w2. receives ?env (map Inr two_messages) w1 = Some (Inr w2) \<and> n_state (w_nego w2) = Final"
    using exchange_completes [OF plain_works(1) _ two_messages_ok w1(2)] two_answers w1(3) by auto
  then show thesis using that receives_negotiates negotiates.receive [OF negotiates.start [OF w] w1(1)] by blast
qed

text \<open>A configuration without NLA, its session started.\<close>

lemma tls_only_started:
  obtains w where "start_negociation (steady_env ssl cert) (plain_config False True) x = Inr w"
    "w_buf w = mk_tpdu x" "n_state (w_nego w) = Negotiate" "w_trans w = mk_socket\<lparr>sk_wire := sk_wire (w_trans w)\<rparr>"
    "n_current_password (w_nego w) = None" "n_tls_only (w_nego w)" "n_enabled_protocols (w_nego w) = NEGO_Tls" "\<not> n_krb_state (w_nego w)"
proof -
  have "length (CR_TPDU_Send (cookie [117]) RDP_NEG_REQ 0 (requested_protocols NEGO_Tls)) \<le> 300"
    by (simp add: CR_TPDU_Send_def x224_bytes length_rdp_neg_send neg_size_def cookie_def Let_def)
  then have "\<exists>w. start_negociation (steady_env ssl cert) (plain_config False True) x = Inr w
      \<and> w_buf w = mk_tpdu x \<and> n_state (w_nego w) = Negotiate \<and> w_trans w = mk_socket\<lparr>sk_wire := sk_wire (w_trans w)\<rparr>
      \<and> n_current_password (w_nego w) = None \<and> n_tls_only (w_nego w) \<and> n_enabled_protocols (w_nego w) = NEGO_Tls \<and> \<not> n_krb_state (w_nego w)"
    by (simp add: start_negociation_def mk_session_def plain_config_def mk_nego_def set_identity_def
      send_negotiation_request_def negotiation_request_def trans_send_def do_send_def steady_env_def mk_socket_def)
  with that show thesis by blast
qed

lemmas tls_run = steady_env_def nego_enable_client_tls_def socket_enable_client_tls_def tls_process_def tls_loop_def
  enable_client_tls_loop_def check_certificate_def certificate_external_validation_def reset_tls_def has_data_to_write_def
  mk_socket_def tls_answer.truncate_def Let_def

text \<open>The answers with which a step of the handshake fails, by the state it starts from.\<close>

definition handshake_fails :: "answer \<Rightarrow> bool" where
  "handshake_fails a \<longleftrightarrow> an_ssl a = SslError
     \<or> an_ssl a = SslDone \<and> (an_certificate a = Inr CertInvalid \<or> an_certificate a = Inr CertValid \<and> \<not> an_public_key a)"

definition tls_step_fails :: "tls_state \<Rightarrow> answer \<Rightarrow> bool" where
  "tls_step_fails st a \<longleftrightarrow> (case st of
     TLS_Uninit \<Rightarrow> \<not> an_start a \<or> handshake_fails a
   | TLS_Want \<Rightarrow> handshake_fails a
   | TLS_Ok \<Rightarrow> True
   | TLS_WaitCertCb \<Rightarrow> an_certificate a = Inr CertWait \<or> an_certificate a = Inr CertInvalid
       \<or> an_certificate a = Inr CertValid \<and> \<not> an_public_key a)"

lemma failed_step:
  assumes "tls_step_fails (sk_tls_state (w_trans w)) (env (w_calls w))" "\<not> has_data_to_write (w_trans w)"
  obtains w2 where "activate_ssl_tls env w = Inr (Final, w2)" "\<not> sk_tls (w_trans w2)" "w_nego w2 = w_nego w"
proof -
  have "\<exists>s. tls_process False (tls_answer.truncate (env (w_calls w))) (w_trans w) = Inr (TlsFail, s)"
    using assms
    by (cases "sk_tls_state (w_trans w)")
      (auto simp: tls_step_fails_def handshake_fails_def tls_process_def tls_loop_def enable_client_tls_loop_def check_certificate_def
        certificate_external_validation_def final_check_certificate_def tls_answer.truncate_def Let_def)
  then obtain s where "tls_process False (tls_answer.truncate (env (w_calls w))) (w_trans w) = Inr (TlsFail, s)" ..
  then show thesis
    by (intro that [of "w\<lparr>w_trans := reset_tls s, w_calls := Suc (w_calls w)\<rparr>"])
      (simp_all add: activate_ssl_tls_def nego_enable_client_tls_def socket_enable_client_tls_def Let_def reset_tls_def)
qed

text \<open>
  C21. In every session where TLS alone is allowed and selected, a step of the handshake that fails (the first, with the confirm of the
  server, or a later one) ends the negotiation as a success: the TLS context is taken back and the session goes on in clear, the
  protocols being what they were. (With CredSSP selected the exchange is begun instead.)
\<close>

theorem tls_failure_goes_on_in_clear:
  assumes "negotiates env c w" "c_tls_only c"
    and "n_state (w_nego w) = Tls \<or> n_state (w_nego w) = Negotiate \<and> w_buf w = mk_tpdu x \<and> input = Inr (confirm_of PROTOCOL_TLS)"
    and "tls_step_fails (sk_tls_state (w_trans w)) (env (w_calls w))" "\<not> has_data_to_write (w_trans w)"
  shows "\<exists>w2. recv_next_data env input w = Some (Inr (False, w2)) \<and> n_state (w_nego w2) = Final
    \<and> n_selected_protocol (w_nego w2) = PROTOCOL_TLS \<and> n_enabled_protocols (w_nego w2) = n_enabled_protocols (w_nego w)
    \<and> \<not> sk_tls (w_trans w2)"
  using assms(3)
proof (elim disjE conjE)
  assume t: "n_state (w_nego w) = Tls"
  with negotiates_wf [OF assms(1)] have p: "n_selected_protocol (w_nego w) = PROTOCOL_TLS" by (simp add: state_wf_def)
  obtain w2 where "activate_ssl_tls env w = Inr (Final, w2)" "\<not> sk_tls (w_trans w2)" "w_nego w2 = w_nego w"
    by (rule failed_step [of w env, OF assms(4,5)])
  then show ?thesis using t p by (simp add: recv_next_data_def) (simp add: set_state_def)
next
  assume w: "n_state (w_nego w) = Negotiate" "w_buf w = mk_tpdu x" "input = Inr (confirm_of PROTOCOL_TLS)"
  let ?w1 = "w\<lparr>w_buf := confirm_loaded PROTOCOL_TLS x, w_nego := (w_nego w)\<lparr>n_selected_protocol := PROTOCOL_TLS\<rparr>\<rparr>"
  have only: "n_tls_only (w_nego w)" using negotiates_wf [OF assms(1)] assms(2) by (simp add: state_wf_def nego_wf_def)
  obtain w2 where w2: "activate_ssl_tls env ?w1 = Inr (Final, w2)" "\<not> sk_tls (w_trans w2)" "w_nego w2 = w_nego ?w1"
    by (rule failed_step [of ?w1 env]) (use assms(4,5) in simp_all)
  have "recv_connection_confirm env (confirm_of PROTOCOL_TLS) (w\<lparr>w_buf := confirm_loaded PROTOCOL_TLS x\<rparr>) = Inr (Final, w2)"
    using w2(1) only by (simp add: recv_connection_confirm_def confirm_read Let_def)
  then have "recv_next_data env (Inr (confirm_of PROTOCOL_TLS)) w = Some (Inr (False, set_state Final w2))"
    using confirm_received(2) [OF w(2,1)] by simp
  then show ?thesis using w(3) w2(2,3) by (auto simp: set_state_def)
qed

lemma tls_failure_goes_on_in_clear_witness:
  "\<exists>w w2. start_negociation (steady_env SslError CertValid) (plain_config False True) \<lparr>has_fast_path = False, x_type = 0\<rparr> = Inr w
    \<and> recv_next_data (steady_env SslError CertValid) (Inr (confirm_of PROTOCOL_TLS)) w = Some (Inr (False, w2))
    \<and> n_state (w_nego w2) = Final \<and> \<not> sk_tls (w_trans w2)"
proof (rule tls_only_started)
  let ?x = "\<lparr>has_fast_path = False, x_type = 0\<rparr>"
  fix w
  assume w: "start_negociation (steady_env SslError CertValid) (plain_config False True) ?x = Inr w"
    "w_buf w = mk_tpdu ?x" "n_state (w_nego w) = Negotiate"
  have "c_tls_only (plain_config False True)" "tls_step_fails st (steady_env SslError CertValid i)" if "st \<noteq> TLS_WaitCertCb" for st i
    using that by (simp_all add: plain_config_def tls_step_fails_def handshake_fails_def steady_env_def split: tls_state.splits)
  then show ?thesis
    using tls_failure_goes_on_in_clear [OF negotiates.start [OF w(1)], of ?x "Inr (confirm_of PROTOCOL_TLS)"] w
      plain_request_written [OF w(1)] started(1) [OF w(1)] by auto
qed

text \<open>
  So does a certificate that is still being checked outside when more data arrive: the second answer that it
  is not known yet is taken for a failure.
\<close>

theorem pending_certificate_goes_on_in_clear:
  "\<exists>w w2 w3. start_negociation (steady_env SslDone CertWait) (plain_config False True) x = Inr w
    \<and> recv_next_data (steady_env SslDone CertWait) (Inr (confirm_of PROTOCOL_TLS)) w = Some (Inr (True, w2))
    \<and> recv_next_data (steady_env SslDone CertWait) input w2 = Some (Inr (False, w3))
    \<and> n_state (w_nego w3) = Final \<and> \<not> sk_tls (w_trans w3)"
proof (rule tls_only_started)
  let ?env = "steady_env SslDone CertWait"
  fix w
  assume w: "start_negociation ?env (plain_config False True) x = Inr w" "w_buf w = mk_tpdu x" "n_state (w_nego w) = Negotiate"
    "w_trans w = mk_socket\<lparr>sk_wire := sk_wire (w_trans w)\<rparr>" "n_tls_only (w_nego w)"
  let ?w1 = "w\<lparr>w_buf := confirm_loaded PROTOCOL_TLS x\<rparr>"
  obtain wire where wire: "w_trans w = mk_socket\<lparr>sk_wire := wire\<rparr>" using w(4) by blast
  then have "\<exists>w2. recv_connection_confirm ?env (confirm_of PROTOCOL_TLS) ?w1 = Inr (Tls, w2) \<and> sk_tls_state (w_trans w2) = TLS_WaitCertCb"
    using w(5) by (simp add: recv_connection_confirm_def confirm_read activate_ssl_tls_def tls_run)
  then obtain w2 where w2: "recv_connection_confirm ?env (confirm_of PROTOCOL_TLS) ?w1 = Inr (Tls, w2)"
    "sk_tls_state (w_trans w2) = TLS_WaitCertCb" by blast
  have first: "recv_next_data ?env (Inr (confirm_of PROTOCOL_TLS)) w = Some (Inr (True, set_state Tls w2))"
    using confirm_received(2) [OF w(2,3) w2(1)] by simp
  have "\<exists>w3. activate_ssl_tls ?env (set_state Tls w2) = Inr (Final, w3) \<and> \<not> sk_tls (w_trans w3)"
    using w2(2) by (simp add: set_state_def activate_ssl_tls_def tls_run)
  then obtain w3 where "activate_ssl_tls ?env (set_state Tls w2) = Inr (Final, w3)" "\<not> sk_tls (w_trans w3)" by blast
  then have "recv_next_data ?env input (set_state Tls w2) = Some (Inr (False, set_state Final w3)) \<and> \<not> sk_tls (w_trans (set_state Final w3))"
    by (simp add: recv_next_data_def) (simp add: set_state_def)
  with w(1) first show ?thesis by (auto simp: set_state_def)
qed

text \<open>
  A server that selects CredSSP where NLA is not configured makes the client read its password through a null
  pointer.
\<close>

theorem unasked_nla_reads_null:
  "\<exists>w. start_negociation (steady_env SslDone CertValid) (plain_config False True) x = Inr w
    \<and> recv_next_data (steady_env SslDone CertValid) (Inr (confirm_of PROTOCOL_HYBRID)) w = Some (Inl UB)"
proof (rule tls_only_started)
  let ?env = "steady_env SslDone CertValid"
  fix w
  assume w: "start_negociation ?env (plain_config False True) x = Inr w" "w_buf w = mk_tpdu x" "n_state (w_nego w) = Negotiate"
    "w_trans w = mk_socket\<lparr>sk_wire := sk_wire (w_trans w)\<rparr>" "n_current_password (w_nego w) = None" "\<not> n_krb_state (w_nego w)"
  let ?w1 = "w\<lparr>w_buf := confirm_loaded PROTOCOL_HYBRID x\<rparr>"
  obtain wire where wire: "w_trans w = mk_socket\<lparr>sk_wire := wire\<rparr>" using w(4) by blast
  then have "recv_connection_confirm ?env (confirm_of PROTOCOL_HYBRID) ?w1 = Inl UB"
    using w(5,6) by (simp add: recv_connection_confirm_def confirm_read activate_ssl_hybrid_def activate_ntlm_def
      current_password_text_def final_check_certificate_def tls_run)
  from confirm_received(1) [OF w(2,3) this] w(1) show ?thesis by blast
qed

text \<open>
  The buffer is not emptied on the way back from a failed CredSSP: when the connection was lost within a message, the
  answer of the new connection is taken for the rest of it, and refused.
\<close>

lemma stale_bytes_spoil_the_answer:
  assumes w: "t_state (w_buf w) = RHeader" "t_pdu_len (w_buf w) = 0" "has_fast_path (t_x224 (w_buf w)) = False"
      "bf_data (t_buf (w_buf w)) = [0x30, 5, 1, 2]" "bf_idx (t_buf (w_buf w)) = 0"
    and t: "next_packet CREDSSP (w_buf w) = Inr (False, t)" and f: "fallback_to_tls env (w\<lparr>w_buf := t\<rparr>) = Inr (st, w2)"
      and wf: "nego_wf c (w_nego w)"
  shows "recv_next_data env (Inr (confirm_of protocol)) (set_state st w2) = Some (Inl ERR_X224)"
proof -
  note fb = fallback_wf [OF f, of c, simplified, OF wf]
  from t w have t2: "t_state t = RData" "t_pdu_len t = 7" "has_fast_path (t_x224 t) = False"
      "bf_data (t_buf t) = [0x30, 5, 1, 2]" "bf_idx (t_buf t) = 0"
    by (auto simp: next_packet_def extract_packet_def consume_current_packet_def advance_def remaining_def av_def
      credssp_read_header_def Let_def split: if_splits)
  obtain t3 where t3: "load_data (confirm_of protocol) t = Inr t3" "t_state t3 = RData" "t_pdu_len t3 = 7"
    "has_fast_path (t_x224 t3) = False" "av (t_buf t3) = [0x30, 5, 1, 2] @ confirm_of protocol"
    using t2 by (simp add: load_data_def read_with_def room_def remaining_def av_def)
  then have "next_packet PDU t3 = Inl ERR_X224"
    by (simp add: next_packet_def extract_packet_def remaining_av x224_prepare_data_def confirm_bytes)
  then have "confirm_loop env (Suc k) ((set_state st w2)\<lparr>w_buf := t3\<rparr>) = Some (Inl ERR_X224)" for k
    using fb(1) by (simp add: confirm_loop_def packet_loop.simps set_state_def)
  then show ?thesis using fb t3(1) by (simp add: recv_next_data_def set_state_def Let_def)
qed

lemma nla_is_enforced_witness:
  "\<exists>w :: session. n_state (w_nego w) = Final \<and> c_nla (plain_config True False)
    \<and> (\<exists>i token. an_next (steady_env SslDone CertValid i) = Inr (Finish, token))
    \<and> ((\<forall>i. tls_good (tls_answer.truncate (steady_env SslDone CertValid i))) \<longrightarrow>
        sk_tls (w_trans w) \<and> sk_tls_state (w_trans w) = TLS_Ok)"
proof (rule plain_nla_run)
  fix w
  assume w: "negotiates (steady_env SslDone CertValid) (plain_config True False) w" "n_state (w_nego w) = Final"
  have c: "\<not> c_tls_only (plain_config True False)" "\<not> c_rdp_legacy (plain_config True False)" by (simp_all add: plain_config_def)
  show ?thesis by (rule exI [of _ w], rule conjI [OF w(2)], rule nla_is_enforced [OF w(1) c w(2)])
qed

lemma tls_in_effect_witness:
  "\<exists>w :: session. n_state (w_nego w) = Final \<and> (sk_tls (w_trans w) \<and> sk_tls_state (w_trans w) = TLS_Ok
    \<or> c_rdp_legacy (plain_config True False) \<and> n_selected_protocol (w_nego w) = PROTOCOL_RDP
      \<and> \<not> enhanced_rdp_security_is_in_effect (w_nego w))"
proof (rule plain_nla_run)
  fix w
  assume w: "negotiates (steady_env SslDone CertValid) (plain_config True False) w" "n_state (w_nego w) = Final"
  have t: "\<forall>i. tls_good (tls_answer.truncate (steady_env SslDone CertValid i))"
    by (simp add: steady_env_def tls_good_def tls_answer.truncate_def)
  show ?thesis by (rule exI [of _ w], rule conjI [OF w(2)], rule tls_in_effect [OF w(1) t w(2)])
qed

lemma sessions_well_formed_witness:
  "\<exists>w :: session. n_state (w_nego w) = Final \<and> (case n_current_password (w_nego w) of
      None \<Rightarrow> \<not> c_nla (plain_config True False) | Some p \<Rightarrow> c_nla (plain_config True False) \<and> length (n_password (w_nego w)) = 2048 \<and> p < 2048)"
proof (rule plain_nla_run)
  fix w
  assume w: "negotiates (steady_env SslDone CertValid) (plain_config True False) w" "n_state (w_nego w) = Final"
  show ?thesis by (rule exI [of _ w], rule conjI [OF w(2)], rule conjunct1 [OF sessions_well_formed [OF w(1)]])
qed

lemma recv_next_data_ends_witness:
  "\<exists>w :: session. n_state (w_nego w) = Final \<and> recv_next_data (steady_env SslDone CertValid) (Inr [1, 2]) w \<noteq> None"
proof (rule plain_nla_run)
  fix w
  assume w: "negotiates (steady_env SslDone CertValid) (plain_config True False) w" "n_state (w_nego w) = Final"
  show ?thesis by (rule exI [of _ w], rule conjI [OF w(2)], rule recv_next_data_ends [OF w(1)])
qed

lemma negotiation_request_understood_witness:
  "map_sum id ((\<lambda>cr. (cr_cookie cr, rdp_neg_code (cr_neg cr))) \<circ> fst) (CR_TPDU_Data_Recv (instream_of
      (CR_TPDU_Send (cookie [117]) RDP_NEG_REQ 0 PROTOCOL_TLS))) = Inr (cookie [117], PROTOCOL_TLS)"
proof -
  obtain n where n: "mk_nego [117] False False False True False False = Inr n" "n_username n = [117]" "n_lb_info n = None" "n_tls n"
    "n_enabled_protocols n = NEGO_Tls" "\<not> n_restricted_admin_mode n" "requested_protocols NEGO_Tls = PROTOCOL_TLS"
    by (simp add: mk_nego_def requested_protocols_def has_def)
  then have "negotiation_request n = Inr (CR_TPDU_Send (cookie [117]) RDP_NEG_REQ 0 PROTOCOL_TLS)"
    by (simp add: negotiation_request_def)
  from negotiation_request_understood [OF this n(3,4)] n show ?thesis by simp
qed

lemma plain_password: "current_password_text n = Inr [112]"
  if "n_password n = [112, 0, 113, 0, 0] @ replicate 2043 0" "n_current_password n = Some 0"
  using that by (simp add: current_password_text_def)

lemma only_configured_passwords_witness:
  "\<exists>w :: session. current_password_text (w_nego w) = Inr [112] \<and> ([112] = ([] :: u8 list) \<or> [112] \<in> set (soh_split (take 2046 (c_password (plain_config True False)))))"
proof (rule plain_started)
  fix w
  assume w: "start_negociation (steady_env SslDone CertValid) (plain_config True False) \<lparr>has_fast_path = False, x_type = 0\<rparr> = Inr w"
    "n_password (w_nego w) = [112, 0, 113, 0, 0] @ replicate 2043 0" "n_current_password (w_nego w) = Some 0"
  then have t: "current_password_text (w_nego w) = Inr [112]" by (intro plain_password)
  have z: "0 \<notin> set (c_password (plain_config True False))" by (simp add: plain_config_def)
  show ?thesis
    by (intro exI [of _ w] conjI t) (rule only_configured_passwords [OF negotiates.start [OF w(1)] z t])
qed

lemma fallback_tries_next_password_witness:
  "\<exists>w w2. fallback_to_tls (steady_env SslDone CertValid) w = Inr (Negotiate, w2)
    \<and> passwords_left (w_nego w2) = tl (passwords_left (w_nego w)) \<and> passwords_left (w_nego w) = [[112], [113]]"
proof (rule plain_started)
  let ?env = "steady_env SslDone CertValid"
  fix w
  assume w: "start_negociation ?env (plain_config True False) \<lparr>has_fast_path = False, x_type = 0\<rparr> = Inr w"
    "n_password (w_nego w) = [112, 0, 113, 0, 0] @ replicate 2043 0" "n_current_password (w_nego w) = Some 0"
    "n_lb_info (w_nego w) = None" "n_enabled_protocols (w_nego w) = flag False NEGO_Tls OR NEGO_Nla"
  have wf: "nego_wf (plain_config True False) (w_nego w)" using negotiates_wf [OF negotiates.start [OF w(1)]] by (simp add: state_wf_def)
  then have ad: "\<not> n_restricted_admin_mode (w_nego w)" by (simp add: nego_wf_def plain_config_def)
  have "passwords_left (w_nego w) = strings_from (multisz [[112], [113]] @ replicate 2043 0)"
    using w(2,3) by (simp add: passwords_left_def multisz_def)
  then have left: "passwords_left (w_nego w) = [[112], [113]]" by (simp add: strings_from_multisz)
  have "\<exists>st w2. fallback_to_tls ?env w = Inr (st, w2)"
    using w(2-5) ad plain_password [OF w(2,3)]
    by (simp add: fallback_to_tls_def trans_connect_def connect_def trans_disconnect_def disconnect_def reset_tls_def Let_def
      next_password_def has_password_def send_negotiation_request_def negotiation_request_def trans_send_def do_send_def steady_env_def)
  then obtain st w2 where f: "fallback_to_tls ?env w = Inr (st, w2)" by blast
  have z: "0 \<notin> set (c_password (plain_config True False))" by (simp add: plain_config_def)
  from fallback_tries_next_password [OF negotiates.start [OF w(1)] z f] f left show ?thesis by blast
qed

end
