(* ===== verification/Spec2Isabelle.thy ===== *)
theory Spec2Isabelle
  imports Rects Graphics_Link Mppc_Safety Tpdu Save_State Pointer_Cache Glyph_Link Rle_Safety X224_Link Nego_Link
begin

text \<open>
  A verification development for the RDP proxy of this repository: the path of a drawing from the
  proxy's serializer, through the byte streams, to the decoder that draws it.

  The program. A session has a front end towards the user's client and a module towards the target
  (an RDP server or one of the internal applications). What the module draws goes through
  \<open>gdi::GraphicApi\<close>; for a remote client it ends in \<open>RDPSerializer\<close> (\<open>core/RDP/RDPSerializer.hpp\<close>),
  which encodes every drawing as a primary order relative to the last order of its kind
  (\<open>core/RDP/orders\<close>, \<open>core/RDP/state_chunk.hpp\<close>), gathers orders in a buffer and has
  \<open>GraphicsUpdatePDU\<close> (\<open>core/RDP/GraphicUpdatePDU.hpp\<close>) send the buffer as an update. The decoder of such
  updates is \<open>rdp_orders\<close> (\<open>mod/rdp/rdp_orders.hpp\<close>), which keeps the same history on its side.

  The theories, in the order the code depends on each other:
  \<^item> \<open>Prelude\<close>: machine words, error values and the result type, flags of bit masks.
  \<^item> \<open>Streams\<close>: \<open>InStream\<close> and \<open>OutStream\<close> (\<open>utils/stream.hpp\<close>, \<open>utils/parse.hpp\<close>). A read whose
    \<open>assert(in_check_rem(n))\<close> fails is the error \<open>UB\<close>. The locales \<open>reader\<close> and \<open>codec\<close> state what every
    read and every pair of read and write promises.
  \<^item> \<open>Varint\<close>: the two variable-length encodings as interpretations of \<open>codec\<close>.
  \<^item> \<open>Rects\<close>: \<open>Rect\<close>, \<open>DeltaRect\<close> (\<open>utils/rect.hpp\<close>) and \<open>SubRegion\<close> (\<open>utils/region.hpp\<close>), against the set of
    pixels a rectangle covers.
  \<^item> \<open>Order_Common\<close>: control byte, field mask, bounds, coordinates, brushes and pens
    (\<open>core/RDP/orders/RDPOrdersCommon.hpp\<close>).
  \<^item> \<open>Orders\<close>, \<open>Delta_Lists\<close>, \<open>Multi_Orders\<close>: the fourteen primary orders that both ends know. The locale
    \<open>primary_order\<close> states what an order's \<open>emit\<close> and \<open>receive\<close> owe each other; every order is an
    interpretation.
  \<^item> \<open>Order_Sync\<close>: the histories, the serializer and the receiver; the locale \<open>history\<close> extends
    \<open>primary_order\<close> by the slot of the history an order uses, again interpreted for every order.
  \<^item> \<open>Order_Link\<close>: sizes, batches and the whole link.
  \<^item> \<open>Pointer_Cache\<close>: the numbers under which the client knows the mouse pointers of the module
    (\<open>utils/cache_index_mapping.hpp\<close>, \<open>core/RDP/caches/pointercache.hpp\<close>). The locale \<open>index_cache\<close> states what
    the mapping of numbers owes the cache.
  \<^item> \<open>Bitmaps\<close>, \<open>Bmp_Cache\<close>, \<open>Bmp_Link\<close>: bitmaps in every colour depth (\<open>utils/bitmap.cpp\<close>), the cache of
    bitmaps (\<open>core/RDP/caches/bmpcache.hpp\<close>) and the caches of the two ends of a link, which agree on the
    bitmap of every \<open>MemBlt\<close>.
  \<^item> \<open>Rle\<close>, \<open>Rle_Round_Trip\<close>, \<open>Rle_Safety\<close>: the interleaved run-length encoding of bitmaps (\<open>utils/rle.cpp\<close>):
    encoder and decoder, that they fit together, and what the decoder does with any other input.
  \<^item> \<open>Planes\<close>: the planar encoding of bitmaps in sessions of 32 bits, from the same file.
  \<^item> \<open>Bmp_Orders\<close>, \<open>Bmp_Orders_Read\<close>, \<open>Bmp_Bytes\<close>: the orders that carry a bitmap
    (\<open>core/RDP/orders/RDPOrdersSecondaryBmpCache.hpp\<close>), raw or in one of the two codes, and the link of \<open>Bmp_Link\<close> over
    their bytes.
  \<^item> \<open>Glyphs\<close>, \<open>Secondary\<close>: glyphs, their cache and their orders, colour tables, and the handler of secondary orders
    (\<open>core/RDP/caches/glyphcache.hpp\<close>, \<open>mod/rdp/rdp_orders.hpp\<close>).
  \<^item> \<open>Glyph_Text\<close>, \<open>Glyph_Link\<close>: how a text gets the numbers of the serializer's glyph cache, and the glyph caches of the two ends,
    which agree on every glyph of a text. The loop over the bytes of a text has fuel (\<open>text_loop\<close>): one turn more than the text has
    entries is enough for a well-formed text, and no fuel is for the one of \<open>text_never_ends\<close>.
  \<^item> \<open>Mppc\<close>, \<open>Mppc_Bits\<close>, \<open>Mppc_Codes\<close>, \<open>Mppc_Link\<close>, \<open>Mppc_Safety\<close>: the bulk compression of RDP 4.0 and 5.0
    (\<open>core/RDP/mppc/mppc_40.hpp\<close>, \<open>mppc_50.hpp\<close>, \<open>mppc_utils.hpp\<close>): the bits, the codes, the two ends in step (\<open>bulk_sync\<close>), and what
    they do with other data. The loop of the decompressor has fuel; a turn for every byte is enough (\<open>decompress_ends\<close>).
  \<^item> \<open>Fast_Path\<close>, \<open>Graphics_Link\<close>: updates cut into fragments, compressed and wrapped, and put together again
    (\<open>core/RDP/GraphicUpdatePDU.hpp\<close>, \<open>core/RDP/fastpath.hpp\<close>, \<open>mod/rdp/rdp.hpp\<close>). The locale \<open>bulk_codec\<close> states what a compressor,
    a virtual class in the code, owes its decompressor; the compressors of \<open>Mppc\<close> and no compression are its interpretations.
  \<^item> \<open>Tpdu\<close>: below the updates, the cutting of the network stream into packets (\<open>core/buf64k.hpp\<close>,
    \<open>core/RDP/tpdu_buffer.hpp\<close>). The locales \<open>extractor\<close> and \<open>framing\<close> state what a packet header owes
    the buffer.
  \<^item> \<open>X224\<close>, \<open>X224_Link\<close>: the X.224 packets inside (\<open>core/RDP/x224.hpp\<close>), what is sent and what is read
    back, and their way through \<open>Tpdu\<close>.
  \<^item> \<open>Sockets\<close>: the connection to the target with its TLS start (\<open>transport/socket_transport.cpp\<close>,
    \<open>system/linux/system/tls_context.hpp\<close>); the system, OpenSSL and the certificate checker answer as arguments.
  \<^item> \<open>Multi_Sz\<close>, \<open>Nego\<close>, \<open>Nego_Safety\<close>, \<open>Nego_Link\<close>: the negotiation of the security protocol (\<open>core/RDP/nego.cpp\<close>)
    over \<open>Tpdu\<close>, \<open>X224\<close> and \<open>Sockets\<close>, and the list of passwords it walks (\<open>utils/sugar/multisz.cpp\<close>). The relation
    \<open>negotiates\<close> gives the sessions any server can bring about; the locale \<open>packet_handler\<close> states what the handler
    of a state's packets owes the loop over the buffer.
  \<^item> \<open>Save_State\<close>: beside the link, the order history as a recording saves and restores it
    (\<open>capture/save_state_chunk.hpp\<close>).

  State and operations. \<open>chunk\<close> is \<open>StateChunk\<close>; \<open>serializer\<close> is the part of \<open>RDPSerializer\<close> and
  \<open>GraphicsUpdatePDU\<close> that drawing touches (history, order buffer, counters, limits, updates sent);
  \<open>receiver\<close> is \<open>rdp_orders\<close> with the list of drawings it made. \<open>draw\<close> is one call of \<open>draw(...)\<close>,
  \<open>sync\<close> the final flush, \<open>process_orders\<close> the decoding of one update. The prepared header of an order
  (\<open>X_header\<close>) and its fields (\<open>X_body\<close>) are the two halves of its \<open>emit\<close>, before and after
  \<open>common.emit\<close>.

  What the lemmas show. Each decoder inverts its encoder and consumes exactly its bytes
  (\<open>codec\<close>, \<open>common_emit_receive\<close>, \<open>emit_receive\<close>, \<open>process_step\<close>); the two histories stay in step
  (\<open>synced\<close>); the invariant \<open>link_inv\<close> describes the updates sent and the buffer after any number of
  drawings; and the size lemmas show that the buffer is never overrun. The properties below put
  these together; those of a single component stand at the end of its theory. The rectangles are exact
  on the screen range of RDP, coordinates from -16384 to 16383 (\<open>on_screen\<close>), and two theorems show what
  happens outside of it.

  Conventions. An exception or a failed \<open>assert\<close> is a value of \<open>error\<close> (\<open>UB\<close> for the latter); loops over
  received counts are recursions over the count and need no fuel; the loop over the packets of a buffer (\<open>drain\<close>)
  has one step of fuel more than the buffer has bytes, and no packet is empty, so it never runs out; so do the loops of
  the negotiation (\<open>recv_next_data_ends\<close>). \<open>env\<close> gives the answers of what is outside the negotiation, call by call. A CredSSP packet whose length
  wraps to 0 stops at the \<open>assert\<close> of \<open>current_pdu_buffer\<close>. Arrays of fixed size
  (45 delta rectangles, 128 points, 256 bytes of glyph data) are lists of that length with a count.
  The conditions of a property are those its text names: \<open>travels\<close> and \<open>order_ok\<close> for what a bitmap order can carry, \<open>memo_ok\<close> for a kept
  code that decodes in the session, \<open>bulk_fits\<close> for the packets that never make a compressor write behind its buffer; for each of them a
  theorem shows what happens outside (\<open>length_of_large_bitmap_lost\<close>, \<open>planar_code_reused\<close>, \<open>compressor_writes_behind_buffer\<close>).
  \<open>cmd_ok\<close> says which drawings the wire format can carry (24-bit colours, deltas of 15 bits, counts
  within the arrays, a bitmap the receiver holds).

  The bytes of a bitmap's code are kept with the bitmap (\<open>memo\<close>); \<open>code_fits\<close> asks that a fresh code fits the buffer of 65535 bytes,
  which the stream does not check. The blocks a decoder fills come from \<open>alloc\<close>, with any bytes in them.

  Not modelled: the windowing orders and the brush cache (handlers of \<open>process_loop\<close> are arguments; the secondary orders are
  decoded by \<open>process_secondary\<close>), the file of the persistent bitmap cache, 32-bit bitmaps coded as runs in
  sessions of another depth (\<open>NOT_MODELLED\<close>), images to be coded as runs whose width is not a multiple of 4 (only that of a PNG image can be one), the limit of an \<open>int\<close> for the stamps of the caches, the bulk compressors of RDP 6.0 and 6.1, re-encoding of the colours of orders between depths, bitmap updates, the encoding of pointer images, logging, and what lies between the packets of \<open>Tpdu\<close> and the payload of a
  slow-path update (MCS and share headers), and encryption.

  Plan: the framing of MCS, the bulk compressors of RDP 6.0 and 6.1 against \<open>bulk_codec\<close>, then the virtual channels and the rest of the connection sequence.
\<close>

subsection \<open>Properties of the drawing-order link\<close>

text \<open>
  C1. The drawing-order link is correct and total.
\<close>

theorem link_delivers_drawings:
  assumes "\<forall>dc\<in>set dcs. cmd_ok valid (fst dc)" "930 \<le> m"
  shows "\<exists>st r. draws dcs (mk_serializer m limit fp req) = Inr st
    \<and> receive_pdus secondary altsec fp w h (s_sent (sync st)) (mk_receiver valid) = Inr r
    \<and> list_all2 (shows_as w h) dcs (drawn r)
    \<and> synced (s_chunk (sync st)) (r_chunk r)"
proof -
  have "930 \<le> s_max_data_block_size (mk_serializer m limit fp req)" "s_capacity (mk_serializer m limit fp req) = 65536 - 1024"
    using assms(2) by (simp_all add: mk_serializer_def)
  from draws_succeed [OF link_inv_init assms(1) this(2,1)]
  obtain st where d: "draws dcs (mk_serializer m limit fp req) = Inr st" by blast
  with link_correct [OF d assms(1)] show ?thesis by blast
qed

definition sample_clip :: rect where "sample_clip = mk_rect 0 0 640 480"
definition sample_drawings :: "(cmd \<times> rect) list" where
  "sample_drawings =
     [(COpaqueRect \<lparr>o_rect = mk_rect 10 10 20 20, o_color = 0xFF\<rparr>, sample_clip),
      (CDstBlt \<lparr>d_rect = mk_rect 600 400 100 100, d_rop = 0x55\<rparr>, sample_clip),
      (COpaqueRect \<lparr>o_rect = mk_rect 12 10 20 20, o_color = 0xFF00\<rparr>, sample_clip)]"

lemma sample_drawings_ok: "\<forall>dc\<in>set sample_drawings. cmd_ok (\<lambda>id idx. False) (fst dc)"
  by code_simp

theorem link_delivers_drawings_witness:
  "\<exists>st r. draws sample_drawings (mk_serializer 16384 True True 0) = Inr st
    \<and> receive_pdus (\<lambda>c st s. Inl UB) (\<lambda>c st s. Inl UB) True 640 480 (s_sent (sync st))
        (mk_receiver (\<lambda>id idx. False)) = Inr r
    \<and> drawn r = [(fst (sample_drawings ! 0), sample_clip), (fst (sample_drawings ! 1), sample_clip),
                 (fst (sample_drawings ! 2), sample_clip)]"
proof -
  obtain st r where l: "draws sample_drawings (mk_serializer 16384 True True 0) = Inr st"
    "receive_pdus (\<lambda>c st s. Inl UB) (\<lambda>c st s. Inl UB) True 640 480 (s_sent (sync st)) (mk_receiver (\<lambda>id idx. False)) = Inr r"
    "list_all2 (shows_as 640 480) sample_drawings (drawn r)"
    using link_delivers_drawings [OF sample_drawings_ok, of 16384 True True 0 "\<lambda>c st s. Inl UB" "\<lambda>c st s. Inl UB" 640 480]
    by auto
  have "drawn r = [(fst (sample_drawings ! 0), sample_clip), (fst (sample_drawings ! 1), sample_clip),
                 (fst (sample_drawings ! 2), sample_clip)]"
    using l(3) by (auto simp: sample_drawings_def list_all2_Cons1 shows_as_def cmd_same_def received_clip_def sample_clip_def)
  with l show ?thesis by blast
qed

text \<open>
  C4. Updates are cut within the limits: they are batches of 1 to 4096 drawings, in order and without
  loss, and no payload exceeds the buffer or the configured block size.
\<close>

theorem updates_within_limits:
  assumes "\<forall>dc\<in>set dcs. cmd_ok valid (fst dc)" "930 \<le> m"
    "draws dcs (mk_serializer m limit fp req) = Inr st"
  shows "(\<exists>bss. dcs = concat bss \<and> (\<forall>b\<in>set bss. 1 \<le> length b \<and> length b \<le> 4096)
      \<and> s_sent (sync st) = fst (batch_pdus fp initial_chunk bss))
    \<and> updates_fit (min (65536 - 1024) (if limit then min m MAX_ORDERS_SIZE else m)) (sync st)"
proof
  show "\<exists>bss. dcs = concat bss \<and> (\<forall>b\<in>set bss. 1 \<le> length b \<and> length b \<le> 4096)
      \<and> s_sent (sync st) = fst (batch_pdus fp initial_chunk bss)"
    by (rule sent_batches [OF assms(3)])
  show "updates_fit (min (65536 - 1024) (if limit then min m MAX_ORDERS_SIZE else m)) (sync st)"
    by (rule sent_fit [OF assms])
qed

theorem updates_within_limits_witness:
  "\<exists>st. draws sample_drawings (mk_serializer 20000 True True 0) = Inr st \<and> updates_fit 16384 (sync st)"
proof -
  let ?s0 = "mk_serializer 20000 True True 0"
  have "s_capacity ?s0 = 65536 - 1024" "930 \<le> s_max_data_block_size ?s0" by (simp_all add: mk_serializer_def)
  from draws_succeed [OF link_inv_init sample_drawings_ok this]
  obtain st where d: "draws sample_drawings ?s0 = Inr st" by blast
  with updates_within_limits [OF sample_drawings_ok _ d] show ?thesis by simp
qed

text \<open>
  C2. One drawing, in any state of the two histories: if they are in step, the bytes of \<open>draw\<close> start
  with a primary control byte, \<open>rdp_orders\<close> consumes exactly them, calls the same drawing with the
  clip the sender meant, and the histories are in step again.
\<close>

theorem order_keeps_histories_in_step:
  assumes "synced k (r_chunk st)" "cmd_ok (bmp_valid st) cmd"
  shows "\<exists>ctl rest k2 cmd' k2'. emit_cmd k cl cmd = (ctl # rest, k2) \<and> has ctl STANDARD \<and> \<not> has ctl SECONDARY
    \<and> process_primary w h ctl st (InStream (cs @ [ctl]) (rest @ r))
      = Inr (st\<lparr>r_chunk := k2', drawn := drawn st @ [(cmd', received_clip w h cl cmd)]\<rparr>, InStream (cs @ ctl # rest) r)
    \<and> cmd_same cmd cmd' \<and> synced k2 k2'"
proof -
  obtain bs k2 where "emit_cmd k cl cmd = (bs, k2)" by (cases "emit_cmd k cl cmd") auto
  from process_step [OF this assms(2,1), of w h cs r] this show ?thesis by auto
qed

theorem order_keeps_histories_in_step_witness:
  "\<exists>ctl rest k2 cmd' k2'. emit_cmd initial_chunk sample_clip (CDstBlt \<lparr>d_rect = mk_rect 600 400 100 100, d_rop = 0x55\<rparr>) = (ctl # rest, k2)
    \<and> process_primary 640 480 ctl (mk_receiver (\<lambda>id idx. False)) (InStream ([] @ [ctl]) (rest @ [1, 2]))
      = Inr ((mk_receiver (\<lambda>id idx. False))\<lparr>r_chunk := k2',
               drawn := [(CDstBlt \<lparr>d_rect = mk_rect 600 400 100 100, d_rop = 0x55\<rparr>, sample_clip)]\<rparr>, InStream ([] @ ctl # rest) [1, 2])"
proof -
  let ?c = "CDstBlt \<lparr>d_rect = mk_rect 600 400 100 100, d_rop = 0x55\<rparr>" and ?r = "mk_receiver (\<lambda>id idx. False)"
  have ok: "synced initial_chunk (r_chunk ?r)" "cmd_ok (bmp_valid ?r) ?c"
    using synced_initial by (simp_all add: mk_receiver_def cmd_ok_def)
  have "received_clip 640 480 sample_clip ?c = sample_clip" by code_simp
  with order_keeps_histories_in_step [OF ok, of sample_clip 640 480 "[]" "[1, 2]"] show ?thesis
    by (auto simp: cmd_same_def mk_receiver_def)
qed

text \<open>
  Sizes: an order takes at most \<open>wire_bound\<close> bytes, which is what \<open>draw\<close> reserves for eleven of the
  fourteen orders and at most 23 bytes more for the others, less than the 106 bytes kept for headers.
\<close>

theorem order_sizes_bounded:
  assumes "cmd_ok valid cmd"
  shows "length (fst (emit_cmd k cl cmd)) \<le> wire_bound cmd
    \<and> wire_bound cmd \<le> reserve_size cmd + 23 \<and> reserve_size cmd + 23 < reserve_size cmd + SERIALIZER_HEADER_SIZE"
  using emit_cmd_length [OF surjective_pairing assms, of k cl] wire_bound_slack [of cmd] by simp

theorem order_sizes_bounded_witness:
  "length (fst (emit_cmd initial_chunk sample_clip (CScrBlt \<lparr>sb_rect = mk_rect 1 1 9 9, sb_rop = 0xCC, sb_srcx = 3, sb_srcy = 4\<rparr>))) \<le> 25"
proof -
  have "cmd_ok (\<lambda>id idx. False) (CScrBlt \<lparr>sb_rect = mk_rect 1 1 9 9, sb_rop = 0xCC, sb_srcx = 3, sb_srcy = 4\<rparr>)"
    by (simp add: cmd_ok_def)
  from order_sizes_bounded [OF this, of initial_chunk sample_clip] show ?thesis
    by (simp add: wire_bound_def reserve_size_def)
qed

definition pat_worst :: PatBlt where
  "pat_worst = \<lparr>pb_rect = \<lparr>rx = 1000, ry = 1000, rcx = 500, rcy = 500\<rparr>, pb_rop = 0xF0, pb_back_color = 0xFFFFFF, pb_fore_color = 0x102030,
     pb_brush = \<lparr>org_x = 1, org_y = 2, bstyle = 3, bhatch = 4, extra = replicate 7 5\<rparr>\<rparr>"

text \<open>
  The reservation of \<open>draw(RDPPatBlt)\<close> is too small: a valid order takes 39 bytes on the wire where
  29 are reserved.
\<close>

theorem patblt_reservation_exceeded:
  "(let (bs, com) = order_emit PatBlt_header PatBlt_body \<lparr>corder = PATBLT, clip = mk_rect 300 300 1000 1000\<rparr>
      \<lparr>corder = RECT, clip = mk_rect 0 0 1 1\<rparr> pat_worst (ch_PatBlt initial_chunk)
    in length bs = 39 \<and> PatBlt_ok pat_worst) \<and> reserve_size (CPatBlt pat_worst) = 29"
proof -
  have p: "ch_PatBlt initial_chunk = \<lparr>pb_rect = zero_rect, pb_rop = 0, pb_back_color = 0, pb_fore_color = 0, pb_brush = zero_brush\<rparr>"
    by (simp add: initial_chunk_def)
  show ?thesis unfolding p by code_simp
qed

text \<open>
  \<open>reserve_order\<close> fails in one case only, and otherwise counts the order and leaves room for it: it
  throws when no fragmentation was negotiated and the order cannot fit an empty packet.
\<close>

theorem reserve_order_outcomes:
  "(\<exists>st'. reserve_order n st = Inr st' \<and> 0 < s_order_count st'
       \<and> (s_orders st' = [] \<or> s_order_count st = 0 \<or> length (s_orders st') + n + SERIALIZER_HEADER_SIZE \<le> max_packet_size st)
       \<and> s_order_count st' \<le> 4096)
   \<or> (reserve_order n st = Inl ERR_STREAM_MEMORY_TOO_SMALL
       \<and> s_max_request_size st = 0 \<and> n + SERIALIZER_HEADER_SIZE > max_packet_size st)"
  by (auto simp: reserve_order_def Let_def flush_orders_def flush_bitmaps_def)

definition ellipse_a :: EllipseSC where
  "ellipse_a = \<lparr>e_el = \<lparr>eleft = 10, etop = 20, eright_edge = 30, ebottom_edge = 40\<rparr>,
     e_rop2 = 13, e_fill = 1, e_color = 0xFF\<rparr>"

definition ellipse_b :: EllipseSC where
  "ellipse_b = \<lparr>e_el = \<lparr>eleft = 0, etop = 0, eright_edge = 30, ebottom_edge = 40\<rparr>,
     e_rop2 = 13, e_fill = 1, e_color = 0xFF\<rparr>"

text \<open>
  \<open>rdp_orders::reset\<close> puts every history but that of ellipses back to the initial state; a receiver
  that drew an ellipse before the reset decodes the first ellipse of the new session wrongly.
\<close>

theorem reset_keeps_ellipse:
  "reset_chunk k = initial_chunk\<lparr>ch_EllipseSC := ch_EllipseSC k\<rparr>
   \<and> (let r = receiver_reset ((mk_receiver valid)\<lparr>r_chunk := initial_chunk\<lparr>ch_EllipseSC := ellipse_a\<rparr>\<rparr>);
          (bs, com) = order_emit EllipseSC_header EllipseSC_body \<lparr>corder = ELLIPSESC, clip = mk_rect 0 0 640 480\<rparr>
            (ch_common initial_chunk) ellipse_b (ch_EllipseSC initial_chunk)
      in (case order_receive EllipseSC_receive (ch_common (r_chunk r)) (ch_EllipseSC (r_chunk r)) (instream_of bs) of
            Inr (com', c', s) \<Rightarrow> com' = com \<and> c' \<noteq> ellipse_b
          | Inl e \<Rightarrow> False))"
proof
  show "reset_chunk k = initial_chunk\<lparr>ch_EllipseSC := ch_EllipseSC k\<rparr>" by (simp add: reset_chunk_def)
  define r where "r = receiver_reset ((mk_receiver valid)\<lparr>r_chunk := initial_chunk\<lparr>ch_EllipseSC := ellipse_a\<rparr>\<rparr>)"
  have r: "ch_common (r_chunk r) = \<lparr>corder = PATBLT, clip = mk_rect 0 0 1 1\<rparr>" "ch_EllipseSC (r_chunk r) = ellipse_a"
    "ch_common initial_chunk = \<lparr>corder = PATBLT, clip = mk_rect 0 0 1 1\<rparr>" "ch_EllipseSC initial_chunk = zero_ellipse"
    by (simp_all add: r_def receiver_reset_def reset_chunk_def initial_chunk_def)
  show "let r = receiver_reset ((mk_receiver valid)\<lparr>r_chunk := initial_chunk\<lparr>ch_EllipseSC := ellipse_a\<rparr>\<rparr>);
          (bs, com) = order_emit EllipseSC_header EllipseSC_body \<lparr>corder = ELLIPSESC, clip = mk_rect 0 0 640 480\<rparr>
            (ch_common initial_chunk) ellipse_b (ch_EllipseSC initial_chunk)
      in (case order_receive EllipseSC_receive (ch_common (r_chunk r)) (ch_EllipseSC (r_chunk r)) (instream_of bs) of
            Inr (com', c', s) \<Rightarrow> com' = com \<and> c' \<noteq> ellipse_b
          | Inl e \<Rightarrow> False)"
    unfolding r_def [symmetric] Let_def r by code_simp
qed

definition two_glyphs :: GlyphIndex where
  "two_glyphs = \<lparr>g_cache_id = 0, g_fl_accel = 0, g_ui_charinc = 0, g_f_op_redundant = 0,
        g_back_color = 0, g_fore_color = 0, g_bk = mk_rect 0 0 1 1, g_op = mk_rect 0 0 1 1,
        g_brush = zero_brush, g_glyph_x = 0, g_glyph_y = 0, g_data_len = 2, g_data = [1, 2]\<rparr>"

text \<open>
  A glyph order without glyphs is not transmitted as such: the receiver draws the glyphs of the
  previous order again.
\<close>

theorem empty_glyphs_not_sent:
  "(let (bs, com) = order_emit GlyphIndex_header GlyphIndex_body \<lparr>corder = GLYPHINDEX, clip = mk_rect 0 0 640 480\<rparr>
      \<lparr>corder = PATBLT, clip = mk_rect 0 0 1 1\<rparr> (two_glyphs\<lparr>g_data_len := 0\<rparr>) two_glyphs
    in (case order_receive GlyphIndex_receive \<lparr>corder = PATBLT, clip = mk_rect 0 0 1 1\<rparr> two_glyphs (instream_of bs) of
          Inr (com', c', s) \<Rightarrow> com' = com \<and> c' = two_glyphs
        | Inl e \<Rightarrow> False))"
  by code_simp

end
